(* ===== verification/Prelude.thy ===== *)
theory Prelude
  imports Main "HOL-Library.AList" "HOL-Library.Multiset" "HOL-Library.List_Lexorder" "HOL-Library.Word"
begin

text \<open>
  The shared prelude: the collections of facts the component theories extend, the JavaScript
  notions every component uses (array slices, safe integers, strings as lists of UTF-16 code
  units) and the generic lemmas on lists they rest on.
\<close>

named_theorems wf_intros \<open>well-formedness is preserved\<close>
named_theorems js_simps \<open>evaluation of the JavaScript library functions\<close>

subsection \<open>Strings\<close>

text \<open>
  A JavaScript string is a sequence of UTF-16 code units, and \<open>length\<close>, \<open>charCodeAt\<close>,
  \<open>slice\<close> and \<open><\<close> work on code units. Equality and the lexicographic order
  (from HOL-Library.List\_Lexorder) are those of the list.
\<close>

type_synonym jschar = "16 word"
type_synonym jsstr = "jschar list"

text \<open>A literal: an ASCII string of Isabelle as a JavaScript string.\<close>

definition js :: "string \<Rightarrow> jsstr" where
  "js s = map of_char s"

lemma of_char_unit_inject: "(of_char c :: jschar) = of_char d \<longleftrightarrow> c = d"
proof -
  have "unat (of_char c :: jschar) = of_char c" for c :: char
  proof -
    have "unat (of_nat (of_char c) :: jschar) = of_char c mod 2 ^ 16" by (simp only: unat_of_nat) simp
    then show ?thesis using nat_of_char_less_256 [of c] by (simp add: of_nat_of_char)
  qed
  then show ?thesis by (metis of_char_eq_iff)
qed

lemma js_inject [simp]: "js s = js t \<longleftrightarrow> s = t"
  unfolding js_def by (rule inj_map_eq_map) (simp add: inj_def of_char_unit_inject)

text \<open>The separator of composite keys, the code unit 0.\<close>

definition nul :: jsstr where
  "nul = [0]"

subsection \<open>Numbers\<close>

text \<open>\<open>Number.MAX_SAFE_INTEGER\<close>, and \<open>Number.isSafeInteger\<close> on integers.\<close>

definition max_safe_integer :: int where
  "max_safe_integer = 9007199254740991"

definition is_safe_integer :: "int \<Rightarrow> bool" where
  "is_safe_integer n \<longleftrightarrow> \<bar>n\<bar> \<le> max_safe_integer"

subsection \<open>Array slices\<close>

text \<open>
  \<open>xs.slice(-n)\<close> for a natural number \<open>n\<close>: the last \<open>n\<close> items; \<open>slice(-0)\<close>
  is \<open>slice(0)\<close>, the whole array.
\<close>

definition slice_last :: "nat \<Rightarrow> 'a list \<Rightarrow> 'a list" where
  "slice_last n xs = (if n = 0 then xs else drop (length xs - n) xs)"

lemma slice_last_suffix: "\<exists>ys. xs = ys @ slice_last n xs"
  by (metis append_Nil append_take_drop_id slice_last_def)

lemma length_slice_last: "length (slice_last n xs) = (if n = 0 then length xs else min n (length xs))"
  by (auto simp: slice_last_def)

lemma set_slice_last: "set (slice_last n xs) \<subseteq> set xs"
  by (auto simp: slice_last_def dest: in_set_dropD)

lemma distinct_slice_last [wf_intros]: "distinct xs \<Longrightarrow> distinct (slice_last n xs)"
  by (simp add: slice_last_def)

lemma map_slice_last: "map f (slice_last n xs) = slice_last n (map f xs)"
  by (simp add: slice_last_def drop_map)

subsection \<open>Lists\<close>

lemma filter_neq_id: "x \<notin> set xs \<Longrightarrow> filter (\<lambda>y. y \<noteq> x) xs = xs"
  by (induction xs) auto

lemma filter_neq_hd: "distinct (x # xs) \<Longrightarrow> filter (\<lambda>y. y \<noteq> x) (x # xs) = xs"
  by (simp add: filter_neq_id)

lemma distinct_snoc_filter:
  "distinct xs \<Longrightarrow> distinct (filter (\<lambda>y. y \<noteq> x) xs @ [x])"
  by simp

lemma length_filter_neq: "distinct xs \<Longrightarrow> x \<in> set xs \<Longrightarrow> Suc (length (filter (\<lambda>y. y \<noteq> x) xs)) = length xs"
  by (induction xs) (auto simp: filter_neq_id)

subsection \<open>Stable sorting by a comparator\<close>

text \<open>
  \<open>xs.sort(compare)\<close>: stable, with \<open>x\<close> before \<open>y\<close> where \<open>compare(x, y)\<close> is not positive. For a
  consistent comparator every stable sort returns this list.
\<close>

fun insert_by :: "('a \<Rightarrow> 'a \<Rightarrow> int) \<Rightarrow> 'a \<Rightarrow> 'a list \<Rightarrow> 'a list" where
  "insert_by compare x [] = [x]"
| "insert_by compare x (y # ys) = (if compare x y \<le> 0 then x # y # ys else y # insert_by compare x ys)"

definition sort_by :: "('a \<Rightarrow> 'a \<Rightarrow> int) \<Rightarrow> 'a list \<Rightarrow> 'a list" where
  "sort_by compare xs = foldr (insert_by compare) xs []"

lemma mset_insert_by: "mset (insert_by compare x ys) = add_mset x (mset ys)"
  by (induction ys) auto

lemma mset_sort_by [simp]: "mset (sort_by compare xs) = mset xs"
  by (induction xs) (simp_all add: sort_by_def mset_insert_by)

lemma set_sort_by [simp]: "set (sort_by compare xs) = set xs"
  by (metis mset_sort_by set_mset_mset)

lemma distinct_map_sort_by: "distinct (map f (sort_by compare xs)) = distinct (map f xs)"
  by (metis mset_map mset_sort_by mset_eq_imp_distinct_iff)

end
