(* ===== verification/JsMap.thy ===== *)
theory JsMap
  imports Prelude
begin

text \<open>
  The JavaScript \<open>Map\<close>: an insertion-ordered finite map. A \<open>set\<close> of a key that is present
  replaces the value and keeps the key's place; a \<open>set\<close> of a new key goes to the end, so
  iteration order is insertion order and the first key is the oldest one. The model is the list
  of entries in iteration order; its well-formedness is that no key occurs twice. The laws the
  components use are the locale \<open>ordered_map\<close>, interpreted on the model below.
\<close>

type_synonym ('k, 'v) jsmap = "('k \<times> 'v) list"

definition jm_get :: "('k, 'v) jsmap \<Rightarrow> 'k \<Rightarrow> 'v option" where
  "jm_get m k = map_of m k"

definition jm_has :: "('k, 'v) jsmap \<Rightarrow> 'k \<Rightarrow> bool" where
  "jm_has m k \<longleftrightarrow> map_of m k \<noteq> None"

definition jm_set :: "'k \<Rightarrow> 'v \<Rightarrow> ('k, 'v) jsmap \<Rightarrow> ('k, 'v) jsmap" where
  "jm_set k v m = AList.update k v m"

definition jm_delete :: "'k \<Rightarrow> ('k, 'v) jsmap \<Rightarrow> ('k, 'v) jsmap" where
  "jm_delete k m = AList.delete k m"

definition jm_keys :: "('k, 'v) jsmap \<Rightarrow> 'k list" where
  "jm_keys m = map fst m"

definition jm_values :: "('k, 'v) jsmap \<Rightarrow> 'v list" where
  "jm_values m = map snd m"

definition jm_wf :: "('k, 'v) jsmap \<Rightarrow> bool" where
  "jm_wf m \<longleftrightarrow> distinct (map fst m)"

text \<open>\<open>new Map(entries)\<close>: the entries are set one after the other.\<close>

definition jm_of_entries :: "('k \<times> 'v) list \<Rightarrow> ('k, 'v) jsmap" where
  "jm_of_entries es = fold (\<lambda>(k, v). jm_set k v) es []"

subsection \<open>The interface\<close>

locale ordered_map =
  fixes get :: "'m \<Rightarrow> 'k \<Rightarrow> 'v option"
    and put :: "'k \<Rightarrow> 'v \<Rightarrow> 'm \<Rightarrow> 'm"
    and del :: "'k \<Rightarrow> 'm \<Rightarrow> 'm"
    and keys :: "'m \<Rightarrow> 'k list"
    and wf :: "'m \<Rightarrow> bool"
  assumes get_put: "get (put k v m) = (get m)(k \<mapsto> v)"
    and get_del: "get (del k m) = (get m)(k := None)"
    and keys_put: "keys (put k v m) = (if k \<in> set (keys m) then keys m else keys m @ [k])"
    and keys_del: "keys (del k m) = filter (\<lambda>x. x \<noteq> k) (keys m)"
    and get_keys: "get m k = None \<longleftrightarrow> k \<notin> set (keys m)"
    and wf_put: "wf m \<Longrightarrow> wf (put k v m)"
    and wf_del: "wf m \<Longrightarrow> wf (del k m)"
    and wf_keys: "wf m \<Longrightarrow> distinct (keys m)"
begin

text \<open>
  Deleting a key and setting it again makes it the newest one: this is how the code keeps a
  \<open>Map\<close> in order of recency.
\<close>

lemma keys_touch: "keys (put k v (del k m)) = filter (\<lambda>x. x \<noteq> k) (keys m) @ [k]"
  by (simp add: keys_put keys_del)

lemma get_touch: "get (put k v (del k m)) = (get m)(k \<mapsto> v)"
  by (simp add: get_put get_del)

lemma wf_touch: "wf m \<Longrightarrow> wf (put k v (del k m))"
  by (simp add: wf_put wf_del)

lemma size_put: "length (keys (put k v m)) \<le> Suc (length (keys m))"
  by (simp add: keys_put)

lemma size_put_present: "k \<in> set (keys m) \<Longrightarrow> length (keys (put k v m)) = length (keys m)"
  by (simp add: keys_put)

lemma size_touch_present:
  "wf m \<Longrightarrow> k \<in> set (keys m) \<Longrightarrow> length (keys (put k v (del k m))) = length (keys m)"
  using length_filter_neq [OF wf_keys] by (simp add: keys_touch)

lemma size_del_le: "length (keys (del k m)) \<le> length (keys m)"
  by (simp add: keys_del)

text \<open>Deleting the oldest key drops exactly the head of the iteration order.\<close>

lemma keys_del_oldest: "wf m \<Longrightarrow> keys m = k # ks \<Longrightarrow> keys (del k m) = ks"
  using wf_keys [of m] by (simp add: keys_del filter_neq_id)

end

subsection \<open>The model is an ordered map\<close>

lemma jm_get_set [simp]: "jm_get (jm_set k v m) = (jm_get m)(k \<mapsto> v)"
  by (rule ext) (simp add: jm_get_def jm_set_def AList.update_conv')

lemma jm_get_delete [simp]: "jm_get (jm_delete k m) = (jm_get m)(k := None)"
  by (rule ext) (simp add: jm_get_def jm_delete_def AList.delete_conv')

lemma jm_keys_set:
  "jm_keys (jm_set k v m) = (if k \<in> set (jm_keys m) then jm_keys m else jm_keys m @ [k])"
  by (simp add: jm_keys_def jm_set_def AList.update_keys)

lemma jm_keys_delete: "jm_keys (jm_delete k m) = filter (\<lambda>x. x \<noteq> k) (jm_keys m)"
  by (induction m) (auto simp: jm_keys_def jm_delete_def)

lemma jm_get_keys: "jm_get m k = None \<longleftrightarrow> k \<notin> set (jm_keys m)"
  by (auto simp: jm_get_def jm_keys_def map_of_eq_None_iff image_iff)

lemma jm_wf_keys: "jm_wf m \<longleftrightarrow> distinct (jm_keys m)"
  by (simp add: jm_wf_def jm_keys_def)

interpretation jm: ordered_map jm_get jm_set jm_delete jm_keys jm_wf
  by unfold_locales (auto simp: jm_keys_set jm_keys_delete jm_get_keys jm_wf_keys)

lemmas jm_wf_set [wf_intros] = jm.wf_put
lemmas jm_wf_delete [wf_intros] = jm.wf_del

lemma jm_wf_Nil [wf_intros, simp]: "jm_wf []"
  by (simp add: jm_wf_def)

lemma jm_has_get: "jm_has m k \<longleftrightarrow> jm_get m k \<noteq> None"
  by (simp add: jm_has_def jm_get_def)

lemma jm_has_keys: "jm_has m k \<longleftrightarrow> k \<in> set (jm_keys m)"
  using jm_get_keys [of m k] by (simp add: jm_has_get)

lemma length_jm_keys [simp]: "length (jm_keys m) = length m"
  by (simp add: jm_keys_def)

lemma jm_get_Nil [simp]: "jm_get [] k = None"
  by (simp add: jm_get_def)

lemma jm_get_Cons: "jm_get ((k', v) # m) k = (if k = k' then Some v else jm_get m k)"
  by (simp add: jm_get_def)

lemma jm_get_in_set: "jm_get m k = Some v \<Longrightarrow> (k, v) \<in> set m"
  by (simp add: jm_get_def map_of_SomeD)

lemma jm_get_iff_in_set: "jm_wf m \<Longrightarrow> jm_get m k = Some v \<longleftrightarrow> (k, v) \<in> set m"
  by (simp add: jm_get_def jm_wf_def)

lemma jm_list_all_get: "list_all P m \<Longrightarrow> jm_get m k = Some v \<Longrightarrow> P (k, v)"
  by (simp add: list_all_iff jm_get_in_set)

lemma jm_delete_filter: "jm_delete k m = filter (\<lambda>p. fst p \<noteq> k) m"
  by (induction m) (auto simp: jm_delete_def)

lemma jm_set_notin: "k \<notin> set (jm_keys m) \<Longrightarrow> jm_set k v m = m @ [(k, v)]"
  by (induction m) (auto simp: jm_set_def jm_keys_def)

lemma jm_touch: "jm_set k v (jm_delete k m) = filter (\<lambda>p. fst p \<noteq> k) m @ [(k, v)]"
  by (subst jm_set_notin) (simp_all add: jm_keys_delete, simp add: jm_delete_filter)

lemma jm_wf_filter [wf_intros]: "jm_wf m \<Longrightarrow> jm_wf (filter P m)"
  by (simp add: jm_wf_def distinct_map_filter)

lemma jm_wf_drop [wf_intros]: "jm_wf m \<Longrightarrow> jm_wf (drop n m)"
  by (simp add: jm_wf_def drop_map [symmetric])

lemma jm_set_in_set:
  "x \<in> set (jm_set k v m) \<Longrightarrow> x = (k, v) \<or> x \<in> set m"
  by (induction m) (auto simp: jm_set_def split: if_splits)

lemma jm_set_code [js_simps]:
  "jm_set k v [] = [(k, v)]"
  "jm_set k v ((k', w) # m) = (if k = k' then (k', v) # m else (k', w) # jm_set k v m)"
  by (auto simp: jm_set_def)

lemma jm_delete_code [js_simps]:
  "jm_delete k [] = []"
  "jm_delete k ((k', w) # m) = (if k = k' then jm_delete k m else (k', w) # jm_delete k m)"
  by (auto simp: jm_delete_def)

lemma filter_fst_notin: "k \<notin> fst ` set m \<Longrightarrow> filter (\<lambda>p. fst p \<noteq> k) m = m"
  by (induction m) auto

lemma jm_delete_middle: "jm_wf (m1 @ (k, v) # m2) \<Longrightarrow> jm_delete k (m1 @ (k, v) # m2) = m1 @ m2"
  by (auto simp: jm_delete_filter jm_wf_def filter_fst_notin)

text \<open>A key that is present splits the iteration order.\<close>

lemma jm_get_split:
  assumes "jm_wf m" "jm_get m k = Some v"
  obtains m1 m2 where "m = m1 @ (k, v) # m2" "filter (\<lambda>p. fst p \<noteq> k) m = m1 @ m2"
    "k \<notin> fst ` set m1" "k \<notin> fst ` set m2"
proof -
  from assms obtain m1 m2 where m: "m = m1 @ (k, v) # m2"
    by (meson jm_get_in_set split_list)
  moreover from m assms(1) have "k \<notin> fst ` set m1" "k \<notin> fst ` set m2" by (auto simp: jm_wf_def)
  ultimately show ?thesis using that by (simp add: filter_fst_notin)
qed

subsection \<open>Maps from entry lists\<close>

lemma jm_wf_fold_set: "jm_wf m \<Longrightarrow> jm_wf (fold (\<lambda>(k, v). jm_set k v) es m)"
  by (induction es arbitrary: m) (auto intro: jm_wf_set)

lemma jm_wf_of_entries [wf_intros, simp]: "jm_wf (jm_of_entries es)"
  by (simp add: jm_of_entries_def jm_wf_fold_set)

lemma jm_get_fold_set:
  "jm_get (fold (\<lambda>(k, v). jm_set k v) es m) k =
     (case map_of (rev es) k of None \<Rightarrow> jm_get m k | Some v \<Rightarrow> Some v)"
  by (induction es arbitrary: m) (auto simp: map_add_def split: option.splits)

lemma jm_get_of_entries: "jm_get (jm_of_entries es) k = map_of (rev es) k"
  by (simp add: jm_of_entries_def jm_get_fold_set split: option.splits)

lemma jm_fold_set_distinct:
  "distinct (map fst es) \<Longrightarrow> fst ` set es \<inter> set (jm_keys m) = {} \<Longrightarrow>
   fold (\<lambda>(k, v). jm_set k v) es m = m @ es"
proof (induction es arbitrary: m)
  case (Cons p es)
  obtain k v where p: "p = (k, v)" by (cases p)
  from Cons.prems p have "jm_set k v m = m @ [(k, v)]" by (simp add: jm_set_notin)
  with Cons.IH [of "m @ [(k, v)]"] Cons.prems p show ?case by (auto simp: jm_keys_def)
qed simp

text \<open>Copying a map through its entries gives the map back.\<close>

lemma jm_of_entries_id: "jm_wf m \<Longrightarrow> jm_of_entries m = m"
  by (simp add: jm_of_entries_def jm_wf_def jm_fold_set_distinct jm_keys_def)

subsection \<open>Eviction of the oldest entries\<close>

text \<open>\<open>while (next.size > max) next.delete(next.keys().next().value)\<close>\<close>

function jm_evict :: "nat \<Rightarrow> ('k, 'v) jsmap \<Rightarrow> ('k, 'v) jsmap" where
  "jm_evict n m = (if n < length m then jm_evict n (jm_delete (fst (hd m)) m) else m)"
  by pat_completeness auto
termination
proof (relation "measure (\<lambda>(n, m). length m)")
  fix n :: nat and m :: "('k, 'v) jsmap"
  assume "n < length m"
  then obtain p m' where m: "m = p # m'" by (cases m) auto
  have "length (jm_delete (fst p) m') \<le> length m'"
    by (simp add: jm_delete_def AList.length_delete_le)
  then show "((n, jm_delete (fst (hd m)) m), n, m) \<in> measure (\<lambda>(n, m). length m)"
    using m by (cases p) (simp add: jm_delete_def)
qed simp

declare jm_evict.simps [simp del]

lemma jm_delete_hd: "jm_wf (p # m) \<Longrightarrow> jm_delete (fst p) (p # m) = m"
  by (simp add: jm_delete_filter jm_wf_def) (metis (mono_tags, lifting) filter_True imageI)

text \<open>The loop keeps exactly the newest \<open>n\<close> entries.\<close>

lemma jm_evict_drop: "jm_wf m \<Longrightarrow> jm_evict n m = drop (length m - n) m"
proof (induction n m rule: jm_evict.induct)
  case (1 n m)
  show ?case
  proof (cases "n < length m")
    case True
    then obtain p m' where m: "m = p # m'" by (cases m) auto
    from "1.prems" m have del: "jm_delete (fst (hd m)) m = m'" and "jm_wf m'"
      using jm_delete_hd [of p m'] by (auto simp: jm_wf_def)
    with "1.IH" True have "jm_evict n m' = drop (length m' - n) m'" by simp
    with True m del show ?thesis by (subst jm_evict.simps) (simp add: Suc_diff_le)
  next
    case False
    then show ?thesis by (simp add: jm_evict.simps [of n m])
  qed
qed

lemma jm_wf_evict [wf_intros]: "jm_wf m \<Longrightarrow> jm_wf (jm_evict n m)"
  by (simp add: jm_evict_drop jm_wf_drop)

lemma length_jm_evict: "jm_wf m \<Longrightarrow> length (jm_evict n m) = min n (length m)"
  by (auto simp: jm_evict_drop)

lemma jm_evict_in_set: "jm_wf m \<Longrightarrow> x \<in> set (jm_evict n m) \<Longrightarrow> x \<in> set m"
  by (auto simp: jm_evict_drop dest: in_set_dropD)

lemma jm_evict_id: "length m \<le> n \<Longrightarrow> jm_evict n m = m"
  by (simp add: jm_evict.simps)

end
