(* ===== verification/Utf8.thy ===== *)
theory Utf8
  imports Prelude
begin

text \<open>
  The text codecs of the platform: \<open>TextEncoder\<close> (UTF-16 to UTF-8, an unpaired surrogate
  becomes U+FFFD) and \<open>TextDecoder\<close> in its default mode (UTF-8 to UTF-16 by the decoder of the
  Encoding Standard, ill-formed input becomes U+FFFD, a leading byte order mark is dropped).
  Bytes and code points are natural numbers. The lemmas show that the decoder inverts the
  encoder on scalar values, so what a budgeted cut at a character boundary keeps is exactly a
  run of the characters it was given.
\<close>

subsection \<open>UTF-16 code units and code points\<close>

definition is_high :: "jschar \<Rightarrow> bool" where
  "is_high c \<longleftrightarrow> 0xD800 \<le> unat c \<and> unat c \<le> 0xDBFF"

definition is_low :: "jschar \<Rightarrow> bool" where
  "is_low c \<longleftrightarrow> 0xDC00 \<le> unat c \<and> unat c \<le> 0xDFFF"

definition replacement :: nat where
  "replacement = 0xFFFD"

fun code_points :: "jsstr \<Rightarrow> nat list" where
  "code_points [] = []"
| "code_points [c] = [if is_high c \<or> is_low c then replacement else unat c]"
| "code_points (c # d # s) =
     (if is_high c then
        (if is_low d
         then (0x10000 + (unat c - 0xD800) * 0x400 + (unat d - 0xDC00)) # code_points s
         else replacement # code_points (d # s))
      else if is_low c then replacement # code_points (d # s)
      else unat c # code_points (d # s))"

definition scalar :: "nat \<Rightarrow> bool" where
  "scalar n \<longleftrightarrow> n < 0xD800 \<or> 0xE000 \<le> n \<and> n < 0x110000"

definition utf16_one :: "nat \<Rightarrow> jsstr" where
  "utf16_one n =
     (if n < 0x10000 then [of_nat n]
      else [of_nat (0xD800 + (n - 0x10000) div 0x400), of_nat (0xDC00 + (n - 0x10000) mod 0x400)])"

definition utf16 :: "nat list \<Rightarrow> jsstr" where
  "utf16 ns = concat (map utf16_one ns)"

subsection \<open>UTF-8\<close>

definition utf8_one :: "nat \<Rightarrow> nat list" where
  "utf8_one c =
     (if c < 0x80 then [c]
      else if c < 0x800 then [0xC0 + c div 0x40, 0x80 + c mod 0x40]
      else if c < 0x10000 then [0xE0 + c div 0x1000, 0x80 + c div 0x40 mod 0x40, 0x80 + c mod 0x40]
      else [0xF0 + c div 0x40000, 0x80 + c div 0x1000 mod 0x40, 0x80 + c div 0x40 mod 0x40,
            0x80 + c mod 0x40])"

definition utf8_points :: "nat list \<Rightarrow> nat list" where
  "utf8_points ns = concat (map utf8_one ns)"

text \<open>\<open>new TextEncoder().encode(s)\<close>\<close>

definition utf8_encode :: "jsstr \<Rightarrow> nat list" where
  "utf8_encode s = utf8_points (code_points s)"

text \<open>
  The decoder: \<open>need\<close> continuation bytes are still to come for the code point \<open>cp\<close>, and the
  next one must lie between \<open>lo\<close> and \<open>hi\<close>.
\<close>

function utf8_dec :: "nat \<Rightarrow> nat \<Rightarrow> nat \<Rightarrow> nat \<Rightarrow> nat list \<Rightarrow> nat list" where
  "utf8_dec cp need lo hi [] = (if need = 0 then [] else [replacement])"
| "utf8_dec cp need lo hi (b # bs) =
     (if need = 0 then
        (if b < 0x80 then b # utf8_dec 0 0 0x80 0xBF bs
         else if 0xC2 \<le> b \<and> b \<le> 0xDF then utf8_dec (b - 0xC0) 1 0x80 0xBF bs
         else if 0xE0 \<le> b \<and> b \<le> 0xEF then
           utf8_dec (b - 0xE0) 2 (if b = 0xE0 then 0xA0 else 0x80) (if b = 0xED then 0x9F else 0xBF) bs
         else if 0xF0 \<le> b \<and> b \<le> 0xF4 then
           utf8_dec (b - 0xF0) 3 (if b = 0xF0 then 0x90 else 0x80) (if b = 0xF4 then 0x8F else 0xBF) bs
         else replacement # utf8_dec 0 0 0x80 0xBF bs)
      else if lo \<le> b \<and> b \<le> hi then
        (if need = 1 then (cp * 0x40 + (b - 0x80)) # utf8_dec 0 0 0x80 0xBF bs
         else utf8_dec (cp * 0x40 + (b - 0x80)) (need - 1) 0x80 0xBF bs)
      else replacement # utf8_dec 0 0 0x80 0xBF (b # bs))"
  by pat_completeness auto
termination
  by (relation "measures [\<lambda>(cp, need, lo, hi, bs). length bs, \<lambda>(cp, need, lo, hi, bs). need]") auto

definition strip_bom :: "nat list \<Rightarrow> nat list" where
  "strip_bom bs = (if take 3 bs = [0xEF, 0xBB, 0xBF] then drop 3 bs else bs)"

text \<open>\<open>new TextDecoder().decode(bytes)\<close>\<close>

definition utf8_decode :: "nat list \<Rightarrow> jsstr" where
  "utf8_decode bs = utf16 (utf8_dec 0 0 0x80 0xBF (strip_bom bs))"

text \<open>The test \<open>(byte & 0xc0) === 0x80\<close> for a continuation byte.\<close>

definition is_cont :: "nat \<Rightarrow> bool" where
  "is_cont b \<longleftrightarrow> Bit_Operations.and b 0xC0 = 0x80"

subsection \<open>Lemmas\<close>

lemma unat_lt: "unat (c :: jschar) < 0x10000"
  using unsigned_less [of c] by simp

lemma unat_of_nat_unit: "n < 0x10000 \<Longrightarrow> unat (of_nat n :: jschar) = n"
  by (simp add: unat_of_nat)

lemma scalar_replacement [simp]: "scalar replacement"
  by (simp add: scalar_def replacement_def)

lemma scalar_unit: "\<not> is_high c \<Longrightarrow> \<not> is_low c \<Longrightarrow> scalar (unat c)"
  using unat_lt [of c] by (auto simp: scalar_def is_high_def is_low_def)

lemma scalar_pair:
  "is_high c \<Longrightarrow> is_low d \<Longrightarrow> scalar (0x10000 + (unat c - 0xD800) * 0x400 + (unat d - 0xDC00))"
  by (auto simp: scalar_def is_high_def is_low_def)

lemma code_points_scalar: "list_all scalar (code_points s)"
  by (induction s rule: code_points.induct) (auto intro: scalar_unit scalar_pair)

lemma utf16_one_scalar_low:
  "scalar n \<Longrightarrow> n < 0x10000 \<Longrightarrow> \<exists>c. utf16_one n = [c] \<and> unat c = n \<and> \<not> is_high c \<and> \<not> is_low c"
  by (auto simp: utf16_one_def scalar_def is_high_def is_low_def unat_of_nat_unit)

lemma utf16_one_scalar_high:
  assumes "scalar n" "0x10000 \<le> n"
  shows "\<exists>c d. utf16_one n = [c, d] \<and> is_high c \<and> is_low d \<and>
           0x10000 + (unat c - 0xD800) * 0x400 + (unat d - 0xDC00) = n"
proof -
  let ?q = "(n - 0x10000) div 0x400" and ?r = "(n - 0x10000) mod 0x400"
  from assms have n: "n < 0x110000" by (simp add: scalar_def)
  have q: "?q < 0x400" using n by (simp add: less_mult_imp_div_less)
  have r: "?r \<le> 0x3FF" using mod_less_divisor [of "0x400" "n - 0x10000"] by linarith
  have uc: "unat (of_nat (0xD800 + ?q) :: jschar) = 0xD800 + ?q"
    using q by (intro unat_of_nat_unit) simp
  have ud: "unat (of_nat (0xDC00 + ?r) :: jschar) = 0xDC00 + ?r"
    using r by (intro unat_of_nat_unit) simp
  have "?q * 0x400 + ?r = n - 0x10000" by (rule div_mult_mod_eq)
  with assms(2) have "0x10000 + ?q * 0x400 + ?r = n" by linarith
  with uc ud q r assms(2) show ?thesis
    unfolding utf16_one_def is_high_def is_low_def by auto
qed

lemma code_points_scalar_Cons:
  assumes "scalar n"
  shows "code_points (utf16_one n @ s) = n # code_points s"
proof (cases "n < 0x10000")
  case True
  then obtain c where c: "utf16_one n = [c]" "unat c = n" "\<not> is_high c" "\<not> is_low c"
    using utf16_one_scalar_low [OF assms] by blast
  then show ?thesis by (cases s) auto
next
  case False
  then obtain c d where "utf16_one n = [c, d]" "is_high c" "is_low d"
      "0x10000 + (unat c - 0xD800) * 0x400 + (unat d - 0xDC00) = n"
    using utf16_one_scalar_high [OF assms] by auto
  then show ?thesis by simp
qed

text \<open>Turning code points into a string and back is the identity on scalar values.\<close>

lemma code_points_utf16: "list_all scalar ns \<Longrightarrow> code_points (utf16 ns) = ns"
  by (induction ns) (simp_all add: utf16_def code_points_scalar_Cons)

text \<open>The digits of a code point in base 64.\<close>

lemma digit2: "(c :: nat) div 0x1000 * 0x40 + c div 0x40 mod 0x40 = c div 0x40"
  using div_mult_mod_eq [of "c div 0x40" "0x40"] by (simp add: div_mult2_eq [symmetric])

lemma digit3: "(c :: nat) div 0x40000 * 0x40 + c div 0x1000 mod 0x40 = c div 0x1000"
  using div_mult_mod_eq [of "c div 0x1000" "0x40"] by (simp add: div_mult2_eq [symmetric])

lemma three_bytes: "((c :: nat) div 0x1000 * 0x40 + c div 0x40 mod 0x40) * 0x40 + c mod 0x40 = c"
  by (simp add: digit2)

lemma four_bytes:
  "(((c :: nat) div 0x40000 * 0x40 + c div 0x1000 mod 0x40) * 0x40 + c div 0x40 mod 0x40) * 0x40
     + c mod 0x40 = c"
  by (simp add: digit2 digit3)

text \<open>The decoder, one byte at a time.\<close>

declare utf8_dec.simps(2) [simp del]

lemma utf8_dec_ascii: "b < 0x80 \<Longrightarrow> utf8_dec cp 0 lo hi (b # bs) = b # utf8_dec 0 0 0x80 0xBF bs"
  by (simp add: utf8_dec.simps(2))

lemma utf8_dec_lead2:
  "2 \<le> x \<Longrightarrow> x < 0x20 \<Longrightarrow> utf8_dec cp 0 lo hi ((0xC0 + x) # bs) = utf8_dec x 1 0x80 0xBF bs"
  by (subst utf8_dec.simps(2)) simp

lemma utf8_dec_lead3:
  "x < 0x10 \<Longrightarrow> utf8_dec cp 0 lo hi ((0xE0 + x) # bs) =
     utf8_dec x 2 (if x = 0 then 0xA0 else 0x80) (if x = 0xD then 0x9F else 0xBF) bs"
  by (subst utf8_dec.simps(2)) simp

lemma utf8_dec_lead4:
  "x < 5 \<Longrightarrow> utf8_dec cp 0 lo hi ((0xF0 + x) # bs) =
     utf8_dec x 3 (if x = 0 then 0x90 else 0x80) (if x = 4 then 0x8F else 0xBF) bs"
  by (subst utf8_dec.simps(2)) simp

lemma utf8_dec_cont:
  "lo \<le> 0x80 + x \<Longrightarrow> 0x80 + x \<le> hi \<Longrightarrow> 1 < need \<Longrightarrow>
   utf8_dec cp need lo hi ((0x80 + x) # bs) = utf8_dec (cp * 0x40 + x) (need - 1) 0x80 0xBF bs"
  by (subst utf8_dec.simps(2)) simp

lemma utf8_dec_last:
  "lo \<le> 0x80 + x \<Longrightarrow> 0x80 + x \<le> hi \<Longrightarrow>
   utf8_dec cp 1 lo hi ((0x80 + x) # bs) = (cp * 0x40 + x) # utf8_dec 0 0 0x80 0xBF bs"
  by (subst utf8_dec.simps(2)) simp

lemma mod_64_bound: "0x80 + (x :: nat) mod 0x40 \<le> 0xBF"
  using mod_less_divisor [of "0x40" x] by linarith

lemma utf8_dec_two:
  assumes "0x80 \<le> c" "c < 0x800"
  shows "utf8_dec 0 0 0x80 0xBF (utf8_one c @ bs) = c # utf8_dec 0 0 0x80 0xBF bs"
proof -
  have "2 \<le> c div 0x40" using div_le_mono [OF assms(1), of "0x40"] by simp
  moreover have "c div 0x40 < 0x20" using assms(2) by (simp add: less_mult_imp_div_less)
  ultimately show ?thesis
    using assms utf8_dec_last [of "0x80" "c mod 0x40" "0xBF" "c div 0x40" bs] mod_64_bound [of c]
    by (simp add: utf8_one_def utf8_dec_lead2)
qed

lemma utf8_dec_three:
  assumes "0x800 \<le> c" "c < 0x10000" "scalar c"
  shows "utf8_dec 0 0 0x80 0xBF (utf8_one c @ bs) = c # utf8_dec 0 0 0x80 0xBF bs"
proof -
  let ?x = "c div 0x1000" and ?y = "c div 0x40 mod 0x40"
  have x: "?x < 0x10" using assms(2) by (simp add: less_mult_imp_div_less)
  have le: "0x20 \<le> c div 0x40" using div_le_mono [OF assms(1), of "0x40"] by simp
  have lo: "(if ?x = 0 then 0xA0 else 0x80) \<le> 0x80 + ?y"
    using le digit2 [of c] by auto
  have "c div 0x40 < 0x360" if "?x = 0xD"
  proof -
    from that have "c < 0xE000" using div_mult_mod_eq [of c "0x1000"] mod_less_divisor [of "0x1000" c]
      by linarith
    with assms(3) have "c < 0xD800" by (simp add: scalar_def)
    then show ?thesis by (simp add: less_mult_imp_div_less)
  qed
  then have hi: "0x80 + ?y \<le> (if ?x = 0xD then 0x9F else 0xBF)"
    using digit2 [of c] mod_64_bound [of "c div 0x40"] by auto
  have enc: "utf8_one c @ bs = (0xE0 + ?x) # (0x80 + ?y) # (0x80 + c mod 0x40) # bs"
    using assms by (simp add: utf8_one_def)
  have "utf8_dec 0 0 0x80 0xBF (utf8_one c @ bs) =
      utf8_dec (?x * 0x40 + ?y) 1 0x80 0xBF ((0x80 + c mod 0x40) # bs)"
    unfolding enc utf8_dec_lead3 [OF x] using utf8_dec_cont [OF lo hi, of 2] by simp
  also have "\<dots> = c # utf8_dec 0 0 0x80 0xBF bs"
    using utf8_dec_last [of "0x80" "c mod 0x40" "0xBF"] mod_64_bound [of c] three_bytes [of c] by simp
  finally show ?thesis .
qed

lemma utf8_dec_four:
  assumes "0x10000 \<le> c" "c < 0x110000"
  shows "utf8_dec 0 0 0x80 0xBF (utf8_one c @ bs) = c # utf8_dec 0 0 0x80 0xBF bs"
proof -
  let ?w = "c div 0x40000" and ?x = "c div 0x1000 mod 0x40" and ?y = "c div 0x40 mod 0x40"
  have w: "?w < 5" using assms(2) by (simp add: less_mult_imp_div_less)
  have le: "0x10 \<le> c div 0x1000" using div_le_mono [OF assms(1), of "0x1000"] by simp
  have lt: "c div 0x1000 < 0x110" using assms(2) by (simp add: less_mult_imp_div_less)
  have lo: "(if ?w = 0 then 0x90 else 0x80) \<le> 0x80 + ?x"
    using le digit3 [of c] by auto
  have hi: "0x80 + ?x \<le> (if ?w = 4 then 0x8F else 0xBF)"
    using lt digit3 [of c] mod_64_bound [of "c div 0x1000"] by auto
  have enc: "utf8_one c @ bs = (0xF0 + ?w) # (0x80 + ?x) # (0x80 + ?y) # (0x80 + c mod 0x40) # bs"
    using assms by (simp add: utf8_one_def)
  have "utf8_dec 0 0 0x80 0xBF (utf8_one c @ bs) =
      utf8_dec (?w * 0x40 + ?x) 2 0x80 0xBF ((0x80 + ?y) # (0x80 + c mod 0x40) # bs)"
    unfolding enc utf8_dec_lead4 [OF w] using utf8_dec_cont [OF lo hi, of 3] by simp
  also have "\<dots> = utf8_dec ((?w * 0x40 + ?x) * 0x40 + ?y) 1 0x80 0xBF ((0x80 + c mod 0x40) # bs)"
    by (subst utf8_dec_cont) (simp_all add: mod_64_bound)
  also have "\<dots> = c # utf8_dec 0 0 0x80 0xBF bs"
    using utf8_dec_last [of "0x80" "c mod 0x40" "0xBF"] mod_64_bound [of c] four_bytes [of c] by simp
  finally show ?thesis .
qed

lemma utf8_dec_one:
  assumes "scalar c"
  shows "utf8_dec 0 0 0x80 0xBF (utf8_one c @ bs) = c # utf8_dec 0 0 0x80 0xBF bs"
proof -
  consider "c < 0x80" | "0x80 \<le> c" "c < 0x800" | "0x800 \<le> c" "c < 0x10000" | "0x10000 \<le> c"
    by linarith
  then show ?thesis
  proof cases
    case 1
    then show ?thesis by (simp add: utf8_one_def utf8_dec_ascii)
  next
    case 2
    then show ?thesis by (rule utf8_dec_two)
  next
    case 3
    then show ?thesis using assms by (rule utf8_dec_three)
  next
    case 4
    with assms show ?thesis by (intro utf8_dec_four) (auto simp: scalar_def)
  qed
qed

text \<open>A byte is a continuation byte exactly between 0x80 and 0xBF.\<close>

lemma and_0xC0: "Bit_Operations.and (b :: nat) 0xC0 = b div 0x40 mod 4 * 0x40"
proof -
  have "Bit_Operations.and b (push_bit 6 (mask 2)) = push_bit 6 (take_bit 2 (drop_bit 6 b))"
    by (rule bit_eqI) (auto simp: bit_simps)
  then show ?thesis
    by (simp add: push_bit_eq_mult drop_bit_eq_div take_bit_eq_mod mask_eq_exp_minus_1)
qed

lemma is_cont_iff: "b < 0x100 \<Longrightarrow> is_cont b \<longleftrightarrow> 0x80 \<le> b \<and> b < 0xC0"
proof -
  assume "b < 0x100"
  then have "b div 0x40 mod 4 = b div 0x40" by (simp add: less_mult_imp_div_less)
  then show ?thesis unfolding is_cont_def and_0xC0 by auto
qed

lemma utf8_one_shape:
  assumes "scalar c"
  shows "\<exists>b cs. utf8_one c = b # cs \<and> \<not> is_cont b \<and> list_all is_cont cs"
proof -
  have "c div 0x40 < 0x20" if "c < 0x800" using that by (simp add: less_mult_imp_div_less)
  moreover have "c div 0x1000 < 0x10" if "c < 0x10000" using that by (simp add: less_mult_imp_div_less)
  moreover have "c div 0x40000 < 5" using assms by (auto simp: scalar_def less_mult_imp_div_less)
  ultimately show ?thesis
    using mod_64_bound [of c] mod_64_bound [of "c div 0x40"] mod_64_bound [of "c div 0x1000"]
    by (auto simp: utf8_one_def is_cont_iff)
qed

lemma utf8_one_length: "length (utf8_one c) = (if c < 0x80 then 1 else if c < 0x800 then 2 else if c < 0x10000 then 3 else 4)"
  by (simp add: utf8_one_def)

text \<open>Decoding an encoding gives the code points back.\<close>

lemma utf8_dec_points: "list_all scalar ns \<Longrightarrow> utf8_dec 0 0 0x80 0xBF (utf8_points ns) = ns"
  by (induction ns) (simp_all add: utf8_points_def utf8_dec_one)

end
