(* ===== verification/JsValue.thy ===== *)
theory JsValue
  imports JsMap Utf8 "HOL-Library.Multiset"
begin

text \<open>
  JavaScript values as the code handles decoded JSON: \<open>undefined\<close>, \<open>null\<close>, booleans,
  numbers, strings, arrays, objects (the own properties in creation order) and functions. The
  library functions the sources call on them are defined here: property reads and writes,
  \<open>Object.entries\<close> order, \<open>String(number)\<close> and \<open>JSON.stringify\<close>. A value is a tree, so it
  has no cycles; the two cycle guards of the sources never fire on it.
\<close>

subsection \<open>Numbers\<close>

text \<open>
  Integers below \<open>10^21\<close> in magnitude print as decimal digits. Any other finite number is
  represented by the characters of its canonical rendering, which determines it.
\<close>

datatype dchar = DDigit nat | DPoint | DExp | DPlus | DMinus

fun dchar_unit :: "dchar \<Rightarrow> jschar" where
  "dchar_unit (DDigit n) = of_nat (48 + n mod 10)"
| "dchar_unit DPoint = 46"
| "dchar_unit DExp = 101"
| "dchar_unit DPlus = 43"
| "dchar_unit DMinus = 45"

datatype jsnum = JInt int | JNegZero | JDec dchar "dchar list" | JNaN | JInfinity bool

definition is_finite :: "jsnum \<Rightarrow> bool" where
  "is_finite n \<longleftrightarrow> (case n of JNaN \<Rightarrow> False | JInfinity _ \<Rightarrow> False | _ \<Rightarrow> True)"

fun nat_str :: "nat \<Rightarrow> jsstr" where
  "nat_str n = (if n < 10 then [of_nat (48 + n)] else nat_str (n div 10) @ [of_nat (48 + n mod 10)])"

declare nat_str.simps [simp del]

definition int_str :: "int \<Rightarrow> jsstr" where
  "int_str n = (if n < 0 then 45 # nat_str (nat (- n)) else nat_str (nat n))"

text \<open>\<open>String(value)\<close> for a finite number\<close>

fun num_str :: "jsnum \<Rightarrow> jsstr" where
  "num_str (JInt n) = int_str n"
| "num_str JNegZero = [48]"
| "num_str (JDec d ds) = map dchar_unit (d # ds)"
| "num_str JNaN = js ''NaN''"
| "num_str (JInfinity neg) = (if neg then js ''-Infinity'' else js ''Infinity'')"

subsection \<open>Values\<close>

datatype jsval =
    JUndef
  | JNull
  | JBool bool
  | JNum jsnum
  | JStr jsstr
  | JArr "jsval list"
  | JObj "(jsstr \<times> jsval) list"
  | JFun

text \<open>A property read on an object, \<open>undefined\<close> when the property is absent.\<close>

definition get_prop :: "jsval \<Rightarrow> string \<Rightarrow> jsval" where
  "get_prop v k = (case v of
     JObj kvs \<Rightarrow> (case jm_get kvs (js k) of Some w \<Rightarrow> w | None \<Rightarrow> JUndef)
   | _ \<Rightarrow> JUndef)"

text \<open>A value read as a string.\<close>

definition text_of :: "jsval \<Rightarrow> jsstr" where
  "text_of v = (case v of JStr s \<Rightarrow> s | _ \<Rightarrow> [])"

text \<open>Members of an object literal: one that is spread in only when a value is given.\<close>

definition opt_member :: "string \<Rightarrow> ('a \<Rightarrow> jsval) \<Rightarrow> 'a option \<Rightarrow> (jsstr \<times> jsval) list" where
  "opt_member name val x = (case x of None \<Rightarrow> [] | Some y \<Rightarrow> [(js name, val y)])"

definition given_member :: "string \<Rightarrow> jsval \<Rightarrow> (jsstr \<times> jsval) list" where
  "given_member name v = (if v = JUndef then [] else [(js name, v)])"

definition int_val :: "int \<Rightarrow> jsval" where
  "int_val n = JNum (JInt n)"

text \<open>
  A canonical array index: the decimal rendering of a number below \<open>2^32 - 1\<close>. Objects
  enumerate such keys first, in ascending order, then the others in creation order.
\<close>

definition digit_of :: "jschar \<Rightarrow> nat option" where
  "digit_of c = (if 48 \<le> c \<and> c \<le> 57 then Some (unat c - 48) else None)"

fun digits_value :: "nat \<Rightarrow> jsstr \<Rightarrow> nat option" where
  "digits_value acc [] = Some acc"
| "digits_value acc (c # cs) =
     (case digit_of c of None \<Rightarrow> None | Some d \<Rightarrow> digits_value (acc * 10 + d) cs)"

definition array_index :: "jsstr \<Rightarrow> nat option" where
  "array_index s =
     (case s of
        [] \<Rightarrow> None
      | c # cs \<Rightarrow>
          (if c = 48 \<and> cs \<noteq> [] then None
           else (case digits_value 0 s of
                   None \<Rightarrow> None
                 | Some n \<Rightarrow> if n < 4294967295 then Some n else None)))"

definition own_entries :: "(jsstr \<times> 'v) list \<Rightarrow> (jsstr \<times> 'v) list" where
  "own_entries kvs =
     sort_key (\<lambda>p. case array_index (fst p) of Some n \<Rightarrow> n | None \<Rightarrow> 0)
       (filter (\<lambda>p. array_index (fst p) \<noteq> None) kvs)
     @ filter (\<lambda>p. array_index (fst p) = None) kvs"

subsection \<open>JSON.stringify\<close>

definition hex_digit :: "nat \<Rightarrow> jschar" where
  "hex_digit n = (if n < 10 then of_nat (48 + n) else of_nat (87 + n))"

definition unicode_escape :: "jschar \<Rightarrow> jsstr" where
  "unicode_escape c =
     [92, 117, hex_digit (unat c div 0x1000), hex_digit (unat c div 0x100 mod 0x10),
      hex_digit (unat c div 0x10 mod 0x10), hex_digit (unat c mod 0x10)]"

definition escape_unit :: "jschar \<Rightarrow> jsstr" where
  "escape_unit c =
     (if c = 0x22 then [92, 0x22] else if c = 0x5C then [92, 0x5C]
      else if c = 0x08 then [92, 98] else if c = 0x09 then [92, 116]
      else if c = 0x0A then [92, 110] else if c = 0x0C then [92, 102]
      else if c = 0x0D then [92, 114]
      else if unat c < 0x20 then unicode_escape c else [c])"

text \<open>An unpaired surrogate is written as an escape, a pair as itself.\<close>

fun json_escape :: "jsstr \<Rightarrow> jsstr" where
  "json_escape [] = []"
| "json_escape [c] = (if is_high c \<or> is_low c then unicode_escape c else escape_unit c)"
| "json_escape (c # d # s) =
     (if is_high c then
        (if is_low d then c # d # json_escape s else unicode_escape c @ json_escape (d # s))
      else if is_low c then unicode_escape c @ json_escape (d # s)
      else escape_unit c @ json_escape (d # s))"

definition json_quote :: "jsstr \<Rightarrow> jsstr" where
  "json_quote s = 0x22 # json_escape s @ [0x22]"

fun join_comma :: "jsstr list \<Rightarrow> jsstr" where
  "join_comma [] = []"
| "join_comma [t] = t"
| "join_comma (t # ts) = t @ 0x2C # join_comma ts"

definition json_members :: "(jsstr \<times> jsstr option) list \<Rightarrow> jsstr list" where
  "json_members kts =
     concat (map (\<lambda>(k, t). case t of None \<Rightarrow> [] | Some t \<Rightarrow> [json_quote k @ 0x3A # t]) kts)"

lemma size_entry [termination_simp]:
  "(k, v) \<in> set kvs \<Longrightarrow> size v < Suc (size_list (\<lambda>x. size_prod (\<lambda>x. 0) size x) kvs)"
  by (induction kvs) auto

lemma size_entry' [termination_simp]:
  "(k, v) \<in> set kvs \<Longrightarrow> size v < Suc (size_list (size_prod (\<lambda>x. 0) size) kvs)"
  by (induction kvs) auto

fun json_text :: "jsval \<Rightarrow> jsstr option" where
  "json_text JUndef = None"
| "json_text JFun = None"
| "json_text JNull = Some (js ''null'')"
| "json_text (JBool b) = Some (if b then js ''true'' else js ''false'')"
| "json_text (JNum n) = Some (if is_finite n then num_str n else js ''null'')"
| "json_text (JStr s) = Some (json_quote s)"
| "json_text (JArr xs) =
     Some (0x5B # join_comma (map (\<lambda>x. case json_text x of None \<Rightarrow> js ''null'' | Some t \<Rightarrow> t) xs) @ [0x5D])"
| "json_text (JObj kvs) =
     Some (0x7B # join_comma (json_members (own_entries (map (\<lambda>(k, v). (k, json_text v)) kvs))) @ [0x7D])"

text \<open>The UTF-8 bytes of \<open>JSON.stringify(value)\<close>, 0 when that is \<open>undefined\<close>.\<close>

definition utf8_len :: "jsstr \<Rightarrow> nat" where
  "utf8_len s = length (utf8_encode s)"

definition json_bytes :: "jsval \<Rightarrow> nat" where
  "json_bytes v = (case json_text v of None \<Rightarrow> 0 | Some t \<Rightarrow> utf8_len t)"

subsection \<open>Lengths of encodings\<close>

definition starts_plain :: "jsstr \<Rightarrow> bool" where
  "starts_plain t \<longleftrightarrow> t = [] \<or> \<not> is_low (hd t)"

lemma ascii_plain: "unat c < 0x80 \<Longrightarrow> \<not> is_high c \<and> \<not> is_low c"
  by (simp add: is_high_def is_low_def)

lemma code_points_plain: "\<not> is_high c \<Longrightarrow> \<not> is_low c \<Longrightarrow> code_points (c # s) = unat c # code_points s"
  by (cases s) auto

lemma code_points_append: "starts_plain t \<Longrightarrow> code_points (s @ t) = code_points s @ code_points t"
proof (induction s rule: code_points.induct)
  case (2 c)
  then show ?case by (cases t) (auto simp: starts_plain_def)
qed (auto simp: starts_plain_def)

lemma utf8_len_Nil [simp]: "utf8_len [] = 0"
  by (simp add: utf8_len_def utf8_encode_def utf8_points_def)

lemma utf8_len_append: "starts_plain t \<Longrightarrow> utf8_len (s @ t) = utf8_len s + utf8_len t"
  by (simp add: utf8_len_def utf8_encode_def utf8_points_def code_points_append)

lemma utf8_len_plain:
  "\<not> is_high c \<Longrightarrow> \<not> is_low c \<Longrightarrow> utf8_len (c # s) = length (utf8_one (unat c)) + utf8_len s"
  by (simp add: utf8_len_def utf8_encode_def utf8_points_def code_points_plain)

lemma utf8_len_ascii_Cons: "unat c < 0x80 \<Longrightarrow> utf8_len (c # s) = Suc (utf8_len s)"
  using ascii_plain [of c] by (simp add: utf8_len_plain utf8_one_def)

lemma utf8_len_ascii: "list_all (\<lambda>c. unat c < 0x80) s \<Longrightarrow> utf8_len s = length s"
  by (induction s) (auto simp: utf8_len_ascii_Cons)

lemma starts_plain_ascii: "t \<noteq> [] \<Longrightarrow> unat (hd t) < 0x80 \<Longrightarrow> starts_plain t"
  by (auto simp: starts_plain_def dest: ascii_plain)

lemma starts_plain_append: "starts_plain s \<Longrightarrow> starts_plain t \<Longrightarrow> starts_plain (s @ t)"
  by (cases s) (auto simp: starts_plain_def)

lemma unat_of_nat_ascii: "n < 0x80 \<Longrightarrow> unat (of_nat n :: jschar) = n"
  by (simp add: unat_of_nat_unit)

lemma nat_str_ascii: "list_all (\<lambda>c. unat c < 0x80) (nat_str n)"
proof (induction n rule: nat_str.induct)
  case (1 n)
  have "unat (of_nat (48 + n mod 10) :: jschar) < 0x80"
    using mod_less_divisor [of 10 n] by (subst unat_of_nat_ascii) linarith+
  with 1 show ?case by (subst nat_str.simps) (auto simp del: of_nat_add simp: unat_of_nat_ascii)
qed

lemma dchar_ascii: "unat (dchar_unit d) < 0x80"
proof (cases d)
  case (DDigit n)
  have "unat (of_nat (48 + n mod 10) :: jschar) < 0x80"
    using mod_less_divisor [of 10 n] by (subst unat_of_nat_ascii) linarith+
  with DDigit show ?thesis by simp
qed simp_all


lemma num_str_ascii: "list_all (\<lambda>c. unat c < 0x80) (num_str n)"
proof (cases n)
  case (JInt i)
  then show ?thesis using nat_str_ascii by (simp add: int_str_def)
next
  case (JDec d ds)
  then show ?thesis by (simp add: list_all_iff dchar_ascii)
qed (simp_all add: js_def)

lemma hex_digit_ascii: "n < 16 \<Longrightarrow> unat (hex_digit n) < 0x80"
  by (simp add: hex_digit_def unat_of_nat_ascii del: of_nat_add)

lemma unicode_escape_ascii: "list_all (\<lambda>c. unat c < 0x80) (unicode_escape c)"
proof -
  have "unat c div 0x1000 < 16" using unat_lt [of c] by (simp add: less_mult_imp_div_less)
  then show ?thesis by (simp add: unicode_escape_def hex_digit_ascii)
qed

lemma utf8_len_unicode_escape: "utf8_len (unicode_escape c) = 6"
  using utf8_len_ascii [OF unicode_escape_ascii] by (simp add: unicode_escape_def)

lemma starts_plain_unicode_escape: "starts_plain (unicode_escape c)"
  by (simp add: unicode_escape_def starts_plain_def is_low_def)

lemma starts_plain_escape_unit: "\<not> is_low c \<Longrightarrow> starts_plain (escape_unit c)"
  by (auto simp: escape_unit_def starts_plain_unicode_escape) (auto simp: starts_plain_def is_low_def)

lemma starts_plain_json_escape: "starts_plain (json_escape s)"
proof (cases s rule: json_escape.cases)
  case (3 c d s')
  then show ?thesis
    by (cases "is_high c"; cases "is_low c")
      (auto simp: starts_plain_def escape_unit_def unicode_escape_def is_low_def is_high_def)
qed (auto simp: starts_plain_unicode_escape starts_plain_escape_unit starts_plain_def [of "[]"])

lemma starts_plain_quote: "starts_plain (json_quote s)"
  by (simp add: json_quote_def starts_plain_def is_low_def)

lemma starts_plain_json_text: "json_text v = Some t \<Longrightarrow> starts_plain t"
proof (cases v)
  case (JNum n)
  assume "json_text v = Some t"
  with JNum have "t = num_str n \<or> t = js ''null''" by auto
  then have "list_all (\<lambda>c. unat c < 0x80) t" using num_str_ascii by (auto simp: js_def)
  then show ?thesis by (cases t) (auto simp: starts_plain_def dest: ascii_plain)
qed (auto simp: json_quote_def js_def starts_plain_def is_low_def split: if_splits)

subsection \<open>The size of arrays and objects\<close>

definition commas :: "nat \<Rightarrow> nat" where
  "commas n = n - 1"

lemma utf8_len_join_comma:
  "list_all starts_plain ts \<Longrightarrow> utf8_len (join_comma ts) = sum_list (map utf8_len ts) + commas (length ts)"
proof (induction ts rule: join_comma.induct)
  case (3 t u ts)
  have "starts_plain (0x2C # join_comma (u # ts))" by (simp add: starts_plain_def is_low_def)
  with 3 show ?case by (simp add: utf8_len_append utf8_len_ascii_Cons commas_def)
qed (simp_all add: commas_def)

lemma utf8_len_brackets:
  "unat a < 0x80 \<Longrightarrow> unat b < 0x80 \<Longrightarrow> utf8_len (a # t @ [b]) = 2 + utf8_len t"
  by (simp add: utf8_len_ascii_Cons utf8_len_append starts_plain_ascii)

text \<open>An array element that does not stringify is written as \<open>null\<close>.\<close>

definition item_bytes :: "jsval \<Rightarrow> nat" where
  "item_bytes v = (if json_text v = None then 4 else json_bytes v)"

lemma json_bytes_JArr: "json_bytes (JArr xs) = 2 + sum_list (map item_bytes xs) + commas (length xs)"
proof -
  let ?f = "\<lambda>x. case json_text x of None \<Rightarrow> js ''null'' | Some t \<Rightarrow> t"
  have plain: "list_all starts_plain (map ?f xs)"
    by (auto simp: list_all_iff starts_plain_json_text js_def starts_plain_def is_low_def
        dest: starts_plain_json_text split: option.splits)
  have "utf8_len (?f x) = item_bytes x" for x
    using utf8_len_ascii [of "js ''null''"]
    by (auto simp: item_bytes_def json_bytes_def js_def split: option.splits)
  then have len: "map (utf8_len \<circ> ?f) xs = map item_bytes xs" by simp
  show ?thesis
    using utf8_len_join_comma [OF plain] len
    by (simp add: json_bytes_def utf8_len_brackets)
qed

definition quote_bytes :: "jsstr \<Rightarrow> nat" where
  "quote_bytes k = utf8_len (json_quote k)"

text \<open>The bytes of one member \<open>"key":value\<close>, and the members that stringify.\<close>

definition member_bytes :: "jsstr \<times> jsval \<Rightarrow> nat" where
  "member_bytes p = quote_bytes (fst p) + 1 + json_bytes (snd p)"

definition json_own :: "(jsstr \<times> jsval) list \<Rightarrow> (jsstr \<times> jsval) list" where
  "json_own kvs = filter (\<lambda>p. json_text (snd p) \<noteq> None) kvs"

lemma mset_own_entries: "mset (own_entries kvs) = mset kvs"
  by (simp add: own_entries_def mset_filter multiset_partition [symmetric])

lemma json_members_filter:
  "json_members kts =
     map (\<lambda>(k, t). json_quote k @ 0x3A # the t) (filter (\<lambda>p. snd p \<noteq> None) kts)"
  by (induction kts) (auto simp: json_members_def split: option.splits)

lemma sum_list_mset_cong:
  fixes h :: "'a \<Rightarrow> nat"
  shows "mset xs = mset ys \<Longrightarrow> sum_list (map h xs) = sum_list (map h ys)"
  by (metis mset_map sum_mset_sum_list)

lemma json_members_lens:
  assumes "\<forall>(k, t) \<in> set kts. \<forall>u. t = Some u \<longrightarrow> starts_plain u"
  shows "utf8_len (join_comma (json_members kts)) =
     sum_list (map (\<lambda>(k, t). quote_bytes k + 1 + utf8_len (the t)) (filter (\<lambda>p. snd p \<noteq> None) kts))
     + commas (length (filter (\<lambda>p. snd p \<noteq> None) kts))"
proof -
  let ?kts = "filter (\<lambda>p. snd p \<noteq> None) kts"
  have plain: "list_all starts_plain (json_members kts)"
    by (auto simp: json_members_filter list_all_iff intro!: starts_plain_append starts_plain_quote)
       (simp add: starts_plain_def is_low_def)
  have one: "utf8_len (json_quote k @ 0x3A # t) = quote_bytes k + 1 + utf8_len t" for k t
    by (simp add: utf8_len_append utf8_len_ascii_Cons starts_plain_ascii quote_bytes_def)
  have lens: "map utf8_len (json_members kts) =
        map (\<lambda>(k, t). quote_bytes k + 1 + utf8_len (the t)) ?kts"
    unfolding json_members_filter map_map by (rule map_cong) (auto simp: one)
  have "length (json_members kts) = length ?kts" by (simp add: json_members_filter)
  then show ?thesis unfolding utf8_len_join_comma [OF plain] lens by simp
qed

lemma json_bytes_JObj:
  "json_bytes (JObj kvs) =
     2 + sum_list (map member_bytes (json_own kvs)) + commas (length (json_own kvs))"
proof -
  let ?kts = "map (\<lambda>(k, v). (k, json_text v)) kvs"
  let ?h = "\<lambda>(k, t). quote_bytes k + 1 + utf8_len (the t)"
  have ms: "mset (filter (\<lambda>p. snd p \<noteq> None) (own_entries ?kts)) =
            mset (filter (\<lambda>p. snd p \<noteq> None) ?kts)"
    by (simp only: mset_filter mset_own_entries)
  have flt: "filter (\<lambda>p. snd p \<noteq> None) ?kts = map (\<lambda>(k, v). (k, json_text v)) (json_own kvs)"
    by (induction kvs) (auto simp: json_own_def)
  have own: "map (?h \<circ> (\<lambda>(k, v). (k, json_text v))) (json_own kvs) = map member_bytes (json_own kvs)"
    by (rule map_cong) (auto simp: json_own_def member_bytes_def json_bytes_def)
  have sum: "sum_list (map ?h (filter (\<lambda>p. snd p \<noteq> None) (own_entries ?kts))) =
      sum_list (map member_bytes (json_own kvs))"
    unfolding sum_list_mset_cong [OF ms] flt map_map own ..
  have len: "length (filter (\<lambda>p. snd p \<noteq> None) (own_entries ?kts)) = length (json_own kvs)"
    using mset_eq_length [OF ms] unfolding flt by simp
  have "set (own_entries ?kts) = set ?kts"
    using mset_own_entries mset_eq_setD by blast
  then have "\<forall>(k, t) \<in> set (own_entries ?kts). \<forall>u. t = Some u \<longrightarrow> starts_plain u"
    by (auto intro: starts_plain_json_text)
  from json_members_lens [OF this] sum len show ?thesis
    by (simp add: json_bytes_def utf8_len_brackets)
qed

end
