(* ===== verification/Idempotency.thy ===== *)
theory Idempotency
  imports JsValue
begin

text \<open>
  The command idempotency store of the host service (host-service/src/idempotency.ts): a command
  identifier and the hash of its payload decide whether a command is new, still pending, to be
  replayed, or in conflict. The store is a record; the promise of a pending command is a gate, a
  number, and resolving it appends to the log \<open>resolved\<close>. A clock reading is
  \<open>None\<close> when it is not a finite number; readings and time-to-live are whole milliseconds, as
  \<open>Date.now\<close> gives them. SHA-256 is a parameter.
\<close>

subsection \<open>The payload hash\<close>

fun semantic :: "bool \<Rightarrow> jsval \<Rightarrow> jsval" where
  "semantic omit (JArr xs) = JArr (map (semantic False) xs)"
| "semantic omit (JObj kvs) =
     JObj (sort_key fst
       (filter (\<lambda>p. \<not> omit \<or> (fst p \<noteq> js ''requestId'' \<and> fst p \<noteq> js ''confirmationId''))
         (own_entries (map (\<lambda>(k, v). (k, semantic False v)) kvs))))"
| "semantic omit v = v"

text \<open>\<open>None\<close>: the payload does not stringify, and hashing it throws.\<close>

definition payloadHash :: "(jsstr \<Rightarrow> jsstr) \<Rightarrow> jsval \<Rightarrow> jsstr option" where
  "payloadHash sha256 v = map_option sha256 (json_text (semantic True v))"

subsection \<open>The store\<close>

datatype idempotency_result =
    New
  | Pending nat
  | Replay jsval
  | Conflict jsstr

datatype idempotency_error =
    ClockNotFinite
  | PayloadNotHashable
  | NeitherPendingNorCompleted
  | ConflictingCompletion
  | BadTtl
  | BadMaxCompleted

record ientry =
  ie_hash :: jsstr
  ie_outcome :: "jsval option"
  ie_pending :: "nat option"
  ie_resolve :: "nat option"
  ie_completedAt :: "int option"

record istore =
  entries :: "(jsstr, ientry) jsmap"
  completedTtlMs :: int
  maxCompletedEntries :: nat
  nextGate :: nat
  resolved :: "(nat \<times> jsval) list"

definition default_completed_ttl_ms :: int where
  "default_completed_ttl_ms = 5 * 60000"

definition default_max_completed_entries :: int where
  "default_max_completed_entries = 1024"

text \<open>
  The constructor. Each option is absent, or a number that is finite (\<open>Some\<close>) or not.
\<close>

definition create_store :: "int option option \<Rightarrow> int option option \<Rightarrow> idempotency_error + istore" where
  "create_store ttl cap =
     (let ttl' = (case ttl of None \<Rightarrow> Some default_completed_ttl_ms | Some t \<Rightarrow> t);
          cap' = (case cap of None \<Rightarrow> Some default_max_completed_entries | Some c \<Rightarrow> c)
      in case ttl' of
           None \<Rightarrow> Inl BadTtl
         | Some t \<Rightarrow>
             if t \<le> 0 then Inl BadTtl
             else (case cap' of
                     None \<Rightarrow> Inl BadMaxCompleted
                   | Some c \<Rightarrow>
                       if \<not> is_safe_integer c \<or> c \<le> 0 then Inl BadMaxCompleted
                       else Inr \<lparr>entries = [], completedTtlMs = t, maxCompletedEntries = nat c,
                                 nextGate = 0, resolved = []\<rparr>))"

text \<open>The two loops of \<open>#prune\<close>, each over the entries the map has when the loop starts.\<close>

fun prune_expired ::
  "int \<Rightarrow> int \<Rightarrow> (jsstr \<times> ientry) list \<Rightarrow> (jsstr, ientry) jsmap \<Rightarrow> nat \<Rightarrow> (jsstr, ientry) jsmap \<times> nat" where
  "prune_expired ttl now [] m completed = (m, completed)"
| "prune_expired ttl now ((k, e) # es) m completed =
     (case ie_completedAt e of
        None \<Rightarrow> prune_expired ttl now es m completed
      | Some at \<Rightarrow>
          if now \<ge> at \<and> now - at \<ge> ttl then prune_expired ttl now es (jm_delete k m) completed
          else prune_expired ttl now es m (completed + 1))"

fun prune_excess ::
  "nat \<Rightarrow> (jsstr \<times> ientry) list \<Rightarrow> (jsstr, ientry) jsmap \<Rightarrow> nat \<Rightarrow> (jsstr, ientry) jsmap" where
  "prune_excess cap [] m completed = m"
| "prune_excess cap ((k, e) # es) m completed =
     (if ie_completedAt e = None then prune_excess cap es m completed
      else if completed - 1 \<le> cap then jm_delete k m
      else prune_excess cap es (jm_delete k m) (completed - 1))"

definition prune :: "int \<Rightarrow> istore \<Rightarrow> istore" where
  "prune now s =
     (let (m, completed) = prune_expired (completedTtlMs s) now (entries s) (entries s) 0
      in if completed \<le> maxCompletedEntries s then s\<lparr>entries := m\<rparr>
         else s\<lparr>entries := prune_excess (maxCompletedEntries s) m m completed\<rparr>)"

definition touch :: "jsstr \<Rightarrow> ientry \<Rightarrow> istore \<Rightarrow> istore" where
  "touch k e s = s\<lparr>entries := jm_set k e (jm_delete k (entries s))\<rparr>"

definition settle :: "jsstr \<Rightarrow> ientry \<Rightarrow> jsval \<Rightarrow> int \<Rightarrow> istore \<Rightarrow> istore" where
  "settle k e out now s =
     (if ie_completedAt e \<noteq> None then s
      else
        let s1 = touch k (e\<lparr>ie_outcome := Some out, ie_completedAt := Some now,
                            ie_pending := None, ie_resolve := None\<rparr>) s;
            s2 = (case ie_resolve e of
                    None \<Rightarrow> s1
                  | Some g \<Rightarrow> s1\<lparr>resolved := resolved s1 @ [(g, out)]\<rparr>)
        in prune now s2)"

definition begin_command ::
  "(jsstr \<Rightarrow> jsstr) \<Rightarrow> int option \<Rightarrow> jsstr \<Rightarrow> jsval \<Rightarrow> istore \<Rightarrow> istore \<times> (idempotency_error + idempotency_result)" where
  "begin_command sha256 clock k payload s =
     (case clock of
        None \<Rightarrow> (s, Inl ClockNotFinite)
      | Some now \<Rightarrow>
          let s = prune now s
          in case payloadHash sha256 payload of
               None \<Rightarrow> (s, Inl PayloadNotHashable)
             | Some hash \<Rightarrow>
                 (case jm_get (entries s) k of
                    None \<Rightarrow>
                      (s\<lparr>entries := jm_set k \<lparr>ie_hash = hash, ie_outcome = None,
                           ie_pending = Some (nextGate s), ie_resolve = Some (nextGate s),
                           ie_completedAt = None\<rparr> (entries s),
                         nextGate := nextGate s + 1\<rparr>, Inr New)
                  | Some e \<Rightarrow>
                      if ie_hash e \<noteq> hash then (s, Inr (Conflict hash))
                      else (case ie_outcome e of
                              Some out \<Rightarrow> (touch k e s, Inr (Replay out))
                            | None \<Rightarrow>
                                (case ie_pending e of
                                   None \<Rightarrow> (s, Inl NeitherPendingNorCompleted)
                                 | Some g \<Rightarrow> (s, Inr (Pending g))))))"

definition complete_command ::
  "(jsstr \<Rightarrow> jsstr) \<Rightarrow> int option \<Rightarrow> jsstr \<Rightarrow> jsval \<Rightarrow> jsval \<Rightarrow> istore \<Rightarrow> istore \<times> (idempotency_error + unit)" where
  "complete_command sha256 clock k payload out s =
     (case clock of
        None \<Rightarrow> (s, Inl ClockNotFinite)
      | Some now \<Rightarrow>
          let s = prune now s
          in case payloadHash sha256 payload of
               None \<Rightarrow> (s, Inl PayloadNotHashable)
             | Some hash \<Rightarrow>
                 (case jm_get (entries s) k of
                    None \<Rightarrow>
                      (prune now (s\<lparr>entries := jm_set k \<lparr>ie_hash = hash, ie_outcome = Some out,
                           ie_pending = None, ie_resolve = None,
                           ie_completedAt = Some now\<rparr> (entries s)\<rparr>), Inr ())
                  | Some e \<Rightarrow>
                      if ie_hash e \<noteq> hash then (s, Inl ConflictingCompletion)
                      else (settle k e out now s, Inr ())))"

definition unknown_outcome :: "jsstr \<Rightarrow> jsval" where
  "unknown_outcome k =
     JObj [(js ''unknown'', JBool True),
           (js ''frame'', JObj [(js ''v'', JStr (js ''omp-app/1'')),
                                (js ''type'', JStr (js ''error'')),
                                (js ''code'', JStr (js ''outcome_unknown'')),
                                (js ''message'', JStr (js ''child ended before command outcome'')),
                                (js ''requestId'', JStr k)])]"

definition unknown_command :: "int option \<Rightarrow> jsstr \<Rightarrow> istore \<Rightarrow> istore \<times> (idempotency_error + unit)" where
  "unknown_command clock k s =
     (case jm_get (entries s) k of
        None \<Rightarrow> (s, Inr ())
      | Some e \<Rightarrow>
          (case clock of
             None \<Rightarrow> (s, Inl ClockNotFinite)
           | Some now \<Rightarrow> (settle k e (unknown_outcome k) now s, Inr ())))"

subsection \<open>What the two loops compute\<close>

abbreviation completed_entry :: "jsstr \<times> ientry \<Rightarrow> bool" where
  "completed_entry p \<equiv> ie_completedAt (snd p) \<noteq> None"

definition expired :: "int \<Rightarrow> int \<Rightarrow> jsstr \<times> ientry \<Rightarrow> bool" where
  "expired ttl now p \<longleftrightarrow>
     (case ie_completedAt (snd p) of None \<Rightarrow> False | Some at \<Rightarrow> now \<ge> at \<and> now - at \<ge> ttl)"

text \<open>The list without its first \<open>n\<close> completed entries; pending entries all stay.\<close>

fun drop_completed :: "nat \<Rightarrow> (jsstr \<times> ientry) list \<Rightarrow> (jsstr \<times> ientry) list" where
  "drop_completed 0 es = es"
| "drop_completed n [] = []"
| "drop_completed (Suc n) (p # es) =
     (if completed_entry p then drop_completed n es else p # drop_completed (Suc n) es)"

lemma prune_expired_eq:
  "jm_wf (pre @ es) \<Longrightarrow>
   prune_expired ttl now es (pre @ es) c =
     (pre @ filter (\<lambda>p. \<not> expired ttl now p) es,
      c + length (filter (\<lambda>p. completed_entry p \<and> \<not> expired ttl now p) es))"
proof (induction es arbitrary: pre c)
  case (Cons p es)
  obtain k e where p: "p = (k, e)" by (cases p)
  have del: "jm_delete k (pre @ (k, e) # es) = pre @ es"
    using Cons.prems p by (simp add: jm_delete_middle)
  have wf: "jm_wf (pre @ es)" "jm_wf ((pre @ [p]) @ es)" using Cons.prems by (auto simp: jm_wf_def)
  show ?case
    using Cons.IH [OF wf(1), of c] Cons.IH [OF wf(2)] p del
    by (auto simp: expired_def split: option.splits)
qed simp

lemma prune_excess_eq:
  "jm_wf (pre @ es) \<Longrightarrow> cap < c \<Longrightarrow> prune_excess cap es (pre @ es) c = pre @ drop_completed (c - cap) es"
proof (induction es arbitrary: pre c)
  case Nil
  then show ?case by (cases "c - cap") simp_all
next
  case (Cons p es)
  obtain k e where p: "p = (k, e)" by (cases p)
  obtain n where n: "c - cap = Suc n" using Cons.prems by (cases "c - cap") auto
  have del: "jm_delete k (pre @ (k, e) # es) = pre @ es"
    using Cons.prems p by (simp add: jm_delete_middle)
  have wf: "jm_wf (pre @ es)" "jm_wf ((pre @ [p]) @ es)" using Cons.prems by (auto simp: jm_wf_def)
  have "c - 1 \<le> cap \<Longrightarrow> n = 0" "\<not> c - 1 \<le> cap \<Longrightarrow> c - 1 - cap = n" using n by linarith+
  with Cons.IH [OF wf(1), of "c - 1"] Cons.IH [OF wf(2), of c] Cons.prems p del n
  show ?case by (cases n) auto
qed

definition live_entries :: "int \<Rightarrow> istore \<Rightarrow> (jsstr, ientry) jsmap" where
  "live_entries now s = filter (\<lambda>p. \<not> expired (completedTtlMs s) now p) (entries s)"

lemma filter_drop_completed:
  "filter (\<lambda>p. \<not> completed_entry p) (drop_completed n es) = filter (\<lambda>p. \<not> completed_entry p) es"
  "filter completed_entry (drop_completed n es) = drop n (filter completed_entry es)"
  by (induction n es rule: drop_completed.induct) auto

lemma set_drop_completed: "set (drop_completed n es) \<subseteq> set es"
  by (induction n es rule: drop_completed.induct) auto

lemma jm_wf_drop_completed [wf_intros]: "jm_wf es \<Longrightarrow> jm_wf (drop_completed n es)"
proof (induction n es rule: drop_completed.induct)
  case (3 n p es)
  then show ?case using set_drop_completed [of "Suc n" es] by (auto simp: jm_wf_def)
qed auto

text \<open>
  Pruning removes the expired completed entries, then the oldest completed entries in excess of
  the capacity, and nothing else.
\<close>

lemma prune_eq:
  assumes "jm_wf (entries s)"
  shows "prune now s =
     s\<lparr>entries := drop_completed (length (filter completed_entry (live_entries now s)) - maxCompletedEntries s)
        (live_entries now s)\<rparr>"
proof -
  let ?l = "live_entries now s"
  let ?c = "length (filter completed_entry ?l)"
  have 1: "prune_expired (completedTtlMs s) now (entries s) (entries s) 0 = (?l, ?c)"
    using prune_expired_eq [of "[]" "entries s" "completedTtlMs s" now 0] assms
    by (simp add: live_entries_def conj_commute)
  have wf: "jm_wf ?l" using assms by (simp add: live_entries_def jm_wf_filter)
  have 2: "maxCompletedEntries s < ?c \<Longrightarrow>
      prune_excess (maxCompletedEntries s) ?l ?l ?c = drop_completed (?c - maxCompletedEntries s) ?l"
    using prune_excess_eq [of "[]" ?l "maxCompletedEntries s" ?c] wf by simp
  show ?thesis
  proof (cases "?c \<le> maxCompletedEntries s")
    case True
    then show ?thesis unfolding prune_def 1 by simp
  next
    case False
    then show ?thesis unfolding prune_def 1 using 2 by simp
  qed
qed

lemma prune_fields [simp]:
  "completedTtlMs (prune now s) = completedTtlMs s"
  "maxCompletedEntries (prune now s) = maxCompletedEntries s"
  "nextGate (prune now s) = nextGate s"
  "resolved (prune now s) = resolved s"
  by (simp_all add: prune_def split: prod.splits)

lemma touch_fields [simp]:
  "completedTtlMs (touch k e s) = completedTtlMs s"
  "maxCompletedEntries (touch k e s) = maxCompletedEntries s"
  "nextGate (touch k e s) = nextGate s"
  "resolved (touch k e s) = resolved s"
  by (simp_all add: touch_def)

lemma touch_entries: "entries (touch k e s) = filter (\<lambda>p. fst p \<noteq> k) (entries s) @ [(k, e)]"
  by (simp add: touch_def jm_touch)

subsection \<open>The invariant\<close>

text \<open>
  An entry is either pending, with one gate and no outcome, or completed, with an outcome and no
  gate.
\<close>

definition entry_ok :: "ientry \<Rightarrow> bool" where
  "entry_ok e \<longleftrightarrow>
     (if ie_completedAt e = None
      then ie_outcome e = None \<and> ie_pending e \<noteq> None \<and> ie_resolve e = ie_pending e
      else ie_outcome e \<noteq> None \<and> ie_pending e = None \<and> ie_resolve e = None)"

definition gates :: "(jsstr, ientry) jsmap \<Rightarrow> nat list" where
  "gates m = concat (map (\<lambda>p. case ie_resolve (snd p) of None \<Rightarrow> [] | Some g \<Rightarrow> [g]) m)"

definition istore_inv :: "istore \<Rightarrow> bool" where
  "istore_inv s \<longleftrightarrow>
     jm_wf (entries s) \<and> list_all (\<lambda>p. entry_ok (snd p)) (entries s) \<and>
     distinct (gates (entries s) @ map fst (resolved s)) \<and>
     list_all (\<lambda>g. g < nextGate s) (gates (entries s) @ map fst (resolved s)) \<and>
     0 < completedTtlMs s \<and> 0 < maxCompletedEntries s"

definition completed_count :: "istore \<Rightarrow> nat" where
  "completed_count s = length (filter completed_entry (entries s))"

lemma gates_simps [simp]:
  "gates [] = []"
  "gates (m @ m') = gates m @ gates m'"
  "gates (p # m) = (case ie_resolve (snd p) of None \<Rightarrow> [] | Some g \<Rightarrow> [g]) @ gates m"
  by (simp_all add: gates_def)

lemma entry_ok_completed: "entry_ok e \<Longrightarrow> ie_completedAt e \<noteq> None \<Longrightarrow> ie_resolve e = None"
  by (simp add: entry_ok_def)

lemma gates_live:
  "list_all (\<lambda>p. entry_ok (snd p)) m \<Longrightarrow> gates (filter (\<lambda>p. \<not> expired ttl now p) m) = gates m"
  by (induction m) (auto simp: expired_def entry_ok_completed split: option.splits)

lemma gates_drop_completed:
  "list_all (\<lambda>p. entry_ok (snd p)) m \<Longrightarrow> gates (drop_completed n m) = gates m"
  by (induction n m rule: drop_completed.induct) (auto simp: entry_ok_completed)

lemma list_all_drop_completed: "list_all P m \<Longrightarrow> list_all P (drop_completed n m)"
  using set_drop_completed by (fastforce simp: list_all_iff)

lemma prune_inv: "istore_inv s \<Longrightarrow> istore_inv (prune now s)"
proof -
  assume inv: "istore_inv s"
  then have wf: "jm_wf (entries s)" and ok: "list_all (\<lambda>p. entry_ok (snd p)) (entries s)"
    by (simp_all add: istore_inv_def)
  have okl: "list_all (\<lambda>p. entry_ok (snd p)) (live_entries now s)"
    using ok by (simp add: live_entries_def list_all_iff)
  moreover have "gates (live_entries now s) = gates (entries s)"
    using ok by (simp add: live_entries_def gates_live)
  moreover have "jm_wf (live_entries now s)" using wf by (simp add: live_entries_def jm_wf_filter)
  ultimately show ?thesis
    using inv by (simp add: prune_eq [OF wf] istore_inv_def gates_drop_completed
        list_all_drop_completed jm_wf_drop_completed)
qed

lemma prune_count: "istore_inv s \<Longrightarrow> completed_count (prune now s) \<le> maxCompletedEntries s"
  by (simp add: istore_inv_def prune_eq completed_count_def filter_drop_completed del: not_None_eq)

lemma istore_invI:
  assumes "istore_inv s" and "jm_wf m" and "list_all (\<lambda>p. entry_ok (snd p)) m"
    and "distinct (gates m @ map fst r)" and "list_all (\<lambda>g. g < n) (gates m @ map fst r)"
  shows "istore_inv (s\<lparr>entries := m, nextGate := n, resolved := r\<rparr>)"
  using assms by (simp add: istore_inv_def)

lemma istore_resolve_eq:
  "(t :: istore)\<lparr>entries := entries t, nextGate := nextGate t, resolved := r\<rparr> = t\<lparr>resolved := r\<rparr>"
  by (cases t) simp

lemma istore_invD:
  assumes "istore_inv s"
  shows "jm_wf (entries s)" "list_all (\<lambda>p. entry_ok (snd p)) (entries s)"
    "distinct (gates (entries s) @ map fst (resolved s))"
    "list_all (\<lambda>g. g < nextGate s) (gates (entries s) @ map fst (resolved s))"
  using assms by (simp_all add: istore_inv_def)

lemma touch_inv:
  assumes inv: "istore_inv s" and e: "jm_get (entries s) k = Some e" and ok: "entry_ok e'"
    and g: "ie_resolve e' = None"
  shows "istore_inv (touch k e' s)"
proof -
  from jm_get_split [OF istore_invD(1) [OF inv] e]
  obtain m1 m2 where m: "entries s = m1 @ (k, e) # m2"
    and f: "filter (\<lambda>p. fst p \<noteq> k) (entries s) = m1 @ m2"
    and k: "k \<notin> fst ` set m1" "k \<notin> fst ` set m2" by blast
  have en: "touch k e' s = s\<lparr>entries := m1 @ m2 @ [(k, e')], nextGate := nextGate s, resolved := resolved s\<rparr>"
    by (simp add: touch_def jm_touch f)
  show ?thesis unfolding en
  proof (rule istore_invI [OF inv])
    show "jm_wf (m1 @ m2 @ [(k, e')])"
      using istore_invD(1) [OF inv] m k by (auto simp: jm_wf_def)
    show "list_all (\<lambda>p. entry_ok (snd p)) (m1 @ m2 @ [(k, e')])"
      using istore_invD(2) [OF inv] m ok by simp
    show "distinct (gates (m1 @ m2 @ [(k, e')]) @ map fst (resolved s))"
      using istore_invD(3) [OF inv] m g by auto
    show "list_all (\<lambda>g. g < nextGate s) (gates (m1 @ m2 @ [(k, e')]) @ map fst (resolved s))"
      using istore_invD(4) [OF inv] m g by simp
  qed
qed

lemma settle_inv:
  assumes inv: "istore_inv s" and e: "jm_get (entries s) k = Some e"
  shows "istore_inv (settle k e out now s)"
proof (cases "ie_completedAt e")
  case None
  let ?e = "e\<lparr>ie_outcome := Some out, ie_completedAt := Some now, ie_pending := None, ie_resolve := None\<rparr>"
  let ?t = "touch k ?e s"
  note D = istore_invD [OF inv]
  from jm_list_all_get [OF D(2) e] have ok: "entry_ok e" by simp
  with None obtain g where g: "ie_resolve e = Some g" by (auto simp: entry_ok_def)
  obtain m1 m2 where m: "entries s = m1 @ (k, e) # m2"
    and f: "filter (\<lambda>p. fst p \<noteq> k) (entries s) = m1 @ m2"
    using jm_get_split [OF D(1) e] by metis
  have inv': "istore_inv ?t" by (rule touch_inv [OF inv e]) (simp_all add: entry_ok_def)
  have gs: "gates (entries ?t) = gates m1 @ gates m2" by (simp add: touch_entries f)
  have fresh: "g \<notin> set (gates m1 @ gates m2 @ map fst (resolved s))" "g < nextGate s"
    using D(3,4) m g by auto
  have inv'': "istore_inv (?t\<lparr>entries := entries ?t, nextGate := nextGate ?t, resolved := resolved s @ [(g, out)]\<rparr>)"
  proof (rule istore_invI [OF inv'])
    show "distinct (gates (entries ?t) @ map fst (resolved s @ [(g, out)]))"
      using istore_invD(3) [OF inv'] fresh unfolding gs by auto
    show "list_all (\<lambda>g. g < nextGate ?t) (gates (entries ?t) @ map fst (resolved s @ [(g, out)]))"
      using istore_invD(4) [OF inv'] fresh by simp
  qed (fact istore_invD [OF inv'])+
  have "settle k e out now s =
      prune now (?t\<lparr>entries := entries ?t, nextGate := nextGate ?t, resolved := resolved s @ [(g, out)]\<rparr>)"
    unfolding istore_resolve_eq using None g by (simp add: settle_def)
  then show ?thesis using prune_inv [OF inv''] by simp
qed (simp add: settle_def inv)

lemma jm_set_new:
  "jm_wf m \<Longrightarrow> jm_get m k = None \<Longrightarrow> jm_set k e m = m @ [(k, e)] \<and> jm_wf (m @ [(k, e)])"
  by (simp add: jm_set_notin jm_get_keys) (simp add: jm_keys_def jm_wf_def)

lemma begin_new_inv:
  assumes inv: "istore_inv s" and k: "jm_get (entries s) k = None"
    and e: "entry_ok e" "ie_resolve e = Some (nextGate s)"
  shows "istore_inv (s\<lparr>entries := jm_set k e (entries s), nextGate := nextGate s + 1\<rparr>)"
proof -
  note D = istore_invD [OF inv]
  have "istore_inv (s\<lparr>entries := entries s @ [(k, e)], nextGate := nextGate s + 1, resolved := resolved s\<rparr>)"
  proof (rule istore_invI [OF inv])
    show "jm_wf (entries s @ [(k, e)])" using jm_set_new [OF D(1) k] by simp
    show "list_all (\<lambda>p. entry_ok (snd p)) (entries s @ [(k, e)])" using D(2) e by simp
    have fresh: "nextGate s \<notin> set (gates (entries s) @ map fst (resolved s))"
      using D(4) by (auto simp: list_all_iff)
    show "distinct (gates (entries s @ [(k, e)]) @ map fst (resolved s))"
      using D(3) fresh e(2) by auto
    show "list_all (\<lambda>g. g < nextGate s + 1) (gates (entries s @ [(k, e)]) @ map fst (resolved s))"
      using D(4) e(2) by (auto simp: list_all_iff less_Suc_eq)
  qed
  then show ?thesis using jm_set_new [OF D(1) k, of e] by simp
qed

lemma complete_new_inv:
  assumes inv: "istore_inv s" and k: "jm_get (entries s) k = None"
    and e: "entry_ok e" "ie_resolve e = None"
  shows "istore_inv (s\<lparr>entries := jm_set k e (entries s)\<rparr>)"
proof -
  note D = istore_invD [OF inv]
  have "istore_inv (s\<lparr>entries := entries s @ [(k, e)], nextGate := nextGate s, resolved := resolved s\<rparr>)"
    using D jm_set_new [OF D(1) k, of e] e by (intro istore_invI [OF inv]) simp_all
  then show ?thesis using jm_set_new [OF D(1) k, of e] by simp
qed

subsection \<open>Sequences of calls\<close>

datatype icall =
    CBegin "int option" jsstr jsval
  | CComplete "int option" jsstr jsval jsval
  | CUnknown "int option" jsstr

fun icall_step :: "(jsstr \<Rightarrow> jsstr) \<Rightarrow> icall \<Rightarrow> istore \<Rightarrow> istore" where
  "icall_step sha (CBegin clock k p) s = fst (begin_command sha clock k p s)"
| "icall_step sha (CComplete clock k p out) s = fst (complete_command sha clock k p out s)"
| "icall_step sha (CUnknown clock k) s = fst (unknown_command clock k s)"

definition icalls :: "(jsstr \<Rightarrow> jsstr) \<Rightarrow> icall list \<Rightarrow> istore \<Rightarrow> istore" where
  "icalls sha cs s = fold (icall_step sha) cs s"

lemma settle_fields [simp]:
  "maxCompletedEntries (settle k e out now s) = maxCompletedEntries s"
  "completedTtlMs (settle k e out now s) = completedTtlMs s"
  by (simp_all add: settle_def Let_def split: option.splits)

lemma icall_step_fields [simp]:
  "maxCompletedEntries (icall_step sha c s) = maxCompletedEntries s"
  "completedTtlMs (icall_step sha c s) = completedTtlMs s"
  by (cases c; simp add: begin_command_def complete_command_def unknown_command_def Let_def
      split: option.splits)+

lemma begin_command_inv:
  assumes "istore_inv s" shows "istore_inv (fst (begin_command sha clock k p s))"
proof (cases clock)
  case (Some now)
  let ?s = "prune now s"
  have inv: "istore_inv ?s" using assms by (rule prune_inv)
  have ok: "jm_get (entries ?s) k = Some e \<Longrightarrow> entry_ok e" for e
    using jm_list_all_get [OF istore_invD(2) [OF inv]] by simp
  have replay: "istore_inv (touch k e ?s)"
    if "jm_get (entries ?s) k = Some e" "ie_outcome e = Some out" for e out
    using ok [OF that(1)] that(2) touch_inv [OF inv that(1) ok [OF that(1)]]
    by (auto simp: entry_ok_def split: if_splits)
  have "istore_inv (?s\<lparr>entries := jm_set k \<lparr>ie_hash = h, ie_outcome = None,
      ie_pending = Some (nextGate ?s), ie_resolve = Some (nextGate ?s), ie_completedAt = None\<rparr>
      (entries ?s), nextGate := nextGate ?s + 1\<rparr>)" if "jm_get (entries ?s) k = None" for h
    by (rule begin_new_inv [OF inv that]) (simp_all add: entry_ok_def)
  with Some inv replay show ?thesis
    by (simp add: begin_command_def Let_def split: option.split)
qed (simp add: begin_command_def assms)

lemma complete_command_inv:
  assumes "istore_inv s" shows "istore_inv (fst (complete_command sha clock k p out s))"
proof (cases clock)
  case (Some now)
  let ?s = "prune now s"
  have inv: "istore_inv ?s" using assms by (rule prune_inv)
  have "istore_inv (?s\<lparr>entries := jm_set k \<lparr>ie_hash = h, ie_outcome = Some out,
      ie_pending = None, ie_resolve = None, ie_completedAt = Some now\<rparr> (entries ?s)\<rparr>)"
    if "jm_get (entries ?s) k = None" for h
    by (rule complete_new_inv [OF inv that]) (simp_all add: entry_ok_def)
  with Some inv show ?thesis
    by (simp add: complete_command_def Let_def prune_inv settle_inv split: option.split)
qed (simp add: complete_command_def assms)

lemma unknown_command_inv:
  "istore_inv s \<Longrightarrow> istore_inv (fst (unknown_command clock k s))"
  by (simp add: unknown_command_def settle_inv split: option.split)

lemma icall_step_inv: "istore_inv s \<Longrightarrow> istore_inv (icall_step sha c s)"
  by (cases c) (simp_all add: begin_command_inv complete_command_inv unknown_command_inv)

lemma icalls_inv: "istore_inv s \<Longrightarrow> istore_inv (icalls sha cs s)"
  unfolding icalls_def by (induction cs arbitrary: s) (simp_all add: icall_step_inv)

lemma icalls_fields [simp]:
  "maxCompletedEntries (icalls sha cs s) = maxCompletedEntries s"
  "completedTtlMs (icalls sha cs s) = completedTtlMs s"
  unfolding icalls_def by (induction cs arbitrary: s) simp_all

lemma create_store_inv: "create_store ttl cap = Inr s \<Longrightarrow> istore_inv s \<and> entries s = []"
  by (auto simp: create_store_def Let_def istore_inv_def split: option.splits if_splits)

subsection \<open>The bound on completed entries\<close>

lemma completed_count_touch:
  assumes "istore_inv s" "jm_get (entries s) k = Some e" "ie_completedAt e \<noteq> None"
  shows "completed_count (touch k e s) = completed_count s"
proof -
  obtain m1 m2 where m: "entries s = m1 @ (k, e) # m2"
    and f: "filter (\<lambda>p. fst p \<noteq> k) (entries s) = m1 @ m2"
    using jm_get_split [OF istore_invD(1) [OF assms(1)] assms(2)] by metis
  show ?thesis unfolding completed_count_def touch_entries f using assms(3) m by auto
qed

lemma settle_bound:
  assumes "istore_inv s" "jm_get (entries s) k = Some e" "completed_count s \<le> maxCompletedEntries s"
  shows "completed_count (settle k e out now s) \<le> maxCompletedEntries s"
proof (cases "ie_completedAt e")
  case None
  have "\<exists>t. settle k e out now s = prune now t \<and> jm_wf (entries t) \<and>
      maxCompletedEntries t = maxCompletedEntries s"
    using None istore_invD(1) [OF assms(1)]
    by (auto simp: settle_def Let_def touch_def jm_wf_set jm_wf_delete split: option.split)
  then obtain t where "settle k e out now s = prune now t" "jm_wf (entries t)"
    "maxCompletedEntries t = maxCompletedEntries s" by metis
  then show ?thesis by (simp add: prune_eq completed_count_def filter_drop_completed del: not_None_eq)
qed (simp add: settle_def assms)

lemma icall_step_bound:
  assumes inv: "istore_inv s" and b: "completed_count s \<le> maxCompletedEntries s"
  shows "completed_count (icall_step sha c s) \<le> maxCompletedEntries s"
proof (cases c)
  case (CBegin clock k p)
  show ?thesis
  proof (cases clock)
    case (Some now)
    let ?s = "prune now s"
    have inv': "istore_inv ?s" and b': "completed_count ?s \<le> maxCompletedEntries s"
      using inv prune_inv prune_count by simp_all
    have touch: "completed_count (touch k e ?s) \<le> maxCompletedEntries s"
      if e: "jm_get (entries ?s) k = Some e" "ie_outcome e = Some out" for e out
    proof -
      from jm_list_all_get [OF istore_invD(2) [OF inv'] e(1)] e(2)
      have "ie_completedAt e \<noteq> None" by (auto simp: entry_ok_def split: if_splits)
      then show ?thesis using completed_count_touch [OF inv' e(1)] b' by simp
    qed
    have new: "completed_count (?s\<lparr>entries := jm_set k e (entries ?s), nextGate := n\<rparr>) \<le> maxCompletedEntries s"
      if "jm_get (entries ?s) k = None" "ie_completedAt e = None" for e n
      using b' jm_set_new [OF istore_invD(1) [OF inv'] that(1), of e] that(2)
      by (simp add: completed_count_def)
    show ?thesis using Some CBegin b' touch new
      by (simp add: begin_command_def Let_def split: option.split)
  qed (simp add: CBegin begin_command_def b)
next
  case (CComplete clock k p out)
  show ?thesis
  proof (cases clock)
    case (Some now)
    let ?s = "prune now s"
    have inv': "istore_inv ?s" and b': "completed_count ?s \<le> maxCompletedEntries ?s"
      using inv prune_inv prune_count by simp_all
    have new: "completed_count (prune now (?s\<lparr>entries := jm_set k e (entries ?s)\<rparr>)) \<le> maxCompletedEntries s"
      if "jm_get (entries ?s) k = None" "entry_ok e" "ie_resolve e = None" for e
      using prune_count [OF complete_new_inv [OF inv' that]] by simp
    show ?thesis using Some CComplete b' new settle_bound [OF inv' _ b']
      by (simp add: complete_command_def Let_def entry_ok_def split: option.split)
  qed (simp add: CComplete complete_command_def b)
next
  case (CUnknown clock k)
  then show ?thesis using settle_bound [OF inv _ b] b
    by (simp add: unknown_command_def split: option.split)
qed

lemma icalls_bound:
  "istore_inv s \<Longrightarrow> completed_count s \<le> maxCompletedEntries s \<Longrightarrow>
   completed_count (icalls sha cs s) \<le> maxCompletedEntries s"
  unfolding icalls_def
proof (induction cs arbitrary: s)
  case (Cons c cs)
  from Cons.IH [OF icall_step_inv [OF Cons.prems(1)]] icall_step_bound [OF Cons.prems]
  show ?case by simp
qed simp

subsection \<open>Pending commands stay\<close>

text \<open>Command \<open>k\<close> with payload hash \<open>h\<close> is in flight, its waiters on gate \<open>g\<close>.\<close>

definition in_flight :: "jsstr \<Rightarrow> jsstr \<Rightarrow> nat \<Rightarrow> istore \<Rightarrow> bool" where
  "in_flight k h g s \<longleftrightarrow>
     (case jm_get (entries s) k of
        None \<Rightarrow> False
      | Some e \<Rightarrow> ie_completedAt e = None \<and> ie_pending e = Some g \<and> ie_hash e = h)"

lemma in_flight_iff:
  "in_flight k h g s \<longleftrightarrow> (\<exists>e. jm_get (entries s) k = Some e \<and> ie_completedAt e = None \<and>
     ie_pending e = Some g \<and> ie_hash e = h)"
  by (simp add: in_flight_def split: option.split)

text \<open>Pruning looks up the same pending entries, and never adds an entry.\<close>

lemma jm_get_prune_pending:
  assumes wf: "jm_wf (entries s)" and e: "ie_completedAt e = None"
  shows "jm_get (entries (prune now s)) k = Some e \<longleftrightarrow> jm_get (entries s) k = Some e"
proof -
  let ?l = "live_entries now s"
  let ?d = "drop_completed (length (filter completed_entry ?l) - maxCompletedEntries s) ?l"
  have wfl: "jm_wf ?l" using wf by (simp add: live_entries_def jm_wf_filter)
  have pend: "(k, e) \<in> set m \<longleftrightarrow> (k, e) \<in> set (filter (\<lambda>p. \<not> completed_entry p) m)" for m
    using e by simp
  have "(k, e) \<in> set ?d \<longleftrightarrow> (k, e) \<in> set ?l"
    by (subst (1 2) pend) (simp only: filter_drop_completed)
  also have "\<dots> \<longleftrightarrow> (k, e) \<in> set (entries s)"
    using e by (simp add: live_entries_def expired_def)
  finally show ?thesis
    using wf wfl by (simp add: prune_eq jm_get_iff_in_set jm_wf_drop_completed)
qed

lemma jm_get_prune_None:
  assumes wf: "jm_wf (entries s)" and "jm_get (entries s) k = None"
  shows "jm_get (entries (prune now s)) k = None"
proof -
  have "set (entries (prune now s)) \<subseteq> set (entries s)"
    using wf set_drop_completed by (fastforce simp: prune_eq live_entries_def)
  with assms(2) show ?thesis by (auto simp: jm_get_def map_of_eq_None_iff)
qed

lemma in_flight_prune_wf:
  "jm_wf (entries s) \<Longrightarrow> in_flight k h g s \<Longrightarrow> in_flight k h g (prune now s)"
  unfolding in_flight_iff using jm_get_prune_pending by metis

lemma in_flight_prune: "istore_inv s \<Longrightarrow> in_flight k h g s \<Longrightarrow> in_flight k h g (prune now s)"
  using in_flight_prune_wf istore_invD(1) by metis

lemma in_flight_other:
  "k' \<noteq> k \<Longrightarrow> in_flight k h g s \<Longrightarrow> in_flight k h g (s\<lparr>entries := jm_set k' e (entries s)\<rparr>)"
  "k' \<noteq> k \<Longrightarrow> in_flight k h g s \<Longrightarrow>
     in_flight k h g (s\<lparr>entries := jm_set k' e (entries s), nextGate := n\<rparr>)"
  "k' \<noteq> k \<Longrightarrow> in_flight k h g s \<Longrightarrow> in_flight k h g (touch k' e s)"
  by (simp_all add: in_flight_def touch_def)

lemma in_flight_settle_other:
  assumes "istore_inv s" "k' \<noteq> k" "in_flight k h g s" "jm_get (entries s) k' = Some e"
  shows "in_flight k h g (settle k' e out now s)"
proof -
  let ?e = "e\<lparr>ie_outcome := Some out, ie_completedAt := Some now, ie_pending := None, ie_resolve := None\<rparr>"
  have fl: "in_flight k h g (touch k' ?e s)" using assms in_flight_other by simp
  have wf: "jm_wf (entries (touch k' ?e s))"
    using istore_invD(1) [OF assms(1)] by (simp add: touch_def jm_wf_set jm_wf_delete)
  have upd: "in_flight k h g (prune now (touch k' ?e s\<lparr>resolved := r\<rparr>))" for r
    by (rule in_flight_prune_wf) (use fl wf in \<open>simp_all add: in_flight_def\<close>)
  have "in_flight k h g (prune now (touch k' ?e s))" using in_flight_prune_wf [OF wf fl] .
  with upd assms(3) show ?thesis by (simp add: settle_def Let_def split: option.split)
qed

text \<open>A call that can end command \<open>k\<close>.\<close>

fun ends_command :: "jsstr \<Rightarrow> icall \<Rightarrow> bool" where
  "ends_command k (CBegin clock k' p) \<longleftrightarrow> False"
| "ends_command k (CComplete clock k' p out) \<longleftrightarrow> k' = k"
| "ends_command k (CUnknown clock k') \<longleftrightarrow> k' = k"

lemma begin_in_flight:
  assumes inv: "istore_inv s" and fl: "in_flight k h g s"
  shows "begin_command sha (Some now) k p s =
    (prune now s, case payloadHash sha p of
       None \<Rightarrow> Inl PayloadNotHashable
     | Some h' \<Rightarrow> if h' = h then Inr (Pending g) else Inr (Conflict h'))"
proof -
  from in_flight_prune [OF inv fl, of now] obtain e where
    e: "jm_get (entries (prune now s)) k = Some e" "ie_completedAt e = None" "ie_pending e = Some g" "ie_hash e = h"
    by (auto simp: in_flight_iff)
  from jm_list_all_get [OF istore_invD(2) [OF prune_inv [OF inv]] e(1)] e(2)
  have "ie_outcome e = None" by (simp add: entry_ok_def)
  with e show ?thesis by (simp add: begin_command_def Let_def split: option.split)
qed

lemma icall_step_in_flight:
  assumes inv: "istore_inv s" and fl: "in_flight k h g s" and c: "\<not> ends_command k c"
  shows "in_flight k h g (icall_step sha c s)"
proof (cases c)
  case (CBegin clock k' p)
  show ?thesis
  proof (cases "\<exists>now. clock = Some now")
    case True
    then obtain now where now: "clock = Some now" by blast
    have fl': "in_flight k h g (prune now s)" using in_flight_prune [OF inv fl] .
    show ?thesis
    proof (cases "k' = k")
      case True
      then show ?thesis using CBegin now fl' begin_in_flight [OF inv fl] by simp
    next
      case False
      then show ?thesis using CBegin now fl' in_flight_other [OF False]
        by (simp add: begin_command_def Let_def split: option.split)
    qed
  next
    case False
    then show ?thesis using CBegin fl by (simp add: begin_command_def)
  qed
next
  case (CComplete clock k' p out)
  then have k: "k' \<noteq> k" using c by simp
  show ?thesis
  proof (cases clock)
    case (Some now)
    have inv': "istore_inv (prune now s)" using prune_inv [OF inv] .
    have fl': "in_flight k h g (prune now s)" using in_flight_prune [OF inv fl] .
    have new: "in_flight k h g (prune now (prune now s\<lparr>entries := jm_set k' e (entries (prune now s))\<rparr>))"
      if "jm_get (entries (prune now s)) k' = None" "entry_ok e" "ie_resolve e = None" for e
      using in_flight_prune [OF complete_new_inv [OF inv' that] in_flight_other(1) [OF k fl']] .
    show ?thesis using Some CComplete fl' new in_flight_settle_other [OF inv' k fl']
      by (simp add: complete_command_def Let_def entry_ok_def split: option.split)
  qed (simp add: CComplete complete_command_def fl)
next
  case (CUnknown clock k')
  then show ?thesis using c fl in_flight_settle_other [OF inv _ fl]
    by (simp add: unknown_command_def split: option.split)
qed

lemma icalls_in_flight:
  "istore_inv s \<Longrightarrow> in_flight k h g s \<Longrightarrow> list_all (\<lambda>c. \<not> ends_command k c) cs \<Longrightarrow>
   in_flight k h g (icalls sha cs s)"
  unfolding icalls_def
  by (induction cs arbitrary: s) (simp_all add: icall_step_inv icall_step_in_flight)

subsection \<open>Completed commands are replayed\<close>

text \<open>Entry \<open>e\<close> of command \<open>k\<close> is present with at most \<open>n\<close> completed entries after it.\<close>

definition recent :: "jsstr \<Rightarrow> ientry \<Rightarrow> nat \<Rightarrow> (jsstr, ientry) jsmap \<Rightarrow> bool" where
  "recent k e n m \<longleftrightarrow> (\<exists>m1 m2. m = m1 @ (k, e) # m2 \<and> length (filter completed_entry m2) \<le> n)"

lemma recentI: "m = m1 @ (k, e) # m2 \<Longrightarrow> length (filter completed_entry m2) \<le> n \<Longrightarrow> recent k e n m"
  unfolding recent_def by (intro exI conjI)

lemma recentE:
  assumes "recent k e n m"
  obtains m1 m2 where "m = m1 @ (k, e) # m2" "length (filter completed_entry m2) \<le> n"
  using assms unfolding recent_def by (elim exE conjE)

lemma recent_get: "jm_wf m \<Longrightarrow> recent k e n m \<Longrightarrow> jm_get m k = Some e"
  by (erule recentE) (simp add: jm_get_iff_in_set)

lemma recent_mono: "recent k e n m \<Longrightarrow> n \<le> n' \<Longrightarrow> recent k e n' m"
  by (erule recentE) (rule recentI, assumption, simp)

lemma recent_snoc: "recent k e n m \<Longrightarrow> recent k e (Suc n) (m @ [p])"
proof (erule recentE)
  fix m1 m2 assume "m = m1 @ (k, e) # m2" "length (filter completed_entry m2) \<le> n"
  then show ?thesis by (intro recentI [of _ m1 k e "m2 @ [p]"]) simp_all
qed

lemma recent_filter: "recent k e n m \<Longrightarrow> P (k, e) \<Longrightarrow> recent k e n (filter P m)"
proof (erule recentE)
  fix m1 m2 assume P: "P (k, e)" and m: "m = m1 @ (k, e) # m2" "length (filter completed_entry m2) \<le> n"
  have "length (filter completed_entry (filter P m2)) \<le> length (filter completed_entry m2)"
    by (induction m2) auto
  with m(2) have "length (filter completed_entry (filter P m2)) \<le> n" by (rule le_trans [rotated])
  moreover have "filter P m = filter P m1 @ (k, e) # filter P m2" using P m(1) by simp
  ultimately show ?thesis by (intro recentI)
qed

lemma drop_completed_append:
  "n \<le> length (filter completed_entry m1) \<Longrightarrow> drop_completed n (m1 @ m2) = drop_completed n m1 @ m2"
  by (induction n m1 rule: drop_completed.induct) (auto simp: Suc_le_eq)

lemma recent_prune:
  assumes wf: "jm_wf (entries s)" and r: "recent k e n (entries s)" and n: "n < maxCompletedEntries s"
    and at: "ie_completedAt e = Some at" "now - at < completedTtlMs s"
  shows "recent k e n (entries (prune now s))"
proof -
  let ?l = "live_entries now s"
  have "recent k e n ?l" unfolding live_entries_def
    using at by (intro recent_filter [OF r]) (simp add: expired_def)
  then obtain m1 m2 where m: "?l = m1 @ (k, e) # m2" "length (filter completed_entry m2) \<le> n"
    by (rule recentE)
  let ?c = "length (filter completed_entry ?l) - maxCompletedEntries s"
  have "?c \<le> length (filter completed_entry m1)" using m n at(1) by simp
  then have "drop_completed ?c ?l = drop_completed ?c m1 @ (k, e) # m2"
    using drop_completed_append m(1) by simp
  then show ?thesis using m(2) by (simp only: prune_eq [OF wf] istore.select_convs istore.update_convs)
      (rule recentI, simp)
qed

lemma recent_touch:
  assumes r: "recent k e n (entries s)" and k': "k' = k \<Longrightarrow> e' = e"
  shows "recent k e (Suc n) (entries (touch k' e' s))"
proof (cases "k' = k")
  case True
  then show ?thesis using k' by (auto simp: touch_entries intro: recentI)
next
  case False
  then show ?thesis unfolding touch_entries by (intro recent_snoc recent_filter [OF r]) simp
qed

text \<open>The clock of a call.\<close>

fun icall_clock :: "icall \<Rightarrow> int option" where
  "icall_clock (CBegin clock k p) = clock"
| "icall_clock (CComplete clock k p out) = clock"
| "icall_clock (CUnknown clock k) = clock"

definition before_expiry :: "int \<Rightarrow> int option \<Rightarrow> bool" where
  "before_expiry limit clock \<longleftrightarrow> (case clock of None \<Rightarrow> True | Some now \<Rightarrow> now < limit)"

lemma recent_settle:
  assumes inv: "istore_inv s" and r: "recent k e n (entries s)" and n: "Suc n < maxCompletedEntries s"
    and at: "ie_completedAt e = Some at" "now - at < completedTtlMs s"
    and e': "jm_get (entries s) k' = Some e'"
  shows "recent k e (Suc n) (entries (settle k' e' out now s))"
proof (cases "ie_completedAt e' = None")
  case True
  let ?e = "e'\<lparr>ie_outcome := Some out, ie_completedAt := Some now, ie_pending := None, ie_resolve := None\<rparr>"
  let ?t = "touch k' ?e s"
  have "k' \<noteq> k" using True at(1) e' recent_get [OF istore_invD(1) [OF inv] r] by auto
  then have r': "recent k e (Suc n) (entries ?t)" by (intro recent_touch [OF r]) simp
  have wf: "jm_wf (entries ?t)"
    using istore_invD(1) [OF inv] by (simp add: touch_def jm_wf_set jm_wf_delete)
  have "recent k e (Suc n) (entries (prune now (?t\<lparr>resolved := x\<rparr>)))" for x
    by (rule recent_prune) (use wf r' n at in simp_all)
  moreover have "recent k e (Suc n) (entries (prune now ?t))"
    by (rule recent_prune) (use wf r' n at in simp_all)
  ultimately show ?thesis using True by (simp add: settle_def Let_def split: option.split)
next
  case False
  then show ?thesis using recent_mono [OF r, of "Suc n"] by (simp add: settle_def)
qed

lemma icall_step_recent:
  assumes inv: "istore_inv s" and r: "recent k e n (entries s)" and n: "Suc n < maxCompletedEntries s"
    and at: "ie_completedAt e = Some at"
    and clock: "before_expiry (at + completedTtlMs s) (icall_clock c)"
  shows "recent k e (Suc n) (entries (icall_step sha c s))"
proof (cases "icall_clock c")
  case None
  then show ?thesis using recent_mono [OF r, of "Suc n"]
    by (cases c) (simp_all add: begin_command_def complete_command_def unknown_command_def
        split: option.split)
next
  case (Some now)
  then have now: "now - at < completedTtlMs s" using clock by (simp add: before_expiry_def)
  let ?s = "prune now s"
  have inv': "istore_inv ?s" using prune_inv [OF inv] .
  note wf' = istore_invD(1) [OF inv']
  have r': "recent k e n (entries ?s)"
    using recent_prune [OF istore_invD(1) [OF inv] r _ at now] n by simp
  note mono = recent_mono [OF r', of "Suc n", simplified]
  have new: "recent k e (Suc n) (jm_set k' e' (entries ?s))" if "jm_get (entries ?s) k' = None" for k' e'
    using jm_set_new [OF wf' that] recent_snoc [OF r'] by simp
  show ?thesis
  proof (cases c)
    case (CBegin clock k' p)
    have "recent k e (Suc n) (entries (touch k' e' ?s))" if "jm_get (entries ?s) k' = Some e'" for e'
      using that recent_get [OF wf' r'] by (intro recent_touch [OF r']) auto
    with CBegin Some mono new show ?thesis
      by (simp add: begin_command_def Let_def split: option.split)
  next
    case (CComplete clock k' p out)
    have "recent k e (Suc n) (entries (prune now (?s\<lparr>entries := jm_set k' e' (entries ?s)\<rparr>)))"
      if "jm_get (entries ?s) k' = None" for e'
      by (rule recent_prune) (use new [OF that] n at now wf' in \<open>simp_all add: jm_wf_set\<close>)
    with CComplete Some mono recent_settle [OF inv' r' _ at] n now show ?thesis
      by (simp add: complete_command_def Let_def split: option.split)
  next
    case (CUnknown clock k')
    with Some recent_mono [OF r, of "Suc n"] recent_settle [OF inv r n at now] show ?thesis
      by (simp add: unknown_command_def split: option.split)
  qed
qed

lemma icalls_recent:
  "istore_inv s \<Longrightarrow> recent k e n (entries s) \<Longrightarrow> n + length cs < maxCompletedEntries s \<Longrightarrow>
   ie_completedAt e = Some at \<Longrightarrow>
   list_all (\<lambda>c. before_expiry (at + completedTtlMs s) (icall_clock c)) cs \<Longrightarrow>
   recent k e (n + length cs) (entries (icalls sha cs s))"
  unfolding icalls_def
proof (induction cs arbitrary: s n)
  case (Cons c cs)
  have "recent k e (Suc n) (entries (icall_step sha c s))"
    using Cons.prems by (intro icall_step_recent [where at = at]) simp_all
  from Cons.IH [OF icall_step_inv this] Cons.prems show ?case by simp
qed simp

lemma complete_in_flight:
  assumes inv: "istore_inv s" and fl: "in_flight k h g s" and h: "payloadHash sha p = Some h"
  obtains s' e where "complete_command sha (Some now) k p out s = (s', Inr ())"
    "resolved s' = resolved s @ [(g, out)]" "istore_inv s'" "recent k e 0 (entries s')"
    "ie_hash e = h" "ie_outcome e = Some out" "ie_completedAt e = Some now"
proof -
  let ?s = "prune now s"
  from in_flight_prune [OF inv fl, of now] obtain e where
    e: "jm_get (entries ?s) k = Some e" "ie_completedAt e = None" "ie_pending e = Some g" "ie_hash e = h"
    by (auto simp: in_flight_iff)
  have inv': "istore_inv ?s" using prune_inv [OF inv] .
  from jm_list_all_get [OF istore_invD(2) [OF inv'] e(1)] e
  have g: "ie_resolve e = Some g" by (simp add: entry_ok_def)
  let ?e = "e\<lparr>ie_outcome := Some out, ie_completedAt := Some now, ie_pending := None, ie_resolve := None\<rparr>"
  let ?t = "touch k ?e ?s\<lparr>resolved := resolved ?s @ [(g, out)]\<rparr>"
  have eq: "complete_command sha (Some now) k p out s = (prune now ?t, Inr ())"
    using e g h by (simp add: complete_command_def settle_def)
  have r: "recent k ?e 0 (entries (prune now ?t))"
  proof (rule recent_prune [where at = now])
    show "jm_wf (entries ?t)"
      using istore_invD(1) [OF inv'] by (simp add: touch_def jm_wf_set jm_wf_delete)
    show "recent k ?e 0 (entries ?t)" by (rule recentI [of _ _ k ?e "[]"]) (simp_all add: touch_entries)
  qed (use inv in \<open>simp_all add: istore_inv_def\<close>)
  have inv'': "istore_inv (prune now ?t)"
    using complete_command_inv [OF inv, of sha "Some now" k p out] eq by simp
  show ?thesis by (rule that [OF eq _ inv'' r]) (simp_all add: e)
qed

lemma begin_recent:
  assumes inv: "istore_inv s" and r: "recent k e n (entries s)" and n: "n < maxCompletedEntries s"
    and e: "ie_completedAt e = Some at" "ie_outcome e = Some out" "now - at < completedTtlMs s"
  shows "snd (begin_command sha (Some now) k p s) =
    (case payloadHash sha p of
       None \<Rightarrow> Inl PayloadNotHashable
     | Some h \<Rightarrow> if h = ie_hash e then Inr (Replay out) else Inr (Conflict h))"
proof -
  have "jm_get (entries (prune now s)) k = Some e"
    using recent_get [OF istore_invD(1) [OF prune_inv [OF inv]]
        recent_prune [OF istore_invD(1) [OF inv] r n e(1,3)]] .
  with e show ?thesis by (simp add: begin_command_def Let_def split: option.split)
qed

subsection \<open>The payload hash ignores order and envelope identifiers\<close>

lemma sort_key_mset_cong:
  assumes "mset xs = mset ys" "distinct (map f xs)"
  shows "sort_key f xs = sort_key f ys"
proof (rule properties_for_sort_key [symmetric])
  have ms: "mset (sort_key f xs) = mset (sort_key f ys)" using assms(1) by simp
  then show "mset (sort_key f xs) = mset ys" using assms(1) by simp
  show "sorted (map f (sort_key f xs))" by simp
  fix k assume "k \<in> set (sort_key f xs)"
  have inj: "inj_on f (set xs)" using assms(2) by (simp add: distinct_map)
  have set: "set xs = set ys" using assms(1) by (metis set_mset_mset)
  have d: "distinct xs" "distinct ys" using assms by (auto simp: distinct_map dest: mset_eq_imp_distinct_iff)
  have one: "filter (\<lambda>x. f k = f x) zs = [k]" if "set zs = set xs" "distinct zs" "k \<in> set zs" for zs
  proof -
    have "filter (\<lambda>x. f k = f x) zs = filter (\<lambda>x. x = k) zs"
      by (rule filter_cong) (use inj that(1,3) in \<open>auto simp: inj_on_def\<close>)
    moreover have "filter (\<lambda>x. x = k) zs = [k]" using that(2,3)
      by (induction zs) (auto simp: filter_empty_conv)
    ultimately show ?thesis by simp
  qed
  show "filter (\<lambda>x. f k = f x) (sort_key f xs) = filter (\<lambda>x. f k = f x) ys"
    using one [of "sort_key f xs"] one [of ys] d set \<open>k \<in> set (sort_key f xs)\<close> by simp
qed

text \<open>
  Two values with the same meaning: they differ at most in the order of the members of their
  objects, at any depth.
\<close>

inductive same_members :: "jsval \<Rightarrow> jsval \<Rightarrow> bool" where
  same_value: "same_members v v"
| same_arr: "list_all2 same_members xs ys \<Longrightarrow> same_members (JArr xs) (JArr ys)"
| same_obj: "list_all2 (rel_prod (=) same_members) kvs permuted \<Longrightarrow> mset permuted = mset kvs' \<Longrightarrow> jm_wf kvs \<Longrightarrow>
    same_members (JObj kvs) (JObj kvs')"

text \<open>A payload without the identifiers of its envelope.\<close>

definition envelope_free :: "(jsstr \<times> jsval) list \<Rightarrow> (jsstr \<times> jsval) list" where
  "envelope_free kvs = filter (\<lambda>p. fst p \<noteq> js ''requestId'' \<and> fst p \<noteq> js ''confirmationId'') kvs"

fun without_envelope :: "jsval \<Rightarrow> jsval" where
  "without_envelope (JObj kvs) = JObj (envelope_free kvs)"
| "without_envelope v = v"

lemma semantic_without_envelope: "semantic True v = semantic False (without_envelope v)"
proof (cases v)
  case (JObj kvs)
  let ?P = "\<lambda>p. fst p \<noteq> js ''requestId'' \<and> fst p \<noteq> js ''confirmationId''" and ?f = "\<lambda>(k, v). (k, semantic False v)"
  have own: "filter P (own_entries xs) = own_entries (filter P xs)" for P :: "jsstr \<times> jsval \<Rightarrow> bool" and xs
    by (simp add: own_entries_def filter_sort) (simp add: conj_commute)
  have "filter ?P (map ?f kvs) = map ?f (envelope_free kvs)"
    by (induction kvs) (auto simp: envelope_free_def)
  then show ?thesis by (simp add: JObj own)
qed simp_all

lemma semantic_permuted:
  assumes "mset (map (\<lambda>(k, v). (k, semantic False v)) kvs) = mset (map (\<lambda>(k, v). (k, semantic False v)) kvs')" "jm_wf kvs"
  shows "semantic False (JObj kvs) = semantic False (JObj kvs')"
proof -
  let ?f = "\<lambda>(k, v). (k, semantic False v)"
  have "distinct (map fst (own_entries (map ?f kvs)))"
  proof (rule mset_eq_imp_distinct_iff [THEN iffD1])
    show "mset (map fst kvs) = mset (map fst (own_entries (map ?f kvs)))"
      by (simp only: mset_map mset_own_entries) (simp add: multiset.map_comp comp_def case_prod_beta)
    show "distinct (map fst kvs)" using assms(2) by (simp add: jm_wf_def)
  qed
  then have "sort_key fst (own_entries (map ?f kvs)) = sort_key fst (own_entries (map ?f kvs'))"
    by (intro sort_key_mset_cong) (simp_all only: mset_own_entries assms(1))
  then show ?thesis by simp
qed

lemma semantic_same_members: "same_members v v' \<Longrightarrow> semantic False v = semantic False v'"
proof (induction rule: same_members.induct)
  case (same_arr xs ys)
  then have "map (semantic False) xs = map (semantic False) ys" by (auto simp: list_all2_conv_all_nth list_eq_iff_nth_eq)
  then show ?case by simp
next
  case (same_obj kvs permuted kvs')
  let ?f = "\<lambda>(k, v). (k, semantic False v)"
  have "list_all2 (\<lambda>p q. ?f p = ?f q) kvs permuted"
    using same_obj.IH by (rule list_all2_mono) (auto simp: rel_prod_sel)
  then have "list_all2 (=) (map ?f kvs) (map ?f permuted)" by (simp only: list_all2_map1 list_all2_map2)
  then have "map ?f kvs = map ?f permuted" by (simp only: list.rel_eq)
  moreover have "mset (map ?f permuted) = mset (map ?f kvs')" using same_obj.hyps(1) by simp
  ultimately show ?case using semantic_permuted [OF _ same_obj.hyps(2)] by metis
qed simp

subsection \<open>Properties\<close>

text \<open>
  C21: A command is executed at most once while it is in flight. Once \<open>begin\<close> has answered
  \<open>new\<close> for a command, and until a call completes that command or declares its outcome unknown,
  every later \<open>begin\<close> of the command answers \<open>pending\<close> on the gate made then when the payload
  has the same hash and \<open>conflict\<close> when it has not, whatever other calls are made in between
  and whatever is evicted.
\<close>

theorem idempotency_single_flight:
  assumes "create_store ttl cap = Inr s0"
    and "begin_command sha256 (Some t) k p (icalls sha256 cs0 s0) = (s1, Inr New)"
    and "list_all (\<lambda>c. \<not> ends_command k c) cs"
  shows "snd (begin_command sha256 (Some t') k p' (icalls sha256 cs s1)) =
    (case payloadHash sha256 p' of
       None \<Rightarrow> Inl PayloadNotHashable
     | Some h \<Rightarrow> if payloadHash sha256 p = Some h then Inr (Pending (nextGate (icalls sha256 cs0 s0)))
                 else Inr (Conflict h))"
proof -
  let ?s = "icalls sha256 cs0 s0"
  have inv: "istore_inv ?s" using create_store_inv [OF assms(1)] icalls_inv by simp
  have inv1: "istore_inv s1" using begin_command_inv [OF inv, of sha256 "Some t" k p] assms(2) by simp
  obtain h where h: "payloadHash sha256 p = Some h" and fl: "in_flight k h (nextGate ?s) s1"
    using assms(2) by (auto simp: begin_command_def Let_def in_flight_def split: option.splits if_splits)
  show ?thesis
    using begin_in_flight [OF icalls_inv [OF inv1] icalls_in_flight [OF inv1 fl assms(3)]] h
    by (auto split: option.split)
qed

definition sample_store :: istore where
  "sample_store = \<lparr>entries = [], completedTtlMs = 10, maxCompletedEntries = 2, nextGate = 0, resolved = []\<rparr>"

theorem idempotency_single_flight_witness:
  "snd (begin_command id (Some 9) (js ''a'') JNull
     (icalls id [CBegin (Some 3) (js ''b'') JNull, CComplete (Some 4) (js ''b'') JNull (JBool True)]
       (fst (begin_command id (Some 1) (js ''a'') JNull sample_store)))) = Inr (Pending 0)"
proof -
  have 1: "create_store (Some (Some 10)) (Some (Some 2)) = Inr sample_store" by code_simp
  have 2: "begin_command id (Some 1) (js ''a'') JNull (icalls id [] sample_store) =
      (fst (begin_command id (Some 1) (js ''a'') JNull sample_store), Inr New)" by code_simp
  have 3: "list_all (\<lambda>c. \<not> ends_command (js ''a'') c)
      [CBegin (Some 3) (js ''b'') JNull, CComplete (Some 4) (js ''b'') JNull (JBool True)]" by code_simp
  have "payloadHash id JNull = Some (js ''null'')" by code_simp
  with idempotency_single_flight [OF 1 2 3, of 9 JNull]
  show ?thesis by (simp add: icalls_def sample_store_def)
qed

text \<open>
  C20: A completed command is replayed. Completing a command in flight resolves the gate its
  waiters hold, exactly once and with the outcome given, and for fewer than
  \<open>maxCompletedEntries\<close> further calls, all before the time-to-live has passed, a \<open>begin\<close> with
  the same payload answers with that outcome and a \<open>begin\<close> with another payload is a conflict:
  the command is never executed again.
\<close>

theorem idempotency_replay:
  assumes "create_store ttl cap = Inr s0"
    and "in_flight k h g (icalls sha256 cs0 s0)" and "payloadHash sha256 p = Some h"
    and "length cs < maxCompletedEntries s0"
    and "list_all (\<lambda>c. before_expiry (t + completedTtlMs s0) (icall_clock c)) cs"
    and "t' < t + completedTtlMs s0"
  shows "let s = icalls sha256 cs0 s0; (s1, r) = complete_command sha256 (Some t) k p out s
    in r = Inr () \<and> resolved s1 = resolved s @ [(g, out)] \<and>
       snd (begin_command sha256 (Some t') k p' (icalls sha256 cs s1)) =
         (case payloadHash sha256 p' of
            None \<Rightarrow> Inl PayloadNotHashable
          | Some h' \<Rightarrow> if h' = h then Inr (Replay out) else Inr (Conflict h'))"
proof -
  let ?s = "icalls sha256 cs0 s0"
  have inv: "istore_inv ?s" using create_store_inv [OF assms(1)] icalls_inv by simp
  obtain s1 e where c: "complete_command sha256 (Some t) k p out ?s = (s1, Inr ())"
    "resolved s1 = resolved ?s @ [(g, out)]" and inv1: "istore_inv s1" and r: "recent k e 0 (entries s1)"
    and e: "ie_hash e = h" "ie_outcome e = Some out" "ie_completedAt e = Some t"
    using complete_in_flight [OF inv assms(2,3), of t out] by metis
  have f: "maxCompletedEntries s1 = maxCompletedEntries s0" "completedTtlMs s1 = completedTtlMs s0"
    using icall_step_fields [of sha256 "CComplete (Some t) k p out" ?s] c(1) by simp_all
  have r': "recent k e (0 + length cs) (entries (icalls sha256 cs s1))"
    by (rule icalls_recent [OF inv1 r _ e(3)]) (simp_all add: f assms(4,5))
  have "snd (begin_command sha256 (Some t') k p' (icalls sha256 cs s1)) =
      (case payloadHash sha256 p' of None \<Rightarrow> Inl PayloadNotHashable
       | Some h' \<Rightarrow> if h' = ie_hash e then Inr (Replay out) else Inr (Conflict h'))"
    by (rule begin_recent [OF icalls_inv [OF inv1] r' _ e(3,2)]) (use assms(4,6) f in simp_all)
  with c show ?thesis unfolding e(1) by simp
qed

theorem idempotency_replay_witness:
  "let s = icalls id [CBegin (Some 1) (js ''a'') JNull] sample_store;
       (s1, r) = complete_command id (Some 2) (js ''a'') JNull (JBool True) s
   in r = Inr () \<and> resolved s1 = resolved s @ [(0, JBool True)] \<and>
      snd (begin_command id (Some 11) (js ''a'') JNull
        (icalls id [CComplete (Some 5) (js ''b'') JNull JNull] s1)) =
        (case payloadHash id JNull of
           None \<Rightarrow> Inl PayloadNotHashable
         | Some h' \<Rightarrow> if h' = js ''null'' then Inr (Replay (JBool True)) else Inr (Conflict h'))"
proof (rule idempotency_replay)
  show "create_store (Some (Some 10)) (Some (Some 2)) = Inr sample_store" by code_simp
  show "in_flight (js ''a'') (js ''null'') 0 (icalls id [CBegin (Some 1) (js ''a'') JNull] sample_store)"
    by code_simp
  show "payloadHash id JNull = Some (js ''null'')" by code_simp
qed (simp_all add: sample_store_def before_expiry_def)

text \<open>
  C27: The store keeps its shape. After any sequence of calls on a new store, with any clock,
  every entry is either pending on one gate or completed with an outcome, no two gates are the
  same and no gate is resolved twice, and at most \<open>maxCompletedEntries\<close> completed entries are
  kept; so the internal error of \<open>begin\<close>, an entry that is neither pending nor completed,
  never occurs.
\<close>

theorem idempotency_store_invariant:
  assumes "create_store ttl cap = Inr s0"
  shows "let s = icalls sha256 cs s0 in
    istore_inv s \<and> completed_count s \<le> maxCompletedEntries s0 \<and>
    snd (begin_command sha256 clock k p s) \<noteq> Inl NeitherPendingNorCompleted"
proof -
  let ?s = "icalls sha256 cs s0"
  have inv: "istore_inv ?s" using create_store_inv [OF assms] icalls_inv by simp
  have "completed_count s0 = 0" using create_store_inv [OF assms] by (simp add: completed_count_def)
  then have b: "completed_count ?s \<le> maxCompletedEntries s0"
    using icalls_bound create_store_inv [OF assms] by simp
  have ok: "jm_get (entries (prune now ?s)) k = Some e \<Longrightarrow> entry_ok e" for now e
    using jm_list_all_get [OF istore_invD(2) [OF prune_inv [OF inv]]] by simp
  have "snd (begin_command sha256 clock k p ?s) \<noteq> Inl NeitherPendingNorCompleted"
    by (auto simp: begin_command_def Let_def entry_ok_def split: option.split if_splits dest!: ok)
  with inv b show ?thesis by simp
qed

theorem idempotency_store_invariant_witness:
  "let s = icalls id [CBegin (Some 1) (js ''a'') JNull, CUnknown (Some 2) (js ''a'')] sample_store in
    istore_inv s \<and> completed_count s \<le> maxCompletedEntries sample_store \<and>
    snd (begin_command id (Some 30) (js ''a'') JNull s) \<noteq> Inl NeitherPendingNorCompleted"
proof (rule idempotency_store_invariant)
  show "create_store (Some (Some 10)) (Some (Some 2)) = Inr sample_store" by code_simp
qed

text \<open>
  C31: The payload hash does not depend on how a command was written: payloads that, without the
  request and confirmation identifiers of the envelope, differ only in the order of the members of
  their objects, at any depth, have the same hash. Member names of an object are distinct.
\<close>

theorem payload_hash_canonical:
  assumes "same_members (without_envelope v) (without_envelope v')"
  shows "payloadHash sha256 v = payloadHash sha256 v'"
  using semantic_same_members [OF assms] by (simp add: payloadHash_def semantic_without_envelope)

theorem payload_hash_canonical_witness:
  "payloadHash id (JObj [(js ''b'', JArr [JObj [(js ''x'', JNull), (js ''y'', JBool False)]]), (js ''a'', JBool True), (js ''requestId'', JStr (js ''r1''))]) =
   payloadHash id (JObj [(js ''requestId'', JStr (js ''r2'')), (js ''a'', JBool True), (js ''b'', JArr [JObj [(js ''y'', JBool False), (js ''x'', JNull)]])])"
proof (rule payload_hash_canonical)
  have "same_members (JObj [(js ''x'', JNull), (js ''y'', JBool False)]) (JObj [(js ''y'', JBool False), (js ''x'', JNull)])"
    by (rule same_obj [of _ "[(js ''x'', JNull), (js ''y'', JBool False)]"]) (simp_all add: same_value jm_wf_def js_def)
  then have b: "same_members (JArr [JObj [(js ''x'', JNull), (js ''y'', JBool False)]]) (JArr [JObj [(js ''y'', JBool False), (js ''x'', JNull)]])"
    by (intro same_arr) simp
  show "same_members (without_envelope (JObj [(js ''b'', JArr [JObj [(js ''x'', JNull), (js ''y'', JBool False)]]), (js ''a'', JBool True), (js ''requestId'', JStr (js ''r1''))]))
      (without_envelope (JObj [(js ''requestId'', JStr (js ''r2'')), (js ''a'', JBool True), (js ''b'', JArr [JObj [(js ''y'', JBool False), (js ''x'', JNull)]])]))"
    unfolding without_envelope.simps
    by (rule same_obj [of _ "[(js ''b'', JArr [JObj [(js ''y'', JBool False), (js ''x'', JNull)]]), (js ''a'', JBool True)]"])
      (use b in \<open>simp_all add: same_value envelope_free_def jm_wf_def js_def\<close>)
qed

end
