(* ===== verification/Wire.thy ===== *)
theory Wire
  imports JsValue
begin

text \<open>
  The frames of the omp-app/1 protocol the client and the host exchange, as the decoders of
  host-wire return them: one record per frame interface, with the fields the modelled code reads
  or writes. The discriminating \<open>v\<close> and \<open>type\<close> fields of a frame are the constructor that holds
  it. Identifiers, revisions and epochs are strings, sequence numbers integers, and payloads that
  stay opaque JSON are values.
\<close>

record cursor =
  epoch :: jsstr
  seq :: int

record durable_entry =
  e_id :: jsstr
  e_parentId :: "jsstr option"
  e_hostId :: jsstr
  e_sessionId :: jsstr
  e_turnId :: "jsstr option"
  e_kind :: jsstr
  e_timestamp :: jsstr
  e_data :: jsval

record snapshot_frame =
  sf_cursor :: cursor
  sf_revision :: jsstr
  sf_hostId :: jsstr
  sf_sessionId :: jsstr
  sf_entries :: "durable_entry list"

record entry_frame =
  ef_cursor :: cursor
  ef_revision :: jsstr
  ef_hostId :: jsstr
  ef_sessionId :: jsstr
  ef_entry :: durable_entry

record event_frame =
  vf_cursor :: cursor
  vf_hostId :: jsstr
  vf_sessionId :: jsstr
  vf_event :: jsval
  vf_rest :: "(jsstr \<times> jsval) list"

record agent_transcript_frame =
  af_hostId :: jsstr
  af_sessionId :: jsstr
  af_agentId :: jsstr
  af_cursor :: cursor
  af_entries :: "durable_entry list"
  af_revision :: jsstr

record gap_frame =
  gf_hostId :: jsstr
  gf_sessionId :: jsstr
  gf_from :: cursor
  gf_to :: cursor
  gf_reason :: jsstr

text \<open>
  An event frame as the object the code stringifies; \<open>vf_rest\<close> holds its other properties, such
  as \<open>v\<close> and \<open>type\<close>.
\<close>

definition cursor_val :: "cursor \<Rightarrow> jsval" where
  "cursor_val c = JObj [(js ''epoch'', JStr (epoch c)), (js ''seq'', JNum (JInt (seq c)))]"

definition event_val :: "event_frame \<Rightarrow> jsval" where
  "event_val f = JObj ([(js ''cursor'', cursor_val (vf_cursor f)), (js ''hostId'', JStr (vf_hostId f)),
     (js ''sessionId'', JStr (vf_sessionId f)), (js ''event'', vf_event f)] @ vf_rest f)"

text \<open>The members every frame of the protocol starts with.\<close>

definition protocol_members :: "string \<Rightarrow> (jsstr \<times> jsval) list" where
  "protocol_members t = [(js ''v'', JStr (js ''omp-app/1'')), (js ''type'', JStr (js t))]"

text \<open>An entry as the object the code stringifies; an absent \<open>turnId\<close> is no property.\<close>

definition entry_val :: "durable_entry \<Rightarrow> jsval" where
  "entry_val e =
     JObj ([(js ''id'', JStr (e_id e)),
            (js ''parentId'', (case e_parentId e of None \<Rightarrow> JNull | Some p \<Rightarrow> JStr p)),
            (js ''hostId'', JStr (e_hostId e)),
            (js ''sessionId'', JStr (e_sessionId e))]
           @ (case e_turnId e of None \<Rightarrow> [] | Some t \<Rightarrow> [(js ''turnId'', JStr t)])
           @ [(js ''kind'', JStr (e_kind e)),
              (js ''timestamp'', JStr (e_timestamp e)),
              (js ''data'', e_data e)])"

lemma json_text_JObj [simp]: "\<exists>t. json_text (JObj kvs) = Some t"
  by simp

end
