(* ===== verification/TranscriptRetention.thy ===== *)
theory TranscriptRetention
  imports Wire
begin

text \<open>
  Bounded retention of transcripts (client/src/transcript-retention.ts): exact byte counts of
  JSON strings, truncation of long text, the secret-redacting, depth- and byte-bounded copy of a
  JSON value, and the suffixes of entry and event lists that fit a byte budget. Budgets and byte
  counts are integers, since a child's budget can be negative. The code remembers byte counts of
  objects in a weak map. The map is not state: the counter takes the result of the lookup as an
  argument, where the code remembers a count the model returns it beside the value, and the lemmas
  relate it to the count recomputed from the value. The operations on entries count without a
  remembered value: what is remembered for an entry is the count of the same frozen entry.
  Freezing has no counterpart.
\<close>

subsection \<open>Limits\<close>

definition max_retained_transcript_entries :: int where "max_retained_transcript_entries = 10000"
definition max_retained_transcript_bytes :: int where "max_retained_transcript_bytes = 8 * 1024 * 1024"
definition max_retained_transcript_entry_bytes :: int where "max_retained_transcript_entry_bytes = 256 * 1024"
definition max_retained_agent_transcripts :: nat where "max_retained_agent_transcripts = 16"
definition max_retained_agent_transcript_entries :: int where "max_retained_agent_transcript_entries = 512"
definition max_retained_agent_transcript_bytes :: int where "max_retained_agent_transcript_bytes = 1024 * 1024"
definition max_retained_session_events :: int where "max_retained_session_events = 512"
definition max_retained_session_events_bytes :: int where "max_retained_session_events_bytes = 2 * 1024 * 1024"
definition max_retained_session_event_bytes :: int where "max_retained_session_event_bytes = 128 * 1024"

definition max_retained_value_depth :: nat where "max_retained_value_depth = 8"
definition max_retained_value_array_items :: nat where "max_retained_value_array_items = 256"
definition max_retained_value_keys :: nat where "max_retained_value_keys = 256"
definition max_retained_value_string_bytes :: int where "max_retained_value_string_bytes = 64 * 1024"

lemmas retention_limits =
  max_retained_transcript_entries_def max_retained_transcript_bytes_def
  max_retained_transcript_entry_bytes_def max_retained_session_events_def
  max_retained_session_events_bytes_def max_retained_session_event_bytes_def
  max_retained_value_string_bytes_def

text \<open>A line feed, an ellipsis, the words, an ellipsis and a line feed.\<close>

definition truncation_marker :: jsstr where
  "truncation_marker = [0x0A, 0x2026] @ js '' retained value truncated '' @ [0x2026, 0x0A]"

subsection \<open>Byte counts\<close>

fun jsonStringBytes_loop :: "jsstr \<Rightarrow> int \<Rightarrow> int" where
  "jsonStringBytes_loop [] bytes = bytes"
| "jsonStringBytes_loop (c # cs) bytes =
     (let code = unat c in
      if code = 0x22 \<or> code = 0x5C \<or> code = 0x08 \<or> code = 0x09 \<or> code = 0x0A \<or> code = 0x0C \<or> code = 0x0D
      then jsonStringBytes_loop cs (bytes + 2)
      else if code < 0x20 then jsonStringBytes_loop cs (bytes + 6)
      else if code < 0x80 then jsonStringBytes_loop cs (bytes + 1)
      else if code < 0x800 then jsonStringBytes_loop cs (bytes + 2)
      else if code \<ge> 0xD800 \<and> code \<le> 0xDBFF then
        (case cs of
           [] \<Rightarrow> jsonStringBytes_loop cs (bytes + 6)
         | d # ds \<Rightarrow>
             if unat d \<ge> 0xDC00 \<and> unat d \<le> 0xDFFF then jsonStringBytes_loop ds (bytes + 4)
             else jsonStringBytes_loop cs (bytes + 6))
      else jsonStringBytes_loop cs (bytes + (if code \<ge> 0xDC00 \<and> code \<le> 0xDFFF then 6 else 3)))"

definition jsonStringBytes :: "jsstr \<Rightarrow> int" where
  "jsonStringBytes s = jsonStringBytes_loop s 2"

text \<open>The counter; \<open>cached\<close> is what the weak map has for the value, if it is an object.\<close>

fun retainedJsonBytes_cached :: "int option \<Rightarrow> jsval \<Rightarrow> int" where
  "retainedJsonBytes_cached cached (JStr s) = jsonStringBytes s"
| "retainedJsonBytes_cached cached (JNum n) = (if is_finite n then int (length (num_str n)) else 4)"
| "retainedJsonBytes_cached cached (JBool b) = (if b then 4 else 5)"
| "retainedJsonBytes_cached cached JNull = 4"
| "retainedJsonBytes_cached cached v =
     (case (if v = JUndef then None else cached) of
        Some bytes \<Rightarrow> bytes
      | None \<Rightarrow> (case json_text v of None \<Rightarrow> 0 | Some t \<Rightarrow> int (length (utf8_encode t))))"

definition retainedArrayItemBytes_cached :: "int option \<Rightarrow> jsval \<Rightarrow> int" where
  "retainedArrayItemBytes_cached cached v =
     (let bytes = retainedJsonBytes_cached cached v in if bytes = 0 \<and> json_text v = None then 4 else bytes)"

text \<open>The counts of a value for which nothing is remembered.\<close>

definition retainedJsonBytes :: "jsval \<Rightarrow> int" where
  "retainedJsonBytes v = retainedJsonBytes_cached None v"

definition retainedArrayItemBytes :: "jsval \<Rightarrow> int" where
  "retainedArrayItemBytes v = retainedArrayItemBytes_cached None v"

lemma retainedJsonBytes_simps [simp]:
  "retainedJsonBytes (JStr s) = jsonStringBytes s"
  "retainedJsonBytes (JNum n) = (if is_finite n then int (length (num_str n)) else 4)"
  "retainedJsonBytes (JBool b) = (if b then 4 else 5)"
  "retainedJsonBytes JNull = 4"
  "retainedJsonBytes JUndef = (case json_text JUndef of None \<Rightarrow> 0 | Some t \<Rightarrow> int (length (utf8_encode t)))"
  "retainedJsonBytes (JArr xs) = (case json_text (JArr xs) of None \<Rightarrow> 0 | Some t \<Rightarrow> int (length (utf8_encode t)))"
  "retainedJsonBytes (JObj kvs) = (case json_text (JObj kvs) of None \<Rightarrow> 0 | Some t \<Rightarrow> int (length (utf8_encode t)))"
  "retainedJsonBytes JFun = (case json_text JFun of None \<Rightarrow> 0 | Some t \<Rightarrow> int (length (utf8_encode t)))"
  by (simp_all add: retainedJsonBytes_def)

text \<open>A limit, \<open>None\<close> when it is absent; a number that is not an integer acts like an absent one.\<close>

definition boundedInteger :: "int option \<Rightarrow> int \<Rightarrow> int \<Rightarrow> int" where
  "boundedInteger v fallback ceiling =
     (case v of
        None \<Rightarrow> min fallback ceiling
      | Some n \<Rightarrow> if \<not> is_safe_integer n \<or> n < 1 then min fallback ceiling else min n ceiling)"

subsection \<open>Text\<close>

definition truncation_candidate :: "jsstr \<Rightarrow> int \<Rightarrow> jsstr" where
  "truncation_candidate s kept =
     (let head = nat ((kept + 1) div 2); tail = nat (kept div 2)
      in take head s @ truncation_marker @ (if tail = 0 then [] else slice_last tail s))"

function retained_search :: "jsstr \<Rightarrow> int \<Rightarrow> int \<Rightarrow> int \<Rightarrow> jsstr \<Rightarrow> jsstr" where
  "retained_search s budget low high best =
     (if low \<le> high then
        let kept = (low + high) div 2; candidate = truncation_candidate s kept
        in if jsonStringBytes candidate \<le> budget
           then retained_search s budget (kept + 1) high candidate
           else retained_search s budget low (kept - 1) best
      else best)"
  by pat_completeness auto
termination
  by (relation "measure (\<lambda>(s, budget, low, high, best). nat (high - low + 1))") auto

declare retained_search.simps [simp del]

definition retainedText :: "jsstr \<Rightarrow> int \<Rightarrow> jsstr" where
  "retainedText s maxJsonBytes =
     (let budget = max 2 maxJsonBytes; valueBytes = jsonStringBytes s
      in if valueBytes \<le> budget \<and> valueBytes \<le> max_retained_value_string_bytes + 2 then s
         else let available = max 0 (min (int (length s)) max_retained_value_string_bytes)
              in retained_search s budget 0 available [])"

subsection \<open>Secret keys\<close>

text \<open>
  The expression \<open>/token|secret|password|credential|authorization|cookie|private.?key/i\<close>. Without
  the unicode flag, case is folded by upper-casing a code unit and a code unit outside ASCII never
  folds into ASCII, so folding is that of ASCII letters.
\<close>

definition ascii_lower :: "jschar \<Rightarrow> jschar" where
  "ascii_lower c = (if 65 \<le> c \<and> c \<le> 90 then c + 32 else c)"

definition starts_with :: "jsstr \<Rightarrow> jsstr \<Rightarrow> bool" where
  "starts_with w s \<longleftrightarrow> take (length w) s = w"

fun contains :: "jsstr \<Rightarrow> jsstr \<Rightarrow> bool" where
  "contains w [] \<longleftrightarrow> w = []"
| "contains w (c # s) \<longleftrightarrow> starts_with w (c # s) \<or> contains w s"

definition line_terminator :: "jschar \<Rightarrow> bool" where
  "line_terminator c \<longleftrightarrow> c = 0x0A \<or> c = 0x0D \<or> c = 0x2028 \<or> c = 0x2029"

fun contains_private_key :: "jsstr \<Rightarrow> bool" where
  "contains_private_key [] \<longleftrightarrow> False"
| "contains_private_key (c # s) \<longleftrightarrow>
     (starts_with (js ''private'') (c # s) \<and>
       (let r = drop 7 (c # s) in
          starts_with (js ''key'') r \<or>
          (case r of [] \<Rightarrow> False | d # r' \<Rightarrow> \<not> line_terminator d \<and> starts_with (js ''key'') r'))) \<or>
     contains_private_key s"

definition secret_key :: "jsstr \<Rightarrow> bool" where
  "secret_key name \<longleftrightarrow>
     (let s = map ascii_lower name in
      contains (js ''token'') s \<or> contains (js ''secret'') s \<or> contains (js ''password'') s \<or>
      contains (js ''credential'') s \<or> contains (js ''authorization'') s \<or> contains (js ''cookie'') s \<or>
      contains_private_key s)"

subsection \<open>Member order\<close>

definition important_key_priority :: "(jsstr \<times> nat) list" where
  "important_key_priority =
     [(js ''type'', 0), (js ''images'', 1), (js ''role'', 2), (js ''text'', 3), (js ''reasoning'', 4),
      (js ''tool'', 5), (js ''title'', 6), (js ''args'', 7), (js ''result'', 8), (js ''details'', 9),
      (js ''customType'', 10), (js ''customDetails'', 11), (js ''output'', 12), (js ''stdout'', 13),
      (js ''stderr'', 14), (js ''content'', 15)]"

definition important_key_count :: nat where
  "important_key_count = 16"

definition key_priority :: "jsstr \<Rightarrow> nat" where
  "key_priority k = (case map_of important_key_priority k of Some n \<Rightarrow> n | None \<Rightarrow> important_key_count)"

text \<open>The scan for a pair of neighbours in the wrong order; \<open>Array.sort\<close> is stable.\<close>

fun has_inversion :: "(jsstr \<times> 'v) list \<Rightarrow> bool" where
  "has_inversion (p # q # es) \<longleftrightarrow> key_priority (fst p) > key_priority (fst q) \<or> has_inversion (q # es)"
| "has_inversion es \<longleftrightarrow> False"

definition orderedEntries :: "(jsstr \<times> 'v) list \<Rightarrow> (jsstr \<times> 'v) list" where
  "orderedEntries kvs =
     (let es = own_entries kvs
      in if has_inversion es then sort_key (\<lambda>p. key_priority (fst p)) es else es)"

subsection \<open>The bounded copy of a value\<close>

text \<open>
  \<open>output[name] = value\<close> on a plain object: the name \<open>__proto__\<close> sets the prototype and
  makes no own property.
\<close>

definition assign_member :: "jsstr \<Rightarrow> jsval \<Rightarrow> (jsstr \<times> jsval) list \<Rightarrow> (jsstr \<times> jsval) list" where
  "assign_member name v out = (if name = js ''__proto__'' then out else jm_set name v out)"

type_synonym sanitizer = "jsval \<Rightarrow> int \<Rightarrow> (jsval \<times> int) option"

fun sanitize_items :: "sanitizer \<Rightarrow> int \<Rightarrow> jsval list \<Rightarrow> jsval list \<Rightarrow> int \<Rightarrow> jsval list \<times> int" where
  "sanitize_items child budget [] out bytes = (out, bytes)"
| "sanitize_items child budget (item # items) out bytes =
     (let separator = (if out = [] then 0 else 1) in
      case child item (budget - bytes - separator) of
        None \<Rightarrow> sanitize_items child budget items out bytes
      | Some (v, b) \<Rightarrow>
          let bytes' = bytes + separator + b in
          if bytes' \<ge> budget then (out @ [v], bytes')
          else sanitize_items child budget items (out @ [v]) bytes')"

definition skip_member :: "bool \<Rightarrow> nat \<Rightarrow> jsstr \<Rightarrow> jsval \<Rightarrow> bool" where
  "skip_member imageBlock keys name item \<longleftrightarrow>
     keys \<ge> max_retained_value_keys \<or> secret_key name \<or>
     imageBlock \<and> name = js ''data'' \<and>
       (case item of JStr s \<Rightarrow> retainedJsonBytes item > max_retained_value_string_bytes | _ \<Rightarrow> False)"

fun sanitize_members ::
  "sanitizer \<Rightarrow> bool \<Rightarrow> int \<Rightarrow> (jsstr \<times> jsval) list \<Rightarrow> (jsstr \<times> jsval) list \<Rightarrow> nat \<Rightarrow> int \<Rightarrow>
   (jsstr \<times> jsval) list \<times> int" where
  "sanitize_members child imageBlock budget [] out keys bytes = (out, bytes)"
| "sanitize_members child imageBlock budget ((name, item) # es) out keys bytes =
     (if skip_member imageBlock keys name item
      then sanitize_members child imageBlock budget es out keys bytes
      else
        let separator = (if keys = 0 then 0 else 1);
            fixedBytes = separator + jsonStringBytes name + 1
        in case child item (budget - bytes - fixedBytes) of
             None \<Rightarrow> sanitize_members child imageBlock budget es out keys bytes
           | Some (v, b) \<Rightarrow>
               let bytes' = bytes + fixedBytes + b; out' = assign_member name v out in
               if bytes' \<ge> budget then (out', bytes')
               else sanitize_members child imageBlock budget es out' (keys + 1) bytes')"

definition within :: "int \<Rightarrow> jsval \<times> int \<Rightarrow> (jsval \<times> int) option" where
  "within budget r = (if snd r \<le> budget then Some r else None)"

text \<open>The branches of \<open>sanitizeNode\<close> for values that are not arrays or objects.\<close>

fun sanitize_scalar :: sanitizer where
  "sanitize_scalar JNull budget = within budget (JNull, retainedJsonBytes JNull)"
| "sanitize_scalar (JBool b) budget = within budget (JBool b, retainedJsonBytes (JBool b))"
| "sanitize_scalar (JNum n) budget =
     (if is_finite n then within budget (JNum n, retainedJsonBytes (JNum n)) else None)"
| "sanitize_scalar (JStr s) budget =
     (let t = retainedText s (min budget (max_retained_value_string_bytes + 2))
      in within budget (JStr t, retainedJsonBytes (JStr t)))"
| "sanitize_scalar v budget = None"

text \<open>
  \<open>sanitizeNode\<close>, by recursion on the levels left, \<open>max_retained_value_depth - depth\<close>.
\<close>

primrec sanitizeNode :: "nat \<Rightarrow> bool \<Rightarrow> jsval \<Rightarrow> int \<Rightarrow> (jsval \<times> int) option" where
  "sanitizeNode 0 = (\<lambda>imageBlock v budget. if budget < 1 then None else sanitize_scalar v budget)"
| "sanitizeNode (Suc left) = (\<lambda>imageBlock v budget.
     if budget < 1 then None
     else (case v of
       JArr xs \<Rightarrow>
         (let (out, bytes) = sanitize_items (sanitizeNode left False) budget
                (take max_retained_value_array_items xs) [] 2
          in within budget (JArr out, bytes))
     | JObj kvs \<Rightarrow>
         (let sourceIsImageBlock = (get_prop v ''type'' = JStr (js ''image''));
              (out, bytes) = sanitize_members (sanitizeNode left sourceIsImageBlock)
                (imageBlock \<or> sourceIsImageBlock) budget (orderedEntries kvs) [] 0 2
          in within budget (JObj out, bytes))
     | _ \<Rightarrow> sanitize_scalar v budget))"

text \<open>The copy together with the byte count that is remembered for it.\<close>

definition sanitizeRetainedNode :: "jsval \<Rightarrow> int \<Rightarrow> (jsval \<times> int) option" where
  "sanitizeRetainedNode v maxBytes = sanitizeNode max_retained_value_depth False v (max 2 maxBytes)"

definition sanitizeRetainedValue :: "jsval \<Rightarrow> int \<Rightarrow> jsval" where
  "sanitizeRetainedValue v maxBytes =
     (case sanitizeRetainedNode v maxBytes of None \<Rightarrow> JUndef | Some (w, _) \<Rightarrow> w)"

definition sanitizeRetainedRecord :: "jsval \<Rightarrow> int \<Rightarrow> jsval" where
  "sanitizeRetainedRecord v maxBytes =
     (case sanitizeRetainedValue v maxBytes of JObj kvs \<Rightarrow> JObj kvs | _ \<Rightarrow> JObj [])"

subsection \<open>Durable entries\<close>

definition sanitizeRetainedDurableEntry :: "durable_entry \<Rightarrow> int \<Rightarrow> durable_entry" where
  "sanitizeRetainedDurableEntry entry maxBytes =
     (let limit = boundedInteger (Some maxBytes) max_retained_transcript_entry_bytes max_retained_transcript_bytes;
          shell = \<lparr>e_id = e_id entry, e_parentId = e_parentId entry, e_hostId = e_hostId entry,
                   e_sessionId = e_sessionId entry, e_turnId = None, e_kind = e_kind entry,
                   e_timestamp = e_timestamp entry, e_data = JObj []\<rparr>;
          shellBytesWithoutData = retainedJsonBytes (entry_val shell) - 2;
          data = sanitizeRetainedRecord (e_data entry) (max 2 (limit - shellBytesWithoutData))
      in shell\<lparr>e_data := data\<rparr>)"

record retain_options =
  ro_maxEntries :: "int option"
  ro_maxBytes :: "int option"
  ro_maxEntryBytes :: "int option"

record retain_config =
  rc_maxEntries :: int
  rc_maxBytes :: int
  rc_maxEntryBytes :: int

record retained_entries =
  re_entries :: "durable_entry list"
  re_bytes :: int
  re_truncated :: bool

definition default_retain_options :: retain_options where
  "default_retain_options = \<lparr>ro_maxEntries = None, ro_maxBytes = None, ro_maxEntryBytes = None\<rparr>"

definition retainedEntryOptions :: "retain_options \<Rightarrow> retain_config" where
  "retainedEntryOptions options =
     (let maxBytes = boundedInteger (ro_maxBytes options) max_retained_transcript_bytes max_retained_transcript_bytes
      in \<lparr>rc_maxEntries = boundedInteger (ro_maxEntries options) max_retained_transcript_entries max_retained_transcript_entries,
          rc_maxBytes = maxBytes,
          rc_maxEntryBytes = boundedInteger (ro_maxEntryBytes options) max_retained_transcript_entry_bytes
            (min max_retained_transcript_entry_bytes maxBytes)\<rparr>)"

text \<open>The loop from the last entry backwards; \<open>retained\<close> is the array it pushes to.\<close>

fun retain_loop :: "int \<Rightarrow> durable_entry list \<Rightarrow> durable_entry list \<Rightarrow> int \<Rightarrow> durable_entry list \<times> int" where
  "retain_loop maxBytes [] retained bytes = (retained, bytes)"
| "retain_loop maxBytes (entry # before) retained bytes =
     (let entryBytes = retainedJsonBytes (entry_val entry);
          separator = (if retained = [] then 0 else 1)
      in if bytes + separator + entryBytes > maxBytes then (retained, bytes)
         else retain_loop maxBytes before (retained @ [entry]) (bytes + separator + entryBytes))"

definition retainSanitizedEntries :: "durable_entry list \<Rightarrow> nat \<Rightarrow> retain_config \<Rightarrow> retained_entries" where
  "retainSanitizedEntries entries uniqueCount config =
     (let (retained, bytes) = retain_loop (rc_maxBytes config) (rev entries) [] 2
      in \<lparr>re_entries = rev retained, re_bytes = bytes, re_truncated = length retained < uniqueCount\<rparr>)"

fun unique_by_id :: "durable_entry list \<Rightarrow> (jsstr, durable_entry) jsmap \<Rightarrow> (jsstr, durable_entry) jsmap" where
  "unique_by_id [] unique = unique"
| "unique_by_id (entry # entries) unique =
     unique_by_id entries (if jm_has unique (e_id entry) then unique else jm_set (e_id entry) entry unique)"

definition retainDurableEntries :: "durable_entry list \<Rightarrow> retain_options \<Rightarrow> retained_entries" where
  "retainDurableEntries entries options =
     (let config = retainedEntryOptions options;
          unique = unique_by_id entries [];
          candidates = map (\<lambda>entry. sanitizeRetainedDurableEntry entry (rc_maxEntryBytes config))
            (slice_last (nat (rc_maxEntries config)) (jm_values unique))
      in retainSanitizedEntries candidates (length unique) config)"

definition appendRetainedDurableEntry ::
  "durable_entry list \<Rightarrow> durable_entry \<Rightarrow> retain_options \<Rightarrow> retained_entries" where
  "appendRetainedDurableEntry entries entry options =
     (if list_ex (\<lambda>existing. e_id existing = e_id entry) entries
      then \<lparr>re_entries = entries, re_bytes = retainedJsonBytes (JArr (map entry_val entries)), re_truncated = False\<rparr>
      else
        let config = retainedEntryOptions options;
            appended = (if rc_maxEntries config = 1 then []
                        else slice_last (nat (rc_maxEntries config - 1)) entries)
              @ [sanitizeRetainedDurableEntry entry (rc_maxEntryBytes config)]
        in retainSanitizedEntries appended (length entries + 1) config)"

subsection \<open>Event history\<close>

text \<open>
  \<open>appendRetainedValue\<close> for any kind of value. The count of an item is a parameter, since it is
  the remembered or the recomputed one; the count of the array is passed in and returned, as the
  code remembers it.
\<close>

fun remove_prefix :: "('a \<Rightarrow> int) \<Rightarrow> 'a list \<Rightarrow> int \<Rightarrow> nat \<Rightarrow> int \<times> nat" where
  "remove_prefix item [] bytes n = (bytes, n)"
| "remove_prefix item (v # vs) bytes n =
     remove_prefix item vs (if n = 1 then 2 else bytes - item v - 1) (n - 1)"

fun shrink_to_budget :: "('a \<Rightarrow> int) \<Rightarrow> int \<Rightarrow> 'a list \<Rightarrow> int \<Rightarrow> nat \<Rightarrow> 'a list \<times> int" where
  "shrink_to_budget item budget [] bytes n = ([], bytes)"
| "shrink_to_budget item budget (v # vs) bytes n =
     (if bytes > budget \<and> n > 0
      then shrink_to_budget item budget vs (if n = 1 then 2 else bytes - item v - 1) (n - 1)
      else (v # vs, bytes))"

definition appendRetainedValue ::
  "('a \<Rightarrow> int) \<Rightarrow> 'a list \<Rightarrow> int \<Rightarrow> 'a \<Rightarrow> int \<Rightarrow> int \<Rightarrow> 'a list \<times> int" where
  "appendRetainedValue item values valuesBytes v maxItems maxBytes =
     (let n = boundedInteger (Some maxItems) max_retained_session_events max_retained_session_events;
          budget = boundedInteger (Some maxBytes) max_retained_session_events_bytes max_retained_session_events_bytes;
          firstPriorIndex = (if n = 1 then length values
                             else nat (max 0 (int (length values) - (n - 1))));
          (bytes, retainedCount) = remove_prefix item (take firstPriorIndex values) valuesBytes (length values);
          candidates = drop firstPriorIndex values @ [v];
          bytes = bytes + item v + (if retainedCount = 0 then 0 else 1)
      in shrink_to_budget item budget candidates bytes (retainedCount + 1))"

subsection \<open>Frames\<close>

datatype transcript_frame =
    TSnapshot snapshot_frame
  | TEntry entry_frame
  | TEvent event_frame
  | TAgentTranscript agent_transcript_frame
  | TGap gap_frame

definition agent_retain_options :: retain_options where
  "agent_retain_options =
     \<lparr>ro_maxEntries = Some max_retained_agent_transcript_entries,
      ro_maxBytes = Some max_retained_agent_transcript_bytes,
      ro_maxEntryBytes = Some max_retained_transcript_entry_bytes\<rparr>"

fun sanitizeRetainedTranscriptFrame :: "transcript_frame \<Rightarrow> transcript_frame" where
  "sanitizeRetainedTranscriptFrame (TSnapshot frame) =
     (let retained = retainDurableEntries (sf_entries frame) default_retain_options
      in TSnapshot (frame\<lparr>sf_entries := re_entries retained\<rparr>))"
| "sanitizeRetainedTranscriptFrame (TEntry frame) =
     TEntry (frame\<lparr>ef_entry := sanitizeRetainedDurableEntry (ef_entry frame) max_retained_transcript_entry_bytes\<rparr>)"
| "sanitizeRetainedTranscriptFrame (TEvent frame) =
     (let event = sanitizeRetainedRecord (vf_event frame) max_retained_session_event_bytes
      in TEvent (frame\<lparr>vf_event := event\<rparr>))"
| "sanitizeRetainedTranscriptFrame (TAgentTranscript frame) =
     (let retained = retainDurableEntries (af_entries frame) agent_retain_options
      in TAgentTranscript (frame\<lparr>af_entries := re_entries retained\<rparr>))"
| "sanitizeRetainedTranscriptFrame (TGap frame) = TGap frame"

text \<open>The version-free events a renderer receives: a kind and the frame's payload.\<close>

datatype transcript_event =
    RSnapshot snapshot_frame
  | REntry entry_frame
  | REvent event_frame
  | RAgentTranscript agent_transcript_frame
  | RGap gap_frame

fun sanitizeRetainedTranscriptEvent :: "transcript_event \<Rightarrow> transcript_event" where
  "sanitizeRetainedTranscriptEvent (RSnapshot payload) =
     (let retained = retainDurableEntries (sf_entries payload) default_retain_options
      in RSnapshot (payload\<lparr>sf_entries := re_entries retained\<rparr>))"
| "sanitizeRetainedTranscriptEvent (REntry payload) =
     REntry (payload\<lparr>ef_entry := sanitizeRetainedDurableEntry (ef_entry payload) max_retained_transcript_entry_bytes\<rparr>)"
| "sanitizeRetainedTranscriptEvent (REvent payload) =
     (let event = sanitizeRetainedRecord (vf_event payload) max_retained_session_event_bytes
      in REvent (payload\<lparr>vf_event := event\<rparr>))"
| "sanitizeRetainedTranscriptEvent (RAgentTranscript payload) =
     (let retained = retainDurableEntries (af_entries payload) agent_retain_options
      in RAgentTranscript (payload\<lparr>af_entries := re_entries retained\<rparr>))"
| "sanitizeRetainedTranscriptEvent (RGap payload) = RGap payload"

subsection \<open>The byte counts are exact\<close>

lemma json_escape_plain:
  "\<not> is_high c \<Longrightarrow> \<not> is_low c \<Longrightarrow> json_escape (c # s) = escape_unit c @ json_escape s"
  by (cases s) auto

lemma json_escape_low: "is_low c \<Longrightarrow> json_escape (c # s) = unicode_escape c @ json_escape s"
  by (cases s) (auto simp: is_high_def is_low_def)

lemma json_escape_high:
  "is_high c \<Longrightarrow> s = [] \<or> \<not> is_low (hd s) \<Longrightarrow> json_escape (c # s) = unicode_escape c @ json_escape s"
  by (cases s) auto

lemma utf8_len_pair: "is_high c \<Longrightarrow> is_low d \<Longrightarrow> utf8_len (c # d # s) = 4 + utf8_len s"
  by (simp add: utf8_len_def utf8_encode_def utf8_points_def utf8_one_def)

lemma unat_eq_iff: "n < 65536 \<Longrightarrow> unat (c :: jschar) = n \<longleftrightarrow> c = of_nat n"
  by (auto simp: word_unat_eq_iff unat_of_nat_unit)

lemma utf8_len_escape_unit:
  assumes "\<not> is_high c" "\<not> is_low c"
  shows "utf8_len (escape_unit c) =
    (let code = unat c in
     if code = 0x22 \<or> code = 0x5C \<or> code = 0x08 \<or> code = 0x09 \<or> code = 0x0A \<or> code = 0x0C \<or> code = 0x0D
     then 2 else if code < 0x20 then 6 else if code < 0x80 then 1 else if code < 0x800 then 2 else 3)"
proof -
  have two: "unat d < 0x80 \<Longrightarrow> utf8_len [92, d] = 2" for d :: jschar
    by (simp add: utf8_len_ascii_Cons)
  have lt: "unat c < 65536" by (rule unat_lt)
  show ?thesis
    using assms lt
    by (simp add: escape_unit_def Let_def unat_eq_iff two utf8_len_unicode_escape utf8_len_plain utf8_one_def)
qed

lemma starts_plain_escape_cases:
  "utf8_len (escape_unit c @ json_escape s) = utf8_len (escape_unit c) + utf8_len (json_escape s)"
  "utf8_len (unicode_escape c @ json_escape s) = 6 + utf8_len (json_escape s)"
  by (simp_all add: utf8_len_append starts_plain_json_escape utf8_len_unicode_escape)

declare jsonStringBytes_loop.simps(2) [simp del]

lemma jsonStringBytes_loop_high:
  "is_high c \<Longrightarrow> cs = [] \<or> \<not> is_low (hd cs) \<Longrightarrow>
   jsonStringBytes_loop (c # cs) b = jsonStringBytes_loop cs (b + 6)"
  "is_high c \<Longrightarrow> is_low d \<Longrightarrow> jsonStringBytes_loop (c # d # ds) b = jsonStringBytes_loop ds (b + 4)"
  by (cases cs; auto simp: jsonStringBytes_loop.simps(2) [of c] is_high_def is_low_def)
     (simp add: jsonStringBytes_loop.simps(2) [of c] is_high_def is_low_def)

lemma jsonStringBytes_loop_low:
  "is_low c \<Longrightarrow> jsonStringBytes_loop (c # cs) b = jsonStringBytes_loop cs (b + 6)"
  by (simp add: jsonStringBytes_loop.simps(2) [of c] is_low_def)

lemma jsonStringBytes_loop_plain:
  assumes "\<not> is_high c" "\<not> is_low c"
  shows "jsonStringBytes_loop (c # cs) b = jsonStringBytes_loop cs (b + int (utf8_len (escape_unit c)))"
proof -
  have "\<not> (0xD800 \<le> unat c \<and> unat c \<le> 0xDBFF)" "\<not> (0xDC00 \<le> unat c \<and> unat c \<le> 0xDFFF)"
    using assms by (simp_all add: is_high_def is_low_def)
  then show ?thesis
    unfolding utf8_len_escape_unit [OF assms] jsonStringBytes_loop.simps(2) [of c] Let_def
    by (simp only: if_False) simp
qed

lemma jsonStringBytes_loop_eq: "jsonStringBytes_loop s b = b + int (utf8_len (json_escape s))"
proof (induction s arbitrary: b rule: measure_induct_rule [of length])
  case (less s)
  show ?case
  proof (cases s)
    case (Cons c cs)
    have IH: "jsonStringBytes_loop cs b = b + int (utf8_len (json_escape cs))" for b
      using less Cons by simp
    consider (pair) d ds where "is_high c" "cs = d # ds" "is_low d"
      | (high) "is_high c" "cs = [] \<or> \<not> is_low (hd cs)" | (low) "is_low c" | (plain) "\<not> is_high c" "\<not> is_low c"
      by (cases cs) auto
    then show ?thesis
    proof cases
      case (pair d ds)
      then have "jsonStringBytes_loop ds (b + 4) = b + 4 + int (utf8_len (json_escape ds))"
        using less Cons by simp
      then show ?thesis using Cons pair by (simp add: jsonStringBytes_loop_high utf8_len_pair)
    next
      case high
      then show ?thesis using Cons by (simp add: jsonStringBytes_loop_high IH json_escape_high starts_plain_escape_cases)
    next
      case low
      then show ?thesis using Cons by (simp add: jsonStringBytes_loop_low IH json_escape_low starts_plain_escape_cases)
    next
      case plain
      then show ?thesis using Cons by (simp add: jsonStringBytes_loop_plain IH json_escape_plain starts_plain_escape_cases)
    qed
  qed simp
qed

lemma jsonStringBytes_eq: "jsonStringBytes s = int (quote_bytes s)"
  by (simp add: jsonStringBytes_def jsonStringBytes_loop_eq quote_bytes_def json_quote_def utf8_len_brackets)

lemma retainedJsonBytes_eq: "retainedJsonBytes v = int (json_bytes v)"
proof (cases v)
  case (JNum n)
  then show ?thesis using utf8_len_ascii [OF num_str_ascii, of n] utf8_len_ascii [of "js ''null''"]
    by (simp add: json_bytes_def) (simp add: js_def)
next
  case (JBool b)
  then show ?thesis using utf8_len_ascii [of "js ''true''"] utf8_len_ascii [of "js ''false''"]
    by (simp add: json_bytes_def) (simp add: js_def)
next
  case JNull
  then show ?thesis using utf8_len_ascii [of "js ''null''"] by (simp add: json_bytes_def) (simp add: js_def)
next
  case (JStr s)
  then show ?thesis by (simp add: json_bytes_def jsonStringBytes_eq quote_bytes_def)
qed (simp_all add: json_bytes_def utf8_len_def)

lemma json_bytes_pos: "json_text v = Some t \<Longrightarrow> 0 < json_bytes v"
proof -
  have ne: "utf8_len (num_str n) > 0" for n
    using utf8_len_ascii [OF num_str_ascii, of n]
    by (cases n) (auto simp: int_str_def nat_str.simps js_def)
  assume "json_text v = Some t"
  then show ?thesis
    using ne utf8_len_ascii [of "js ''true''"] utf8_len_ascii [of "js ''false''"] utf8_len_ascii [of "js ''null''"]
    by (cases v) (auto simp: json_bytes_def js_def json_quote_def utf8_len_brackets)
qed

lemma retainedArrayItemBytes_eq: "retainedArrayItemBytes v = int (item_bytes v)"
  by (auto simp: retainedArrayItemBytes_def retainedArrayItemBytes_cached_def retainedJsonBytes_def [symmetric] Let_def
      retainedJsonBytes_eq item_bytes_def dest: json_bytes_pos)
     (simp add: json_bytes_def)

subsection \<open>Truncated text fits\<close>

lemma jsonStringBytes_Nil [simp]: "jsonStringBytes [] = 2"
  by (simp add: jsonStringBytes_def)

lemma retained_search_fits:
  "jsonStringBytes best \<le> budget \<Longrightarrow> jsonStringBytes (retained_search s budget low high best) \<le> budget"
proof (induction s budget low high best rule: retained_search.induct)
  case (1 s budget low high best)
  then show ?case by (subst retained_search.simps) (simp add: Let_def)
qed

lemma retained_search_shape:
  "retained_search s budget low high best = best \<or>
   (\<exists>kept. low \<le> kept \<and> kept \<le> high \<and> retained_search s budget low high best = truncation_candidate s kept)"
proof (induction s budget low high best rule: retained_search.induct)
  case (1 s budget low high best)
  let ?k = "(low + high) div 2"
  show ?case
  proof (cases "low \<le> high")
    case True
    then have k: "low \<le> ?k" "?k \<le> high" by linarith+
    show ?thesis
    proof (cases "jsonStringBytes (truncation_candidate s ?k) \<le> budget")
      case fits: True
      have eq: "retained_search s budget low high best =
          retained_search s budget (?k + 1) high (truncation_candidate s ?k)"
        using True fits by (subst retained_search.simps) (simp add: Let_def)
      let ?r = "retained_search s budget (?k + 1) high (truncation_candidate s ?k)"
      from "1.IH"(1) [OF True refl refl fits]
      consider (a) "?r = truncation_candidate s ?k"
        | (b) kept where "?k + 1 \<le> kept" "kept \<le> high" "?r = truncation_candidate s kept" by metis
      then have "\<exists>kept. low \<le> kept \<and> kept \<le> high \<and> ?r = truncation_candidate s kept"
      proof cases
        case a
        then show ?thesis using k by (intro exI [of _ ?k]) simp
      next
        case b
        then show ?thesis using k by (intro exI [of _ kept]) simp
      qed
      then show ?thesis unfolding eq by (rule disjI2)
    next
      case False
      have eq: "retained_search s budget low high best = retained_search s budget low (?k - 1) best"
        using True False by (subst retained_search.simps) (simp add: Let_def)
      let ?r = "retained_search s budget low (?k - 1) best"
      from "1.IH"(2) [OF True refl refl False]
      consider (a) "?r = best"
        | (b) kept where "low \<le> kept" "kept \<le> ?k - 1" "?r = truncation_candidate s kept" by metis
      then show ?thesis unfolding eq
      proof cases
        case b
        then have "\<exists>kept. low \<le> kept \<and> kept \<le> high \<and> ?r = truncation_candidate s kept"
          using k by (intro exI [of _ kept]) simp
        then show "?r = best \<or> (\<exists>kept. low \<le> kept \<and> kept \<le> high \<and> ?r = truncation_candidate s kept)"
          by (rule disjI2)
      qed (rule disjI1)
    qed
  next
    case False
    then show ?thesis by (simp add: retained_search.simps)
  qed
qed

lemma retainedText_fits: "jsonStringBytes (retainedText s n) \<le> max 2 n"
  by (simp add: retainedText_def Let_def retained_search_fits)

lemma retainedText_shape:
  "retainedText s n = s \<or> retainedText s n = [] \<or>
   (\<exists>kept. 0 \<le> kept \<and> kept \<le> int (length s) \<and> kept \<le> max_retained_value_string_bytes \<and>
      retainedText s n = truncation_candidate s kept)"
  using retained_search_shape [of s "max 2 n" 0 "max 0 (min (int (length s)) max_retained_value_string_bytes)" "[]"]
  by (auto simp: retainedText_def Let_def max_def min_def retention_limits split: if_splits)

subsection \<open>The bounded copy\<close>

text \<open>
  Objects have distinct keys (as every JavaScript object), and the values without a member
  named \<open>__proto__\<close>.
\<close>

fun val_wf :: "jsval \<Rightarrow> bool" where
  "val_wf (JArr xs) \<longleftrightarrow> list_all val_wf xs"
| "val_wf (JObj kvs) \<longleftrightarrow> distinct (map fst kvs) \<and> list_all (\<lambda>(k, v). val_wf v) kvs"
| "val_wf v \<longleftrightarrow> True"

fun proto_free :: "jsval \<Rightarrow> bool" where
  "proto_free (JArr xs) \<longleftrightarrow> list_all proto_free xs"
| "proto_free (JObj kvs) \<longleftrightarrow> list_all (\<lambda>(k, v). k \<noteq> js ''__proto__'' \<and> proto_free v) kvs"
| "proto_free v \<longleftrightarrow> True"

text \<open>What a retained value looks like with \<open>left\<close> levels of nesting.\<close>

primrec retained_shape :: "nat \<Rightarrow> jsval \<Rightarrow> bool" where
  "retained_shape 0 = (\<lambda>v. case v of
      JNull \<Rightarrow> True | JBool b \<Rightarrow> True | JNum n \<Rightarrow> is_finite n
    | JStr s \<Rightarrow> jsonStringBytes s \<le> max_retained_value_string_bytes + 2 | _ \<Rightarrow> False)"
| "retained_shape (Suc left) = (\<lambda>v. case v of
      JNull \<Rightarrow> True | JBool b \<Rightarrow> True | JNum n \<Rightarrow> is_finite n
    | JStr s \<Rightarrow> jsonStringBytes s \<le> max_retained_value_string_bytes + 2
    | JArr xs \<Rightarrow> length xs \<le> max_retained_value_array_items \<and> list_all (retained_shape left) xs
    | JObj kvs \<Rightarrow> length kvs \<le> max_retained_value_keys \<and> distinct (map fst kvs) \<and>
        list_all (\<lambda>(k, v). \<not> secret_key k \<and> k \<noteq> js ''__proto__'' \<and> retained_shape left v) kvs
    | _ \<Rightarrow> False)"

text \<open>A remembered count: never below the actual one, and equal to it when \<open>E\<close> holds.\<close>

definition counts :: "bool \<Rightarrow> int \<Rightarrow> int \<Rightarrow> bool" where
  "counts E actual remembered \<longleftrightarrow> actual \<le> remembered \<and> (E \<longrightarrow> actual = remembered)"

definition sanitized_ok :: "(jsval \<Rightarrow> bool) \<Rightarrow> bool \<Rightarrow> int \<Rightarrow> jsval \<times> int \<Rightarrow> bool" where
  "sanitized_ok Q E budget r \<longleftrightarrow>
     Q (fst r) \<and> json_text (fst r) \<noteq> None \<and> counts E (int (json_bytes (fst r))) (snd r) \<and> snd r \<le> budget"

lemma within_Some: "within budget r = Some r' \<longleftrightarrow> r' = r \<and> snd r \<le> budget"
  by (auto simp: within_def)

lemma sanitize_scalar_ok:
  assumes "sanitize_scalar v budget = Some r"
  shows "sanitized_ok (retained_shape left) E budget r"
proof -
  have fit: "jsonStringBytes (retainedText s (min budget (max_retained_value_string_bytes + 2)))
      \<le> max_retained_value_string_bytes + 2" for s
    using retainedText_fits [of s "min budget (max_retained_value_string_bytes + 2)"]
    by (simp add: retention_limits)
  show ?thesis
    using assms fit
    by (cases v; cases left)
       (auto simp: sanitized_ok_def counts_def within_Some retainedJsonBytes_eq [symmetric] Let_def split: if_splits)
qed

lemma commas_Suc: "commas (Suc n) = commas n + (if n = 0 then 0 else 1)"
  by (simp add: commas_def)

lemma item_bytes_Some: "json_text v \<noteq> None \<Longrightarrow> item_bytes v = json_bytes v"
  by (auto simp: item_bytes_def)

lemma sanitize_items_ok:
  assumes child: "\<And>v b r. v \<in> set items \<Longrightarrow> child v b = Some r \<Longrightarrow> sanitized_ok Q E b r"
    and out: "list_all Q out" "counts E (int (json_bytes (JArr out))) bytes"
    and res: "sanitize_items child budget items out bytes = (out', bytes')"
  shows "list_all Q out' \<and> length out' \<le> length out + length items \<and>
    counts E (int (json_bytes (JArr out'))) bytes'"
  using assms
proof (induction items arbitrary: out bytes)
  case (Cons item items)
  let ?sep = "if out = [] then 0 else 1 :: int"
  show ?case
  proof (cases "child item (budget - bytes - ?sep)")
    case None
    then have "sanitize_items child budget items out bytes = (out', bytes')"
      using Cons.prems(4) by (simp add: Let_def)
    from Cons.IH [OF _ Cons.prems(2,3) this] Cons.prems(1) show ?thesis by force
  next
    case (Some r)
    obtain w c where r: "r = (w, c)" by (cases r)
    from Cons.prems(1) [OF _ Some] r have ok: "Q w" "json_text w \<noteq> None" "counts E (int (json_bytes w)) c"
      by (simp_all add: sanitized_ok_def)
    let ?bytes = "bytes + ?sep + c"
    have all: "list_all Q (out @ [w])" using Cons.prems(2) ok(1) by simp
    have bytes: "counts E (int (json_bytes (JArr (out @ [w])))) ?bytes"
      using Cons.prems(3) ok by (auto simp: counts_def json_bytes_JArr commas_Suc item_bytes_Some)
    show ?thesis
    proof (cases "?bytes \<ge> budget")
      case True
      then have "out' = out @ [w]" "bytes' = ?bytes" using Cons.prems(4) Some r by (simp_all add: Let_def)
      then show ?thesis using all bytes by simp
    next
      case False
      then have "sanitize_items child budget items (out @ [w]) ?bytes = (out', bytes')"
        using Cons.prems(4) Some r by (simp add: Let_def)
      from Cons.IH [OF _ all bytes this] Cons.prems(1) show ?thesis by force
    qed
  qed
qed simp

definition members_bytes :: "(jsstr \<times> jsval) list \<Rightarrow> int" where
  "members_bytes out = 2 + int (sum_list (map member_bytes out)) + int (commas (length out))"

text \<open>The loop over members: \<open>out\<close>, \<open>keys\<close> and \<open>bytes\<close> before a member is read.\<close>

definition members_inv ::
  "(jsval \<Rightarrow> bool) \<Rightarrow> bool \<Rightarrow> (jsstr \<times> jsval) list \<Rightarrow> nat \<Rightarrow> int \<Rightarrow> bool" where
  "members_inv Q E out keys bytes \<longleftrightarrow>
     list_all (\<lambda>(k, v). \<not> secret_key k \<and> k \<noteq> js ''__proto__'' \<and> Q v \<and> json_text v \<noteq> None) out \<and>
     distinct (map fst out) \<and> length out \<le> keys \<and> keys \<le> max_retained_value_keys \<and>
     (E \<longrightarrow> length out = keys) \<and> counts E (members_bytes out) bytes"

lemma jsonStringBytes_nonneg: "0 \<le> jsonStringBytes s"
  by (simp add: jsonStringBytes_eq)

lemma members_inv_step:
  assumes inv: "members_inv Q E out keys bytes" and name: "name \<notin> fst ` set out"
    and skip: "\<not> skip_member img keys name item"
    and ok: "sanitized_ok Q E b (v, c)" and E: "E \<longrightarrow> name \<noteq> js ''__proto__''"
  shows "members_inv Q E (assign_member name v out) (keys + 1)
    (bytes + ((if keys = 0 then 0 else 1) + jsonStringBytes name + 1) + c)"
proof -
  have keys: "keys < max_retained_value_keys" "\<not> secret_key name" using skip by (auto simp: skip_member_def)
  have c: "Q v" "json_text v \<noteq> None" "counts E (int (json_bytes v)) c" using ok by (simp_all add: sanitized_ok_def)
  then have c0: "0 \<le> c" by (simp add: counts_def)
  show ?thesis
  proof (cases "name = js ''__proto__''")
    case True
    then show ?thesis using inv keys c0 E jsonStringBytes_nonneg [of name]
      by (auto simp: members_inv_def assign_member_def counts_def)
  next
    case False
    have set: "jm_set name v out = out @ [(name, v)]"
      using name by (simp add: jm_set_notin jm_keys_def)
    have "members_bytes (out @ [(name, v)]) =
        members_bytes out + (if out = [] then 0 else 1) + jsonStringBytes name + 1 + int (json_bytes v)"
      by (simp add: members_bytes_def commas_Suc member_bytes_def jsonStringBytes_eq)
    then have "counts E (members_bytes (out @ [(name, v)]))
        (bytes + ((if keys = 0 then 0 else 1) + jsonStringBytes name + 1) + c)"
      using inv c(3) by (auto simp: counts_def members_inv_def)
    then show ?thesis using inv keys c(1,2) name False
      by (simp add: members_inv_def assign_member_def set)
  qed
qed

lemma sanitize_members_ok:
  assumes child: "\<And>k v b r. (k, v) \<in> set es \<Longrightarrow> child v b = Some r \<Longrightarrow> sanitized_ok Q E b r"
    and names: "distinct (map fst es)" "fst ` set es \<inter> fst ` set out = {}"
    and E: "E \<Longrightarrow> js ''__proto__'' \<notin> fst ` set es"
    and inv: "members_inv Q E out keys bytes"
    and res: "sanitize_members child img budget es out keys bytes = (out', bytes')"
  shows "\<exists>keys'. members_inv Q E out' keys' bytes'"
  using assms
proof (induction es arbitrary: out keys bytes)
  case Nil
  then show ?case by auto
next
  case (Cons p es)
  obtain name item where p: "p = (name, item)" by (cases p)
  have rest: "distinct (map fst es)" "fst ` set es \<inter> fst ` set out = {}"
    "E \<Longrightarrow> js ''__proto__'' \<notin> fst ` set es" "name \<notin> fst ` set out" "name \<notin> fst ` set es"
    "E \<longrightarrow> name \<noteq> js ''__proto__''"
    using Cons.prems(2-4) p by auto
  have child': "(k, v) \<in> set es \<Longrightarrow> child v b = Some r \<Longrightarrow> sanitized_ok Q E b r" for k v b r
    using Cons.prems(1) [of k v b r] by simp
  have IH: "\<exists>keys'. members_inv Q E out' keys' bytes'"
    if "fst ` set es \<inter> fst ` set out1 = {}" "members_inv Q E out1 keys1 bytes1"
      "sanitize_members child img budget es out1 keys1 bytes1 = (out', bytes')" for out1 keys1 bytes1
    by (rule Cons.IH [OF child' rest(1) that(1) rest(3) that(2,3)])
  note skipped = IH [OF rest(2) Cons.prems(5)]
  let ?f = "(if keys = 0 then 0 else 1) + jsonStringBytes name + 1"
  show ?case
  proof (cases "skip_member img keys name item")
    case True
    then show ?thesis using Cons.prems(6) p skipped by simp
  next
    case False
    show ?thesis
    proof (cases "child item (budget - bytes - ?f)")
      case None
      then show ?thesis using Cons.prems(6) p skipped False by (simp add: Let_def)
    next
      case (Some r)
      obtain v c where r: "r = (v, c)" by (cases r)
      have ok: "sanitized_ok Q E (budget - bytes - ?f) (v, c)"
        using Cons.prems(1) [of name item, OF _ Some] p r by simp
      have inv: "members_inv Q E (assign_member name v out) (keys + 1) (bytes + ?f + c)"
        using members_inv_step [OF Cons.prems(5) rest(4) False ok rest(6)] .
      show ?thesis
      proof (cases "bytes + ?f + c \<ge> budget")
        case True
        then have "out' = assign_member name v out" "bytes' = bytes + ?f + c"
          using Cons.prems(6) p False Some r by (simp_all add: Let_def)
        then show ?thesis using inv by auto
      next
        case more: False
        then have step: "sanitize_members child img budget es (assign_member name v out) (keys + 1) (bytes + ?f + c)
            = (out', bytes')"
          using Cons.prems(6) p False Some r by (simp add: Let_def)
        have "fst ` set (assign_member name v out) \<subseteq> insert name (fst ` set out)"
          by (auto simp: assign_member_def dest: jm_set_in_set)
        then have "fst ` set es \<inter> fst ` set (assign_member name v out) = {}" using rest(2,5) by auto
        from IH [OF this inv step] show ?thesis .
      qed
    qed
  qed
qed

lemma set_orderedEntries: "set (orderedEntries kvs) = set kvs"
  by (simp add: orderedEntries_def Let_def) (metis mset_own_entries set_mset_mset)

lemma distinct_orderedEntries: "distinct (map fst kvs) \<Longrightarrow> distinct (map fst (orderedEntries kvs))"
proof -
  assume d: "distinct (map fst kvs)"
  have "mset (orderedEntries kvs) = mset kvs" by (simp add: orderedEntries_def Let_def mset_own_entries)
  then have "mset (map fst (orderedEntries kvs)) = mset (map fst kvs)" by simp
  with d show ?thesis using mset_eq_imp_distinct_iff by blast
qed

lemma json_own_id: "list_all (\<lambda>p. json_text (snd p) \<noteq> None) kvs \<Longrightarrow> json_own kvs = kvs"
  by (induction kvs) (auto simp: json_own_def)

lemma retained_shape_json: "retained_shape left v \<Longrightarrow> json_text v \<noteq> None"
  by (cases left; cases v) auto

lemma sanitizeNode_ok:
  "val_wf v \<Longrightarrow> (E \<Longrightarrow> proto_free v) \<Longrightarrow> sanitizeNode left img v budget = Some r \<Longrightarrow>
   sanitized_ok (retained_shape left) E budget r"
proof (induction left arbitrary: img v budget r)
  case 0
  then show ?case by (auto simp del: retained_shape.simps split: if_splits intro: sanitize_scalar_ok)
next
  case (Suc left)
  show ?case
  proof (cases v)
    case (JArr xs)
    obtain out bytes where o: "sanitize_items (sanitizeNode left False) budget
        (take max_retained_value_array_items xs) [] 2 = (out, bytes)" by (meson surj_pair)
    have child: "sanitized_ok (retained_shape left) E b r"
      if "u \<in> set (take max_retained_value_array_items xs)" "sanitizeNode left False u b = Some r" for u b r
      by (rule Suc.IH [OF _ _ that(2)])
         (use Suc.prems(1,2) JArr in_set_takeD [OF that(1)] in \<open>auto simp: list_all_iff\<close>)
    have "counts E (int (json_bytes (JArr []))) 2" by (simp add: counts_def json_bytes_JArr commas_def)
    from sanitize_items_ok [OF child _ this o]
    have "list_all (retained_shape left) out \<and> length out \<le> max_retained_value_array_items \<and>
        counts E (int (json_bytes (JArr out))) bytes" by auto
    then show ?thesis using Suc.prems(3) JArr o
      by (auto simp: sanitized_ok_def within_Some split: if_splits)
  next
    case (JObj kvs)
    let ?i = "get_prop v ''type'' = JStr (js ''image'')"
    obtain out bytes where o: "sanitize_members (sanitizeNode left ?i) (img \<or> ?i) budget
        (orderedEntries kvs) [] 0 2 = (out, bytes)" by (meson surj_pair)
    have child: "sanitized_ok (retained_shape left) E b r"
      if "(k, u) \<in> set (orderedEntries kvs)" "sanitizeNode left ?i u b = Some r" for k u b r
      by (rule Suc.IH [OF _ _ that(2)])
         (use Suc.prems(1,2) JObj that(1) in \<open>auto simp: list_all_iff set_orderedEntries\<close>)
    have names: "distinct (map fst (orderedEntries kvs))"
      using Suc.prems(1) JObj by (simp add: distinct_orderedEntries)
    have E: "js ''__proto__'' \<notin> fst ` set (orderedEntries kvs)" if E
      using Suc.prems(2) [OF that] JObj by (auto simp: set_orderedEntries list_all_iff)
    have inv0: "members_inv (retained_shape left) E [] 0 2"
      by (simp add: members_inv_def counts_def members_bytes_def commas_def)
    have "\<exists>keys. members_inv (retained_shape left) E out keys bytes"
    proof (rule sanitize_members_ok [OF _ names _ _ inv0 o])
      show "sanitized_ok (retained_shape left) E b r"
        if "(k, u) \<in> set (orderedEntries kvs)" "sanitizeNode left ?i u b = Some r" for k u b r
        using that by (rule child)
      show "js ''__proto__'' \<notin> fst ` set (orderedEntries kvs)" if E using that by (rule E)
    qed simp
    then obtain keys where inv: "members_inv (retained_shape left) E out keys bytes" by (elim exE)
    then have own: "json_own out = out"
      by (intro json_own_id) (auto simp: members_inv_def list_all_iff)
    have "int (json_bytes (JObj out)) = members_bytes out"
      by (simp add: json_bytes_JObj own members_bytes_def)
    moreover have "list_all (\<lambda>(k, v). \<not> secret_key k \<and> k \<noteq> js ''__proto__'' \<and> retained_shape left v) out"
      using inv by (auto simp: members_inv_def list_all_iff)
    ultimately have "retained_shape (Suc left) (JObj out)" "counts E (int (json_bytes (JObj out))) bytes"
      using inv by (simp_all add: members_inv_def)
    then show ?thesis using Suc.prems(3) JObj o
      by (auto simp: sanitized_ok_def within_Some Let_def split: if_splits)
  qed (rule sanitize_scalar_ok [of v], use Suc.prems(3) in \<open>simp del: sanitize_scalar.simps split: if_splits\<close>)+
qed

lemma sanitizeRetainedNode_ok:
  assumes "val_wf v" "sanitizeRetainedNode v maxBytes = Some (w, bytes)"
  shows "retained_shape max_retained_value_depth w" "int (json_bytes w) \<le> bytes" "bytes \<le> max 2 maxBytes"
    "proto_free v \<Longrightarrow> int (json_bytes w) = bytes"
  using sanitizeNode_ok [OF assms(1), of False max_retained_value_depth False "max 2 maxBytes" "(w, bytes)"]
    sanitizeNode_ok [OF assms(1), of True max_retained_value_depth False "max 2 maxBytes" "(w, bytes)"] assms(2)
  by (simp_all add: sanitizeRetainedNode_def sanitized_ok_def counts_def)

lemma sanitizeRetainedRecord_cases:
  assumes "val_wf v"
  obtains kvs where "sanitizeRetainedRecord v maxBytes = JObj kvs"
    "retained_shape max_retained_value_depth (JObj kvs)" "int (json_bytes (JObj kvs)) \<le> max 2 maxBytes"
proof (cases "\<exists>kvs bytes. sanitizeRetainedNode v maxBytes = Some (JObj kvs, bytes)")
  case True
  then obtain kvs bytes where s: "sanitizeRetainedNode v maxBytes = Some (JObj kvs, bytes)" by (elim exE)
  have "sanitizeRetainedRecord v maxBytes = JObj kvs"
    by (simp add: sanitizeRetainedRecord_def sanitizeRetainedValue_def s)
  moreover have "int (json_bytes (JObj kvs)) \<le> max 2 maxBytes"
    using sanitizeRetainedNode_ok(2,3) [OF assms s] by linarith
  ultimately show ?thesis using that sanitizeRetainedNode_ok(1) [OF assms s] by metis
next
  case False
  then have "sanitizeRetainedRecord v maxBytes = JObj []"
    by (auto simp: sanitizeRetainedRecord_def sanitizeRetainedValue_def split: option.split jsval.split)
  moreover have "retained_shape max_retained_value_depth (JObj [])"
    by (simp add: max_retained_value_depth_def numeral_nat)
  moreover have "json_bytes (JObj []) = 2" by (simp add: json_bytes_JObj json_own_def commas_def)
  ultimately show ?thesis using that by simp
qed

subsection \<open>Entries and their lists\<close>

definition entry_bytes :: "durable_entry \<Rightarrow> int" where
  "entry_bytes e = int (json_bytes (entry_val e))"

definition entry_wf :: "durable_entry \<Rightarrow> bool" where
  "entry_wf e \<longleftrightarrow> val_wf (e_data e)"

definition retained_entry :: "durable_entry \<Rightarrow> bool" where
  "retained_entry e \<longleftrightarrow>
     e_turnId e = None \<and> retained_shape max_retained_value_depth (e_data e) \<and>
     (case e_data e of JObj kvs \<Rightarrow> True | _ \<Rightarrow> False)"

text \<open>An entry's bytes are those of its shell plus those of its data.\<close>

lemma entry_bytes_data:
  "entry_bytes (e\<lparr>e_data := JObj kvs\<rparr>) =
     entry_bytes (e\<lparr>e_data := JObj []\<rparr>) - 2 + int (json_bytes (JObj kvs))"
proof -
  have own: "json_own (p # ps) = (if json_text (snd p) = None then json_own ps else p # json_own ps)" for p ps
    by (simp add: json_own_def)
  have empty: "json_bytes (JObj []) = 2" by (simp add: json_bytes_JObj json_own_def commas_def)
  have p: "json_text (case e_parentId e of None \<Rightarrow> JNull | Some p \<Rightarrow> JStr p) \<noteq> None"
    by (simp split: option.split)
  show ?thesis
    by (cases "e_turnId e")
       (simp_all add: entry_bytes_def entry_val_def json_bytes_JObj [of "_ # _"] own p member_bytes_def empty)
qed

lemma sanitizeRetainedDurableEntry_ok:
  fixes maxBytes :: int
  defines "limit \<equiv> boundedInteger (Some maxBytes) max_retained_transcript_entry_bytes max_retained_transcript_bytes"
  assumes "entry_wf e"
  shows "retained_entry (sanitizeRetainedDurableEntry e maxBytes)"
    and "entry_bytes (sanitizeRetainedDurableEntry e maxBytes) \<le>
         max limit (entry_bytes (e\<lparr>e_turnId := None, e_data := JObj []\<rparr>))"
    and "e_id (sanitizeRetainedDurableEntry e maxBytes) = e_id e"
proof -
  let ?shell = "\<lparr>e_id = e_id e, e_parentId = e_parentId e, e_hostId = e_hostId e,
     e_sessionId = e_sessionId e, e_turnId = None, e_kind = e_kind e, e_timestamp = e_timestamp e, e_data = JObj []\<rparr>"
  let ?n = "max 2 (limit - (retainedJsonBytes (entry_val ?shell) - 2))"
  obtain kvs where kvs: "sanitizeRetainedRecord (e_data e) ?n = JObj kvs"
    "retained_shape max_retained_value_depth (JObj kvs)" "int (json_bytes (JObj kvs)) \<le> max 2 ?n"
    using sanitizeRetainedRecord_cases [of "e_data e" ?n] assms(2) by (metis entry_wf_def)
  have s: "sanitizeRetainedDurableEntry e maxBytes = ?shell\<lparr>e_data := JObj kvs\<rparr>"
    using kvs(1) by (simp add: sanitizeRetainedDurableEntry_def Let_def limit_def)
  have shell: "?shell = e\<lparr>e_turnId := None, e_data := JObj []\<rparr>" by (cases e) simp
  show "retained_entry (sanitizeRetainedDurableEntry e maxBytes)"
    unfolding s using kvs(2) by (simp add: retained_entry_def)
  have "entry_bytes (?shell\<lparr>e_data := JObj kvs\<rparr>) = entry_bytes ?shell - 2 + int (json_bytes (JObj kvs))"
    using entry_bytes_data [where e = ?shell and kvs = kvs] by simp
  also have "\<dots> \<le> max limit (entry_bytes ?shell)"
    using kvs(3) by (simp add: retainedJsonBytes_eq entry_bytes_def [symmetric] max_def split: if_splits)
  finally show "entry_bytes (sanitizeRetainedDurableEntry e maxBytes) \<le>
      max limit (entry_bytes (e\<lparr>e_turnId := None, e_data := JObj []\<rparr>))" unfolding s shell .
  show "e_id (sanitizeRetainedDurableEntry e maxBytes) = e_id e" unfolding s by simp
qed

definition list_bytes :: "durable_entry list \<Rightarrow> int" where
  "list_bytes es = int (json_bytes (JArr (map entry_val es)))"

lemma list_bytes_eq: "list_bytes es = 2 + sum_list (map entry_bytes es) + int (commas (length es))"
proof -
  have "item_bytes (entry_val e) = json_bytes (entry_val e)" for e
    by (simp add: item_bytes_def entry_val_def)
  then have "int (sum_list (map item_bytes (map entry_val es))) = sum_list (map entry_bytes es)"
    by (induction es) (simp_all add: entry_bytes_def)
  then show ?thesis by (simp add: list_bytes_def json_bytes_JArr)
qed

lemma list_bytes_Nil [simp]: "list_bytes [] = 2"
  by (simp add: list_bytes_eq commas_def)

lemma list_bytes_snoc: "list_bytes (es @ [e]) = list_bytes es + (if es = [] then 0 else 1) + entry_bytes e"
  by (simp add: list_bytes_eq commas_Suc)

lemma list_bytes_rev [simp]: "list_bytes (rev es) = list_bytes es"
  by (simp add: list_bytes_eq sum_list_rev rev_map [symmetric])

lemma retain_loop_ok:
  "bytes = list_bytes retained \<Longrightarrow> retain_loop maxBytes es retained bytes = (out, bytes') \<Longrightarrow>
   \<exists>n. out = retained @ take n es \<and> n \<le> length es \<and> bytes' = list_bytes out \<and>
     (n = 0 \<or> bytes' \<le> maxBytes) \<and> (n < length es \<longrightarrow> maxBytes < list_bytes (out @ [es ! n]))"
proof (induction es arbitrary: retained bytes)
  case (Cons e es)
  let ?b = "bytes + (if retained = [] then 0 else 1) + entry_bytes e"
  have b: "?b = list_bytes (retained @ [e])" using Cons.prems(1) by (simp add: list_bytes_snoc)
  have rj: "retainedJsonBytes (entry_val e) = entry_bytes e" by (simp add: retainedJsonBytes_eq entry_bytes_def)
  show ?case
  proof (cases "?b > maxBytes")
    case True
    then have "out = retained" "bytes' = bytes" using Cons.prems(2) by (simp_all add: Let_def rj)
    then show ?thesis using True b Cons.prems(1) by (intro exI [of _ 0]) simp
  next
    case False
    then have "retain_loop maxBytes es (retained @ [e]) ?b = (out, bytes')"
      using Cons.prems(2) by (simp add: Let_def rj)
    from Cons.IH [OF b this] obtain n where n: "out = (retained @ [e]) @ take n es" "n \<le> length es"
      "bytes' = list_bytes out" "n = 0 \<or> bytes' \<le> maxBytes" "n < length es \<longrightarrow> maxBytes < list_bytes (out @ [es ! n])"
      by (elim exE conjE)
    have "bytes' \<le> maxBytes" using n False b by auto
    then show ?thesis using n by (intro exI [of _ "Suc n"]) simp
  qed
qed simp

text \<open>What is kept is the longest suffix that fits the byte budget.\<close>

lemma retainSanitizedEntries_ok:
  assumes "r = retainSanitizedEntries es n config"
  obtains pre where "es = pre @ re_entries r" "re_bytes r = list_bytes (re_entries r)"
    "re_bytes r \<le> max 2 (rc_maxBytes config)"
    "pre \<noteq> [] \<Longrightarrow> rc_maxBytes config < list_bytes (last pre # re_entries r)"
    "re_truncated r \<longleftrightarrow> length (re_entries r) < n"
proof -
  obtain out bytes where o: "retain_loop (rc_maxBytes config) (rev es) [] 2 = (out, bytes)" by (meson surj_pair)
  have bytes2: "(2 :: int) = list_bytes []" by simp
  from retain_loop_ok [OF bytes2 o] obtain k where
    k: "out = take k (rev es)" "k \<le> length es" "bytes = list_bytes out" "k = 0 \<or> bytes \<le> rc_maxBytes config"
      "k < length es \<longrightarrow> rc_maxBytes config < list_bytes (out @ [rev es ! k])" by auto
  have r: "re_entries r = rev out" "re_bytes r = bytes" "re_truncated r \<longleftrightarrow> length out < n"
    using assms o by (simp_all add: retainSanitizedEntries_def)
  let ?pre = "take (length es - k) es"
  have suf: "rev out = drop (length es - k) es" using k(1) by (simp add: take_rev)
  show ?thesis
  proof (rule that [of ?pre])
    show "es = ?pre @ re_entries r" using r(1) suf by simp
    show "re_bytes r = list_bytes (re_entries r)" using r k(3) by simp
    show "re_bytes r \<le> max 2 (rc_maxBytes config)" using k(1,3,4) r(2) by auto
    show "re_truncated r \<longleftrightarrow> length (re_entries r) < n" using r by simp
    assume "?pre \<noteq> []"
    then have lt: "k < length es" by auto
    then have "last ?pre = rev es ! k"
      by (subst last_conv_nth) (auto simp: rev_nth)
    moreover have "list_bytes (rev es ! k # rev out) = list_bytes (out @ [rev es ! k])"
      using list_bytes_rev [of "out @ [rev es ! k]"] by simp
    ultimately show "rc_maxBytes config < list_bytes (last ?pre # re_entries r)"
      using lt k(5) r(1) by simp
  qed
qed

lemma unique_by_id_keys:
  assumes "jm_wf m" "\<forall>(k, e) \<in> set m. e_id e = k"
  shows "jm_wf (unique_by_id es m) \<and> (\<forall>(k, e) \<in> set (unique_by_id es m). e_id e = k \<and> (e \<in> set es \<or> (k, e) \<in> set m))"
  using assms
proof (induction es arbitrary: m)
  case (Cons e es)
  let ?m = "if jm_has m (e_id e) then m else jm_set (e_id e) e m"
  have "jm_wf ?m" "\<forall>(k, e') \<in> set ?m. e_id e' = k"
    using Cons.prems by (auto simp: jm_wf_set dest!: jm_set_in_set)
  from Cons.IH [OF this] have IH: "jm_wf (unique_by_id es ?m)"
    "\<forall>(k, e') \<in> set (unique_by_id es ?m). e_id e' = k \<and> (e' \<in> set es \<or> (k, e') \<in> set ?m)" by auto
  have "(k, e') \<in> set ?m \<Longrightarrow> e' = e \<or> (k, e') \<in> set m" for k e'
    by (auto split: if_splits dest!: jm_set_in_set)
  with IH show ?case unfolding unique_by_id.simps by fastforce
qed auto

subsection \<open>The retained lists\<close>

lemma boundedInteger_range:
  "1 \<le> fallback \<Longrightarrow> 1 \<le> ceiling \<Longrightarrow> 1 \<le> boundedInteger v fallback ceiling \<and> boundedInteger v fallback ceiling \<le> ceiling"
  by (auto simp: boundedInteger_def split: option.split)

lemma retain_config_range:
  assumes "config = retainedEntryOptions options"
  shows "1 \<le> rc_maxEntries config" "rc_maxEntries config \<le> max_retained_transcript_entries"
    "1 \<le> rc_maxBytes config" "rc_maxBytes config \<le> max_retained_transcript_bytes"
    "1 \<le> rc_maxEntryBytes config" "rc_maxEntryBytes config \<le> rc_maxBytes config"
proof -
  let ?b = "boundedInteger (ro_maxBytes options) max_retained_transcript_bytes max_retained_transcript_bytes"
  have b: "1 \<le> ?b" "?b \<le> max_retained_transcript_bytes"
    using boundedInteger_range by (simp_all add: retention_limits)
  show "1 \<le> rc_maxEntries config" "rc_maxEntries config \<le> max_retained_transcript_entries"
    using assms boundedInteger_range by (simp_all add: retainedEntryOptions_def Let_def retention_limits)
  show "1 \<le> rc_maxBytes config" "rc_maxBytes config \<le> max_retained_transcript_bytes"
    using assms b by (simp_all add: retainedEntryOptions_def Let_def)
  have "1 \<le> boundedInteger (ro_maxEntryBytes options) max_retained_transcript_entry_bytes (min max_retained_transcript_entry_bytes ?b)
     \<and> boundedInteger (ro_maxEntryBytes options) max_retained_transcript_entry_bytes (min max_retained_transcript_entry_bytes ?b)
        \<le> min max_retained_transcript_entry_bytes ?b"
    using b by (intro boundedInteger_range) (simp_all add: retention_limits)
  then show "1 \<le> rc_maxEntryBytes config" "rc_maxEntryBytes config \<le> rc_maxBytes config"
    using assms by (simp_all add: retainedEntryOptions_def Let_def)
qed

text \<open>The invariant of a retained transcript under the limits of \<open>options\<close>.\<close>

definition retained_list :: "retain_options \<Rightarrow> durable_entry list \<Rightarrow> bool" where
  "retained_list options es \<longleftrightarrow>
     distinct (map e_id es) \<and> list_all retained_entry es \<and>
     int (length es) \<le> rc_maxEntries (retainedEntryOptions options) \<and>
     list_bytes es \<le> max 2 (rc_maxBytes (retainedEntryOptions options))"

lemma distinct_map_suffix: "distinct (map f (xs @ ys)) \<Longrightarrow> distinct (map f ys)"
  by simp

lemma retainDurableEntries_ok:
  fixes options entries
  defines "r \<equiv> retainDurableEntries entries options"
  assumes wf: "list_all entry_wf entries"
  shows "retained_list options (re_entries r)" "re_bytes r = list_bytes (re_entries r)"
    "re_truncated r \<longleftrightarrow> length (re_entries r) < length (unique_by_id entries [])"
proof -
  let ?c = "retainedEntryOptions options"
  let ?u = "unique_by_id entries []"
  let ?l = "slice_last (nat (rc_maxEntries ?c)) (jm_values ?u)"
  let ?s = "\<lambda>e. sanitizeRetainedDurableEntry e (rc_maxEntryBytes ?c)"
  have u: "jm_wf ?u" "\<forall>(k, e) \<in> set ?u. e_id e = k \<and> e \<in> set entries"
    using unique_by_id_keys [of "[]" entries] by auto
  have ids: "map e_id (jm_values ?u) = map fst ?u" using u(2) by (auto simp: jm_values_def)
  have wfl: "e \<in> set ?l \<Longrightarrow> entry_wf e" for e
    using set_slice_last u(2) wf by (fastforce simp: jm_values_def list_all_iff)
  have eq: "r = retainSanitizedEntries (map ?s ?l) (length ?u) ?c"
    by (simp add: r_def retainDurableEntries_def Let_def)
  obtain pre where p: "map ?s ?l = pre @ re_entries r" "re_bytes r = list_bytes (re_entries r)"
    "re_bytes r \<le> max 2 (rc_maxBytes ?c)" "re_truncated r \<longleftrightarrow> length (re_entries r) < length ?u"
    using retainSanitizedEntries_ok [OF eq] by metis
  have "map e_id (map ?s ?l) = slice_last (nat (rc_maxEntries ?c)) (map e_id (jm_values ?u))"
    by (simp add: map_slice_last [symmetric] sanitizeRetainedDurableEntry_def Let_def comp_def)
  then have "distinct (map e_id (map ?s ?l))"
    using u(1) unfolding ids by (simp add: jm_wf_def distinct_slice_last)
  then have d: "distinct (map e_id (re_entries r))" unfolding p(1) by (rule distinct_map_suffix)
  have all: "list_all retained_entry (map ?s ?l)"
    using sanitizeRetainedDurableEntry_ok(1) wfl by (auto simp: list_all_iff)
  have len: "int (length (map ?s ?l)) \<le> rc_maxEntries ?c"
    using retain_config_range(1) [OF refl, of options] by (simp add: length_slice_last)
  from d all len p show "retained_list options (re_entries r)"
    unfolding p(1) by (simp add: retained_list_def)
  show "re_bytes r = list_bytes (re_entries r)" "re_truncated r \<longleftrightarrow> length (re_entries r) < length ?u"
    using p by simp_all
qed

lemma appendRetainedDurableEntry_ok:
  fixes options entries entry
  defines "r \<equiv> appendRetainedDurableEntry entries entry options"
  assumes inv: "retained_list options entries" and wf: "entry_wf entry"
  shows "retained_list options (re_entries r)" "re_bytes r = list_bytes (re_entries r)"
    "\<exists>pre. entries @ (if e_id entry \<in> e_id ` set entries then []
        else [sanitizeRetainedDurableEntry entry (rc_maxEntryBytes (retainedEntryOptions options))]) = pre @ re_entries r"
proof -
  let ?c = "retainedEntryOptions options"
  let ?e = "sanitizeRetainedDurableEntry entry (rc_maxEntryBytes ?c)"
  let ?kept = "if rc_maxEntries ?c = 1 then [] else slice_last (nat (rc_maxEntries ?c - 1)) entries"
  have "retained_list options (re_entries r) \<and> re_bytes r = list_bytes (re_entries r) \<and>
    (\<exists>pre. entries @ (if e_id entry \<in> e_id ` set entries then [] else [?e]) = pre @ re_entries r)"
  proof (cases "e_id entry \<in> e_id ` set entries")
    case True
    then have "list_ex (\<lambda>existing. e_id existing = e_id entry) entries" by (auto simp: list_ex_iff)
    then have "r = \<lparr>re_entries = entries, re_bytes = list_bytes entries, re_truncated = False\<rparr>"
      by (simp add: r_def appendRetainedDurableEntry_def retainedJsonBytes_eq list_bytes_def)
    then show ?thesis using inv True by simp
  next
    case False
    then have new: "\<not> list_ex (\<lambda>existing. e_id existing = e_id entry) entries"
      by (auto simp: list_ex_iff image_iff)
    have eq: "r = retainSanitizedEntries (?kept @ [?e]) (length entries + 1) ?c"
      using new by (simp add: r_def appendRetainedDurableEntry_def Let_def)
    obtain pre where p: "?kept @ [?e] = pre @ re_entries r" "re_bytes r = list_bytes (re_entries r)"
      "re_bytes r \<le> max 2 (rc_maxBytes ?c)"
      using retainSanitizedEntries_ok [OF eq] by metis
    have "\<exists>pre0. entries = pre0 @ ?kept"
      using slice_last_suffix [of entries "nat (rc_maxEntries ?c - 1)"] by (cases "rc_maxEntries ?c = 1") simp_all
    then obtain pre0 where pre0: "entries = pre0 @ ?kept" by (elim exE)
    have "e_id ?e = e_id entry" "retained_entry ?e"
      using sanitizeRetainedDurableEntry_ok [OF wf] by auto
    have "distinct (map e_id (entries @ [?e]))" "list_all retained_entry (entries @ [?e])"
      using inv False \<open>e_id ?e = e_id entry\<close> \<open>retained_entry ?e\<close> by (simp_all add: retained_list_def)
    then have da: "distinct (map e_id (?kept @ [?e]))" "list_all retained_entry (?kept @ [?e])"
      by (subst (asm) (1 2) pre0, simp)+
    have "int (length ?kept) \<le> rc_maxEntries ?c - 1"
      using retain_config_range(1) [OF refl, of options] by (simp add: length_slice_last min_def) linarith
    then have len: "int (length (?kept @ [?e])) \<le> rc_maxEntries ?c" by simp
    have "retained_list options (re_entries r)"
      using da len p(2,3) unfolding p(1) by (simp add: retained_list_def)
    moreover have "entries @ [?e] = (pre0 @ pre) @ re_entries r"
      using p(1) by (subst pre0) simp
    ultimately show ?thesis using p(2) False by auto
  qed
  then show "retained_list options (re_entries r)" "re_bytes r = list_bytes (re_entries r)"
    "\<exists>pre. entries @ (if e_id entry \<in> e_id ` set entries then [] else [?e]) = pre @ re_entries r" by simp_all
qed

subsection \<open>Event history\<close>

definition arr_bytes :: "('a \<Rightarrow> int) \<Rightarrow> 'a list \<Rightarrow> int" where
  "arr_bytes item vs = 2 + sum_list (map item vs) + int (commas (length vs))"

lemma arr_bytes_simps:
  "arr_bytes item [] = 2"
  "arr_bytes item (v # vs) = arr_bytes item vs + item v + (if vs = [] then 0 else 1)"
  "arr_bytes item (vs @ [v]) = arr_bytes item vs + item v + (if vs = [] then 0 else 1)"
  by (simp_all add: arr_bytes_def commas_def Suc_leI)

lemma remove_prefix_ok:
  "remove_prefix item xs (arr_bytes item (xs @ ys)) (length (xs @ ys)) = (arr_bytes item ys, length ys)"
proof (induction xs)
  case (Cons x xs)
  have "(if length ((x # xs) @ ys) = 1 then 2 else arr_bytes item ((x # xs) @ ys) - item x - 1) = arr_bytes item (xs @ ys)"
    by (auto simp: arr_bytes_simps)
  then show ?case using Cons unfolding append_Cons remove_prefix.simps(2) by simp
qed simp

lemma drop_drop_snoc: "f \<le> length xs \<Longrightarrow> drop j (drop f xs @ [v]) = drop (f + j) (xs @ [v])"
proof -
  assume "f \<le> length xs"
  then have "drop f xs @ [v] = drop f (xs @ [v])" by simp
  then show ?thesis by (simp only: drop_drop add.commute)
qed

lemma shrink_to_budget_ok:
  "\<exists>k. shrink_to_budget item budget vs (arr_bytes item vs) (length vs) = (drop k vs, arr_bytes item (drop k vs)) \<and>
     k \<le> length vs \<and> arr_bytes item (drop k vs) \<le> max 2 budget \<and>
     (0 < k \<longrightarrow> budget < arr_bytes item (drop (k - 1) vs))"
proof (induction vs)
  case Nil
  then show ?case by (simp add: arr_bytes_simps)
next
  case (Cons v vs)
  show ?case
  proof (cases "arr_bytes item (v # vs) > budget")
    case True
    have "(if length (v # vs) = 1 then 2 else arr_bytes item (v # vs) - item v - 1) = arr_bytes item vs"
      by (auto simp: arr_bytes_simps)
    then have eq: "shrink_to_budget item budget (v # vs) (arr_bytes item (v # vs)) (length (v # vs)) =
        shrink_to_budget item budget vs (arr_bytes item vs) (length vs)" using True by simp
    from Cons.IH obtain k where k: "shrink_to_budget item budget vs (arr_bytes item vs) (length vs) = (drop k vs, arr_bytes item (drop k vs))"
      "k \<le> length vs" "arr_bytes item (drop k vs) \<le> max 2 budget"
      "0 < k \<longrightarrow> budget < arr_bytes item (drop (k - 1) vs)" by (elim exE conjE)
    have "0 < Suc k \<longrightarrow> budget < arr_bytes item (drop (Suc k - 1) (v # vs))"
      using k(4) True by (cases k) simp_all
    then show ?thesis unfolding eq using k by (intro exI [of _ "Suc k"]) simp
  next
    case False
    then show ?thesis by (intro exI [of _ 0]) simp
  qed
qed

lemma drop_pred_last: "0 < k \<Longrightarrow> k \<le> length xs \<Longrightarrow> drop (k - 1) xs = last (take k xs) # drop k xs"
  using Cons_nth_drop_Suc [of "k - 1" xs, symmetric] by (cases k) (auto simp: take_Suc_conv_app_nth)

text \<open>Appending keeps the longest suffix that fits both caps, with its exact byte count.\<close>

lemma appendRetainedValue_ok:
  fixes maxItems maxBytes :: int
  defines "n \<equiv> boundedInteger (Some maxItems) max_retained_session_events max_retained_session_events"
    and "budget \<equiv> boundedInteger (Some maxBytes) max_retained_session_events_bytes max_retained_session_events_bytes"
  assumes "valuesBytes = arr_bytes item values"
  obtains k where "appendRetainedValue item values valuesBytes v maxItems maxBytes =
      (drop k (values @ [v]), arr_bytes item (drop k (values @ [v])))"
    "k \<le> length values + 1" "int (length values + 1 - k) \<le> n"
    "arr_bytes item (drop k (values @ [v])) \<le> max 2 budget"
    "0 < k \<Longrightarrow> n < int (length values + 2 - k) \<or> budget < arr_bytes item (drop (k - 1) (values @ [v]))"
proof -
  let ?f = "if n = 1 then length values else nat (max 0 (int (length values) - (n - 1)))"
  have n1: "1 \<le> n" using boundedInteger_range by (simp add: n_def retention_limits)
  have f: "?f \<le> length values" using n1 by auto
  have "remove_prefix item (take ?f values) valuesBytes (length values) =
      (arr_bytes item (drop ?f values), length (drop ?f values))"
    using remove_prefix_ok [of item "take ?f values" "drop ?f values"] assms(3) by simp
  moreover have "arr_bytes item (drop ?f values) + item v + (if length (drop ?f values) = 0 then 0 else 1) =
      arr_bytes item (drop ?f values @ [v])" by (simp only: arr_bytes_simps length_0_conv)
  ultimately have eq: "appendRetainedValue item values valuesBytes v maxItems maxBytes =
      shrink_to_budget item budget (drop ?f values @ [v]) (arr_bytes item (drop ?f values @ [v]))
        (length (drop ?f values @ [v]))"
    by (simp only: appendRetainedValue_def Let_def n_def [symmetric] budget_def [symmetric] split) simp
  obtain k where k: "shrink_to_budget item budget (drop ?f values @ [v]) (arr_bytes item (drop ?f values @ [v]))
        (length (drop ?f values @ [v])) = (drop k (drop ?f values @ [v]), arr_bytes item (drop k (drop ?f values @ [v])))"
    "k \<le> length (drop ?f values @ [v])" "arr_bytes item (drop k (drop ?f values @ [v])) \<le> max 2 budget"
    "0 < k \<longrightarrow> budget < arr_bytes item (drop (k - 1) (drop ?f values @ [v]))"
    using shrink_to_budget_ok [of item budget "drop ?f values @ [v]"] by (elim exE conjE)
  have dd: "drop j (drop ?f values @ [v]) = drop (?f + j) (values @ [v])" for j
    by (rule drop_drop_snoc [OF f])
  have len: "int (length values + 1 - (?f + k)) \<le> n" using n1 by (auto simp: max_def)
  show ?thesis
  proof (rule that [of "?f + k"])
    show "appendRetainedValue item values valuesBytes v maxItems maxBytes =
      (drop (?f + k) (values @ [v]), arr_bytes item (drop (?f + k) (values @ [v])))"
      unfolding eq k(1) dd ..
    show "?f + k \<le> length values + 1" using k(2) f by simp
    show "arr_bytes item (drop (?f + k) (values @ [v])) \<le> max 2 budget" using k(3) unfolding dd .
    assume pos: "0 < ?f + k"
    show "n < int (length values + 2 - (?f + k)) \<or> budget < arr_bytes item (drop (?f + k - 1) (values @ [v]))"
    proof (cases k)
      case 0
      with pos n1 f show ?thesis by (intro disjI1) (auto simp: max_def split: if_splits)
    next
      case (Suc j)
      then show ?thesis using k(4) dd [of j] by simp
    qed
  qed (rule len)
qed

subsection \<open>Properties\<close>

text \<open>A count remembered for a value that was made by sanitizing a value without a member named \<open>__proto__\<close>.\<close>

definition remembered_count :: "jsval \<Rightarrow> int \<Rightarrow> bool" where
  "remembered_count v bytes \<longleftrightarrow>
     (\<exists>source maxBytes. val_wf source \<and> proto_free source \<and> sanitizeRetainedNode source maxBytes = Some (v, bytes))"

lemma cached_count:
  assumes "cached = None \<or> (\<exists>bytes. cached = Some bytes \<and> remembered_count v bytes)"
  shows "retainedJsonBytes_cached cached v = retainedJsonBytes v"
proof (cases cached)
  case (Some bytes)
  then have "bytes = retainedJsonBytes v"
    using assms sanitizeRetainedNode_ok(4) by (auto simp: remembered_count_def retainedJsonBytes_eq)
  then show ?thesis using Some by (cases v) (simp_all add: retainedJsonBytes_def)
qed (simp add: retainedJsonBytes_def)

text \<open>
  C28: The byte counter is exact. For a value for which no count is remembered, or the one that was
  remembered when the value was made by sanitizing a value without a member named \<open>__proto__\<close>
  (member names distinct), it gives the number of UTF-8 bytes \<open>JSON.stringify\<close> writes: without
  serializing a string, number or other primitive, with escapes, surrogate pairs and unpaired
  surrogates counted as the serializer writes them; and for an array element the bytes of \<open>null\<close>
  when the element does not serialize.
\<close>

theorem retained_json_bytes_exact:
  assumes "cached = None \<or> (\<exists>bytes. cached = Some bytes \<and> remembered_count v bytes)"
  shows "retainedJsonBytes_cached cached v = (case json_text v of None \<Rightarrow> 0 | Some t \<Rightarrow> int (length (utf8_encode t))) \<and>
   retainedArrayItemBytes_cached cached v = (case json_text v of None \<Rightarrow> 4 | Some t \<Rightarrow> int (length (utf8_encode t)))"
proof -
  have "int (json_bytes v) = (case json_text v of None \<Rightarrow> 0 | Some t \<Rightarrow> int (length (utf8_encode t)))"
    by (simp add: json_bytes_def utf8_len_def split: option.split)
  moreover have "int (item_bytes v) = (case json_text v of None \<Rightarrow> 4 | Some t \<Rightarrow> int (length (utf8_encode t)))"
    by (auto simp: item_bytes_def json_bytes_def utf8_len_def split: option.split)
  moreover have "retainedArrayItemBytes_cached cached v = retainedArrayItemBytes v"
    using cached_count [OF assms] by (simp add: retainedArrayItemBytes_def retainedArrayItemBytes_cached_def retainedJsonBytes_def)
  ultimately show ?thesis using cached_count [OF assms] by (simp add: retainedJsonBytes_eq retainedArrayItemBytes_eq)
qed

text \<open>
  Truncated text always fits: the result encodes as a JSON string within the budget (at least
  the two quotes), a text that fits is returned unchanged, and otherwise the result is empty or a
  head of the text, the marker and a tail of it, together at most 64 Ki code units of the text.
\<close>

theorem retained_text_fits:
  "jsonStringBytes (retainedText s n) \<le> max 2 n \<and>
   (jsonStringBytes s \<le> min (max 2 n) (max_retained_value_string_bytes + 2) \<longrightarrow> retainedText s n = s) \<and>
   (retainedText s n = s \<or> retainedText s n = [] \<or>
    (\<exists>kept. 0 \<le> kept \<and> kept \<le> int (length s) \<and> kept \<le> max_retained_value_string_bytes \<and>
       retainedText s n = truncation_candidate s kept))"
  using retainedText_fits [of s n] retainedText_shape [of s n] by (simp add: retainedText_def)

theorem retained_text_fits_witness:
  "jsonStringBytes (js ''abc'') \<le> min (max 2 10) (max_retained_value_string_bytes + 2) \<and>
   retainedText (js ''abc'') 10 = js ''abc''"
proof -
  have "jsonStringBytes (js ''abc'') \<le> min (max 2 10) (max_retained_value_string_bytes + 2)" by code_simp
  then show ?thesis using retained_text_fits [of "js ''abc''" 10] by simp
qed

text \<open>
  C25: The retained copy of a value is bounded and redacted. Its JSON encoding is at most the
  remembered byte count, which is at most the budget; it nests at most eight levels, has at most
  256 items per array and 256 members per object, holds no member whose name matches the secret
  pattern at any depth, no string above the string cap and nothing that does not serialize. When
  no member is named \<open>__proto__\<close> the remembered count is exact.
\<close>

theorem sanitize_retained_value_bounded:
  assumes "val_wf v" and "sanitizeRetainedNode v maxBytes = Some (w, bytes)"
  shows "sanitizeRetainedValue v maxBytes = w \<and> int (json_bytes w) \<le> bytes \<and> bytes \<le> max 2 maxBytes \<and>
    retained_shape max_retained_value_depth w \<and> (proto_free v \<longrightarrow> bytes = int (json_bytes w))"
  using sanitizeRetainedNode_ok [OF assms] assms(2) by (simp add: sanitizeRetainedValue_def)

definition sample_value :: jsval where
  "sample_value = JObj [(js ''apiToken'', JStr (js ''x'')), (js ''text'', JStr (js ''hello'')),
     (js ''items'', JArr [JNull, JUndef, JObj [(js ''Private-Key'', JNull)]])]"

definition sample_retained :: jsval where
  "sample_retained = JObj [(js ''text'', JStr (js ''hello'')), (js ''items'', JArr [JNull, JObj []])]"

theorem sanitize_retained_value_bounded_witness:
  "sanitizeRetainedValue sample_value 100 = sample_retained \<and> int (json_bytes sample_retained) = 34 \<and>
   retained_shape max_retained_value_depth sample_retained"
proof -
  have 1: "val_wf sample_value" by code_simp
  have 2: "sanitizeRetainedNode sample_value 100 = Some (sample_retained, 34)" by code_simp
  have 3: "proto_free sample_value" by code_simp
  show ?thesis using sanitize_retained_value_bounded [OF 1 2] 3 by simp
qed

theorem retained_json_bytes_exact_witness:
  "sanitizeRetainedNode sample_value 100 = Some (sample_retained, 34) \<and>
   retainedJsonBytes_cached (Some 34) sample_retained =
     (case json_text sample_retained of None \<Rightarrow> 0 | Some t \<Rightarrow> int (length (utf8_encode t)))"
proof -
  have 1: "val_wf sample_value" by code_simp
  have 2: "sanitizeRetainedNode sample_value 100 = Some (sample_retained, 34)" by code_simp
  have 3: "proto_free sample_value" by code_simp
  have "remembered_count sample_retained 34" unfolding remembered_count_def using 1 2 3 by blast
  then show ?thesis using retained_json_bytes_exact [of "Some 34" sample_retained] 2 by simp
qed

subsection \<open>Counting a member named \<open>__proto__\<close>\<close>

text \<open>Only the distance to the budget matters to the loop over members.\<close>

lemma sanitize_members_shift:
  "sanitize_members child img (budget + d) es out keys (bytes + d) =
     (fst (sanitize_members child img budget es out keys bytes), snd (sanitize_members child img budget es out keys bytes) + d)"
proof (induction es arbitrary: out keys bytes)
  case (Cons p es)
  obtain name item where p: "p = (name, item)" by (cases p)
  define f where "f = (if keys = 0 then 0 else 1) + jsonStringBytes name + 1"
  have left: "budget + d - (bytes + d) - f = budget - bytes - f" by simp
  show ?case
  proof (cases "skip_member img keys name item \<or> child item (budget - bytes - f) = None")
    case True
    then show ?thesis using Cons.IH [of out keys bytes] left by (auto simp: p Let_def f_def [symmetric])
  next
    case False
    then obtain v c where c: "child item (budget - bytes - f) = Some (v, c)" "\<not> skip_member img keys name item" by auto
    have sum: "bytes + d + f + c = bytes + f + c + d" by simp
    show ?thesis
      using c left Cons.IH [of "assign_member name v out" "keys + 1" "bytes + f + c"]
      by (simp add: p Let_def f_def [symmetric] sum)
  qed
qed simp

lemma sanitize_members_grows:
  assumes "\<And>k v b r. (k, v) \<in> set es \<Longrightarrow> child v b = Some r \<Longrightarrow> 0 \<le> snd r"
  shows "bytes \<le> snd (sanitize_members child img budget es out keys bytes)"
  using assms
proof (induction es arbitrary: out keys bytes)
  case (Cons p es)
  obtain name item where p: "p = (name, item)" by (cases p)
  have IH: "bytes \<le> snd (sanitize_members child img budget es out keys bytes)" for out keys bytes
    using Cons.IH Cons.prems by (meson list.set_intros(2))
  define f where "f = (if keys = 0 then 0 else 1) + jsonStringBytes name + 1"
  show ?case
  proof (cases "child item (budget - bytes - f)")
    case (Some r)
    obtain v c where r: "r = (v, c)" by (cases r)
    have "0 \<le> c" using Cons.prems [of name item _ r, OF _ Some] by (simp add: p r)
    then have le: "bytes \<le> bytes + f + c" using jsonStringBytes_nonneg [of name] by (simp add: f_def)
    from order_trans [OF le IH] le IH show ?thesis using Some r p by (simp add: Let_def f_def [symmetric])
  qed (use IH p in \<open>simp add: Let_def f_def [symmetric]\<close>)
qed simp

lemma sanitize_members_gap:
  assumes child: "\<And>k v b r. (k, v) \<in> set es \<Longrightarrow> child v b = Some r \<Longrightarrow> sanitized_ok Q False b r"
    and names: "distinct (map fst es)" "fst ` set es \<inter> fst ` set out = {}"
    and inv: "members_inv Q False out keys bytes" and gap: "members_bytes out + d \<le> bytes"
    and res: "sanitize_members child img budget es out keys bytes = (out', bytes')"
  shows "members_bytes out' + d \<le> bytes'"
proof -
  have "members_inv Q False out keys (bytes - d)" using inv gap by (simp add: members_inv_def counts_def)
  moreover have "sanitize_members child img (budget - d) es out keys (bytes - d) = (out', bytes' - d)"
    using sanitize_members_shift [of child img "budget - d" d es out keys "bytes - d"] res
    by (cases "sanitize_members child img (budget - d) es out keys (bytes - d)") simp
  ultimately have "\<exists>keys'. members_inv Q False out' keys' (bytes' - d)"
    using child names by (intro sanitize_members_ok [where child = child and es = es and out = out]) auto
  then show ?thesis by (auto simp: members_inv_def counts_def)
qed

lemma sanitize_items_within:
  assumes "\<And>v b r. child v b = Some r \<Longrightarrow> snd r \<le> b" "bytes \<le> budget"
  shows "snd (sanitize_items child budget items out bytes) \<le> budget"
  using assms(2)
proof (induction items arbitrary: out bytes)
  case (Cons item items)
  define sep where "sep = (if out = [] then 0 else 1 :: int)"
  show ?case
  proof (cases "child item (budget - bytes - sep)")
    case (Some r)
    then have "bytes + sep + snd r \<le> budget" using assms(1) [OF Some] by simp
    then show ?thesis using Some Cons.IH by (cases r) (simp add: Let_def sep_def [symmetric])
  qed (use Cons in \<open>simp add: Let_def sep_def [symmetric]\<close>)
qed simp

lemma sanitize_members_within:
  assumes "\<And>v b r. child v b = Some r \<Longrightarrow> snd r \<le> b" "bytes \<le> budget"
  shows "snd (sanitize_members child img budget es out keys bytes) \<le> budget"
  using assms(2)
proof (induction es arbitrary: out keys bytes)
  case (Cons p es)
  obtain name item where p: "p = (name, item)" by (cases p)
  define f where "f = (if keys = 0 then 0 else 1) + jsonStringBytes name + 1"
  show ?case
  proof (cases "child item (budget - bytes - f)")
    case (Some r)
    then have "bytes + f + snd r \<le> budget" using assms(1) [OF Some] by simp
    then show ?thesis using Some Cons by (cases r) (simp add: p Let_def f_def [symmetric])
  qed (use Cons p in \<open>simp add: Let_def f_def [symmetric]\<close>)
qed simp

lemma sanitizeNode_within: "sanitizeNode left img v b = Some r \<Longrightarrow> snd r \<le> b"
proof -
  have scalar: "sanitize_scalar v b = Some r \<Longrightarrow> snd r \<le> b" for v
    by (cases v) (auto simp: within_Some Let_def split: if_splits)
  show "sanitizeNode left img v b = Some r \<Longrightarrow> ?thesis"
    by (cases left; cases v) (auto simp: within_Some Let_def case_prod_beta scalar simp del: sanitize_scalar.simps split: if_splits)
qed

text \<open>What is kept whenever there is room: anything but \<open>undefined\<close>, numbers and functions.\<close>

fun keepable :: "jsval \<Rightarrow> bool" where
  "keepable JUndef \<longleftrightarrow> False"
| "keepable (JNum n) \<longleftrightarrow> False"
| "keepable JFun \<longleftrightarrow> False"
| "keepable v \<longleftrightarrow> True"

lemma keepable_kept: "keepable v \<Longrightarrow> 24 \<le> b \<Longrightarrow> sanitizeNode (Suc left) img v b \<noteq> None"
proof (cases v)
  case (JStr s)
  assume "24 \<le> b"
  then show ?thesis using retainedText_fits [of s "min b (max_retained_value_string_bytes + 2)"] JStr
    by (auto simp: within_def Let_def retention_limits)
next
  case (JArr xs)
  assume "24 \<le> b"
  then show ?thesis using sanitize_items_within [of "sanitizeNode left False" 2 b] sanitizeNode_within JArr
    by (simp add: within_def case_prod_beta)
next
  case (JObj kvs)
  assume "24 \<le> b"
  then show ?thesis
    using sanitize_members_within [of "sanitizeNode left (get_prop v ''type'' = JStr (js ''image''))" 2 b] sanitizeNode_within JObj
    by (simp add: within_def case_prod_beta Let_def)
qed (simp_all add: within_def)

lemma proto_counted:
  assumes child: "\<And>k v b r. (k, v) \<in> set es \<Longrightarrow> child v b = Some r \<Longrightarrow> sanitized_ok Q False b r"
    and names: "distinct (map fst es)" "fst ` set es \<inter> fst ` set out = {}"
    and keep: "\<And>b. 24 \<le> b \<Longrightarrow> child item b \<noteq> None" and here: "(js ''__proto__'', item) \<in> set es"
    and few: "keys + length es \<le> max_retained_value_keys" and inv: "members_inv Q False out keys bytes"
    and res: "sanitize_members child img budget es out keys bytes = (out', bytes')" and room: "bytes' + 40 \<le> budget"
  shows "members_bytes out' + 12 \<le> bytes'"
  using assms
proof (induction es arbitrary: out keys bytes)
  case (Cons p es)
  obtain name i where p: "p = (name, i)" by (cases p)
  define f where "f = (if keys = 0 then 0 else 1) + jsonStringBytes name + 1"
  have rest: "distinct (map fst es)" "fst ` set es \<inter> fst ` set out = {}" "name \<notin> fst ` set out" "name \<notin> fst ` set es"
    using Cons.prems(2,3) p by auto
  have child': "(k, v) \<in> set es \<Longrightarrow> child v b = Some r \<Longrightarrow> sanitized_ok Q False b r" for k v b r
    using Cons.prems(1) [of k v b r] by simp
  have pos: "child v b = Some r \<Longrightarrow> (k, v) \<in> set (p # es) \<Longrightarrow> 0 \<le> snd r" for k v b r
    using Cons.prems(1) [of k v b r] by (auto simp: sanitized_ok_def counts_def)
  have len: "jsonStringBytes (js ''__proto__'') = 11" by code_simp
  have step: "sanitize_members child img budget (p # es) out keys bytes =
      (if skip_member img keys name i then sanitize_members child img budget es out keys bytes
       else case child i (budget - bytes - f) of None \<Rightarrow> sanitize_members child img budget es out keys bytes
         | Some (v, b) \<Rightarrow> if bytes + f + b \<ge> budget then (assign_member name v out, bytes + f + b)
             else sanitize_members child img budget es (assign_member name v out) (keys + 1) (bytes + f + b))"
    by (simp only: p sanitize_members.simps Let_def f_def)
  note res = Cons.prems(8) [unfolded step]
  show ?case
  proof (cases "name = js ''__proto__''")
    case True
    then have "i = item" using Cons.prems(5) rest(4) p by (auto simp: image_iff)
    have grow: "bytes \<le> bytes'" using sanitize_members_grows [of "p # es" child bytes img budget out keys] pos Cons.prems(8) by force
    then have "24 \<le> budget - bytes - f" using Cons.prems(9) True len by (simp add: f_def)
    then obtain v c where c: "child item (budget - bytes - f) = Some (v, c)" using Cons.prems(4) by fastforce
    have "\<not> secret_key name" unfolding True by code_simp
    moreover have "name \<noteq> js ''data''" unfolding True by code_simp
    ultimately have noskip: "\<not> skip_member img keys name i" using Cons.prems(6) by (simp add: skip_member_def)
    have c0: "0 \<le> c" using pos [OF c, of name] p \<open>i = item\<close> by simp
    have inv: "members_inv Q False out (keys + 1) (bytes + f + c)"
      using members_inv_step [OF Cons.prems(7) rest(3) noskip, of "budget - bytes - f" v c] Cons.prems(1) [OF _ c, of name] p \<open>i = item\<close> True
      by (simp add: assign_member_def f_def)
    have gap: "members_bytes out + 12 \<le> bytes + f + c"
      using Cons.prems(7) c0 True len by (simp add: members_inv_def counts_def f_def)
    have same: "assign_member name v out = out" by (simp add: assign_member_def True)
    have "\<not> bytes + f + c \<ge> budget" using res Cons.prems(9) noskip c \<open>i = item\<close> by auto
    then have "sanitize_members child img budget es out (keys + 1) (bytes + f + c) = (out', bytes')"
      using res noskip c \<open>i = item\<close> same by simp
    from sanitize_members_gap [OF child' rest(1,2) inv gap this] show ?thesis .
  next
    case False
    then have here: "(js ''__proto__'', item) \<in> set es" using Cons.prems(5) p by auto
    have few: "keys + length es \<le> max_retained_value_keys" "keys + 1 + length es \<le> max_retained_value_keys" using Cons.prems(6) by simp_all
    show ?thesis
    proof (cases "skip_member img keys name i \<or> child i (budget - bytes - f) = None")
      case True
      then have "sanitize_members child img budget es out keys bytes = (out', bytes')"
        using res by (auto split: if_splits)
      from Cons.IH [OF child' rest(1,2) Cons.prems(4) here few(1) Cons.prems(7) this Cons.prems(9)] show ?thesis .
    next
      case noskip: False
      then obtain v c where c: "child i (budget - bytes - f) = Some (v, c)" by auto
      have inv: "members_inv Q False (assign_member name v out) (keys + 1) (bytes + f + c)"
        using members_inv_step [OF Cons.prems(7) rest(3), of img i "budget - bytes - f" v c] Cons.prems(1) [OF _ c, of name] p noskip
        by (simp add: f_def)
      have "\<not> bytes + f + c \<ge> budget" using res Cons.prems(9) noskip c by auto
      then have res': "sanitize_members child img budget es (assign_member name v out) (keys + 1) (bytes + f + c) = (out', bytes')"
        using res noskip c by simp
      have "fst ` set (assign_member name v out) \<subseteq> insert name (fst ` set out)"
        by (auto simp: assign_member_def dest: jm_set_in_set)
      then have "fst ` set es \<inter> fst ` set (assign_member name v out) = {}" using rest(2,4) by auto
      from Cons.IH [OF child' rest(1) this Cons.prems(4) here few(2) inv res' Cons.prems(9)] show ?thesis .
    qed
  qed
qed simp

text \<open>
  C39: With a member named \<open>__proto__\<close> the remembered byte count is wrong. Take an object with at
  most 256 members, one of them named \<open>__proto__\<close> and holding something other than \<open>undefined\<close>, a
  number or a function, whose copy leaves at least 40 bytes of the budget unused. Assigning the
  name creates no member, but its bytes are counted: the count that is remembered, which the
  counter returns for the copy from then on, is at least 12 above the count of the copy's JSON.
\<close>

theorem remembered_bytes_with_proto_member:
  assumes "val_wf (JObj kvs)" "length kvs \<le> max_retained_value_keys" "(js ''__proto__'', item) \<in> set kvs" "keepable item"
    and "sanitizeRetainedNode (JObj kvs) maxBytes = Some (w, bytes)" "bytes + 40 \<le> max 2 maxBytes"
  shows "retainedJsonBytes w + 12 \<le> retainedJsonBytes_cached (Some bytes) w"
proof -
  let ?i = "get_prop (JObj kvs) ''type'' = JStr (js ''image'')"
  obtain left where depth: "max_retained_value_depth = Suc (Suc left)" by (simp add: max_retained_value_depth_def numeral_eq_Suc)
  obtain out b where ob: "sanitize_members (sanitizeNode (Suc left) ?i) ?i (max 2 maxBytes) (orderedEntries kvs) [] 0 2 = (out, b)"
    by (meson surj_pair)
  then have o: "sanitize_members (sanitizeNode (Suc left) ?i) ?i (max 2 maxBytes) (orderedEntries kvs) [] 0 2 = (out, bytes)" "w = JObj out"
    using assms(5) by (auto simp: sanitizeRetainedNode_def depth sanitizeNode.simps(2) [of "Suc left"] within_Some Let_def case_prod_beta simp del: sanitize_members.simps sanitizeNode.simps split: if_splits)
  have child: "sanitized_ok (retained_shape (Suc left)) False b r"
    if "(k, u) \<in> set (orderedEntries kvs)" "sanitizeNode (Suc left) ?i u b = Some r" for k u b r
    by (rule sanitizeNode_ok [OF _ _ that(2)]) (use assms(1) that(1) in \<open>auto simp: list_all_iff set_orderedEntries\<close>)
  have inv: "members_inv (retained_shape (Suc left)) False [] 0 2"
    by (simp add: members_inv_def counts_def members_bytes_def commas_def)
  have names: "distinct (map fst (orderedEntries kvs))" using assms(1) by (simp add: distinct_orderedEntries)
  have "length (orderedEntries kvs) = length kvs"
    by (rule mset_eq_length) (simp add: orderedEntries_def Let_def mset_own_entries)
  then have "members_bytes out + 12 \<le> bytes"
    using proto_counted [OF child names _ keepable_kept [OF assms(4)] _ _ inv o(1) assms(6)] assms(2,3) by (simp add: set_orderedEntries)
  moreover have "\<exists>keys. members_inv (retained_shape (Suc left)) False out keys bytes"
  proof (rule sanitize_members_ok [OF _ names _ _ inv o(1)])
    show "sanitized_ok (retained_shape (Suc left)) False b r"
      if "(k, u) \<in> set (orderedEntries kvs)" "sanitizeNode (Suc left) ?i u b = Some r" for k u b r
      using that by (rule child)
  qed simp_all
  then have "json_own out = out" by (intro json_own_id) (auto simp: members_inv_def list_all_iff)
  then have "retainedJsonBytes w = members_bytes out" unfolding retainedJsonBytes_eq by (simp add: o(2) json_bytes_JObj members_bytes_def)
  ultimately show ?thesis by (simp add: o(2))
qed

definition proto_value :: jsval where
  "proto_value = JObj [(js ''text'', JStr (js ''hello'')), (js ''__proto__'', JNull)]"

theorem remembered_bytes_with_proto_member_witness:
  "sanitizeRetainedNode proto_value 100 = Some (JObj [(js ''text'', JStr (js ''hello''))], 33) \<and>
   retainedJsonBytes (JObj [(js ''text'', JStr (js ''hello''))]) + 12 \<le>
     retainedJsonBytes_cached (Some 33) (JObj [(js ''text'', JStr (js ''hello''))])"
proof -
  have 1: "val_wf proto_value" by code_simp
  have 2: "sanitizeRetainedNode proto_value 100 = Some (JObj [(js ''text'', JStr (js ''hello''))], 33)" by code_simp
  show ?thesis
    using remembered_bytes_with_proto_member [OF 1 [unfolded proto_value_def] _ _ _ 2 [unfolded proto_value_def], of JNull] 2
    by (simp add: max_retained_value_keys_def)
qed

subsection \<open>Cutting a list of entries\<close>

lemma unique_by_id_ids: "set (jm_keys (unique_by_id es m)) = set (jm_keys m) \<union> e_id ` set es"
proof (induction es arbitrary: m)
  case (Cons e es)
  then show ?case by (auto simp: jm_keys_set jm_has_keys)
qed simp

lemma length_unique_by_id: "length (unique_by_id es []) = card (e_id ` set es)"
proof -
  have "jm_wf (unique_by_id es [])" using unique_by_id_keys [of "[]" es] by auto
  then have "length (unique_by_id es []) = card (set (jm_keys (unique_by_id es [])))" by (simp add: jm_wf_keys distinct_card)
  moreover have "set (jm_keys (unique_by_id es [])) = e_id ` set es" unfolding unique_by_id_ids by (simp add: jm_keys_def)
  ultimately show ?thesis by simp
qed

text \<open>
  C29: A list of entries is cut to its newest part only. What is retained of any list of entries is
  a suffix of it, its byte count is exact and within the budget, and no longer suffix would fit. A
  snapshot is marked truncated exactly when fewer entries are retained than it has distinct entry
  ids; after an append of an entry with a new id the list is marked truncated exactly when fewer
  are retained than there were before and the new one.
\<close>

theorem retain_sanitized_longest_suffix:
  "(let r = retainSanitizedEntries entries uniqueCount config in
    \<exists>omitted. entries = omitted @ re_entries r \<and> re_bytes r = list_bytes (re_entries r) \<and>
     re_bytes r \<le> max 2 (rc_maxBytes config) \<and>
     (omitted = [] \<or> rc_maxBytes config < list_bytes (last omitted # re_entries r)) \<and>
     (re_truncated r \<longleftrightarrow> length (re_entries r) < uniqueCount)) \<and>
   (re_truncated (retainDurableEntries snapshot options) \<longleftrightarrow>
     length (re_entries (retainDurableEntries snapshot options)) < card (e_id ` set snapshot)) \<and>
   (e_id entry \<notin> e_id ` set before \<longrightarrow>
     (re_truncated (appendRetainedDurableEntry before entry options) \<longleftrightarrow>
       length (re_entries (appendRetainedDurableEntry before entry options)) < length before + 1))"
proof (intro conjI impI)
  have flag: "re_truncated (retainSanitizedEntries es n c) \<longleftrightarrow> length (re_entries (retainSanitizedEntries es n c)) < n" for es n c
    using retainSanitizedEntries_ok [OF refl, of es n c] by metis
  let ?r = "retainSanitizedEntries entries uniqueCount config"
  obtain pre where p: "entries = pre @ re_entries ?r" "re_bytes ?r = list_bytes (re_entries ?r)"
    "re_bytes ?r \<le> max 2 (rc_maxBytes config)"
    "pre \<noteq> [] \<Longrightarrow> rc_maxBytes config < list_bytes (last pre # re_entries ?r)"
    using retainSanitizedEntries_ok [OF refl, of entries uniqueCount config] by metis
  then show "let r = retainSanitizedEntries entries uniqueCount config in
    \<exists>omitted. entries = omitted @ re_entries r \<and> re_bytes r = list_bytes (re_entries r) \<and>
     re_bytes r \<le> max 2 (rc_maxBytes config) \<and>
     (omitted = [] \<or> rc_maxBytes config < list_bytes (last omitted # re_entries r)) \<and>
     (re_truncated r \<longleftrightarrow> length (re_entries r) < uniqueCount)"
    unfolding Let_def using flag by (intro exI [of _ pre]) blast
  show "re_truncated (retainDurableEntries snapshot options) \<longleftrightarrow>
     length (re_entries (retainDurableEntries snapshot options)) < card (e_id ` set snapshot)"
    unfolding retainDurableEntries_def Let_def flag length_unique_by_id ..
  assume "e_id entry \<notin> e_id ` set before"
  then have "\<not> list_ex (\<lambda>existing. e_id existing = e_id entry) before" unfolding list_ex_iff by (metis image_eqI)
  then show "re_truncated (appendRetainedDurableEntry before entry options) \<longleftrightarrow>
       length (re_entries (appendRetainedDurableEntry before entry options)) < length before + 1"
    by (simp only: appendRetainedDurableEntry_def if_False Let_def flag)
qed

text \<open>
  C26: A retained transcript stays within its caps. Installing a snapshot gives a list with
  distinct entry identifiers, every entry sanitized, at most the entry cap and the byte cap, and
  every later append keeps this and reports the exact byte count; an entry whose identifier is
  already there changes nothing.
\<close>

theorem retained_transcript_invariant:
  assumes "list_all entry_wf snapshot" and "list_all entry_wf later"
  shows "let start = re_entries (retainDurableEntries snapshot options);
             final = fold (\<lambda>e es. re_entries (appendRetainedDurableEntry es e options)) later start
    in retained_list options start \<and> retained_list options final"
proof -
  have start: "retained_list options (re_entries (retainDurableEntries snapshot options))"
    by (rule retainDurableEntries_ok(1) [OF assms(1)])
  have "retained_list options (fold (\<lambda>e es. re_entries (appendRetainedDurableEntry es e options)) later es)"
    if "retained_list options es" for es
    using assms(2) that
    by (induction later arbitrary: es) (simp_all add: appendRetainedDurableEntry_ok(1))
  with start show ?thesis by (simp add: Let_def)
qed

definition sample_entry :: "string \<Rightarrow> durable_entry" where
  "sample_entry i = \<lparr>e_id = js i, e_parentId = None, e_hostId = js ''h'', e_sessionId = js ''s'',
     e_turnId = None, e_kind = js ''message'', e_timestamp = js ''t'', e_data = JObj [(js ''text'', JStr (js ''hi''))]\<rparr>"

theorem retained_transcript_invariant_witness:
  "let options = default_retain_options\<lparr>ro_maxEntries := Some 2\<rparr>;
       start = re_entries (retainDurableEntries [sample_entry ''a'', sample_entry ''b''] options);
       final = fold (\<lambda>e es. re_entries (appendRetainedDurableEntry es e options)) [sample_entry ''c''] start
   in retained_list options start \<and> retained_list options final"
  unfolding Let_def [of "default_retain_options\<lparr>ro_maxEntries := Some 2\<rparr>"]
  by (rule retained_transcript_invariant) (simp_all add: entry_wf_def sample_entry_def)

text \<open>
  Appending to the event history keeps the newest values: the result is a suffix of the old
  history with the new value, of at most the allowed number of values and bytes, with its exact
  byte count maintained by subtraction, and one value more would exceed a cap.
\<close>

theorem append_retained_value_suffix:
  assumes "valuesBytes = arr_bytes item values"
  shows "let n = boundedInteger (Some maxItems) max_retained_session_events max_retained_session_events;
             budget = boundedInteger (Some maxBytes) max_retained_session_events_bytes max_retained_session_events_bytes;
             (out, bytes) = appendRetainedValue item values valuesBytes v maxItems maxBytes
    in bytes = arr_bytes item out \<and> bytes \<le> max 2 budget \<and> int (length out) \<le> n \<and>
       (\<exists>omitted. values @ [v] = omitted @ out \<and>
         (omitted = [] \<or> n < int (Suc (length out)) \<or> budget < arr_bytes item (last omitted # out)))"
proof -
  let ?n = "boundedInteger (Some maxItems) max_retained_session_events max_retained_session_events"
  let ?b = "boundedInteger (Some maxBytes) max_retained_session_events_bytes max_retained_session_events_bytes"
  obtain k where eq: "appendRetainedValue item values valuesBytes v maxItems maxBytes =
      (drop k (values @ [v]), arr_bytes item (drop k (values @ [v])))"
    and k: "k \<le> length values + 1" "int (length values + 1 - k) \<le> ?n"
      "arr_bytes item (drop k (values @ [v])) \<le> max 2 ?b"
    and m: "0 < k \<Longrightarrow> ?n < int (length values + 2 - k) \<or> ?b < arr_bytes item (drop (k - 1) (values @ [v]))"
    using appendRetainedValue_ok [OF assms, of v maxItems maxBytes] by metis
  let ?o = "take k (values @ [v])"
  have "?o = [] \<or> ?n < int (Suc (length (drop k (values @ [v])))) \<or>
      ?b < arr_bytes item (last ?o # drop k (values @ [v]))"
  proof (cases "k = 0")
    case False
    then have "drop (k - 1) (values @ [v]) = last ?o # drop k (values @ [v])"
      using k(1) by (intro drop_pred_last) simp_all
    then show ?thesis using m False k(1) by (auto simp: Suc_diff_le)
  qed simp
  then show ?thesis unfolding Let_def eq prod.case
  proof (intro conjI exI [of _ ?o])
    show "arr_bytes item (drop k (values @ [v])) \<le> max 2 ?b" by (rule k(3))
    show "int (length (drop k (values @ [v]))) \<le> ?n" using k(2) by simp
    show "values @ [v] = ?o @ drop k (values @ [v])" by (rule append_take_drop_id [symmetric])
  qed (rule refl)
qed

theorem append_retained_value_suffix_witness:
  "let n = boundedInteger (Some 2) max_retained_session_events max_retained_session_events;
       budget = boundedInteger (Some 100) max_retained_session_events_bytes max_retained_session_events_bytes;
       (out, bytes) = appendRetainedValue retainedArrayItemBytes [JNull, JBool True] 11 (JBool False) 2 100
   in bytes = arr_bytes retainedArrayItemBytes out \<and> bytes \<le> max 2 budget \<and> int (length out) \<le> n \<and>
      (\<exists>omitted. [JNull, JBool True] @ [JBool False] = omitted @ out \<and>
        (omitted = [] \<or> n < int (Suc (length out)) \<or> budget < arr_bytes retainedArrayItemBytes (last omitted # out)))"
  by (rule append_retained_value_suffix) code_simp

theorem retain_sanitized_longest_suffix_witness:
  "sample_entry ''c'' \<noteq> sample_entry ''a'' \<and>
   (re_truncated (appendRetainedDurableEntry [sample_entry ''a''] (sample_entry ''c'') default_retain_options) \<longleftrightarrow>
     length (re_entries (appendRetainedDurableEntry [sample_entry ''a''] (sample_entry ''c'') default_retain_options)) < length [sample_entry ''a''] + 1)"
proof -
  have "e_id (sample_entry ''c'') \<notin> e_id ` set [sample_entry ''a'']" by (simp add: sample_entry_def js_def)
  then show ?thesis
    using retain_sanitized_longest_suffix [of "[]" 0 undefined "[]" default_retain_options "sample_entry ''c''" "[sample_entry ''a'']"] by auto
qed

end
