(* ===== verification/WireGuards.thy ===== *)
theory WireGuards
  imports Wire
begin

text \<open>
  The guards every decoder of host-wire is built from (host-wire/src/guards.ts, cursor.ts,
  ids.ts and the workspace part of cluster.ts): bounded strings, sequence numbers, arrays and
  maps, the walk that bounds a whole JSON value, cursors, and the projection of a workspace. A
  failing guard throws \<open>AppWireError\<close>; the model returns its code. Values are the objects that
  \<open>JSON.parse\<close> gives, so every object is plain and no value is cyclic.
\<close>

datatype wire_error =
    INVALID_JSON
  | INVALID_FRAME
  | OVERSIZED_INPUT
  | UNSAFE_SEQUENCE
  | MISSING_VERSION
  | UNKNOWN_FRAME
  | BOUNDS
  | UNSAFE_PATH
  | UNSUPPORTED_PROTOCOL
  | IDEMPOTENCY_CONFLICT
  | STALE_REVISION
  | OUTCOME_UNKNOWN
  | CONFIRMATION_INVALID
  | PAIRING_INVALID

type_synonym 'a decoded = "wire_error + 'a"

text \<open>Sequencing of steps that may throw.\<close>

definition bind_ok :: "'a decoded \<Rightarrow> ('a \<Rightarrow> 'b decoded) \<Rightarrow> 'b decoded" where
  "bind_ok r f = (case r of Inl e \<Rightarrow> Inl e | Inr a \<Rightarrow> f a)"

definition ensure :: "bool \<Rightarrow> wire_error \<Rightarrow> 'a decoded \<Rightarrow> 'a decoded" where
  "ensure b e r = (if b then r else Inl e)"

lemma bind_ok_Inr: "bind_ok r f = Inr b \<longleftrightarrow> (\<exists>a. r = Inr a \<and> f a = Inr b)"
  by (simp add: bind_ok_def split: sum.split)

lemma ensure_Inr: "ensure b e r = Inr a \<longleftrightarrow> b \<and> r = Inr a"
  by (simp add: ensure_def)

lemma if_Inr:
  "((if b then Inr a else Inl e) = Inr s) \<longleftrightarrow> b \<and> a = s"
  "((if b then Inl e else Inr a) = Inr s) \<longleftrightarrow> \<not> b \<and> a = s"
  by simp_all

lemmas decode_simps = bind_ok_Inr ensure_Inr

subsection \<open>Limits\<close>

definition max_input_bytes :: nat where "max_input_bytes = 1048576"
definition max_string_bytes :: nat where "max_string_bytes = 65536"
definition max_id_bytes :: nat where "max_id_bytes = 256"
definition max_array_items :: nat where "max_array_items = 1000"
definition max_map_keys :: nat where "max_map_keys = 512"
definition max_json_depth :: nat where "max_json_depth = 32"
definition max_json_nodes :: nat where "max_json_nodes = 20000"
definition max_epoch_bytes :: nat where "max_epoch_bytes = 128"

subsection \<open>Strings\<close>

text \<open>
  The byte counter. At the end of the text \<open>charCodeAt\<close> gives \<open>NaN\<close> and both comparisons are
  false, so a high surrogate that is the last code unit is counted like a pair.
\<close>

fun utf8ByteLength :: "jsstr \<Rightarrow> nat decoded" where
  "utf8ByteLength [] = Inr 0"
| "utf8ByteLength (c # cs) =
     (let code = unat c in
      if code \<le> 0x7F then bind_ok (utf8ByteLength cs) (\<lambda>n. Inr (n + 1))
      else if code \<le> 0x7FF then bind_ok (utf8ByteLength cs) (\<lambda>n. Inr (n + 2))
      else if code \<ge> 0xD800 \<and> code \<le> 0xDBFF then
        (case cs of
           [] \<Rightarrow> Inr 4
         | d # ds \<Rightarrow>
             if unat d < 0xDC00 \<or> unat d > 0xDFFF then Inl INVALID_JSON
             else bind_ok (utf8ByteLength ds) (\<lambda>n. Inr (n + 4)))
      else if code \<ge> 0xDC00 \<and> code \<le> 0xDFFF then Inl INVALID_JSON
      else bind_ok (utf8ByteLength cs) (\<lambda>n. Inr (n + 3)))"

definition string_guard :: "jsval \<Rightarrow> nat \<Rightarrow> jsstr decoded" where
  "string_guard v maxBytes =
     (case v of
        JStr s \<Rightarrow>
          if s = [] then Inl BOUNDS
          else bind_ok (utf8ByteLength s) (\<lambda>n. if n > maxBytes then Inl BOUNDS else Inr s)
      | _ \<Rightarrow> Inl BOUNDS)"

definition boundedText :: "jsval \<Rightarrow> nat \<Rightarrow> jsstr decoded" where
  "boundedText v maxBytes =
     (case v of
        JStr s \<Rightarrow> bind_ok (utf8ByteLength s) (\<lambda>n. if n > maxBytes then Inl BOUNDS else Inr s)
      | _ \<Rightarrow> Inl BOUNDS)"

text \<open>A control character is below 0x20 or 0x7F; as code points these are single code units.\<close>

definition is_control :: "jschar \<Rightarrow> bool" where
  "is_control c \<longleftrightarrow> unat c \<le> 0x1F \<or> unat c = 0x7F"

definition controlFree :: "jsval \<Rightarrow> nat \<Rightarrow> jsstr decoded" where
  "controlFree v maxBytes =
     bind_ok (string_guard v maxBytes) (\<lambda>s. if list_ex is_control s then Inl BOUNDS else Inr s)"

definition bool_guard :: "jsval \<Rightarrow> bool decoded" where
  "bool_guard v = (case v of JBool b \<Rightarrow> Inr b | _ \<Rightarrow> Inl INVALID_FRAME)"

definition safeSeq :: "jsval \<Rightarrow> int decoded" where
  "safeSeq v =
     (case v of
        JNum (JInt n) \<Rightarrow> if is_safe_integer n \<and> n \<ge> 0 then Inr n else Inl UNSAFE_SEQUENCE
      | JNum JNegZero \<Rightarrow> Inr 0
      | _ \<Rightarrow> Inl UNSAFE_SEQUENCE)"

definition finiteNumber :: "jsval \<Rightarrow> jsnum decoded" where
  "finiteNumber v = (case v of JNum n \<Rightarrow> if is_finite n then Inr n else Inl INVALID_FRAME | _ \<Rightarrow> Inl INVALID_FRAME)"

definition boundedArray :: "jsval \<Rightarrow> nat \<Rightarrow> jsval list decoded" where
  "boundedArray v maxItems =
     (case v of JArr xs \<Rightarrow> if length xs > maxItems then Inl BOUNDS else Inr xs | _ \<Rightarrow> Inl BOUNDS)"

definition object_guard :: "jsval \<Rightarrow> jsval decoded" where
  "object_guard v = (case v of JObj kvs \<Rightarrow> Inr v | _ \<Rightarrow> Inl INVALID_FRAME)"

definition boundedMap :: "jsval \<Rightarrow> nat \<Rightarrow> jsval decoded" where
  "boundedMap v maxKeys =
     (case v of
        JObj kvs \<Rightarrow> if length kvs > maxKeys then Inl BOUNDS else Inr v
      | _ \<Rightarrow> Inl INVALID_FRAME)"

subsection \<open>Whole values\<close>

definition addApprox :: "nat \<Rightarrow> nat \<Rightarrow> nat \<Rightarrow> nat decoded" where
  "addApprox bytes amount maxBytes = (if bytes + amount > maxBytes then Inl OVERSIZED_INPUT else Inr (bytes + amount))"

text \<open>The keys of one object, counted one after the other.\<close>

fun addKeys :: "nat \<Rightarrow> nat \<Rightarrow> jsstr list \<Rightarrow> nat decoded" where
  "addKeys maxBytes approx [] = Inr approx"
| "addKeys maxBytes approx (k # ks) =
     bind_ok (utf8ByteLength k) (\<lambda>n. bind_ok (addApprox approx n maxBytes) (\<lambda>a. addKeys maxBytes a ks))"

text \<open>
  The walk with its explicit stack: items of an array are pushed from the last to the first,
  members of an object from the first to the last, so the top of the stack is the first item or
  the last member.
\<close>

function validate_loop :: "nat \<Rightarrow> (jsval \<times> nat) list \<Rightarrow> nat \<Rightarrow> nat \<Rightarrow> unit decoded" where
  "validate_loop maxBytes [] nodes approx = Inr ()"
| "validate_loop maxBytes ((v, depth) # stack) nodes approx =
     (if nodes + 1 > max_json_nodes then Inl BOUNDS
      else (case v of
        JStr s \<Rightarrow>
          bind_ok (utf8ByteLength s) (\<lambda>n. bind_ok (addApprox approx n maxBytes)
            (\<lambda>a. validate_loop maxBytes stack (nodes + 1) a))
      | JNull \<Rightarrow> bind_ok (addApprox approx 8 maxBytes) (\<lambda>a. validate_loop maxBytes stack (nodes + 1) a)
      | JBool b \<Rightarrow> bind_ok (addApprox approx 8 maxBytes) (\<lambda>a. validate_loop maxBytes stack (nodes + 1) a)
      | JNum n \<Rightarrow>
          if \<not> is_finite n then Inl INVALID_JSON
          else bind_ok (addApprox approx 8 maxBytes) (\<lambda>a. validate_loop maxBytes stack (nodes + 1) a)
      | JUndef \<Rightarrow> Inl INVALID_JSON
      | JFun \<Rightarrow> Inl INVALID_JSON
      | JArr xs \<Rightarrow>
          if depth \<ge> max_json_depth then Inl BOUNDS
          else if length xs > max_array_items then Inl BOUNDS
          else validate_loop maxBytes (map (\<lambda>x. (x, depth + 1)) xs @ stack) (nodes + 1) approx
      | JObj kvs \<Rightarrow>
          if depth \<ge> max_json_depth then Inl BOUNDS
          else if length kvs > max_map_keys then Inl BOUNDS
          else bind_ok (addKeys maxBytes approx (map fst (own_entries kvs))) (\<lambda>a.
            validate_loop maxBytes (map (\<lambda>(k, x). (x, depth + 1)) (rev (own_entries kvs)) @ stack) (nodes + 1) a)))"
  by pat_completeness auto

text \<open>Every step takes a node off the stack and pushes only its parts.\<close>

definition stack_weight :: "(jsval \<times> nat) list \<Rightarrow> nat" where
  "stack_weight st = sum_list (map (\<lambda>p. Suc (size (fst p))) st)"

lemma stack_weight_simps [simp]:
  "stack_weight [] = 0"
  "stack_weight (p # st) = Suc (size (fst p)) + stack_weight st"
  "stack_weight (st @ st') = stack_weight st + stack_weight st'"
  by (simp_all add: stack_weight_def)

lemma stack_weight_items: "stack_weight (map (\<lambda>x. (x, d)) xs) \<le> size_list size xs"
  by (induction xs) simp_all

lemma stack_weight_members:
  "stack_weight (map (\<lambda>(k, x). (x, d)) (rev (own_entries kvs))) \<le> size_list (size_prod (\<lambda>x. 0) size) kvs"
proof -
  have rev: "stack_weight (map (\<lambda>(k, x). (x, d)) (rev es)) = sum_list (map (\<lambda>p. Suc (size (snd p))) es)"
    for es :: "(jsstr \<times> jsval) list"
    by (induction es) (auto simp: case_prod_beta)
  have "sum_list (map (\<lambda>p. Suc (size (snd p))) (own_entries kvs)) = sum_list (map (\<lambda>p. Suc (size (snd p))) kvs)"
    by (rule sum_list_mset_cong) (rule mset_own_entries)
  moreover have "sum_list (map (\<lambda>p. Suc (size (snd p))) kvs) \<le> size_list (size_prod (\<lambda>x. 0) size) kvs"
    by (induction kvs) auto
  ultimately show ?thesis by (simp only: rev)
qed

termination validate_loop
proof (relation "measure (\<lambda>(maxBytes, st, nodes, approx). stack_weight st)", goal_cases)
  case (6 maxBytes v depth stack nodes approx xs)
  then show ?case using stack_weight_items [of "depth + 1" xs] by simp
next
  case (7 maxBytes v depth stack nodes approx kvs a)
  then show ?case using stack_weight_members [of "depth + 1" kvs] by simp
qed simp_all

definition validateJson :: "jsval \<Rightarrow> unit decoded" where
  "validateJson root = validate_loop max_input_bytes [(root, 0)] 0 0"

text \<open>\<open>inputObject\<close> on a value that is already parsed.\<close>

definition inputObject :: "jsval \<Rightarrow> jsval decoded" where
  "inputObject v = bind_ok (validateJson v) (\<lambda>_. object_guard v)"

subsection \<open>Cursors and identifiers\<close>

definition decodeCursor :: "jsval \<Rightarrow> cursor decoded" where
  "decodeCursor v =
     bind_ok (inputObject v) (\<lambda>c.
     bind_ok (controlFree (get_prop c ''epoch'') max_epoch_bytes) (\<lambda>e.
     bind_ok (safeSeq (get_prop c ''seq'')) (\<lambda>n. Inr \<lparr>epoch = e, seq = n\<rparr>)))"

definition isCursor :: "jsval \<Rightarrow> bool" where
  "isCursor v = (case decodeCursor v of Inl e \<Rightarrow> False | Inr c \<Rightarrow> True)"

definition id_guard :: "jsval \<Rightarrow> jsstr decoded" where
  "id_guard v = controlFree v max_id_bytes"

subsection \<open>Workspaces\<close>

record cluster_condition =
  cc_type :: jsstr
  cc_status :: jsstr
  cc_reason :: jsstr
  cc_message :: jsstr
  cc_observedGeneration :: int

record workspace =
  ws_id :: jsstr
  ws_displayName :: jsstr
  ws_phase :: jsstr
  ws_retentionPolicy :: jsstr
  ws_storageClass :: "jsstr option"
  ws_capacity :: "jsstr option"
  ws_revision :: jsstr
  ws_condition :: "cluster_condition option"

definition is_lower :: "jschar \<Rightarrow> bool" where "is_lower c \<longleftrightarrow> 97 \<le> c \<and> c \<le> 122"
definition is_upper :: "jschar \<Rightarrow> bool" where "is_upper c \<longleftrightarrow> 65 \<le> c \<and> c \<le> 90"
definition is_digit :: "jschar \<Rightarrow> bool" where "is_digit c \<longleftrightarrow> 48 \<le> c \<and> c \<le> 57"
definition one_of_chars :: "string \<Rightarrow> jschar \<Rightarrow> bool" where "one_of_chars cs c \<longleftrightarrow> c \<in> set (js cs)"

definition exact_keys :: "jsval \<Rightarrow> string list \<Rightarrow> jsval decoded" where
  "exact_keys v names =
     bind_ok (boundedMap v max_map_keys) (\<lambda>r.
       case r of
         JObj kvs \<Rightarrow> if list_all (\<lambda>p. fst p \<in> set (map js names)) kvs then Inr r else Inl INVALID_FRAME
       | _ \<Rightarrow> Inr r)"

definition oneOf :: "jsval \<Rightarrow> string list \<Rightarrow> jsstr decoded" where
  "oneOf v values =
     (case v of JStr s \<Rightarrow> if s \<in> set (map js values) then Inr s else Inl INVALID_FRAME | _ \<Rightarrow> Inl INVALID_FRAME)"

definition identifier_guard :: "jsval \<Rightarrow> nat \<Rightarrow> jsstr decoded" where
  "identifier_guard v maxBytes =
     bind_ok (controlFree v maxBytes) (\<lambda>s.
       if s \<noteq> [] \<and> (is_lower (hd s) \<or> is_upper (hd s) \<or> is_digit (hd s)) \<and> length s \<le> 256 \<and>
          list_all (\<lambda>c. is_lower c \<or> is_upper c \<or> is_digit c \<or> one_of_chars ''._:-'' c) (tl s)
       then Inr s else Inl INVALID_FRAME)"

definition kubernetesName :: "jsval \<Rightarrow> nat \<Rightarrow> jsstr decoded" where
  "kubernetesName v maxBytes =
     bind_ok (controlFree v maxBytes) (\<lambda>s.
       if s \<noteq> [] \<and> (is_lower (hd s) \<or> is_digit (hd s)) \<and> (is_lower (last s) \<or> is_digit (last s)) \<and>
          list_all (\<lambda>c. is_lower c \<or> is_digit c \<or> one_of_chars ''-.'' c) s
       then Inr s else Inl INVALID_FRAME)"

definition nonEmptyText :: "jsval \<Rightarrow> nat \<Rightarrow> jsstr decoded" where
  "nonEmptyText v maxBytes =
     bind_ok (controlFree v maxBytes) (\<lambda>s. if length s = 0 then Inl INVALID_FRAME else Inr s)"

definition quantity_guard :: "jsval \<Rightarrow> jsstr decoded" where
  "quantity_guard v =
     bind_ok (nonEmptyText v 32) (\<lambda>s.
       if is_digit (hd s) \<and> hd s \<noteq> 48 \<and>
          (dropWhile is_digit s = [] \<or>
           dropWhile is_digit s \<in> set (map js [''Ei'', ''Pi'', ''Ti'', ''Gi'', ''Mi'', ''Ki'', ''E'', ''P'', ''T'', ''G'', ''M'', ''K'']))
       then Inr s else Inl INVALID_FRAME)"

definition decodeClusterCondition :: "jsval \<Rightarrow> cluster_condition decoded" where
  "decodeClusterCondition v =
     bind_ok (exact_keys v [''type'', ''status'', ''reason'', ''message'', ''observedGeneration'']) (\<lambda>i.
     bind_ok (identifier_guard (get_prop i ''type'') 128) (\<lambda>t.
     bind_ok (oneOf (get_prop i ''status'') [''True'', ''False'', ''Unknown'']) (\<lambda>st.
     bind_ok (identifier_guard (get_prop i ''reason'') 128) (\<lambda>r.
     bind_ok (controlFree (get_prop i ''message'') 2048) (\<lambda>m.
     bind_ok (safeSeq (get_prop i ''observedGeneration'')) (\<lambda>g.
     Inr \<lparr>cc_type = t, cc_status = st, cc_reason = r, cc_message = m, cc_observedGeneration = g\<rparr>))))))"

text \<open>An optional member: absent when the property is \<open>undefined\<close>.\<close>

definition optional_member :: "jsval \<Rightarrow> (jsval \<Rightarrow> 'a decoded) \<Rightarrow> 'a option decoded" where
  "optional_member v f = (if v = JUndef then Inr None else bind_ok (f v) (\<lambda>a. Inr (Some a)))"

definition decodeWorkspaceInfrastructureProjection :: "jsval \<Rightarrow> workspace decoded" where
  "decodeWorkspaceInfrastructureProjection v =
     bind_ok (exact_keys v [''id'', ''displayName'', ''phase'', ''retentionPolicy'', ''storageClass'',
                            ''capacity'', ''accessMode'', ''revision'', ''condition'']) (\<lambda>i.
     bind_ok (id_guard (get_prop i ''revision'')) (\<lambda>rev.
     ensure (get_prop i ''accessMode'' = JStr (js ''ReadWriteMany'')) INVALID_FRAME (
     bind_ok (kubernetesName (get_prop i ''id'') 253) (\<lambda>wid.
     bind_ok (nonEmptyText (get_prop i ''displayName'') 128) (\<lambda>name.
     bind_ok (oneOf (get_prop i ''phase'') [''Pending'', ''Ready'', ''Failed'', ''Terminating'', ''Unknown'']) (\<lambda>ph.
     bind_ok (oneOf (get_prop i ''retentionPolicy'') [''Retain'', ''Delete'']) (\<lambda>pol.
     bind_ok (optional_member (get_prop i ''storageClass'') (\<lambda>x. kubernetesName x 63)) (\<lambda>sc.
     bind_ok (optional_member (get_prop i ''capacity'') quantity_guard) (\<lambda>cap.
     bind_ok (optional_member (get_prop i ''condition'') decodeClusterCondition) (\<lambda>cond.
     Inr \<lparr>ws_id = wid, ws_displayName = name, ws_phase = ph, ws_retentionPolicy = pol,
          ws_storageClass = sc, ws_capacity = cap, ws_revision = rev, ws_condition = cond\<rparr>))))))))))"

subsection \<open>What the guards promise\<close>

text \<open>Well-formed UTF-16: every surrogate is part of a pair.\<close>

fun paired :: "jsstr \<Rightarrow> bool" where
  "paired [] \<longleftrightarrow> True"
| "paired [c] \<longleftrightarrow> \<not> is_high c \<and> \<not> is_low c"
| "paired (c # d # s) \<longleftrightarrow>
     (if is_high c then is_low d \<and> paired s else \<not> is_low c \<and> paired (d # s))"

declare utf8ByteLength.simps(2) [simp del]

lemma utf8ByteLength_pair:
  "is_high c \<Longrightarrow> is_low d \<Longrightarrow> utf8ByteLength (c # d # s) = bind_ok (utf8ByteLength s) (\<lambda>n. Inr (n + 4))"
  "is_high c \<Longrightarrow> \<not> is_low d \<Longrightarrow> utf8ByteLength (c # d # s) = Inl INVALID_JSON"
  "is_high c \<Longrightarrow> utf8ByteLength [c] = Inr 4"
  "is_low c \<Longrightarrow> utf8ByteLength (c # s) = Inl INVALID_JSON"
  by (auto simp: utf8ByteLength.simps(2) [of c] is_high_def is_low_def)

lemma utf8ByteLength_plain:
  assumes "\<not> is_high c" "\<not> is_low c"
  shows "utf8ByteLength (c # s) = bind_ok (utf8ByteLength s) (\<lambda>n. Inr (n + length (utf8_one (unat c))))"
proof -
  have c: "\<not> (0xD800 \<le> unat c \<and> unat c \<le> 0xDBFF)" "\<not> (0xDC00 \<le> unat c \<and> unat c \<le> 0xDFFF)" "unat c < 0x10000"
    using assms unat_lt [of c] by (simp_all add: is_high_def is_low_def)
  consider "unat c \<le> 0x7F" "length (utf8_one (unat c)) = 1"
    | "\<not> unat c \<le> 0x7F" "unat c \<le> 0x7FF" "length (utf8_one (unat c)) = 2"
    | "\<not> unat c \<le> 0x7F" "\<not> unat c \<le> 0x7FF" "length (utf8_one (unat c)) = 3"
    using c(3) by (auto simp: utf8_one_def)
  then show ?thesis by cases (use c in \<open>simp_all only: utf8ByteLength.simps(2) [of c] Let_def if_True if_False\<close>)
qed

lemma utf8ByteLength_paired: "paired s \<Longrightarrow> utf8ByteLength s = Inr (utf8_len s)"
proof (induction s rule: paired.induct)
  case (2 c)
  then show ?case by (simp add: utf8ByteLength_plain bind_ok_def utf8_len_plain)
next
  case (3 c d s)
  show ?case
  proof (cases "is_high c")
    case True
    then show ?thesis using 3 by (simp add: utf8ByteLength_pair bind_ok_def utf8_len_def utf8_encode_def
          utf8_points_def utf8_one_def)
  next
    case False
    then show ?thesis using 3 by (simp add: utf8ByteLength_plain bind_ok_def utf8_len_plain)
  qed
qed simp

lemma utf8ByteLength_Inr:
  "utf8ByteLength s = Inr n \<Longrightarrow> paired s \<or> (\<exists>t c. s = t @ [c] \<and> paired t \<and> is_high c)"
proof (induction s arbitrary: n rule: paired.induct)
  case (2 c)
  then show ?case by (cases "is_high c"; cases "is_low c") (auto simp: utf8ByteLength_pair)
next
  case (3 c d s)
  consider (pair) "is_high c" "is_low d" | (bad) "is_high c" "\<not> is_low d" | (low) "\<not> is_high c" "is_low c"
    | (plain) "\<not> is_high c" "\<not> is_low c" by blast
  then show ?case
  proof cases
    case pair
    then obtain m where "utf8ByteLength s = Inr m" using 3 by (auto simp: utf8ByteLength_pair decode_simps)
    from 3(1) [OF pair(1) this] show ?thesis
    proof
      assume "\<exists>t c'. s = t @ [c'] \<and> paired t \<and> is_high c'"
      then obtain t c' where "s = t @ [c']" "paired t" "is_high c'" by (elim exE conjE)
      then show ?thesis using pair by (intro disjI2 exI [of _ "c # d # t"] exI [of _ c']) simp
    qed (use pair in simp)
  next
    case plain
    then obtain m where "utf8ByteLength (d # s) = Inr m" using 3 by (auto simp: utf8ByteLength_plain decode_simps)
    from 3(2) [OF plain(1) this] show ?thesis
    proof
      assume "\<exists>t c'. d # s = t @ [c'] \<and> paired t \<and> is_high c'"
      then obtain t c' where t: "d # s = t @ [c']" "paired t" "is_high c'" by (elim exE conjE)
      then have "paired (c # t)" using plain by (cases t) simp_all
      then show ?thesis using t by (intro disjI2 exI [of _ "c # t"] exI [of _ c']) simp
    qed (use plain in simp)
  qed (use 3 in \<open>simp_all add: utf8ByteLength_pair\<close>)
qed simp

lemma string_guard_Inr:
  "string_guard v m = Inr s \<longleftrightarrow> v = JStr s \<and> s \<noteq> [] \<and> (\<exists>n. utf8ByteLength s = Inr n \<and> n \<le> m)"
proof (cases v)
  case (JStr t)
  show ?thesis
  proof (cases "t = []")
    case False
    then show ?thesis
      unfolding string_guard_def JStr jsval.case jsval.inject bind_ok_Inr if_not_P [OF False] if_Inr not_less
      by metis
  qed (auto simp: string_guard_def JStr)
qed (simp_all add: string_guard_def)

lemma controlFree_Inr:
  "controlFree v m = Inr s \<longleftrightarrow>
   v = JStr s \<and> s \<noteq> [] \<and> (\<exists>n. utf8ByteLength s = Inr n \<and> n \<le> m) \<and> list_all (\<lambda>c. \<not> is_control c) s"
  unfolding controlFree_def bind_ok_Inr if_Inr string_guard_Inr list_ex_iff list_all_iff by metis

lemma safeSeq_Inr:
  "safeSeq v = Inr n \<Longrightarrow> 0 \<le> n \<and> is_safe_integer n"
  by (auto simp: safeSeq_def is_safe_integer_def max_safe_integer_def split: jsval.splits jsnum.splits if_splits)

text \<open>A guard on strings returns the string it was given, and accepts it again.\<close>

lemma identifier_guard_Inr: "identifier_guard v m = Inr s \<Longrightarrow> v = JStr s"
  unfolding identifier_guard_def bind_ok_Inr if_Inr controlFree_Inr by metis

lemma kubernetesName_Inr: "kubernetesName v m = Inr s \<Longrightarrow> v = JStr s"
  unfolding kubernetesName_def bind_ok_Inr if_Inr controlFree_Inr by metis

lemma nonEmptyText_Inr: "nonEmptyText v m = Inr s \<Longrightarrow> v = JStr s"
  unfolding nonEmptyText_def bind_ok_Inr if_Inr controlFree_Inr by metis

lemma quantity_guard_Inr: "quantity_guard v = Inr s \<Longrightarrow> v = JStr s"
  unfolding quantity_guard_def bind_ok_Inr if_Inr by (elim exE conjE) (metis nonEmptyText_Inr)

lemma oneOf_Inr: "oneOf v vs = Inr s \<Longrightarrow> v = JStr s"
  by (cases v) (auto simp: oneOf_def split: if_splits)

lemma id_guard_Inr: "id_guard v = Inr s \<Longrightarrow> v = JStr s"
  by (simp add: id_guard_def controlFree_Inr)

lemma controlFree_JStr: "controlFree v m = Inr s \<Longrightarrow> v = JStr s"
  by (simp add: controlFree_Inr)

lemmas guard_strings = identifier_guard_Inr kubernetesName_Inr nonEmptyText_Inr quantity_guard_Inr
  oneOf_Inr id_guard_Inr controlFree_JStr

text \<open>The members a workspace row is written with.\<close>

definition member :: "string \<Rightarrow> jsstr option \<Rightarrow> (jsstr \<times> jsval) list" where
  "member name s = (case s of None \<Rightarrow> [] | Some t \<Rightarrow> [(js name, JStr t)])"

definition condition_val :: "cluster_condition \<Rightarrow> jsval" where
  "condition_val c = JObj [(js ''type'', JStr (cc_type c)), (js ''status'', JStr (cc_status c)),
     (js ''reason'', JStr (cc_reason c)), (js ''message'', JStr (cc_message c)),
     (js ''observedGeneration'', JNum (JInt (cc_observedGeneration c)))]"

definition workspace_val :: "workspace \<Rightarrow> jsval" where
  "workspace_val w = JObj ([(js ''id'', JStr (ws_id w)), (js ''displayName'', JStr (ws_displayName w)),
     (js ''phase'', JStr (ws_phase w)), (js ''retentionPolicy'', JStr (ws_retentionPolicy w))]
     @ member ''storageClass'' (ws_storageClass w) @ member ''capacity'' (ws_capacity w)
     @ [(js ''accessMode'', JStr (js ''ReadWriteMany'')), (js ''revision'', JStr (ws_revision w))]
     @ (case ws_condition w of None \<Rightarrow> [] | Some c \<Rightarrow> [(js ''condition'', condition_val c)]))"

lemma get_prop_JObj: "get_prop (JObj kvs) k = (case jm_get kvs (js k) of Some w \<Rightarrow> w | None \<Rightarrow> JUndef)"
  by (simp add: get_prop_def)

lemma condition_roundtrip:
  assumes "decodeClusterCondition v = Inr c" shows "decodeClusterCondition (condition_val c) = Inr c"
proof -
  from assms obtain i where i: "identifier_guard (get_prop i ''type'') 128 = Inr (cc_type c)"
    "oneOf (get_prop i ''status'') [''True'', ''False'', ''Unknown''] = Inr (cc_status c)"
    "identifier_guard (get_prop i ''reason'') 128 = Inr (cc_reason c)"
    "controlFree (get_prop i ''message'') 2048 = Inr (cc_message c)"
    "safeSeq (get_prop i ''observedGeneration'') = Inr (cc_observedGeneration c)"
    unfolding decodeClusterCondition_def by (auto simp only: bind_ok_Inr cluster_condition.simps sum.inject)
  have ok: "identifier_guard (JStr (cc_type c)) 128 = Inr (cc_type c)"
    "oneOf (JStr (cc_status c)) [''True'', ''False'', ''Unknown''] = Inr (cc_status c)"
    "identifier_guard (JStr (cc_reason c)) 128 = Inr (cc_reason c)"
    "controlFree (JStr (cc_message c)) 2048 = Inr (cc_message c)"
    using i by (metis guard_strings)+
  have "safeSeq (JNum (JInt (cc_observedGeneration c))) = Inr (cc_observedGeneration c)"
    using safeSeq_Inr [OF i(5)] by (simp add: safeSeq_def)
  with ok show ?thesis
    by (simp add: decodeClusterCondition_def condition_val_def exact_keys_def boundedMap_def max_map_keys_def
        get_prop_JObj jm_get_Cons bind_ok_def)
qed

subsection \<open>Properties\<close>

text \<open>
  C30: The byte counter accepts exactly the texts whose surrogates are paired, and counts their
  UTF-8 bytes, for every text that does not end in a high surrogate.
\<close>

theorem utf8_byte_length_exact:
  assumes "s = [] \<or> \<not> is_high (last s)"
  shows "utf8ByteLength s = Inr n \<longleftrightarrow> paired s \<and> n = length (utf8_encode s)"
proof
  assume r: "utf8ByteLength s = Inr n"
  with assms utf8ByteLength_Inr [OF r] have "paired s" by auto
  with r show "paired s \<and> n = length (utf8_encode s)"
    by (simp add: utf8ByteLength_paired utf8_len_def)
qed (simp add: utf8ByteLength_paired utf8_len_def)

theorem utf8_byte_length_exact_witness:
  "utf8ByteLength [0x61, 0xD83D, 0xDE00] = Inr 5"
proof -
  have "utf8_encode [0x61, 0xD83D, 0xDE00] = [0x61, 0xF0, 0x9F, 0x98, 0x80]"
    by (simp add: utf8_encode_def utf8_points_def utf8_one_def is_high_def is_low_def)
  then show ?thesis
    using utf8_byte_length_exact [of "[0x61, 0xD83D, 0xDE00]" 5] by (simp add: is_high_def is_low_def)
qed

text \<open>
  C40: A text that ends in a high surrogate passes the counter although that surrogate is
  unpaired, and is counted with a byte more than its encoding has.
\<close>

theorem utf8_byte_length_trailing_surrogate:
  assumes "paired s" and "is_high c"
  shows "\<not> paired (s @ [c]) \<and> utf8ByteLength (s @ [c]) = Inr (utf8_len s + 4) \<and>
    length (utf8_encode (s @ [c])) = utf8_len s + 3"
proof -
  have np: "\<not> paired (s @ [c])" using assms
    by (induction s rule: paired.induct) (auto simp: is_high_def is_low_def)
  have "utf8ByteLength (s @ [c]) = Inr (utf8_len s + 4)" using assms
  proof (induction s rule: paired.induct)
    case 1
    then show ?case by (simp add: utf8ByteLength_pair)
  next
    case (2 d)
    then show ?case by (simp add: utf8ByteLength_plain utf8ByteLength_pair bind_ok_def utf8_len_plain)
  next
    case (3 d d' s)
    then show ?case
      by (cases "is_high d") (simp_all add: utf8ByteLength_pair utf8ByteLength_plain bind_ok_def utf8_len_plain
          utf8_len_def utf8_encode_def utf8_points_def utf8_one_def)
  qed
  moreover have "utf8_len (s @ [c]) = utf8_len s + utf8_len [c]"
    using assms(2) by (intro utf8_len_append) (auto simp: starts_plain_def is_high_def is_low_def)
  moreover have "utf8_len [c] = 3" using assms(2)
    by (simp add: utf8_len_def utf8_encode_def utf8_points_def utf8_one_def replacement_def)
  ultimately show ?thesis using np by (simp add: utf8_len_def)
qed

theorem utf8_byte_length_trailing_surrogate_witness:
  "\<not> paired ([] @ [0xD800]) \<and> utf8ByteLength ([] @ [0xD800]) = Inr (utf8_len [] + 4) \<and>
   length (utf8_encode ([] @ [0xD800])) = utf8_len [] + 3"
  by (rule utf8_byte_length_trailing_surrogate) (simp_all add: is_high_def)

lemma workspace_roundtrip:
  assumes "decodeWorkspaceInfrastructureProjection v = Inr w"
  shows "decodeWorkspaceInfrastructureProjection (workspace_val w) = Inr w"
proof -
  from assms obtain i where i: "id_guard (get_prop i ''revision'') = Inr (ws_revision w)"
    "kubernetesName (get_prop i ''id'') 253 = Inr (ws_id w)"
    "nonEmptyText (get_prop i ''displayName'') 128 = Inr (ws_displayName w)"
    "oneOf (get_prop i ''phase'') [''Pending'', ''Ready'', ''Failed'', ''Terminating'', ''Unknown''] = Inr (ws_phase w)"
    "oneOf (get_prop i ''retentionPolicy'') [''Retain'', ''Delete''] = Inr (ws_retentionPolicy w)"
    and opt: "optional_member (get_prop i ''storageClass'') (\<lambda>x. kubernetesName x 63) = Inr (ws_storageClass w)"
    "optional_member (get_prop i ''capacity'') quantity_guard = Inr (ws_capacity w)"
    "optional_member (get_prop i ''condition'') decodeClusterCondition = Inr (ws_condition w)"
    unfolding decodeWorkspaceInfrastructureProjection_def
    by (auto simp only: bind_ok_Inr ensure_Inr workspace.simps sum.inject)
  have ok: "id_guard (JStr (ws_revision w)) = Inr (ws_revision w)"
    "kubernetesName (JStr (ws_id w)) 253 = Inr (ws_id w)"
    "nonEmptyText (JStr (ws_displayName w)) 128 = Inr (ws_displayName w)"
    "oneOf (JStr (ws_phase w)) [''Pending'', ''Ready'', ''Failed'', ''Terminating'', ''Unknown''] = Inr (ws_phase w)"
    "oneOf (JStr (ws_retentionPolicy w)) [''Retain'', ''Delete''] = Inr (ws_retentionPolicy w)"
    using i by (metis guard_strings)+
  have sc: "ws_storageClass w = Some s \<Longrightarrow> kubernetesName (JStr s) 63 = Inr s" for s
    using opt(1) by (auto simp: optional_member_def decode_simps split: if_splits) (metis kubernetesName_Inr)
  have cap: "ws_capacity w = Some s \<Longrightarrow> quantity_guard (JStr s) = Inr s" for s
    using opt(2) by (auto simp: optional_member_def decode_simps split: if_splits) (metis quantity_guard_Inr)
  have con: "ws_condition w = Some c \<Longrightarrow> decodeClusterCondition (condition_val c) = Inr c" for c
    using opt(3) by (auto simp: optional_member_def decode_simps split: if_splits intro: condition_roundtrip)
  have cv: "condition_val c \<noteq> JUndef" for c by (simp add: condition_val_def)
  show ?thesis
    by (cases "ws_storageClass w"; cases "ws_capacity w"; cases "ws_condition w"; cases w)
       (use ok sc cap con cv in \<open>simp_all add: decodeWorkspaceInfrastructureProjection_def workspace_val_def
          member_def exact_keys_def boundedMap_def max_map_keys_def get_prop_JObj jm_get_Cons bind_ok_def
          ensure_def optional_member_def\<close>)
qed

text \<open>
  A decoded workspace row decodes again to itself: writing the decoded record as an object
  and decoding that object gives the same record, so re-decoding on the way into the projection
  never rejects or changes a row the wire decoder accepted.
\<close>

theorem workspace_decode_idempotent:
  assumes "decodeWorkspaceInfrastructureProjection v = Inr w"
  shows "decodeWorkspaceInfrastructureProjection (workspace_val w) = Inr w"
  by (rule workspace_roundtrip) (rule assms)

definition sample_workspace :: workspace where
  "sample_workspace = \<lparr>ws_id = js ''dev-1'', ws_displayName = js ''Dev'', ws_phase = js ''Ready'',
     ws_retentionPolicy = js ''Retain'', ws_storageClass = None, ws_capacity = Some (js ''10Gi''),
     ws_revision = js ''r1'', ws_condition = None\<rparr>"

definition sample_workspace_row :: jsval where
  "sample_workspace_row = JObj [(js ''id'', JStr (js ''dev-1'')), (js ''displayName'', JStr (js ''Dev'')),
     (js ''revision'', JStr (js ''r1'')), (js ''phase'', JStr (js ''Ready'')),
     (js ''retentionPolicy'', JStr (js ''Retain'')), (js ''accessMode'', JStr (js ''ReadWriteMany'')),
     (js ''capacity'', JStr (js ''10Gi''))]"

theorem workspace_decode_idempotent_witness:
  "decodeWorkspaceInfrastructureProjection (workspace_val sample_workspace) = Inr sample_workspace"
proof (rule workspace_decode_idempotent)
  show "decodeWorkspaceInfrastructureProjection sample_workspace_row = Inr sample_workspace" by code_simp
qed

end
