(* ===== verification/Sanitize.thy ===== *)
theory Sanitize
  imports TranscriptRetention WireGuards
begin

text \<open>
  The copies of small values the client projection keeps (client/src/projection-sanitize.ts):
  depth- and width-bounded redaction, bounded identities, session references and the comparison
  of two sanitized values. Comparison by identity of objects is comparison by value here; the two
  differ only for values nested deeper than the comparison descends, which the sanitizer never
  makes. A member named \<open>__proto__\<close> becomes the prototype of the copy and no member of it; a session
  reference reads the members of the copy only, not what it would inherit from such a prototype.
\<close>

subsection \<open>Redacted values\<close>

definition unsafe_name :: "jsstr \<Rightarrow> bool" where
  "unsafe_name name \<longleftrightarrow>
     (let s = map ascii_lower name in
      contains (js ''token'') s \<or> contains (js ''secret'') s \<or> contains (js ''password'') s \<or>
      contains (js ''credential'') s \<or> contains (js ''authorization'') s \<or> contains (js ''endpoint'') s \<or>
      contains (js ''stack'') s)"

fun safe_members :: "(jsval \<Rightarrow> jsval) \<Rightarrow> (jsstr \<times> jsval) list \<Rightarrow> (jsstr \<times> jsval) list \<Rightarrow> (jsstr \<times> jsval) list" where
  "safe_members child [] out = out"
| "safe_members child ((name, item) # es) out =
     (if unsafe_name name then safe_members child es out
      else let safe = child item in
        safe_members child es (if safe \<noteq> JUndef then assign_member name safe out else out))"

text \<open>\<open>safeValue(value, depth)\<close> by recursion on the levels left, \<open>5 - depth\<close>.\<close>

primrec safe_node :: "nat \<Rightarrow> jsval \<Rightarrow> jsval" where
  "safe_node 0 = (\<lambda>v. JUndef)"
| "safe_node (Suc left) = (\<lambda>v. case v of
      JUndef \<Rightarrow> JUndef
    | JNull \<Rightarrow> JNull
    | JStr s \<Rightarrow> JStr (take 8192 s)
    | JBool b \<Rightarrow> JBool b
    | JNum n \<Rightarrow> if is_finite n then JNum n else JUndef
    | JArr xs \<Rightarrow> JArr (filter (\<lambda>x. x \<noteq> JUndef) (map (safe_node left) (take 128 xs)))
    | JFun \<Rightarrow> JUndef
    | JObj kvs \<Rightarrow> JObj (safe_members (safe_node left) (take 128 (own_entries kvs)) []))"

definition safeValue :: "jsval \<Rightarrow> jsval" where
  "safeValue v = safe_node 5 v"

definition isRecord :: "jsval \<Rightarrow> bool" where
  "isRecord v \<longleftrightarrow> (case v of JObj kvs \<Rightarrow> True | _ \<Rightarrow> False)"

definition boundedIdentity :: "jsval \<Rightarrow> jsstr option" where
  "boundedIdentity v =
     (case v of
        JStr s \<Rightarrow> if length s = 0 \<or> length s > 256 \<or> list_ex is_control s then None else Some s
      | _ \<Rightarrow> None)"

definition string_prop :: "jsval \<Rightarrow> string \<Rightarrow> jsstr option" where
  "string_prop v k = (case get_prop v k of JStr s \<Rightarrow> Some s | _ \<Rightarrow> None)"

text \<open>\<open>{...o, name: value}\<close>\<close>

definition with_member :: "string \<Rightarrow> jsval \<Rightarrow> jsval \<Rightarrow> jsval" where
  "with_member name v object = (case object of JObj kvs \<Rightarrow> JObj (jm_set (js name) v kvs) | _ \<Rightarrow> object)"

definition sanitizeSessionRef :: "jsval \<Rightarrow> jsval option" where
  "sanitizeSessionRef v =
     (let safe = safeValue v in
      if \<not> isRecord safe then None
      else
        let project = (if isRecord (get_prop safe ''project'') then get_prop safe ''project'' else JUndef)
        in case (boundedIdentity (get_prop safe ''hostId''), boundedIdentity (get_prop safe ''sessionId''),
                 boundedIdentity (get_prop project ''projectId''), boundedIdentity (get_prop safe ''revision''),
                 string_prop safe ''title'', string_prop safe ''status'', string_prop safe ''updatedAt'') of
             (Some hostId, Some sessionId, Some projectId, Some revision, Some title, Some status, Some updatedAt) \<Rightarrow>
               Some (with_member ''updatedAt'' (JStr updatedAt)
                 (with_member ''status'' (JStr status)
                 (with_member ''title'' (JStr title)
                 (with_member ''revision'' (JStr revision)
                 (with_member ''project'' (with_member ''projectId'' (JStr projectId) project)
                 (with_member ''sessionId'' (JStr sessionId)
                 (with_member ''hostId'' (JStr hostId) safe)))))))
           | _ \<Rightarrow> None)"

subsection \<open>Comparison\<close>

fun is_object :: "jsval \<Rightarrow> bool" where
  "is_object (JArr xs) \<longleftrightarrow> True"
| "is_object (JObj kvs) \<longleftrightarrow> True"
| "is_object v \<longleftrightarrow> False"

text \<open>
  \<open>sameSafeValue(left, right, depth)\<close> by recursion on the levels left, \<open>6 - depth\<close>.
\<close>

primrec same_node :: "nat \<Rightarrow> jsval \<Rightarrow> jsval \<Rightarrow> bool" where
  "same_node 0 = (\<lambda>l r. \<not> is_object l \<and> l = r)"
| "same_node (Suc left) = (\<lambda>l r.
     if \<not> is_object l \<and> l = r then True
     else (case l of
       JArr xs \<Rightarrow> (case r of JArr ys \<Rightarrow> length xs = length ys \<and> list_all2 (same_node left) xs ys | _ \<Rightarrow> False)
     | JObj kvs \<Rightarrow>
         (case r of
            JObj kvs' \<Rightarrow> length kvs = length kvs' \<and>
              list_all (\<lambda>(k, v). case jm_get kvs' k of None \<Rightarrow> False | Some w \<Rightarrow> same_node left v w) kvs
          | _ \<Rightarrow> False)
     | _ \<Rightarrow> False))"

definition sameSafeValue :: "jsval \<Rightarrow> jsval \<Rightarrow> bool" where
  "sameSafeValue l r \<longleftrightarrow> same_node 6 l r"

subsection \<open>What a sanitized value is\<close>

text \<open>The shape of a value with \<open>left\<close> levels.\<close>

primrec safe_shape :: "nat \<Rightarrow> jsval \<Rightarrow> bool" where
  "safe_shape 0 = (\<lambda>v. False)"
| "safe_shape (Suc left) = (\<lambda>v. case v of
      JNull \<Rightarrow> True | JBool b \<Rightarrow> True | JNum n \<Rightarrow> is_finite n | JStr s \<Rightarrow> length s \<le> 8192
    | JArr xs \<Rightarrow> length xs \<le> 128 \<and> list_all (safe_shape left) xs
    | JObj kvs \<Rightarrow> length kvs \<le> 128 \<and> distinct (map fst kvs) \<and>
        list_all (\<lambda>(k, v). \<not> unsafe_name k \<and> k \<noteq> js ''__proto__'' \<and> safe_shape left v) kvs
    | _ \<Rightarrow> False)"

lemma safe_members_ok:
  assumes "\<And>v. child v \<noteq> JUndef \<Longrightarrow> Q (child v)"
    and "distinct (map fst out)" "list_all (\<lambda>(k, v). \<not> unsafe_name k \<and> k \<noteq> js ''__proto__'' \<and> Q v) out"
  shows "distinct (map fst (safe_members child es out)) \<and>
    list_all (\<lambda>(k, v). \<not> unsafe_name k \<and> k \<noteq> js ''__proto__'' \<and> Q v) (safe_members child es out) \<and>
    length (safe_members child es out) \<le> length out + length es"
  using assms(2,3)
proof (induction es arbitrary: out)
  case (Cons p es)
  obtain name item where p: "p = (name, item)" by (cases p)
  let ?out = "if child item \<noteq> JUndef then assign_member name (child item) out else out"
  show ?case
  proof (cases "unsafe_name name")
    case True
    with Cons.IH [OF Cons.prems] p show ?thesis by simp
  next
    case False
    have "jm_wf (jm_set name (child item) out)" using Cons.prems(1) jm_wf_set by (simp add: jm_wf_def)
    then have d: "distinct (map fst ?out)" using Cons.prems(1) by (auto simp: assign_member_def jm_wf_def)
    have l: "list_all (\<lambda>(k, v). \<not> unsafe_name k \<and> k \<noteq> js ''__proto__'' \<and> Q v) ?out"
      using Cons.prems(2) False assms(1) [of item]
      by (auto simp: assign_member_def list_all_iff dest!: jm_set_in_set)
    have "length (jm_set name (child item) out) \<le> Suc (length out)"
      using jm.size_put [of name "child item" out] by simp
    then have "length ?out \<le> Suc (length out)" by (simp add: assign_member_def)
    with Cons.IH [OF d l] False p show ?thesis by (simp add: Let_def)
  qed
qed simp

lemma safe_node_shape: "safe_node left v \<noteq> JUndef \<Longrightarrow> safe_shape left (safe_node left v)"
proof (induction left arbitrary: v)
  case (Suc left)
  show ?case
  proof (cases v)
    case (JArr xs)
    have "length (filter (\<lambda>x. x \<noteq> JUndef) (map (safe_node left) (take 128 xs))) \<le> 128"
      by (rule order.trans [OF length_filter_le]) simp
    with JArr Suc show ?thesis by (auto simp: list_all_iff)
  next
    case (JObj kvs)
    from safe_members_ok [where child = "safe_node left" and Q = "safe_shape left" and out = "[]"
        and es = "take 128 (own_entries kvs)", OF Suc.IH] JObj
    show ?thesis by simp
  qed (use Suc.prems in \<open>auto split: if_splits\<close>)
qed simp

lemma safeValue_shape: "safeValue v \<noteq> JUndef \<Longrightarrow> safe_shape 5 (safeValue v)"
  unfolding safeValue_def by (rule safe_node_shape)

text \<open>Setting a member to the value it has changes nothing.\<close>

lemma jm_set_same: "jm_get m k = Some v \<Longrightarrow> jm_set k v m = m"
  by (induction m) (auto simp: jm_set_code jm_get_Cons split: if_splits)

lemma with_member_same: "get_prop v k = w \<Longrightarrow> w \<noteq> JUndef \<Longrightarrow> with_member k w v = v"
  by (auto simp: with_member_def get_prop_def jm_set_same split: jsval.splits option.splits)

lemma boundedIdentity_Some:
  "boundedIdentity v = Some s \<longleftrightarrow>
   v = JStr s \<and> s \<noteq> [] \<and> length s \<le> 256 \<and> list_all (\<lambda>c. \<not> is_control c) s"
  by (cases v) (auto simp: boundedIdentity_def list_ex_iff list_all_iff)

lemma string_prop_Some: "string_prop v k = Some s \<longleftrightarrow> get_prop v k = JStr s"
  by (auto simp: string_prop_def split: jsval.splits)

text \<open>A session reference is the redacted value itself, with its identities checked.\<close>

lemma sanitizeSessionRef_Some:
  assumes "sanitizeSessionRef v = Some r"
  shows "r = safeValue v" and "isRecord r"
    and "\<exists>s. boundedIdentity (get_prop r ''hostId'') = Some s"
    and "\<exists>s. boundedIdentity (get_prop r ''sessionId'') = Some s"
    and "\<exists>s. boundedIdentity (get_prop r ''revision'') = Some s"
    and "\<exists>s. get_prop r ''updatedAt'' = JStr s"
proof -
  let ?v = "safeValue v"
  let ?p = "if isRecord (get_prop ?v ''project'') then get_prop ?v ''project'' else JUndef"
  from assms obtain h s p rev ti st up where
    rec: "isRecord ?v"
    and f: "boundedIdentity (get_prop ?v ''hostId'') = Some h" "boundedIdentity (get_prop ?v ''sessionId'') = Some s"
      "boundedIdentity (get_prop ?p ''projectId'') = Some p" "boundedIdentity (get_prop ?v ''revision'') = Some rev"
      "string_prop ?v ''title'' = Some ti" "string_prop ?v ''status'' = Some st" "string_prop ?v ''updatedAt'' = Some up"
    and r: "r = with_member ''updatedAt'' (JStr up) (with_member ''status'' (JStr st) (with_member ''title'' (JStr ti)
      (with_member ''revision'' (JStr rev) (with_member ''project'' (with_member ''projectId'' (JStr p) ?p)
      (with_member ''sessionId'' (JStr s) (with_member ''hostId'' (JStr h) ?v))))))"
    unfolding sanitizeSessionRef_def Let_def by (simp split: if_splits option.splits)
  have pid: "with_member ''projectId'' (JStr p) ?p = ?p"
    using f(3) by (intro with_member_same) (simp_all only: boundedIdentity_Some, simp_all)
  have "get_prop ?p ''projectId'' \<noteq> JUndef" using f(3) by (auto simp: boundedIdentity_Some)
  then have proj: "isRecord (get_prop ?v ''project'')" by (auto simp: get_prop_def split: if_splits)
  have nu: "get_prop ?v ''project'' \<noteq> JUndef" using proj by (auto simp: isRecord_def)
  show eq: "r = ?v" unfolding r pid
    using f proj nu by (simp add: with_member_same boundedIdentity_Some string_prop_Some)
  show "isRecord r" "\<exists>s. boundedIdentity (get_prop r ''hostId'') = Some s"
    "\<exists>s. boundedIdentity (get_prop r ''sessionId'') = Some s"
    "\<exists>s. boundedIdentity (get_prop r ''revision'') = Some s" "\<exists>s. get_prop r ''updatedAt'' = JStr s"
    unfolding eq using rec f by (simp_all add: string_prop_Some)
qed

end
