(* ===== verification/ProjectionContract.thy ===== *)
theory ProjectionContract
  imports Sanitize
begin

text \<open>
  The data of the client projection (client/src/projection-contract.ts and projection-options.ts):
  the frames it consumes, the projection of a session and of a host, the caps and their defaults.
  Maps are insertion-ordered, absent optional fields are \<open>None\<close> or \<open>JUndef\<close>, the \<open>entryIds\<close> set is
  the list of identifiers it is built from. Caps that the code validates may be any integer or
  absent; the others are natural numbers.
\<close>

subsection \<open>Caps\<close>

definition max_indexed_session_refs :: nat where "max_indexed_session_refs = 1000"
definition max_indexed_workspaces :: nat where "max_indexed_workspaces = 1000"
definition max_retained_terminals :: nat where "max_retained_terminals = 64"
definition max_retained_terminal_bytes :: nat where "max_retained_terminal_bytes = 1024 * 1024"
definition max_retained_terminal_bytes_per_terminal :: nat where "max_retained_terminal_bytes_per_terminal = 256 * 1024"
definition max_retained_files :: nat where "max_retained_files = 256"
definition max_retained_files_bytes :: nat where "max_retained_files_bytes = 4 * 1024 * 1024"
definition max_retained_file_bytes :: nat where "max_retained_file_bytes = 768 * 1024"
definition max_retained_previews :: nat where "max_retained_previews = 32"
definition max_retained_preview_events :: nat where "max_retained_preview_events = 128"

record projection_options =
  po_maxWarmSessions :: "nat option"
  po_maxIndexedSessions :: "nat option"
  po_maxWorkspaces :: "nat option"
  po_maxEntries :: "nat option"
  po_maxTranscriptBytes :: "nat option"
  po_maxEntryBytes :: "nat option"
  po_maxEvents :: "nat option"
  po_maxEventsBytes :: "nat option"
  po_maxEventBytes :: "nat option"
  po_maxAudit :: "nat option"
  po_maxAgentTranscripts :: "nat option"
  po_maxAgentTranscriptEntries :: "nat option"
  po_maxAgentTranscriptBytes :: "nat option"
  po_maxTerminals :: "int option"
  po_maxTerminalBytes :: "int option"
  po_maxTerminalBytesPerTerminal :: "int option"
  po_maxFiles :: "int option"
  po_maxFilesBytes :: "int option"
  po_maxFileBytes :: "int option"
  po_maxPreviews :: "int option"
  po_maxPreviewEvents :: "int option"

record caps =
  maxWarmSessions :: nat
  maxIndexedSessions :: nat
  maxWorkspaces :: nat
  maxEntries :: nat
  maxTranscriptBytes :: nat
  maxEntryBytes :: nat
  maxEvents :: nat
  maxEventsBytes :: nat
  maxEventBytes :: nat
  maxAudit :: nat
  maxAgentTranscripts :: nat
  maxAgentTranscriptEntries :: nat
  maxAgentTranscriptBytes :: nat
  maxTerminals :: nat
  maxTerminalBytes :: nat
  maxTerminalBytesPerTerminal :: nat
  maxFiles :: nat
  maxFilesBytes :: nat
  maxFileBytes :: nat
  maxPreviews :: nat
  maxPreviewEvents :: nat

definition default_options :: caps where
  "default_options =
     \<lparr>maxWarmSessions = 8,
      maxIndexedSessions = max_indexed_session_refs,
      maxWorkspaces = max_indexed_workspaces,
      maxEntries = nat max_retained_transcript_entries,
      maxTranscriptBytes = nat max_retained_transcript_bytes,
      maxEntryBytes = nat max_retained_transcript_entry_bytes,
      maxEvents = nat max_retained_session_events,
      maxEventsBytes = nat max_retained_session_events_bytes,
      maxEventBytes = nat max_retained_session_event_bytes,
      maxAudit = 256,
      maxAgentTranscripts = max_retained_agent_transcripts,
      maxAgentTranscriptEntries = nat max_retained_agent_transcript_entries,
      maxAgentTranscriptBytes = nat max_retained_agent_transcript_bytes,
      maxTerminals = max_retained_terminals,
      maxTerminalBytes = max_retained_terminal_bytes,
      maxTerminalBytesPerTerminal = max_retained_terminal_bytes_per_terminal,
      maxFiles = max_retained_files,
      maxFilesBytes = max_retained_files_bytes,
      maxFileBytes = max_retained_file_bytes,
      maxPreviews = max_retained_previews,
      maxPreviewEvents = max_retained_preview_events\<rparr>"

definition positiveOption :: "int option \<Rightarrow> nat \<Rightarrow> nat" where
  "positiveOption v fallback =
     (case v of None \<Rightarrow> fallback | Some n \<Rightarrow> if is_safe_integer n \<and> n > 0 then nat n else fallback)"

definition given :: "nat option \<Rightarrow> nat \<Rightarrow> nat" where
  "given v fallback = (case v of None \<Rightarrow> fallback | Some n \<Rightarrow> n)"

definition resolveProjectionOptions :: "projection_options \<Rightarrow> caps" where
  "resolveProjectionOptions o' =
     \<lparr>maxWarmSessions = given (po_maxWarmSessions o') (maxWarmSessions default_options),
      maxIndexedSessions = given (po_maxIndexedSessions o') (maxIndexedSessions default_options),
      maxWorkspaces = given (po_maxWorkspaces o') (maxWorkspaces default_options),
      maxEntries = given (po_maxEntries o') (maxEntries default_options),
      maxTranscriptBytes = given (po_maxTranscriptBytes o') (maxTranscriptBytes default_options),
      maxEntryBytes = given (po_maxEntryBytes o') (maxEntryBytes default_options),
      maxEvents = given (po_maxEvents o') (maxEvents default_options),
      maxEventsBytes = given (po_maxEventsBytes o') (maxEventsBytes default_options),
      maxEventBytes = given (po_maxEventBytes o') (maxEventBytes default_options),
      maxAudit = given (po_maxAudit o') (maxAudit default_options),
      maxAgentTranscripts = given (po_maxAgentTranscripts o') (maxAgentTranscripts default_options),
      maxAgentTranscriptEntries = given (po_maxAgentTranscriptEntries o') (maxAgentTranscriptEntries default_options),
      maxAgentTranscriptBytes = given (po_maxAgentTranscriptBytes o') (maxAgentTranscriptBytes default_options),
      maxTerminals = positiveOption (po_maxTerminals o') (maxTerminals default_options),
      maxTerminalBytes = positiveOption (po_maxTerminalBytes o') (maxTerminalBytes default_options),
      maxTerminalBytesPerTerminal =
        positiveOption (po_maxTerminalBytesPerTerminal o') (maxTerminalBytesPerTerminal default_options),
      maxFiles = positiveOption (po_maxFiles o') (maxFiles default_options),
      maxFilesBytes = positiveOption (po_maxFilesBytes o') (maxFilesBytes default_options),
      maxFileBytes = positiveOption (po_maxFileBytes o') (maxFileBytes default_options),
      maxPreviews = positiveOption (po_maxPreviews o') (maxPreviews default_options),
      maxPreviewEvents = positiveOption (po_maxPreviewEvents o') (maxPreviewEvents default_options)\<rparr>"

subsection \<open>Frames\<close>

datatype terminal_stream = Stdout | Stderr | Exit

record terminal_frame =
  tf_hostId :: jsstr
  tf_sessionId :: jsstr
  tf_terminalId :: jsstr
  tf_stream :: terminal_stream
  tf_data :: "jsstr option"
  tf_exitCode :: "int option"

record file_frame =
  ff_hostId :: jsstr
  ff_sessionId :: jsstr
  ff_path :: jsstr
  ff_content :: "jsstr option"
  ff_truncated :: "bool option"

record review_frame =
  rf_hostId :: jsstr
  rf_sessionId :: jsstr
  rf_reviewId :: jsstr
  rf_status :: jsstr
  rf_path :: "jsstr option"
  rf_findings :: "jsval list"

record audit_frame =
  uf_hostId :: jsstr
  uf_sessionId :: "jsstr option"
  uf_action :: jsstr
  uf_actor :: jsstr
  uf_timestamp :: jsstr
  uf_detail :: jsval

record confirmation_frame =
  cf_confirmationId :: jsstr
  cf_commandId :: jsstr
  cf_hostId :: jsstr
  cf_sessionId :: "jsstr option"
  cf_commandHash :: jsstr
  cf_revision :: jsstr
  cf_expiresAt :: jsstr
  cf_summary :: jsstr

record result_error =
  er_code :: jsstr
  er_message :: jsstr

record result_frame =
  xf_requestId :: jsstr
  xf_commandId :: "jsstr option"
  xf_hostId :: jsstr
  xf_sessionId :: "jsstr option"
  xf_ok :: bool
  xf_result :: jsval
  xf_command :: "jsstr option"
  xf_error :: "result_error option"

record agent_frame =
  gt_hostId :: jsstr
  gt_sessionId :: jsstr
  gt_agentId :: jsstr
  gt_state :: jsstr
  gt_progress :: jsval
  gt_detail :: jsval

record preview_capture =
  pc_captureId :: jsstr
  pc_capturedAt :: int
  pc_rest :: "(jsstr \<times> jsval) list"

datatype preview_kind = PLaunch | PState | PNavigation | PCapture | PError

record preview_frame =
  pf_kind :: preview_kind
  pf_hostId :: jsstr
  pf_sessionId :: jsstr
  pf_previewId :: jsstr
  pf_cursor :: cursor
  pf_revision :: jsstr
  pf_state :: jsstr
  pf_url :: jsstr
  pf_title :: "jsstr option"
  pf_canGoBack :: "bool option"
  pf_canGoForward :: "bool option"
  pf_viewport :: "jsval option"
  pf_capture :: "preview_capture option"
  pf_authority :: jsval
  pf_availableActions :: jsval
  pf_error :: "jsstr option"
  pf_code :: jsstr
  pf_message :: jsstr

record welcome_frame =
  wf_hostId :: jsstr
  wf_epoch :: jsstr

record sessions_frame =
  ss_hostId :: jsval
  ss_cursor :: cursor
  ss_sessions :: "jsval list"
  ss_totalCount :: jsval
  ss_truncated :: jsval

record session_delta_frame =
  sd_hostId :: jsval
  sd_sessionId :: jsval
  sd_cursor :: cursor
  sd_revision :: jsstr
  sd_upsert :: jsval
  sd_remove :: jsval

record workspace_state_frame =
  wk_hostId :: jsval
  wk_workspaceId :: jsval
  wk_cursor :: cursor
  wk_upsert :: jsval
  wk_remove :: "jsstr option"

datatype projection_frame =
    FWorkspaceState workspace_state_frame
  | FSessions sessions_frame
  | FSessionDelta session_delta_frame
  | FSnapshot snapshot_frame
  | FEntry entry_frame
  | FEvent event_frame
  | FGap gap_frame
  | FAgent agent_frame
  | FAgentTranscript agent_transcript_frame
  | FWelcome welcome_frame
  | FPreview preview_frame
  | FTerminal terminal_frame
  | FFiles file_frame
  | FReview review_frame
  | FAudit audit_frame
  | FConfirmation confirmation_frame
  | FResponse result_frame
  | FOther

subsection \<open>Projections\<close>

datatype freshness = Fresh | CatchingUp | Cached

datatype preview_freshness = PvFresh | PvCatchingUp | PvCached | PvStale

record preview_authority =
  pa_id :: jsstr
  pa_label :: jsstr
  pa_kind :: jsstr
  pa_requiresExplicitOptIn :: bool

record preview_url =
  pu_origin :: jsstr
  pu_pathname :: jsstr
  pu_hasQuery :: bool

record preview_event =
  pe_type :: preview_kind
  pe_previewId :: jsstr
  pe_cursor :: cursor
  pe_url :: "preview_url option"
  pe_timestamp :: "int option"
  pe_captureId :: "jsstr option"
  pe_errorCode :: "jsstr option"

record preview_projection =
  pp_hostId :: jsstr
  pp_sessionId :: jsstr
  pp_previewId :: jsstr
  pp_state :: "jsstr option"
  pp_url :: "jsstr option"
  pp_revision :: jsstr
  pp_cursor :: cursor
  pp_title :: "jsstr option"
  pp_canGoBack :: "bool option"
  pp_canGoForward :: "bool option"
  pp_viewport :: "jsval option"
  pp_capture :: "preview_capture option"
  pp_authority :: "preview_authority option"
  pp_availableActions :: "jsstr list option"
  pp_error :: "result_error option"
  pp_freshness :: preview_freshness

record terminal_projection =
  tp_terminalId :: jsstr
  tp_stdout :: jsstr
  tp_stderr :: jsstr
  tp_exitCode :: "int option"
  tp_closed :: bool

record result_projection =
  rp_requestId :: jsstr
  rp_commandId :: "jsstr option"
  rp_ok :: bool
  rp_result :: jsval
  rp_error :: "result_error option"

record agent_transcript =
  at_entries :: "durable_entry list"
  at_entryIds :: "jsstr list"
  at_cursor :: cursor
  at_revision :: jsstr
  at_freshness :: freshness
  at_historyTruncated :: bool

record session_projection =
  sp_hostId :: jsstr
  sp_sessionId :: "jsstr option"
  sp_ref :: "jsval option"
  sp_entries :: "durable_entry list"
  sp_events :: "event_frame list"
  sp_agents :: "(jsstr, agent_frame) jsmap"
  sp_agentTranscripts :: "(jsstr, agent_transcript) jsmap"
  sp_terminals :: "(jsstr, terminal_projection) jsmap"
  sp_files :: "(jsstr, file_frame) jsmap"
  sp_reviews :: "(jsstr, review_frame) jsmap"
  sp_audit :: "audit_frame list"
  sp_confirmations :: "(jsstr, confirmation_frame) jsmap"
  sp_results :: "(jsstr, result_projection) jsmap"
  sp_previews :: "(jsstr, preview_projection) jsmap"
  sp_previewEvents :: "preview_event list"
  sp_revision :: "jsstr option"
  sp_cursor :: "cursor option"
  sp_epoch :: "jsstr option"
  sp_freshness :: freshness
  sp_transcriptEventArrivalOrdinal :: int
  sp_contextMaintenanceEventArrivalOrdinal :: int
  sp_gap :: "gap_frame option"
  sp_historyTruncated :: bool
  sp_entryIds :: "jsstr list"

record index_metadata =
  im_totalCount :: int
  im_truncated :: bool

record snapshot =
  sn_sessions :: "(jsstr, session_projection) jsmap"
  sn_activeSessionKey :: "jsstr option"
  sn_sessionIndex :: "(jsstr, jsval) jsmap"
  sn_sessionIndexMetadata :: "(jsstr, index_metadata) jsmap"
  sn_sessionRefArrivalOrdinals :: "(jsstr, int) jsmap"
  sn_sessionDeltaCursors :: "(jsstr, cursor) jsmap"
  sn_sessionInventoryCursors :: "(jsstr, cursor) jsmap"
  sn_workspaces :: "(jsstr, workspace) jsmap"
  sn_workspaceCursors :: "(jsstr, cursor) jsmap"
  sn_lru :: "jsstr list"
  sn_cursor :: "cursor option"
  sn_epoch :: "jsstr option"
  sn_freshness :: freshness
  sn_arrivalOrdinal :: int

subsection \<open>Properties\<close>

lemma positiveOption_pos: "0 < d \<Longrightarrow> 0 < positiveOption v d"
  by (simp add: positiveOption_def split: option.split)

text \<open>
  Whatever options are given, the caps on terminals, files and previews are positive: zero,
  negative and unsafe numbers fall back to the defaults.
\<close>

theorem validated_caps_positive:
  "let c = resolveProjectionOptions o' in
   0 < maxTerminals c \<and> 0 < maxTerminalBytes c \<and> 0 < maxTerminalBytesPerTerminal c \<and>
   0 < maxFiles c \<and> 0 < maxFilesBytes c \<and> 0 < maxFileBytes c \<and> 0 < maxPreviews c \<and> 0 < maxPreviewEvents c"
  unfolding Let_def resolveProjectionOptions_def default_options_def caps.simps
  by (intro conjI positiveOption_pos)
    (simp_all add: max_retained_terminals_def max_retained_terminal_bytes_def max_retained_terminal_bytes_per_terminal_def
      max_retained_files_def max_retained_files_bytes_def max_retained_file_bytes_def
      max_retained_previews_def max_retained_preview_events_def)

end
