(* ===== verification/ResourceRetention.thy ===== *)
theory ResourceRetention
  imports ProjectionContract
begin

text \<open>
  The caps on the terminals and files of a session (client/src/projection-retention.ts). Byte
  totals are integers the code keeps beside the map; memoized totals are recomputed here. The
  lemmas show that the totals stay exact, that both caps hold of every map the functions return,
  and which entries are given up to meet them.
\<close>

subsection \<open>Cutting text at a character boundary\<close>

definition utf8Bytes :: "jsstr \<Rightarrow> nat" where
  "utf8Bytes s = length (utf8_encode s)"

function tail_offset :: "nat list \<Rightarrow> nat \<Rightarrow> nat" where
  "tail_offset encoded offset =
     (if offset < length encoded \<and> is_cont (encoded ! offset) then tail_offset encoded (offset + 1) else offset)"
  by pat_completeness auto
termination by (relation "measure (\<lambda>(encoded, offset). length encoded - offset)") auto

declare tail_offset.simps [simp del]

definition retainedUtf8Tail :: "jsstr \<Rightarrow> nat \<Rightarrow> jsstr" where
  "retainedUtf8Tail s maxBytes =
     (let encoded = utf8_encode s in
      if length encoded \<le> maxBytes then s
      else utf8_decode (drop (tail_offset encoded (length encoded - maxBytes)) encoded))"

fun head_end :: "nat list \<Rightarrow> nat \<Rightarrow> nat" where
  "head_end encoded e =
     (if 0 < e \<and> e < length encoded \<and> is_cont (encoded ! e) then head_end encoded (e - 1) else e)"

declare head_end.simps [simp del]

definition retainedUtf8Head :: "jsstr \<Rightarrow> nat \<Rightarrow> jsstr" where
  "retainedUtf8Head s maxBytes =
     (let encoded = utf8_encode s in
      if length encoded \<le> maxBytes then s
      else utf8_decode (take (head_end encoded (min (length encoded) maxBytes)) encoded))"

subsection \<open>Terminals\<close>

datatype output_stream = OStdout | OStderr

definition terminalProjectionBytes :: "terminal_projection \<Rightarrow> int" where
  "terminalProjectionBytes t =
     int (utf8Bytes (tp_terminalId t)) + int (utf8Bytes (tp_stdout t)) + int (utf8Bytes (tp_stderr t))"

definition trimTerminalProjection :: "terminal_projection \<Rightarrow> nat \<Rightarrow> output_stream \<Rightarrow> terminal_projection" where
  "trimTerminalProjection t maxBytes preferredStream =
     (if terminalProjectionBytes t \<le> int maxBytes then t
      else
        let outputBudget = maxBytes - utf8Bytes (tp_terminalId t) in
        case preferredStream of
          OStdout \<Rightarrow>
            let preferred = retainedUtf8Tail (tp_stdout t) outputBudget;
                secondary = retainedUtf8Tail (tp_stderr t) (outputBudget - utf8Bytes preferred)
            in t\<lparr>tp_stdout := preferred, tp_stderr := secondary\<rparr>
        | OStderr \<Rightarrow>
            let preferred = retainedUtf8Tail (tp_stderr t) outputBudget;
                secondary = retainedUtf8Tail (tp_stdout t) (outputBudget - utf8Bytes preferred)
            in t\<lparr>tp_stderr := preferred, tp_stdout := secondary\<rparr>)"

type_synonym terminals = "(jsstr, terminal_projection) jsmap"

definition completed_other :: "jsstr \<Rightarrow> terminals \<Rightarrow> jsstr option" where
  "completed_other terminalId m =
     map_option fst (find (\<lambda>(k, t). k \<noteq> terminalId \<and> tp_closed t) m)"

definition oldest_other :: "jsstr \<Rightarrow> (jsstr, 'v) jsmap \<Rightarrow> jsstr option" where
  "oldest_other k m = find (\<lambda>j. j \<noteq> k) (jm_keys m)"

text \<open>\<open>completed ?? oldestOther\<close>\<close>

definition victim :: "jsstr \<Rightarrow> terminals \<Rightarrow> jsstr option" where
  "victim terminalId m =
     (case completed_other terminalId m of Some k \<Rightarrow> Some k | None \<Rightarrow> oldest_other terminalId m)"

definition first_key :: "('k, 'v) jsmap \<Rightarrow> 'k option" where
  "first_key m = (case m of [] \<Rightarrow> None | p # _ \<Rightarrow> Some (fst p))"

definition bytes_at :: "('v \<Rightarrow> int) \<Rightarrow> ('k, 'v) jsmap \<Rightarrow> 'k \<Rightarrow> int" where
  "bytes_at b m k = (case jm_get m k of None \<Rightarrow> 0 | Some v \<Rightarrow> b v)"

lemma length_jm_delete: "k \<in> set (jm_keys m) \<Longrightarrow> length (jm_delete k m) < length m"
  by (simp add: jm_delete_filter jm_keys_def) (metis (mono_tags, lifting) imageE length_filter_less)

lemma find_fst_in: "find P m = Some p \<Longrightarrow> fst p \<in> set (jm_keys m)"
  by (auto simp: find_Some_iff jm_keys_def)

lemma oldest_other_in: "oldest_other k m = Some j \<Longrightarrow> j \<in> set (jm_keys m) \<and> j \<noteq> k"
  by (auto simp: oldest_other_def find_Some_iff)

lemma completed_other_in: "completed_other k m = Some j \<Longrightarrow> j \<in> set (jm_keys m) \<and> j \<noteq> k"
  by (auto simp: completed_other_def find_Some_iff jm_keys_def intro!: image_eqI [where f = fst] nth_mem)

lemma victim_in: "victim k m = Some j \<Longrightarrow> j \<in> set (jm_keys m) \<and> j \<noteq> k"
  by (auto simp: victim_def dest: completed_other_in oldest_other_in split: option.splits)

lemma first_key_in: "first_key m = Some j \<Longrightarrow> j \<in> set (jm_keys m)"
  by (auto simp: first_key_def jm_keys_def split: list.splits)

function evict_terminals_over :: "nat \<Rightarrow> jsstr \<Rightarrow> terminals \<Rightarrow> int \<Rightarrow> terminals \<times> int" where
  "evict_terminals_over maxTerms terminalId m totalBytes =
     (if length m > maxTerms then
        (case (case victim terminalId m of Some k \<Rightarrow> Some k | None \<Rightarrow> first_key m) of
           None \<Rightarrow> (m, totalBytes)
         | Some evicted \<Rightarrow>
             evict_terminals_over maxTerms terminalId (jm_delete evicted m)
               (totalBytes - bytes_at terminalProjectionBytes m evicted))
      else (m, totalBytes))"
  by pat_completeness auto
termination
  by (relation "measure (\<lambda>(n, k, m, t). length m)")
    (auto intro!: length_jm_delete dest: victim_in first_key_in split: option.splits)

function evict_terminal_bytes :: "nat \<Rightarrow> jsstr \<Rightarrow> terminals \<Rightarrow> int \<Rightarrow> terminals \<times> int" where
  "evict_terminal_bytes maxBytes terminalId m totalBytes =
     (if totalBytes > int maxBytes then
        (case victim terminalId m of
           None \<Rightarrow> (m, totalBytes)
         | Some evicted \<Rightarrow>
             evict_terminal_bytes maxBytes terminalId (jm_delete evicted m)
               (totalBytes - bytes_at terminalProjectionBytes m evicted))
      else (m, totalBytes))"
  by pat_completeness auto
termination
  by (relation "measure (\<lambda>(n, k, m, t). length m)")
    (auto intro!: length_jm_delete dest: victim_in split: option.splits)

declare evict_terminals_over.simps [simp del] evict_terminal_bytes.simps [simp del]

definition retainTerminalProjection ::
  "terminals \<Rightarrow> jsstr \<Rightarrow> terminal_projection \<Rightarrow> caps \<Rightarrow> output_stream \<Rightarrow> terminals" where
  "retainTerminalProjection terms terminalId t options preferredStream =
     (let totalBytes = sum_list (map terminalProjectionBytes (jm_values terms));
          totalBytes = totalBytes - bytes_at terminalProjectionBytes terms terminalId;
          next = jm_delete terminalId terms;
          perTerminalLimit = min (maxTerminalBytesPerTerminal options) (maxTerminalBytes options);
          retained = trimTerminalProjection t perTerminalLimit preferredStream;
          retainedBytes = terminalProjectionBytes retained;
          (next, totalBytes) =
            (if retainedBytes \<le> int perTerminalLimit
             then (jm_set terminalId retained next, totalBytes + retainedBytes) else (next, totalBytes));
          (next, totalBytes) = evict_terminals_over (maxTerminals options) terminalId next totalBytes;
          (next, totalBytes) = evict_terminal_bytes (maxTerminalBytes options) terminalId next totalBytes;
          (next, totalBytes) =
            (case jm_get next terminalId of
               None \<Rightarrow> (next, totalBytes)
             | Some current \<Rightarrow>
                 if totalBytes > int (maxTerminalBytes options) then
                   let trimmed = trimTerminalProjection current (maxTerminalBytes options) preferredStream
                   in (jm_set terminalId trimmed next,
                       totalBytes + (terminalProjectionBytes trimmed - terminalProjectionBytes current))
                 else (next, totalBytes))
      in if totalBytes > int (maxTerminalBytes options) then jm_delete terminalId next else next)"

subsection \<open>Files\<close>

type_synonym files = "(jsstr, file_frame) jsmap"

definition fileProjectionBytes :: "file_frame \<Rightarrow> int" where
  "fileProjectionBytes f =
     int (utf8Bytes (ff_path f)) + (case ff_content f of None \<Rightarrow> 0 | Some c \<Rightarrow> int (utf8Bytes c))"

definition fileWithoutContent :: "file_frame \<Rightarrow> file_frame" where
  "fileWithoutContent f = f\<lparr>ff_content := None, ff_truncated := Some True\<rparr>"

definition trimFileProjection :: "file_frame \<Rightarrow> nat \<Rightarrow> file_frame" where
  "trimFileProjection f maxBytes =
     (case ff_content f of
        None \<Rightarrow> f
      | Some c \<Rightarrow>
          if fileProjectionBytes f \<le> int maxBytes then f
          else f\<lparr>ff_content := Some (retainedUtf8Head c (maxBytes - utf8Bytes (ff_path f))),
                 ff_truncated := Some True\<rparr>)"

function evict_files_over :: "nat \<Rightarrow> files \<Rightarrow> int \<Rightarrow> files \<times> int" where
  "evict_files_over max_files m totalBytes =
     (if length m > max_files then
        (case first_key m of
           None \<Rightarrow> (m, totalBytes)
         | Some evicted \<Rightarrow>
             evict_files_over max_files (jm_delete evicted m)
               (totalBytes - bytes_at fileProjectionBytes m evicted))
      else (m, totalBytes))"
  by pat_completeness auto
termination
  by (relation "measure (\<lambda>(n, m, t). length m)") (auto intro!: length_jm_delete dest: first_key_in)

text \<open>
  The loop that gives up contents. \<open>next.set\<close> of a key the map has keeps its place, and every
  round leaves one file fewer with content.
\<close>

definition has_content :: "jsstr \<Rightarrow> files \<Rightarrow> jsstr \<Rightarrow> bool" where
  "has_content path m k \<longleftrightarrow>
     k \<noteq> path \<and> (case jm_get m k of None \<Rightarrow> False | Some f \<Rightarrow> ff_content f \<noteq> None)"

definition oldest_with_content :: "jsstr \<Rightarrow> files \<Rightarrow> (jsstr \<times> file_frame) option" where
  "oldest_with_content path m =
     map_option (\<lambda>k. (k, the (jm_get m k))) (find (has_content path m) (jm_keys m))"

lemma oldest_with_content_Some:
  assumes "oldest_with_content path m = Some (k, f)"
  shows "k \<in> set (jm_keys m)" "jm_get m k = Some f" "k \<noteq> path" "has_content path m k"
  using assms by (auto simp: oldest_with_content_def has_content_def find_Some_iff split: option.splits)

lemma strip_decreases:
  assumes "oldest_with_content path m = Some (k, f)"
  shows "length (filter (has_content path (jm_set k (fileWithoutContent f) m)) (jm_keys (jm_set k (fileWithoutContent f) m)))
    < length (filter (has_content path m) (jm_keys m))"
proof -
  note k = oldest_with_content_Some [OF assms]
  have "has_content path (jm_set k (fileWithoutContent f) m) = (\<lambda>j. has_content path m j \<and> j \<noteq> k)"
    by (auto simp: has_content_def fileWithoutContent_def fun_eq_iff split: option.splits)
  moreover have "jm_keys (jm_set k (fileWithoutContent f) m) = jm_keys m" using k(1) by (simp add: jm_keys_set)
  moreover have "length (filter (\<lambda>j. j \<noteq> k) (filter (has_content path m) (jm_keys m)))
      < length (filter (has_content path m) (jm_keys m))"
    using k by (intro length_filter_less [of k]) auto
  ultimately show ?thesis by (simp add: filter_filter conj_commute)
qed

function strip_contents :: "nat \<Rightarrow> jsstr \<Rightarrow> files \<Rightarrow> int \<Rightarrow> files \<times> int" where
  "strip_contents maxBytes path m totalBytes =
     (if totalBytes > int maxBytes then
        (case oldest_with_content path m of
           None \<Rightarrow> (m, totalBytes)
         | Some (oldest, f) \<Rightarrow>
             let metadata = fileWithoutContent f
             in strip_contents maxBytes path (jm_set oldest metadata m)
                  (totalBytes + (fileProjectionBytes metadata - fileProjectionBytes f)))
      else (m, totalBytes))"
  by pat_completeness auto
termination
  by (relation "measure (\<lambda>(n, path, m, t). length (filter (has_content path m) (jm_keys m)))")
    (simp_all add: strip_decreases)

function evict_file_bytes :: "nat \<Rightarrow> jsstr \<Rightarrow> files \<Rightarrow> int \<Rightarrow> files \<times> int" where
  "evict_file_bytes maxBytes path m totalBytes =
     (if totalBytes > int maxBytes then
        (case oldest_other path m of
           None \<Rightarrow> (m, totalBytes)
         | Some evicted \<Rightarrow>
             evict_file_bytes maxBytes path (jm_delete evicted m)
               (totalBytes - bytes_at fileProjectionBytes m evicted))
      else (m, totalBytes))"
  by pat_completeness auto
termination
  by (relation "measure (\<lambda>(n, k, m, t). length m)") (auto intro!: length_jm_delete dest: oldest_other_in)

declare evict_files_over.simps [simp del] strip_contents.simps [simp del] evict_file_bytes.simps [simp del]

definition retainFileProjection :: "files \<Rightarrow> jsstr \<Rightarrow> file_frame \<Rightarrow> caps \<Rightarrow> files" where
  "retainFileProjection fs path f options =
     (let totalBytes = sum_list (map fileProjectionBytes (jm_values fs));
          totalBytes = totalBytes - bytes_at fileProjectionBytes fs path;
          next = jm_delete path fs;
          perFileLimit = min (maxFileBytes options) (maxFilesBytes options);
          retained = trimFileProjection f perFileLimit;
          retainedBytes = fileProjectionBytes retained;
          (next, totalBytes) =
            (if retainedBytes \<le> int perFileLimit
             then (jm_set path retained next, totalBytes + retainedBytes) else (next, totalBytes));
          (next, totalBytes) = evict_files_over (maxFiles options) next totalBytes;
          (next, totalBytes) = strip_contents (maxFilesBytes options) path next totalBytes;
          (next, totalBytes) =
            (case jm_get next path of
               None \<Rightarrow> (next, totalBytes)
             | Some current \<Rightarrow>
                 if totalBytes > int (maxFilesBytes options) then
                   let otherBytes = totalBytes - fileProjectionBytes current;
                       trimmed = trimFileProjection current (nat (int (maxFilesBytes options) - otherBytes))
                   in (jm_set path trimmed next,
                       totalBytes + (fileProjectionBytes trimmed - fileProjectionBytes current))
                 else (next, totalBytes));
          (next, totalBytes) = evict_file_bytes (maxFilesBytes options) path next totalBytes
      in if totalBytes > int (maxFilesBytes options) then jm_delete path next else next)"

subsection \<open>Restored sessions\<close>

definition retainRestoredSessionResources :: "session_projection \<Rightarrow> caps \<Rightarrow> session_projection" where
  "retainRestoredSessionResources session options =
     session\<lparr>sp_terminals := fold (\<lambda>(k, t) m. retainTerminalProjection m k t options OStdout) (sp_terminals session) [],
             sp_files := fold (\<lambda>(k, f) m. retainFileProjection m k f options) (sp_files session) []\<rparr>"

subsection \<open>The cuts keep whole characters\<close>

lemma utf8_points_simps [simp]:
  "utf8_points [] = []" "utf8_points (n # ns) = utf8_one n @ utf8_points ns"
  by (simp_all add: utf8_points_def)

lemma tail_offset_bound: "offset \<le> tail_offset bs offset"
  by (induction bs offset rule: tail_offset.induct) (metis Suc_eq_plus1 Suc_leD order_refl tail_offset.simps)

lemma drop_tail_offset: "drop (tail_offset bs offset) bs = dropWhile is_cont (drop offset bs)"
proof (induction bs offset rule: tail_offset.induct)
  case (1 bs offset)
  show ?case
  proof (cases "offset < length bs")
    case True
    then have "drop offset bs = bs ! offset # drop (offset + 1) bs" by (simp add: Cons_nth_drop_Suc)
    with 1 True show ?thesis by (subst tail_offset.simps) (cases "is_cont (bs ! offset)"; simp)
  next
    case False
    then show ?thesis by (subst tail_offset.simps) simp
  qed
qed

lemma boundary_drop:
  "list_all scalar ns \<Longrightarrow> \<exists>k. dropWhile is_cont (drop offset (utf8_points ns)) = utf8_points (drop k ns)"
proof (induction ns arbitrary: offset)
  case (Cons n ns)
  then have n: "scalar n" and ns: "list_all scalar ns" by simp_all
  obtain b cs where one: "utf8_one n = b # cs" "\<not> is_cont b" "list_all is_cont cs"
    using utf8_one_shape [OF n] by metis
  obtain k where k: "dropWhile is_cont (drop (offset - length (utf8_one n)) (utf8_points ns)) = utf8_points (drop k ns)"
    using Cons.IH [OF ns] by metis
  show ?case
  proof (cases offset)
    case 0
    with one have "dropWhile is_cont (drop offset (utf8_points (n # ns))) = utf8_points (drop 0 (n # ns))" by simp
    then show ?thesis by metis
  next
    case (Suc j)
    have "list_all is_cont (drop j cs)" using one(3) by (meson in_set_dropD list_all_iff)
    then have "dropWhile is_cont (drop offset (utf8_points (n # ns)))
        = dropWhile is_cont (drop (offset - length (utf8_one n)) (utf8_points ns))"
      using one(1) Suc by (simp add: list_all_iff dropWhile_append2)
    also have "\<dots> = utf8_points (drop (Suc k) (n # ns))" using k by simp
    finally show ?thesis by metis
  qed
qed simp

lemma boundary_take:
  "list_all scalar ns \<Longrightarrow> e \<le> length (utf8_points ns) \<Longrightarrow>
   e = length (utf8_points ns) \<or> \<not> is_cont (utf8_points ns ! e) \<or> e = 0 \<Longrightarrow>
   \<exists>k. take e (utf8_points ns) = utf8_points (take k ns)"
proof (induction ns arbitrary: e)
  case (Cons n ns)
  then have n: "scalar n" and ns: "list_all scalar ns" by simp_all
  obtain b cs where one: "utf8_one n = b # cs" "list_all is_cont cs"
    using utf8_one_shape [OF n] by metis
  show ?case
  proof (cases "e < length (utf8_one n)")
    case True
    have "e = 0"
    proof (rule ccontr)
      assume "e \<noteq> 0"
      with True one have "is_cont (utf8_points (n # ns) ! e)"
        by (cases e) (simp_all add: nth_append list_all_length)
      with Cons.prems(3) \<open>e \<noteq> 0\<close> True show False by simp
    qed
    then show ?thesis by (intro exI [of _ 0]) simp
  next
    case False
    have le: "e - length (utf8_one n) \<le> length (utf8_points ns)" using Cons.prems(2) by simp
    have "e - length (utf8_one n) = length (utf8_points ns) \<or>
        \<not> is_cont (utf8_points ns ! (e - length (utf8_one n))) \<or> e - length (utf8_one n) = 0"
      using Cons.prems(2,3) False by (auto simp: nth_append)
    then obtain k where "take (e - length (utf8_one n)) (utf8_points ns) = utf8_points (take k ns)"
      using Cons.IH [OF ns le] by metis
    with False have "take e (utf8_points (n # ns)) = utf8_points (take (Suc k) (n # ns))" by simp
    then show ?thesis by metis
  qed
qed simp

lemma head_end_props: "head_end bs e \<le> e"
  "head_end bs e = 0 \<or> length bs \<le> head_end bs e \<or> \<not> is_cont (bs ! head_end bs e)"
proof (induction bs e rule: head_end.induct)
  case (1 bs e)
  { case 1 show ?case using "1.IH"(1) by (subst head_end.simps) (auto simp: le_diff_conv) }
  { case 2 show ?case using "1.IH"(2) by (cases "0 < e \<and> e < length bs \<and> is_cont (bs ! e)") (auto simp: head_end.simps [of bs e]) }
qed

text \<open>The decoder on whole characters: it drops a leading byte order mark and nothing else.\<close>

definition drop_bom :: "nat list \<Rightarrow> nat list" where
  "drop_bom ns = (if ns \<noteq> [] \<and> hd ns = 0xFEFF then tl ns else ns)"

lemma utf8_one_bom: "scalar n \<Longrightarrow> take 3 (utf8_one n @ bs) = [0xEF, 0xBB, 0xBF] \<Longrightarrow> n = 0xFEFF"
proof -
  assume n: "scalar n" and eq: "take 3 (utf8_one n @ bs) = [0xEF, 0xBB, 0xBF]"
  have "n < 0x110000" using n by (auto simp: scalar_def)
  then have "n div 0x40000 < 5" by (simp add: less_mult_imp_div_less)
  moreover have "hd (utf8_one n @ bs) = 0xEF" using eq by (cases "utf8_one n @ bs") auto
  moreover have "\<not> n < 0x800"
  proof
    assume "n < 0x800"
    then have "n div 0x40 < 0x20" by (simp add: less_mult_imp_div_less)
    with \<open>n < 0x800\<close> \<open>hd (utf8_one n @ bs) = 0xEF\<close> show False by (auto simp: utf8_one_def split: if_splits)
  qed
  ultimately have "n < 0x10000" "0x800 \<le> n" by (auto simp: utf8_one_def split: if_splits)
  with eq have d: "n div 0x1000 = 0xF" "n div 0x40 mod 0x40 = 0x3B" "n mod 0x40 = 0x3F"
    by (auto simp: utf8_one_def numeral_3_eq_3)
  show "n = 0xFEFF" using three_bytes [of n] unfolding d by simp
qed

lemma strip_bom_points: "list_all scalar ns \<Longrightarrow> strip_bom (utf8_points ns) = utf8_points (drop_bom ns)"
proof (cases ns)
  case (Cons n ns')
  assume "list_all scalar ns"
  then have n: "scalar n" using Cons by simp
  show ?thesis
  proof (cases "n = 0xFEFF")
    case True
    then show ?thesis using Cons by (simp add: strip_bom_def drop_bom_def utf8_one_def)
  next
    case False
    then show ?thesis using Cons utf8_one_bom [OF n, of "utf8_points ns'"] by (auto simp: strip_bom_def drop_bom_def)
  qed
qed (simp add: strip_bom_def drop_bom_def)

lemma utf8_decode_points: "list_all scalar ns \<Longrightarrow> utf8_decode (utf8_points ns) = utf16 (drop_bom ns)"
proof -
  assume ns: "list_all scalar ns"
  then have "list_all scalar (drop_bom ns)" by (cases ns) (auto simp: drop_bom_def)
  with ns show ?thesis by (simp add: utf8_decode_def strip_bom_points utf8_dec_points)
qed

lemma utf8Bytes_utf16: "list_all scalar ns \<Longrightarrow> utf8Bytes (utf16 ns) = length (utf8_points ns)"
  by (simp add: utf8Bytes_def utf8_encode_def code_points_utf16)

lemma utf8_decode_points_bytes:
  assumes "list_all scalar ns" shows "utf8Bytes (utf8_decode (utf8_points ns)) \<le> length (utf8_points ns)"
proof -
  have "list_all scalar (drop_bom ns)" using assms by (cases ns) (auto simp: drop_bom_def)
  moreover have "length (utf8_points (drop_bom ns)) \<le> length (utf8_points ns)" by (cases ns) (auto simp: drop_bom_def)
  ultimately show ?thesis using assms by (simp add: utf8_decode_points utf8Bytes_utf16)
qed

lemma list_all_takeI: "list_all P xs \<Longrightarrow> list_all P (take k xs)"
  by (meson in_set_takeD list_all_iff)

lemma list_all_dropI: "list_all P xs \<Longrightarrow> list_all P (drop k xs)"
  by (meson in_set_dropD list_all_iff)

lemma retainedUtf8Tail_shape:
  "retainedUtf8Tail s n = s \<and> utf8Bytes s \<le> n \<or>
   (\<exists>k. retainedUtf8Tail s n = utf16 (drop_bom (drop k (code_points s))) \<and>
        length (utf8_points (drop k (code_points s))) \<le> n)"
proof (cases "length (utf8_encode s) \<le> n")
  case False
  let ?ns = "code_points s" and ?off = "length (utf8_encode s) - n"
  obtain k where k: "drop (tail_offset (utf8_encode s) ?off) (utf8_encode s) = utf8_points (drop k ?ns)"
    using boundary_drop [OF code_points_scalar, of ?off s] by (auto simp: drop_tail_offset utf8_encode_def)
  have "length (drop (tail_offset (utf8_encode s) ?off) (utf8_encode s)) \<le> n"
    using tail_offset_bound [of ?off "utf8_encode s"] by simp
  with False k show ?thesis
    by (auto simp: retainedUtf8Tail_def Let_def utf8_decode_points list_all_dropI code_points_scalar intro!: exI [of _ k])
qed (simp add: retainedUtf8Tail_def utf8Bytes_def)

lemma retainedUtf8Head_shape:
  "retainedUtf8Head s n = s \<and> utf8Bytes s \<le> n \<or>
   (\<exists>k. retainedUtf8Head s n = utf16 (drop_bom (take k (code_points s))) \<and>
        length (utf8_points (take k (code_points s))) \<le> n)"
proof (cases "length (utf8_encode s) \<le> n")
  case False
  let ?ns = "code_points s" and ?e = "head_end (utf8_encode s) (min (length (utf8_encode s)) n)"
  have e: "?e \<le> n" "?e \<le> length (utf8_encode s)"
    using head_end_props(1) [of "utf8_encode s" "min (length (utf8_encode s)) n"] by simp_all
  obtain k where k: "take ?e (utf8_encode s) = utf8_points (take k ?ns)"
    using boundary_take [OF code_points_scalar, of ?e s] e head_end_props(2) [of "utf8_encode s" "min (length (utf8_encode s)) n"]
    by (auto simp: utf8_encode_def)
  have "length (take ?e (utf8_encode s)) \<le> n" using e by simp
  with False k show ?thesis
    by (auto simp: retainedUtf8Head_def Let_def utf8_decode_points list_all_takeI code_points_scalar intro!: exI [of _ k])
qed (simp add: retainedUtf8Head_def utf8Bytes_def)

lemma retainedUtf8Tail_bytes: "utf8Bytes (retainedUtf8Tail s n) \<le> n"
proof -
  have "utf8Bytes (utf16 (drop_bom (drop k (code_points s)))) \<le> length (utf8_points (drop k (code_points s)))" for k
    using utf8_decode_points_bytes [OF list_all_dropI [OF code_points_scalar], of k s]
    by (simp add: utf8_decode_points list_all_dropI code_points_scalar)
  then show ?thesis using retainedUtf8Tail_shape [of s n] by (metis order_trans)
qed

lemma retainedUtf8Head_bytes: "utf8Bytes (retainedUtf8Head s n) \<le> n"
proof -
  have "utf8Bytes (utf16 (drop_bom (take k (code_points s)))) \<le> length (utf8_points (take k (code_points s)))" for k
    using utf8_decode_points_bytes [OF list_all_takeI [OF code_points_scalar], of k s]
    by (simp add: utf8_decode_points list_all_takeI code_points_scalar)
  then show ?thesis using retainedUtf8Head_shape [of s n] by (metis order_trans)
qed

subsection \<open>Byte totals of a map\<close>

definition map_bytes :: "('v \<Rightarrow> int) \<Rightarrow> ('k, 'v) jsmap \<Rightarrow> int" where
  "map_bytes b m = sum_list (map b (jm_values m))"

lemma map_bytes_simps [simp]:
  "map_bytes b [] = 0" "map_bytes b (p # m) = b (snd p) + map_bytes b m"
  "map_bytes b (m @ m') = map_bytes b m + map_bytes b m'"
  by (simp_all add: map_bytes_def jm_values_def)

lemma map_bytes_filter: "map_bytes b m = map_bytes b (filter P m) + map_bytes b (filter (\<lambda>p. \<not> P p) m)"
  by (induction m) auto

lemma filter_fst_key: "jm_wf m \<Longrightarrow> filter (\<lambda>p. fst p = k) m = (case jm_get m k of None \<Rightarrow> [] | Some v \<Rightarrow> [(k, v)])"
proof (induction m)
  case (Cons p m)
  then have "fst p \<notin> fst ` set m" by (simp add: jm_wf_def)
  then have "filter (\<lambda>q. fst q = fst p) m = []" by (metis (mono_tags, lifting) filter_False imageI)
  with Cons show ?case by (cases p) (auto simp: jm_get_Cons jm_wf_def)
qed simp

lemma map_bytes_delete:
  assumes "jm_wf m" shows "map_bytes b (jm_delete k m) = map_bytes b m - bytes_at b m k"
  using map_bytes_filter [of b m "\<lambda>p. fst p = k"] filter_fst_key [OF assms, of k]
  by (simp add: jm_delete_filter bytes_at_def split: option.splits)

lemma map_bytes_set: "map_bytes b (jm_set k v m) = map_bytes b m - bytes_at b m k + b v"
  by (induction m) (auto simp: js_simps bytes_at_def jm_get_Cons)

lemma map_bytes_nonneg: "(\<And>v. 0 \<le> b v) \<Longrightarrow> 0 \<le> map_bytes b m"
  by (induction m) (auto simp: add_nonneg_nonneg)

subsection \<open>The order in which terminals are given up\<close>

text \<open>The other terminals: completed ones first, then open ones, each from the least recent on.\<close>

definition eviction_order :: "jsstr \<Rightarrow> terminals \<Rightarrow> terminals" where
  "eviction_order k m =
     filter (\<lambda>p. fst p \<noteq> k \<and> tp_closed (snd p)) m @ filter (\<lambda>p. fst p \<noteq> k \<and> \<not> tp_closed (snd p)) m"

text \<open>The map without the first \<open>n\<close> of them.\<close>

definition drop_victims :: "jsstr \<Rightarrow> nat \<Rightarrow> terminals \<Rightarrow> terminals" where
  "drop_victims k n m = filter (\<lambda>p. p \<notin> set (take n (eviction_order k m))) m"

text \<open>How many of them have to go for the rest to fit.\<close>

fun needed :: "int \<Rightarrow> int \<Rightarrow> terminals \<Rightarrow> nat" where
  "needed cap t [] = 0"
| "needed cap t (p # ps) =
     (if t > cap then Suc (needed cap (t - terminalProjectionBytes (snd p)) ps) else 0)"

lemma find_hd: "find P xs = (case filter P xs of [] \<Rightarrow> None | x # _ \<Rightarrow> Some x)"
  by (induction xs) auto

lemma find_map: "find P (map f xs) = map_option f (find (P \<circ> f) xs)"
  by (induction xs) auto

lemma set_eviction_order: "set (eviction_order k m) = {p \<in> set m. fst p \<noteq> k}"
  by (auto simp: eviction_order_def)

lemma victim_eq: "victim k m = map_option fst (case eviction_order k m of [] \<Rightarrow> None | p # _ \<Rightarrow> Some p)"
proof (cases "filter (\<lambda>p. fst p \<noteq> k \<and> tp_closed (snd p)) m")
  case Nil
  then have "\<forall>p \<in> set m. fst p \<noteq> k \<longrightarrow> \<not> tp_closed (snd p)" by (auto simp: filter_empty_conv)
  then have "filter (\<lambda>p. fst p \<noteq> k \<and> \<not> tp_closed (snd p)) m = filter (\<lambda>p. fst p \<noteq> k) m"
    by (intro filter_cong) auto
  with Nil show ?thesis
    by (simp add: victim_def completed_other_def oldest_other_def find_hd [of _ m] eviction_order_def
        jm_keys_def find_map comp_def case_prod_unfold)
qed (simp add: victim_def completed_other_def find_hd [of _ m] eviction_order_def case_prod_unfold)

lemma eviction_order_filter: "eviction_order k (filter P m) = filter P (eviction_order k m)"
  by (simp add: eviction_order_def conj_commute conj_left_commute)

lemma distinct_eviction_order: "jm_wf m \<Longrightarrow> distinct (map fst (eviction_order k m))"
proof -
  assume wf: "jm_wf m"
  then have "fst ` set (filter (\<lambda>p. fst p \<noteq> k \<and> tp_closed (snd p)) m)
      \<inter> fst ` set (filter (\<lambda>p. fst p \<noteq> k \<and> \<not> tp_closed (snd p)) m) = {}"
    by (force simp: jm_wf_def dest: eq_key_imp_eq_value)
  with wf show ?thesis
    unfolding eviction_order_def by (simp add: jm_wf_def distinct_map_filter)
qed

lemma length_eviction_order:
  "jm_wf m \<Longrightarrow> length m = length (eviction_order k m) + (if jm_has m k then 1 else 0)"
proof -
  assume wf: "jm_wf m"
  have "length m = length (filter (\<lambda>p. fst p = k) m) + length (filter (\<lambda>p. fst p \<noteq> k) m)"
    by (rule sum_length_filter_compl [symmetric])
  moreover have "length (filter (\<lambda>p. fst p \<noteq> k) m) = length (eviction_order k m)"
    using sum_length_filter_compl [of "\<lambda>p. tp_closed (snd p)" "filter (\<lambda>p. fst p \<noteq> k) m"]
    by (simp add: eviction_order_def conj_commute)
  moreover have "length (filter (\<lambda>p. fst p = k) m) = (if jm_has m k then 1 else 0)"
    using filter_fst_key [OF wf, of k] by (simp add: jm_has_get split: option.splits)
  ultimately show ?thesis by simp
qed

lemma filter_notin_take: "distinct xs \<Longrightarrow> filter (\<lambda>x. x \<notin> set (take n xs)) xs = drop n xs"
proof -
  assume d: "distinct xs"
  have "filter (\<lambda>x. x \<notin> set (take n xs)) (take n xs @ drop n xs) = drop n xs"
    using set_take_disj_set_drop_if_distinct [OF d, of n n] unfolding filter_append
    by (auto simp: filter_id_conv filter_empty_conv)
  then show ?thesis by simp
qed

lemma eviction_order_drop_victims:
  "jm_wf m \<Longrightarrow> eviction_order k (drop_victims k n m) = drop n (eviction_order k m)"
  using distinct_eviction_order [of m k]
  by (simp add: drop_victims_def eviction_order_filter filter_notin_take distinct_map)

lemma drop_victims_add:
  assumes "jm_wf m" shows "drop_victims k j (drop_victims k i m) = drop_victims k (i + j) m"
  unfolding drop_victims_def [of k j] eviction_order_drop_victims [OF assms]
  by (simp add: drop_victims_def take_add conj_commute cong: filter_cong)

lemma jm_wf_drop_victims [wf_intros]: "jm_wf m \<Longrightarrow> jm_wf (drop_victims k n m)"
  by (simp add: drop_victims_def wf_intros)

lemma drop_victims_0 [simp]: "drop_victims k 0 m = m"
  by (simp add: drop_victims_def)

text \<open>One round of either loop.\<close>

lemma delete_victim:
  assumes "jm_wf m" "eviction_order k m = p # ps"
  shows "jm_delete (fst p) m = drop_victims k (Suc 0) m" "bytes_at b m (fst p) = b (snd p)"
    "length (drop_victims k (Suc 0) m) = length m - 1"
proof -
  have p: "p \<in> set m" using assms(2) set_eviction_order [of k m] by auto
  then have get: "jm_get m (fst p) = Some (snd p)" using jm_get_iff_in_set [OF assms(1)] by simp
  then show "bytes_at b m (fst p) = b (snd p)" by (simp add: bytes_at_def)
  have "(fst q \<noteq> fst p) = (q \<noteq> p)" if "q \<in> set m" for q
    using that p assms(1) by (metis jm_get_iff_in_set option.inject prod.collapse)
  then have "filter (\<lambda>q. fst q \<noteq> fst p) m = filter (\<lambda>q. q \<noteq> p) m" by (intro filter_cong) auto
  with assms(2) show eq: "jm_delete (fst p) m = drop_victims k (Suc 0) m"
    by (simp add: drop_victims_def jm_delete_filter)
  have "distinct m" using assms(1) by (simp add: jm_wf_def distinct_map)
  then show "length (drop_victims k (Suc 0) m) = length m - 1"
    using length_filter_neq [of m p] p assms(2) by (simp add: drop_victims_def)
qed

lemma map_bytes_drop_victims_1:
  assumes "jm_wf m" "eviction_order k m = p # ps"
  shows "map_bytes b (drop_victims k (Suc 0) m) = map_bytes b m - b (snd p)"
  using map_bytes_delete [OF assms(1), of b "fst p"] delete_victim [OF assms] by simp

lemma evict_terminals_over_eq:
  "jm_wf m \<Longrightarrow> 0 < n \<Longrightarrow>
   evict_terminals_over n k m (map_bytes terminalProjectionBytes m) =
     (drop_victims k (length m - n) m, map_bytes terminalProjectionBytes (drop_victims k (length m - n) m))"
proof (induction "length m" arbitrary: m rule: less_induct)
  case less
  show ?case
  proof (cases "n < length m")
    case True
    then obtain p ps where order: "eviction_order k m = p # ps"
      using length_eviction_order [OF less.prems(1), of k] less.prems(2)
      by (cases "eviction_order k m") (auto split: if_splits)
    note del = delete_victim [OF less.prems(1) order]
    let ?m = "drop_victims k (Suc 0) m"
    have "evict_terminals_over n k m (map_bytes terminalProjectionBytes m)
        = evict_terminals_over n k ?m (map_bytes terminalProjectionBytes ?m)"
      using True by (subst evict_terminals_over.simps)
        (simp add: victim_eq order del(1,2) map_bytes_drop_victims_1 [OF less.prems(1) order])
    also have "\<dots> = (drop_victims k (length ?m - n) ?m,
        map_bytes terminalProjectionBytes (drop_victims k (length ?m - n) ?m))"
      using True del(3) less.prems by (intro less.hyps) (simp_all add: wf_intros)
    finally show ?thesis
      using True del(3) less.prems(1) by (simp add: drop_victims_add Suc_diff_Suc)
  qed (simp add: evict_terminals_over.simps)
qed

lemma evict_terminal_bytes_eq:
  fixes k
  defines "n \<equiv> \<lambda>cap m. needed cap (map_bytes terminalProjectionBytes m) (eviction_order k m)"
  shows "jm_wf m \<Longrightarrow>
   evict_terminal_bytes cap k m (map_bytes terminalProjectionBytes m) =
     (drop_victims k (n (int cap) m) m, map_bytes terminalProjectionBytes (drop_victims k (n (int cap) m) m))"
proof (induction "length m" arbitrary: m rule: less_induct)
  case less
  let ?b = "map_bytes terminalProjectionBytes"
  show ?case
  proof (cases "int cap < ?b m \<and> eviction_order k m \<noteq> []")
    case True
    then obtain p ps where order: "eviction_order k m = p # ps" by (cases "eviction_order k m") auto
    note del = delete_victim [OF less.prems order]
    have "m \<noteq> []" using order by (auto simp: eviction_order_def)
    let ?m = "drop_victims k (Suc 0) m"
    have "evict_terminal_bytes cap k m (?b m) = evict_terminal_bytes cap k ?m (?b ?m)"
      using True by (subst evict_terminal_bytes.simps)
        (simp add: victim_eq order del(1,2) map_bytes_drop_victims_1 [OF less.prems order])
    also have "\<dots> = (drop_victims k (n (int cap) ?m) ?m, ?b (drop_victims k (n (int cap) ?m) ?m))"
      using \<open>m \<noteq> []\<close> del(3) less.prems by (intro less.hyps) (simp_all add: wf_intros)
    also have "n (int cap) m = Suc (n (int cap) ?m)"
      using True order map_bytes_drop_victims_1 [OF less.prems order]
        eviction_order_drop_victims [OF less.prems, of k "Suc 0"] by (simp add: n_def)
    then have "drop_victims k (n (int cap) ?m) ?m = drop_victims k (n (int cap) m) m"
      using less.prems by (simp add: drop_victims_add)
    finally show ?thesis .
  next
    case False
    then have "n (int cap) m = 0" by (cases "eviction_order k m") (auto simp: n_def)
    moreover have "evict_terminal_bytes cap k m (?b m) = (m, ?b m)"
      using False by (auto simp: evict_terminal_bytes.simps [of cap k m] victim_eq)
    ultimately show ?thesis by simp
  qed
qed

subsection \<open>Terminals: both caps, and what is given up for them\<close>

lemma terminalProjectionBytes_nonneg: "0 \<le> terminalProjectionBytes t"
  by (simp add: terminalProjectionBytes_def)

lemma trimTerminalProjection_bytes:
  "utf8Bytes (tp_terminalId t) \<le> n \<Longrightarrow> terminalProjectionBytes (trimTerminalProjection t n st) \<le> int n"
proof -
  assume id: "utf8Bytes (tp_terminalId t) \<le> n"
  let ?o = "n - utf8Bytes (tp_terminalId t)"
  have two: "int (utf8Bytes (retainedUtf8Tail a ?o)) +
      int (utf8Bytes (retainedUtf8Tail c (?o - utf8Bytes (retainedUtf8Tail a ?o)))) \<le> int ?o" for a c
    using retainedUtf8Tail_bytes [of a ?o] retainedUtf8Tail_bytes [of c "?o - utf8Bytes (retainedUtf8Tail a ?o)"] by linarith
  show ?thesis
    using two [of "tp_stdout t" "tp_stderr t"] two [of "tp_stderr t" "tp_stdout t"] id
    by (cases st) (auto simp: trimTerminalProjection_def terminalProjectionBytes_def Let_def)
qed

text \<open>The trimmed terminal fits exactly when its identifier does.\<close>

lemma trimTerminalProjection_fits_iff:
  "terminalProjectionBytes (trimTerminalProjection t n st) \<le> int n \<longleftrightarrow> utf8Bytes (tp_terminalId t) \<le> n"
proof -
  have "tp_terminalId (trimTerminalProjection t n st) = tp_terminalId t"
    by (cases st) (auto simp: trimTerminalProjection_def Let_def)
  then have "int (utf8Bytes (tp_terminalId t)) \<le> terminalProjectionBytes (trimTerminalProjection t n st)"
    by (simp add: terminalProjectionBytes_def)
  then show ?thesis using trimTerminalProjection_bytes [of t n st] by linarith
qed

lemma needed_le: "needed cap t ps \<le> length ps"
  by (induction ps arbitrary: t) auto

lemma needed_minimal:
  "n < needed cap t ps \<Longrightarrow> cap < t - map_bytes terminalProjectionBytes (take n ps)"
proof (induction ps arbitrary: t n)
  case (Cons p ps)
  then show ?case by (cases n) (force split: if_splits)+
qed simp

lemma needed_enough:
  "needed cap t ps = length ps \<or> t - map_bytes terminalProjectionBytes (take (needed cap t ps) ps) \<le> cap"
proof (induction ps arbitrary: t)
  case (Cons p ps)
  show ?case using Cons.IH [of "t - terminalProjectionBytes (snd p)"] by (auto simp: algebra_simps)
qed simp

lemma map_bytes_drop_victims:
  "jm_wf m \<Longrightarrow> n \<le> length (eviction_order k m) \<Longrightarrow>
   map_bytes terminalProjectionBytes (drop_victims k n m) =
     map_bytes terminalProjectionBytes m - map_bytes terminalProjectionBytes (take n (eviction_order k m))"
proof (induction n arbitrary: m)
  case (Suc n)
  then obtain p ps where order: "eviction_order k m = p # ps" by (cases "eviction_order k m") auto
  let ?m = "drop_victims k (Suc 0) m"
  have ps: "eviction_order k ?m = ps"
    using eviction_order_drop_victims [OF Suc.prems(1), of k "Suc 0"] order by simp
  have "drop_victims k (Suc n) m = drop_victims k n ?m" using Suc.prems(1) by (simp add: drop_victims_add)
  moreover have "map_bytes terminalProjectionBytes (drop_victims k n ?m) =
      map_bytes terminalProjectionBytes ?m - map_bytes terminalProjectionBytes (take n ps)"
    using Suc.IH [of ?m] Suc.prems order ps by (simp add: wf_intros)
  ultimately show ?case using map_bytes_drop_victims_1 [OF Suc.prems(1) order] order by simp
qed simp

lemma length_drop_victims:
  "jm_wf m \<Longrightarrow> n \<le> length (eviction_order k m) \<Longrightarrow> length (drop_victims k n m) = length m - n"
proof (induction n arbitrary: m)
  case (Suc n)
  then obtain p ps where order: "eviction_order k m = p # ps" by (cases "eviction_order k m") auto
  let ?m = "drop_victims k (Suc 0) m"
  have "eviction_order k ?m = ps"
    using eviction_order_drop_victims [OF Suc.prems(1), of k "Suc 0"] order by simp
  then have "length (drop_victims k n ?m) = length ?m - n"
    using Suc.IH [of ?m] Suc.prems order by (simp add: wf_intros)
  then show ?case
    using Suc.prems(1) delete_victim(3) [OF Suc.prems(1) order] by (simp add: drop_victims_add)
qed simp

lemma needed_exhausted:
  assumes "jm_wf m" "n = length (eviction_order k m)"
  shows "map_bytes b (drop_victims k n m) = bytes_at b m k"
proof -
  have "drop_victims k n m = filter (\<lambda>p. fst p = k) m"
    using assms(2) set_eviction_order [of k m] by (auto simp: drop_victims_def intro!: filter_cong)
  then show ?thesis using filter_fst_key [OF assms(1), of k] by (simp add: bytes_at_def split: option.splits)
qed

lemma jm_get_drop_victims: "jm_get (drop_victims k n m) k = jm_get m k"
proof -
  have "filter (\<lambda>p. p \<notin> set (take n (eviction_order k m))) m = m' \<Longrightarrow> map_of m' k = map_of m k" for m'
  proof -
    have "fst p \<noteq> k" if "p \<in> set (take n (eviction_order k m))" for p
      using in_set_takeD [OF that] by (simp add: set_eviction_order)
    then have "map_of (filter (\<lambda>p. p \<notin> set (take n (eviction_order k m))) l) k = map_of l k" for l
      by (induction l) auto
    then show "filter (\<lambda>p. p \<notin> set (take n (eviction_order k m))) m = m' \<Longrightarrow> map_of m' k = map_of m k" by blast
  qed
  then show ?thesis by (simp add: jm_get_def drop_victims_def)
qed

text \<open>The map before the loops: the others, then the current terminal if its identifier fits.\<close>

definition terminal_entry :: "jsstr \<Rightarrow> terminal_projection \<Rightarrow> caps \<Rightarrow> output_stream \<Rightarrow> terminals" where
  "terminal_entry k t options st =
     (let limit = min (maxTerminalBytesPerTerminal options) (maxTerminalBytes options) in
      if utf8Bytes (tp_terminalId t) \<le> limit then [(k, trimTerminalProjection t limit st)] else [])"

lemma jm_set_deleted: "jm_set k v (jm_delete k m) = jm_delete k m @ [(k, v)]"
  by (simp add: jm_set_notin jm_keys_delete)

definition terminals_touched :: "terminals \<Rightarrow> jsstr \<Rightarrow> terminal_projection \<Rightarrow> caps \<Rightarrow> output_stream \<Rightarrow> terminals" where
  "terminals_touched terms k t options st = jm_delete k terms @ terminal_entry k t options st"

lemma terminals_touched_wf: "jm_wf terms \<Longrightarrow> jm_wf (terminals_touched terms k t options st)"
  by (auto simp: terminals_touched_def terminal_entry_def Let_def jm_delete_filter jm_wf_def distinct_map_filter)

lemma eviction_order_touched: "eviction_order k (terminals_touched terms k t options st) = eviction_order k terms"
  by (simp add: terminals_touched_def terminal_entry_def Let_def jm_delete_filter eviction_order_def)

lemma jm_get_append: "jm_get (m @ m') k = (case jm_get m k of None \<Rightarrow> jm_get m' k | Some v \<Rightarrow> Some v)"
  by (simp add: jm_get_def map_add_def split: option.splits)

lemma terminal_entry_get:
  "jm_get (terminals_touched terms k t options st) k = jm_get (terminal_entry k t options st) k"
  by (simp add: terminals_touched_def jm_get_append)

lemma terminal_entry_bytes:
  "bytes_at terminalProjectionBytes (terminals_touched terms k t options st) k \<le> int (maxTerminalBytes options)"
  using trimTerminalProjection_bytes [of t "min (maxTerminalBytesPerTerminal options) (maxTerminalBytes options)" st]
  by (auto simp: bytes_at_def terminal_entry_get terminal_entry_def Let_def jm_get_Cons)

text \<open>The number of other terminals the call gives up.\<close>

definition terminals_given_up :: "terminals \<Rightarrow> jsstr \<Rightarrow> caps \<Rightarrow> nat" where
  "terminals_given_up m k options =
     (let i = length m - maxTerminals options; m' = drop_victims k i m
      in i + needed (int (maxTerminalBytes options)) (map_bytes terminalProjectionBytes m') (eviction_order k m'))"

lemma given_up_props:
  assumes wf: "jm_wf m" and pos: "0 < maxTerminals options"
    and cur: "bytes_at terminalProjectionBytes m k \<le> int (maxTerminalBytes options)"
  defines "n \<equiv> terminals_given_up m k options"
  shows "n \<le> length (eviction_order k m)"
    "length (drop_victims k n m) \<le> maxTerminals options"
    "map_bytes terminalProjectionBytes (drop_victims k n m) \<le> int (maxTerminalBytes options)"
    "j < n \<Longrightarrow> maxTerminals options < length (drop_victims k j m) \<or>
      int (maxTerminalBytes options) < map_bytes terminalProjectionBytes (drop_victims k j m)"
proof -
  let ?b = "map_bytes terminalProjectionBytes" and ?cap = "int (maxTerminalBytes options)"
  define i where "i = length m - maxTerminals options"
  define m' where "m' = drop_victims k i m"
  define l where "l = needed ?cap (?b m') (eviction_order k m')"
  have n: "n = i + l" by (simp add: n_def terminals_given_up_def Let_def i_def m'_def l_def)
  have i: "i \<le> length (eviction_order k m)"
    using length_eviction_order [OF wf, of k] pos by (auto simp: i_def split: if_splits)
  have wf': "jm_wf m'" by (simp add: m'_def wf wf_intros)
  have order': "eviction_order k m' = drop i (eviction_order k m)"
    by (simp add: m'_def eviction_order_drop_victims wf)
  have l: "l \<le> length (eviction_order k m')" by (simp add: l_def needed_le)
  then show n_le: "n \<le> length (eviction_order k m)" using i order' n by simp
  have split: "drop_victims k n m = drop_victims k l m'" by (simp add: n m'_def drop_victims_add wf)
  show "length (drop_victims k n m) \<le> maxTerminals options"
    using length_drop_victims [OF wf n_le] n by (simp add: i_def)
  show "?b (drop_victims k n m) \<le> ?cap"
  proof (cases "l = length (eviction_order k m')")
    case True
    have "?b (drop_victims k l m') = bytes_at terminalProjectionBytes m' k" by (rule needed_exhausted [OF wf' True])
    also have "\<dots> = bytes_at terminalProjectionBytes m k" by (simp add: bytes_at_def m'_def jm_get_drop_victims)
    finally show ?thesis using cur split by simp
  next
    case False
    then have "?b m' - ?b (take l (eviction_order k m')) \<le> ?cap"
      using needed_enough [of ?cap "?b m'" "eviction_order k m'"] by (simp add: l_def)
    then show ?thesis using map_bytes_drop_victims [OF wf' l] split by simp
  qed
  show "maxTerminals options < length (drop_victims k j m) \<or> ?cap < ?b (drop_victims k j m)" if j: "j < n"
  proof (cases "j < i")
    case True
    then have "maxTerminals options < length m - j" unfolding i_def by linarith
    then show ?thesis using length_drop_victims [OF wf, of j k] i True by simp
  next
    case False
    then have jl: "j - i < l" using j n by linarith
    have "drop_victims k j m = drop_victims k (j - i) m'" using False by (simp add: m'_def drop_victims_add wf)
    moreover have "?b (drop_victims k (j - i) m') = ?b m' - ?b (take (j - i) (eviction_order k m'))"
      using jl l by (intro map_bytes_drop_victims wf') simp
    ultimately show ?thesis using needed_minimal [of "j - i" ?cap "?b m'" "eviction_order k m'"] jl
      by (simp add: l_def)
  qed
qed

lemma retainTerminalProjection_eq:
  fixes terms k t options st
  assumes wf: "jm_wf terms" and pos: "0 < maxTerminals options"
  defines "m \<equiv> terminals_touched terms k t options st"
  shows "retainTerminalProjection terms k t options st = drop_victims k (terminals_given_up m k options) m"
proof -
  let ?b = "map_bytes terminalProjectionBytes" and ?cap = "maxTerminalBytes options"
  let ?limit = "min (maxTerminalBytesPerTerminal options) ?cap"
  let ?ret = "trimTerminalProjection t ?limit st"
  have mwf: "jm_wf m" by (simp add: m_def terminals_touched_wf wf)
  have start: "(if terminalProjectionBytes ?ret \<le> int ?limit
      then (jm_set k ?ret (jm_delete k terms), ?b terms - bytes_at terminalProjectionBytes terms k + terminalProjectionBytes ?ret)
      else (jm_delete k terms, ?b terms - bytes_at terminalProjectionBytes terms k)) = (m, ?b m)"
    unfolding trimTerminalProjection_fits_iff
    using map_bytes_delete [OF wf, of terminalProjectionBytes k]
    by (simp add: m_def terminals_touched_def terminal_entry_def Let_def jm_set_deleted)
  define i where "i = length m - maxTerminals options"
  define m' where "m' = drop_victims k i m"
  define r where "r = drop_victims k (needed (int ?cap) (?b m') (eviction_order k m')) m'"
  have r: "r = drop_victims k (terminals_given_up m k options) m"
    by (simp add: r_def terminals_given_up_def Let_def i_def m'_def drop_victims_add mwf)
  have cap: "?b r \<le> int ?cap"
    unfolding r by (rule given_up_props(3) [OF mwf pos]) (simp add: m_def terminal_entry_bytes)
  have "evict_terminals_over (maxTerminals options) k m (?b m) = (m', ?b m')"
    by (simp add: evict_terminals_over_eq [OF mwf pos] m'_def i_def)
  moreover have "evict_terminal_bytes ?cap k m' (?b m') = (r, ?b r)"
    using evict_terminal_bytes_eq [of m' ?cap k] mwf by (simp add: m'_def r_def wf_intros)
  ultimately have "retainTerminalProjection terms k t options st = r"
    unfolding retainTerminalProjection_def Let_def map_bytes_def [symmetric] start prod.case
    using cap by (simp split: option.splits)
  then show ?thesis using r by simp
qed

text \<open>
  C22: After every update of a terminal, the session keeps at most the configured number of
  terminals and at most the configured number of bytes of terminal output. The updated terminal,
  cut to the budget of one terminal, is kept whenever its identifier fits that budget. For the
  others the eviction order is completed terminals first, then open ones, each from the least
  recent on; exactly the shortest prefix of that order is given up for which both caps hold, and
  the rest stay as they are, in order.
\<close>

theorem terminals_within_caps:
  fixes terms k t options st
  assumes "jm_wf terms" "0 < maxTerminals options"
  defines "r \<equiv> retainTerminalProjection terms k t options st"
    and "limit \<equiv> min (maxTerminalBytesPerTerminal options) (maxTerminalBytes options)"
    and "m \<equiv> terminals_touched terms k t options st"
  shows "jm_wf r \<and> length r \<le> maxTerminals options \<and>
    map_bytes terminalProjectionBytes r \<le> int (maxTerminalBytes options) \<and>
    jm_get r k = (if utf8Bytes (tp_terminalId t) \<le> limit then Some (trimTerminalProjection t limit st) else None) \<and>
    (\<exists>n. r = drop_victims k n m \<and> eviction_order k r = drop n (eviction_order k terms) \<and>
       (\<forall>j. j < n \<longrightarrow> maxTerminals options < length (drop_victims k j m) \<or>
          int (maxTerminalBytes options) < map_bytes terminalProjectionBytes (drop_victims k j m)))"
proof -
  have mwf: "jm_wf m" unfolding m_def by (rule terminals_touched_wf) fact
  let ?n = "terminals_given_up m k options"
  have r: "r = drop_victims k ?n m" unfolding r_def m_def by (rule retainTerminalProjection_eq) fact+
  have cur: "bytes_at terminalProjectionBytes m k \<le> int (maxTerminalBytes options)"
    by (simp add: m_def terminal_entry_bytes)
  note props = given_up_props [OF mwf assms(2) cur]
  have "jm_wf r" by (simp add: r mwf wf_intros)
  moreover have "eviction_order k r = drop ?n (eviction_order k terms)"
    unfolding r eviction_order_drop_victims [OF mwf] by (simp add: m_def eviction_order_touched)
  moreover have "jm_get r k = (if utf8Bytes (tp_terminalId t) \<le> limit then Some (trimTerminalProjection t limit st) else None)"
    unfolding r jm_get_drop_victims by (simp add: m_def terminal_entry_get terminal_entry_def Let_def limit_def jm_get_Cons)
  ultimately show ?thesis using props(2,3,4) r by (intro conjI exI [of _ ?n]) simp_all
qed

subsection \<open>Files: both caps, and what is given up for them\<close>

abbreviation "file_bytes \<equiv> map_bytes fileProjectionBytes"

text \<open>What a file that is not the current one may become.\<close>

definition kept_file :: "file_frame \<Rightarrow> file_frame \<Rightarrow> bool" where
  "kept_file old new \<longleftrightarrow> new = old \<or> new = fileWithoutContent old"

definition kept_files :: "jsstr \<Rightarrow> files \<Rightarrow> files \<Rightarrow> bool" where
  "kept_files path m m' \<longleftrightarrow>
     (\<forall>k g. k \<noteq> path \<longrightarrow> jm_get m' k = Some g \<longrightarrow> (\<exists>f. jm_get m k = Some f \<and> kept_file f g))"

lemma kept_files_refl: "kept_files path m m"
  by (simp add: kept_files_def kept_file_def)

lemma kept_file_trans: "kept_file f g \<Longrightarrow> kept_file g h \<Longrightarrow> kept_file f h"
  by (auto simp: kept_file_def fileWithoutContent_def)

lemma kept_files_trans: "kept_files path m m' \<Longrightarrow> kept_files path m' m'' \<Longrightarrow> kept_files path m m''"
  unfolding kept_files_def by (meson kept_file_trans)

lemma fileProjectionBytes_nonneg: "0 \<le> fileProjectionBytes f"
  by (simp add: fileProjectionBytes_def split: option.splits)

lemma trimFileProjection_path [simp]: "ff_path (trimFileProjection f n) = ff_path f"
  by (simp add: trimFileProjection_def split: option.splits)

lemma trimFileProjection_fits_iff:
  "fileProjectionBytes (trimFileProjection f n) \<le> int n \<longleftrightarrow> utf8Bytes (ff_path f) \<le> n"
proof -
  have "int (utf8Bytes (ff_path f)) \<le> fileProjectionBytes (trimFileProjection f n)"
    by (simp add: fileProjectionBytes_def split: option.splits)
  moreover have "fileProjectionBytes (trimFileProjection f n) \<le> int n" if "utf8Bytes (ff_path f) \<le> n"
    using that retainedUtf8Head_bytes [of _ "n - utf8Bytes (ff_path f)"]
    by (auto simp: trimFileProjection_def fileProjectionBytes_def split: option.splits) (smt (verit) of_nat_diff of_nat_mono)
  ultimately show ?thesis by linarith
qed

lemma trimFileProjection_le: "fileProjectionBytes (trimFileProjection f n) \<le> max (fileProjectionBytes f) (int (utf8Bytes (ff_path f)))"
proof (cases "utf8Bytes (ff_path f) \<le> n")
  case True
  then show ?thesis
    using trimFileProjection_fits_iff [of f n] by (cases "fileProjectionBytes f \<le> int n") (auto simp: trimFileProjection_def split: option.splits)
next
  case False
  then have "n - utf8Bytes (ff_path f) = 0" by simp
  then show ?thesis using retainedUtf8Head_bytes [of _ 0]
    by (auto simp: trimFileProjection_def fileProjectionBytes_def split: option.splits)
qed

lemma evict_files_over_eq:
  "jm_wf m \<Longrightarrow> evict_files_over n m (file_bytes m) = (drop (length m - n) m, file_bytes (drop (length m - n) m))"
proof (induction m)
  case Nil
  then show ?case by (simp add: evict_files_over.simps)
next
  case (Cons p m)
  then have wf: "jm_wf m" by (simp add: jm_wf_def)
  show ?case
  proof (cases "n < length (p # m)")
    case True
    have "jm_delete (fst p) (p # m) = m" by (rule jm_delete_hd [OF Cons.prems])
    moreover have "bytes_at fileProjectionBytes (p # m) (fst p) = fileProjectionBytes (snd p)"
      by (cases p) (simp add: bytes_at_def jm_get_Cons)
    ultimately have "evict_files_over n (p # m) (file_bytes (p # m)) = evict_files_over n m (file_bytes m)"
      using True by (subst evict_files_over.simps) (simp add: first_key_def)
    with Cons.IH [OF wf] True show ?thesis by (simp add: Suc_diff_le)
  qed (simp add: evict_files_over.simps)
qed

lemma strip_contents_props:
  assumes "jm_wf m" "strip_contents cap path m (file_bytes m) = (m', t)"
  shows "jm_wf m' \<and> t = file_bytes m' \<and> jm_keys m' = jm_keys m \<and> jm_get m' path = jm_get m path \<and> kept_files path m m'"
  using assms
proof (induction cap path m "file_bytes m" rule: strip_contents.induct)
  case (1 cap path m)
  show ?case
  proof (cases "int cap < file_bytes m \<and> oldest_with_content path m \<noteq> None")
    case True
    then obtain k f where kf: "oldest_with_content path m = Some (k, f)" by auto
    note k = oldest_with_content_Some [OF kf]
    let ?m = "jm_set k (fileWithoutContent f) m"
    have bytes: "file_bytes ?m = file_bytes m + (fileProjectionBytes (fileWithoutContent f) - fileProjectionBytes f)"
      using k(2) by (simp add: map_bytes_set bytes_at_def)
    have "strip_contents cap path ?m (file_bytes ?m) = (m', t)"
      using "1.prems"(2) True kf unfolding bytes by (subst (asm) strip_contents.simps) (simp add: Let_def)
    then have IH: "jm_wf m' \<and> t = file_bytes m' \<and> jm_keys m' = jm_keys ?m \<and> jm_get m' path = jm_get ?m path \<and> kept_files path ?m m'"
      using "1.hyps" [OF _ kf refl refl] True "1.prems"(1) bytes by (simp add: wf_intros)
    have "kept_files path m ?m" using k(2) by (auto simp: kept_files_def kept_file_def)
    with IH have "kept_files path m m'" using kept_files_trans by metis
    with IH k(1,3) show ?thesis by (simp add: jm_keys_set)
  next
    case False
    then have "strip_contents cap path m (file_bytes m) = (m, file_bytes m)"
      by (subst strip_contents.simps) (auto split: option.splits)
    with "1.prems" show ?thesis by (auto simp: kept_files_refl)
  qed
qed

lemma kept_files_delete: "jm_wf m \<Longrightarrow> kept_files path m (jm_delete k m)"
  by (auto simp: kept_files_def kept_file_def split: if_splits)

lemma evict_file_bytes_props:
  assumes "jm_wf m" "evict_file_bytes cap path m (file_bytes m) = (m', t)"
  shows "jm_wf m' \<and> t = file_bytes m' \<and> length m' \<le> length m \<and> jm_get m' path = jm_get m path \<and> kept_files path m m' \<and>
    (t \<le> int cap \<or> t = bytes_at fileProjectionBytes m path)"
  using assms
proof (induction cap path m "file_bytes m" rule: evict_file_bytes.induct)
  case (1 cap path m)
  consider k where "int cap < file_bytes m" "oldest_other path m = Some k"
    | "file_bytes m \<le> int cap" | "oldest_other path m = None" by fastforce
  then show ?case
  proof cases
    case 1
    let ?m = "jm_delete k m"
    have bytes: "file_bytes ?m = file_bytes m - bytes_at fileProjectionBytes m k"
      by (rule map_bytes_delete [OF "1.prems"(1)])
    have "evict_file_bytes cap path ?m (file_bytes ?m) = (m', t)"
      using "1.prems"(2) 1 unfolding bytes by (subst (asm) evict_file_bytes.simps) simp
    then have IH: "jm_wf m' \<and> t = file_bytes m' \<and> length m' \<le> length ?m \<and> jm_get m' path = jm_get ?m path \<and>
        kept_files path ?m m' \<and> (t \<le> int cap \<or> t = bytes_at fileProjectionBytes ?m path)"
      using "1.hyps" [OF 1 bytes [symmetric] jm_wf_delete [OF "1.prems"(1)]] by metis
    moreover have "k \<noteq> path" "length ?m \<le> length m"
      using oldest_other_in [OF 1(2)] length_jm_delete [of k m] by auto
    moreover have "kept_files path m m'"
      using IH kept_files_trans [OF kept_files_delete [OF "1.prems"(1)]] by metis
    ultimately show ?thesis by (auto simp: bytes_at_def)
  next
    case 2
    with "1.prems" show ?thesis by (subst (asm) evict_file_bytes.simps) (auto simp: kept_files_refl)
  next
    case 3
    then have "\<forall>p \<in> set m. fst p = path" by (auto simp: oldest_other_def find_None_iff jm_keys_def)
    then have "filter (\<lambda>p. fst p = path) m = m" by (simp add: filter_id_conv)
    then have "file_bytes m = bytes_at fileProjectionBytes m path"
      using filter_fst_key [OF "1.prems"(1), of path] by (auto simp: bytes_at_def split: option.splits)
    moreover have "evict_file_bytes cap path m (file_bytes m) = (m, file_bytes m)"
      using 3 by (subst evict_file_bytes.simps) simp
    ultimately show ?thesis using "1.prems" by (auto simp: kept_files_refl)
  qed
qed

text \<open>The three steps after the current file has been set.\<close>

lemma evict_step:
  assumes wf: "jm_wf m" and pos: "0 < n" and last: "jm_get m path \<noteq> None \<Longrightarrow> fst (last m) = path"
  defines "m' \<equiv> drop (length m - n) m"
  shows "jm_wf m' \<and> length m' \<le> n \<and> jm_get m' path = jm_get m path \<and> kept_files path m m'"
proof -
  have sub: "jm_get m' k = Some g \<Longrightarrow> jm_get m k = Some g" for k g
    using jm_get_iff_in_set [OF wf, of k g] jm_get_in_set [of m' k g] by (auto simp: m'_def dest: in_set_dropD)
  have "jm_get m' path = jm_get m path"
  proof (cases "jm_get m path")
    case None
    then show ?thesis using sub by (metis not_None_eq)
  next
    case (Some f)
    then have "(path, f) \<in> set m" by (rule jm_get_in_set)
    moreover have ne: "m \<noteq> []" using Some by auto
    ultimately have "last m = (path, f)"
      using last Some wf by (metis jm_get_iff_in_set last_in_set option.distinct(1) option.inject prod.collapse)
    moreover have "length m - n < length m" using ne pos by simp
    then have "last m' = last m" "m' \<noteq> []" by (simp_all add: m'_def)
    ultimately have "(path, f) \<in> set m'" using last_in_set by metis
    then have "jm_get m' path = Some f" using wf by (simp add: m'_def jm_get_iff_in_set jm_wf_drop)
    then show ?thesis using Some by simp
  qed
  moreover have "kept_files path m m'" using sub by (auto simp: kept_files_def kept_file_def)
  ultimately show ?thesis by (simp add: m'_def wf wf_intros)
qed

definition trim_current :: "nat \<Rightarrow> jsstr \<Rightarrow> files \<times> int \<Rightarrow> files \<times> int" where
  "trim_current cap path s =
     (case s of (m, t) \<Rightarrow>
        case jm_get m path of
          None \<Rightarrow> (m, t)
        | Some current \<Rightarrow>
            if t > int cap then
              let trimmed = trimFileProjection current (nat (int cap - (t - fileProjectionBytes current)))
              in (jm_set path trimmed m, t + (fileProjectionBytes trimmed - fileProjectionBytes current))
            else (m, t))"

lemma trimFileProjection_large: "fileProjectionBytes f \<le> int n \<Longrightarrow> trimFileProjection f n = f"
  by (simp add: trimFileProjection_def split: option.splits)

lemma trim_current_props:
  assumes "jm_wf m" "trim_current cap path (m, file_bytes m) = (m', t)"
  shows "jm_wf m' \<and> t = file_bytes m' \<and> length m' = length m \<and> kept_files path m m' \<and>
    (\<exists>n. jm_get m' path = map_option (\<lambda>f. trimFileProjection f n) (jm_get m path))"
proof (cases "jm_get m path")
  case None
  with assms show ?thesis by (auto simp: trim_current_def kept_files_refl)
next
  case (Some f)
  show ?thesis
  proof (cases "file_bytes m > int cap")
    case True
    let ?f = "trimFileProjection f (nat (int cap - (file_bytes m - fileProjectionBytes f)))"
    from assms(2) Some True have m': "m' = jm_set path ?f m" "t = file_bytes m + (fileProjectionBytes ?f - fileProjectionBytes f)"
      by (simp_all add: trim_current_def Let_def)
    have "path \<in> set (jm_keys m)" using Some jm_get_keys [of m path] by simp
    then have "length (jm_keys m') = length (jm_keys m)" by (simp add: m' jm_keys_set)
    moreover have "kept_files path m m'" by (auto simp: m' kept_files_def kept_file_def)
    moreover have "t = file_bytes m'" using Some by (simp add: m' map_bytes_set bytes_at_def)
    ultimately show ?thesis using assms(1) Some by (auto simp: m'(1) wf_intros)
  next
    case False
    with assms Some have "m' = m" "t = file_bytes m" by (auto simp: trim_current_def)
    then show ?thesis using assms(1) Some trimFileProjection_large [of f "nat (fileProjectionBytes f)"]
      by (auto simp: kept_files_refl fileProjectionBytes_nonneg intro!: exI [of _ "nat (fileProjectionBytes f)"])
  qed
qed

lemma retainFileProjection_props:
  fixes fs path f options
  assumes wf: "jm_wf fs" and pos: "0 < maxFiles options"
  defines "r \<equiv> retainFileProjection fs path f options"
    and "limit \<equiv> min (maxFileBytes options) (maxFilesBytes options)"
  shows "jm_wf r" "length r \<le> maxFiles options" "file_bytes r \<le> int (maxFilesBytes options)"
    "\<exists>n. jm_get r path = (if utf8Bytes (ff_path f) \<le> limit then Some (trimFileProjection (trimFileProjection f limit) n) else None)"
    "kept_files path fs r"
proof -
  let ?cap = "maxFilesBytes options" and ?ret = "trimFileProjection f limit"
  define m where "m = jm_delete path fs @ (if utf8Bytes (ff_path f) \<le> limit then [(path, ?ret)] else [])"
  have mwf: "jm_wf m" using wf by (auto simp: m_def jm_delete_filter jm_wf_def distinct_map_filter)
  have start: "(if fileProjectionBytes ?ret \<le> int limit
      then (jm_set path ?ret (jm_delete path fs), file_bytes fs - bytes_at fileProjectionBytes fs path + fileProjectionBytes ?ret)
      else (jm_delete path fs, file_bytes fs - bytes_at fileProjectionBytes fs path)) = (m, file_bytes m)"
    unfolding trimFileProjection_fits_iff using map_bytes_delete [OF wf, of fileProjectionBytes path]
    by (simp add: m_def jm_set_deleted)
  have get_m: "jm_get m k = (if k = path then if utf8Bytes (ff_path f) \<le> limit then Some ?ret else None else jm_get fs k)" for k
    by (simp add: m_def jm_get_append jm_get_Cons split: option.splits)
  have kept_m: "kept_files path fs m" by (auto simp: kept_files_def kept_file_def get_m)
  define m1 where "m1 = drop (length m - maxFiles options) m"
  have s1: "jm_wf m1 \<and> length m1 \<le> maxFiles options \<and> jm_get m1 path = jm_get m path \<and> kept_files path m m1"
    unfolding m1_def by (rule evict_step [OF mwf pos]) (auto simp: get_m m_def split: if_splits)
  obtain m2 t2 where m2: "strip_contents ?cap path m1 (file_bytes m1) = (m2, t2)" by fastforce
  have s2: "jm_wf m2 \<and> t2 = file_bytes m2 \<and> jm_keys m2 = jm_keys m1 \<and> jm_get m2 path = jm_get m1 path \<and> kept_files path m1 m2"
    using strip_contents_props [OF _ m2] s1 by blast
  obtain m3 t3 where m3: "trim_current ?cap path (m2, file_bytes m2) = (m3, t3)" by fastforce
  have s3: "jm_wf m3 \<and> t3 = file_bytes m3 \<and> length m3 = length m2 \<and> kept_files path m2 m3 \<and>
      (\<exists>n. jm_get m3 path = map_option (\<lambda>f. trimFileProjection f n) (jm_get m2 path))"
    using trim_current_props [OF _ m3] s2 by blast
  obtain m4 t4 where m4: "evict_file_bytes ?cap path m3 (file_bytes m3) = (m4, t4)" by fastforce
  have s4: "jm_wf m4 \<and> t4 = file_bytes m4 \<and> length m4 \<le> length m3 \<and> jm_get m4 path = jm_get m3 path \<and> kept_files path m3 m4 \<and>
      (t4 \<le> int ?cap \<or> t4 = bytes_at fileProjectionBytes m3 path)"
    using evict_file_bytes_props [OF _ m4] s3 by blast
  have "length m2 = length m1" using s2 length_jm_keys by metis
  obtain n where "jm_get m3 path = map_option (\<lambda>f. trimFileProjection f n) (jm_get m2 path)" using s3 by blast
  then have n: "jm_get m3 path = (if utf8Bytes (ff_path f) \<le> limit then Some (trimFileProjection ?ret n) else None)"
    using s1 s2 get_m [of path] by simp
  have "bytes_at fileProjectionBytes m3 path \<le> int ?cap"
  proof (cases "utf8Bytes (ff_path f) \<le> limit")
    case True
    then have "fileProjectionBytes ?ret \<le> int limit" by (simp add: trimFileProjection_fits_iff)
    with True have "fileProjectionBytes (trimFileProjection ?ret n) \<le> int limit"
      using trimFileProjection_le [of ?ret n] by simp
    with True n show ?thesis by (simp add: bytes_at_def limit_def)
  qed (simp add: bytes_at_def n)
  with s4 have cap: "t4 \<le> int ?cap" by linarith
  have "retainFileProjection fs path f options =
     (let (next, totalBytes) = evict_file_bytes ?cap path (fst (trim_current ?cap path (strip_contents ?cap path m1 (file_bytes m1))))
              (snd (trim_current ?cap path (strip_contents ?cap path m1 (file_bytes m1))))
      in if totalBytes > int ?cap then jm_delete path next else next)"
    unfolding retainFileProjection_def Let_def map_bytes_def [symmetric] limit_def [symmetric] start prod.case
      evict_files_over_eq [OF mwf] m1_def [symmetric] m2 trim_current_def
    by (simp add: case_prod_unfold)
  then have r: "r = m4" using cap s2 s3 by (simp add: r_def m2 m3 m4 Let_def)
  show "jm_wf r" using s4 r by simp
  show "length r \<le> maxFiles options" using s1 s3 s4 r \<open>length m2 = length m1\<close> by simp
  show "file_bytes r \<le> int ?cap" using s4 cap r by simp
  show "\<exists>n. jm_get r path = (if utf8Bytes (ff_path f) \<le> limit then Some (trimFileProjection (trimFileProjection f limit) n) else None)"
    using n s4 r by auto
  show "kept_files path fs r"
    using kept_m s1 s2 s3 s4 r kept_files_trans by metis
qed

text \<open>
  C23: After every update of a file, the session keeps at most the configured number of files and
  at most the configured number of bytes of paths and contents. The updated file is kept whenever
  its path fits the budget of one file, with its content cut to what fits; every other file that
  stays is as it was or has lost its content and is marked truncated.
\<close>

theorem files_within_caps:
  fixes fs path f options
  assumes "jm_wf fs" "0 < maxFiles options"
  defines "r \<equiv> retainFileProjection fs path f options"
    and "limit \<equiv> min (maxFileBytes options) (maxFilesBytes options)"
  shows "jm_wf r \<and> length r \<le> maxFiles options \<and> map_bytes fileProjectionBytes r \<le> int (maxFilesBytes options) \<and>
    (\<exists>n. jm_get r path =
       (if utf8Bytes (ff_path f) \<le> limit then Some (trimFileProjection (trimFileProjection f limit) n) else None)) \<and>
    (\<forall>k g. k \<noteq> path \<longrightarrow> jm_get r k = Some g \<longrightarrow>
       (\<exists>h. jm_get fs k = Some h \<and> (g = h \<or> g = h\<lparr>ff_content := None, ff_truncated := Some True\<rparr>)))"
  using retainFileProjection_props [OF assms(1,2), of path f]
  unfolding r_def limit_def kept_files_def kept_file_def fileWithoutContent_def by simp

text \<open>
  The cut of a terminal's output keeps at most the given number of bytes, and what it keeps
  are whole characters from the end of the output; the cut of a file's content keeps whole
  characters from its start. Unpaired surrogates count as the replacement character, and a byte
  order mark where the kept part starts is not kept.
\<close>

theorem text_cuts_keep_whole_characters:
  "utf8Bytes (retainedUtf8Tail s n) \<le> n \<and> utf8Bytes (retainedUtf8Head s n) \<le> n \<and>
   (retainedUtf8Tail s n = s \<or> (\<exists>k. retainedUtf8Tail s n = utf16 (drop_bom (drop k (code_points s))))) \<and>
   (retainedUtf8Head s n = s \<or> (\<exists>k. retainedUtf8Head s n = utf16 (drop_bom (take k (code_points s)))))"
  using retainedUtf8Tail_bytes retainedUtf8Head_bytes retainedUtf8Tail_shape [of s n] retainedUtf8Head_shape [of s n]
  by blast

text \<open>A head that is cut is the longest one that fits.\<close>

lemma head_end_max: "b \<le> e \<Longrightarrow> b < length bs \<Longrightarrow> \<not> is_cont (bs ! b) \<Longrightarrow> b \<le> head_end bs e"
proof (induction bs e rule: head_end.induct)
  case (1 bs e)
  show ?case
  proof (cases "0 < e \<and> e < length bs \<and> is_cont (bs ! e)")
    case True
    then have "b \<le> e - 1" using "1.prems" by (cases "b = e") auto
    then show ?thesis using "1.IH" [OF True] "1.prems" True by (simp add: head_end.simps [of bs e])
  qed (use "1.prems" in \<open>auto simp: head_end.simps [of bs e]\<close>)
qed

lemma utf8_points_split: "k < length ns \<Longrightarrow> utf8_points ns = utf8_points (take k ns) @ utf8_one (ns ! k) @ utf8_points (drop (Suc k) ns)"
  unfolding utf8_points_def by (metis append_take_drop_id Cons_nth_drop_Suc concat.simps(2) concat_append list.simps(9) map_append)

lemma retainedUtf8Head_exact:
  assumes "n < utf8Bytes s"
  shows "\<exists>k < length (code_points s). retainedUtf8Head s n = utf16 (drop_bom (take k (code_points s))) \<and>
    length (utf8_points (take k (code_points s))) \<le> n \<and> n < length (utf8_points (take (Suc k) (code_points s)))"
proof -
  let ?ns = "code_points s" and ?bs = "utf8_encode s"
  let ?e = "head_end ?bs n"
  have len: "n < length ?bs" and bs: "?bs = utf8_points ?ns" using assms by (simp_all add: utf8Bytes_def utf8_encode_def)
  have e: "?e \<le> n" using head_end_props(1) .
  obtain k0 where "take ?e ?bs = utf8_points (take k0 ?ns)"
    using boundary_take [OF code_points_scalar, of ?e s] e len head_end_props(2) [of ?bs n] unfolding bs by auto
  then obtain k where k: "take ?e ?bs = utf8_points (take k ?ns)" "k \<le> length ?ns"
    by (intro that [of "min k0 (length ?ns)"]) (simp_all add: min_def)
  have ek: "length (utf8_points (take k ?ns)) = ?e" using k(1) [THEN arg_cong [where f = length]] e len by simp
  have lt: "k < length ?ns"
  proof (rule ccontr)
    assume "\<not> k < length ?ns"
    then show False using ek k(2) e len unfolding bs by simp
  qed
  have one: "\<exists>b cs. utf8_one (?ns ! i) = b # cs \<and> \<not> is_cont b" if "i < length ?ns" for i
    using utf8_one_shape [of "?ns ! i"] code_points_scalar [of s] that by (auto simp: list_all_length)
  have grow: "?e < length (utf8_points (take (Suc k) ?ns))"
    using one [OF lt] lt ek by (auto simp: take_Suc_conv_app_nth utf8_points_def)
  have "n < length (utf8_points (take (Suc k) ?ns))"
  proof (rule ccontr)
    let ?b = "length (utf8_points (take (Suc k) ?ns))"
    assume "\<not> ?thesis"
    then have b: "?b \<le> n" by simp
    have "Suc k < length ?ns"
    proof (rule ccontr)
      assume "\<not> Suc k < length ?ns"
      then show False using b len unfolding bs by simp
    qed
    then have "\<not> is_cont (?bs ! ?b)"
      using one [of "Suc k"] unfolding bs by (subst utf8_points_split [of "Suc k" ?ns]) (auto simp: nth_append)
    then have "?b \<le> ?e" using head_end_max [OF b] b len by simp
    then show False using grow by simp
  qed
  moreover have "retainedUtf8Head s n = utf16 (drop_bom (take k ?ns))"
    using len k(1) by (simp add: retainedUtf8Head_def Let_def min_def utf8_decode_points list_all_takeI code_points_scalar)
  ultimately show ?thesis using lt ek e by (intro exI [of _ k]) simp
qed

text \<open>
  C38: A file content that starts with a byte order mark and has to be cut loses the mark. With a
  budget of at least the three bytes of the mark, what is kept is the longest head of the content
  behind the mark that fits the budget together with the mark; so unless a second mark follows,
  what is kept is empty or does not start as the content does.
\<close>

theorem head_cut_drops_byte_order_mark:
  assumes "n < utf8Bytes (0xFEFF # s)" "3 \<le> n"
  shows "\<exists>k < length (code_points s). retainedUtf8Head (0xFEFF # s) n = utf16 (take k (code_points s)) \<and>
    3 + length (utf8_points (take k (code_points s))) \<le> n \<and> n < 3 + length (utf8_points (take (Suc k) (code_points s))) \<and>
    (hd s \<noteq> 0xFEFF \<longrightarrow> k = 0 \<or> hd (retainedUtf8Head (0xFEFF # s) n) \<noteq> 0xFEFF)"
proof -
  let ?ns = "code_points s"
  have ns: "code_points (0xFEFF # s) = 0xFEFF # ?ns" by (cases s) (simp_all add: is_high_def is_low_def)
  have three: "length (utf8_points (0xFEFF # ms)) = 3 + length (utf8_points ms)" for ms by (simp add: utf8_points_def utf8_one_def)
  obtain k where k: "k < Suc (length ?ns)" "retainedUtf8Head (0xFEFF # s) n = utf16 (drop_bom (take k (0xFEFF # ?ns)))"
    "length (utf8_points (take k (0xFEFF # ?ns))) \<le> n" "n < length (utf8_points (take (Suc k) (0xFEFF # ?ns)))"
    using retainedUtf8Head_exact [OF assms(1)] unfolding ns by auto
  obtain i where i: "k = Suc i" using k(4) assms(2) three [of "[]"] by (cases k) (auto simp: utf8_points_def)
  have kept: "retainedUtf8Head (0xFEFF # s) n = utf16 (take i ?ns)" using k(2) by (simp add: i drop_bom_def)
  have "hd (utf16 (take i ?ns)) \<noteq> 0xFEFF" if "i \<noteq> 0" "hd s \<noteq> 0xFEFF"
  proof -
    obtain c t where s: "s = c # t" using k(1) i by (cases s) auto
    obtain m ms where m: "?ns = m # ms" using k(1) i by (cases ?ns) auto
    have "scalar m" using code_points_scalar [of s] by (simp add: m)
    have "m \<noteq> 0xFEFF"
      using m that(2) unfolding s by (cases t) (auto simp: replacement_def word_unat_eq_iff split: if_splits)
    moreover have "unat (word_of_nat (0xD800 + (m - 0x10000) div 0x400) :: jschar) = 0xD800 + (m - 0x10000) div 0x400"
      using \<open>scalar m\<close> by (subst unat_of_nat) (auto simp: scalar_def)
    moreover have "m < 0x10000 \<Longrightarrow> unat (word_of_nat m :: jschar) = m" by (subst unat_of_nat) simp
    moreover have "(m - 0x10000) div 0x400 < 0x400" using \<open>scalar m\<close> by (auto simp: scalar_def)
    ultimately have "hd (utf16_one m) \<noteq> 0xFEFF" "utf16_one m \<noteq> []"
      by (auto simp: utf16_one_def word_unat_eq_iff simp del: of_nat_add of_nat_numeral)
    then show ?thesis using that(1) by (cases i) (simp_all add: m utf16_def)
  qed
  then show ?thesis using k kept by (intro exI [of _ i]) (auto simp: i utf8_one_def)
qed

theorem head_cut_drops_byte_order_mark_witness:
  "\<exists>k < length (code_points [0x61, 0x62]). retainedUtf8Head [0xFEFF, 0x61, 0x62] 4 = utf16 (take k (code_points [0x61, 0x62])) \<and>
    3 + length (utf8_points (take k (code_points [0x61, 0x62]))) \<le> 4"
proof -
  have h: "4 < utf8Bytes [0xFEFF, 0x61, 0x62]" "(3 :: nat) \<le> 4"
    by (simp_all add: utf8Bytes_def utf8_encode_def utf8_points_def utf8_one_def is_high_def is_low_def)
  show ?thesis using head_cut_drops_byte_order_mark [OF h] by blast
qed

lemma restored_terminals:
  "0 < maxTerminals options \<Longrightarrow> jm_wf m \<Longrightarrow> length m \<le> maxTerminals options \<Longrightarrow>
   map_bytes terminalProjectionBytes m \<le> int (maxTerminalBytes options) \<Longrightarrow>
   (let r = fold (\<lambda>(k, t) m. retainTerminalProjection m k t options OStdout) es m
    in jm_wf r \<and> length r \<le> maxTerminals options \<and> map_bytes terminalProjectionBytes r \<le> int (maxTerminalBytes options))"
proof (induction es arbitrary: m)
  case (Cons e es)
  obtain k t where e: "e = (k, t)" by fastforce
  let ?m = "terminals_touched m k t options OStdout"
  have wf: "jm_wf ?m" by (rule terminals_touched_wf) fact
  have eq: "retainTerminalProjection m k t options OStdout = drop_victims k (terminals_given_up ?m k options) ?m"
    by (rule retainTerminalProjection_eq) fact+
  note props = given_up_props(2,3) [OF wf Cons.prems(1) terminal_entry_bytes]
  show ?case using Cons.IH [OF Cons.prems(1) jm_wf_drop_victims [OF wf] props] by (simp add: e eq)
qed simp

lemma restored_files:
  "0 < maxFiles options \<Longrightarrow> jm_wf m \<Longrightarrow> length m \<le> maxFiles options \<Longrightarrow>
   file_bytes m \<le> int (maxFilesBytes options) \<Longrightarrow>
   (let r = fold (\<lambda>(k, f) m. retainFileProjection m k f options) es m
    in jm_wf r \<and> length r \<le> maxFiles options \<and> file_bytes r \<le> int (maxFilesBytes options))"
proof (induction es arbitrary: m)
  case (Cons e es)
  obtain k f where e: "e = (k, f)" by fastforce
  note props = retainFileProjection_props(1-3) [OF Cons.prems(2,1), of k f]
  show ?case using Cons.IH [OF Cons.prems(1) props] by (simp add: e)
qed simp

text \<open>
  Whatever terminals and files a restored session brings from the cache, the session the
  projection keeps honours every cap on them.
\<close>

theorem restored_resources_within_caps:
  assumes "0 < maxTerminals options" "0 < maxFiles options"
  shows "let s = retainRestoredSessionResources session options in
    jm_wf (sp_terminals s) \<and> length (sp_terminals s) \<le> maxTerminals options \<and>
    map_bytes terminalProjectionBytes (sp_terminals s) \<le> int (maxTerminalBytes options) \<and>
    jm_wf (sp_files s) \<and> length (sp_files s) \<le> maxFiles options \<and>
    map_bytes fileProjectionBytes (sp_files s) \<le> int (maxFilesBytes options)"
  using restored_terminals [OF assms(1), of "[]" "sp_terminals session"] restored_files [OF assms(2), of "[]" "sp_files session"]
  by (simp add: retainRestoredSessionResources_def Let_def)

subsection \<open>Witnesses\<close>

definition sample_terminal :: "bool \<Rightarrow> terminal_projection" where
  "sample_terminal closed =
     \<lparr>tp_terminalId = js ''t'', tp_stdout = js ''out'', tp_stderr = [], tp_exitCode = None, tp_closed = closed\<rparr>"

definition sample_file :: file_frame where
  "sample_file = \<lparr>ff_hostId = js ''h'', ff_sessionId = js ''s'', ff_path = js ''a'', ff_content = Some (js ''text''), ff_truncated = None\<rparr>"

theorem terminals_within_caps_witness:
  "length (retainTerminalProjection [(js ''a'', sample_terminal False), (js ''b'', sample_terminal True)]
     (js ''t'') (sample_terminal False) (default_options\<lparr>maxTerminals := 2\<rparr>) OStdout) \<le> 2"
  using terminals_within_caps [of "[(js ''a'', sample_terminal False), (js ''b'', sample_terminal True)]"
      "default_options\<lparr>maxTerminals := 2\<rparr>" "js ''t''" "sample_terminal False" OStdout]
  by (simp add: jm_wf_def)

theorem files_within_caps_witness:
  "length (retainFileProjection [(js ''b'', sample_file)] (js ''a'') sample_file (default_options\<lparr>maxFiles := 1\<rparr>)) \<le> 1"
  using files_within_caps [of "[(js ''b'', sample_file)]" "default_options\<lparr>maxFiles := 1\<rparr>" "js ''a''" sample_file]
  by (simp add: jm_wf_def)

theorem restored_resources_within_caps_witness:
  "length (sp_files (retainRestoredSessionResources
     \<lparr>sp_hostId = js ''h'', sp_sessionId = Some (js ''s''), sp_ref = None, sp_entries = [], sp_events = [], sp_agents = [],
      sp_agentTranscripts = [], sp_terminals = [], sp_files = [(js ''a'', sample_file), (js ''b'', sample_file)],
      sp_reviews = [], sp_audit = [], sp_confirmations = [], sp_results = [], sp_previews = [], sp_previewEvents = [],
      sp_revision = None, sp_cursor = None, sp_epoch = None, sp_freshness = Cached, sp_transcriptEventArrivalOrdinal = 0,
      sp_contextMaintenanceEventArrivalOrdinal = 0, sp_gap = None, sp_historyTruncated = False, sp_entryIds = []\<rparr>
     (default_options\<lparr>maxFiles := 1\<rparr>))) \<le> 1"
  using restored_resources_within_caps [of "default_options\<lparr>maxFiles := 1\<rparr>"]
  by (simp add: default_options_def max_retained_terminals_def Let_def)

end
