(* ===== verification/SnapshotLimits.thy ===== *)
theory SnapshotLimits
  imports ResourceRetention WireGuards
begin

text \<open>
  The bounds of a transcript snapshot, from host-service's snapshot-limits.ts: how the host picks
  the newest entries that fit into 1000 entries, 512 KiB and 16000 JSON nodes, and puts a notice
  in front that counts what was left out. SHA-256 is the parameter \<open>digest\<close>, the hexadecimal
  digest of a text. The last loop of \<open>boundSnapshotEntries\<close> has no exit of its own once nothing is
  left to drop, so it is a partial function: \<open>None\<close> is a run that does not return. \<open>Some (Inl e)\<close>
  is a thrown wire error.
\<close>

definition max_snapshot_entries :: nat where "max_snapshot_entries = 1000"
definition max_snapshot_bytes :: nat where "max_snapshot_bytes = 512 * 1024"
definition max_snapshot_nodes :: nat where "max_snapshot_nodes = 16000"

definition boundUtf8 :: "jsstr \<Rightarrow> nat \<Rightarrow> jsstr" where
  "boundUtf8 s maxBytes =
     (let bytes = utf8_encode s in
      if length bytes \<le> maxBytes then s else utf8_decode (take (head_end bytes maxBytes) bytes))"

fun jsonNodeCount :: "jsval \<Rightarrow> nat" where
  "jsonNodeCount (JArr xs) = 1 + sum_list (map jsonNodeCount xs)"
| "jsonNodeCount (JObj kvs) = 1 + sum_list (map (\<lambda>(k, v). jsonNodeCount v) kvs)"
| "jsonNodeCount _ = 1"

subsection \<open>A fresh entry id\<close>

definition snapshot_candidate :: "jsstr \<Rightarrow> nat \<Rightarrow> jsstr" where
  "snapshot_candidate suffix counter = js ''snapshot-'' @ suffix @ js ''-'' @ nat_str counter"

lemma digit_inject: "m < 10 \<Longrightarrow> n < 10 \<Longrightarrow> (of_nat (48 + m) :: jschar) = of_nat (48 + n) \<Longrightarrow> m = n"
  using unat_of_nat_ascii [of "48 + m"] unat_of_nat_ascii [of "48 + n"] by simp

lemma nat_str_inject: "nat_str m = nat_str n \<Longrightarrow> m = n"
proof (induction m arbitrary: n rule: less_induct)
  case (less m)
  have ne: "nat_str k \<noteq> []" for k by (subst nat_str.simps) simp
  show ?case
  proof (cases "m < 10"; cases "n < 10")
    assume "m < 10" "n < 10"
    then show ?thesis using less.prems digit_inject [of m n] by (simp add: nat_str.simps)
  next
    assume mn: "\<not> m < 10" "\<not> n < 10"
    then have eq: "nat_str (m div 10) @ [of_nat (48 + m mod 10)] = nat_str (n div 10) @ [of_nat (48 + n mod 10)]"
      using less.prems by (simp add: nat_str.simps [of m] nat_str.simps [of n])
    then have "m div 10 = n div 10" using less.IH [of "m div 10" "n div 10"] mn by simp
    moreover have "m mod 10 = n mod 10" using eq digit_inject [of "m mod 10" "n mod 10"] by simp
    ultimately show ?thesis by (metis mult_div_mod_eq)
  next
    assume mn: "m < 10" "\<not> n < 10"
    then show ?thesis using less.prems ne [of "n div 10"] by (simp add: nat_str.simps [of m] nat_str.simps [of n] append_eq_Cons_conv Cons_eq_append_conv)
  next
    assume mn: "\<not> m < 10" "n < 10"
    then show ?thesis using less.prems ne [of "m div 10"] by (simp add: nat_str.simps [of m] nat_str.simps [of n] append_eq_Cons_conv Cons_eq_append_conv)
  qed
qed

lemma snapshot_candidate_inject: "snapshot_candidate sfx m = snapshot_candidate sfx n \<longleftrightarrow> m = n"
  by (auto simp: snapshot_candidate_def dest: nat_str_inject)

text \<open>The used ids a counter from \<open>counter\<close> on can still meet.\<close>

definition taken_from :: "jsstr \<Rightarrow> jsstr list \<Rightarrow> nat \<Rightarrow> jsstr set" where
  "taken_from suffix used counter = set used \<inter> {snapshot_candidate suffix k | k. counter \<le> k}"

lemma taken_from_less:
  assumes "snapshot_candidate sfx c \<in> set used"
  shows "card (taken_from sfx used (c + 1)) < card (taken_from sfx used c)"
proof (rule psubset_card_mono)
  show "finite (taken_from sfx used c)" by (simp add: taken_from_def)
  have "snapshot_candidate sfx c \<in> taken_from sfx used c" using assms by (auto simp: taken_from_def)
  moreover have "snapshot_candidate sfx c \<notin> taken_from sfx used (c + 1)"
    by (auto simp: taken_from_def snapshot_candidate_inject)
  moreover have "taken_from sfx used (c + 1) \<subseteq> taken_from sfx used c" by (force simp: taken_from_def)
  ultimately show "taken_from sfx used (c + 1) \<subset> taken_from sfx used c" by blast
qed

function free_candidate :: "jsstr \<Rightarrow> jsstr list \<Rightarrow> nat \<Rightarrow> jsstr decoded" where
  "free_candidate suffix used counter =
     (case id_guard (JStr (snapshot_candidate suffix counter)) of
        Inl e \<Rightarrow> Inl e
      | Inr candidate \<Rightarrow>
          if candidate \<notin> set used then Inr candidate else free_candidate suffix used (counter + 1))"
  by pat_completeness auto
termination
  by (relation "measure (\<lambda>(suffix, used, counter). card (taken_from suffix used counter))")
     (auto dest!: id_guard_Inr intro: taken_from_less [simplified])

declare free_candidate.simps [simp del]

definition uniqueEntryId :: "(jsstr \<Rightarrow> jsstr) \<Rightarrow> jsstr \<Rightarrow> jsstr list \<Rightarrow> jsstr decoded" where
  "uniqueEntryId digest base used =
     bind_ok (id_guard (JStr (boundUtf8 base 256))) (\<lambda>first.
     if first \<notin> set used then Inr first
     else free_candidate (take 16 (digest base)) used (length (remdups used)))"

subsection \<open>Earlier omissions\<close>

definition omission_prefix :: jsstr where
  "omission_prefix = js ''Older transcript entries were omitted from this snapshot (''"

definition priorOmissionCount :: "durable_entry \<Rightarrow> int" where
  "priorOmissionCount entry =
     (case (get_prop (e_data entry) ''omitted'', get_prop (e_data entry) ''summary'') of
        (JNum (JInt omitted), JStr summary) \<Rightarrow>
          if e_kind entry \<noteq> js ''compaction'' \<or> e_parentId entry \<noteq> None \<or>
             get_prop (e_data entry) ''snapshotOmission'' \<noteq> JBool True \<or>
             \<not> is_safe_integer omitted \<or> omitted < 1 \<or> \<not> starts_with omission_prefix summary
          then 0 else omitted
      | _ \<Rightarrow> 0)"

definition entryBytes :: "durable_entry \<Rightarrow> nat" where
  "entryBytes e = json_bytes (entry_val e)"

definition entryNodes :: "durable_entry \<Rightarrow> nat" where
  "entryNodes e = jsonNodeCount (entry_val e)"

fun payload_loop :: "nat \<Rightarrow> nat \<Rightarrow> nat \<Rightarrow> durable_entry list \<Rightarrow> nat \<times> nat" where
  "payload_loop i bytes nodes [] = (bytes, nodes)"
| "payload_loop i bytes nodes (e # es) =
     payload_loop (i + 1) (bytes + ((if i = 0 then 0 else 1) + entryBytes e)) (nodes + entryNodes e) es"

definition payloadSize :: "durable_entry list \<Rightarrow> nat \<times> nat" where
  "payloadSize entries = payload_loop 0 2 1 entries"

definition omissionNotice ::
  "(jsstr \<Rightarrow> jsstr) \<Rightarrow> durable_entry list \<Rightarrow> jsstr \<Rightarrow> jsstr \<Rightarrow> jsstr \<Rightarrow> int \<Rightarrow> durable_entry decoded" where
  "omissionNotice digest retained host session timestamp omitted =
     bind_ok (uniqueEntryId digest (js ''snapshot-truncation-'' @ session) (map e_id retained)) (\<lambda>i.
     Inr \<lparr>e_id = i, e_parentId = None, e_hostId = host, e_sessionId = session, e_turnId = None,
          e_kind = js ''compaction'', e_timestamp = timestamp,
          e_data = JObj [(js ''summary'', JStr (omission_prefix @ int_str omitted @ js '' entries).'')),
                         (js ''omitted'', JNum (JInt omitted)),
                         (js ''snapshotOmission'', JBool True)]\<rparr>)"

subsection \<open>The bounded snapshot\<close>

text \<open>
  The loop from the newest candidate to the oldest. The code pushes onto a reversed array and
  reverses it afterwards; here the retained entries are kept in their final order.
\<close>

fun retain_newest :: "durable_entry list \<Rightarrow> durable_entry list \<Rightarrow> nat \<Rightarrow> nat \<Rightarrow> durable_entry list" where
  "retain_newest [] retained bytes nodes = retained"
| "retain_newest (e # older) retained bytes nodes =
     (if length retained < max_snapshot_entries then
        let separator = (if retained = [] then 0 else 1) in
        if bytes + separator + entryBytes e > max_snapshot_bytes \<or>
           nodes + entryNodes e > max_snapshot_nodes
        then (if retained = [] then retain_newest older retained bytes nodes else retained)
        else retain_newest older (e # retained) (bytes + (separator + entryBytes e)) (nodes + entryNodes e)
      else retained)"

fun shift_to_cap :: "durable_entry list \<Rightarrow> int \<Rightarrow> durable_entry list \<times> int" where
  "shift_to_cap [] omitted = ([], omitted)"
| "shift_to_cap (e # es) omitted =
     (if length (e # es) \<ge> max_snapshot_entries then shift_to_cap es (omitted + 1) else (e # es, omitted))"

definition first_timestamp :: "durable_entry list \<Rightarrow> jsstr \<Rightarrow> jsstr" where
  "first_timestamp es fallback = (case es of [] \<Rightarrow> fallback | e # _ \<Rightarrow> e_timestamp e)"

definition fits_snapshot :: "nat \<times> nat \<Rightarrow> bool" where
  "fits_snapshot s \<longleftrightarrow> fst s \<le> max_snapshot_bytes \<and> snd s \<le> max_snapshot_nodes"

partial_function (option) shift_to_fit ::
  "(jsstr \<Rightarrow> jsstr) \<Rightarrow> jsstr \<Rightarrow> jsstr \<Rightarrow> jsstr \<Rightarrow> durable_entry list \<Rightarrow> int \<Rightarrow>
   (durable_entry list \<times> int) decoded option" where
  "shift_to_fit digest host session fallback retained omitted =
     (case omissionNotice digest retained host session (first_timestamp retained fallback) omitted of
        Inl e \<Rightarrow> Some (Inl e)
      | Inr notice \<Rightarrow>
          if fits_snapshot (payloadSize (notice # retained)) then Some (Inr (retained, omitted))
          else shift_to_fit digest host session fallback (tl retained) (omitted + 1))"

definition drop_lost_parent :: "jsstr list \<Rightarrow> durable_entry \<Rightarrow> durable_entry" where
  "drop_lost_parent ids e =
     (case e_parentId e of
        None \<Rightarrow> e
      | Some p \<Rightarrow> if p \<noteq> [] \<and> p \<notin> set ids then e\<lparr>e_parentId := None\<rparr> else e)"

definition is_prior_omission :: "durable_entry \<Rightarrow> bool" where
  "is_prior_omission e \<longleftrightarrow> priorOmissionCount e \<noteq> 0"

definition prior_omitted :: "durable_entry list \<Rightarrow> int" where
  "prior_omitted entries = sum_list (map priorOmissionCount entries)"

definition snapshot_candidates :: "durable_entry list \<Rightarrow> durable_entry list" where
  "snapshot_candidates entries = filter (\<lambda>e. \<not> is_prior_omission e) entries"

definition boundSnapshotEntries ::
  "(jsstr \<Rightarrow> jsstr) \<Rightarrow> durable_entry list \<Rightarrow> jsstr \<Rightarrow> jsstr \<Rightarrow> jsstr \<Rightarrow> durable_entry list decoded option" where
  "boundSnapshotEntries digest entries host session fallbackTimestamp =
     (let candidates = snapshot_candidates entries;
          retained = retain_newest (rev candidates) [] 2 1;
          omitted = prior_omitted entries + int (length candidates) - int (length retained) in
      if omitted = 0 then Some (Inr retained)
      else
        let (retained, omitted) = shift_to_cap retained omitted in
        case shift_to_fit digest host session fallbackTimestamp retained omitted of
          None \<Rightarrow> None
        | Some (Inl e) \<Rightarrow> Some (Inl e)
        | Some (Inr (retained, omitted)) \<Rightarrow>
            let rebound = map (drop_lost_parent (map e_id retained)) retained in
            case omissionNotice digest rebound host session (first_timestamp rebound fallbackTimestamp) omitted of
              Inl e \<Rightarrow> Some (Inl e)
            | Inr notice \<Rightarrow> Some (Inr (notice # rebound)))"

subsection \<open>The ids are accepted\<close>

definition plain_text :: "jsstr \<Rightarrow> bool" where
  "plain_text s \<longleftrightarrow> paired s \<and> list_all (\<lambda>c. \<not> is_control c) s"

lemma id_guard_accepts:
  assumes "plain_text s" "s \<noteq> []" "utf8_len s \<le> 256"
  shows "id_guard (JStr s) = Inr s"
  using assms by (simp add: id_guard_def controlFree_Inr max_id_bytes_def plain_text_def utf8ByteLength_paired)

lemma paired_plain: "\<not> is_high c \<Longrightarrow> \<not> is_low c \<Longrightarrow> paired (c # s) = paired s"
  by (cases s) auto

lemma plain_ascii_append:
  "list_all (\<lambda>c. unat c < 0x80 \<and> \<not> is_control c) t \<Longrightarrow> plain_text (t @ s) = plain_text s"
proof (induction t)
  case (Cons c t)
  then have "\<not> is_high c" "\<not> is_low c" using ascii_plain [of c] by simp_all
  with Cons show ?case by (simp add: plain_text_def paired_plain)
qed simp

lemma utf8_len_ascii_append: "list_all (\<lambda>c. unat c < 0x80) t \<Longrightarrow> utf8_len (t @ s) = length t + utf8_len s"
  by (induction t) (simp_all add: utf8_len_ascii_Cons)

lemma boundUtf8_head: "boundUtf8 s n = retainedUtf8Head s n"
  by (simp add: boundUtf8_def retainedUtf8Head_def Let_def min_def)

lemma head_end_ge: "j \<le> e \<Longrightarrow> j < length bs \<Longrightarrow> \<not> is_cont (bs ! j) \<Longrightarrow> j \<le> head_end bs e"
proof (induction bs e rule: head_end.induct)
  case (1 bs e)
  show ?case
  proof (cases "0 < e \<and> e < length bs \<and> is_cont (bs ! e)")
    case True
    then have "j \<noteq> e" using 1 by auto
    then show ?thesis using 1 True by (subst head_end.simps) simp
  next
    case False
    show ?thesis unfolding head_end.simps [of bs e] if_not_P [OF False] by (rule 1)
  qed
qed

lemma utf16_plain:
  "list_all scalar ns \<Longrightarrow> list_all (\<lambda>n. \<not> (n \<le> 0x1F \<or> n = 0x7F)) ns \<Longrightarrow> plain_text (utf16 ns)"
proof (induction ns)
  case (Cons n ns)
  have IH: "plain_text (utf16 ns)" and sc: "scalar n" and ok: "\<not> (n \<le> 0x1F \<or> n = 0x7F)"
    using Cons by simp_all
  have split: "utf16 (n # ns) = utf16_one n @ utf16 ns" by (simp add: utf16_def)
  show ?case
  proof (cases "n < 0x10000")
    case True
    then obtain c where "utf16_one n = [c]" "unat c = n" "\<not> is_high c" "\<not> is_low c"
      using utf16_one_scalar_low [OF sc] by blast
    then show ?thesis using IH ok by (auto simp: split plain_text_def paired_plain is_control_def)
  next
    case False
    then obtain c d where "utf16_one n = [c, d]" "is_high c" "is_low d"
      using utf16_one_scalar_high [OF sc] by auto
    then show ?thesis using IH by (auto simp: split plain_text_def is_control_def is_high_def is_low_def)
  qed
qed (simp add: plain_text_def utf16_def)

lemma code_points_controls:
  "list_all (\<lambda>c. \<not> is_control c) s \<Longrightarrow> list_all (\<lambda>n. \<not> (n \<le> 0x1F \<or> n = 0x7F)) (code_points s)"
  by (induction s rule: code_points.induct) (auto simp: is_control_def replacement_def)

lemma drop_bom_all: "list_all P ns \<Longrightarrow> list_all P (drop_bom ns)"
  by (cases ns) (auto simp: drop_bom_def)

lemma boundUtf8_plain: "plain_text s \<Longrightarrow> plain_text (boundUtf8 s n)"
  using retainedUtf8Head_shape [of s n] unfolding boundUtf8_head
  by (auto simp: plain_text_def [of s]
      intro!: utf16_plain drop_bom_all list_all_takeI code_points_scalar code_points_controls)

lemma utf16_empty: "utf16 ns = [] \<longleftrightarrow> ns = []"
  by (cases ns) (simp_all add: utf16_def utf16_one_def)

lemma boundUtf8_not_empty:
  assumes "list_all (\<lambda>c. unat c < 0x80) t" "length t = 2" "2 \<le> n"
  shows "boundUtf8 (t @ s) n \<noteq> []"
proof -
  from assms(2) obtain a b where t: "t = [a, b]" by (auto simp: length_Suc_conv numeral_2_eq_2)
  then have ab: "unat a < 0x80" "unat b < 0x80" using assms(1) by simp_all
  have cp: "code_points (t @ s) = unat a # unat b # code_points s"
    using ab ascii_plain [of a] ascii_plain [of b] by (simp add: t code_points_plain)
  then have enc: "utf8_encode (t @ s) = unat a # unat b # utf8_encode s"
    using ab by (simp add: utf8_encode_def utf8_one_def)
  show ?thesis
  proof (cases "length (utf8_encode (t @ s)) \<le> n")
    case False
    define e where "e = head_end (utf8_encode (t @ s)) n"
    have "\<not> is_cont (unat b)" using ab(2) by (simp add: is_cont_iff)
    then have e: "1 \<le> e" using head_end_ge [of 1 n "utf8_encode (t @ s)"] assms(3) by (simp add: e_def enc)
    have "e \<le> n" by (simp add: e_def head_end_props)
    have "e = length (utf8_encode (t @ s)) \<or> \<not> is_cont (utf8_encode (t @ s) ! e) \<or> e = 0" "e \<le> length (utf8_encode (t @ s))"
      using head_end_props [of "utf8_encode (t @ s)" n] False \<open>e \<le> n\<close> by (auto simp: e_def)
    then obtain k where k: "take e (utf8_encode (t @ s)) = utf8_points (take k (code_points (t @ s)))"
      using boundary_take [OF code_points_scalar, of e "t @ s"] by (auto simp: utf8_encode_def)
    have "0 < k"
    proof (rule ccontr)
      assume "\<not> 0 < k"
      with k e show False by (simp add: enc take_Cons split: nat.splits)
    qed
    then have "hd (take k (code_points (t @ s))) = unat a" "take k (code_points (t @ s)) \<noteq> []"
      by (simp_all add: cp take_Cons split: nat.splits)
    then have "drop_bom (take k (code_points (t @ s))) \<noteq> []" using ab(1) by (simp add: drop_bom_def)
    then have "utf16 (drop_bom (take k (code_points (t @ s)))) \<noteq> []"
      by (simp add: utf16_empty)
    then show ?thesis using False k
      by (simp add: boundUtf8_def e_def [symmetric] utf8_decode_points list_all_takeI code_points_scalar)
  qed (simp add: boundUtf8_def t)
qed

definition truncation_base :: "jsstr \<Rightarrow> jsstr" where
  "truncation_base session = js ''snapshot-truncation-'' @ session"

lemma truncation_base_accepted:
  assumes "plain_text session"
  shows "id_guard (JStr (boundUtf8 (truncation_base session) 256)) = Inr (boundUtf8 (truncation_base session) 256)"
proof (rule id_guard_accepts)
  have "plain_text (truncation_base session)" using assms
    unfolding truncation_base_def by (subst plain_ascii_append) (simp_all add: js_def is_control_def)
  then show "plain_text (boundUtf8 (truncation_base session) 256)" by (rule boundUtf8_plain)
  show "boundUtf8 (truncation_base session) 256 \<noteq> []"
    using boundUtf8_not_empty [of "js ''sn''" 256 "js ''apshot-truncation-'' @ session"]
    by (simp add: truncation_base_def js_def)
  show "utf8_len (boundUtf8 (truncation_base session) 256) \<le> 256"
    using retainedUtf8Head_bytes [of "truncation_base session" 256] by (simp add: boundUtf8_head utf8Bytes_def utf8_len_def)
qed

text \<open>What is known of SHA-256 here: its hexadecimal digest consists of lower-case digits.\<close>

definition hex_digest :: "(jsstr \<Rightarrow> jsstr) \<Rightarrow> bool" where
  "hex_digest digest \<longleftrightarrow>
     (\<forall>s. length (digest s) = 64 \<and> list_all (\<lambda>c. 48 \<le> unat c \<and> unat c \<le> 57 \<or> 97 \<le> unat c \<and> unat c \<le> 102) (digest s))"

lemma nat_str_digits: "list_all (\<lambda>c. unat c < 0x80 \<and> \<not> is_control c) (nat_str n)"
proof (induction n rule: nat_str.induct)
  case (1 n)
  have "list_all (\<lambda>c. unat c < 0x80 \<and> \<not> is_control c) [of_nat (48 + k mod 10) :: jschar]" for k :: nat
  proof -
    have m: "k mod 10 < 10" by simp
    then have "unat (of_nat (48 + k mod 10) :: jschar) = 48 + k mod 10" by (intro unat_of_nat_ascii) linarith
    then show ?thesis using m unfolding list.pred_inject is_control_def
      by (intro conjI list.pred_inject(1)) linarith+
  qed
  from this [of n] 1 show ?case by (cases "n < 10") (simp_all add: nat_str.simps [of n])
qed

lemma nat_str_length: "n < 10 ^ d \<Longrightarrow> 0 < d \<Longrightarrow> length (nat_str n) \<le> d"
proof (induction n arbitrary: d rule: nat_str.induct)
  case (1 n)
  show ?case
  proof (cases "n < 10")
    case False
    then have "d \<noteq> 1" using 1(2) by auto
    then obtain d' where d: "d = Suc d'" "0 < d'" using 1(3) by (cases d) auto
    then have "n div 10 < 10 ^ d'" using 1(2) by (simp add: less_mult_imp_div_less mult.commute)
    then show ?thesis using 1(1) [OF False] False d by (subst nat_str.simps) simp
  qed (use 1 in \<open>simp add: nat_str.simps\<close>)
qed

lemma candidate_text:
  fixes base :: jsstr
  assumes "hex_digest digest" "counter < 10 ^ 100"
  defines "s \<equiv> snapshot_candidate (take 16 (digest base)) counter"
  shows "plain_text s" "s \<noteq> []" "utf8_len s \<le> 256"
proof -
  let ?s = "snapshot_candidate (take 16 (digest base)) counter"
  have "list_all (\<lambda>c. unat c < 0x80 \<and> \<not> is_control c) (digest base)"
    using assms(1) unfolding hex_digest_def list_all_iff is_control_def by fastforce
  then have ascii: "list_all (\<lambda>c. unat c < 0x80 \<and> \<not> is_control c) ?s"
    by (simp add: snapshot_candidate_def nat_str_digits list_all_takeI) (simp add: js_def is_control_def)
  show "plain_text s" using plain_ascii_append [OF ascii, of "[]"] by (simp add: plain_text_def s_def)
  show "s \<noteq> []" by (simp add: snapshot_candidate_def js_def s_def)
  have "length ?s \<le> 256"
    using nat_str_length [OF assms(2)] by (simp add: snapshot_candidate_def js_def)
  moreover have "utf8_len ?s = length ?s" using ascii by (intro utf8_len_ascii) (auto simp: list_all_iff)
  ultimately show "utf8_len s \<le> 256" by (simp add: s_def)
qed

lemma candidate_accepted:
  assumes "hex_digest digest" "counter < 10 ^ 100"
  shows "id_guard (JStr (snapshot_candidate (take 16 (digest base)) counter)) =
    Inr (snapshot_candidate (take 16 (digest base)) counter)"
  by (intro id_guard_accepts candidate_text assms)

lemma free_candidate_ok:
  assumes "hex_digest digest" "counter + card (taken_from (take 16 (digest base)) used counter) < 10 ^ 100"
  shows "\<exists>i. free_candidate (take 16 (digest base)) used counter = Inr i \<and> i \<notin> set used \<and> utf8_len i \<le> 256"
  using assms(2)
proof (induction "take 16 (digest base)" used counter rule: free_candidate.induct)
  case (1 used counter)
  let ?c = "snapshot_candidate (take 16 (digest base)) counter"
  have acc: "id_guard (JStr ?c) = Inr ?c" using candidate_accepted [OF assms(1)] 1(2) by simp
  show ?case
  proof (cases "?c \<in> set used")
    case True
    then have "counter + 1 + card (taken_from (take 16 (digest base)) used (counter + 1)) < 10 ^ 100"
      using taken_from_less [OF True] 1(2) by simp
    then show ?thesis using 1(1) [OF acc] True acc by (subst free_candidate.simps) simp
  next
    case False
    have "utf8_len ?c \<le> 256" using candidate_text [OF assms(1)] 1(2) by simp
    then show ?thesis using False acc by (subst free_candidate.simps) simp
  qed
qed

lemma uniqueEntryId_ok:
  assumes "hex_digest digest" "plain_text session" "length used < 10 ^ 90"
  shows "\<exists>i. uniqueEntryId digest (truncation_base session) used = Inr i \<and> i \<notin> set used \<and> utf8_len i \<le> 256"
proof -
  let ?first = "boundUtf8 (truncation_base session) 256"
  have "card (taken_from sfx used c) \<le> length used" for sfx c
    by (rule order_trans [OF card_mono card_length]) (auto simp: taken_from_def)
  then have "length (remdups used) + card (taken_from sfx used (length (remdups used))) \<le> length used + length used" for sfx
    by (intro add_mono) simp_all
  moreover have "(10 :: nat) ^ 90 + 10 ^ 90 \<le> 10 ^ 100" by simp
  ultimately have "length (remdups used) + card (taken_from sfx used (length (remdups used))) < 10 ^ 100" for sfx
    using assms(3) by (meson add_strict_mono order_le_less_trans order_less_le_trans)
  note free = free_candidate_ok [OF assms(1) this]
  show ?thesis
  proof (cases "?first \<in> set used")
    case True
    then show ?thesis using free by (simp add: uniqueEntryId_def truncation_base_accepted [OF assms(2)] bind_ok_def)
  next
    case False
    have "utf8_len ?first \<le> 256"
      using retainedUtf8Head_bytes [of "truncation_base session" 256] by (simp add: boundUtf8_head utf8Bytes_def utf8_len_def)
    with False show ?thesis
      by (simp add: uniqueEntryId_def truncation_base_accepted [OF assms(2)] bind_ok_def)
  qed
qed

subsection \<open>Sizes\<close>

lemma utf8_len_json_escape: "utf8_len (json_escape s) \<le> 6 * length s"
proof (induction s rule: json_escape.induct)
  case (2 c)
  then show ?case
    by (auto simp: utf8_len_unicode_escape escape_unit_def utf8_len_ascii_Cons utf8_len_plain utf8_one_length)
next
  case (3 c d s)
  have unit: "utf8_len (escape_unit c) \<le> 6" if "\<not> is_high c" "\<not> is_low c" for c
    using that by (auto simp: utf8_len_unicode_escape escape_unit_def utf8_len_ascii_Cons utf8_len_plain utf8_one_length)
  have app: "utf8_len (t @ json_escape (d # s)) = utf8_len t + utf8_len (json_escape (d # s))" for t
    by (rule utf8_len_append) (rule starts_plain_json_escape)
  show ?case
  proof (cases "is_high c \<and> is_low d")
    case True
    then show ?thesis using 3
      by (simp add: utf8_len_def utf8_encode_def utf8_one_length)
  next
    case False
    then show ?thesis using 3 unit [of c] by (auto simp: app utf8_len_unicode_escape)
  qed
qed simp

lemma quote_bytes_le: "quote_bytes s \<le> 6 * length s + 2"
proof -
  have "utf8_len (json_quote s) = 1 + (utf8_len (json_escape s) + 1)"
    by (simp add: json_quote_def utf8_len_ascii_Cons utf8_len_append starts_plain_ascii)
  then show ?thesis using utf8_len_json_escape [of s] by (simp add: quote_bytes_def)
qed

lemma json_bytes_JStr: "json_bytes (JStr s) \<le> 6 * length s + 2"
  using quote_bytes_le [of s] by (simp add: json_bytes_def quote_bytes_def)

lemma length_le_utf8_len: "length s \<le> utf8_len s"
proof (induction s rule: code_points.induct)
  case (2 c)
  then show ?case by (simp add: utf8_len_def utf8_encode_def utf8_one_length)
next
  case (3 c d s)
  show ?case
  proof (cases "is_high c \<and> is_low d")
    case True
    then show ?thesis using 3 by (simp add: utf8_len_def utf8_encode_def utf8_one_length)
  next
    case False
    then have "\<exists>n. code_points (c # d # s) = n # code_points (d # s)" by (cases "is_high c"; cases "is_low c") auto
    then obtain n where n: "code_points (c # d # s) = n # code_points (d # s)" ..
    have "length (d # s) \<le> utf8_len (d # s)" using 3 False by blast
    moreover have "1 \<le> length (utf8_one n)" by (simp add: utf8_one_length)
    ultimately show ?thesis unfolding utf8_len_def utf8_encode_def n utf8_points_simps by simp
  qed
qed simp

definition payload_bytes :: "durable_entry list \<Rightarrow> nat" where
  "payload_bytes es = 2 + sum_list (map entryBytes es) + commas (length es)"

definition payload_nodes :: "durable_entry list \<Rightarrow> nat" where
  "payload_nodes es = 1 + sum_list (map entryNodes es)"

lemma payload_loop_eq:
  "payload_loop i bytes nodes es =
     (bytes + sum_list (map entryBytes es) + (if i = 0 then commas (length es) else length es),
      nodes + sum_list (map entryNodes es))"
  by (induction i bytes nodes es rule: payload_loop.induct) (auto simp: commas_def)

lemma payloadSize_eq: "payloadSize es = (payload_bytes es, payload_nodes es)"
  by (simp add: payloadSize_def payload_loop_eq payload_bytes_def payload_nodes_def)

lemma payload_is_array: "payload_bytes es = json_bytes (JArr (map entry_val es))"
  by (simp add: payload_bytes_def json_bytes_JArr o_def item_bytes_def entryBytes_def [abs_def] entry_val_def)

lemma payload_bytes_Cons:
  "payload_bytes (e # es) = payload_bytes es + (if es = [] then 0 else 1) + entryBytes e"
  by (cases es) (auto simp: payload_bytes_def commas_def)

lemma payload_nodes_Cons: "payload_nodes (e # es) = payload_nodes es + entryNodes e"
  by (simp add: payload_nodes_def)

definition within_snapshot :: "durable_entry list \<Rightarrow> bool" where
  "within_snapshot es \<longleftrightarrow> payload_bytes es \<le> max_snapshot_bytes \<and> payload_nodes es \<le> max_snapshot_nodes"

lemma fits_snapshot_iff: "fits_snapshot (payloadSize es) \<longleftrightarrow> within_snapshot es"
  by (simp add: fits_snapshot_def payloadSize_eq within_snapshot_def)

lemma within_Nil: "within_snapshot []"
  by (simp add: within_snapshot_def payload_bytes_def payload_nodes_def commas_def max_snapshot_bytes_def max_snapshot_nodes_def)

text \<open>
  The backward loop keeps a run of the candidates: what it skips behind the run does not fit even
  alone, and what it leaves before the run starts with an entry that no longer fits.
\<close>

lemma retain_newest_run:
  assumes "within_snapshot retained" "length retained \<le> max_snapshot_entries"
    and "r = retain_newest older retained (payload_bytes retained) (payload_nodes retained)"
  shows "within_snapshot r \<and> length r \<le> max_snapshot_entries \<and>
    (\<exists>before run after. rev older = before @ run @ after \<and> r = run @ retained \<and>
       (\<forall>e \<in> set after. \<not> within_snapshot [e]) \<and> (retained \<noteq> [] \<longrightarrow> after = []) \<and>
       (before = [] \<or> length r = max_snapshot_entries \<or> \<not> within_snapshot (last before # r)))"
  using assms
proof (induction older arbitrary: retained)
  case Nil
  then show ?case by simp
next
  case (Cons e older)
  let ?sep = "if retained = [] then 0 else 1 :: nat"
  have fit: "within_snapshot (e # retained) \<longleftrightarrow>
      \<not> (payload_bytes retained + ?sep + entryBytes e > max_snapshot_bytes \<or>
         payload_nodes retained + entryNodes e > max_snapshot_nodes)"
    by (auto simp: within_snapshot_def payload_bytes_Cons payload_nodes_Cons)
  have sizes: "payload_bytes (e # retained) = payload_bytes retained + (?sep + entryBytes e)"
    "payload_nodes (e # retained) = payload_nodes retained + entryNodes e"
    by (simp_all add: payload_bytes_Cons payload_nodes_Cons)
  show ?case
  proof (cases "length retained < max_snapshot_entries")
    case False
    then have "r = retained" using Cons.prems(3) by simp
    then show ?thesis using Cons.prems False
      by (intro conjI exI [of _ "rev (e # older)"] exI [of _ "[]"]) simp_all
  next
    case len: True
    show ?thesis
    proof (cases "within_snapshot (e # retained)")
      case True
      then have "r = retain_newest older (e # retained) (payload_bytes (e # retained)) (payload_nodes (e # retained))"
        using Cons.prems(3) len fit by (simp add: sizes Let_def)
      from Cons.IH [OF True _ this] len obtain before run after where
        "within_snapshot r" "length r \<le> max_snapshot_entries" "rev older = before @ run @ after" "r = run @ e # retained"
        "after = []" "before = [] \<or> length r = max_snapshot_entries \<or> \<not> within_snapshot (last before # r)"
        by auto
      then show ?thesis by (intro conjI exI [of _ before] exI [of _ "run @ [e]"] exI [of _ "[]"]) simp_all
    next
      case False
      show ?thesis
      proof (cases "retained = []")
        case True
        then have "r = retain_newest older retained (payload_bytes retained) (payload_nodes retained)"
          using Cons.prems(3) len fit False by (simp add: Let_def)
        from Cons.IH [OF Cons.prems(1,2) this] obtain before run after where
          "within_snapshot r" "length r \<le> max_snapshot_entries" "rev older = before @ run @ after" "r = run @ retained"
          "\<forall>e \<in> set after. \<not> within_snapshot [e]"
          "before = [] \<or> length r = max_snapshot_entries \<or> \<not> within_snapshot (last before # r)"
          by blast
        then show ?thesis using True False
          by (intro conjI exI [of _ before] exI [of _ run] exI [of _ "after @ [e]"]) simp_all
      next
        case ne: False
        then have "r = retained" using Cons.prems(3) len fit False by (simp add: Let_def)
        then show ?thesis using Cons.prems False ne
          by (intro conjI exI [of _ "rev older @ [e]"] exI [of _ "[]"]) simp_all
      qed
    qed
  qed
qed

subsection \<open>The notice\<close>

text \<open>An identifier as the wire guards let it through.\<close>

definition wire_id :: "jsstr \<Rightarrow> bool" where
  "wire_id s \<longleftrightarrow> plain_text s \<and> s \<noteq> [] \<and> utf8_len s \<le> 256"

definition notice_entry :: "jsstr \<Rightarrow> jsstr \<Rightarrow> jsstr \<Rightarrow> jsstr \<Rightarrow> int \<Rightarrow> durable_entry" where
  "notice_entry i host session timestamp omitted =
     \<lparr>e_id = i, e_parentId = None, e_hostId = host, e_sessionId = session, e_turnId = None,
      e_kind = js ''compaction'', e_timestamp = timestamp,
      e_data = JObj [(js ''summary'', JStr (omission_prefix @ int_str omitted @ js '' entries).'')),
                     (js ''omitted'', JNum (JInt omitted)),
                     (js ''snapshotOmission'', JBool True)]\<rparr>"

lemma omissionNotice_ok:
  assumes "hex_digest digest" "wire_id session" "length retained < 10 ^ 90"
  shows "\<exists>i. omissionNotice digest retained host session timestamp omitted = Inr (notice_entry i host session timestamp omitted)
    \<and> i \<notin> e_id ` set retained \<and> utf8_len i \<le> 256"
proof -
  obtain i where "uniqueEntryId digest (truncation_base session) (map e_id retained) = Inr i"
      "i \<notin> e_id ` set retained" "utf8_len i \<le> 256"
    using uniqueEntryId_ok [OF assms(1), of session "map e_id retained"] assms(2,3) by (auto simp: wire_id_def)
  then show ?thesis by (auto simp: omissionNotice_def notice_entry_def truncation_base_def bind_ok_def)
qed

lemma omissionNotice_ids:
  "map e_id rebound = map e_id retained \<Longrightarrow>
   omissionNotice digest rebound host session t n = omissionNotice digest retained host session t n"
  by (simp add: omissionNotice_def)

lemma member_bytes_le: "member_bytes (k, v) \<le> 6 * length k + 3 + json_bytes v"
  using quote_bytes_le [of k] by (simp add: member_bytes_def)

lemma int_str_length: "0 \<le> n \<Longrightarrow> n < 10 ^ 16 \<Longrightarrow> length (int_str n) \<le> 16"
  using nat_str_length [of "nat n" 16] by (simp add: int_str_def nat_less_iff)

lemma json_bytes_const:
  "json_bytes JNull = 4" "json_bytes (JBool True) = 4" "json_bytes (JNum (JInt n)) = length (int_str n)"
  using utf8_len_ascii [OF num_str_ascii, of "JInt n"] utf8_len_ascii [of "js ''null''"] utf8_len_ascii [of "js ''true''"]
  by (simp_all add: json_bytes_def is_finite_def) (simp_all add: js_def)

lemma notice_bytes:
  assumes "utf8_len i \<le> 256" "wire_id host" "wire_id session" "length timestamp \<le> 65536" "0 \<le> omitted" "omitted < 10 ^ 16"
  shows "entryBytes (notice_entry i host session timestamp omitted) \<le> 400000"
proof -
  let ?summary = "omission_prefix @ int_str omitted @ js '' entries).''"
  let ?data = "[(js ''summary'', JStr ?summary), (js ''omitted'', JNum (JInt omitted)), (js ''snapshotOmission'', JBool True)]"
  have l: "length (int_str omitted) \<le> 16" using assms by (intro int_str_length)
  then have s: "json_bytes (JStr ?summary) \<le> 550"
    using json_bytes_JStr [of ?summary] by (simp add: omission_prefix_def js_def)
  have "json_bytes (JObj ?data) = 2 + member_bytes (js ''summary'', JStr ?summary) + member_bytes (js ''omitted'', JNum (JInt omitted))
      + member_bytes (js ''snapshotOmission'', JBool True) + 2"
    by (simp add: json_bytes_JObj json_own_def commas_def)
  also have "\<dots> \<le> 800"
    using member_bytes_le [of "js ''summary''" "JStr ?summary"] member_bytes_le [of "js ''omitted''" "JNum (JInt omitted)"]
      member_bytes_le [of "js ''snapshotOmission''" "JBool True"] s l
    by (simp add: json_bytes_const) (simp add: js_def)
  finally have data: "json_bytes (JObj ?data) \<le> 800" .
  have len: "length i \<le> 256" "length host \<le> 256" "length session \<le> 256"
    using assms(1-3) length_le_utf8_len [of i] length_le_utf8_len [of host] length_le_utf8_len [of session]
    by (simp_all add: wire_id_def)
  have "entryBytes (notice_entry i host session timestamp omitted) =
      2 + member_bytes (js ''id'', JStr i) + member_bytes (js ''parentId'', JNull) + member_bytes (js ''hostId'', JStr host)
      + member_bytes (js ''sessionId'', JStr session) + member_bytes (js ''kind'', JStr (js ''compaction''))
      + member_bytes (js ''timestamp'', JStr timestamp) + member_bytes (js ''data'', JObj ?data) + 6"
    by (simp add: entryBytes_def entry_val_def notice_entry_def json_bytes_JObj [of "_ # _ # _ # _ # _ # _ # _ # _"] json_own_def commas_def)
  moreover have "json_bytes (JStr i) \<le> 1538" "json_bytes (JStr host) \<le> 1538" "json_bytes (JStr session) \<le> 1538"
    "json_bytes (JStr (js ''compaction'')) \<le> 62" "json_bytes (JStr timestamp) \<le> 393218"
    using json_bytes_JStr [of i] json_bytes_JStr [of host] json_bytes_JStr [of session] json_bytes_JStr [of timestamp]
      json_bytes_JStr [of "js ''compaction''"] len assms(4) by (simp_all add: js_def)
  ultimately show ?thesis
    using member_bytes_le [of "js ''id''" "JStr i"] member_bytes_le [of "js ''parentId''" JNull]
      member_bytes_le [of "js ''hostId''" "JStr host"] member_bytes_le [of "js ''sessionId''" "JStr session"]
      member_bytes_le [of "js ''kind''" "JStr (js ''compaction'')"] member_bytes_le [of "js ''timestamp''" "JStr timestamp"]
      member_bytes_le [of "js ''data''" "JObj ?data"] data
    by (simp add: json_bytes_const js_def)
qed

lemma notice_alone_fits:
  assumes "utf8_len i \<le> 256" "wire_id host" "wire_id session" "length timestamp \<le> 65536" "0 \<le> omitted" "omitted < 10 ^ 16"
  shows "within_snapshot [notice_entry i host session timestamp omitted]"
  using notice_bytes [OF assms]
  by (simp add: within_snapshot_def payload_bytes_def payload_nodes_def commas_def max_snapshot_bytes_def
      max_snapshot_nodes_def entryNodes_def entry_val_def notice_entry_def)

subsection \<open>The loops that make room\<close>

lemma shift_to_cap_drop:
  "\<exists>k. k \<le> length es \<and> shift_to_cap es omitted = (drop k es, omitted + int k) \<and> length (drop k es) < max_snapshot_entries"
proof (induction es arbitrary: omitted)
  case Nil
  then show ?case by (simp add: max_snapshot_entries_def)
next
  case (Cons e es)
  show ?case
  proof (cases "length (e # es) \<ge> max_snapshot_entries")
    case True
    from Cons [of "omitted + 1"] obtain k where
      "k \<le> length es" "shift_to_cap es (omitted + 1) = (drop k es, omitted + 1 + int k)" "length (drop k es) < max_snapshot_entries"
      by blast
    with True show ?thesis by (intro exI [of _ "Suc k"]) simp
  next
    case False
    then show ?thesis by (intro exI [of _ 0]) simp
  qed
qed

text \<open>Dropping entries ends, at the latest when only the notice is left, which fits on its own.\<close>

lemma shift_to_fit_drop:
  assumes "hex_digest digest" "wire_id host" "wire_id session" "length fallback \<le> 65536"
    and "length retained < 10 ^ 15" "0 \<le> omitted" "omitted + int (length retained) < 10 ^ 16"
  shows "\<exists>k i. k \<le> length retained \<and>
    shift_to_fit digest host session fallback retained omitted = Some (Inr (drop k retained, omitted + int k)) \<and>
    omissionNotice digest (drop k retained) host session (first_timestamp (drop k retained) fallback) (omitted + int k) =
      Inr (notice_entry i host session (first_timestamp (drop k retained) fallback) (omitted + int k)) \<and>
    within_snapshot (notice_entry i host session (first_timestamp (drop k retained) fallback) (omitted + int k) # drop k retained) \<and>
    i \<notin> e_id ` set (drop k retained)"
  using assms(5-7)
proof (induction retained arbitrary: omitted)
  case Nil
  obtain i where i: "omissionNotice digest [] host session fallback omitted = Inr (notice_entry i host session fallback omitted)"
      "utf8_len i \<le> 256"
    using omissionNotice_ok [OF assms(1,3), of "[]" host fallback omitted] by auto
  have "within_snapshot [notice_entry i host session fallback omitted]"
    using notice_alone_fits [OF i(2) assms(2-4)] Nil by simp
  with i show ?case
    by (intro exI [of _ 0] exI [of _ i]) (subst shift_to_fit.simps, simp add: first_timestamp_def fits_snapshot_iff)
next
  case (Cons e es)
  let ?t = "first_timestamp (e # es) fallback"
  have "length (e # es) < 10 ^ 90" using Cons.prems(1) by (rule order_less_le_trans) simp
  then obtain i where i: "omissionNotice digest (e # es) host session ?t omitted = Inr (notice_entry i host session ?t omitted)"
      "i \<notin> e_id ` set (e # es)"
    using omissionNotice_ok [OF assms(1,3)] by blast
  show ?case
  proof (cases "within_snapshot (notice_entry i host session ?t omitted # e # es)")
    case True
    with i show ?thesis
      by (intro exI [of _ 0] exI [of _ i]) (subst shift_to_fit.simps, simp add: fits_snapshot_iff)
  next
    case False
    have "length es < 10 ^ 15" "0 \<le> omitted + 1" "omitted + 1 + int (length es) < 10 ^ 16" using Cons.prems by simp_all
    from Cons.IH [OF this] obtain k j where k: "k \<le> length es"
      "shift_to_fit digest host session fallback es (omitted + 1) = Some (Inr (drop k es, omitted + 1 + int k))"
      "omissionNotice digest (drop k es) host session (first_timestamp (drop k es) fallback) (omitted + 1 + int k) =
        Inr (notice_entry j host session (first_timestamp (drop k es) fallback) (omitted + 1 + int k))"
      "within_snapshot (notice_entry j host session (first_timestamp (drop k es) fallback) (omitted + 1 + int k) # drop k es)"
      "j \<notin> e_id ` set (drop k es)" by blast
    have step: "shift_to_fit digest host session fallback (e # es) omitted = shift_to_fit digest host session fallback es (omitted + 1)"
      using i False by (subst shift_to_fit.simps) (simp add: fits_snapshot_iff)
    have add: "omitted + int (Suc k) = omitted + 1 + int k" by simp
    show ?thesis
      by (intro exI [of _ "Suc k"] exI [of _ j]) (use k in \<open>simp add: step add del: of_nat_Suc\<close>)
  qed
qed

subsection \<open>Lost parents\<close>

lemma length_le_json_escape: "length s \<le> utf8_len (json_escape s)"
proof (induction s rule: json_escape.induct)
  case (3 c d s)
  have unit: "1 \<le> utf8_len (escape_unit c)" if "\<not> is_high c" "\<not> is_low c"
    using that by (auto simp: utf8_len_unicode_escape escape_unit_def utf8_len_ascii_Cons utf8_len_plain utf8_one_length)
  have app: "utf8_len (t @ json_escape (d # s)) = utf8_len t + utf8_len (json_escape (d # s))" for t
    by (rule utf8_len_append) (rule starts_plain_json_escape)
  show ?case
  proof (cases "is_high c \<and> is_low d")
    case True
    then show ?thesis using 3 by (simp add: utf8_len_def utf8_encode_def utf8_one_length)
  next
    case False
    then have "length (d # s) \<le> utf8_len (json_escape (d # s))"
      using 3 by (cases "is_high c"; cases "is_low c") auto
    with False show ?thesis using unit by (auto simp: app utf8_len_unicode_escape)
  qed
qed (auto simp: utf8_len_unicode_escape escape_unit_def utf8_len_ascii_Cons utf8_len_plain utf8_one_length)

lemma json_bytes_JStr_ge: "length s + 2 \<le> json_bytes (JStr s)"
proof -
  have "utf8_len (json_quote s) = 1 + (utf8_len (json_escape s) + 1)"
    by (simp add: json_quote_def utf8_len_ascii_Cons utf8_len_append starts_plain_ascii)
  then show ?thesis using length_le_json_escape [of s] by (simp add: json_bytes_def)
qed

lemma drop_lost_parent_simps [simp]:
  "e_id (drop_lost_parent ids e) = e_id e" "e_timestamp (drop_lost_parent ids e) = e_timestamp e"
  "e_data (drop_lost_parent ids e) = e_data e" "e_kind (drop_lost_parent ids e) = e_kind e"
  by (auto simp: drop_lost_parent_def split: option.splits)

lemma drop_lost_parent_nodes: "entryNodes (drop_lost_parent ids e) = entryNodes e"
  by (auto simp: drop_lost_parent_def entryNodes_def entry_val_def split: option.splits)

definition long_parent :: "durable_entry \<Rightarrow> bool" where
  "long_parent e \<longleftrightarrow> (case e_parentId e of None \<Rightarrow> True | Some p \<Rightarrow> length p \<noteq> 1)"

lemma drop_lost_parent_bytes: "entryBytes (drop_lost_parent ids e) \<le> entryBytes e + (if long_parent e then 0 else 1)"
proof (cases "drop_lost_parent ids e = e")
  case False
  then obtain p where p: "e_parentId e = Some p" "p \<noteq> []" "drop_lost_parent ids e = e\<lparr>e_parentId := None\<rparr>"
    by (auto simp: drop_lost_parent_def split: option.splits if_splits)
  then have "long_parent e \<Longrightarrow> 2 \<le> length p" "1 \<le> length p" by (cases p; auto simp: long_parent_def Suc_le_eq)+
  then have "json_bytes JNull \<le> json_bytes (JStr p) + (if long_parent e then 0 else 1)"
    using json_bytes_JStr_ge [of p] by (auto simp: json_bytes_const)
  then show ?thesis using p(1)
    unfolding p(3) by (simp add: entryBytes_def entry_val_def json_bytes_JObj [of "_ # _"] json_own_def member_bytes_def
        split: option.splits)
qed simp

subsection \<open>The result\<close>

definition snapshot_input_ok :: "(jsstr \<Rightarrow> jsstr) \<Rightarrow> durable_entry list \<Rightarrow> jsstr \<Rightarrow> jsstr \<Rightarrow> jsstr \<Rightarrow> bool" where
  "snapshot_input_ok digest entries host session fallback \<longleftrightarrow>
     hex_digest digest \<and> wire_id host \<and> wire_id session \<and> length fallback \<le> 65536 \<and>
     prior_omitted entries + int (length entries) < 10 ^ 15"

lemma priorOmissionCount_nonneg: "0 \<le> priorOmissionCount e"
  by (auto simp: priorOmissionCount_def split: jsval.splits jsnum.splits)

lemma prior_omitted_nonneg: "0 \<le> prior_omitted entries"
  by (induction entries) (simp_all add: prior_omitted_def priorOmissionCount_nonneg add_nonneg_nonneg)

lemma boundSnapshotEntries_cases:
  assumes "snapshot_input_ok digest entries host session fallback"
  shows "\<exists>before run after. snapshot_candidates entries = before @ run @ after \<and>
    (\<forall>e \<in> set after. \<not> within_snapshot [e]) \<and>
    (before = [] \<and> after = [] \<and> prior_omitted entries = 0 \<and> within_snapshot run \<and> length run \<le> max_snapshot_entries \<and>
       boundSnapshotEntries digest entries host session fallback = Some (Inr run) \<or>
     (\<exists>i t. let omitted = prior_omitted entries + int (length before) + int (length after);
               notice = notice_entry i host session t omitted in
       0 < omitted \<and> length run < max_snapshot_entries \<and> within_snapshot (notice # run) \<and> i \<notin> e_id ` set run \<and>
       boundSnapshotEntries digest entries host session fallback =
         Some (Inr (notice # map (drop_lost_parent (map e_id run)) run))))"
proof -
  let ?cs = "snapshot_candidates entries"
  define r where "r = retain_newest (rev ?cs) [] 2 1"
  have empty: "payload_bytes [] = 2" "payload_nodes [] = 1"
    by (simp_all add: payload_bytes_def payload_nodes_def commas_def)
  have "r = retain_newest (rev ?cs) [] (payload_bytes []) (payload_nodes [])" by (simp add: r_def empty)
  from retain_newest_run [OF within_Nil _ this]
  obtain b0 after where r: "within_snapshot r" "length r \<le> max_snapshot_entries" "?cs = b0 @ r @ after"
      "\<forall>e \<in> set after. \<not> within_snapshot [e]"
    unfolding rev_rev_ident append_Nil2 list.size by blast
  define om where "om = prior_omitted entries + int (length ?cs) - int (length r)"
  have om: "om = prior_omitted entries + int (length b0) + int (length after)" by (simp add: om_def r(3))
  show ?thesis
  proof (cases "om = 0")
    case True
    then have "length b0 = 0" "length after = 0" "prior_omitted entries = 0"
      using om prior_omitted_nonneg [of entries] by linarith+
    then have "b0 = []" "after = []" "prior_omitted entries = 0" by simp_all
    moreover have "boundSnapshotEntries digest entries host session fallback = Some (Inr r)"
      using True unfolding boundSnapshotEntries_def Let_def r_def [symmetric] om_def [symmetric] by simp
    ultimately show ?thesis using r by (intro exI [of _ b0] exI [of _ r] exI [of _ after]) simp
  next
    case False
    obtain k where k: "k \<le> length r" "shift_to_cap r om = (drop k r, om + int k)" "length (drop k r) < max_snapshot_entries"
      using shift_to_cap_drop by blast
    have "length ?cs \<le> length entries" by (simp add: snapshot_candidates_def)
    then have bound: "om + int k + int (length (drop k r)) < 10 ^ 16" "0 \<le> om + int k" "length (drop k r) < 10 ^ 15"
      using assms k(1,3) prior_omitted_nonneg [of entries] r(3)
      by (auto simp: om snapshot_input_ok_def max_snapshot_entries_def)
    obtain m i where m: "m \<le> length (drop k r)"
      "shift_to_fit digest host session fallback (drop k r) (om + int k) = Some (Inr (drop m (drop k r), om + int k + int m))"
      "omissionNotice digest (drop m (drop k r)) host session (first_timestamp (drop m (drop k r)) fallback) (om + int k + int m) =
        Inr (notice_entry i host session (first_timestamp (drop m (drop k r)) fallback) (om + int k + int m))"
      "within_snapshot (notice_entry i host session (first_timestamp (drop m (drop k r)) fallback) (om + int k + int m) # drop m (drop k r))"
      "i \<notin> e_id ` set (drop m (drop k r))"
      using shift_to_fit_drop [of digest host session fallback "drop k r" "om + int k"] assms bound
      by (auto simp: snapshot_input_ok_def)
    define run where "run = drop m (drop k r)"
    define before where "before = b0 @ take (m + k) r"
    have split: "?cs = before @ run @ after" by (simp add: before_def run_def r(3) add.commute)
    have count: "om + int k + int m = prior_omitted entries + int (length before) + int (length after)"
      using m(1) k(1) by (simp add: before_def om)
    have ids: "map e_id (map (drop_lost_parent (map e_id run)) run) = map e_id run" by simp
    have ts: "first_timestamp (map (drop_lost_parent (map e_id run)) run) fallback = first_timestamp run fallback"
      by (cases run) (simp_all add: first_timestamp_def)
    have "boundSnapshotEntries digest entries host session fallback =
        Some (Inr (notice_entry i host session (first_timestamp run fallback) (om + int k + int m)
          # map (drop_lost_parent (map e_id run)) run))"
      using False k(2) m(2,3) omissionNotice_ids [OF ids]
      unfolding boundSnapshotEntries_def Let_def r_def [symmetric] om_def [symmetric] run_def [symmetric]
      by (simp add: run_def [symmetric] ts)
    moreover have "0 < om + int k + int m" using False om prior_omitted_nonneg [of entries] by simp
    moreover have "length run < max_snapshot_entries" using k(3) by (simp add: run_def)
    ultimately show ?thesis
      unfolding Let_def count using split m(4,5) [folded run_def, unfolded count] r(4) by blast
  qed
qed

definition short_parents :: "durable_entry list \<Rightarrow> nat" where
  "short_parents es = length (filter (\<lambda>e. \<not> long_parent e) es)"

lemma rebound_payload:
  "payload_nodes (n # map (drop_lost_parent ids) run) = payload_nodes (n # run)"
  "payload_bytes (n # map (drop_lost_parent ids) run) \<le> payload_bytes (n # run) + short_parents run"
proof -
  show "payload_nodes (n # map (drop_lost_parent ids) run) = payload_nodes (n # run)"
    by (simp add: payload_nodes_def o_def drop_lost_parent_nodes)
  have "sum_list (map (entryBytes \<circ> drop_lost_parent ids) es) \<le> sum_list (map entryBytes es) + short_parents es" for es
  proof (induction es)
    case (Cons e es)
    then show ?case using drop_lost_parent_bytes [of ids e] by (simp add: short_parents_def split: if_splits)
  qed (simp add: short_parents_def)
  from this [of run] show "payload_bytes (n # map (drop_lost_parent ids) run) \<le> payload_bytes (n # run) + short_parents run"
    by (simp add: payload_bytes_def)
qed

lemma short_parents_none: "list_all long_parent es \<Longrightarrow> short_parents es = 0"
  by (auto simp: short_parents_def list_all_iff)

lemma bounded_snapshot:
  assumes "snapshot_input_ok digest entries host session fallback"
  shows "\<exists>out. boundSnapshotEntries digest entries host session fallback = Some (Inr out) \<and>
    length out \<le> max_snapshot_entries \<and> snd (payloadSize out) \<le> max_snapshot_nodes \<and>
    fst (payloadSize out) \<le> max_snapshot_bytes + short_parents entries"
proof -
  obtain before run after where split: "snapshot_candidates entries = before @ run @ after" and
    alt: "within_snapshot run \<and> length run \<le> max_snapshot_entries \<and>
        boundSnapshotEntries digest entries host session fallback = Some (Inr run) \<or>
      (\<exists>n. length run < max_snapshot_entries \<and> within_snapshot (n # run) \<and>
        boundSnapshotEntries digest entries host session fallback = Some (Inr (n # map (drop_lost_parent (map e_id run)) run)))"
    using boundSnapshotEntries_cases [OF assms] unfolding Let_def by blast
  have "short_parents run \<le> short_parents (snapshot_candidates entries)" by (simp add: short_parents_def split)
  also have "\<dots> \<le> short_parents entries"
    unfolding short_parents_def snapshot_candidates_def filter_filter by (induction entries) simp_all
  finally have few: "short_parents run \<le> short_parents entries" .
  from alt show ?thesis
  proof (elim disjE exE conjE)
    fix n assume "length run < max_snapshot_entries" "within_snapshot (n # run)"
      "boundSnapshotEntries digest entries host session fallback = Some (Inr (n # map (drop_lost_parent (map e_id run)) run))"
    then show ?thesis using few rebound_payload(2) [of n "map e_id run" run]
      by (intro exI [of _ "n # map (drop_lost_parent (map e_id run)) run"]) (simp add: payloadSize_eq within_snapshot_def rebound_payload(1))
  qed (auto simp: payloadSize_eq within_snapshot_def)
qed

text \<open>
  C18: Building a bounded snapshot always returns, although the last loop of the code has no exit
  of its own: dropping entries ends at the latest with the notice alone. The result has at most
  1000 entries and 16000 JSON nodes, and when no parent id is a single character it is at most
  512 KiB of JSON. The host and session ids are wire ids, the fallback timestamp has at most 65536
  characters, and the omission counts stay exact.
\<close>

theorem snapshot_returns_within_limits:
  assumes "snapshot_input_ok digest entries host session fallback"
  shows "\<exists>out. boundSnapshotEntries digest entries host session fallback = Some (Inr out) \<and>
    length out \<le> max_snapshot_entries \<and> snd (payloadSize out) \<le> max_snapshot_nodes \<and>
    (list_all long_parent entries \<longrightarrow> fst (payloadSize out) \<le> max_snapshot_bytes)"
  using bounded_snapshot [OF assms] short_parents_none [of entries] by fastforce

text \<open>
  C19: A bounded snapshot is either all candidate entries unchanged, or a notice followed by a run of
  consecutive entries: what is missing behind the run are entries too large even alone, the
  notice counts every entry that is missing plus what earlier notices counted, its id is new, and
  every parent id left in the run names an entry of the run.
\<close>

theorem snapshot_is_counted_run:
  assumes "snapshot_input_ok digest entries host session fallback"
    and "boundSnapshotEntries digest entries host session fallback = Some (Inr out)"
  shows "out = snapshot_candidates entries \<and> prior_omitted entries = 0 \<or>
    (\<exists>before run after notice rest. snapshot_candidates entries = before @ run @ after \<and> out = notice # rest \<and>
       (\<forall>e \<in> set after. \<not> within_snapshot [e]) \<and>
       get_prop (e_data notice) ''omitted'' =
         JNum (JInt (prior_omitted entries + int (length before) + int (length after))) \<and>
       e_id notice \<notin> e_id ` set rest \<and> e_parentId notice = None \<and>
       map (\<lambda>e. e\<lparr>e_parentId := None\<rparr>) rest = map (\<lambda>e. e\<lparr>e_parentId := None\<rparr>) run \<and>
       (\<forall>e \<in> set rest. \<forall>p. e_parentId e = Some p \<longrightarrow> p = [] \<or> p \<in> e_id ` set rest))"
proof -
  obtain before run after where split: "snapshot_candidates entries = before @ run @ after"
      "\<forall>e \<in> set after. \<not> within_snapshot [e]" and
    alt: "before = [] \<and> after = [] \<and> prior_omitted entries = 0 \<and> out = run \<or>
      (\<exists>i t. let omitted = prior_omitted entries + int (length before) + int (length after) in
        i \<notin> e_id ` set run \<and> out = notice_entry i host session t omitted # map (drop_lost_parent (map e_id run)) run)"
    using boundSnapshotEntries_cases [OF assms(1)] unfolding Let_def assms(2) option.inject sum.inject by blast
  from alt show ?thesis
  proof
    assume "before = [] \<and> after = [] \<and> prior_omitted entries = 0 \<and> out = run"
    then show ?thesis using split by simp
  next
    let ?om = "prior_omitted entries + int (length before) + int (length after)"
    let ?rest = "map (drop_lost_parent (map e_id run)) run"
    assume "\<exists>i t. let omitted = ?om in i \<notin> e_id ` set run \<and> out = notice_entry i host session t omitted # ?rest"
    then obtain i t where i: "i \<notin> e_id ` set run" "out = notice_entry i host session t ?om # ?rest"
      unfolding Let_def by blast
    have ids: "e_id ` set ?rest = e_id ` set run" by (simp add: image_image)
    have "\<forall>e \<in> set ?rest. \<forall>p. e_parentId e = Some p \<longrightarrow> p = [] \<or> p \<in> e_id ` set ?rest"
      unfolding ids by (auto simp: drop_lost_parent_def split: option.splits if_splits)
    moreover have "map (\<lambda>e. e\<lparr>e_parentId := None\<rparr>) ?rest = map (\<lambda>e. e\<lparr>e_parentId := None\<rparr>) run"
      by (auto simp: drop_lost_parent_def split: option.splits)
    ultimately show ?thesis using split i
      by (intro disjI2 exI [of _ before] exI [of _ run] exI [of _ after] exI [of _ "notice_entry i host session t ?om"] exI [of _ ?rest] conjI)
         (simp_all only: ids, simp_all add: notice_entry_def get_prop_JObj jm_get_Cons)
  qed
qed

subsection \<open>Examples\<close>

definition zero_digest :: "jsstr \<Rightarrow> jsstr" where
  "zero_digest s = replicate 64 48"

definition prior_notice :: durable_entry where
  "prior_notice = notice_entry (js ''n'') (js ''h'') (js ''s'') (js ''t'') 1"

definition orphan :: "nat \<Rightarrow> durable_entry" where
  "orphan n = \<lparr>e_id = js ''b'', e_parentId = Some (js ''a''), e_hostId = js ''h'', e_sessionId = js ''s'', e_turnId = None,
     e_kind = js ''message'', e_timestamp = js ''t'', e_data = JObj [(js ''text'', JStr (replicate n 120))]\<rparr>"

lemma hex_zero_digest: "hex_digest zero_digest"
  by (simp add: hex_digest_def zero_digest_def list_all_iff)

lemma sample_wire_ids: "wire_id (js ''h'')" "wire_id (js ''s'')"
  by (simp_all add: wire_id_def plain_text_def js_def is_control_def is_high_def is_low_def utf8_len_def utf8_encode_def utf8_one_def)

lemma prior_notice_count: "priorOmissionCount prior_notice = 1"
  by (simp add: prior_notice_def notice_entry_def priorOmissionCount_def get_prop_JObj jm_get_Cons
      starts_with_def is_safe_integer_def max_safe_integer_def)

lemma orphan_count: "priorOmissionCount (orphan n) = 0"
  by (simp add: orphan_def priorOmissionCount_def get_prop_JObj jm_get_Cons)

lemma quote_plain:
  assumes "list_all (\<lambda>c. 0x20 \<le> unat c \<and> unat c < 0x80 \<and> c \<noteq> 0x22 \<and> c \<noteq> 0x5C) s"
  shows "quote_bytes s = length s + 2"
proof -
  have same: "json_escape s = s" using assms
  proof (induction s rule: json_escape.induct)
    case (2 c)
    then show ?case using ascii_plain [of c] by (auto simp: escape_unit_def)
  next
    case (3 c d s)
    then have "\<not> is_high c" "\<not> is_low c" "escape_unit c = [c]" using ascii_plain [of c] by (auto simp: escape_unit_def)
    with 3 show ?case by simp
  qed simp
  have "list_all (\<lambda>c. unat c < 0x80) (json_quote s)" using assms by (auto simp: json_quote_def same list_all_iff)
  then show ?thesis by (simp add: quote_bytes_def utf8_len_ascii json_quote_def same)
qed

lemma quote_x: "quote_bytes (replicate n 120) = n + 2"
  by (subst quote_plain) (simp_all add: list_all_iff)

lemma fixed_quotes:
  "quote_bytes (js ''id'') = 4" "quote_bytes (js ''parentId'') = 10" "quote_bytes (js ''hostId'') = 8"
  "quote_bytes (js ''sessionId'') = 11" "quote_bytes (js ''kind'') = 6" "quote_bytes (js ''timestamp'') = 11"
  "quote_bytes (js ''data'') = 6" "quote_bytes (js ''text'') = 6" "quote_bytes (js ''a'') = 3"
  "quote_bytes (js ''b'') = 3" "quote_bytes (js ''h'') = 3" "quote_bytes (js ''s'') = 3" "quote_bytes (js ''t'') = 3"
  "quote_bytes (js ''message'') = 9"
  by (simp_all add: quote_plain js_def)

lemma orphan_bytes: "entryBytes (orphan n) = n + 106"
  by (simp add: entryBytes_def orphan_def entry_val_def json_bytes_JObj [of "_ # _"] json_own_def member_bytes_def
    commas_def) (simp add: json_bytes_def quote_bytes_def [symmetric] fixed_quotes quote_x)

lemma orphan_nodes: "entryNodes (orphan n) = 9"
  by (simp add: entryNodes_def orphan_def entry_val_def)

definition truncation_notice :: durable_entry where
  "truncation_notice = notice_entry (truncation_base (js ''s'')) (js ''h'') (js ''s'') (js ''t'') 1"

lemma truncation_notice_size: "entryBytes truncation_notice = 238" "entryNodes truncation_notice = 11"
proof -
  have "quote_bytes (js ''summary'') = 9" "quote_bytes (js ''omitted'') = 9" "quote_bytes (js ''snapshotOmission'') = 18"
    "quote_bytes (truncation_base (js ''s'')) = 23" "quote_bytes (js ''compaction'') = 12"
    "quote_bytes (omission_prefix @ int_str 1 @ js '' entries).'') = 71" "length (int_str 1) = 1"
    by (simp_all add: quote_plain js_def truncation_base_def omission_prefix_def int_str_def nat_str.simps)
  note q = this fixed_quotes
  show "entryBytes truncation_notice = 238"
    by (simp add: entryBytes_def truncation_notice_def notice_entry_def entry_val_def json_bytes_JObj json_own_def
        member_bytes_def commas_def json_bytes_const q) (simp add: json_bytes_def quote_bytes_def [symmetric] q)
  show "entryNodes truncation_notice = 11"
    by (simp add: entryNodes_def truncation_notice_def notice_entry_def entry_val_def)
qed

lemma truncation_id: "uniqueEntryId zero_digest (truncation_base (js ''s'')) [js ''b''] = Inr (truncation_base (js ''s''))"
proof -
  have "utf8_len (truncation_base (js ''s'')) = 21"
    by (subst utf8_len_ascii) (simp_all add: truncation_base_def js_def)
  then have same: "boundUtf8 (truncation_base (js ''s'')) 256 = truncation_base (js ''s'')"
    by (simp add: boundUtf8_def utf8_len_def)
  have acc: "id_guard (JStr (truncation_base (js ''s''))) = Inr (truncation_base (js ''s''))"
    using truncation_base_accepted [of "js ''s''"] sample_wire_ids by (simp add: same wire_id_def)
  moreover have "truncation_base (js ''s'') \<noteq> js ''b''" by (simp add: truncation_base_def js_def)
  ultimately show ?thesis by (simp add: uniqueEntryId_def same bind_ok_def)
qed

lemma orphan_fields [simp]:
  "e_id (orphan n) = js ''b''" "e_timestamp (orphan n) = js ''t''" "e_parentId (orphan n) = Some (js ''a'')"
  by (simp_all add: orphan_def)

lemma orphan_snapshot:
  assumes "n \<le> 523941"
  shows "boundSnapshotEntries zero_digest [prior_notice, orphan n] (js ''h'') (js ''s'') (js ''t'') =
    Some (Inr [truncation_notice, (orphan n)\<lparr>e_parentId := None\<rparr>])"
proof -
  have cand: "snapshot_candidates [prior_notice, orphan n] = [orphan n]" "prior_omitted [prior_notice, orphan n] = 1"
    by (simp_all add: snapshot_candidates_def is_prior_omission_def prior_omitted_def prior_notice_count orphan_count)
  have kept: "retain_newest [orphan n] [] 2 1 = [orphan n]" using assms
    by (simp add: orphan_bytes orphan_nodes max_snapshot_entries_def max_snapshot_bytes_def max_snapshot_nodes_def)
  have notice: "omissionNotice zero_digest es (js ''h'') (js ''s'') (js ''t'') 1 = Inr truncation_notice"
    if "map e_id es = [js ''b'']" for es
    using truncation_id by (simp add: omissionNotice_def that truncation_notice_def notice_entry_def truncation_base_def bind_ok_def)
  have "within_snapshot [truncation_notice, orphan n]" using assms
    by (simp add: within_snapshot_def payload_bytes_def payload_nodes_def commas_def truncation_notice_size orphan_bytes
        orphan_nodes max_snapshot_bytes_def max_snapshot_nodes_def)
  then have fit: "shift_to_fit zero_digest (js ''h'') (js ''s'') (js ''t'') [orphan n] 1 = Some (Inr ([orphan n], 1))"
    by (subst shift_to_fit.simps) (simp add: first_timestamp_def notice fits_snapshot_iff)
  have "drop_lost_parent [js ''b''] (orphan n) = (orphan n)\<lparr>e_parentId := None\<rparr>"
    by (simp add: drop_lost_parent_def) (simp add: js_def)
  then show ?thesis
    unfolding boundSnapshotEntries_def Let_def cand rev.simps append_Nil kept
    by (simp add: max_snapshot_entries_def fit first_timestamp_def notice)
qed

theorem snapshot_returns_within_limits_witness:
  "snapshot_input_ok zero_digest [prior_notice, orphan 3] (js ''h'') (js ''s'') (js ''t'') \<and>
   (\<exists>out. boundSnapshotEntries zero_digest [prior_notice, orphan 3] (js ''h'') (js ''s'') (js ''t'') = Some (Inr out) \<and>
     length out = 2 \<and> length out \<le> max_snapshot_entries \<and> snd (payloadSize out) \<le> max_snapshot_nodes)"
proof -
  have ok: "snapshot_input_ok zero_digest [prior_notice, orphan 3] (js ''h'') (js ''s'') (js ''t'')"
    by (simp add: snapshot_input_ok_def hex_zero_digest sample_wire_ids prior_omitted_def prior_notice_count orphan_count)
       (simp add: js_def)
  show ?thesis using ok snapshot_returns_within_limits [OF ok] orphan_snapshot [of 3] by auto
qed

theorem snapshot_is_counted_run_witness:
  "snapshot_input_ok zero_digest [prior_notice, orphan 3] (js ''h'') (js ''s'') (js ''t'') \<and>
   (\<exists>before run after notice rest. snapshot_candidates [prior_notice, orphan 3] = before @ run @ after \<and>
      [truncation_notice, (orphan 3)\<lparr>e_parentId := None\<rparr>] = notice # rest \<and>
      get_prop (e_data notice) ''omitted'' = JNum (JInt (1 + int (length before) + int (length after))))"
proof -
  have ok: "snapshot_input_ok zero_digest [prior_notice, orphan 3] (js ''h'') (js ''s'') (js ''t'')"
    by (simp add: snapshot_input_ok_def hex_zero_digest sample_wire_ids prior_omitted_def prior_notice_count orphan_count)
       (simp add: js_def)
  have om: "prior_omitted [prior_notice, orphan 3] = 1" by (simp add: prior_omitted_def prior_notice_count orphan_count)
  have "boundSnapshotEntries zero_digest [prior_notice, orphan 3] (js ''h'') (js ''s'') (js ''t'') =
      Some (Inr [truncation_notice, (orphan 3)\<lparr>e_parentId := None\<rparr>])" by (rule orphan_snapshot) simp
  from snapshot_is_counted_run [OF ok this] show ?thesis using ok unfolding om by (intro conjI) (assumption, elim disjE exE conjE, simp, blast)
qed

text \<open>
  C37: The byte budget is checked before lost parents are replaced by \<open>null\<close>, which is longer than
  a quoted parent id of one character. So a snapshot can be larger than 512 KiB, by at most one
  byte for every entry of the session that has a parent id of one character; and this bound is
  attained, there are entries, one of them with such a parent id, whose snapshot is sent one byte
  over the limit. The ids, timestamp and counts are as for the limits above.
\<close>

theorem snapshot_excess_by_short_parents:
  assumes "snapshot_input_ok digest entries host session fallback"
  shows "(\<exists>out. boundSnapshotEntries digest entries host session fallback = Some (Inr out) \<and>
      fst (payloadSize out) \<le> max_snapshot_bytes + short_parents entries) \<and>
    (\<exists>es out. snapshot_input_ok zero_digest es (js ''h'') (js ''s'') (js ''t'') \<and> short_parents es = 1 \<and>
      boundSnapshotEntries zero_digest es (js ''h'') (js ''s'') (js ''t'') = Some (Inr out) \<and>
      fst (payloadSize out) = max_snapshot_bytes + 1)"
proof
  show "\<exists>out. boundSnapshotEntries digest entries host session fallback = Some (Inr out) \<and>
      fst (payloadSize out) \<le> max_snapshot_bytes + short_parents entries"
    using bounded_snapshot [OF assms] by blast
  have bytes: "entryBytes ((orphan n)\<lparr>e_parentId := None\<rparr>) = n + 107" for n
    by (simp add: entryBytes_def orphan_def entry_val_def json_bytes_JObj [of "_ # _"] json_own_def member_bytes_def
        commas_def json_bytes_const) (simp add: json_bytes_def quote_bytes_def [symmetric] fixed_quotes quote_x)
  have "payload_bytes [truncation_notice, (orphan 523941)\<lparr>e_parentId := None\<rparr>] = 524289"
    by (simp add: payload_bytes_def commas_def truncation_notice_size bytes)
  then have "fst (payloadSize [truncation_notice, (orphan 523941)\<lparr>e_parentId := None\<rparr>]) = max_snapshot_bytes + 1"
    by (simp add: payloadSize_eq max_snapshot_bytes_def)
  moreover have "snapshot_input_ok zero_digest [prior_notice, orphan 523941] (js ''h'') (js ''s'') (js ''t'')"
    by (simp add: snapshot_input_ok_def hex_zero_digest sample_wire_ids prior_omitted_def prior_notice_count orphan_count)
       (simp add: js_def)
  moreover have "short_parents [prior_notice, orphan 523941] = 1"
    by (simp add: short_parents_def long_parent_def prior_notice_def notice_entry_def) (simp add: js_def)
  ultimately show "\<exists>es out. snapshot_input_ok zero_digest es (js ''h'') (js ''s'') (js ''t'') \<and> short_parents es = 1 \<and>
      boundSnapshotEntries zero_digest es (js ''h'') (js ''s'') (js ''t'') = Some (Inr out) \<and>
      fst (payloadSize out) = max_snapshot_bytes + 1"
    using orphan_snapshot [of 523941] by (metis order_refl)
qed

theorem snapshot_excess_by_short_parents_witness:
  "snapshot_input_ok zero_digest [prior_notice, orphan 3] (js ''h'') (js ''s'') (js ''t'') \<and>
   (\<exists>out. boundSnapshotEntries zero_digest [prior_notice, orphan 3] (js ''h'') (js ''s'') (js ''t'') = Some (Inr out) \<and>
     fst (payloadSize out) \<le> max_snapshot_bytes + short_parents [prior_notice, orphan 3])"
proof -
  have ok: "snapshot_input_ok zero_digest [prior_notice, orphan 3] (js ''h'') (js ''s'') (js ''t'')"
    by (simp add: snapshot_input_ok_def hex_zero_digest sample_wire_ids prior_omitted_def prior_notice_count orphan_count)
       (simp add: js_def)
  show ?thesis using ok snapshot_excess_by_short_parents [OF ok] by blast
qed

end
