(* ===== verification/Preview.thy ===== *)
theory Preview
  imports ResourceRetention
begin

text \<open>
  Browser previews in the projection (client/src/projection-preview.ts and the key of
  client/src/preview.ts): the order of a preview's frames, the validation of the authority and of
  the available actions, the projected preview and the bounded activity list. The URL parser of
  the platform is a parameter: it returns the origin, the path and the search part, or fails.
\<close>

definition preview_actions_allowed :: "jsstr list" where
  "preview_actions_allowed = map js
     [''activate'', ''navigate'', ''back'', ''forward'', ''reload'', ''close'', ''capture'', ''click'',
      ''fill'', ''type'', ''press'', ''scroll'', ''select'', ''upload'', ''handoff'']"

definition appendBounded :: "'a list \<Rightarrow> 'a \<Rightarrow> nat \<Rightarrow> 'a list" where
  "appendBounded items item n =
     (if length items \<ge> n then drop (length items + 1 - n) items @ [item] else items @ [item])"

text \<open>\<open>previewKey\<close>, the three identifiers joined by the code unit 0.\<close>

definition previewKey :: "jsstr \<Rightarrow> jsstr \<Rightarrow> jsstr \<Rightarrow> jsstr" where
  "previewKey hostId sessionId previewId = hostId @ nul @ sessionId @ nul @ previewId"

datatype cursor_order = Accept | Duplicate | Gap

definition previewCursorState :: "preview_projection option \<Rightarrow> cursor \<Rightarrow> cursor_order" where
  "previewCursorState preview c =
     (case preview of
        None \<Rightarrow> Accept
      | Some p \<Rightarrow>
          if epoch c \<noteq> epoch (pp_cursor p) then Gap
          else if seq c \<le> seq (pp_cursor p) then Duplicate
          else if seq c = seq (pp_cursor p) + 1 then Accept else Gap)"

definition previewAuthority :: "jsval \<Rightarrow> preview_authority option" where
  "previewAuthority v =
     (if \<not> isRecord v then None
      else case (get_prop v ''id'', get_prop v ''label'', get_prop v ''kind'', get_prop v ''requiresExplicitOptIn'') of
          (JStr i, JStr label, JStr kind, JBool b) \<Rightarrow>
            if length i = 0 \<or> length i > 128 \<or> length label > 256 \<or>
               kind \<noteq> js ''isolated-session'' \<and> kind \<noteq> js ''authenticated-profile'' then None
            else Some \<lparr>pa_id = i, pa_label = label, pa_kind = kind, pa_requiresExplicitOptIn = b\<rparr>
        | _ \<Rightarrow> None)"

definition previewActions :: "jsval \<Rightarrow> jsstr list option" where
  "previewActions v =
     (case v of
        JArr xs \<Rightarrow>
          if length xs > length preview_actions_allowed then None
          else
            let actions = List.map_filter
                  (\<lambda>x. case x of JStr s \<Rightarrow> if s \<in> set preview_actions_allowed then Some s else None | _ \<Rightarrow> None) xs
            in if length actions = length xs \<and> length (remdups actions) = length actions then Some actions else None
      | _ \<Rightarrow> None)"

definition previewProjection :: "preview_frame \<Rightarrow> preview_projection option \<Rightarrow> preview_projection" where
  "previewProjection frame previous =
     (if pf_kind frame = PError then
        \<lparr>pp_hostId = pf_hostId frame, pp_sessionId = pf_sessionId frame, pp_previewId = pf_previewId frame,
         pp_state = Some (js ''failed''), pp_url = Option.bind previous pp_url, pp_revision = pf_revision frame,
         pp_cursor = pf_cursor frame, pp_title = Option.bind previous pp_title,
         pp_canGoBack = Option.bind previous pp_canGoBack, pp_canGoForward = Option.bind previous pp_canGoForward,
         pp_viewport = Option.bind previous pp_viewport, pp_capture = Option.bind previous pp_capture,
         pp_authority = Option.bind previous pp_authority, pp_availableActions = Option.bind previous pp_availableActions,
         pp_error = Some \<lparr>er_code = pf_code frame, er_message = pf_message frame\<rparr>, pp_freshness = PvFresh\<rparr>
      else
        \<lparr>pp_hostId = pf_hostId frame, pp_sessionId = pf_sessionId frame, pp_previewId = pf_previewId frame,
         pp_state = Some (pf_state frame), pp_url = Some (pf_url frame), pp_revision = pf_revision frame,
         pp_cursor = pf_cursor frame, pp_title = pf_title frame,
         pp_canGoBack = pf_canGoBack frame, pp_canGoForward = pf_canGoForward frame,
         pp_viewport = pf_viewport frame, pp_capture = pf_capture frame,
         pp_authority = previewAuthority (pf_authority frame), pp_availableActions = previewActions (pf_availableActions frame),
         pp_error =
           (if pf_kind frame = PState
            then map_option (\<lambda>m. \<lparr>er_code = js ''preview_state'', er_message = m\<rparr>) (pf_error frame) else None),
         pp_freshness = PvFresh\<rparr>)"

text \<open>\<open>new URL(text)\<close>: origin, path and search part, \<open>None\<close> when it throws.\<close>

type_synonym url_parser = "jsstr \<Rightarrow> (jsstr \<times> jsstr \<times> jsstr) option"

definition previewActivity :: "url_parser \<Rightarrow> preview_frame \<Rightarrow> preview_projection \<Rightarrow> preview_event option" where
  "previewActivity parse_url frame preview =
     (if pf_kind frame = PState then None
      else Some
        \<lparr>pe_type = pf_kind frame, pe_previewId = pp_previewId preview, pe_cursor = pp_cursor preview,
         pe_url = Option.bind (pp_url preview) (\<lambda>u. map_option (\<lambda>(origin, pathname, search).
             \<lparr>pu_origin = take 512 origin, pu_pathname = take 1024 pathname, pu_hasQuery = length search > 0\<rparr>) (parse_url u)),
         pe_timestamp = map_option pc_capturedAt (pp_capture preview),
         pe_captureId = map_option pc_captureId (pp_capture preview),
         pe_errorCode = map_option er_code (pp_error preview)\<rparr>)"

definition same_activity :: "preview_event \<Rightarrow> preview_event \<Rightarrow> bool" where
  "same_activity a b \<longleftrightarrow>
     pe_previewId a = pe_previewId b \<and> epoch (pe_cursor a) = epoch (pe_cursor b) \<and> seq (pe_cursor a) = seq (pe_cursor b)"

definition appendPreviewActivity :: "preview_event list \<Rightarrow> preview_event \<Rightarrow> nat \<Rightarrow> preview_event list" where
  "appendPreviewActivity events event n =
     (if list_ex (\<lambda>previous. same_activity previous event) events then events
      else appendBounded events event n)"

subsection \<open>Lemmas\<close>

lemma appendBounded_slice: "0 < n \<Longrightarrow> appendBounded items item n = slice_last n (items @ [item])"
  by (simp add: appendBounded_def slice_last_def Suc_diff_le)

lemma appendBounded_cap: "0 < n \<Longrightarrow> length (appendBounded items item n) \<le> n"
  by (simp add: appendBounded_slice length_slice_last)

lemma previewAuthority_Some:
  "previewAuthority v = Some a \<Longrightarrow>
   pa_id a \<noteq> [] \<and> length (pa_id a) \<le> 128 \<and> length (pa_label a) \<le> 256 \<and>
   pa_kind a \<in> {js ''isolated-session'', js ''authenticated-profile''}"
  by (auto simp: previewAuthority_def split: if_splits jsval.splits)

lemma previewActions_Some:
  assumes "previewActions v = Some as"
  shows "distinct as \<and> set as \<subseteq> set preview_actions_allowed \<and> v = JArr (map JStr as)"
proof -
  from assms obtain xs where v: "v = JArr xs" by (auto simp: previewActions_def split: jsval.splits)
  let ?f = "\<lambda>x. case x of JStr s \<Rightarrow> if s \<in> set preview_actions_allowed then Some s else None | _ \<Rightarrow> None"
  have as: "as = List.map_filter ?f xs" "length as = length xs" "length (remdups as) = length as"
    using assms by (auto simp: previewActions_def v Let_def split: if_splits)
  have le: "length (List.map_filter ?f ys) \<le> length ys" for ys
    by (induction ys) (auto simp: List.map_filter_simps split: option.splits)
  have all: "length (List.map_filter ?f ys) = length ys \<Longrightarrow> ys = map JStr (List.map_filter ?f ys)" for ys
  proof (induction ys)
    case (Cons y ys)
    show ?case
    proof (cases "?f y")
      case None
      with Cons.prems le [of ys] show ?thesis by (simp add: List.map_filter_simps)
    next
      case (Some s)
      then have "y = JStr s" by (simp split: jsval.splits if_splits)
      with Some Cons show ?thesis by (simp add: List.map_filter_simps)
    qed
  qed (simp add: List.map_filter_simps)
  have sub: "set (List.map_filter ?f ys) \<subseteq> set preview_actions_allowed" for ys
    by (induction ys) (auto simp: List.map_filter_simps split: option.splits jsval.splits if_splits)
  have "distinct as" using as(3) by (simp add: length_remdups_eq)
  moreover have "xs = map JStr as" using all [of xs] as(2) unfolding as(1) [symmetric] by (rule mp [OF impI])
  moreover have "set as \<subseteq> set preview_actions_allowed" using sub [of xs] unfolding as(1) [symmetric] .
  ultimately show ?thesis unfolding v by blast
qed

end
