(* ===== verification/ProjectionCore.thy ===== *)
theory ProjectionCore
  imports Preview
begin

text \<open>
  The building blocks of the client reducer (first part of client/src/projection-reducer.ts):
  keys, capped maps, the warm-session list, cursor order and the helpers of the inventory
  frames. A function that may return the very object it was given returns an option here, with
  \<open>None\<close> for that object, since the store compares by identity.

  Identifiers are control-free, so a session key has exactly two parts. With room for no warm
  session at all the code has no session to update; the model reports that as an error value, and
  it does not occur for a positive cap.
\<close>

datatype reducer_error = SessionMissing | BadWorkspace wire_error

type_synonym reduced = "reducer_error + snapshot option"

text \<open>\<open>or_same\<close> gives the object a \<open>None\<close> stands for.\<close>

definition or_same :: "'a \<Rightarrow> 'a option \<Rightarrow> 'a" where
  "or_same x r = (case r of None \<Rightarrow> x | Some y \<Rightarrow> y)"

lemma or_same_simps [simp]: "or_same x None = x" "or_same x (Some y) = y"
  by (simp_all add: or_same_def)

definition key :: "jsstr \<Rightarrow> jsstr \<Rightarrow> jsstr" where
  "key hostId sessionId = hostId @ nul @ sessionId"

definition retain_caps :: "nat \<Rightarrow> nat \<Rightarrow> nat \<Rightarrow> retain_options" where
  "retain_caps n maxBytes entryBytes =
     \<lparr>ro_maxEntries = Some (int n), ro_maxBytes = Some (int maxBytes), ro_maxEntryBytes = Some (int entryBytes)\<rparr>"

definition boundedUniqueEntries ::
  "durable_entry list \<Rightarrow> nat \<Rightarrow> nat \<Rightarrow> nat \<Rightarrow> durable_entry list \<times> jsstr list \<times> bool" where
  "boundedUniqueEntries entries n maxBytes entryBytes =
     (let bounded = retainDurableEntries entries (retain_caps n maxBytes entryBytes)
      in (re_entries bounded, map e_id (re_entries bounded), re_truncated bounded))"

definition agentTranscriptProjection ::
  "agent_transcript option \<Rightarrow> agent_transcript_frame \<Rightarrow> nat \<Rightarrow> nat \<Rightarrow> nat \<Rightarrow> agent_transcript option" where
  "agentTranscriptProjection previous frame n maxBytes entryBytes =
     (let c = af_cursor frame;
          epochChanged = (case previous of None \<Rightarrow> False | Some p \<Rightarrow> epoch (at_cursor p) \<noteq> epoch c);
          recoveringCachedBaseline = (case previous of None \<Rightarrow> False | Some p \<Rightarrow> at_freshness p = Cached)
      in if (case previous of None \<Rightarrow> False
             | Some p \<Rightarrow> \<not> epochChanged \<and> \<not> recoveringCachedBaseline \<and> seq c \<le> seq (at_cursor p))
         then None
         else
           let contiguous = (case previous of None \<Rightarrow> False
                 | Some p \<Rightarrow> \<not> epochChanged \<and> \<not> recoveringCachedBaseline \<and> seq c = seq (at_cursor p) + 1);
               source = (case previous of None \<Rightarrow> af_entries frame
                 | Some p \<Rightarrow> if contiguous then at_entries p @ af_entries frame else af_entries frame);
               (entries, entryIds, truncated) = boundedUniqueEntries source n maxBytes entryBytes
           in Some \<lparr>at_entries = entries, at_entryIds = entryIds, at_cursor = c, at_revision = af_revision frame,
                    at_freshness = Fresh,
                    at_historyTruncated = truncated \<or>
                      contiguous \<and> (case previous of None \<Rightarrow> False | Some p \<Rightarrow> at_historyTruncated p)\<rparr>)"

definition mapWith :: "('k, 'v) jsmap \<Rightarrow> 'k \<Rightarrow> 'v \<Rightarrow> nat \<Rightarrow> ('k, 'v) jsmap" where
  "mapWith m itemKey v n = jm_evict n (jm_set itemKey v m)"

text \<open>The default of the last parameter.\<close>

definition max_map_entries :: nat where
  "max_map_entries = 256"

definition mapWithout :: "('k, 'v) jsmap \<Rightarrow> 'k \<Rightarrow> ('k, 'v) jsmap" where
  "mapWithout m itemKey = jm_delete itemKey m"

definition initialSession :: "jsstr \<Rightarrow> jsstr option \<Rightarrow> freshness \<Rightarrow> session_projection" where
  "initialSession hostId sessionId fresh =
     \<lparr>sp_hostId = hostId, sp_sessionId = sessionId, sp_ref = None, sp_entries = [], sp_events = [], sp_agents = [],
      sp_agentTranscripts = [], sp_terminals = [], sp_files = [], sp_reviews = [], sp_audit = [],
      sp_confirmations = [], sp_results = [], sp_previews = [], sp_previewEvents = [],
      sp_revision = None, sp_cursor = None, sp_epoch = None, sp_freshness = fresh,
      sp_transcriptEventArrivalOrdinal = 0, sp_contextMaintenanceEventArrivalOrdinal = 0, sp_gap = None,
      sp_historyTruncated = False, sp_entryIds = []\<rparr>"

definition createProjectionSnapshot :: snapshot where
  "createProjectionSnapshot =
     \<lparr>sn_sessions = [], sn_activeSessionKey = None, sn_sessionIndex = [], sn_sessionIndexMetadata = [],
      sn_sessionRefArrivalOrdinals = [], sn_sessionDeltaCursors = [], sn_sessionInventoryCursors = [],
      sn_workspaces = [], sn_workspaceCursors = [], sn_lru = [], sn_cursor = None, sn_epoch = None,
      sn_freshness = Fresh, sn_arrivalOrdinal = 0\<rparr>"

subsection \<open>Workspace inventory\<close>

definition of_host :: "jsstr \<Rightarrow> jsstr \<Rightarrow> bool" where
  "of_host host itemKey \<longleftrightarrow> starts_with (host @ nul) itemKey"

fun put_workspaces ::
  "jsstr \<Rightarrow> nat \<Rightarrow> jsval list \<Rightarrow> (jsstr, workspace) jsmap \<Rightarrow> reducer_error + (jsstr, workspace) jsmap" where
  "put_workspaces host n [] m = Inr m"
| "put_workspaces host n (raw # rows) m =
     (case decodeWorkspaceInfrastructureProjection raw of
        Inl e \<Rightarrow> Inl (BadWorkspace e)
      | Inr w \<Rightarrow> put_workspaces host n rows (mapWith m (key host (ws_id w)) w n))"

definition applyWorkspaceInventory :: "snapshot \<Rightarrow> jsstr \<Rightarrow> jsval list \<Rightarrow> cursor option \<Rightarrow> nat \<Rightarrow> reduced" where
  "applyWorkspaceInventory s host rows c n =
     (if (case (c, jm_get (sn_workspaceCursors s) host) of
            (Some cur, Some previous) \<Rightarrow> epoch previous = epoch cur \<and> seq cur < seq previous
          | _ \<Rightarrow> False)
      then Inr None
      else
        let stale = filter (of_host host) (jm_keys (sn_workspaces s)) in
        case put_workspaces host n (take n rows) (fold jm_delete stale (sn_workspaces s)) of
          Inl e \<Rightarrow> Inl e
        | Inr nextWorkspaces \<Rightarrow>
            if stale = [] \<and> take n rows = [] \<and> c = None then Inr None
            else Inr (Some (s\<lparr>sn_workspaces := nextWorkspaces,
              sn_workspaceCursors :=
                (case c of None \<Rightarrow> sn_workspaceCursors s
                 | Some cur \<Rightarrow> mapWith (sn_workspaceCursors s) host cur n)\<rparr>)))"

subsection \<open>Arrival order\<close>

definition nextArrivalOrdinal :: "snapshot \<Rightarrow> int" where
  "nextArrivalOrdinal s =
     (if sn_arrivalOrdinal s < max_safe_integer then sn_arrivalOrdinal s + 1 else max_safe_integer)"

definition event_type :: "jsval \<Rightarrow> string \<Rightarrow> bool" where
  "event_type event t \<longleftrightarrow> get_prop event ''type'' = JStr (js t)"

definition eventChangesContextMaintenance :: "jsval \<Rightarrow> bool" where
  "eventChangesContextMaintenance event \<longleftrightarrow>
     event_type event ''compaction.start'' \<or> event_type event ''compaction.end'' \<or>
     event_type event ''turn.start'' \<or> event_type event ''turn.end''"

subsection \<open>Warm sessions\<close>

text \<open>\<open>sessionKey.split("\0")\<close>, the first two parts.\<close>

definition key_host :: "jsstr \<Rightarrow> jsstr" where
  "key_host sessionKey = takeWhile (\<lambda>c. c \<noteq> 0) sessionKey"

definition key_session :: "jsstr \<Rightarrow> jsstr option" where
  "key_session sessionKey =
     (case dropWhile (\<lambda>c. c \<noteq> 0) sessionKey of [] \<Rightarrow> None | _ # rest \<Rightarrow> Some (takeWhile (\<lambda>c. c \<noteq> 0) rest))"

definition last_key :: "'a list \<Rightarrow> 'a option" where
  "last_key xs = (if xs = [] then None else Some (last xs))"

fun evict_lru :: "nat \<Rightarrow> jsstr list \<Rightarrow> (jsstr, 'v) jsmap \<Rightarrow> jsstr list \<times> (jsstr, 'v) jsmap" where
  "evict_lru n [] sessions = ([], sessions)"
| "evict_lru n (k # lru) sessions =
     (if length (k # lru) > n then evict_lru n lru (mapWithout sessions k) else (k # lru, sessions))"

definition active_or_last :: "jsstr option \<Rightarrow> jsstr list \<Rightarrow> jsstr option" where
  "active_or_last active lru =
     (case active of Some a \<Rightarrow> if a \<in> set lru then Some a else last_key lru | None \<Rightarrow> last_key lru)"

definition touch_session :: "snapshot \<Rightarrow> jsstr \<Rightarrow> caps \<Rightarrow> snapshot option" where
  "touch_session s sessionKey options =
     (let existing = jm_get (sn_sessions s) sessionKey in
      if existing \<noteq> None \<and> last_key (sn_lru s) = Some sessionKey \<and> length (sn_lru s) \<le> maxWarmSessions options \<and>
         (case sn_activeSessionKey s of None \<Rightarrow> False | Some a \<Rightarrow> a \<in> set (sn_lru s))
      then None
      else
        let lru = filter (\<lambda>item. item \<noteq> sessionKey) (sn_lru s) @ [sessionKey];
            sessions = (if existing = None
              then mapWith (sn_sessions s) sessionKey
                     (initialSession (key_host sessionKey) (key_session sessionKey) Fresh) max_map_entries
              else sn_sessions s);
            (lru, sessions) = evict_lru (maxWarmSessions options) lru sessions
        in Some (s\<lparr>sn_sessions := sessions, sn_lru := lru,
                   sn_activeSessionKey := active_or_last (sn_activeSessionKey s) lru\<rparr>))"

definition withSession ::
  "snapshot \<Rightarrow> jsstr \<Rightarrow> (session_projection \<Rightarrow> session_projection option) \<Rightarrow> caps \<Rightarrow> int option \<Rightarrow> reduced" where
  "withSession s sessionKey update options arrivalOrdinal =
     (let touched = touch_session s sessionKey options; warmed = or_same s touched in
      case jm_get (sn_sessions warmed) sessionKey of
        None \<Rightarrow> Inl SessionMissing
      | Some current \<Rightarrow>
          (case update current of
             None \<Rightarrow>
               (case arrivalOrdinal of
                  None \<Rightarrow> Inr touched
                | Some n \<Rightarrow>
                    if sn_arrivalOrdinal warmed = n then Inr touched else Inr (Some (warmed\<lparr>sn_arrivalOrdinal := n\<rparr>)))
           | Some updated \<Rightarrow>
               let next = warmed\<lparr>sn_sessions := mapWith (sn_sessions warmed) sessionKey updated max_map_entries\<rparr>
               in Inr (Some (case arrivalOrdinal of None \<Rightarrow> next | Some n \<Rightarrow> next\<lparr>sn_arrivalOrdinal := n\<rparr>))))"

definition updateRoot :: "snapshot \<Rightarrow> cursor option \<Rightarrow> jsstr option \<Rightarrow> freshness option \<Rightarrow> snapshot" where
  "updateRoot s c e f =
     s\<lparr>sn_cursor := (case c of None \<Rightarrow> sn_cursor s | Some _ \<Rightarrow> c),
       sn_epoch := (case e of None \<Rightarrow> sn_epoch s | Some _ \<Rightarrow> e),
       sn_freshness := (case f of None \<Rightarrow> sn_freshness s | Some g \<Rightarrow> g)\<rparr>"

subsection \<open>Cursors and inventories\<close>

definition cursorState :: "session_projection \<Rightarrow> cursor \<Rightarrow> cursor_order" where
  "cursorState session c =
     (if sp_freshness session = CatchingUp then Gap
      else case sp_cursor session of
        None \<Rightarrow> Accept
      | Some previous \<Rightarrow>
          if epoch c \<noteq> epoch previous then Gap
          else if seq c \<le> seq previous then Duplicate
          else if seq c = seq previous + 1 then Accept else Gap)"

definition sessionDeltaCursorIsStale :: "cursor option \<Rightarrow> cursor \<Rightarrow> bool" where
  "sessionDeltaCursorIsStale previous c \<longleftrightarrow>
     (case previous of None \<Rightarrow> False | Some p \<Rightarrow> epoch p = epoch c \<and> seq c \<le> seq p)"

text \<open>\<open>String(ref.name)\<close> of a session reference, whose named members are strings.\<close>

definition ref_str :: "jsval \<Rightarrow> string \<Rightarrow> jsstr" where
  "ref_str ref name = (case get_prop ref name of JStr s \<Rightarrow> s | _ \<Rightarrow> js ''undefined'')"

definition ref_key :: "jsval \<Rightarrow> jsstr" where
  "ref_key ref = key (ref_str ref ''hostId'') (ref_str ref ''sessionId'')"

fun most_recent :: "(jsstr \<times> jsval) list \<Rightarrow> (jsstr \<times> jsstr) option \<Rightarrow> (jsstr \<times> jsstr) option" where
  "most_recent [] selected = selected"
| "most_recent ((sessionKey, ref) # m) selected =
     (let updatedAt = ref_str ref ''updatedAt'' in
      most_recent m
        (case selected of
           None \<Rightarrow> Some (sessionKey, updatedAt)
         | Some (k, u) \<Rightarrow>
             if u < updatedAt \<or> updatedAt = u \<and> sessionKey < k then Some (sessionKey, updatedAt) else selected))"

definition mostRecentSessionKey :: "(jsstr, jsval) jsmap \<Rightarrow> jsstr option" where
  "mostRecentSessionKey sessionIndex = map_option fst (most_recent sessionIndex None)"

definition withoutHostRefOrdinals :: "(jsstr, int) jsmap \<Rightarrow> jsstr \<Rightarrow> (jsstr, int) jsmap" where
  "withoutHostRefOrdinals ordinals hostId = fold jm_delete (filter (of_host hostId) (jm_keys ordinals)) ordinals"

definition authoritativeSessionHosts :: "sessions_frame \<Rightarrow> jsval list \<Rightarrow> jsstr list" where
  "authoritativeSessionHosts frame refs =
     (let hosts = rev (remdups (rev (map (\<lambda>ref. ref_str ref ''hostId'') refs)))
      in case boundedIdentity (ss_hostId frame) of
           None \<Rightarrow> hosts | Some h \<Rightarrow> if h \<in> set hosts then hosts else hosts @ [h])"

definition safe_count :: "jsval \<Rightarrow> int option" where
  "safe_count v = (case v of JNum (JInt n) \<Rightarrow> if is_safe_integer n then Some n else None | JNum JNegZero \<Rightarrow> Some 0 | _ \<Rightarrow> None)"

definition sessionFrameMetadata ::
  "sessions_frame \<Rightarrow> jsval list \<Rightarrow> nat \<Rightarrow> jsstr list \<Rightarrow> (jsstr, index_metadata) jsmap" where
  "sessionFrameMetadata frame refs n hosts =
     (let totalCount = (case safe_count (ss_totalCount frame) of Some c \<Rightarrow> if c \<ge> 0 then Some c else None | None \<Rightarrow> None);
          truncated = (case ss_truncated frame of
              JBool b \<Rightarrow> b
            | _ \<Rightarrow> (case totalCount of None \<Rightarrow> length refs \<ge> n | Some c \<Rightarrow> c > int (length refs)))
      in jm_of_entries (map (\<lambda>hostId.
           (hostId,
            \<lparr>im_totalCount = (case totalCount of Some c \<Rightarrow> c
                | None \<Rightarrow> int (length (filter (\<lambda>ref. ref_str ref ''hostId'' = hostId) refs))),
             im_truncated = truncated\<rparr>)) hosts))"

definition sessionFrameIsComplete :: "sessions_frame \<Rightarrow> jsval list \<Rightarrow> nat \<Rightarrow> bool" where
  "sessionFrameIsComplete frame refs n =
     (if ss_truncated frame = JBool True then False
      else if (case safe_count (ss_totalCount frame) of Some c \<Rightarrow> c > int (length refs) | None \<Rightarrow> False) then False
      else ss_truncated frame = JBool False \<or> length refs < n)"

end
