(* ===== verification/ResourceReducers.thy ===== *)
theory ResourceReducers
  imports ProjectionCore
begin

text \<open>
  The reducers of the frames that belong to one resource of a session
  (client/src/projection-resource-reducers.ts): previews, terminals, files, reviews, the audit
  trail, confirmations and responses. The functions the root reducer injects are called
  directly. \<open>reduceResourceProjection\<close> is \<open>None\<close> for the frames the root reducer owns.
\<close>

definition confirmationsAfterResponse ::
  "(jsstr, confirmation_frame) jsmap \<Rightarrow> result_frame \<Rightarrow> (jsstr, confirmation_frame) jsmap" where
  "confirmationsAfterResponse confirmations frame =
     (let invalid = (case xf_error frame of None \<Rightarrow> False | Some e \<Rightarrow> er_code e = js ''confirmation_invalid'');
          command = (case xf_commandId frame of None \<Rightarrow> js ''undefined'' | Some c \<Rightarrow> c)
      in filter (\<lambda>(k, challenge). cf_commandId challenge \<noteq> command \<or> invalid) confirmations)"

definition resultProjection :: "result_frame \<Rightarrow> result_projection" where
  "resultProjection frame =
     \<lparr>rp_requestId = xf_requestId frame, rp_commandId = xf_commandId frame, rp_ok = xf_ok frame,
      rp_result = (if xf_result frame = JUndef then JUndef else safeValue (xf_result frame)),
      rp_error = xf_error frame\<rparr>"

definition attachAcknowledgesCurrentCursor :: "session_projection \<Rightarrow> result_frame \<Rightarrow> bool" where
  "attachAcknowledgesCurrentCursor session frame =
     (case sp_cursor session of
        None \<Rightarrow> False
      | Some c \<Rightarrow>
          if \<not> xf_ok frame \<or> xf_command frame \<noteq> Some (js ''session.attach'') \<or> \<not> isRecord (xf_result frame) then False
          else if get_prop (xf_result frame) ''attached'' \<noteq> JBool True then False
          else case get_prop (xf_result frame) ''cursor'' of
              JObj kvs \<Rightarrow>
                isCursor (JObj kvs) \<and> get_prop (JObj kvs) ''epoch'' = JStr (epoch c) \<and>
                (case get_prop (JObj kvs) ''seq'' of
                   JNum (JInt n) \<Rightarrow> n = seq c | JNum JNegZero \<Rightarrow> seq c = 0 | _ \<Rightarrow> False)
            | _ \<Rightarrow> False)"

subsection \<open>Previews\<close>

definition mark_stale :: "jsstr \<Rightarrow> caps \<Rightarrow> session_projection \<Rightarrow> session_projection option" where
  "mark_stale previewMapKey config session =
     (case jm_get (sp_previews session) previewMapKey of
        None \<Rightarrow> None
      | Some previous \<Rightarrow>
          if pp_freshness previous = PvStale then None
          else Some (session\<lparr>sp_previews :=
            mapWith (sp_previews session) previewMapKey (previous\<lparr>pp_freshness := PvStale\<rparr>) (maxPreviews config)\<rparr>))"

definition reducePreview :: "url_parser \<Rightarrow> snapshot \<Rightarrow> preview_frame \<Rightarrow> caps \<Rightarrow> reduced" where
  "reducePreview parse_url s frame config =
     (let sessionKey = key (pf_hostId frame) (pf_sessionId frame);
          previewMapKey = previewKey (pf_hostId frame) (pf_sessionId frame) (pf_previewId frame);
          current = Option.bind (jm_get (sn_sessions s) sessionKey) (\<lambda>session. jm_get (sp_previews session) previewMapKey);
          order = previewCursorState current (pf_cursor frame);
          baseline = (pf_kind frame = PLaunch \<or> pf_kind frame = PState)
      in if \<not> baseline \<and> order = Duplicate then Inr None
         else if order = Gap \<and> \<not> baseline then withSession s sessionKey (mark_stale previewMapKey config) config None
         else if (case current of None \<Rightarrow> False | Some p \<Rightarrow> pp_freshness p \<noteq> PvFresh) \<and> \<not> baseline
           then withSession s sessionKey (mark_stale previewMapKey config) config None
         else
           let projected = previewProjection frame current;
               activity = previewActivity parse_url frame projected
           in withSession s sessionKey
                (\<lambda>session. Some (session\<lparr>
                   sp_previews := mapWith (sp_previews session) previewMapKey projected (maxPreviews config),
                   sp_previewEvents :=
                     (case activity of None \<Rightarrow> sp_previewEvents session
                      | Some a \<Rightarrow> appendPreviewActivity (sp_previewEvents session) a (maxPreviewEvents config))\<rparr>))
                config None)"

subsection \<open>The other resources\<close>

definition new_terminal :: "jsstr \<Rightarrow> terminal_projection" where
  "new_terminal terminalId =
     \<lparr>tp_terminalId = terminalId, tp_stdout = [], tp_stderr = [], tp_exitCode = None, tp_closed = False\<rparr>"

definition terminal_after :: "terminal_projection \<Rightarrow> terminal_frame \<Rightarrow> terminal_projection" where
  "terminal_after existing frame =
     (let data' = (case tf_data frame of None \<Rightarrow> [] | Some d \<Rightarrow> d);
          t = (case tf_stream frame of
                 Stdout \<Rightarrow> existing\<lparr>tp_stdout := tp_stdout existing @ data'\<rparr>
               | Stderr \<Rightarrow> existing\<lparr>tp_stderr := tp_stderr existing @ data'\<rparr>
               | Exit \<Rightarrow> existing\<lparr>tp_closed := True\<rparr>)
      in case tf_exitCode frame of None \<Rightarrow> t | Some c \<Rightarrow> t\<lparr>tp_exitCode := Some c\<rparr>)"

definition reduceTerminal :: "snapshot \<Rightarrow> terminal_frame \<Rightarrow> caps \<Rightarrow> reduced" where
  "reduceTerminal s frame config =
     withSession s (key (tf_hostId frame) (tf_sessionId frame))
       (\<lambda>session.
          let existing = (case jm_get (sp_terminals session) (tf_terminalId frame) of
                None \<Rightarrow> new_terminal (tf_terminalId frame) | Some t \<Rightarrow> t)
          in Some (session\<lparr>sp_terminals :=
               retainTerminalProjection (sp_terminals session) (tf_terminalId frame) (terminal_after existing frame) config
                 (if tf_stream frame = Stderr then OStderr else OStdout)\<rparr>))
       config None"

definition reduceFiles :: "snapshot \<Rightarrow> file_frame \<Rightarrow> caps \<Rightarrow> reduced" where
  "reduceFiles s frame config =
     withSession s (key (ff_hostId frame) (ff_sessionId frame))
       (\<lambda>session. Some (session\<lparr>sp_files := retainFileProjection (sp_files session) (ff_path frame) frame config\<rparr>))
       config None"

definition reduceReview :: "snapshot \<Rightarrow> review_frame \<Rightarrow> caps \<Rightarrow> reduced" where
  "reduceReview s frame config =
     withSession s (key (rf_hostId frame) (rf_sessionId frame))
       (\<lambda>session. Some (session\<lparr>sp_reviews :=
          mapWith (sp_reviews session) (rf_reviewId frame) (frame\<lparr>rf_findings := map safeValue (rf_findings frame)\<rparr>)
            max_map_entries\<rparr>))
       config None"

definition reduceAudit :: "snapshot \<Rightarrow> audit_frame \<Rightarrow> caps \<Rightarrow> reduced" where
  "reduceAudit s frame config =
     (case uf_sessionId frame of
        None \<Rightarrow> Inr None
      | Some sessionId \<Rightarrow>
          withSession s (key (uf_hostId frame) sessionId)
            (\<lambda>session. Some (session\<lparr>sp_audit :=
               appendBounded (sp_audit session)
                 (if uf_detail frame = JUndef then frame else frame\<lparr>uf_detail := safeValue (uf_detail frame)\<rparr>)
                 (maxAudit config)\<rparr>))
            config None)"

definition reduceConfirmation :: "snapshot \<Rightarrow> confirmation_frame \<Rightarrow> caps \<Rightarrow> reduced" where
  "reduceConfirmation s frame config =
     (case cf_sessionId frame of
        None \<Rightarrow> Inr None
      | Some sessionId \<Rightarrow>
          withSession s (key (cf_hostId frame) sessionId)
            (\<lambda>session. Some (session\<lparr>sp_confirmations :=
               mapWith (sp_confirmations session) (cf_confirmationId frame) frame max_map_entries\<rparr>))
            config None)"

definition reduceResponse :: "snapshot \<Rightarrow> result_frame \<Rightarrow> caps \<Rightarrow> reduced" where
  "reduceResponse s frame config =
     (case xf_sessionId frame of
        None \<Rightarrow> Inr None
      | Some sessionId \<Rightarrow>
          withSession s (key (xf_hostId frame) sessionId)
            (\<lambda>session.
               let next = session\<lparr>
                 sp_confirmations := confirmationsAfterResponse (sp_confirmations session) frame,
                 sp_results := mapWith (sp_results session) (xf_requestId frame) (resultProjection frame) max_map_entries\<rparr>
               in Some (if attachAcknowledgesCurrentCursor session frame
                        then next\<lparr>sp_freshness := Fresh, sp_gap := None\<rparr> else next))
            config None)"

definition reduceResourceProjection :: "url_parser \<Rightarrow> snapshot \<Rightarrow> projection_frame \<Rightarrow> caps \<Rightarrow> reduced option" where
  "reduceResourceProjection parse_url s frame config =
     (case frame of
        FPreview f \<Rightarrow> Some (reducePreview parse_url s f config)
      | FTerminal f \<Rightarrow> Some (reduceTerminal s f config)
      | FFiles f \<Rightarrow> Some (reduceFiles s f config)
      | FReview f \<Rightarrow> Some (reduceReview s f config)
      | FAudit f \<Rightarrow> Some (reduceAudit s f config)
      | FConfirmation f \<Rightarrow> Some (reduceConfirmation s f config)
      | FResponse f \<Rightarrow> Some (reduceResponse s f config)
      | _ \<Rightarrow> None)"

end
