(* ===== verification/ProjectionReducer.thy ===== *)
theory ProjectionReducer
  imports ResourceReducers
begin

text \<open>
  The root reducer of the client projection (client/src/projection-reducer.ts, from
  \<open>applyProjectionInput\<close> on), one definition per frame type. The platform's locale-aware string
  comparison and its URL parser are parameters.
\<close>

record platform =
  parse_url :: url_parser
  localeCompare :: "jsstr \<Rightarrow> jsstr \<Rightarrow> int"

subsection \<open>Workspaces\<close>

definition reduceWorkspaceState :: "snapshot \<Rightarrow> workspace_state_frame \<Rightarrow> caps \<Rightarrow> reduced" where
  "reduceWorkspaceState s frame config =
     (case (boundedIdentity (wk_hostId frame), boundedIdentity (wk_workspaceId frame)) of
        (Some host, Some workspaceId) \<Rightarrow>
          if (case jm_get (sn_workspaceCursors s) host of
                None \<Rightarrow> False
              | Some previous \<Rightarrow> epoch previous = epoch (wk_cursor frame) \<and> seq (wk_cursor frame) \<le> seq previous)
          then Inr None
          else
            let done = (\<lambda>ws. Inr (Some (s\<lparr>sn_workspaces := ws,
                  sn_workspaceCursors := mapWith (sn_workspaceCursors s) host (wk_cursor frame) (maxWorkspaces config)\<rparr>)))
            in if wk_upsert frame \<noteq> JUndef then
                 (case decodeWorkspaceInfrastructureProjection (wk_upsert frame) of
                    Inl e \<Rightarrow> Inl (BadWorkspace e)
                  | Inr w \<Rightarrow>
                      if ws_id w \<noteq> workspaceId then Inr None
                      else done (mapWith (sn_workspaces s) (key host workspaceId) w (maxWorkspaces config)))
               else (case wk_remove frame of
                    Some r \<Rightarrow>
                      if r \<noteq> workspaceId then Inr None else done (mapWithout (sn_workspaces s) (key host workspaceId))
                  | None \<Rightarrow> Inr None)
      | _ \<Rightarrow> Inr None)"

subsection \<open>The session inventory\<close>

definition inventory_refs :: "sessions_frame \<Rightarrow> caps \<Rightarrow> jsval list" where
  "inventory_refs frame config = List.map_filter sanitizeSessionRef (take (maxIndexedSessions config) (ss_sessions frame))"

definition inventory_stale :: "snapshot \<Rightarrow> sessions_frame \<Rightarrow> jsstr list \<Rightarrow> bool" where
  "inventory_stale s frame hosts \<longleftrightarrow>
     list_ex (\<lambda>host. case jm_get (sn_sessionInventoryCursors s) host of
        None \<Rightarrow> False
      | Some previous \<Rightarrow> epoch previous = epoch (ss_cursor frame) \<and> seq (ss_cursor frame) < seq previous) hosts"

definition clear_active :: "jsstr list \<Rightarrow> jsstr option \<Rightarrow> jsstr option" where
  "clear_active removed active = (case active of Some a \<Rightarrow> if a \<in> set removed then None else active | None \<Rightarrow> None)"

text \<open>The two loops of a complete inventory: rows that are gone, then warm sessions that are gone.\<close>

definition prune_gone :: "snapshot \<Rightarrow> jsstr list \<Rightarrow> jsstr list \<Rightarrow> snapshot" where
  "prune_gone s hosts incomingKeys =
     (let gone = map fst (filter (\<lambda>(k, ref). ref_str ref ''hostId'' \<in> set hosts \<and> k \<notin> set incomingKeys) (sn_sessionIndex s));
          warm = fold jm_delete gone (sn_sessions s);
          goneWarm = map fst (filter (\<lambda>(k, w). sp_hostId w \<in> set hosts \<and> k \<notin> set incomingKeys) warm)
      in s\<lparr>sn_sessionIndex := fold jm_delete gone (sn_sessionIndex s),
           sn_sessionRefArrivalOrdinals := fold jm_delete gone (sn_sessionRefArrivalOrdinals s),
           sn_sessions := fold jm_delete goneWarm warm,
           sn_sessionDeltaCursors := fold jm_delete goneWarm (fold jm_delete gone (sn_sessionDeltaCursors s)),
           sn_activeSessionKey := clear_active goneWarm (clear_active gone (sn_activeSessionKey s))\<rparr>)"

definition compare_rows :: "(jsstr \<Rightarrow> jsstr \<Rightarrow> int) \<Rightarrow> jsstr \<times> jsval \<Rightarrow> jsstr \<times> jsval \<Rightarrow> int" where
  "compare_rows lc left right =
     (let c = lc (ref_str (snd left) ''updatedAt'') (ref_str (snd right) ''updatedAt'')
      in if c \<noteq> 0 then c else lc (fst left) (fst right))"

definition retained_rows ::
  "(jsstr \<Rightarrow> jsstr \<Rightarrow> int) \<Rightarrow> (jsstr, jsval) jsmap \<Rightarrow> jsstr list \<Rightarrow> nat \<Rightarrow> (jsstr \<times> jsval) list" where
  "retained_rows lc sessionIndex incomingKeys capacity =
     (if capacity = 0 then []
      else slice_last capacity
        (sort_by (compare_rows lc) (filter (\<lambda>(k, ref). k \<notin> set incomingKeys) sessionIndex)))"

definition put_all :: "nat \<Rightarrow> ('k \<times> 'v) list \<Rightarrow> ('k, 'v) jsmap \<Rightarrow> ('k, 'v) jsmap" where
  "put_all n entries m = fold (\<lambda>(k, v) m. mapWith m k v n) entries m"

definition update_warm_refs :: "jsval list \<Rightarrow> snapshot \<Rightarrow> snapshot" where
  "update_warm_refs refs s =
     fold (\<lambda>ref s.
       case jm_get (sn_sessions s) (ref_key ref) of
         None \<Rightarrow> s
       | Some existing \<Rightarrow>
           s\<lparr>sn_sessions := mapWith (sn_sessions s) (ref_key ref)
               (existing\<lparr>sp_ref := Some ref, sp_revision := Some (ref_str ref ''revision'')\<rparr>) max_map_entries\<rparr>)
       refs s"

definition inventory_pruned :: "snapshot \<Rightarrow> sessions_frame \<Rightarrow> jsval list \<Rightarrow> jsstr list \<Rightarrow> caps \<Rightarrow> snapshot" where
  "inventory_pruned s frame refs hosts config =
     (if sessionFrameIsComplete frame refs (maxIndexedSessions config)
      then prune_gone s hosts (map ref_key refs) else s)"

definition keeps_ordinal :: "snapshot \<Rightarrow> jsstr list \<Rightarrow> (jsstr \<times> jsval) list \<Rightarrow> jsstr \<times> int \<Rightarrow> bool" where
  "keeps_ordinal s hosts retainedEntries p \<longleftrightarrow>
     fst p \<in> fst ` set retainedEntries \<and>
     (case jm_get (sn_sessionIndex s) (fst p) of None \<Rightarrow> False | Some ref \<Rightarrow> ref_str ref ''hostId'' \<notin> set hosts)"

text \<open>The snapshot with the inventory installed, before a session is made active.\<close>

definition inventory_installed :: "platform \<Rightarrow> snapshot \<Rightarrow> sessions_frame \<Rightarrow> jsval list \<Rightarrow> jsstr list \<Rightarrow> caps \<Rightarrow> snapshot" where
  "inventory_installed pl s frame refs hosts config =
     (let arrivalOrdinal = nextArrivalOrdinal s;
          pruned = inventory_pruned s frame refs hosts config;
          retainedEntries = retained_rows (localeCompare pl) (sn_sessionIndex pruned) (map ref_key refs)
            (maxIndexedSessions config - length refs)
      in pruned\<lparr>
           sn_sessionIndex := jm_of_entries (retainedEntries @ map (\<lambda>ref. (ref_key ref, ref)) refs),
           sn_sessionIndexMetadata := put_all (maxIndexedSessions config)
             (sessionFrameMetadata frame refs (maxIndexedSessions config) hosts) (sn_sessionIndexMetadata s),
           sn_sessionRefArrivalOrdinals :=
             jm_of_entries (filter (keeps_ordinal s hosts retainedEntries) (sn_sessionRefArrivalOrdinals s) @
               map (\<lambda>ref. (ref_key ref, arrivalOrdinal)) refs),
           sn_sessionInventoryCursors := put_all (maxIndexedSessions config)
             (map (\<lambda>h. (h, ss_cursor frame)) hosts) (sn_sessionInventoryCursors s),
           sn_lru := filter (\<lambda>k. jm_has (sn_sessions pruned) k) (sn_lru s),
           sn_arrivalOrdinal := arrivalOrdinal\<rparr>)"

definition make_active :: "snapshot \<Rightarrow> caps \<Rightarrow> snapshot" where
  "make_active next config =
     (case (case sn_activeSessionKey next of Some a \<Rightarrow> Some a | None \<Rightarrow> mostRecentSessionKey (sn_sessionIndex next)) of
        None \<Rightarrow> next
      | Some a \<Rightarrow> (or_same next (touch_session next a config))\<lparr>sn_activeSessionKey := Some a\<rparr>)"

definition reduceSessions :: "platform \<Rightarrow> snapshot \<Rightarrow> sessions_frame \<Rightarrow> caps \<Rightarrow> reduced" where
  "reduceSessions pl s frame config =
     (let refs = inventory_refs frame config;
          hosts = authoritativeSessionHosts frame refs
      in if inventory_stale s frame hosts then Inr None
         else
           let next = make_active (inventory_installed pl s frame refs hosts config) config
           in Inr (Some (updateRoot (update_warm_refs refs next) (Some (ss_cursor frame)) None (Some Fresh))))"

subsection \<open>One changed session\<close>

definition delta_upsert :: "snapshot \<Rightarrow> jsstr \<Rightarrow> jsstr \<Rightarrow> jsval \<Rightarrow> int \<Rightarrow> caps \<Rightarrow> snapshot" where
  "delta_upsert s hostId ownerKey upsert arrivalOrdinal config =
     (let existingRef = jm_get (sn_sessionIndex s) ownerKey;
          canStoreRef = (existingRef \<noteq> None \<or> length (sn_sessionIndex s) < maxIndexedSessions config)
      in s\<lparr>sn_sessionRefArrivalOrdinals :=
             (if canStoreRef then mapWith (sn_sessionRefArrivalOrdinals s) ownerKey arrivalOrdinal (maxIndexedSessions config)
              else sn_sessionRefArrivalOrdinals s),
           sn_sessionIndex :=
             (case existingRef of
                None \<Rightarrow> if canStoreRef then mapWith (sn_sessionIndex s) ownerKey upsert (maxIndexedSessions config)
                        else sn_sessionIndex s
              | Some ref \<Rightarrow> if \<not> sameSafeValue ref upsert
                  then mapWith (sn_sessionIndex s) ownerKey upsert (maxIndexedSessions config) else sn_sessionIndex s),
           sn_sessionIndexMetadata :=
             (case jm_get (sn_sessionIndexMetadata s) hostId of
                None \<Rightarrow> sn_sessionIndexMetadata s
              | Some metadata \<Rightarrow>
                  if existingRef = None \<and> \<not> im_truncated metadata
                  then mapWith (sn_sessionIndexMetadata s) hostId
                         (metadata\<lparr>im_totalCount := im_totalCount metadata + 1\<rparr>) (maxIndexedSessions config)
                  else sn_sessionIndexMetadata s),
           sn_sessions :=
             (case jm_get (sn_sessions s) ownerKey of
                None \<Rightarrow> sn_sessions s
              | Some ownerWarm \<Rightarrow>
                  mapWith (sn_sessions s) ownerKey
                    (ownerWarm\<lparr>sp_ref := Some upsert, sp_revision := Some (ref_str upsert ''revision'')\<rparr>)
                    (maxWarmSessions config))\<rparr>)"

definition delta_remove :: "snapshot \<Rightarrow> jsstr \<Rightarrow> jsstr \<Rightarrow> caps \<Rightarrow> snapshot" where
  "delta_remove s hostId targetKey config =
     (let existingRef = jm_get (sn_sessionIndex s) targetKey;
          lru = filter (\<lambda>item. item \<noteq> targetKey) (sn_lru s)
      in s\<lparr>sn_sessionIndex := mapWithout (sn_sessionIndex s) targetKey,
           sn_sessionRefArrivalOrdinals := mapWithout (sn_sessionRefArrivalOrdinals s) targetKey,
           sn_sessions := mapWithout (sn_sessions s) targetKey,
           sn_lru := lru,
           sn_activeSessionKey :=
             (if sn_activeSessionKey s = Some targetKey then last_key lru else sn_activeSessionKey s),
           sn_sessionIndexMetadata :=
             (case jm_get (sn_sessionIndexMetadata s) hostId of
                None \<Rightarrow> sn_sessionIndexMetadata s
              | Some metadata \<Rightarrow>
                  if existingRef \<noteq> None
                  then mapWith (sn_sessionIndexMetadata s) hostId
                         (metadata\<lparr>im_totalCount := max 0 (im_totalCount metadata - 1)\<rparr>) (maxIndexedSessions config)
                  else sn_sessionIndexMetadata s)\<rparr>)"

definition reduceSessionDelta :: "snapshot \<Rightarrow> session_delta_frame \<Rightarrow> caps \<Rightarrow> reduced" where
  "reduceSessionDelta s frame config =
     (case (boundedIdentity (sd_hostId frame), boundedIdentity (sd_sessionId frame)) of
        (Some hostId, Some frameSessionId) \<Rightarrow>
          let upsert = (if sd_upsert frame = JUndef then None else sanitizeSessionRef (sd_upsert frame));
              remove = (if sd_remove frame = JUndef then None else boundedIdentity (sd_remove frame))
          in if sd_upsert frame \<noteq> JUndef \<and> upsert = None then Inr None
             else if (case upsert of None \<Rightarrow> False
                      | Some u \<Rightarrow> ref_str u ''hostId'' \<noteq> hostId \<or> ref_str u ''sessionId'' \<noteq> frameSessionId) then Inr None
             else if upsert = None \<and> remove = None then Inr None
             else
               let ownerKey = key hostId frameSessionId;
                   targetKey = key hostId (case upsert of None \<Rightarrow> (case remove of Some r \<Rightarrow> r | None \<Rightarrow> []) | Some u \<Rightarrow> frameSessionId)
               in if sessionDeltaCursorIsStale (jm_get (sn_sessionDeltaCursors s) ownerKey) (sd_cursor frame) then Inr None
                  else
                    let arrivalOrdinal = nextArrivalOrdinal s;
                        next = (case upsert of
                            Some u \<Rightarrow> delta_upsert s hostId ownerKey u arrivalOrdinal config
                          | None \<Rightarrow> delta_remove s hostId targetKey config)
                    in Inr (Some (next\<lparr>
                         sn_sessionDeltaCursors :=
                           mapWith (sn_sessionDeltaCursors s) ownerKey (sd_cursor frame) (maxIndexedSessions config),
                         sn_arrivalOrdinal := arrivalOrdinal\<rparr>))
      | _ \<Rightarrow> Inr None)"

subsection \<open>Transcripts\<close>

definition is_settlement :: "event_frame \<Rightarrow> bool" where
  "is_settlement e \<longleftrightarrow> event_type (vf_event e) ''message.settled'' \<or> event_type (vf_event e) ''message.discarded''"

definition transcript_caps :: "caps \<Rightarrow> retain_options" where
  "transcript_caps config = retain_caps (maxEntries config) (maxTranscriptBytes config) (maxEntryBytes config)"

definition install_snapshot :: "snapshot_frame \<Rightarrow> retained_entries \<Rightarrow> session_projection \<Rightarrow> session_projection" where
  "install_snapshot frame retained session =
     (let c = sf_cursor frame;
          preservesEventSuffix =
            (sp_epoch session = Some (epoch c) \<and> sp_freshness session = Fresh \<and> sp_gap session = None)
      in session\<lparr>
           sp_entries := re_entries retained,
           sp_entryIds := map e_id (re_entries retained),
           sp_historyTruncated := re_truncated retained,
           sp_events := (if preservesEventSuffix then sp_events session
                         else if sp_epoch session = Some (epoch c) then filter is_settlement (sp_events session) else []),
           sp_transcriptEventArrivalOrdinal := (if preservesEventSuffix then sp_transcriptEventArrivalOrdinal session else 0),
           sp_contextMaintenanceEventArrivalOrdinal :=
             (if preservesEventSuffix then sp_contextMaintenanceEventArrivalOrdinal session else 0),
           sp_revision := Some (sf_revision frame),
           sp_cursor := Some c,
           sp_epoch := Some (epoch c),
           sp_freshness := Fresh,
           sp_gap := None\<rparr>)"

definition reduceSnapshot :: "snapshot \<Rightarrow> snapshot_frame \<Rightarrow> caps \<Rightarrow> reduced" where
  "reduceSnapshot s frame config =
     (let sessionKey = key (sf_hostId frame) (sf_sessionId frame); c = sf_cursor frame in
      if (case jm_get (sn_sessions s) sessionKey of
            None \<Rightarrow> False
          | Some current \<Rightarrow>
              (case sp_cursor current of
                 None \<Rightarrow> False
               | Some cc \<Rightarrow> epoch cc = epoch c \<and>
                   (seq c < seq cc \<or> seq c = seq cc \<and> sp_freshness current \<noteq> Cached)))
      then Inr None
      else
        let retained = retainDurableEntries (sf_entries frame) (transcript_caps config) in
        case withSession s sessionKey (\<lambda>session. Some (install_snapshot frame retained session)) config None of
          Inl e \<Rightarrow> Inl e
        | Inr r \<Rightarrow>
            let next = or_same s r
            in Inr (Some ((updateRoot next (Some c) (Some (epoch c)) (Some Fresh))\<lparr>
                 sn_activeSessionKey :=
                   (case sn_activeSessionKey next of None \<Rightarrow> Some sessionKey | Some a \<Rightarrow> Some a)\<rparr>)))"

text \<open>\<open>String(v ?? "")\<close> of a JSON value; objects carry no \<open>toString\<close> of their own.\<close>

fun js_string :: "jsval \<Rightarrow> jsstr" where
  "js_string JUndef = []"
| "js_string JNull = []"
| "js_string (JBool b) = (if b then js ''true'' else js ''false'')"
| "js_string (JNum n) = num_str n"
| "js_string (JStr s) = s"
| "js_string (JArr xs) = join_comma (map js_string xs)"
| "js_string (JObj kvs) = js ''[object Object]''"
| "js_string JFun = js ''function''"

definition event_entry_id :: "event_frame \<Rightarrow> jsstr" where
  "event_entry_id e = js_string (get_prop (vf_event e) ''entryId'')"

definition accept_entry :: "entry_frame \<Rightarrow> caps \<Rightarrow> session_projection \<Rightarrow> session_projection" where
  "accept_entry frame config session =
     (let entryId = e_id (ef_entry frame);
          retiredEvents = filter (\<lambda>e. event_type (vf_event e) ''message.settled'' \<or> event_entry_id e \<noteq> entryId) (sp_events session)
      in if entryId \<in> set (sp_entryIds session)
         then session\<lparr>sp_events := retiredEvents, sp_revision := Some (ef_revision frame),
                sp_cursor := Some (ef_cursor frame), sp_epoch := Some (epoch (ef_cursor frame))\<rparr>
         else
           let retained = appendRetainedDurableEntry (sp_entries session) (ef_entry frame) (transcript_caps config)
           in session\<lparr>
                sp_entries := re_entries retained,
                sp_entryIds := map e_id (re_entries retained),
                sp_events := retiredEvents,
                sp_historyTruncated := sp_historyTruncated session \<or> re_truncated retained,
                sp_revision := Some (ef_revision frame),
                sp_cursor := Some (ef_cursor frame),
                sp_epoch := Some (epoch (ef_cursor frame)),
                sp_freshness := Fresh,
                sp_gap := None\<rparr>)"

text \<open>The transient entry a settlement or a discard retires, if it names one.\<close>

definition retired_entry :: "jsval \<Rightarrow> jsstr option" where
  "retired_entry event =
     (if event_type event ''message.settled'' \<or> event_type event ''message.discarded'' then
        case get_prop event ''transientEntryId'' of
          JStr t \<Rightarrow> Some t
        | _ \<Rightarrow>
            if event_type event ''message.discarded''
            then (case get_prop event ''entryId'' of JStr t \<Rightarrow> Some t | _ \<Rightarrow> None) else None
      else None)"

definition event_bytes :: "event_frame \<Rightarrow> int" where
  "event_bytes e = retainedArrayItemBytes (event_val e)"

definition accept_event :: "event_frame \<Rightarrow> int \<Rightarrow> caps \<Rightarrow> session_projection \<Rightarrow> session_projection" where
  "accept_event frame eventArrivalOrdinal config session =
     (let retiredEvents = (case retired_entry (vf_event frame) of
            None \<Rightarrow> sp_events session
          | Some t \<Rightarrow> filter (\<lambda>e. event_entry_id e \<noteq> t) (sp_events session));
          sanitizedEvent = frame\<lparr>vf_event := sanitizeRetainedRecord (vf_event frame) (int (maxEventBytes config))\<rparr>
      in session\<lparr>
           sp_events := fst (appendRetainedValue event_bytes retiredEvents
             (retainedJsonBytes (JArr (map event_val retiredEvents))) sanitizedEvent
             (int (maxEvents config)) (int (maxEventsBytes config))),
           sp_cursor := Some (vf_cursor frame),
           sp_epoch := Some (epoch (vf_cursor frame)),
           sp_freshness := Fresh,
           sp_transcriptEventArrivalOrdinal := eventArrivalOrdinal,
           sp_contextMaintenanceEventArrivalOrdinal :=
             (if eventChangesContextMaintenance (vf_event frame) then eventArrivalOrdinal
              else sp_contextMaintenanceEventArrivalOrdinal session),
           sp_gap := None\<rparr>)"

definition live_order :: "snapshot \<Rightarrow> jsstr \<Rightarrow> cursor \<Rightarrow> cursor_order" where
  "live_order s sessionKey c =
     (case jm_get (sn_sessions s) sessionKey of None \<Rightarrow> Accept | Some current \<Rightarrow> cursorState current c)"

definition reduceEntry :: "snapshot \<Rightarrow> entry_frame \<Rightarrow> caps \<Rightarrow> reduced" where
  "reduceEntry s frame config =
     (let sessionKey = key (ef_hostId frame) (ef_sessionId frame) in
      case live_order s sessionKey (ef_cursor frame) of
        Duplicate \<Rightarrow> Inr None
      | Gap \<Rightarrow> withSession s sessionKey (\<lambda>session. Some (session\<lparr>sp_freshness := CatchingUp\<rparr>)) config None
      | Accept \<Rightarrow> withSession s sessionKey (\<lambda>session. Some (accept_entry frame config session)) config None)"

definition reduceEvent :: "snapshot \<Rightarrow> event_frame \<Rightarrow> caps \<Rightarrow> reduced" where
  "reduceEvent s frame config =
     (let sessionKey = key (vf_hostId frame) (vf_sessionId frame) in
      case live_order s sessionKey (vf_cursor frame) of
        Duplicate \<Rightarrow> Inr None
      | Gap \<Rightarrow> withSession s sessionKey (\<lambda>session. Some (session\<lparr>sp_freshness := CatchingUp\<rparr>)) config None
      | Accept \<Rightarrow>
          withSession s sessionKey (\<lambda>session. Some (accept_event frame (nextArrivalOrdinal s) config session)) config
            (Some (nextArrivalOrdinal s)))"

definition reduceGap :: "snapshot \<Rightarrow> gap_frame \<Rightarrow> caps \<Rightarrow> reduced" where
  "reduceGap s frame config =
     withSession s (key (gf_hostId frame) (gf_sessionId frame))
       (\<lambda>session. Some (session\<lparr>sp_freshness := CatchingUp, sp_gap := Some frame\<rparr>)) config None"

subsection \<open>Agents\<close>

definition reduceAgent :: "snapshot \<Rightarrow> agent_frame \<Rightarrow> caps \<Rightarrow> reduced" where
  "reduceAgent s frame config =
     withSession s (key (gt_hostId frame) (gt_sessionId frame))
       (\<lambda>session. Some (session\<lparr>sp_agents := mapWith (sp_agents session) (gt_agentId frame)
          (if gt_detail frame = JUndef then frame else frame\<lparr>gt_detail := safeValue (gt_detail frame)\<rparr>) max_map_entries\<rparr>))
       config None"

definition reduceAgentTranscript :: "snapshot \<Rightarrow> agent_transcript_frame \<Rightarrow> caps \<Rightarrow> reduced" where
  "reduceAgentTranscript s frame config =
     withSession s (key (af_hostId frame) (af_sessionId frame))
       (\<lambda>session.
          map_option (\<lambda>transcript. session\<lparr>sp_agentTranscripts :=
              mapWith (sp_agentTranscripts session) (af_agentId frame) transcript (maxAgentTranscripts config)\<rparr>)
            (agentTranscriptProjection (jm_get (sp_agentTranscripts session) (af_agentId frame)) frame
               (maxAgentTranscriptEntries config) (maxAgentTranscriptBytes config) (maxEntryBytes config)))
       config None"

subsection \<open>A new connection\<close>

definition welcome_session :: "bool \<Rightarrow> session_projection \<Rightarrow> session_projection" where
  "welcome_session epochChanged session =
     (let previews = map (\<lambda>(k, p). (k, p\<lparr>pp_freshness := PvCatchingUp\<rparr>)) (sp_previews session) in
      if epochChanged
      then session\<lparr>sp_freshness := CatchingUp, sp_transcriptEventArrivalOrdinal := 0,
                   sp_contextMaintenanceEventArrivalOrdinal := 0, sp_previews := previews\<rparr>
      else session\<lparr>sp_previews := previews\<rparr>)"

definition reduceWelcome :: "snapshot \<Rightarrow> welcome_frame \<Rightarrow> snapshot" where
  "reduceWelcome s frame =
     (let epochChanged = (case sn_epoch s of None \<Rightarrow> False | Some e \<Rightarrow> e \<noteq> wf_epoch frame);
          next = s\<lparr>
            sn_sessionIndexMetadata := mapWithout (sn_sessionIndexMetadata s) (wf_hostId frame),
            sn_sessionInventoryCursors := mapWithout (sn_sessionInventoryCursors s) (wf_hostId frame),
            sn_sessionRefArrivalOrdinals := withoutHostRefOrdinals (sn_sessionRefArrivalOrdinals s) (wf_hostId frame),
            sn_sessions := map (\<lambda>(k, session).
              (k, if sp_hostId session \<noteq> wf_hostId frame then session else welcome_session epochChanged session))
              (sn_sessions s)\<rparr>
      in if \<not> epochChanged then updateRoot next None (Some (wf_epoch frame)) (Some Fresh)
         else next\<lparr>sn_epoch := Some (wf_epoch frame), sn_freshness := CatchingUp\<rparr>)"

subsection \<open>All frames\<close>

definition applyProjectionInput :: "platform \<Rightarrow> snapshot \<Rightarrow> projection_frame \<Rightarrow> caps \<Rightarrow> reduced" where
  "applyProjectionInput pl s frame config =
     (case reduceResourceProjection (parse_url pl) s frame config of
        Some r \<Rightarrow> r
      | None \<Rightarrow>
          (case frame of
             FWorkspaceState f \<Rightarrow> reduceWorkspaceState s f config
           | FSessions f \<Rightarrow> reduceSessions pl s f config
           | FSessionDelta f \<Rightarrow> reduceSessionDelta s f config
           | FSnapshot f \<Rightarrow> reduceSnapshot s f config
           | FEntry f \<Rightarrow> reduceEntry s f config
           | FEvent f \<Rightarrow> reduceEvent s f config
           | FGap f \<Rightarrow> reduceGap s f config
           | FAgent f \<Rightarrow> reduceAgent s f config
           | FAgentTranscript f \<Rightarrow> reduceAgentTranscript s f config
           | FWelcome f \<Rightarrow> Inr (Some (reduceWelcome s f))
           | _ \<Rightarrow> Inr None))"

end
