(* ===== verification/HostProjection.thy ===== *)
theory HostProjection
  imports SnapshotLimits ProjectionReducer
begin

text \<open>
  The host's side of a session, from host-service's projection.ts: the class \<open>SessionProjection\<close>
  with the durable entries, the session reference it publishes in the index, the cursor of the
  transcript, the cursor of the index, and the ring of recent frames from which a returning client
  is served. A method is a function from the state to the new state and the frame it returns. The
  running SHA-256 is kept as the text fed to it so far, and \<open>digest\<close> is the hexadecimal digest of
  a text; a session reference is the JSON object the code spreads and stringifies. Not modelled:
  the two lookups \<open>transcriptImage\<close> and \<open>artifact\<close>, which read the state only.
\<close>

definition max_replay_bytes :: nat where "max_replay_bytes = 512 * 1024"
definition max_rebase_frames :: nat where "max_rebase_frames = 128"
definition attention_max_pending_items :: nat where "attention_max_pending_items = 8"

subsection \<open>Frames as the objects that are stringified\<close>

fun frame_val :: "projection_frame \<Rightarrow> jsval" where
  "frame_val (FEntry f) = JObj (protocol_members ''entry'' @
     [(js ''cursor'', cursor_val (ef_cursor f)), (js ''revision'', JStr (ef_revision f)), (js ''hostId'', JStr (ef_hostId f)),
      (js ''sessionId'', JStr (ef_sessionId f)), (js ''entry'', entry_val (ef_entry f))])"
| "frame_val (FEvent f) = event_val f"
| "frame_val (FGap f) = JObj (protocol_members ''gap'' @
     [(js ''hostId'', JStr (gf_hostId f)), (js ''sessionId'', JStr (gf_sessionId f)), (js ''from'', cursor_val (gf_from f)),
      (js ''to'', cursor_val (gf_to f)), (js ''reason'', JStr (gf_reason f))])"
| "frame_val (FSnapshot f) = JObj (protocol_members ''snapshot'' @
     [(js ''cursor'', cursor_val (sf_cursor f)), (js ''revision'', JStr (sf_revision f)), (js ''hostId'', JStr (sf_hostId f)),
      (js ''sessionId'', JStr (sf_sessionId f)), (js ''entries'', JArr (map entry_val (sf_entries f)))])"
| "frame_val _ = JUndef"

definition frame_bytes :: "projection_frame \<Rightarrow> nat" where
  "frame_bytes f = json_bytes (frame_val f)"

definition replayBytes :: "projection_frame list \<Rightarrow> nat" where
  "replayBytes frames = sum_list (map frame_bytes frames)"

text \<open>The ring holds entry, event, gap and snapshot frames only.\<close>

fun frameCursor :: "projection_frame \<Rightarrow> cursor option" where
  "frameCursor (FGap f) = Some (gf_to f)"
| "frameCursor (FEntry f) = Some (ef_cursor f)"
| "frameCursor (FEvent f) = Some (vf_cursor f)"
| "frameCursor (FSnapshot f) = Some (sf_cursor f)"
| "frameCursor _ = None"

subsection \<open>Objects\<close>

text \<open>\<open>{...v}\<close>, \<open>{...v, k: w}\<close> and \<open>delete v.k\<close> on a copy.\<close>

definition spread :: "jsval \<Rightarrow> jsval" where
  "spread v = (case v of JObj kvs \<Rightarrow> v | _ \<Rightarrow> JObj [])"

definition set_prop :: "string \<Rightarrow> jsval \<Rightarrow> jsval \<Rightarrow> jsval" where
  "set_prop k w v = (case v of JObj kvs \<Rightarrow> JObj (jm_set (js k) w kvs) | _ \<Rightarrow> v)"

definition del_prop :: "string \<Rightarrow> jsval \<Rightarrow> jsval" where
  "del_prop k v = (case v of JObj kvs \<Rightarrow> JObj (jm_delete (js k) kvs) | _ \<Rightarrow> v)"

definition del_props :: "string list \<Rightarrow> jsval \<Rightarrow> jsval" where
  "del_props ks v = fold del_prop ks v"

text \<open>\<open>if (w) v.k = w\<close> is guarded by truth, \<open>if (w !== undefined) v.k = w\<close> by presence.\<close>

definition truthy :: "jsval \<Rightarrow> bool" where
  "truthy v \<longleftrightarrow> v \<notin> {JUndef, JNull, JBool False, JNum (JInt 0), JNum JNegZero, JNum JNaN, JStr []}"

definition set_present :: "string \<Rightarrow> jsval \<Rightarrow> jsval \<Rightarrow> jsval" where
  "set_present k w v = (if w \<noteq> JUndef then set_prop k w v else v)"

definition set_or_delete :: "bool \<Rightarrow> string \<Rightarrow> jsval \<Rightarrow> jsval \<Rightarrow> jsval" where
  "set_or_delete b k w v = (if b then set_prop k w v else del_prop k v)"

definition no_members :: "jsval \<Rightarrow> bool" where
  "no_members v \<longleftrightarrow> (case v of JObj kvs \<Rightarrow> kvs = [] | _ \<Rightarrow> True)"

definition same_json :: "jsval \<Rightarrow> jsval \<Rightarrow> bool" where
  "same_json v w \<longleftrightarrow> json_text v = json_text w"

definition stringified :: "jsval \<Rightarrow> jsstr" where
  "stringified v = (case json_text v of Some t \<Rightarrow> t | None \<Rightarrow> js ''undefined'')"

definition opt_str :: "jsstr option \<Rightarrow> jsval" where
  "opt_str s = (case s of None \<Rightarrow> JUndef | Some t \<Rightarrow> JStr t)"

definition named_if :: "string \<Rightarrow> jsval \<Rightarrow> (jsstr \<times> jsval) list" where
  "named_if k v = (if truthy v then [(js k, v)] else [])"

subsection \<open>Titles and settled references\<close>

definition js_space :: "jschar \<Rightarrow> bool" where
  "js_space c \<longleftrightarrow> (let u = unat c in
     0x09 \<le> u \<and> u \<le> 0x0D \<or> u = 0x20 \<or> u = 0xA0 \<or> u = 0x1680 \<or> 0x2000 \<le> u \<and> u \<le> 0x200A \<or>
     u = 0x2028 \<or> u = 0x2029 \<or> u = 0x202F \<or> u = 0x205F \<or> u = 0x3000 \<or> u = 0xFEFF)"

definition placeholderTitle :: "jsstr \<Rightarrow> bool" where
  "placeholderTitle title \<longleftrightarrow> title = js ''Session'' \<or> title = js ''Untitled'' \<or> list_all js_space title"

definition no_pending :: "jsval \<Rightarrow> jsval" where
  "no_pending attention =
     set_prop ''truncated'' (JBool False) (set_prop ''pendingCount'' (JNum (JInt 0)) (set_prop ''pending'' (JArr []) (spread attention)))"

definition settledRuntimeRef :: "jsval \<Rightarrow> jsstr \<Rightarrow> jsval" where
  "settledRuntimeRef current status =
     (let next = del_props [''pendingApproval'', ''pendingUserInput''] (set_prop ''status'' (JStr status) (spread current));
          next = (if truthy (get_prop current ''attention'') then
                    let attention = no_pending (get_prop current ''attention'')
                    in set_or_delete (truthy (get_prop attention ''latestOutcome'')) ''attention'' attention next
                  else next)
      in if truthy (get_prop current ''liveState'') then
           set_prop ''liveState''
             (del_props [''pendingPrompt'', ''pendingPrompts'', ''queuedMessages'', ''pendingApproval'', ''pendingUserInput'', ''runtimeCrashed'']
               (set_prop ''queuedMessageCount'' (JNum (JInt 0)) (set_prop ''isCompacting'' (JBool False)
                 (set_prop ''isStreaming'' (JBool False) (spread (get_prop current ''liveState'')))))) next
         else next)"

subsection \<open>The state\<close>

record session_record =
  sr_sessionId :: jsstr
  sr_projectId :: jsstr
  sr_projectName :: "jsstr option"
  sr_title :: jsstr
  sr_updatedAt :: jsstr
  sr_status :: jsstr
  sr_archivedAt :: "jsstr option"
  sr_model :: "jsstr option"
  sr_thinking :: "jsstr option"
  sr_mode :: "jsstr option"
  sr_runtime :: jsval
  sr_entries :: "durable_entry list"

record host_projection =
  hp_hostId :: jsstr
  hp_sessionId :: jsstr
  hp_revision :: jsstr
  hp_cursor :: cursor
  hp_entries :: "durable_entry list"
  hp_ref :: jsval
  hp_indexCursor :: cursor
  hp_ring :: "projection_frame list"
  hp_byId :: "(jsstr, durable_entry) jsmap"
  hp_ringSize :: nat
  hp_hashed :: jsstr
  hp_pendingAttention :: "(jsstr, jsval) jsmap"

type_synonym host_step = "host_projection \<times> projection_frame option"

definition revision_of :: "(jsstr \<Rightarrow> jsstr) \<Rightarrow> jsstr \<Rightarrow> jsstr" where
  "revision_of digest hashed = js ''r-'' @ take 24 (digest hashed)"

definition entry_line :: "durable_entry \<Rightarrow> jsstr" where
  "entry_line e = stringified (entry_val e) @ [10]"

definition rebind :: "jsstr \<Rightarrow> jsstr \<Rightarrow> durable_entry \<Rightarrow> durable_entry" where
  "rebind host session e = e\<lparr>e_hostId := host, e_sessionId := session\<rparr>"

definition newSessionProjection :: "(jsstr \<Rightarrow> jsstr) \<Rightarrow> jsstr \<Rightarrow> session_record \<Rightarrow> jsstr \<Rightarrow> nat \<Rightarrow> host_projection" where
  "newSessionProjection digest host rcd ep ringSize =
     (let byId = jm_of_entries (map (\<lambda>e. (e_id e, rebind host (sr_sessionId rcd) e)) (sr_entries rcd));
          entries = jm_values byId;
          hashed = concat (map entry_line entries);
          currentRevision = revision_of digest hashed
      in \<lparr>hp_hostId = host, hp_sessionId = sr_sessionId rcd, hp_revision = currentRevision,
          hp_cursor = \<lparr>epoch = ep, seq = 0\<rparr>, hp_entries = entries,
          hp_ref = JObj ([(js ''hostId'', JStr host), (js ''sessionId'', JStr (sr_sessionId rcd)),
             (js ''project'', JObj ((js ''projectId'', JStr (sr_projectId rcd)) # named_if ''name'' (opt_str (sr_projectName rcd)))),
             (js ''revision'', JStr currentRevision), (js ''title'', JStr (sr_title rcd)), (js ''status'', JStr (sr_status rcd)),
             (js ''updatedAt'', JStr (sr_updatedAt rcd))]
             @ named_if ''archivedAt'' (opt_str (sr_archivedAt rcd)) @ named_if ''model'' (opt_str (sr_model rcd))
             @ named_if ''thinking'' (opt_str (sr_thinking rcd)) @ named_if ''mode'' (opt_str (sr_mode rcd))
             @ named_if ''runtime'' (sr_runtime rcd)),
          hp_indexCursor = \<lparr>epoch = ep, seq = 0\<rparr>, hp_ring = [], hp_byId = byId, hp_ringSize = ringSize,
          hp_hashed = hashed, hp_pendingAttention = []\<rparr>)"

definition nextCursor :: "host_projection \<Rightarrow> host_projection" where
  "nextCursor h = h\<lparr>hp_cursor := \<lparr>epoch = epoch (hp_cursor h), seq = seq (hp_cursor h) + 1\<rparr>\<rparr>"

definition nextIndexCursor :: "host_projection \<Rightarrow> host_projection" where
  "nextIndexCursor h = h\<lparr>hp_indexCursor := \<lparr>epoch = epoch (hp_indexCursor h), seq = seq (hp_indexCursor h) + 1\<rparr>\<rparr>"

definition appendFrame :: "projection_frame \<Rightarrow> host_projection \<Rightarrow> host_projection" where
  "appendFrame frame h =
     (let ring = hp_ring h @ [frame]
      in h\<lparr>hp_ring := (if length ring > hp_ringSize h then tl ring else ring)\<rparr>)"

definition index_delta :: "host_projection \<Rightarrow> jsval \<Rightarrow> jsval \<Rightarrow> projection_frame" where
  "index_delta h upsert removed =
     FSessionDelta \<lparr>sd_hostId = JStr (hp_hostId h), sd_sessionId = JStr (hp_sessionId h), sd_cursor = hp_indexCursor h,
       sd_revision = hp_revision h, sd_upsert = upsert, sd_remove = removed\<rparr>"

definition updateRef :: "(jsstr \<Rightarrow> jsstr) \<Rightarrow> jsval \<Rightarrow> jsstr \<Rightarrow> host_projection \<Rightarrow> host_step" where
  "updateRef digest next marker h =
     (let hashed = hp_hashed h @ marker @ js '':'' @ stringified next @ [10];
          nextRevision = revision_of digest hashed;
          next = set_prop ''revision'' (JStr nextRevision) next;
          h = nextIndexCursor (h\<lparr>hp_hashed := hashed, hp_revision := nextRevision, hp_ref := next\<rparr>)
      in (h, Some (index_delta h next JUndef)))"

text \<open>\<open>if (JSON.stringify(next) === JSON.stringify(current)) return undefined\<close>\<close>

definition updateChangedRef :: "(jsstr \<Rightarrow> jsstr) \<Rightarrow> jsval \<Rightarrow> jsstr \<Rightarrow> host_projection \<Rightarrow> host_step" where
  "updateChangedRef digest next marker h =
     (if same_json next (hp_ref h) then (h, None) else updateRef digest next marker h)"

subsection \<open>Status, title and mode\<close>

definition live_flag :: "jsval \<Rightarrow> string \<Rightarrow> bool" where
  "live_flag ref k \<longleftrightarrow> get_prop (get_prop ref ''liveState'') k = JBool True"

definition updateStatus :: "(jsstr \<Rightarrow> jsstr) \<Rightarrow> jsstr \<Rightarrow> host_projection \<Rightarrow> host_step" where
  "updateStatus digest status h =
     (let current = hp_ref h; live = get_prop current ''liveState'';
          h = (if status = js ''closed'' then h\<lparr>hp_pendingAttention := []\<rparr> else h);
          next = (if status = js ''closed'' then settledRuntimeRef current status
                  else set_prop ''status'' (JStr status) (spread current));
          next = (if status = js ''idle'' \<and> live_flag current ''isStreaming''
                  then set_prop ''liveState'' (set_prop ''isStreaming'' (JBool False) (spread live)) next
                  else if status = js ''active'' \<and> live_flag current ''runtimeCrashed''
                  then set_prop ''liveState'' (del_prop ''runtimeCrashed'' (spread live)) next
                  else next)
      in updateChangedRef digest next (js ''status:'' @ status) h)"

definition markRuntimeCrashed :: "(jsstr \<Rightarrow> jsstr) \<Rightarrow> jsval \<Rightarrow> host_projection \<Rightarrow> host_step" where
  "markRuntimeCrashed digest outcome h =
     (let current = hp_ref h; h = h\<lparr>hp_pendingAttention := []\<rparr>;
          next = settledRuntimeRef current (js ''closed'');
          next = (if truthy outcome then
                    set_prop ''attention'' (JObj [(js ''pending'', JArr []), (js ''pendingCount'', JNum (JInt 0)),
                      (js ''truncated'', JBool False), (js ''latestOutcome'', outcome)]) next
                  else next);
          next = set_prop ''liveState'' (set_prop ''runtimeCrashed'' (JBool True) (spread (get_prop next ''liveState''))) next
      in updateChangedRef digest next (js ''runtime:crashed'') h)"

definition markRuntimeRestartable :: "(jsstr \<Rightarrow> jsstr) \<Rightarrow> host_projection \<Rightarrow> host_step" where
  "markRuntimeRestartable digest h =
     (if \<not> live_flag (hp_ref h) ''runtimeCrashed'' then (h, None)
      else updateChangedRef digest (set_prop ''status'' (JStr (js ''idle'')) (spread (hp_ref h))) (js ''runtime:restartable'') h)"

definition updateTitle :: "(jsstr \<Rightarrow> jsstr) \<Rightarrow> jsstr \<Rightarrow> host_projection \<Rightarrow> host_step" where
  "updateTitle digest title h =
     (if title = [] \<or> get_prop (hp_ref h) ''title'' = JStr title then (h, None)
      else updateRef digest (set_prop ''title'' (JStr title) (spread (hp_ref h))) (js ''title:'' @ title) h)"

definition updateMode :: "(jsstr \<Rightarrow> jsstr) \<Rightarrow> jsstr \<Rightarrow> host_projection \<Rightarrow> host_step" where
  "updateMode digest mode h =
     (let current = hp_ref h in
      if mode = js ''build'' then
        (if get_prop current ''mode'' = JUndef then (h, None)
         else updateRef digest (del_prop ''mode'' (spread current)) (js ''mode:'' @ mode) h)
      else if get_prop current ''mode'' = JStr mode then (h, None)
      else updateRef digest (set_prop ''mode'' (JStr mode) (spread current)) (js ''mode:'' @ mode) h)"

subsection \<open>Records\<close>

definition project_named :: "jsval \<Rightarrow> jsval \<Rightarrow> jsval" where
  "project_named projectId name = JObj ((js ''projectId'', projectId) # named_if ''name'' name)"

text \<open>
  \<open>project === current.project\<close> compares identities: the project object is a new one exactly when
  the name changes.
\<close>

definition reconcileRecord :: "(jsstr \<Rightarrow> jsstr) \<Rightarrow> session_record \<Rightarrow> host_projection \<Rightarrow> host_step" where
  "reconcileRecord digest rcd h =
     (let current = hp_ref h; project = get_prop current ''project''; name = get_prop project ''name'';
          title = get_prop current ''title'';
          sameProject = (get_prop project ''projectId'' = JStr (sr_projectId rcd));
          projectName = (if sameProject \<and> \<not> truthy name \<and> truthy (opt_str (sr_projectName rcd))
                         then opt_str (sr_projectName rcd) else name);
          renamed = (sameProject \<and> projectName \<noteq> name);
          project' = (if renamed then project_named (get_prop project ''projectId'') projectName else project);
          title' = (if placeholderTitle (text_of title) \<and> \<not> placeholderTitle (sr_title rcd) then JStr (sr_title rcd) else title);
          archivedAt = opt_str (sr_archivedAt rcd)
      in if \<not> renamed \<and> title' = title \<and> archivedAt = get_prop current ''archivedAt'' then (h, None)
         else
           let next = set_prop ''title'' title' (set_prop ''project'' project' (spread current));
               next = set_or_delete (truthy archivedAt) ''archivedAt'' archivedAt next
           in updateRef digest next
                (js ''record:'' @ sr_updatedAt rcd @ js '':'' @ (case sr_archivedAt rcd of None \<Rightarrow> js ''restored'' | Some a \<Rightarrow> a)) h)"

definition reconcileObserverRecord :: "(jsstr \<Rightarrow> jsstr) \<Rightarrow> session_record \<Rightarrow> host_projection \<Rightarrow> host_step" where
  "reconcileObserverRecord digest rcd h =
     (let current = hp_ref h; project = get_prop current ''project''; title = get_prop current ''title'';
          updatedAt = get_prop current ''updatedAt'';
          project' = (if get_prop project ''projectId'' = JStr (sr_projectId rcd) \<and> opt_str (sr_projectName rcd) \<noteq> get_prop project ''name''
                      then project_named (get_prop project ''projectId'') (opt_str (sr_projectName rcd)) else project);
          title' = (if placeholderTitle (sr_title rcd) \<and> \<not> placeholderTitle (text_of title) then title
                    else if sr_title rcd \<noteq> [] then JStr (sr_title rcd) else title);
          next = set_prop ''updatedAt'' (if text_of updatedAt < sr_updatedAt rcd then JStr (sr_updatedAt rcd) else updatedAt)
                   (set_prop ''title'' title' (set_prop ''project'' project' (spread current)));
          next = set_present ''mode'' (opt_str (sr_mode rcd)) (set_present ''thinking'' (opt_str (sr_thinking rcd))
                   (set_present ''model'' (opt_str (sr_model rcd)) next))
      in updateChangedRef digest next (js ''observer-record:'' @ sr_updatedAt rcd) h)"

definition updateArchivedAt :: "(jsstr \<Rightarrow> jsstr) \<Rightarrow> jsstr option \<Rightarrow> host_projection \<Rightarrow> host_step" where
  "updateArchivedAt digest archivedAt h =
     (let a = opt_str archivedAt in
      if get_prop (hp_ref h) ''archivedAt'' = a then (h, None)
      else updateRef digest (set_or_delete (truthy a) ''archivedAt'' a (spread (hp_ref h)))
             (js ''archived:'' @ (case archivedAt of None \<Rightarrow> js ''restored'' | Some t \<Rightarrow> t)) h)"

definition indexUpsert :: "host_projection \<Rightarrow> host_step" where
  "indexUpsert h = (let h = nextIndexCursor h in (h, Some (index_delta h (hp_ref h) JUndef)))"

definition remove_session :: "(jsstr \<Rightarrow> jsstr) \<Rightarrow> host_projection \<Rightarrow> host_step" where
  "remove_session digest h =
     (let hashed = hp_hashed h @ js ''deleted'' @ [10];
          h = nextIndexCursor (h\<lparr>hp_hashed := hashed, hp_revision := revision_of digest hashed\<rparr>)
      in (h, Some (index_delta h JUndef (JStr (hp_sessionId h)))))"

definition live_or_none :: "jsval \<Rightarrow> jsval \<Rightarrow> jsval" where
  "live_or_none live current = set_or_delete (\<not> no_members live) ''liveState'' live (spread current)"

definition setSessionControl :: "(jsstr \<Rightarrow> jsstr) \<Rightarrow> jsval \<Rightarrow> host_projection \<Rightarrow> host_step" where
  "setSessionControl digest control h =
     (let live = set_or_delete (truthy control) ''sessionControl'' control (spread (get_prop (hp_ref h) ''liveState''));
          mode = (case get_prop control ''mode'' of JStr m \<Rightarrow> m | _ \<Rightarrow> js ''clear'')
      in updateChangedRef digest (live_or_none live (hp_ref h)) (js ''session-control:'' @ mode) h)"

subsection \<open>Entries and events\<close>

definition appendEvent :: "jsval \<Rightarrow> host_projection \<Rightarrow> host_step" where
  "appendEvent event h =
     (let h = nextCursor h;
          frame = FEvent \<lparr>vf_cursor = hp_cursor h, vf_hostId = hp_hostId h, vf_sessionId = hp_sessionId h, vf_event = event,
                    vf_rest = protocol_members ''event''\<rparr>
      in (appendFrame frame h, Some frame))"

definition appendEntry :: "(jsstr \<Rightarrow> jsstr) \<Rightarrow> durable_entry \<Rightarrow> host_projection \<Rightarrow> host_step" where
  "appendEntry digest entry h =
     (case jm_get (hp_byId h) (e_id entry) of
        Some previous \<Rightarrow>
          if same_json (entry_val previous) (entry_val entry) then (h, None)
          else appendEvent (JObj [(js ''type'', JStr (js ''entry_conflict'')), (js ''entryId'', JStr (e_id entry))]) h
      | None \<Rightarrow>
          let hashed = hp_hashed h @ entry_line entry;
              rev = revision_of digest hashed;
              h = nextCursor (h\<lparr>hp_byId := jm_set (e_id entry) entry (hp_byId h), hp_entries := hp_entries h @ [entry],
                    hp_hashed := hashed, hp_revision := rev,
                    hp_ref := set_prop ''updatedAt'' (JStr (e_timestamp entry)) (set_prop ''revision'' (JStr rev) (spread (hp_ref h)))\<rparr>);
              frame = FEntry \<lparr>ef_cursor = hp_cursor h, ef_revision = rev, ef_hostId = hp_hostId h,
                        ef_sessionId = hp_sessionId h, ef_entry = entry\<rparr>
          in (appendFrame frame h, Some frame))"

subsection \<open>Snapshots and replay\<close>

text \<open>A computation that may throw a wire error, or not return (\<open>None\<close>).\<close>

type_synonym 'a run = "'a decoded option"

definition bind_run :: "'a run \<Rightarrow> ('a \<Rightarrow> 'b run) \<Rightarrow> 'b run" where
  "bind_run r f = (case r of None \<Rightarrow> None | Some (Inl e) \<Rightarrow> Some (Inl e) | Some (Inr a) \<Rightarrow> f a)"

definition host_snapshot :: "(jsstr \<Rightarrow> jsstr) \<Rightarrow> host_projection \<Rightarrow> projection_frame run" where
  "host_snapshot digest h =
     bind_run (boundSnapshotEntries digest (hp_entries h) (hp_hostId h) (hp_sessionId h) (text_of (get_prop (hp_ref h) ''updatedAt'')))
       (\<lambda>entries. Some (Inr (FSnapshot \<lparr>sf_cursor = hp_cursor h, sf_revision = hp_revision h, sf_hostId = hp_hostId h,
          sf_sessionId = hp_sessionId h, sf_entries = entries\<rparr>)))"

definition host_gap :: "host_projection \<Rightarrow> jsstr \<Rightarrow> int \<Rightarrow> string \<Rightarrow> projection_frame" where
  "host_gap h ep from_seq reason =
     FGap \<lparr>gf_hostId = hp_hostId h, gf_sessionId = hp_sessionId h, gf_from = \<lparr>epoch = ep, seq = from_seq\<rparr>,
           gf_to = hp_cursor h, gf_reason = js reason\<rparr>"

definition gap_and_snapshot :: "(jsstr \<Rightarrow> jsstr) \<Rightarrow> host_projection \<Rightarrow> projection_frame \<Rightarrow> projection_frame list run" where
  "gap_and_snapshot digest h gap = bind_run (host_snapshot digest h) (\<lambda>snap. Some (Inr [gap, snap]))"

definition frame_seq :: "int \<Rightarrow> projection_frame \<Rightarrow> int" where
  "frame_seq d frame = (case frameCursor frame of Some c \<Rightarrow> seq c | None \<Rightarrow> d)"

definition oldest_seq :: "host_projection \<Rightarrow> int" where
  "oldest_seq h =
     (case hp_ring h of
        [] \<Rightarrow> seq (hp_cursor h) + 1
      | oldest # _ \<Rightarrow> frame_seq (seq (hp_cursor h) + 1) oldest)"

definition replay :: "(jsstr \<Rightarrow> jsstr) \<Rightarrow> cursor \<Rightarrow> host_projection \<Rightarrow> projection_frame list run" where
  "replay digest c h =
     (if epoch c \<noteq> epoch (hp_cursor h)
      then gap_and_snapshot digest h (host_gap h (epoch (hp_cursor h)) 0 ''epoch_mismatch'')
      else if seq c < oldest_seq h - 1
      then gap_and_snapshot digest h (host_gap h (epoch c) (seq c + 1) ''ring_evicted'')
      else
        let frames = filter (\<lambda>frame. frame_seq 0 frame > seq c) (hp_ring h) in
        if replayBytes frames \<le> max_replay_bytes then Some (Inr frames)
        else gap_and_snapshot digest h (host_gap h (epoch c) (seq c + 1) ''replay_budget_exceeded''))"

subsection \<open>Rebasing the transcript\<close>

fun append_entries ::
  "(jsstr \<Rightarrow> jsstr) \<Rightarrow> durable_entry list \<Rightarrow> host_projection \<Rightarrow> projection_frame list \<Rightarrow> nat \<Rightarrow> bool \<Rightarrow>
   host_projection \<times> projection_frame list \<times> bool" where
  "append_entries digest [] h frames frameBytes budgetExceeded = (h, frames, budgetExceeded)"
| "append_entries digest (e # es) h frames frameBytes budgetExceeded =
     (case appendEntry digest e h of
        (h', None) \<Rightarrow> append_entries digest es h' frames frameBytes budgetExceeded
      | (h', Some frame) \<Rightarrow>
          if budgetExceeded then append_entries digest es h' frames frameBytes budgetExceeded
          else if length frames \<ge> max_rebase_frames \<or> frameBytes + frame_bytes frame > max_replay_bytes
          then append_entries digest es h' frames frameBytes True
          else append_entries digest es h' (frames @ [frame]) (frameBytes + frame_bytes frame) False)"

text \<open>The snapshot is built before the ring is emptied, so an error leaves the ring alone.\<close>

definition replace_ring :: "(jsstr \<Rightarrow> jsstr) \<Rightarrow> projection_frame \<Rightarrow> host_projection \<Rightarrow> host_projection \<times> projection_frame list run" where
  "replace_ring digest gap h =
     (case host_snapshot digest h of
        Some (Inr snap) \<Rightarrow> (appendFrame snap (appendFrame gap (h\<lparr>hp_ring := []\<rparr>)), Some (Inr [gap, snap]))
      | Some (Inl e) \<Rightarrow> (h, Some (Inl e))
      | None \<Rightarrow> (h, None))"

definition is_json_prefix :: "durable_entry list \<Rightarrow> durable_entry list \<Rightarrow> bool" where
  "is_json_prefix current entries \<longleftrightarrow>
     length entries \<ge> length current \<and>
     list_all (\<lambda>(a, b). same_json (entry_val a) (entry_val b)) (zip current entries)"

definition reset_entries :: "(jsstr \<Rightarrow> jsstr) \<Rightarrow> durable_entry list \<Rightarrow> host_projection \<Rightarrow> host_projection" where
  "reset_entries digest entries h =
     (let hashed = concat (map entry_line entries);
          rev = revision_of digest hashed;
          ref = set_prop ''revision'' (JStr rev) (spread (hp_ref h));
          ref = (if entries = [] then ref else set_prop ''updatedAt'' (JStr (e_timestamp (last entries))) ref)
      in h\<lparr>hp_byId := jm_of_entries (map (\<lambda>e. (e_id e, e)) entries), hp_entries := entries, hp_hashed := hashed,
           hp_revision := rev, hp_ref := ref\<rparr>)"

definition rebaseEntries ::
  "(jsstr \<Rightarrow> jsstr) \<Rightarrow> durable_entry list \<Rightarrow> host_projection \<Rightarrow> host_projection \<times> projection_frame list run" where
  "rebaseEntries digest entries h =
     (let reboundEntries = map (rebind (hp_hostId h) (hp_sessionId h)) entries; previous = hp_cursor h in
      if is_json_prefix (hp_entries h) reboundEntries then
        (case append_entries digest (drop (length (hp_entries h)) reboundEntries) h [] 0 False of
           (h', frames, budgetExceeded) \<Rightarrow>
             if \<not> budgetExceeded then (h', Some (Inr frames))
             else replace_ring digest (host_gap h' (epoch previous) (seq previous + 1) ''rebase_budget_exceeded'') h')
      else
        let h' = nextCursor (reset_entries digest reboundEntries h)
        in replace_ring digest (host_gap h' (epoch previous) (seq previous + 1) ''projection_rebase'') h')"

subsection \<open>Runtime state\<close>

definition updateState :: "(jsstr \<Rightarrow> jsstr) \<Rightarrow> jsval \<Rightarrow> jsstr option \<Rightarrow> bool \<Rightarrow> jsval \<Rightarrow> host_projection \<Rightarrow> host_step" where
  "updateState digest state statusOverride recoverClosedStatus providerTransport h =
     (let next = spread (hp_ref h);
          live = del_props [''modelId'', ''modelProvider'', ''modelDisplayName'', ''runtimeCrashed'', ''thinkingEffective'',
                   ''thinkingResolved'', ''thinkingLevels'', ''thinkingSupported'', ''thinkingOffFloored'', ''fast'',
                   ''fastAvailable'', ''fastActive'', ''providerTransport''] (spread (get_prop next ''liveState''));
          live = (if truthy providerTransport then set_prop ''providerTransport'' providerTransport live else live);
          live = set_or_delete (truthy (get_prop state ''queuedMessages'')) ''queuedMessages'' (get_prop state ''queuedMessages'') live;
          next = (if get_prop state ''sessionName'' \<noteq> JUndef then set_prop ''title'' (get_prop state ''sessionName'') next else next);
          model = get_prop state ''model'';
          next = set_or_delete (model \<noteq> JUndef) ''model''
                   (JStr (text_of (get_prop model ''provider'') @ js ''/'' @ text_of (get_prop model ''id''))) next;
          live = (if model \<noteq> JUndef then
                    let live = set_prop ''modelProvider'' (get_prop model ''provider'') (set_prop ''modelId'' (get_prop model ''id'') live)
                    in if truthy (get_prop model ''displayName'') then set_prop ''modelDisplayName'' (get_prop model ''displayName'') live
                       else live
                  else live);
          next = set_or_delete (get_prop state ''thinking'' \<noteq> JUndef) ''thinking'' (get_prop state ''thinking'') next;
          live = fold (\<lambda>k. set_present k (get_prop state k))
                   [''thinkingEffective'', ''thinkingResolved'', ''thinkingLevels'', ''thinkingSupported'', ''thinkingOffFloored'',
                    ''fast'', ''fastAvailable'', ''fastActive''] live;
          next = set_or_delete (get_prop state ''contextUsage'' \<noteq> JUndef) ''contextUsage'' (get_prop state ''contextUsage'') next;
          next = (if get_prop next ''status'' \<noteq> JStr (js ''closed'') \<or> recoverClosedStatus then
                    set_prop ''status'' (JStr (case statusOverride of Some st \<Rightarrow> st
                      | None \<Rightarrow> if truthy (get_prop state ''isStreaming'') then js ''active'' else js ''idle'')) next
                  else next);
          next = set_prop ''liveState''
                   (fold (\<lambda>k. set_prop k (get_prop state k))
                      [''isStreaming'', ''isCompacting'', ''isPaused'', ''messageCount'', ''queuedMessageCount'', ''steeringMode'',
                       ''followUpMode'', ''interruptMode''] live) next
      in updateChangedRef digest next (js ''state'') h)"

subsection \<open>Pending prompts\<close>

definition pendingPrompts :: "host_projection \<Rightarrow> jsval list" where
  "pendingPrompts h =
     (case get_prop (get_prop (hp_ref h) ''liveState'') ''pendingPrompts'' of
        JArr ps \<Rightarrow>
          filter (\<lambda>p. (case p of
              JObj _ \<Rightarrow>
                (case (get_prop p ''entryId'', get_prop p ''text'', get_prop p ''attachmentCount'', get_prop p ''at'') of
                   (JStr _, JStr _, JNum _, JStr _) \<Rightarrow> True | _ \<Rightarrow> False)
            | _ \<Rightarrow> False)) ps
      | _ \<Rightarrow> [])"

definition updatePendingPrompts :: "(jsstr \<Rightarrow> jsstr) \<Rightarrow> jsval list \<Rightarrow> host_projection \<Rightarrow> host_step" where
  "updatePendingPrompts digest prompts h =
     (let live = del_prop ''pendingPrompt'' (spread (get_prop (hp_ref h) ''liveState''));
          live = set_or_delete (prompts \<noteq> []) ''pendingPrompts'' (JArr prompts) live
      in updateChangedRef digest (live_or_none live (hp_ref h))
           (js ''pending-prompts:'' @ join_comma (map (\<lambda>p. text_of (get_prop p ''entryId'')) prompts)) h)"

definition addPendingPrompt :: "(jsstr \<Rightarrow> jsstr) \<Rightarrow> jsval \<Rightarrow> host_projection \<Rightarrow> host_step" where
  "addPendingPrompt digest pending h =
     (let current = pendingPrompts h in
      if list_ex (\<lambda>p. get_prop p ''entryId'' = get_prop pending ''entryId'') current then (h, None)
      else updatePendingPrompts digest (current @ [pending]) h)"

definition clearPendingPrompt :: "(jsstr \<Rightarrow> jsstr) \<Rightarrow> jsstr \<Rightarrow> host_projection \<Rightarrow> host_step" where
  "clearPendingPrompt digest entryId h =
     (let current = pendingPrompts h; next = filter (\<lambda>p. get_prop p ''entryId'' \<noteq> JStr entryId) current in
      if length next = length current then (h, None) else updatePendingPrompts digest next h)"

subsection \<open>Attention\<close>

definition latest_outcome :: "host_projection \<Rightarrow> jsval" where
  "latest_outcome h = get_prop (get_prop (hp_ref h) ''attention'') ''latestOutcome''"

definition attention_order :: "(jsstr \<Rightarrow> jsstr \<Rightarrow> int) \<Rightarrow> jsval \<Rightarrow> jsval \<Rightarrow> int" where
  "attention_order compare a b =
     (let c = compare (text_of (get_prop a ''requestedAt'')) (text_of (get_prop b ''requestedAt'')) in
      if c \<noteq> 0 then c else compare (text_of (get_prop a ''id'')) (text_of (get_prop b ''id'')))"

definition updateAttentionRef ::
  "(jsstr \<Rightarrow> jsstr) \<Rightarrow> (jsstr \<Rightarrow> jsstr \<Rightarrow> int) \<Rightarrow> jsstr \<Rightarrow> jsval \<Rightarrow> host_projection \<Rightarrow> host_step" where
  "updateAttentionRef digest compare marker latestOutcome h =
     (let allPending = sort_by (attention_order compare) (jm_values (hp_pendingAttention h));
          pending = take attention_max_pending_items allPending;
          pendingCount = length (hp_pendingAttention h);
          has_kind = (\<lambda>kind. list_ex (\<lambda>item. get_prop item ''kind'' = JStr (js kind)) allPending);
          attention = JObj ([(js ''pending'', JArr pending), (js ''pendingCount'', JNum (JInt (int pendingCount))),
                        (js ''truncated'', JBool (pendingCount > length pending))] @ named_if ''latestOutcome'' latestOutcome);
          next = set_or_delete (pendingCount > 0 \<or> truthy latestOutcome) ''attention'' attention (spread (hp_ref h));
          next = set_or_delete (has_kind ''approval'') ''pendingApproval'' (JBool True) next;
          next = set_or_delete (has_kind ''question'') ''pendingUserInput'' (JBool True) next
      in updateRef digest next marker h)"

definition setPendingAttention :: "(jsstr \<Rightarrow> jsstr) \<Rightarrow> (jsstr \<Rightarrow> jsstr \<Rightarrow> int) \<Rightarrow> jsval \<Rightarrow> host_projection \<Rightarrow> host_step" where
  "setPendingAttention digest compare item h =
     (let i = text_of (get_prop item ''id'') in
      if (case jm_get (hp_pendingAttention h) i of None \<Rightarrow> False | Some previous \<Rightarrow> same_json previous item) then (h, None)
      else
        let h = h\<lparr>hp_pendingAttention := jm_set i item (hp_pendingAttention h)\<rparr>
        in updateAttentionRef digest compare (js ''attention:pending:'' @ text_of (get_prop item ''kind'') @ js '':'' @ i) (latest_outcome h) h)"

definition removePendingAttention :: "(jsstr \<Rightarrow> jsstr) \<Rightarrow> (jsstr \<Rightarrow> jsstr \<Rightarrow> int) \<Rightarrow> jsstr \<Rightarrow> host_projection \<Rightarrow> host_step" where
  "removePendingAttention digest compare i h =
     (if \<not> jm_has (hp_pendingAttention h) i then (h, None)
      else
        let h = h\<lparr>hp_pendingAttention := jm_delete i (hp_pendingAttention h)\<rparr>
        in updateAttentionRef digest compare (js ''attention:resolved:'' @ i) (latest_outcome h) h)"

definition clearPendingAttention :: "(jsstr \<Rightarrow> jsstr) \<Rightarrow> (jsstr \<Rightarrow> jsstr \<Rightarrow> int) \<Rightarrow> host_projection \<Rightarrow> host_step" where
  "clearPendingAttention digest compare h =
     (if hp_pendingAttention h = [] then (h, None)
      else
        let h = h\<lparr>hp_pendingAttention := []\<rparr>
        in updateAttentionRef digest compare (js ''attention:pending:clear'') (latest_outcome h) h)"

definition setLatestOutcome :: "(jsstr \<Rightarrow> jsstr) \<Rightarrow> (jsstr \<Rightarrow> jsstr \<Rightarrow> int) \<Rightarrow> jsval \<Rightarrow> host_projection \<Rightarrow> host_step" where
  "setLatestOutcome digest compare outcome h =
     (if same_json (latest_outcome h) outcome then (h, None)
      else updateAttentionRef digest compare (js ''attention:outcome:'' @ text_of (get_prop outcome ''id'')) outcome h)"

definition settleAttentionOutcome :: "(jsstr \<Rightarrow> jsstr) \<Rightarrow> (jsstr \<Rightarrow> jsstr \<Rightarrow> int) \<Rightarrow> jsval \<Rightarrow> host_projection \<Rightarrow> host_step" where
  "settleAttentionOutcome digest compare outcome h =
     (if hp_pendingAttention h = [] \<and> same_json (latest_outcome h) outcome then (h, None)
      else updateAttentionRef digest compare (js ''attention:settled:'' @ text_of (get_prop outcome ''id'')) outcome
             (h\<lparr>hp_pendingAttention := []\<rparr>))"

subsection \<open>Attaching a client\<close>

definition prepareAttachOutput :: "(jsstr \<Rightarrow> jsstr) \<Rightarrow> cursor option \<Rightarrow> host_projection \<Rightarrow> (projection_frame list \<times> cursor) run" where
  "prepareAttachOutput digest c h =
     bind_run (case c of None \<Rightarrow> bind_run (host_snapshot digest h) (\<lambda>snap. Some (Inr [snap])) | Some c \<Rightarrow> replay digest c h)
       (\<lambda>initialFrames. Some (Inr (initialFrames, hp_cursor h)))"

definition completeAttachOutput ::
  "(jsstr \<Rightarrow> jsstr) \<Rightarrow> projection_frame list \<times> cursor \<Rightarrow> projection_frame list \<Rightarrow> host_projection \<Rightarrow> projection_frame list run" where
  "completeAttachOutput digest prepared subagents h =
     bind_run (replay digest (snd prepared) h) (\<lambda>frames. Some (Inr (fst prepared @ frames @ subagents)))"

end
