(* ===== verification/CursorFollow.thy ===== *)
theory CursorFollow
  imports HostProjection
begin

text \<open>
  What following a session by its frames means, independent of who follows. A follower of one
  session shows a cursor, if it has one, and whether it has lost the thread and waits for a
  snapshot. The locale states how a follower reacts to live frames, gaps and snapshots; the client
  projection and the client runtime's cursor filter are its two instances. A chain is a sequence
  of frames that leads from one position to another without a hole.
\<close>

type_synonym view = "cursor option \<times> bool"

definition follow_live :: "cursor \<Rightarrow> view \<Rightarrow> view" where
  "follow_live c v =
     (case v of
        (co, True) \<Rightarrow> (co, True)
      | (None, False) \<Rightarrow> (Some c, False)
      | (Some p, False) \<Rightarrow>
          if epoch c \<noteq> epoch p then (Some p, True)
          else if seq c \<le> seq p then (Some p, False)
          else if seq c = seq p + 1 then (Some c, False) else (Some p, True))"

lemma follow_live_lost [simp]: "follow_live c (co, True) = (co, True)"
  by (cases co) (simp_all add: follow_live_def)

text \<open>A snapshot moves the view forward when it is ahead of it, or of another epoch.\<close>

definition ahead :: "cursor \<Rightarrow> cursor option \<Rightarrow> bool" where
  "ahead c co \<longleftrightarrow> (case co of None \<Rightarrow> True | Some p \<Rightarrow> epoch p \<noteq> epoch c \<or> seq p < seq c)"

text \<open>The effect of one frame on the view.\<close>

fun follow :: "projection_frame \<Rightarrow> view \<Rightarrow> view" where
  "follow (FEntry f) v = follow_live (ef_cursor f) v"
| "follow (FEvent f) v = follow_live (vf_cursor f) v"
| "follow (FGap g) v = (fst v, True)"
| "follow (FSnapshot f) v = (if ahead (sf_cursor f) (fst v) then (Some (sf_cursor f), False) else v)"
| "follow _ v = v"

inductive chain :: "jsstr \<Rightarrow> int \<Rightarrow> projection_frame list \<Rightarrow> int \<Rightarrow> bool" for e :: jsstr where
  chain_end: "chain e a [] a"
| chain_entry: "ef_cursor f = \<lparr>epoch = e, seq = a + 1\<rparr> \<Longrightarrow> chain e (a + 1) fs b \<Longrightarrow> chain e a (FEntry f # fs) b"
| chain_event: "vf_cursor f = \<lparr>epoch = e, seq = a + 1\<rparr> \<Longrightarrow> chain e (a + 1) fs b \<Longrightarrow> chain e a (FEvent f # fs) b"
| chain_snapshot: "sf_cursor f = \<lparr>epoch = e, seq = a + 1\<rparr> \<Longrightarrow> chain e (a + 1) fs b \<Longrightarrow> chain e a (FSnapshot f # fs) b"
| chain_gap: "gf_to g = \<lparr>epoch = e, seq = a + 1\<rparr> \<Longrightarrow> sf_cursor f = \<lparr>epoch = e, seq = a + 1\<rparr> \<Longrightarrow> chain e (a + 1) fs b \<Longrightarrow>
    chain e a (FGap g # FSnapshot f # fs) b"

inductive_cases chain_NilE: "chain e a [] b"
inductive_cases chain_ConsE: "chain e a (f # fs) b"

lemma chain_le: "chain e a fs b \<Longrightarrow> a \<le> b"
  by (induction rule: chain.induct) simp_all

lemma chain_frames: "chain e a fs b \<Longrightarrow> f \<in> set fs \<Longrightarrow> \<exists>c. frameCursor f = Some c \<and> epoch c = e \<and> a < seq c \<and> seq c \<le> b"
proof (induction rule: chain.induct)
  case (chain_entry g a fs b)
  then show ?case using chain_le [OF chain_entry(2)] by force
next
  case (chain_event g a fs b)
  then show ?case using chain_le [OF chain_event(2)] by force
next
  case (chain_snapshot g a fs b)
  then show ?case using chain_le [OF chain_snapshot(2)] by force
next
  case (chain_gap g a h fs b)
  then show ?case using chain_le [OF chain_gap(3)] by force
qed simp

lemma frame_seq_simps [simp]:
  "frame_seq d (FEntry f) = seq (ef_cursor f)" "frame_seq d (FEvent g) = seq (vf_cursor g)"
  "frame_seq d (FSnapshot h) = seq (sf_cursor h)" "frame_seq d (FGap k) = seq (gf_to k)"
  by (simp_all add: frame_seq_def)

lemma chain_append: "chain e a fs b \<Longrightarrow> chain e b gs c \<Longrightarrow> chain e a (fs @ gs) c"
  by (induction rule: chain.induct) (auto intro: chain.intros)

lemma chain_tl: "chain e a xs b \<Longrightarrow> xs = g # gs \<Longrightarrow> \<exists>a' \<ge> a. chain e a' gs b"
proof (induction rule: chain.induct)
  case (chain_gap k a f fs b)
  then show ?case by (intro exI [of _ a]) (auto intro: chain_snapshot)
qed (auto intro!: exI [of _ "_ + 1"])

lemma chain_hd: "chain e a (f # fs) b \<Longrightarrow> frame_seq d f = a + 1"
  by (erule chain_ConsE) (simp_all add: frame_seq_def)

text \<open>Dropping the frames a follower has already seen leaves a chain from its position.\<close>

lemma chain_seen:
  assumes "chain e a fs b" "a \<le> c" "c \<le> b"
  shows "chain e c (filter (\<lambda>f. frame_seq 0 f > c) fs) b"
proof -
  have keep: "filter (\<lambda>f. frame_seq 0 f > c') gs = gs" if "chain e a' gs b'" "c' \<le> a'" for a' b' c' gs
  proof (rule filter_True, rule ballI)
    fix f assume "f \<in> set gs"
    from chain_frames [OF that(1) this] that(2) show "frame_seq 0 f > c'" by (auto simp: frame_seq_def)
  qed
  show ?thesis using assms
  proof (induction arbitrary: c rule: chain.induct)
    case (chain_end a)
    then show ?case by (auto intro: chain.intros)
  next
    case (chain_entry f a fs b)
    then show ?case
      by (cases "c = a") (auto simp: keep [OF chain_entry(2)] intro: chain.intros)
  next
    case (chain_event f a fs b)
    then show ?case
      by (cases "c = a") (auto simp: keep [OF chain_event(2)] intro: chain.intros)
  next
    case (chain_snapshot f a fs b)
    then show ?case
      by (cases "c = a") (auto simp: keep [OF chain_snapshot(2)] intro: chain.intros)
  next
    case (chain_gap g a f fs b)
    then show ?case
      by (cases "c = a") (auto simp: keep [OF chain_gap(3)] intro: chain.intros)
  qed
qed

text \<open>Live frames only.\<close>

definition live_cursor :: "projection_frame \<Rightarrow> cursor option" where
  "live_cursor f = (case f of FEntry e \<Rightarrow> Some (ef_cursor e) | FEvent e \<Rightarrow> Some (vf_cursor e) | _ \<Rightarrow> None)"

subsection \<open>Followers\<close>

text \<open>A snapshot behind the view is left out: the instances differ in what they do with it.\<close>

definition admissible :: "projection_frame \<Rightarrow> view \<Rightarrow> bool" where
  "admissible f v \<longleftrightarrow> (case f of FSnapshot sf \<Rightarrow> ahead (sf_cursor sf) (fst v) | _ \<Rightarrow> True)"

lemma admissible_simps [simp]:
  "admissible (FEntry e) v" "admissible (FEvent w) v" "admissible (FGap g) v"
  "admissible (FSnapshot sf) v = ahead (sf_cursor sf) (fst v)"
  by (simp_all add: admissible_def)

lemma live_admissible: "live_cursor f = Some c \<Longrightarrow> admissible f v"
  by (cases f) (simp_all add: live_cursor_def)

locale follower =
  fixes view :: "'s \<Rightarrow> view"
    and feed :: "projection_frame \<Rightarrow> 's \<Rightarrow> 's"
    and ok :: "'s \<Rightarrow> bool"
    and mine :: "projection_frame \<Rightarrow> bool"
  assumes ok_feed: "ok s \<Longrightarrow> mine f \<Longrightarrow> admissible f (view s) \<Longrightarrow> ok (feed f s)"
    and view_live: "ok s \<Longrightarrow> mine f \<Longrightarrow> live_cursor f = Some c \<Longrightarrow> view (feed f s) = follow_live c (view s)"
    and view_gap: "ok s \<Longrightarrow> mine (FGap g) \<Longrightarrow> view (feed (FGap g) s) = (fst (view s), True)"
    and view_snapshot: "ok s \<Longrightarrow> mine (FSnapshot sf) \<Longrightarrow> ahead (sf_cursor sf) (fst (view s)) \<Longrightarrow>
      view (feed (FSnapshot sf) s) = (Some (sf_cursor sf), False)"
begin

lemma follows_chain:
  assumes "chain e a fs b" "ok s" "list_all mine fs" "view s = (Some \<lparr>epoch = e, seq = a\<rparr>, False)"
  shows "ok (fold feed fs s) \<and> view (fold feed fs s) = (Some \<lparr>epoch = e, seq = b\<rparr>, False)"
  using assms
proof (induction arbitrary: s rule: chain.induct)
  case (chain_entry f a fs b)
  have "view (feed (FEntry f) s) = (Some \<lparr>epoch = e, seq = a + 1\<rparr>, False)"
    using view_live [of s "FEntry f"] chain_entry by (simp add: live_cursor_def follow_live_def)
  then show ?case using chain_entry ok_feed [of s "FEntry f"] by simp
next
  case (chain_event f a fs b)
  have "view (feed (FEvent f) s) = (Some \<lparr>epoch = e, seq = a + 1\<rparr>, False)"
    using view_live [of s "FEvent f"] chain_event by (simp add: live_cursor_def follow_live_def)
  then show ?case using chain_event ok_feed [of s "FEvent f"] by simp
next
  case (chain_snapshot f a fs b)
  have "view (feed (FSnapshot f) s) = (Some \<lparr>epoch = e, seq = a + 1\<rparr>, False)"
    using view_snapshot [of s f] chain_snapshot by (simp add: ahead_def)
  then show ?case using chain_snapshot ok_feed [of s "FSnapshot f"] by (simp add: ahead_def)
next
  case (chain_gap g a f fs b)
  have "view (feed (FGap g) s) = (Some \<lparr>epoch = e, seq = a\<rparr>, True)" "ok (feed (FGap g) s)"
    using view_gap [of s g] ok_feed [of s "FGap g"] chain_gap by simp_all
  then have "view (feed (FSnapshot f) (feed (FGap g) s)) = (Some \<lparr>epoch = e, seq = a + 1\<rparr>, False)"
    "ok (feed (FSnapshot f) (feed (FGap g) s))"
    using view_snapshot [of "feed (FGap g) s" f] ok_feed [of _ "FSnapshot f"] chain_gap by (simp_all add: ahead_def)
  then show ?case using chain_gap by simp
qed simp

lemma recovers:
  assumes "ok s" "mine (FGap g)" "mine (FSnapshot f)" "ahead (sf_cursor f) (fst (view s))"
  shows "ok (fold feed [FGap g, FSnapshot f] s) \<and> view (fold feed [FGap g, FSnapshot f] s) = (Some (sf_cursor f), False)"
  using view_gap [OF assms(1,2)] view_snapshot [of "feed (FGap g) s" f] ok_feed [of s "FGap g"] ok_feed [of "feed (FGap g) s" "FSnapshot f"] assms
  by simp

text \<open>Without a snapshot a follower that lost the thread stays where it is.\<close>

lemma stuck_without_snapshot:
  assumes "ok s" "list_all mine fs" "list_all (\<lambda>f. live_cursor f \<noteq> None) fs" "view s = (co, True)"
  shows "view (fold feed fs s) = (co, True)"
  using assms
proof (induction fs arbitrary: s)
  case (Cons f fs)
  then obtain c where c: "live_cursor f = Some c" by auto
  then have "view (feed f s) = (co, True)" using view_live [of s f c] Cons.prems by simp
  then show ?case using Cons ok_feed [of s f] live_admissible [OF c] by simp
qed simp

end

end
