(* ===== verification/HostReplay.thy ===== *)
theory HostReplay
  imports CursorFollow
begin

text \<open>
  What the host's ring holds, and what it serves from it. Every method of the session projection
  is a step; along every run of steps the ring is a chain of frames that ends at the transcript
  cursor. From that, replaying from any earlier position gives a chain to the current cursor, or
  a gap with a snapshot at the current cursor, and a follower that is fed the replay ends there.
\<close>

subsection \<open>Steps\<close>

inductive host_step :: "(jsstr \<Rightarrow> jsstr) \<Rightarrow> (jsstr \<Rightarrow> jsstr \<Rightarrow> int) \<Rightarrow> host_projection \<Rightarrow> host_projection \<Rightarrow> bool"
  for digest compare where
  "host_step digest compare h (fst (updateStatus digest status h))"
| "host_step digest compare h (fst (markRuntimeCrashed digest outcome h))"
| "host_step digest compare h (fst (markRuntimeRestartable digest h))"
| "host_step digest compare h (fst (updateTitle digest title h))"
| "host_step digest compare h (fst (updateMode digest mode h))"
| "host_step digest compare h (fst (reconcileRecord digest rcd h))"
| "host_step digest compare h (fst (reconcileObserverRecord digest rcd h))"
| "host_step digest compare h (fst (updateArchivedAt digest archivedAt h))"
| "host_step digest compare h (fst (indexUpsert h))"
| "host_step digest compare h (fst (remove_session digest h))"
| "host_step digest compare h (fst (setSessionControl digest control h))"
| "rebaseEntries digest entries h = (h', Some (Inr frames)) \<Longrightarrow> host_step digest compare h h'"
| "host_step digest compare h (fst (appendEntry digest entry h))"
| "host_step digest compare h (fst (updateState digest state st recover transport h))"
| "host_step digest compare h (fst (updatePendingPrompts digest prompts h))"
| "host_step digest compare h (fst (addPendingPrompt digest pending h))"
| "host_step digest compare h (fst (clearPendingPrompt digest entryId h))"
| "host_step digest compare h (fst (setPendingAttention digest compare item h))"
| "host_step digest compare h (fst (removePendingAttention digest compare i h))"
| "host_step digest compare h (fst (clearPendingAttention digest compare h))"
| "host_step digest compare h (fst (setLatestOutcome digest compare outcome h))"
| "host_step digest compare h (fst (settleAttentionOutcome digest compare outcome h))"
| "host_step digest compare h (fst (appendEvent event h))"

text \<open>Methods that publish to the index leave the transcript's cursor and ring alone.\<close>

definition same_transcript :: "host_projection \<Rightarrow> host_projection \<Rightarrow> bool" where
  "same_transcript h h' \<longleftrightarrow>
     hp_hostId h' = hp_hostId h \<and> hp_sessionId h' = hp_sessionId h \<and> hp_cursor h' = hp_cursor h \<and>
     hp_ring h' = hp_ring h \<and> hp_entries h' = hp_entries h \<and> hp_byId h' = hp_byId h"

lemma same_transcript_refl [simp]: "same_transcript h h"
  by (simp add: same_transcript_def)

lemma updateRef_transcript: "same_transcript h (fst (updateRef digest next marker h))"
  by (simp add: updateRef_def Let_def same_transcript_def nextIndexCursor_def)

lemma updateChangedRef_transcript: "same_transcript h (fst (updateChangedRef digest next marker h))"
  by (simp add: updateChangedRef_def updateRef_transcript)

lemma pending_transcript:
  "same_transcript (h\<lparr>hp_pendingAttention := x\<rparr>) h' = same_transcript h h'"
  by (simp add: same_transcript_def)

lemmas transcript_simps = updateRef_transcript updateChangedRef_transcript
  updateRef_transcript [of "_\<lparr>hp_pendingAttention := _\<rparr>", unfolded pending_transcript]
  updateChangedRef_transcript [of "_\<lparr>hp_pendingAttention := _\<rparr>", unfolded pending_transcript]

lemma ref_methods_transcript:
  "same_transcript h (fst (updateStatus digest status h))"
  "same_transcript h (fst (markRuntimeCrashed digest outcome h))"
  "same_transcript h (fst (markRuntimeRestartable digest h))"
  "same_transcript h (fst (updateTitle digest title h))"
  "same_transcript h (fst (updateMode digest mode h))"
  "same_transcript h (fst (reconcileRecord digest rcd h))"
  "same_transcript h (fst (reconcileObserverRecord digest rcd h))"
  "same_transcript h (fst (updateArchivedAt digest archivedAt h))"
  "same_transcript h (fst (setSessionControl digest control h))"
  "same_transcript h (fst (updateState digest state st recover transport h))"
  "same_transcript h (fst (updatePendingPrompts digest prompts h))"
  "same_transcript h (fst (indexUpsert h))"
  "same_transcript h (fst (remove_session digest h))"
  by (simp_all add: updateStatus_def markRuntimeCrashed_def markRuntimeRestartable_def updateTitle_def updateMode_def
      reconcileRecord_def reconcileObserverRecord_def updateArchivedAt_def setSessionControl_def updateState_def
      updatePendingPrompts_def Let_def transcript_simps)
     (simp_all add: indexUpsert_def remove_session_def Let_def same_transcript_def nextIndexCursor_def)

lemma prompt_methods_transcript:
  "same_transcript h (fst (addPendingPrompt digest pending h))"
  "same_transcript h (fst (clearPendingPrompt digest entryId h))"
  by (simp_all add: addPendingPrompt_def clearPendingPrompt_def Let_def ref_methods_transcript)

lemma updateAttentionRef_transcript: "same_transcript h (fst (updateAttentionRef digest compare marker outcome h))"
  by (simp add: updateAttentionRef_def Let_def transcript_simps)

lemmas attention_simps = updateAttentionRef_transcript
  updateAttentionRef_transcript [of "_\<lparr>hp_pendingAttention := _\<rparr>", unfolded pending_transcript]

lemma attention_methods_transcript:
  "same_transcript h (fst (setPendingAttention digest compare item h))"
  "same_transcript h (fst (removePendingAttention digest compare i h))"
  "same_transcript h (fst (clearPendingAttention digest compare h))"
  "same_transcript h (fst (setLatestOutcome digest compare outcome h))"
  "same_transcript h (fst (settleAttentionOutcome digest compare outcome h))"
  by (simp_all add: setPendingAttention_def removePendingAttention_def clearPendingAttention_def setLatestOutcome_def
      settleAttentionOutcome_def Let_def attention_simps)

lemmas methods_transcript = ref_methods_transcript prompt_methods_transcript attention_methods_transcript

subsection \<open>The ring is a chain\<close>

fun frame_of :: "jsstr \<Rightarrow> jsstr \<Rightarrow> projection_frame \<Rightarrow> bool" where
  "frame_of host session (FEntry f) \<longleftrightarrow> ef_hostId f = host \<and> ef_sessionId f = session"
| "frame_of host session (FEvent f) \<longleftrightarrow> vf_hostId f = host \<and> vf_sessionId f = session"
| "frame_of host session (FGap f) \<longleftrightarrow> gf_hostId f = host \<and> gf_sessionId f = session"
| "frame_of host session (FSnapshot f) \<longleftrightarrow> sf_hostId f = host \<and> sf_sessionId f = session"
| "frame_of host session _ \<longleftrightarrow> False"

definition ring_ok :: "host_projection \<Rightarrow> bool" where
  "ring_ok h \<longleftrightarrow>
     (\<exists>a \<ge> 0. chain (epoch (hp_cursor h)) a (hp_ring h) (seq (hp_cursor h))) \<and>
     list_all (frame_of (hp_hostId h) (hp_sessionId h)) (hp_ring h)"

text \<open>A later state of the same session.\<close>

definition advanced :: "host_projection \<Rightarrow> host_projection \<Rightarrow> bool" where
  "advanced h h' \<longleftrightarrow>
     hp_hostId h' = hp_hostId h \<and> hp_sessionId h' = hp_sessionId h \<and>
     epoch (hp_cursor h') = epoch (hp_cursor h) \<and> seq (hp_cursor h) \<le> seq (hp_cursor h')"

lemma advanced_refl [simp]: "advanced h h"
  by (simp add: advanced_def)

lemma advanced_trans: "advanced h h' \<Longrightarrow> advanced h' h'' \<Longrightarrow> advanced h h''"
  by (auto simp: advanced_def)

lemma same_transcript_ring: "same_transcript h h' \<Longrightarrow> ring_ok h \<Longrightarrow> ring_ok h' \<and> advanced h h'"
  by (simp add: same_transcript_def ring_ok_def advanced_def)

lemma append_live_ring:
  assumes "ring_ok h" "live_cursor f = Some \<lparr>epoch = epoch (hp_cursor h), seq = seq (hp_cursor h) + 1\<rparr>"
    and "frame_of (hp_hostId h) (hp_sessionId h) f"
    and "hp_ring h' = hp_ring h" "hp_cursor h' = \<lparr>epoch = epoch (hp_cursor h), seq = seq (hp_cursor h) + 1\<rparr>"
    "hp_hostId h' = hp_hostId h" "hp_sessionId h' = hp_sessionId h"
  shows "ring_ok (appendFrame f h') \<and> advanced h (appendFrame f h')"
proof -
  let ?e = "epoch (hp_cursor h)" and ?b = "seq (hp_cursor h)"
  obtain a where a: "0 \<le> a" "chain ?e a (hp_ring h) ?b" using assms(1) by (auto simp: ring_ok_def)
  have "chain ?e ?b [f] (?b + 1)"
    using assms(2) by (cases f) (auto simp: live_cursor_def intro: chain.intros)
  from chain_append [OF a(2) this] have ch: "chain ?e a (hp_ring h @ [f]) (?b + 1)" .
  have "\<exists>a' \<ge> 0. chain ?e a' (hp_ring (appendFrame f h')) (?b + 1)"
  proof (cases "length (hp_ring h @ [f]) > hp_ringSize h'")
    case True
    obtain g gs where g: "hp_ring h @ [f] = g # gs" by (cases "hp_ring h") auto
    have "\<exists>a' \<ge> 0. chain ?e a' gs (?b + 1)" using chain_tl [OF ch g] a(1) by (elim exE conjE) (intro exI conjI, auto)
    then show ?thesis using True g assms(4) by (simp add: appendFrame_def Let_def)
  next
    case False
    then show ?thesis using ch a(1) assms(4) by (auto simp: appendFrame_def Let_def)
  qed
  moreover have "list_all (frame_of (hp_hostId h) (hp_sessionId h)) (hp_ring (appendFrame f h'))"
    using assms(1,3,4) by (cases "hp_ring h") (auto simp: appendFrame_def Let_def ring_ok_def)
  ultimately show ?thesis using assms(5-7)
    by (simp add: ring_ok_def advanced_def) (simp add: appendFrame_def Let_def)
qed

lemma appendEvent_ring: "ring_ok h \<Longrightarrow> ring_ok (fst (appendEvent event h)) \<and> advanced h (fst (appendEvent event h))"
  unfolding appendEvent_def Let_def fst_conv
  by (rule append_live_ring) (simp_all add: nextCursor_def live_cursor_def)

lemma appendEntry_ring:
  "ring_ok h \<Longrightarrow> ring_ok (fst (appendEntry digest entry h)) \<and> advanced h (fst (appendEntry digest entry h))"
proof (cases "jm_get (hp_byId h) (e_id entry)")
  case None
  assume "ring_ok h"
  then show ?thesis unfolding appendEntry_def None option.case Let_def fst_conv
    by (rule append_live_ring) (simp_all add: nextCursor_def live_cursor_def)
qed (simp add: appendEntry_def appendEvent_ring)

lemma append_entries_ring:
  "ring_ok h \<Longrightarrow> ring_ok (fst (append_entries digest es h frames n b)) \<and> advanced h (fst (append_entries digest es h frames n b))"
proof (induction digest es h frames n b rule: append_entries.induct)
  case (2 digest e es h frames n b)
  obtain h' fo where e: "appendEntry digest e h = (h', fo)" by fastforce
  then have h': "ring_ok h'" "advanced h h'" using appendEntry_ring [OF 2(5), of digest e] by simp_all
  show ?case
  proof (cases fo)
    case None
    then show ?thesis using 2(1) [OF e [symmetric] None h'(1)] h'(2) e by (auto intro: advanced_trans)
  next
    case (Some frame)
    then show ?thesis using 2(2-4) [OF e [symmetric] Some] h' e by (auto intro: advanced_trans)
  qed
qed simp

lemma host_snapshot_frame:
  "host_snapshot digest h = Some (Inr snap) \<Longrightarrow>
   \<exists>sf. snap = FSnapshot sf \<and> sf_cursor sf = hp_cursor h \<and> sf_hostId sf = hp_hostId h \<and> sf_sessionId sf = hp_sessionId h"
  by (auto simp: host_snapshot_def bind_run_def split: option.splits sum.splits)

lemma replace_ring_ok:
  assumes "replace_ring digest (host_gap h ep n reason) h = (h', Some (Inr frames))" "0 < seq (hp_cursor h)"
  shows "ring_ok h' \<and> advanced h h'"
proof -
  obtain snap where snap: "host_snapshot digest h = Some (Inr snap)"
    and h': "h' = appendFrame snap (appendFrame (host_gap h ep n reason) (h\<lparr>hp_ring := []\<rparr>))"
    using assms(1) by (auto simp: replace_ring_def split: option.splits sum.splits)
  then obtain sf where sf: "snap = FSnapshot sf" "sf_cursor sf = hp_cursor h" "sf_hostId sf = hp_hostId h" "sf_sessionId sf = hp_sessionId h"
    using host_snapshot_frame by blast
  let ?c = "hp_cursor h"
  have zero: "chain (epoch ?c) (seq ?c) [] (seq ?c)" by (rule chain_end)
  then have tail: "chain (epoch ?c) ((seq ?c - 1) + 1) [] (seq ?c)" by simp
  have two: "chain (epoch ?c) (seq ?c - 1) [host_gap h ep n reason, snap] (seq ?c)"
    unfolding host_gap_def sf(1) by (rule chain_gap [OF _ _ tail]) (simp_all add: sf(2))
  have one: "chain (epoch ?c) (seq ?c - 1) [snap] (seq ?c)"
    unfolding sf(1) by (rule chain_snapshot [OF _ tail]) (simp add: sf(2))
  have ring: "hp_ring h' \<in> {[], [snap], [host_gap h ep n reason, snap]}"
    by (auto simp: h' appendFrame_def Let_def)
  have "\<exists>a \<ge> 0. chain (epoch ?c) a (hp_ring h') (seq ?c)" "list_all (frame_of (hp_hostId h) (hp_sessionId h)) (hp_ring h')"
    using ring one two zero assms(2) sf by (auto simp: host_gap_def intro: exI [of _ "seq ?c - 1"] exI [of _ "seq ?c"])
  then show ?thesis by (simp add: ring_ok_def advanced_def h' appendFrame_def Let_def)
qed

lemma appendEntry_seq: "appendEntry digest e h = (h', Some frame) \<Longrightarrow> seq (hp_cursor h') = seq (hp_cursor h) + 1"
  by (auto simp: appendEntry_def appendEvent_def Let_def nextCursor_def appendFrame_def split: option.splits if_splits)

lemma append_entries_exceeded:
  "append_entries digest es h frames n b = (h', fs, True) \<Longrightarrow> ring_ok h \<Longrightarrow> b \<or> seq (hp_cursor h) < seq (hp_cursor h')"
proof (induction digest es h frames n b rule: append_entries.induct)
  case (2 digest e es h frames n b)
  obtain g fo where e: "appendEntry digest e h = (g, fo)" by fastforce
  have g: "ring_ok g" "seq (hp_cursor h) \<le> seq (hp_cursor g)"
    using appendEntry_ring [OF 2(6), of digest e] e by (simp_all add: advanced_def)
  show ?case
  proof (cases fo)
    case None
    then show ?thesis using 2(1) [OF e [symmetric] None] 2(5) g e by auto
  next
    case (Some frame)
    have "advanced g (fst (append_entries digest es g fs' n' b'))" for fs' n' b' using append_entries_ring [OF g(1)] by blast
    then have "seq (hp_cursor g) \<le> seq (hp_cursor h')" using 2(5) e Some by (auto simp: advanced_def split: if_splits) (metis fst_conv)+
    then show ?thesis using appendEntry_seq [OF e [unfolded Some]] by simp
  qed
qed simp

lemma ring_seq: "ring_ok h \<Longrightarrow> 0 \<le> seq (hp_cursor h)"
  by (auto simp: ring_ok_def dest: chain_le)

lemma rebaseEntries_ring:
  assumes "ring_ok h" "rebaseEntries digest entries h = (h', Some (Inr frames))"
  shows "ring_ok h' \<and> advanced h h'"
proof (cases "is_json_prefix (hp_entries h) (map (rebind (hp_hostId h) (hp_sessionId h)) entries)")
  case True
  let ?es = "drop (length (hp_entries h)) (map (rebind (hp_hostId h) (hp_sessionId h)) entries)"
  obtain g fs b where g: "append_entries digest ?es h [] 0 False = (g, fs, b)" by (metis prod_cases3)
  have ok: "ring_ok g" "advanced h g" using append_entries_ring [OF assms(1), of digest ?es "[]" 0 False] g by simp_all
  show ?thesis
  proof (cases b)
    case True
    then have "0 < seq (hp_cursor g)" using append_entries_exceeded [of digest ?es h "[]" 0 False g fs] g assms(1) ring_seq [OF assms(1)] by simp
    then show ?thesis
      using assms(2) \<open>is_json_prefix _ _\<close> g True ok replace_ring_ok [of digest g]
      by (auto simp: rebaseEntries_def Let_def intro: advanced_trans)
  next
    case False
    then show ?thesis using assms(2) \<open>is_json_prefix _ _\<close> g ok by (auto simp: rebaseEntries_def Let_def)
  qed
next
  case False
  let ?g = "nextCursor (reset_entries digest (map (rebind (hp_hostId h) (hp_sessionId h)) entries) h)"
  have "0 < seq (hp_cursor ?g)" "advanced h ?g" using ring_seq [OF assms(1)]
    by (simp_all add: nextCursor_def reset_entries_def Let_def advanced_def)
  then show ?thesis
    using assms(2) False replace_ring_ok [of digest ?g] by (auto simp: rebaseEntries_def Let_def intro: advanced_trans)
qed

lemmas methods_ring = methods_transcript [THEN same_transcript_ring]

lemma host_step_ring: "host_step digest compare h h' \<Longrightarrow> ring_ok h \<Longrightarrow> ring_ok h' \<and> advanced h h'"
  by (induction rule: host_step.induct)
     (simp_all add: methods_ring appendEntry_ring appendEvent_ring rebaseEntries_ring)

lemma host_steps_ring: "(host_step digest compare)\<^sup>*\<^sup>* h h' \<Longrightarrow> ring_ok h \<Longrightarrow> ring_ok h' \<and> advanced h h'"
  by (induction rule: rtranclp_induct) (auto dest: host_step_ring intro: advanced_trans)

lemma new_projection_ring: "ring_ok (newSessionProjection digest host rcd ep n)"
  by (auto simp: newSessionProjection_def Let_def ring_ok_def intro: chain_end)

subsection \<open>What a replay holds\<close>

definition snapshot_ready :: "(jsstr \<Rightarrow> jsstr) \<Rightarrow> host_projection \<Rightarrow> bool" where
  "snapshot_ready digest h \<longleftrightarrow>
     snapshot_input_ok digest (hp_entries h) (hp_hostId h) (hp_sessionId h) (text_of (get_prop (hp_ref h) ''updatedAt''))"

lemma host_snapshot_ready:
  assumes "snapshot_ready digest h"
  shows "\<exists>sf. host_snapshot digest h = Some (Inr (FSnapshot sf)) \<and> sf_cursor sf = hp_cursor h \<and>
    sf_hostId sf = hp_hostId h \<and> sf_sessionId sf = hp_sessionId h"
proof -
  obtain es where "boundSnapshotEntries digest (hp_entries h) (hp_hostId h) (hp_sessionId h)
      (text_of (get_prop (hp_ref h) ''updatedAt'')) = Some (Inr es)"
    using boundSnapshotEntries_cases [OF assms [unfolded snapshot_ready_def]] unfolding Let_def by blast
  then show ?thesis by (simp add: host_snapshot_def bind_run_def)
qed

lemma gap_and_snapshot_ready:
  assumes "snapshot_ready digest h"
  shows "\<exists>sf. gap_and_snapshot digest h g = Some (Inr [g, FSnapshot sf]) \<and> sf_cursor sf = hp_cursor h \<and>
    frame_of (hp_hostId h) (hp_sessionId h) (FSnapshot sf)"
  using host_snapshot_ready [OF assms] by (auto simp: gap_and_snapshot_def bind_run_def)

lemma ring_ok_oldest:
  assumes "ring_ok h" shows "chain (epoch (hp_cursor h)) (oldest_seq h - 1) (hp_ring h) (seq (hp_cursor h))" "0 \<le> oldest_seq h - 1"
proof -
  obtain a where a: "0 \<le> a" "chain (epoch (hp_cursor h)) a (hp_ring h) (seq (hp_cursor h))"
    using assms by (auto simp: ring_ok_def)
  have "oldest_seq h - 1 = a"
  proof (cases "hp_ring h")
    case Nil
    then show ?thesis using a(2) by (auto simp: oldest_seq_def elim: chain_NilE)
  next
    case (Cons f fs)
    then show ?thesis using chain_hd [OF a(2) [unfolded Cons]] by (simp add: oldest_seq_def)
  qed
  then show "chain (epoch (hp_cursor h)) (oldest_seq h - 1) (hp_ring h) (seq (hp_cursor h))" "0 \<le> oldest_seq h - 1"
    using a by simp_all
qed

text \<open>A replay is a chain to the host's cursor, or a gap and a snapshot at it.\<close>

definition leads_to :: "cursor \<Rightarrow> projection_frame list \<Rightarrow> cursor \<Rightarrow> bool" where
  "leads_to c fs c' \<longleftrightarrow>
     epoch c = epoch c' \<and> 0 \<le> seq c \<and> chain (epoch c) (seq c) fs (seq c') \<or>
     (\<exists>g sf. fs = [FGap g, FSnapshot sf] \<and> gf_to g = c' \<and> sf_cursor sf = c' \<and> ahead c' (Some c))"

lemma replay_leads_to:
  assumes "ring_ok h" "snapshot_ready digest h" "epoch c = epoch (hp_cursor h) \<Longrightarrow> 0 \<le> seq c \<and> seq c \<le> seq (hp_cursor h)"
  shows "\<exists>fs. replay digest c h = Some (Inr fs) \<and> leads_to c fs (hp_cursor h) \<and> list_all (frame_of (hp_hostId h) (hp_sessionId h)) fs"
proof -
  note ring = ring_ok_oldest [OF assms(1)]
  note snap = gap_and_snapshot_ready [OF assms(2)]
  have served: ?thesis
    if "replay digest c h = gap_and_snapshot digest h (host_gap h ep n reason)" "ahead (hp_cursor h) (Some c)" for ep n reason
  proof -
    obtain sf where sf: "gap_and_snapshot digest h (host_gap h ep n reason) = Some (Inr [host_gap h ep n reason, FSnapshot sf])"
      "sf_cursor sf = hp_cursor h" "frame_of (hp_hostId h) (hp_sessionId h) (FSnapshot sf)" using snap by blast
    then show ?thesis using that by (auto simp: host_gap_def leads_to_def)
  qed
  show ?thesis
  proof (cases "epoch c = epoch (hp_cursor h)")
    case False
    then show ?thesis by (intro served) (simp_all add: replay_def ahead_def)
  next
    case e: True
    have c: "0 \<le> seq c" "seq c \<le> seq (hp_cursor h)" using assms(3) [OF e] by simp_all
    let ?fs = "filter (\<lambda>frame. frame_seq 0 frame > seq c) (hp_ring h)"
    show ?thesis
    proof (cases "seq c < oldest_seq h - 1")
      case True
      then show ?thesis using e chain_le [OF ring(1)] by (intro served) (simp_all add: replay_def ahead_def)
    next
      case old: False
      then have ch: "chain (epoch c) (seq c) ?fs (seq (hp_cursor h))" using chain_seen [OF ring(1), of "seq c"] c e by simp
      show ?thesis
      proof (cases "replayBytes ?fs \<le> max_replay_bytes")
        case True
        moreover have "list_all (frame_of (hp_hostId h) (hp_sessionId h)) ?fs"
          using assms(1) by (auto simp: ring_ok_def list_all_iff)
        ultimately show ?thesis using e old ch c(1) by (simp add: replay_def leads_to_def)
      next
        case False
        then have "?fs \<noteq> []" by (auto simp: replayBytes_def)
        then obtain f where "f \<in> set ?fs" by (metis list.set_intros(1) neq_Nil_conv)
        from chain_frames [OF ch this] have "seq c < seq (hp_cursor h)" by auto
        then show ?thesis using e old False by (intro served) (simp_all add: replay_def ahead_def)
      qed
    qed
  qed
qed

text \<open>
  Where a resume from a cursor ends: at the host's cursor, except that a cursor of the host's epoch
  that is ahead of the host is left where it is.
\<close>

definition resumed :: "cursor \<Rightarrow> cursor \<Rightarrow> cursor" where
  "resumed c c' = (if epoch c = epoch c' \<and> seq c' < seq c then c else c')"

lemma replay_ahead:
  assumes "ring_ok h" "epoch c = epoch (hp_cursor h)" "seq (hp_cursor h) < seq c"
  shows "replay digest c h = Some (Inr [])"
proof -
  note ring = ring_ok_oldest [OF assms(1)]
  have "filter (\<lambda>frame. frame_seq 0 frame > seq c) (hp_ring h) = []"
    using chain_frames [OF ring(1)] assms(3) by (fastforce simp: filter_empty_conv frame_seq_def)
  moreover have "\<not> seq c < oldest_seq h - 1" using chain_le [OF ring(1)] assms(3) by simp
  ultimately show ?thesis using assms(2) by (simp add: replay_def replayBytes_def)
qed

lemma replay_resumes:
  assumes "ring_ok h" "snapshot_ready digest h" "epoch c = epoch (hp_cursor h) \<Longrightarrow> 0 \<le> seq c"
  shows "\<exists>fs. replay digest c h = Some (Inr fs) \<and> leads_to c fs (resumed c (hp_cursor h)) \<and>
    list_all (frame_of (hp_hostId h) (hp_sessionId h)) fs \<and> (resumed c (hp_cursor h) = hp_cursor h \<or> fs = [])"
proof (cases "epoch c = epoch (hp_cursor h) \<and> seq (hp_cursor h) < seq c")
  case True
  then show ?thesis using replay_ahead [OF assms(1)] assms(3) by (auto simp: resumed_def leads_to_def intro: chain_end)
next
  case False
  then have "resumed c (hp_cursor h) = hp_cursor h" "epoch c = epoch (hp_cursor h) \<Longrightarrow> 0 \<le> seq c \<and> seq c \<le> seq (hp_cursor h)"
    using assms(3) by (auto simp: resumed_def)
  then show ?thesis using replay_leads_to [OF assms(1,2), of c] by simp
qed

subsection \<open>Followers catch up\<close>

context follower
begin

lemma leads:
  assumes "ok s" "list_all mine fs" "view s = (Some c, False)" "leads_to c fs c'"
  shows "ok (fold feed fs s) \<and> view (fold feed fs s) = (Some c', False)"
  using assms(4) unfolding leads_to_def
proof (elim disjE exE conjE)
  assume "chain (epoch c) (seq c) fs (seq c')" "epoch c = epoch c'"
  then show ?thesis using follows_chain [of "epoch c" "seq c" fs "seq c'" s] assms(1-3) by simp
next
  fix g sf assume "fs = [FGap g, FSnapshot sf]" "sf_cursor sf = c'" "ahead c' (Some c)"
  then show ?thesis using recovers [of s g sf] assms(1-3) by simp
qed

end

end
