(* ===== verification/ProjectionInvariant.thy ===== *)
theory ProjectionInvariant
  imports ProjectionReducer
begin

text \<open>
  The invariant of the client projection and its preservation by every frame: the warm-session
  list and the session map name the same sessions, every collection stays within its cap, every
  arrival ordinal belongs to an indexed session and none is ahead of the counter.
\<close>

subsection \<open>Capped maps\<close>

definition capped :: "nat \<Rightarrow> ('k, 'v) jsmap \<Rightarrow> bool" where
  "capped n m \<longleftrightarrow> jm_wf m \<and> length m \<le> n"

lemma capped_Nil [simp]: "capped n []"
  by (simp add: capped_def)

lemma capped_mapWith [wf_intros]: "jm_wf m \<Longrightarrow> capped n (mapWith m k v n)"
  by (simp add: capped_def mapWith_def jm_wf_set jm_wf_evict length_jm_evict)

lemma capped_wf: "capped n m \<Longrightarrow> jm_wf m"
  by (simp add: capped_def)

lemma capped_with [wf_intros, simp]: "capped n m \<Longrightarrow> capped n (mapWith m k v n)"
  by (rule capped_mapWith) (rule capped_wf)

lemma capped_delete [wf_intros]: "capped n m \<Longrightarrow> capped n (mapWithout m k)"
  by (auto simp: capped_def mapWithout_def wf_intros jm_delete_filter intro: order_trans [OF length_filter_le])

lemma fold_jm_delete: "fold jm_delete ks m = filter (\<lambda>p. fst p \<notin> set ks) m"
  by (induction ks arbitrary: m) (simp_all add: jm_delete_filter conj_commute)

lemma capped_filter [wf_intros]: "capped n m \<Longrightarrow> capped n (filter P m)"
  by (auto simp: capped_def wf_intros intro: order_trans [OF length_filter_le])

lemma capped_put_all [wf_intros]: "capped n m \<Longrightarrow> capped n (put_all n es m)"
  unfolding put_all_def by (induction es arbitrary: m) (auto simp: capped_mapWith capped_wf)

text \<open>A map that has room keeps everything it had.\<close>

lemma mapWith_room:
  assumes "jm_wf m" "length m < n \<or> (k \<in> set (jm_keys m) \<and> length m \<le> n)"
  shows "mapWith m k v n = jm_set k v m"
proof -
  have "length (jm_set k v m) = length (jm_keys (jm_set k v m))" by simp
  also have "\<dots> \<le> n" using assms(2) by (auto simp: jm_keys_set simp del: length_jm_keys) (auto)
  finally show ?thesis by (simp add: mapWith_def jm_evict_id)
qed

lemma mapWith_set_sub: "jm_wf m \<Longrightarrow> (j, w) \<in> set (mapWith m k v n) \<Longrightarrow> (j, w) = (k, v) \<or> (j, w) \<in> set m"
  unfolding mapWith_def using jm_evict_in_set [OF jm_wf_set] jm_set_in_set by metis

lemma mapWith_keys_sub: "jm_wf m \<Longrightarrow> set (jm_keys (mapWith m k v n)) \<subseteq> insert k (set (jm_keys m))"
  by (force simp: jm_keys_def dest: mapWith_set_sub)

lemma mapWith_get_new: "jm_wf m \<Longrightarrow> 0 < n \<Longrightarrow> k \<notin> set (jm_keys m) \<Longrightarrow> jm_get (mapWith m k v n) k = Some v"
proof -
  assume wf: "jm_wf m" and n: "0 < n" and k: "k \<notin> set (jm_keys m)"
  let ?m = "m @ [(k, v)]"
  have eq: "jm_set k v m = ?m" by (rule jm_set_notin [OF k])
  have wf': "jm_wf ?m" using jm_wf_set [OF wf, of k v] eq by simp
  have "(k, v) \<in> set (drop (length ?m - n) ?m)" using n by (simp add: Suc_diff_le)
  then have "(k, v) \<in> set (mapWith m k v n)" by (simp only: mapWith_def eq jm_evict_drop [OF wf'])
  then show ?thesis using capped_wf [OF capped_mapWith [OF wf]] by (simp add: jm_get_iff_in_set)
qed

subsection \<open>Sessions\<close>

definition transcript_ok :: "caps \<Rightarrow> agent_transcript \<Rightarrow> bool" where
  "transcript_ok config t \<longleftrightarrow>
     retained_list (retain_caps (maxAgentTranscriptEntries config) (maxAgentTranscriptBytes config) (maxEntryBytes config))
       (at_entries t) \<and> at_entryIds t = map e_id (at_entries t)"

text \<open>Bytes of the event history as the code counts them.\<close>

definition events_ok :: "caps \<Rightarrow> event_frame list \<Rightarrow> bool" where
  "events_ok config es \<longleftrightarrow>
     int (length es) \<le> boundedInteger (Some (int (maxEvents config))) max_retained_session_events max_retained_session_events \<and>
     int (json_bytes (JArr (map event_val es))) \<le>
       max 2 (boundedInteger (Some (int (maxEventsBytes config))) max_retained_session_events_bytes max_retained_session_events_bytes)"

text \<open>The collections of a session, without its event history and ordinals.\<close>

definition collections_ok :: "caps \<Rightarrow> session_projection \<Rightarrow> bool" where
  "collections_ok config p \<longleftrightarrow>
     retained_list (transcript_caps config) (sp_entries p) \<and> sp_entryIds p = map e_id (sp_entries p) \<and>
     capped max_map_entries (sp_agents p) \<and>
     capped (maxAgentTranscripts config) (sp_agentTranscripts p) \<and>
     list_all (\<lambda>(k, t). transcript_ok config t) (sp_agentTranscripts p) \<and>
     capped (maxTerminals config) (sp_terminals p) \<and>
     map_bytes terminalProjectionBytes (sp_terminals p) \<le> int (maxTerminalBytes config) \<and>
     capped (maxFiles config) (sp_files p) \<and>
     map_bytes fileProjectionBytes (sp_files p) \<le> int (maxFilesBytes config) \<and>
     capped max_map_entries (sp_reviews p) \<and> length (sp_audit p) \<le> maxAudit config \<and>
     capped max_map_entries (sp_confirmations p) \<and> capped max_map_entries (sp_results p) \<and>
     capped (maxPreviews config) (sp_previews p) \<and> length (sp_previewEvents p) \<le> maxPreviewEvents config"

definition session_ok :: "caps \<Rightarrow> int \<Rightarrow> session_projection \<Rightarrow> bool" where
  "session_ok config now p \<longleftrightarrow>
     collections_ok config p \<and> events_ok config (sp_events p) \<and>
     sp_transcriptEventArrivalOrdinal p \<le> now \<and> sp_contextMaintenanceEventArrivalOrdinal p \<le> now"

lemma session_ok_mono: "session_ok config now p \<Longrightarrow> now \<le> now' \<Longrightarrow> session_ok config now' p"
  by (auto simp: session_ok_def)

text \<open>The caps the invariant needs; the defaults satisfy them.\<close>

definition caps_ok :: "caps \<Rightarrow> bool" where
  "caps_ok config \<longleftrightarrow>
     0 < maxWarmSessions config \<and> maxWarmSessions config < max_map_entries \<and>
     0 < maxAudit config \<and> 0 < maxTerminals config \<and> 0 < maxFiles config \<and> 0 < maxPreviewEvents config"

lemma caps_ok_default: "caps_ok default_options"
  by (simp add: caps_ok_def default_options_def max_map_entries_def max_retained_terminals_def max_retained_files_def
      max_retained_preview_events_def)

lemma retained_list_Nil: "retained_list options []"
  using retain_config_range(1,3) [OF refl, of options]
  by (simp add: retained_list_def)

lemma json_bytes_Nil: "json_bytes (JArr []) = 2"
  by (simp add: json_bytes_JArr commas_def)

lemma initialSession_ok: "0 \<le> now \<Longrightarrow> session_ok config now (initialSession h i f)"
  by (simp add: session_ok_def collections_ok_def initialSession_def events_ok_def retained_list_Nil json_bytes_Nil
      boundedInteger_def retention_limits)

subsection \<open>The projection\<close>

definition warm_ok :: "caps \<Rightarrow> snapshot \<Rightarrow> bool" where
  "warm_ok config s \<longleftrightarrow>
     jm_wf (sn_sessions s) \<and> distinct (sn_lru s) \<and> set (sn_lru s) = set (jm_keys (sn_sessions s)) \<and>
     length (sn_lru s) \<le> maxWarmSessions config"

definition active_ok :: "snapshot \<Rightarrow> bool" where
  "active_ok s \<longleftrightarrow> sn_activeSessionKey s = None \<or> the (sn_activeSessionKey s) \<in> set (sn_lru s)"

definition index_ok :: "caps \<Rightarrow> snapshot \<Rightarrow> bool" where
  "index_ok config s \<longleftrightarrow>
     capped (maxIndexedSessions config) (sn_sessionIndex s) \<and>
     capped (maxIndexedSessions config) (sn_sessionIndexMetadata s) \<and>
     capped (maxIndexedSessions config) (sn_sessionRefArrivalOrdinals s) \<and>
     capped (maxIndexedSessions config) (sn_sessionDeltaCursors s) \<and>
     capped (maxIndexedSessions config) (sn_sessionInventoryCursors s) \<and>
     capped (maxWorkspaces config) (sn_workspaces s) \<and> capped (maxWorkspaces config) (sn_workspaceCursors s) \<and>
     set (jm_keys (sn_sessionRefArrivalOrdinals s)) \<subseteq> set (jm_keys (sn_sessionIndex s))"

definition ordinals_ok :: "snapshot \<Rightarrow> bool" where
  "ordinals_ok s \<longleftrightarrow>
     0 \<le> sn_arrivalOrdinal s \<and> sn_arrivalOrdinal s \<le> max_safe_integer \<and>
     list_all (\<lambda>(k, n). n \<le> sn_arrivalOrdinal s) (sn_sessionRefArrivalOrdinals s)"

definition sessions_ok :: "caps \<Rightarrow> int \<Rightarrow> (jsstr, session_projection) jsmap \<Rightarrow> bool" where
  "sessions_ok config now m \<longleftrightarrow> list_all (\<lambda>(k, p). session_ok config now p) m"

definition snapshot_ok :: "caps \<Rightarrow> snapshot \<Rightarrow> bool" where
  "snapshot_ok config s \<longleftrightarrow>
     warm_ok config s \<and> active_ok s \<and> index_ok config s \<and> ordinals_ok s \<and>
     sessions_ok config (sn_arrivalOrdinal s) (sn_sessions s)"

lemma createProjectionSnapshot_ok: "snapshot_ok config createProjectionSnapshot"
  by (simp add: snapshot_ok_def createProjectionSnapshot_def warm_ok_def active_ok_def index_ok_def ordinals_ok_def
      sessions_ok_def max_safe_integer_def jm_keys_def)

subsection \<open>Warming a session\<close>

lemma length_warm: "warm_ok config s \<Longrightarrow> length (sn_sessions s) = length (sn_lru s)"
  by (metis distinct_card jm_wf_keys length_jm_keys warm_ok_def)

lemma evict_lru_eq:
  "evict_lru n lru m = (drop (length lru - n) lru, filter (\<lambda>p. fst p \<notin> set (take (length lru - n) lru)) m)"
proof (induction lru arbitrary: m)
  case (Cons k lru)
  show ?case
  proof (cases "n < length (k # lru)")
    case True
    then have "length (k # lru) - n = Suc (length lru - n)" by (simp add: Suc_diff_le)
    with True show ?thesis by (simp add: Cons mapWithout_def jm_delete_filter conj_commute)
  next
    case False
    then show ?thesis by simp
  qed
qed simp

definition warmed_lru :: "snapshot \<Rightarrow> jsstr \<Rightarrow> caps \<Rightarrow> jsstr list" where
  "warmed_lru s k config = slice_last (maxWarmSessions config) (filter (\<lambda>j. j \<noteq> k) (sn_lru s) @ [k])"

definition session_or_new :: "snapshot \<Rightarrow> jsstr \<Rightarrow> session_projection" where
  "session_or_new s k =
     (case jm_get (sn_sessions s) k of Some p \<Rightarrow> p | None \<Rightarrow> initialSession (key_host k) (key_session k) Fresh)"

text \<open>The sessions that stay warm, the current one created if it is new.\<close>

definition warmed_sessions :: "snapshot \<Rightarrow> jsstr \<Rightarrow> caps \<Rightarrow> (jsstr, session_projection) jsmap" where
  "warmed_sessions s k config =
     filter (\<lambda>p. fst p \<in> set (warmed_lru s k config)) (jm_set k (session_or_new s k) (sn_sessions s))"

lemma slice_last_drop: "0 < n \<Longrightarrow> slice_last n xs = drop (length xs - n) xs"
  by (simp add: slice_last_def)

lemma distinct_take_drop: "distinct xs \<Longrightarrow> x \<in> set xs \<Longrightarrow> x \<notin> set (take n xs) \<longleftrightarrow> x \<in> set (drop n xs)"
  using set_take_disj_set_drop_if_distinct [of xs n n] set_append [of "take n xs" "drop n xs"] by auto

lemma jm_set_id: "jm_get m k = Some v \<Longrightarrow> jm_wf m \<Longrightarrow> jm_set k v m = m"
  by (induction m) (auto simp: js_simps jm_get_Cons jm_wf_def split: if_splits)

lemma touch_warmed:
  assumes ok: "warm_ok config s" and caps: "caps_ok config"
  shows "or_same s (touch_session s k config) =
    s\<lparr>sn_sessions := warmed_sessions s k config, sn_lru := warmed_lru s k config,
      sn_activeSessionKey := active_or_last (sn_activeSessionKey s) (warmed_lru s k config)\<rparr>"
proof -
  let ?l = "filter (\<lambda>j. j \<noteq> k) (sn_lru s) @ [k]" and ?n = "maxWarmSessions config"
  let ?m = "jm_set k (session_or_new s k) (sn_sessions s)"
  have n: "0 < ?n" "?n < max_map_entries" using caps by (auto simp: caps_ok_def)
  have wf: "jm_wf (sn_sessions s)" and d: "distinct (sn_lru s)"
    and keys: "set (sn_lru s) = set (jm_keys (sn_sessions s))" and len: "length (sn_lru s) \<le> ?n"
    using ok by (auto simp: warm_ok_def)
  have dl: "distinct ?l" by (rule distinct_snoc_filter [OF d])
  have lru: "warmed_lru s k config = drop (length ?l - ?n) ?l" using n by (simp add: warmed_lru_def slice_last_drop)
  have keys': "fst p \<in> set ?l" if "p \<in> set ?m" for p
  proof -
    have "fst p \<in> set (jm_keys ?m)" using that by (simp add: jm_keys_def)
    then show ?thesis using keys by (auto simp: jm_keys_set split: if_splits)
  qed
  have sessions: "filter (\<lambda>p. fst p \<notin> set (take (length ?l - ?n) ?l)) ?m = warmed_sessions s k config"
    unfolding warmed_sessions_def lru by (intro filter_cong refl distinct_take_drop [OF dl keys'])
  have E: "evict_lru ?n ?l ?m = (warmed_lru s k config, warmed_sessions s k config)"
    by (simp only: evict_lru_eq lru sessions)
  show ?thesis
  proof (cases "jm_get (sn_sessions s) k")
    case None
    then have new: "session_or_new s k = initialSession (key_host k) (key_session k) Fresh" by (simp add: session_or_new_def)
    have "mapWith (sn_sessions s) k (session_or_new s k) max_map_entries = ?m"
      using length_warm [OF ok] len n wf by (intro mapWith_room) auto
    with None show ?thesis unfolding touch_session_def Let_def new [symmetric] by (simp add: E)
  next
    case (Some p)
    have m: "?m = sn_sessions s" using Some wf by (simp add: session_or_new_def jm_set_id)
    show ?thesis
    proof (cases "last_key (sn_lru s) = Some k \<and> (case sn_activeSessionKey s of None \<Rightarrow> False | Some a \<Rightarrow> a \<in> set (sn_lru s))")
      case True
      then obtain l where l: "sn_lru s = l @ [k]" by (auto simp: last_key_def split: if_splits) (metis append_butlast_last_id)
      then have "k \<notin> set l" using d by simp
      then have same: "?l = sn_lru s" by (simp add: l filter_id_conv) metis
      then have "warmed_lru s k config = sn_lru s" using len by (simp add: lru)
      moreover have "warmed_sessions s k config = sn_sessions s"
        unfolding warmed_sessions_def m \<open>warmed_lru s k config = sn_lru s\<close> keys
        by (rule filter_True) (auto simp: jm_keys_def)
      moreover have "active_or_last (sn_activeSessionKey s) (sn_lru s) = sn_activeSessionKey s"
        using True by (auto simp: active_or_last_def split: option.splits)
      ultimately show ?thesis using True Some len by (simp add: touch_session_def)
    next
      case False
      then show ?thesis using Some len E unfolding touch_session_def Let_def m by auto
    qed
  qed
qed

lemma warmed_lru_props:
  assumes "warm_ok config s" "caps_ok config"
  shows "distinct (warmed_lru s k config)" "length (warmed_lru s k config) \<le> maxWarmSessions config"
    "k \<in> set (warmed_lru s k config)" "set (warmed_lru s k config) \<subseteq> insert k (set (sn_lru s))"
    "last_key (warmed_lru s k config) = Some k"
proof -
  let ?l = "filter (\<lambda>j. j \<noteq> k) (sn_lru s) @ [k]"
  have n: "0 < maxWarmSessions config" using assms(2) by (simp add: caps_ok_def)
  have d: "distinct ?l" using assms(1) by (intro distinct_snoc_filter) (simp add: warm_ok_def)
  then show "distinct (warmed_lru s k config)" by (simp add: warmed_lru_def wf_intros)
  show "length (warmed_lru s k config) \<le> maxWarmSessions config"
    using n by (simp add: warmed_lru_def length_slice_last)
  have "length ?l - maxWarmSessions config < length ?l" using n by simp
  then have ne: "warmed_lru s k config \<noteq> []" and "last (warmed_lru s k config) = k"
    using n by (simp_all only: warmed_lru_def slice_last_drop last_drop drop_eq_Nil not_le) simp
  then show "k \<in> set (warmed_lru s k config)" "last_key (warmed_lru s k config) = Some k"
    by (auto simp: last_key_def dest: last_in_set)
  show "set (warmed_lru s k config) \<subseteq> insert k (set (sn_lru s))"
    using set_slice_last [of "maxWarmSessions config" ?l] by (auto simp: warmed_lru_def)
qed

lemma jm_get_filter_key: "jm_get (filter (\<lambda>p. fst p \<in> A) m) k = (if k \<in> A then jm_get m k else None)"
  by (induction m) (auto simp: jm_get_Cons)

lemma warmed_sessions_get:
  assumes "warm_ok config s" "caps_ok config"
  shows "jm_get (warmed_sessions s k config) j =
    (if j = k then Some (session_or_new s k)
     else if j \<in> set (warmed_lru s k config) then jm_get (sn_sessions s) j else None)"
  using warmed_lru_props(3) [OF assms, of k] by (simp add: warmed_sessions_def jm_get_filter_key)

lemma warmed_sessions_wf: "warm_ok config s \<Longrightarrow> jm_wf (warmed_sessions s k config)"
  by (simp add: warmed_sessions_def warm_ok_def wf_intros)

lemma keys_get: "k \<in> set (jm_keys m) \<longleftrightarrow> jm_get m k \<noteq> None"
  by (simp add: jm_get_keys)

lemma set_keys_filter: "set (jm_keys (filter (\<lambda>p. fst p \<in> A) m)) = set (jm_keys m) \<inter> A"
  by (auto simp: jm_keys_def)

lemma keys_set: "set (jm_keys (jm_set k v m)) = insert k (set (jm_keys m))"
  by (auto simp: jm_keys_set)

lemma touch_ok:
  fixes k
  assumes ok: "warm_ok config s" and caps: "caps_ok config"
  defines "s' \<equiv> or_same s (touch_session s k config)"
  shows "warm_ok config s'" "active_ok s'" "sn_activeSessionKey s' \<noteq> None" "k \<in> set (sn_lru s')"
proof -
  note lru = warmed_lru_props [OF ok caps, of k]
  have s': "sn_sessions s' = warmed_sessions s k config" "sn_lru s' = warmed_lru s k config"
    "sn_activeSessionKey s' = active_or_last (sn_activeSessionKey s) (warmed_lru s k config)"
    by (simp_all add: s'_def touch_warmed [OF ok caps])
  have "set (sn_lru s) = set (jm_keys (sn_sessions s))" using ok by (simp add: warm_ok_def)
  then have "set (jm_keys (warmed_sessions s k config)) = set (warmed_lru s k config)"
    using lru(3,4) unfolding warmed_sessions_def set_keys_filter keys_set by blast
  then show "warm_ok config s'" using lru warmed_sessions_wf [OF ok, of k] by (simp add: warm_ok_def s')
  show "k \<in> set (sn_lru s')" using lru(3) s' by simp
  show "active_ok s'" "sn_activeSessionKey s' \<noteq> None"
    using lru(3,5) by (auto simp: active_ok_def s' active_or_last_def split: option.splits)
qed

text \<open>What a session update does to the snapshot.\<close>

definition after_update ::
  "snapshot \<Rightarrow> jsstr \<Rightarrow> (session_projection \<Rightarrow> session_projection option) \<Rightarrow> caps \<Rightarrow> int option \<Rightarrow> snapshot" where
  "after_update s k update config ordinal =
     s\<lparr>sn_sessions := jm_set k (or_same (session_or_new s k) (update (session_or_new s k))) (warmed_sessions s k config),
       sn_lru := warmed_lru s k config,
       sn_activeSessionKey := active_or_last (sn_activeSessionKey s) (warmed_lru s k config),
       sn_arrivalOrdinal := (case ordinal of None \<Rightarrow> sn_arrivalOrdinal s | Some n \<Rightarrow> n)\<rparr>"

lemma withSession_eq:
  assumes ok: "warm_ok config s" and caps: "caps_ok config"
  obtains r where "withSession s k update config ordinal = Inr r" "or_same s r = after_update s k update config ordinal"
proof -
  let ?w = "or_same s (touch_session s k config)"
  have w: "?w = s\<lparr>sn_sessions := warmed_sessions s k config, sn_lru := warmed_lru s k config,
      sn_activeSessionKey := active_or_last (sn_activeSessionKey s) (warmed_lru s k config)\<rparr>"
    by (rule touch_warmed [OF ok caps])
  have get: "jm_get (sn_sessions ?w) k = Some (session_or_new s k)"
    using warmed_sessions_get [OF ok caps, of k k] by (simp add: w)
  have wf: "jm_wf (warmed_sessions s k config)" by (rule warmed_sessions_wf [OF ok])
  have id: "jm_set k (session_or_new s k) (warmed_sessions s k config) = warmed_sessions s k config"
    using get wf by (simp add: w jm_set_id)
  have ok': "warm_ok config ?w" using touch_ok(1) [OF ok caps] .
  have "length (sn_sessions ?w) \<le> max_map_entries"
    using length_warm [OF ok'] ok' caps by (simp add: warm_ok_def caps_ok_def)
  moreover have "k \<in> set (jm_keys (sn_sessions ?w))" using get by (simp add: keys_get)
  ultimately have mw: "mapWith (sn_sessions ?w) k u max_map_entries = jm_set k u (sn_sessions ?w)" for u
    using ok' by (intro mapWith_room) (auto simp: warm_ok_def)
  show ?thesis
  proof (cases "update (session_or_new s k)")
    case None
    show ?thesis
    proof (cases "ordinal = None \<or> ordinal = Some (sn_arrivalOrdinal ?w)")
      case True
      then have "withSession s k update config ordinal = Inr (touch_session s k config)"
        using None get by (auto simp: withSession_def Let_def)
      moreover have "?w = after_update s k update config ordinal"
        using True by (auto simp: w after_update_def None id)
      ultimately show ?thesis using that by blast
    next
      case False
      then obtain n where n: "ordinal = Some n" "sn_arrivalOrdinal ?w \<noteq> n" by auto
      then have "withSession s k update config ordinal = Inr (Some (?w\<lparr>sn_arrivalOrdinal := n\<rparr>))"
        using None get by (simp add: withSession_def Let_def)
      moreover have "?w\<lparr>sn_arrivalOrdinal := n\<rparr> = after_update s k update config ordinal"
        by (simp add: w after_update_def None id n)
      ultimately show ?thesis using that by (metis or_same_simps(2))
    qed
  next
    case (Some u)
    then have "withSession s k update config ordinal =
        Inr (Some (case ordinal of None \<Rightarrow> ?w\<lparr>sn_sessions := jm_set k u (sn_sessions ?w)\<rparr>
          | Some n \<Rightarrow> ?w\<lparr>sn_sessions := jm_set k u (sn_sessions ?w), sn_arrivalOrdinal := n\<rparr>))"
      using get mw by (simp add: withSession_def Let_def split: option.splits)
    moreover have "(case ordinal of None \<Rightarrow> ?w\<lparr>sn_sessions := jm_set k u (sn_sessions ?w)\<rparr>
          | Some n \<Rightarrow> ?w\<lparr>sn_sessions := jm_set k u (sn_sessions ?w), sn_arrivalOrdinal := n\<rparr>)
        = after_update s k update config ordinal"
      by (simp add: w after_update_def Some split: option.splits)
    ultimately show ?thesis using that by (metis or_same_simps(2))
  qed
qed

subsection \<open>Preservation by session updates\<close>

text \<open>What the invariant says of the rest of the snapshot.\<close>

lemma snapshot_ok_sessions:
  assumes "snapshot_ok config s" "warm_ok config s'" "active_ok s'"
    and "sessions_ok config (sn_arrivalOrdinal s') (sn_sessions s')"
    and "sn_arrivalOrdinal s \<le> sn_arrivalOrdinal s'" "sn_arrivalOrdinal s' \<le> max_safe_integer"
    and "sn_sessionIndex s' = sn_sessionIndex s" "sn_sessionIndexMetadata s' = sn_sessionIndexMetadata s"
    "sn_sessionRefArrivalOrdinals s' = sn_sessionRefArrivalOrdinals s" "sn_sessionDeltaCursors s' = sn_sessionDeltaCursors s"
    "sn_sessionInventoryCursors s' = sn_sessionInventoryCursors s" "sn_workspaces s' = sn_workspaces s"
    "sn_workspaceCursors s' = sn_workspaceCursors s"
  shows "snapshot_ok config s'"
proof -
  have "ordinals_ok s'"
    using assms(1,5,6,9) by (auto simp: snapshot_ok_def ordinals_ok_def list_all_iff)
  moreover have "index_ok config s'" using assms(1,7-13) by (simp add: snapshot_ok_def index_ok_def)
  ultimately show ?thesis using assms(2-4) by (simp add: snapshot_ok_def)
qed

lemma list_all_jm_set: "list_all P m \<Longrightarrow> P (k, v) \<Longrightarrow> list_all P (jm_set k v m)"
  by (auto simp: list_all_iff dest: jm_set_in_set)

lemma session_or_new_ok: "snapshot_ok config s \<Longrightarrow> session_ok config (sn_arrivalOrdinal s) (session_or_new s k)"
proof (cases "jm_get (sn_sessions s) k")
  case None
  assume "snapshot_ok config s"
  then have "0 \<le> sn_arrivalOrdinal s" by (simp add: snapshot_ok_def ordinals_ok_def)
  with None show ?thesis by (simp add: session_or_new_def initialSession_ok)
next
  case (Some p)
  assume "snapshot_ok config s"
  then have "list_all (\<lambda>(k, p). session_ok config (sn_arrivalOrdinal s) p) (sn_sessions s)"
    by (simp add: snapshot_ok_def sessions_ok_def)
  with Some jm_list_all_get [OF this Some] show ?thesis by (simp add: session_or_new_def)
qed

lemma after_update_ok:
  assumes ok: "snapshot_ok config s" and caps: "caps_ok config"
    and ordinal: "case ordinal of None \<Rightarrow> True | Some n \<Rightarrow> sn_arrivalOrdinal s \<le> n \<and> n \<le> max_safe_integer"
    and upd: "\<And>u. session_ok config (sn_arrivalOrdinal s) (session_or_new s k) \<Longrightarrow> update (session_or_new s k) = Some u \<Longrightarrow>
      session_ok config (case ordinal of None \<Rightarrow> sn_arrivalOrdinal s | Some n \<Rightarrow> n) u"
  shows "snapshot_ok config (after_update s k update config ordinal)"
proof -
  let ?s = "after_update s k update config ordinal"
  let ?now = "case ordinal of None \<Rightarrow> sn_arrivalOrdinal s | Some n \<Rightarrow> n"
  let ?p = "session_or_new s k"
  have now: "sn_arrivalOrdinal s \<le> ?now" "?now \<le> max_safe_integer"
    using ordinal ok by (auto simp: snapshot_ok_def ordinals_ok_def split: option.splits)
  have warm: "warm_ok config s" using ok by (simp add: snapshot_ok_def)
  have p: "session_ok config (sn_arrivalOrdinal s) ?p" by (rule session_or_new_ok [OF ok])
  have new: "session_ok config ?now (or_same ?p (update ?p))"
    using upd [OF p] session_ok_mono [OF p now(1)] by (cases "update ?p") simp_all
  have "list_all (\<lambda>(k, p). session_ok config (sn_arrivalOrdinal s) p) (warmed_sessions s k config)"
  proof -
    have "list_all (\<lambda>(k, p). session_ok config (sn_arrivalOrdinal s) p) (jm_set k ?p (sn_sessions s))"
      using ok p by (intro list_all_jm_set) (auto simp: snapshot_ok_def sessions_ok_def)
    then show ?thesis by (auto simp: warmed_sessions_def list_all_iff)
  qed
  then have "list_all (\<lambda>(k, p). session_ok config ?now p) (warmed_sessions s k config)"
    using session_ok_mono [OF _ now(1)] by (auto simp: list_all_iff)
  with new have sessions: "sessions_ok config ?now (sn_sessions ?s)"
    by (simp add: after_update_def sessions_ok_def list_all_jm_set)
  note t = touch_ok [OF warm caps, of k, unfolded touch_warmed [OF warm caps]]
  have "warm_ok config ?s" "active_ok ?s"
    using t(1,2) warmed_lru_props(3) [OF warm caps, of k]
    by (auto simp: warm_ok_def active_ok_def after_update_def keys_set wf_intros split: option.splits)
  then show ?thesis
    using sessions now by (intro snapshot_ok_sessions [OF ok]) (simp_all add: after_update_def)
qed

lemma withSession_ok:
  assumes ok: "snapshot_ok config s" and caps: "caps_ok config"
    and ordinal: "case ordinal of None \<Rightarrow> True | Some n \<Rightarrow> sn_arrivalOrdinal s \<le> n \<and> n \<le> max_safe_integer"
    and upd: "\<And>p u. session_ok config (sn_arrivalOrdinal s) p \<Longrightarrow> update p = Some u \<Longrightarrow>
      session_ok config (case ordinal of None \<Rightarrow> sn_arrivalOrdinal s | Some n \<Rightarrow> n) u"
  shows "\<exists>r. withSession s k update config ordinal = Inr r \<and> snapshot_ok config (or_same s r)"
proof -
  have "warm_ok config s" using ok by (simp add: snapshot_ok_def)
  then obtain r where "withSession s k update config ordinal = Inr r" "or_same s r = after_update s k update config ordinal"
    using withSession_eq [OF _ caps] by metis
  then show ?thesis using after_update_ok [OF ok caps ordinal] upd by metis
qed

subsection \<open>Preservation of a session's collections\<close>

lemma retained_shape_val_wf: "retained_shape left v \<Longrightarrow> val_wf v"
proof (induction left arbitrary: v)
  case 0
  then show ?case by (cases v) simp_all
next
  case (Suc left)
  then show ?case by (cases v) (auto simp: list_all_iff split: prod.splits)
qed

lemma retained_list_wf: "retained_list options es \<Longrightarrow> list_all entry_wf es"
  by (auto simp: retained_list_def list_all_iff retained_entry_def entry_wf_def intro: retained_shape_val_wf)

lemma event_bytes_eq: "event_bytes e = int (item_bytes (event_val e))"
  by (simp add: event_bytes_def retainedArrayItemBytes_eq)

lemma events_arr_bytes: "int (json_bytes (JArr (map event_val es))) = arr_bytes event_bytes es"
  by (simp add: json_bytes_JArr arr_bytes_def event_bytes_eq [abs_def] comp_def sum_list_sum_nth)

lemma arr_bytes_filter: "(\<And>v. 0 \<le> item v) \<Longrightarrow> arr_bytes item (filter P vs) \<le> arr_bytes item vs"
proof (induction vs)
  case (Cons v vs)
  then have "arr_bytes item (filter P vs) \<le> arr_bytes item vs" "0 \<le> item v" by simp_all
  moreover have "0 \<le> sum_list (map item (filter P vs))" using Cons.prems by (intro sum_list_nonneg) auto
  then have "2 \<le> arr_bytes item (filter P vs)" by (simp add: arr_bytes_def)
  ultimately show ?case by (cases "filter P vs = []"; cases "vs = []") (simp_all add: arr_bytes_simps)
qed simp

lemma events_ok_filter: "events_ok config es \<Longrightarrow> events_ok config (filter P es)"
proof -
  assume ok: "events_ok config es"
  have "arr_bytes event_bytes (filter P es) \<le> arr_bytes event_bytes es"
    by (rule arr_bytes_filter) (simp add: event_bytes_eq)
  moreover have "int (length (filter P es)) \<le> int (length es)" by simp
  ultimately show ?thesis using ok unfolding events_ok_def events_arr_bytes by (meson order_trans)
qed

lemma events_ok_Nil: "events_ok config []"
  by (simp add: events_ok_def json_bytes_Nil boundedInteger_def retention_limits)

lemma events_ok_append:
  "events_ok config (fst (appendRetainedValue event_bytes es (retainedJsonBytes (JArr (map event_val es))) e
     (int (maxEvents config)) (int (maxEventsBytes config))))"
proof -
  have bytes: "retainedJsonBytes (JArr (map event_val es)) = arr_bytes event_bytes es"
    by (simp add: retainedJsonBytes_eq events_arr_bytes)
  obtain k where k: "appendRetainedValue event_bytes es (retainedJsonBytes (JArr (map event_val es))) e
      (int (maxEvents config)) (int (maxEventsBytes config)) = (drop k (es @ [e]), arr_bytes event_bytes (drop k (es @ [e])))"
    "int (length es + 1 - k) \<le> boundedInteger (Some (int (maxEvents config))) max_retained_session_events max_retained_session_events"
    "arr_bytes event_bytes (drop k (es @ [e])) \<le>
      max 2 (boundedInteger (Some (int (maxEventsBytes config))) max_retained_session_events_bytes max_retained_session_events_bytes)"
    using appendRetainedValue_ok [OF bytes] by metis
  have "length (drop k (es @ [e])) = length es + 1 - k" by simp
  with k show ?thesis unfolding events_ok_def events_arr_bytes k(1) by simp
qed

lemma list_all_mapWith: "jm_wf m \<Longrightarrow> list_all P m \<Longrightarrow> P (k, v) \<Longrightarrow> list_all P (mapWith m k v n)"
  unfolding list_all_iff using mapWith_set_sub by (metis prod.collapse)

lemma agentTranscriptProjection_ok:
  assumes "agentTranscriptProjection previous frame (maxAgentTranscriptEntries config) (maxAgentTranscriptBytes config)
      (maxEntryBytes config) = Some t"
    and "case previous of None \<Rightarrow> True | Some p \<Rightarrow> transcript_ok config p"
    and "list_all entry_wf (af_entries frame)"
  shows "transcript_ok config t"
proof -
  let ?opts = "retain_caps (maxAgentTranscriptEntries config) (maxAgentTranscriptBytes config) (maxEntryBytes config)"
  from assms(1) obtain source where t: "at_entries t = re_entries (retainDurableEntries source ?opts)"
      "at_entryIds t = map e_id (at_entries t)"
      "source = af_entries frame \<or> (\<exists>p. previous = Some p \<and> source = at_entries p @ af_entries frame)"
    unfolding agentTranscriptProjection_def boundedUniqueEntries_def Let_def
    by (auto split: if_splits option.splits)
  have "list_all entry_wf source"
    using t(3) assms(2,3) by (auto simp: transcript_ok_def dest: retained_list_wf)
  then show ?thesis using retainDurableEntries_ok(1) t by (simp add: transcript_ok_def)
qed

lemmas collections_simps = collections_ok_def session_ok_def

lemma mark_stale_ok: "mark_stale k config p = Some u \<Longrightarrow> session_ok config now p \<Longrightarrow> session_ok config now u"
  by (auto simp: mark_stale_def collections_simps split: option.splits if_splits)

lemma preview_ok:
  "caps_ok config \<Longrightarrow> session_ok config now p \<Longrightarrow>
   session_ok config now (p\<lparr>sp_previews := mapWith (sp_previews p) k v (maxPreviews config),
     sp_previewEvents := (case activity of None \<Rightarrow> sp_previewEvents p
        | Some a \<Rightarrow> appendPreviewActivity (sp_previewEvents p) a (maxPreviewEvents config))\<rparr>)"
  by (auto simp: collections_simps appendPreviewActivity_def caps_ok_def appendBounded_cap
      split: option.splits)

lemma terminals_ok:
  assumes "caps_ok config" "session_ok config now p"
  shows "session_ok config now (p\<lparr>sp_terminals := retainTerminalProjection (sp_terminals p) k t config st\<rparr>)"
proof -
  have pos: "0 < maxTerminals config" using assms(1) by (simp add: caps_ok_def)
  have wf: "jm_wf (sp_terminals p)" using assms(2) by (simp add: collections_simps capped_def)
  let ?m = "terminals_touched (sp_terminals p) k t config st"
  have mwf: "jm_wf ?m" by (rule terminals_touched_wf [OF wf])
  have eq: "retainTerminalProjection (sp_terminals p) k t config st = drop_victims k (terminals_given_up ?m k config) ?m"
    by (rule retainTerminalProjection_eq [OF wf pos])
  note props = given_up_props(2,3) [OF mwf pos terminal_entry_bytes] jm_wf_drop_victims [OF mwf]
  show ?thesis using assms(2) props unfolding eq by (simp add: collections_simps capped_def)
qed

lemma files_ok:
  assumes "caps_ok config" "session_ok config now p"
  shows "session_ok config now (p\<lparr>sp_files := retainFileProjection (sp_files p) k f config\<rparr>)"
proof -
  have pos: "0 < maxFiles config" using assms(1) by (simp add: caps_ok_def)
  have wf: "jm_wf (sp_files p)" using assms(2) by (simp add: collections_simps capped_def)
  show ?thesis using assms(2) retainFileProjection_props(1-3) [OF wf pos, of k f] by (simp add: collections_simps capped_def)
qed

lemma response_ok:
  "session_ok config now p \<Longrightarrow>
   session_ok config now (p\<lparr>sp_confirmations := confirmationsAfterResponse (sp_confirmations p) frame,
     sp_results := mapWith (sp_results p) k v max_map_entries\<rparr>)"
  by (simp add: collections_simps confirmationsAfterResponse_def Let_def capped_filter)

lemma freshness_ok [simp]:
  "session_ok config now (p\<lparr>sp_freshness := f\<rparr>) = session_ok config now p"
  "session_ok config now (p\<lparr>sp_freshness := f, sp_gap := g\<rparr>) = session_ok config now p"
  by (simp_all add: collections_simps)

lemma install_snapshot_ok:
  assumes "session_ok config now p" "list_all entry_wf (sf_entries frame)" "0 \<le> now"
  shows "session_ok config now (install_snapshot frame (retainDurableEntries (sf_entries frame) (transcript_caps config)) p)"
  using assms retainDurableEntries_ok(1) [OF assms(2), of "transcript_caps config"]
  by (auto simp: install_snapshot_def Let_def session_ok_def collections_ok_def events_ok_filter events_ok_Nil)

lemma accept_entry_ok:
  assumes "session_ok config now p" "entry_wf (ef_entry frame)"
  shows "session_ok config now (accept_entry frame config p)"
proof -
  have "retained_list (transcript_caps config) (sp_entries p)" using assms(1) by (simp add: collections_simps)
  from appendRetainedDurableEntry_ok(1) [OF this assms(2)] assms(1) show ?thesis
    by (simp add: accept_entry_def Let_def session_ok_def collections_ok_def events_ok_filter)
qed

lemma accept_event_ok:
  "session_ok config now p \<Longrightarrow> now \<le> n \<Longrightarrow> session_ok config n (accept_event frame n config p)"
  by (auto simp: accept_event_def Let_def session_ok_def collections_ok_def events_ok_append
      simp del: retainedJsonBytes_simps split: option.splits)

text \<open>Frames whose JSON values have no repeated members, as a JSON parser returns them.\<close>

definition frame_ok :: "projection_frame \<Rightarrow> bool" where
  "frame_ok frame \<longleftrightarrow>
     (case frame of
        FSnapshot f \<Rightarrow> list_all entry_wf (sf_entries f)
      | FEntry f \<Rightarrow> entry_wf (ef_entry f)
      | FAgentTranscript f \<Rightarrow> list_all entry_wf (af_entries f)
      | _ \<Rightarrow> True)"

definition keeps_ok :: "caps \<Rightarrow> snapshot \<Rightarrow> reduced \<Rightarrow> bool" where
  "keeps_ok config s r \<longleftrightarrow> (\<exists>x. r = Inr x \<and> snapshot_ok config (or_same s x))"

lemma keeps_ok_same [simp]: "keeps_ok config s (Inr None) = snapshot_ok config s"
  by (simp add: keeps_ok_def)

lemma keeps_ok_Some [simp]: "keeps_ok config s (Inr (Some s')) = snapshot_ok config s'"
  by (simp add: keeps_ok_def)

lemma keeps_ok_withSession:
  assumes "snapshot_ok config s" "caps_ok config"
    and "\<And>p u. session_ok config (sn_arrivalOrdinal s) p \<Longrightarrow> update p = Some u \<Longrightarrow> session_ok config (sn_arrivalOrdinal s) u"
  shows "keeps_ok config s (withSession s k update config None)"
  using withSession_ok [OF assms(1,2), of None update k] assms(3) by (simp add: keeps_ok_def)

lemma resources_keep_ok:
  assumes "snapshot_ok config s" "caps_ok config" "reduceResourceProjection pu s frame config = Some r"
  shows "keeps_ok config s r"
proof -
  note ws = keeps_ok_withSession [OF assms(1,2)]
  show ?thesis
  proof (cases frame)
    case (FPreview f)
    with assms show ?thesis
      by (auto simp: reduceResourceProjection_def reducePreview_def Let_def intro!: ws preview_ok dest: mark_stale_ok)
  next
    case (FTerminal f)
    with assms show ?thesis
      by (auto simp: reduceResourceProjection_def reduceTerminal_def Let_def intro!: ws terminals_ok)
  next
    case (FFiles f)
    with assms show ?thesis
      by (auto simp: reduceResourceProjection_def reduceFiles_def intro!: ws files_ok)
  next
    case (FReview f)
    with assms show ?thesis
      by (auto simp: reduceResourceProjection_def reduceReview_def collections_simps intro!: ws)
  next
    case (FAudit f)
    with assms show ?thesis
      by (auto simp: reduceResourceProjection_def reduceAudit_def collections_simps caps_ok_def appendBounded_cap
          split: option.splits intro!: ws)
  next
    case (FConfirmation f)
    with assms show ?thesis
      by (auto simp: reduceResourceProjection_def reduceConfirmation_def collections_simps capped_mapWith capped_wf
          split: option.splits intro!: ws)
  next
    case (FResponse f)
    with assms show ?thesis
      by (auto simp: reduceResourceProjection_def reduceResponse_def Let_def response_ok split: option.splits intro!: ws)
  qed (use assms in \<open>auto simp: reduceResourceProjection_def\<close>)
qed

end
