(* ===== verification/ProjectionPreservation.thy ===== *)
theory ProjectionPreservation
  imports ProjectionInvariant
begin

text \<open>
  Every frame preserves the invariant of the client projection, and the properties of the
  projection that rest on it.
\<close>

subsection \<open>Preservation by the transcript frames\<close>

lemma nextArrivalOrdinal_range:
  "snapshot_ok config s \<Longrightarrow> sn_arrivalOrdinal s \<le> nextArrivalOrdinal s \<and> nextArrivalOrdinal s \<le> max_safe_integer"
  by (auto simp: snapshot_ok_def ordinals_ok_def nextArrivalOrdinal_def)

lemma snapshot_ok_nonneg: "snapshot_ok config s \<Longrightarrow> 0 \<le> sn_arrivalOrdinal s"
  by (simp add: snapshot_ok_def ordinals_ok_def)

lemma updateRoot_ok: "snapshot_ok config (updateRoot s c e f) = snapshot_ok config s"
  by (simp add: snapshot_ok_def warm_ok_def active_ok_def index_ok_def ordinals_ok_def updateRoot_def)

lemma transcript_frames_keep_ok:
  assumes ok: "snapshot_ok config s" and caps: "caps_ok config"
  shows "entry_wf (ef_entry ef) \<Longrightarrow> keeps_ok config s (reduceEntry s ef config)"
    and "keeps_ok config s (reduceEvent s vf config)"
    and "keeps_ok config s (reduceGap s gf config)"
    and "keeps_ok config s (reduceAgent s ag config)"
    and "list_all entry_wf (af_entries af) \<Longrightarrow> keeps_ok config s (reduceAgentTranscript s af config)"
proof -
  note ws = keeps_ok_withSession [OF ok caps]
  show "keeps_ok config s (reduceEntry s ef config)" if "entry_wf (ef_entry ef)"
    using ok that by (auto simp: reduceEntry_def Let_def split: cursor_order.splits intro!: ws accept_entry_ok)
  have "keeps_ok config s (withSession s k (\<lambda>p. Some (accept_event vf (nextArrivalOrdinal s) config p)) config
      (Some (nextArrivalOrdinal s)))" for k
    unfolding keeps_ok_def using nextArrivalOrdinal_range [OF ok]
    by (intro withSession_ok [OF ok caps]) (auto intro: accept_event_ok)
  then show "keeps_ok config s (reduceEvent s vf config)"
    using ok by (auto simp: reduceEvent_def Let_def split: cursor_order.splits intro!: ws)
  show "keeps_ok config s (reduceGap s gf config)" by (auto simp: reduceGap_def intro!: ws)
  show "keeps_ok config s (reduceAgent s ag config)"
    by (auto simp: reduceAgent_def collections_simps intro!: ws)
  show "keeps_ok config s (reduceAgentTranscript s af config)" if wf: "list_all entry_wf (af_entries af)"
    unfolding reduceAgentTranscript_def
  proof (rule ws)
    fix p u
    assume p: "session_ok config (sn_arrivalOrdinal s) p"
      and u: "map_option (\<lambda>t. p\<lparr>sp_agentTranscripts := mapWith (sp_agentTranscripts p) (af_agentId af) t (maxAgentTranscripts config)\<rparr>)
        (agentTranscriptProjection (jm_get (sp_agentTranscripts p) (af_agentId af)) af (maxAgentTranscriptEntries config)
           (maxAgentTranscriptBytes config) (maxEntryBytes config)) = Some u"
    then obtain t where t: "agentTranscriptProjection (jm_get (sp_agentTranscripts p) (af_agentId af)) af
        (maxAgentTranscriptEntries config) (maxAgentTranscriptBytes config) (maxEntryBytes config) = Some t"
      and u': "u = p\<lparr>sp_agentTranscripts := mapWith (sp_agentTranscripts p) (af_agentId af) t (maxAgentTranscripts config)\<rparr>" by auto
    have all: "list_all (\<lambda>(k, t). transcript_ok config t) (sp_agentTranscripts p)"
      and wf': "capped (maxAgentTranscripts config) (sp_agentTranscripts p)" using p by (simp_all add: collections_simps)
    have "transcript_ok config t"
      using agentTranscriptProjection_ok [OF t _ wf] jm_list_all_get [OF all] by (auto split: option.splits)
    then have "list_all (\<lambda>(k, t). transcript_ok config t)
        (mapWith (sp_agentTranscripts p) (af_agentId af) t (maxAgentTranscripts config))"
      using all capped_wf [OF wf'] by (intro list_all_mapWith) auto
    then show "session_ok config (sn_arrivalOrdinal s) u" using p wf' by (simp add: u' collections_simps)
  qed
qed

lemma snapshot_frame_keeps_ok:
  assumes ok: "snapshot_ok config s" and caps: "caps_ok config" and wf: "list_all entry_wf (sf_entries f)"
  shows "keeps_ok config s (reduceSnapshot s f config)"
proof -
  let ?k = "key (sf_hostId f) (sf_sessionId f)"
  let ?u = "\<lambda>session. Some (install_snapshot f (retainDurableEntries (sf_entries f) (transcript_caps config)) session)"
  have warm: "warm_ok config s" using ok by (simp add: snapshot_ok_def)
  obtain r where r: "withSession s ?k ?u config None = Inr r" "or_same s r = after_update s ?k ?u config None"
    using withSession_eq [OF warm caps] by metis
  have ok': "snapshot_ok config (after_update s ?k ?u config None)"
    using install_snapshot_ok [OF _ wf snapshot_ok_nonneg [OF ok]] by (intro after_update_ok [OF ok caps]) auto
  have "sn_activeSessionKey (after_update s ?k ?u config None) \<noteq> None"
    using touch_ok(3) [OF warm caps, of ?k] by (simp add: touch_warmed [OF warm caps] after_update_def)
  then have "snapshot_ok config ((updateRoot (after_update s ?k ?u config None) c e fr)\<lparr>sn_activeSessionKey :=
      (case sn_activeSessionKey (after_update s ?k ?u config None) of None \<Rightarrow> Some ?k | Some a \<Rightarrow> Some a)\<rparr>)" for c e fr
    using ok' by (auto simp: snapshot_ok_def warm_ok_def active_ok_def index_ok_def ordinals_ok_def updateRoot_def)
  with ok r show ?thesis by (simp add: reduceSnapshot_def Let_def)
qed

subsection \<open>Preservation by the inventories\<close>

lemma workspaces_ok:
  "snapshot_ok config s \<Longrightarrow> capped (maxWorkspaces config) w \<Longrightarrow> capped (maxWorkspaces config) c \<Longrightarrow>
   snapshot_ok config (s\<lparr>sn_workspaces := w, sn_workspaceCursors := c\<rparr>)"
  by (auto simp: snapshot_ok_def warm_ok_def active_ok_def index_ok_def ordinals_ok_def)

lemma workspaces_only_ok:
  "snapshot_ok config s \<Longrightarrow> capped (maxWorkspaces config) w \<Longrightarrow> snapshot_ok config (s\<lparr>sn_workspaces := w\<rparr>)"
  by (auto simp: snapshot_ok_def warm_ok_def active_ok_def index_ok_def ordinals_ok_def)

lemma workspace_state_keeps_ok:
  assumes ok: "snapshot_ok config s" and r: "reduceWorkspaceState s f config = r"
  shows "(\<exists>e. r = Inl (BadWorkspace e)) \<or> keeps_ok config s r"
proof -
  have w: "capped (maxWorkspaces config) (sn_workspaces s)" "capped (maxWorkspaces config) (sn_workspaceCursors s)"
    using ok by (simp_all add: snapshot_ok_def index_ok_def)
  show ?thesis using ok w unfolding r [symmetric] reduceWorkspaceState_def Let_def
    by (auto split: option.splits sum.splits intro!: workspaces_ok wf_intros)
qed

lemma put_workspaces_ok: "capped n m \<Longrightarrow> put_workspaces host n rows m = Inr m' \<Longrightarrow> capped n m'"
proof (induction rows arbitrary: m)
  case (Cons row rows)
  then show ?case using Cons.IH [OF capped_with [OF Cons.prems(1)]] by (simp split: sum.splits)
qed simp

lemma workspace_inventory_keeps_ok:
  assumes ok: "snapshot_ok config s" and r: "applyWorkspaceInventory s host rows c (maxWorkspaces config) = r"
  shows "(\<exists>e. r = Inl e) \<or> keeps_ok config s r"
proof -
  have w: "capped (maxWorkspaces config) (sn_workspaces s)" "capped (maxWorkspaces config) (sn_workspaceCursors s)"
    using ok by (simp_all add: snapshot_ok_def index_ok_def)
  then have f: "capped (maxWorkspaces config) (fold jm_delete ks (sn_workspaces s))" for ks
    by (simp add: fold_jm_delete wf_intros)
  show ?thesis using ok w put_workspaces_ok [OF f] unfolding r [symmetric] applyWorkspaceInventory_def Let_def
    by (auto split: option.splits sum.splits intro!: workspaces_ok workspaces_only_ok)
qed

lemma sessions_ok_mono: "sessions_ok config now m \<Longrightarrow> now \<le> now' \<Longrightarrow> sessions_ok config now' m"
  by (auto simp: sessions_ok_def list_all_iff intro: session_ok_mono)

lemma ref_update_ok [simp]: "session_ok config now (p\<lparr>sp_ref := r, sp_revision := v\<rparr>) = session_ok config now p"
  by (simp add: collections_simps)

lemma list_all_le_mono: "list_all (\<lambda>(k, n). n \<le> a) m \<Longrightarrow> a \<le> b \<Longrightarrow> list_all (\<lambda>(k, n :: int). n \<le> b) m"
  by (auto simp: list_all_iff)

lemma warm_update_ok:
  assumes "warm_ok config s" "jm_get (sn_sessions s) k = Some p" "sn_lru s' = sn_lru s"
    and "sn_sessions s' = mapWith (sn_sessions s) k u (maxWarmSessions config)"
  shows "warm_ok config s'" "sn_sessions s' = jm_set k u (sn_sessions s)"
proof -
  have k: "k \<in> set (jm_keys (sn_sessions s))" using assms(2) by (simp add: keys_get)
  have "length (sn_sessions s) \<le> maxWarmSessions config"
    using assms(1) length_warm [OF assms(1)] by (simp add: warm_ok_def)
  then show eq: "sn_sessions s' = jm_set k u (sn_sessions s)"
    using assms(1,4) k by (simp add: mapWith_room warm_ok_def)
  show "warm_ok config s'"
    using assms(1,3) k unfolding warm_ok_def eq by (auto simp: keys_set wf_intros)
qed

lemma delta_upsert_ok:
  fixes s h k u c
  assumes ok: "snapshot_ok config s"
  defines "n \<equiv> nextArrivalOrdinal s"
  defines "s' \<equiv> (delta_upsert s h k u n config)\<lparr>
      sn_sessionDeltaCursors := mapWith (sn_sessionDeltaCursors s) k c (maxIndexedSessions config), sn_arrivalOrdinal := n\<rparr>"
  shows "snapshot_ok config s'"
proof -
  have warm: "warm_ok config s" and act: "active_ok s" and idx: "index_ok config s" and ord: "ordinals_ok s"
    and ses: "sessions_ok config (sn_arrivalOrdinal s) (sn_sessions s)" using ok by (simp_all add: snapshot_ok_def)
  have n: "sn_arrivalOrdinal s \<le> n" "n \<le> max_safe_integer" using nextArrivalOrdinal_range [OF ok] by (simp_all add: n_def)
  have cap: "capped (maxIndexedSessions config) (sn_sessionIndex s)" using idx by (simp add: index_ok_def)
  have ses_n: "sessions_ok config n (sn_sessions s)" by (rule sessions_ok_mono [OF ses n(1)])
  have lru: "sn_lru s' = sn_lru s" "sn_activeSessionKey s' = sn_activeSessionKey s" "sn_arrivalOrdinal s' = n"
    by (simp_all add: s'_def delta_upsert_def Let_def)
  have "warm_ok config s' \<and> sessions_ok config n (sn_sessions s')"
  proof (cases "jm_get (sn_sessions s) k")
    case None
    then have "sn_sessions s' = sn_sessions s" by (simp add: s'_def delta_upsert_def Let_def)
    then show ?thesis using warm lru ses_n by (simp add: warm_ok_def)
  next
    case (Some p)
    let ?u = "p\<lparr>sp_ref := Some u, sp_revision := Some (ref_str u ''revision'')\<rparr>"
    have eq: "sn_sessions s' = mapWith (sn_sessions s) k ?u (maxWarmSessions config)"
      using Some by (simp add: s'_def delta_upsert_def Let_def)
    have "session_ok config n p" using jm_list_all_get [OF ses_n [unfolded sessions_ok_def] Some] by simp
    then show ?thesis using warm_update_ok [OF warm Some lru(1) eq] ses_n
      by (simp add: sessions_ok_def list_all_jm_set)
  qed
  moreover have "ordinals_ok s'"
  proof -
    have "list_all (\<lambda>(k, m). m \<le> n) (sn_sessionRefArrivalOrdinals s)"
      using ord n(1) by (metis list_all_le_mono ordinals_ok_def)
    moreover have "jm_wf (sn_sessionRefArrivalOrdinals s)" using idx by (simp add: index_ok_def capped_def)
    ultimately show ?thesis using n ord
      by (simp add: ordinals_ok_def s'_def delta_upsert_def Let_def list_all_mapWith)
  qed
  moreover have "index_ok config s'"
  proof -
    let ?can = "jm_get (sn_sessionIndex s) k \<noteq> None \<or> length (sn_sessionIndex s) < maxIndexedSessions config"
    have room: "mapWith (sn_sessionIndex s) k u (maxIndexedSessions config) = jm_set k u (sn_sessionIndex s)" if ?can
      using that cap by (intro mapWith_room) (auto simp: capped_def keys_get)
    have keys: "set (jm_keys (sn_sessionIndex s')) \<supseteq> set (jm_keys (sn_sessionIndex s)) \<and>
        (?can \<longrightarrow> k \<in> set (jm_keys (sn_sessionIndex s')))"
      using room by (auto simp: s'_def delta_upsert_def Let_def keys_set keys_get split: option.splits)
    have "set (jm_keys (sn_sessionRefArrivalOrdinals s')) \<subseteq>
        (if ?can then insert k (set (jm_keys (sn_sessionRefArrivalOrdinals s))) else set (jm_keys (sn_sessionRefArrivalOrdinals s)))"
      using mapWith_keys_sub [of "sn_sessionRefArrivalOrdinals s" k n] idx
      by (simp add: s'_def delta_upsert_def Let_def index_ok_def capped_def)
    with keys idx have "set (jm_keys (sn_sessionRefArrivalOrdinals s')) \<subseteq> set (jm_keys (sn_sessionIndex s'))"
      by (auto simp: index_ok_def split: if_splits)
    then show ?thesis using idx
      by (auto simp: index_ok_def s'_def delta_upsert_def Let_def split: option.splits)
  qed
  moreover have "active_ok s'" using act lru by (simp add: active_ok_def)
  ultimately show ?thesis by (simp add: snapshot_ok_def lru)
qed

lemma last_key_in: "last_key xs = None \<or> the (last_key xs) \<in> set xs"
  by (simp add: last_key_def)

lemma delta_remove_ok:
  fixes s h k j c
  assumes ok: "snapshot_ok config s"
  defines "n \<equiv> nextArrivalOrdinal s"
  defines "s' \<equiv> (delta_remove s h k config)\<lparr>
      sn_sessionDeltaCursors := mapWith (sn_sessionDeltaCursors s) j c (maxIndexedSessions config), sn_arrivalOrdinal := n\<rparr>"
  shows "snapshot_ok config s'"
proof -
  have warm: "warm_ok config s" and act: "active_ok s" and idx: "index_ok config s" and ord: "ordinals_ok s"
    and ses: "sessions_ok config (sn_arrivalOrdinal s) (sn_sessions s)" using ok by (simp_all add: snapshot_ok_def)
  have n: "sn_arrivalOrdinal s \<le> n" "n \<le> max_safe_integer" using nextArrivalOrdinal_range [OF ok] by (simp_all add: n_def)
  have "warm_ok config s'"
    using warm by (auto simp: warm_ok_def s'_def delta_remove_def Let_def mapWithout_def wf_intros jm_keys_delete
        intro: order_trans [OF length_filter_le])
  moreover have "active_ok s'"
    using act last_key_in [of "filter (\<lambda>item. item \<noteq> k) (sn_lru s)"]
    by (auto simp: active_ok_def s'_def delta_remove_def Let_def)
  moreover have "ordinals_ok s'"
    using ord n list_all_le_mono [of "sn_arrivalOrdinal s" "sn_sessionRefArrivalOrdinals s" n]
    by (auto simp: ordinals_ok_def s'_def delta_remove_def Let_def mapWithout_def jm_delete_filter list_all_iff)
  moreover have "sessions_ok config n (sn_sessions s')"
    using sessions_ok_mono [OF ses n(1)]
    by (auto simp: sessions_ok_def s'_def delta_remove_def Let_def mapWithout_def jm_delete_filter list_all_iff)
  moreover have "index_ok config s'"
    using idx by (auto simp: index_ok_def s'_def delta_remove_def Let_def capped_delete mapWithout_def [of _ k] jm_keys_delete
        capped_delete [unfolded mapWithout_def] split: option.splits)
  ultimately show ?thesis by (simp add: snapshot_ok_def s'_def)
qed

lemma session_delta_keeps_ok:
  assumes ok: "snapshot_ok config s"
  shows "keeps_ok config s (reduceSessionDelta s f config)"
  using ok delta_upsert_ok [OF ok] delta_remove_ok [OF ok]
  unfolding reduceSessionDelta_def Let_def by (auto split: option.splits)


subsection \<open>Preservation by an inventory of sessions\<close>

lemma length_map_filter: "length (List.map_filter f xs) \<le> length xs"
  by (induction xs) (auto simp: List.map_filter_simps split: option.splits)

lemma length_inventory_refs: "length (inventory_refs frame config) \<le> maxIndexedSessions config"
  using length_map_filter [of sanitizeSessionRef "take (maxIndexedSessions config) (ss_sessions frame)"]
  by (simp add: inventory_refs_def)

lemma length_of_entries: "length (jm_of_entries es) \<le> length es"
proof -
  have "length (fold (\<lambda>(k, v). jm_set k v) es m) \<le> length m + length es" for m :: "('a, 'b) jsmap"
  proof (induction es arbitrary: m)
    case (Cons e es)
    have "length (jm_set (fst e) (snd e) m) \<le> Suc (length m)"
      using jm.size_put [of "fst e" "snd e" m] by simp
    with Cons.IH [of "jm_set (fst e) (snd e) m"] show ?case by (simp add: case_prod_unfold)
  qed simp
  from this [of "[]"] show ?thesis by (simp add: jm_of_entries_def)
qed

lemma keys_of_entries: "set (jm_keys (jm_of_entries es)) = fst ` set es"
proof -
  have "k \<in> set (jm_keys (jm_of_entries es)) \<longleftrightarrow> k \<in> fst ` set es" for k
    using map_of_eq_None_iff [of "rev es" k] by (simp add: keys_get jm_get_of_entries)
  then show ?thesis by blast
qed

lemma retained_rows_props:
  "length (retained_rows lc m ks n) \<le> n"
  "set (retained_rows lc m ks n) \<subseteq> {p \<in> set m. fst p \<notin> set ks}"
  "jm_wf m \<Longrightarrow> jm_wf (retained_rows lc m ks n)"
proof -
  let ?l = "sort_by (compare_rows lc) (filter (\<lambda>(k, ref). k \<notin> set ks) m)"
  show "length (retained_rows lc m ks n) \<le> n" by (simp add: retained_rows_def length_slice_last)
  show "set (retained_rows lc m ks n) \<subseteq> {p \<in> set m. fst p \<notin> set ks}"
    using set_slice_last [of n ?l] by (auto simp: retained_rows_def)
  assume "jm_wf m"
  then have "distinct (map fst ?l)" by (simp add: jm_wf_def distinct_map_sort_by distinct_map_filter)
  then show "jm_wf (retained_rows lc m ks n)"
    by (simp add: retained_rows_def jm_wf_def map_slice_last distinct_slice_last)
qed

text \<open>The index an inventory leaves: the rows it returned and the retained ones.\<close>

lemma inventory_index_capped:
  assumes "length refs \<le> n" "rows = retained_rows lc m (map ref_key refs) (n - length refs)"
  shows "capped n (jm_of_entries (rows @ map (\<lambda>ref. (ref_key ref, ref)) refs))"
  using length_of_entries [of "rows @ map (\<lambda>ref. (ref_key ref, ref)) refs"] assms
    retained_rows_props(1) [of lc m "map ref_key refs" "n - length refs"]
  by (simp add: capped_def)

lemma prune_gone_props:
  fixes s hosts ks
  assumes "warm_ok config s" "active_ok s" "sessions_ok config now (sn_sessions s)"
    and "capped n (sn_sessionIndex s)" "capped n (sn_sessionDeltaCursors s)"
  defines "s' \<equiv> prune_gone s hosts ks"
  shows "jm_wf (sn_sessions s') \<and> set (jm_keys (sn_sessions s')) \<subseteq> set (jm_keys (sn_sessions s)) \<and>
    sessions_ok config now (sn_sessions s') \<and>
    (sn_activeSessionKey s' = None \<or>
       sn_activeSessionKey s' = sn_activeSessionKey s \<and> the (sn_activeSessionKey s) \<in> set (jm_keys (sn_sessions s'))) \<and>
    capped n (sn_sessionIndex s') \<and> capped n (sn_sessionDeltaCursors s') \<and> set (sn_sessionIndex s') \<subseteq> set (sn_sessionIndex s)"
proof -
  let ?gone = "map fst (filter (\<lambda>(k, ref). ref_str ref ''hostId'' \<in> set hosts \<and> k \<notin> set ks) (sn_sessionIndex s))"
  let ?warm = "filter (\<lambda>p. fst p \<notin> set ?gone) (sn_sessions s)"
  let ?goneWarm = "map fst (filter (\<lambda>(k, w). sp_hostId w \<in> set hosts \<and> k \<notin> set ks) ?warm)"
  have sessions: "sn_sessions s' = filter (\<lambda>p. fst p \<notin> set ?goneWarm) ?warm"
    by (simp add: s'_def prune_gone_def Let_def fold_jm_delete)
  have act: "sn_activeSessionKey s' = clear_active ?goneWarm (clear_active ?gone (sn_activeSessionKey s))"
    by (simp add: s'_def prune_gone_def Let_def fold_jm_delete)
  have keys: "set (jm_keys (filter (\<lambda>p. fst p \<notin> A) m)) = set (jm_keys m) - A" for A and m :: "(jsstr, 'x) jsmap"
    by (auto simp: jm_keys_def)
  have skeys: "set (jm_keys (sn_sessions s')) = set (jm_keys (sn_sessions s)) - set ?gone - set ?goneWarm"
    unfolding sessions keys ..
  have "sn_activeSessionKey s' = None \<or>
      sn_activeSessionKey s' = sn_activeSessionKey s \<and> the (sn_activeSessionKey s) \<in> set (jm_keys (sn_sessions s'))"
  proof (cases "sn_activeSessionKey s")
    case None
    then show ?thesis by (simp add: act clear_active_def)
  next
    case (Some a)
    then have "a \<in> set (jm_keys (sn_sessions s))" using assms(1,2) by (simp add: active_ok_def warm_ok_def)
    then show ?thesis using Some unfolding act skeys by (simp only: clear_active_def option.case) (simp split: if_split)
  qed
  moreover have "jm_wf (sn_sessions s')" "sessions_ok config now (sn_sessions s')"
    using assms(1,3) unfolding sessions by (auto simp: warm_ok_def wf_intros sessions_ok_def list_all_iff)
  moreover have "sn_sessionIndex s' = filter (\<lambda>p. fst p \<notin> set ?gone) (sn_sessionIndex s)"
    "sn_sessionDeltaCursors s' = filter (\<lambda>p. fst p \<notin> set ?goneWarm) (filter (\<lambda>p. fst p \<notin> set ?gone) (sn_sessionDeltaCursors s))"
    by (simp_all add: s'_def prune_gone_def Let_def fold_jm_delete)
  ultimately show ?thesis using assms(4,5) skeys by (auto simp: capped_filter)
qed

lemma update_warm_refs_ok: "warm_ok config s \<Longrightarrow> caps_ok config \<Longrightarrow> snapshot_ok config s \<Longrightarrow> snapshot_ok config (update_warm_refs refs s)"
proof (induction refs arbitrary: s)
  case Nil
  then show ?case by (simp add: update_warm_refs_def)
next
  case (Cons ref refs)
  let ?k = "ref_key ref"
  show ?case
  proof (cases "jm_get (sn_sessions s) ?k")
    case None
    then show ?thesis using Cons by (simp add: update_warm_refs_def)
  next
    case (Some p)
    let ?u = "p\<lparr>sp_ref := Some ref, sp_revision := Some (ref_str ref ''revision'')\<rparr>"
    let ?s = "s\<lparr>sn_sessions := mapWith (sn_sessions s) ?k ?u max_map_entries\<rparr>"
    have k: "?k \<in> set (jm_keys (sn_sessions s))" using Some by (simp add: keys_get)
    have "length (sn_sessions s) \<le> max_map_entries"
      using length_warm [OF Cons.prems(1)] Cons.prems(1,2) by (simp add: warm_ok_def caps_ok_def)
    then have eq: "mapWith (sn_sessions s) ?k ?u max_map_entries = jm_set ?k ?u (sn_sessions s)"
      using k Cons.prems(1) by (intro mapWith_room) (auto simp: warm_ok_def)
    have "warm_ok config ?s" using Cons.prems(1) k unfolding eq by (auto simp: warm_ok_def keys_set wf_intros)
    moreover have ses: "list_all (\<lambda>(k, p). session_ok config (sn_arrivalOrdinal s) p) (sn_sessions s)"
      using Cons.prems(3) by (simp add: snapshot_ok_def sessions_ok_def)
    then have "session_ok config (sn_arrivalOrdinal s) p" using jm_list_all_get [OF ses Some] by simp
    then have "sessions_ok config (sn_arrivalOrdinal s) (sn_sessions ?s)"
      using ses unfolding sessions_ok_def eq by (simp add: eq list_all_jm_set)
    ultimately have "snapshot_ok config ?s"
      using Cons.prems(3) by (intro snapshot_ok_sessions [OF Cons.prems(3)]) (auto simp: snapshot_ok_def active_ok_def ordinals_ok_def)
    then have "snapshot_ok config (update_warm_refs refs ?s)" using Cons.IH \<open>warm_ok config ?s\<close> Cons.prems(2) by blast
    then show ?thesis using Some by (simp add: update_warm_refs_def)
  qed
qed

lemma list_all_of_entries: "(\<And>p. p \<in> set es \<Longrightarrow> P p) \<Longrightarrow> list_all P (jm_of_entries es)"
proof -
  assume all: "\<And>p. p \<in> set es \<Longrightarrow> P p"
  have "P (k, v)" if "(k, v) \<in> set (jm_of_entries es)" for k v
  proof -
    have "jm_get (jm_of_entries es) k = Some v" using that by (simp add: jm_get_iff_in_set)
    then have "(k, v) \<in> set es" by (auto simp: jm_get_of_entries dest: map_of_SomeD)
    then show ?thesis by (rule all)
  qed
  then show ?thesis by (auto simp: list_all_iff)
qed

lemma inventory_ordinals_capped:
  assumes "jm_wf ords" "length refs \<le> n" "length rows \<le> n - length refs"
    and "\<And>k v. Q (k, v) \<Longrightarrow> k \<in> fst ` set rows"
  shows "capped n (jm_of_entries (filter Q ords @ map (\<lambda>ref. (ref_key ref, v)) refs))"
proof -
  have "distinct (map fst (filter Q ords))" using assms(1) by (simp add: jm_wf_def distinct_map_filter)
  then have "length (filter Q ords) = card (fst ` set (filter Q ords))"
    by (metis distinct_card length_map list.set_map)
  also have "\<dots> \<le> card (fst ` set rows)"
    using assms(4) by (intro card_mono) auto
  also have "\<dots> \<le> length rows" by (metis card_length length_map list.set_map)
  finally show ?thesis
    using assms(2,3) length_of_entries [of "filter Q ords @ map (\<lambda>ref. (ref_key ref, v)) refs"]
    by (simp add: capped_def)
qed

lemma inventory_pruned_props:
  fixes s f refs hosts
  assumes ok: "snapshot_ok config s" and now: "sn_arrivalOrdinal s \<le> now"
  defines "pruned \<equiv> inventory_pruned s f refs hosts config"
  shows "jm_wf (sn_sessions pruned) \<and> set (jm_keys (sn_sessions pruned)) \<subseteq> set (jm_keys (sn_sessions s)) \<and>
      sessions_ok config now (sn_sessions pruned) \<and>
      (sn_activeSessionKey pruned = None \<or> the (sn_activeSessionKey pruned) \<in> set (jm_keys (sn_sessions pruned))) \<and>
      capped (maxIndexedSessions config) (sn_sessionDeltaCursors pruned)"
proof -
  let ?n = "maxIndexedSessions config"
  have warm: "warm_ok config s" and act: "active_ok s" and idx: "index_ok config s"
    and ses: "sessions_ok config (sn_arrivalOrdinal s) (sn_sessions s)" using ok by (simp_all add: snapshot_ok_def)
  show ?thesis
  proof (cases "sessionFrameIsComplete f refs ?n")
    case True
    then have "pruned = prune_gone s hosts (map ref_key refs)" by (simp add: pruned_def inventory_pruned_def)
    then show ?thesis
      using prune_gone_props [OF warm act sessions_ok_mono [OF ses now], of ?n hosts "map ref_key refs"] idx
      by (auto simp: index_ok_def)
  next
    case False
    then have "pruned = s" by (simp add: pruned_def inventory_pruned_def)
    then show ?thesis using warm act idx sessions_ok_mono [OF ses now]
      by (auto simp: warm_ok_def active_ok_def index_ok_def)
  qed
qed

lemma inventory_installed_ok:
  fixes pl s f refs hosts
  assumes ok: "snapshot_ok config s" and len: "length refs \<le> maxIndexedSessions config"
  defines "s1 \<equiv> inventory_installed pl s f refs hosts config"
  shows "warm_ok config s1" "index_ok config s1" "ordinals_ok s1" "sessions_ok config (sn_arrivalOrdinal s1) (sn_sessions s1)"
proof -
  let ?n = "maxIndexedSessions config"
  define pruned where "pruned = inventory_pruned s f refs hosts config"
  define rows where "rows = retained_rows (localeCompare pl) (sn_sessionIndex pruned) (map ref_key refs) (?n - length refs)"
  define index where "index = jm_of_entries (rows @ map (\<lambda>ref. (ref_key ref, ref)) refs)"
  define now where "now = nextArrivalOrdinal s"
  define ords where "ords = jm_of_entries (filter (keeps_ordinal s hosts rows) (sn_sessionRefArrivalOrdinals s) @ map (\<lambda>ref. (ref_key ref, now)) refs)"
  have s1: "s1 = pruned\<lparr>sn_sessionIndex := index,
      sn_sessionIndexMetadata := put_all ?n (sessionFrameMetadata f refs ?n hosts) (sn_sessionIndexMetadata s),
      sn_sessionRefArrivalOrdinals := ords,
      sn_sessionInventoryCursors := put_all ?n (map (\<lambda>h. (h, ss_cursor f)) hosts) (sn_sessionInventoryCursors s),
      sn_lru := filter (\<lambda>k. jm_has (sn_sessions pruned) k) (sn_lru s), sn_arrivalOrdinal := now\<rparr>"
    unfolding s1_def inventory_installed_def Let_def ords_def now_def index_def rows_def pruned_def by (rule refl)
  have warm: "warm_ok config s" and idx: "index_ok config s" and ord: "ordinals_ok s" using ok by (simp_all add: snapshot_ok_def)
  have now: "sn_arrivalOrdinal s \<le> now" "now \<le> max_safe_integer" "0 \<le> now"
    using nextArrivalOrdinal_range [OF ok] snapshot_ok_nonneg [OF ok] by (simp_all add: now_def)
  note p = inventory_pruned_props [OF ok now(1), of f refs hosts, folded pruned_def]
  have lru: "set (sn_lru s1) = set (jm_keys (sn_sessions s1))"
    using warm p by (auto simp: s1 warm_ok_def jm_has_keys)
  show "warm_ok config s1"
    using warm p lru by (auto simp: warm_ok_def s1 intro: order_trans [OF length_filter_le])
  have keysub: "set (jm_keys ords) \<subseteq> set (jm_keys index)"
    unfolding ords_def index_def keys_of_entries set_append image_Un set_map
    by (auto simp: keeps_ordinal_def image_image intro: rev_image_eqI)
  have "capped ?n index" unfolding index_def rows_def by (rule inventory_index_capped [OF len refl])
  moreover have "capped ?n ords"
    unfolding ords_def by (rule inventory_ordinals_capped [where rows = rows])
      (use idx len in \<open>auto simp: index_ok_def capped_def keeps_ordinal_def rows_def retained_rows_props(1)\<close>)
  moreover have "capped ?n (sn_sessionDeltaCursors s1)" using p by (simp add: s1)
  moreover have "sn_workspaces s1 = sn_workspaces s" "sn_workspaceCursors s1 = sn_workspaceCursors s"
    by (simp_all add: s1 pruned_def inventory_pruned_def prune_gone_def Let_def)
  ultimately show "index_ok config s1" using idx keysub by (simp add: index_ok_def s1 wf_intros)
  have "list_all (\<lambda>(k, n). n \<le> now) ords"
    unfolding ords_def using ord now(1) by (intro list_all_of_entries) (auto simp: ordinals_ok_def list_all_iff)
  then show "ordinals_ok s1" using now by (simp add: ordinals_ok_def s1)
  show "sessions_ok config (sn_arrivalOrdinal s1) (sn_sessions s1)" using p by (simp add: s1)
qed

lemma make_active_ok:
  assumes "warm_ok config s" "index_ok config s" "ordinals_ok s" "sessions_ok config (sn_arrivalOrdinal s) (sn_sessions s)"
    and caps: "caps_ok config"
  shows "snapshot_ok config (make_active s config)"
proof -
  let ?active = "case sn_activeSessionKey s of Some a \<Rightarrow> Some a | None \<Rightarrow> mostRecentSessionKey (sn_sessionIndex s)"
  show ?thesis
  proof (cases ?active)
    case None
    then have "sn_activeSessionKey s = None" by (auto split: option.splits)
    then show ?thesis using assms None by (simp add: make_active_def snapshot_ok_def active_ok_def)
  next
    case (Some a)
    let ?s0 = "s\<lparr>sn_activeSessionKey := None\<rparr>"
    have ok0: "snapshot_ok config ?s0"
      using assms by (simp add: snapshot_ok_def warm_ok_def index_ok_def ordinals_ok_def active_ok_def)
    have "snapshot_ok config (after_update ?s0 a (\<lambda>p. None) config None)"
      by (rule after_update_ok [OF ok0 caps]) simp_all
    moreover have id: "jm_set a (session_or_new s a) (warmed_sessions s a config) = warmed_sessions s a config"
      using warmed_sessions_get [OF assms(1) caps, of a a] warmed_sessions_wf [OF assms(1)] by (simp add: jm_set_id)
    moreover have "make_active s config = (after_update ?s0 a (\<lambda>p. None) config None)\<lparr>sn_activeSessionKey := Some a\<rparr>"
      using Some id
      by (simp add: make_active_def touch_warmed [OF assms(1) caps] after_update_def warmed_sessions_def session_or_new_def warmed_lru_def)
    moreover have "a \<in> set (warmed_lru ?s0 a config)"
      using warmed_lru_props(3) [OF assms(1) caps, of a] by (simp add: warmed_lru_def)
    ultimately show ?thesis
      by (auto simp: snapshot_ok_def warm_ok_def index_ok_def ordinals_ok_def active_ok_def after_update_def)
  qed
qed

lemma sessions_frame_keeps_ok:
  assumes ok: "snapshot_ok config s" and caps: "caps_ok config"
  shows "keeps_ok config s (reduceSessions pl s f config)"
proof -
  let ?refs = "inventory_refs f config"
  let ?next = "make_active (inventory_installed pl s f ?refs (authoritativeSessionHosts f ?refs) config) config"
  have "snapshot_ok config ?next"
    by (intro make_active_ok inventory_installed_ok [OF ok] length_inventory_refs caps)
  then have "snapshot_ok config (update_warm_refs ?refs ?next)"
    using update_warm_refs_ok caps by (metis snapshot_ok_def)
  then show ?thesis using ok by (simp add: reduceSessions_def Let_def updateRoot_ok)
qed

subsection \<open>Preservation by a welcome\<close>

lemma capped_map_snd: "capped n (map (\<lambda>(k, v). (k, g v)) m) = capped n m"
proof -
  have "map fst (map (\<lambda>(k, v). (k, g v)) m) = map fst m" by (induction m) auto
  then show ?thesis unfolding capped_def jm_wf_def by (simp only: length_map)
qed

lemma keys_map_snd: "jm_keys (map (\<lambda>(k, v). (k, g k v)) m) = jm_keys m"
  by (induction m) (auto simp: jm_keys_def)

lemma welcome_session_ok: "session_ok config now p \<Longrightarrow> 0 \<le> now \<Longrightarrow> session_ok config now (welcome_session b p)"
  by (simp add: welcome_session_def Let_def collections_simps capped_map_snd)

lemma welcome_keeps_ok:
  assumes ok: "snapshot_ok config s"
  shows "snapshot_ok config (reduceWelcome s f)"
proof -
  let ?g = "\<lambda>b p. if sp_hostId p \<noteq> wf_hostId f then p else welcome_session b p"
  have warm: "warm_ok config s" and act: "active_ok s" and idx: "index_ok config s" and ord: "ordinals_ok s"
    and ses: "sessions_ok config (sn_arrivalOrdinal s) (sn_sessions s)" using ok by (simp_all add: snapshot_ok_def)
  have ses': "sessions_ok config (sn_arrivalOrdinal s) (map (\<lambda>(k, p). (k, ?g b p)) (sn_sessions s))" for b
    using ses welcome_session_ok snapshot_ok_nonneg [OF ok] by (auto simp: sessions_ok_def list_all_iff)
  have wf': "jm_wf (map (\<lambda>(k, p). (k, ?g b p)) (sn_sessions s))" for b
    using warm by (simp add: warm_ok_def jm_wf_keys keys_map_snd)
  have sub: "capped n (withoutHostRefOrdinals m h) \<and> set (jm_keys (withoutHostRefOrdinals m h)) \<subseteq> set (jm_keys m) \<and>
      set (withoutHostRefOrdinals m h) \<subseteq> set m" if "capped n m" for n h and m :: "(jsstr, int) jsmap"
    using that by (auto simp: withoutHostRefOrdinals_def fold_jm_delete capped_filter jm_keys_def)
  have o: "capped (maxIndexedSessions config) (sn_sessionRefArrivalOrdinals s)" using idx by (simp add: index_ok_def)
  let ?b = "case sn_epoch s of None \<Rightarrow> False | Some e \<Rightarrow> e \<noteq> wf_epoch f"
  have fields: "sn_sessions (reduceWelcome s f) = map (\<lambda>(k, p). (k, ?g ?b p)) (sn_sessions s)"
    "sn_lru (reduceWelcome s f) = sn_lru s" "sn_activeSessionKey (reduceWelcome s f) = sn_activeSessionKey s"
    "sn_sessionIndex (reduceWelcome s f) = sn_sessionIndex s"
    "sn_sessionIndexMetadata (reduceWelcome s f) = mapWithout (sn_sessionIndexMetadata s) (wf_hostId f)"
    "sn_sessionInventoryCursors (reduceWelcome s f) = mapWithout (sn_sessionInventoryCursors s) (wf_hostId f)"
    "sn_sessionRefArrivalOrdinals (reduceWelcome s f) = withoutHostRefOrdinals (sn_sessionRefArrivalOrdinals s) (wf_hostId f)"
    "sn_sessionDeltaCursors (reduceWelcome s f) = sn_sessionDeltaCursors s"
    "sn_workspaces (reduceWelcome s f) = sn_workspaces s" "sn_workspaceCursors (reduceWelcome s f) = sn_workspaceCursors s"
    "sn_arrivalOrdinal (reduceWelcome s f) = sn_arrivalOrdinal s"
    by (simp_all add: reduceWelcome_def Let_def updateRoot_def)
  have "warm_ok config (reduceWelcome s f)" using warm wf' by (simp add: warm_ok_def fields keys_map_snd)
  moreover have "active_ok (reduceWelcome s f)" using act by (simp add: active_ok_def fields)
  moreover have "index_ok config (reduceWelcome s f)"
    using idx sub [OF o, of "wf_hostId f"] by (auto simp: index_ok_def fields wf_intros)
  moreover have "ordinals_ok (reduceWelcome s f)"
    using ord sub [OF o, of "wf_hostId f"] by (auto simp: ordinals_ok_def fields list_all_iff)
  ultimately show ?thesis using ses' by (simp add: snapshot_ok_def fields)
qed

lemma frames_keep_ok:
  assumes ok: "snapshot_ok config s" and caps: "caps_ok config" and frame: "frame_ok frame"
  shows "(\<exists>e. applyProjectionInput pl s frame config = Inl (BadWorkspace e)) \<or>
    keeps_ok config s (applyProjectionInput pl s frame config)"
proof (cases "reduceResourceProjection (parse_url pl) s frame config")
  case (Some r)
  then show ?thesis using resources_keep_ok [OF ok caps Some] by (simp add: applyProjectionInput_def)
next
  case None
  note t = transcript_frames_keep_ok [OF ok caps]
  show ?thesis
  proof (cases frame)
    case (FWorkspaceState f)
    then show ?thesis using workspace_state_keeps_ok [OF ok refl, of f] None by (simp add: applyProjectionInput_def)
  next
    case (FSessions f)
    then show ?thesis using sessions_frame_keeps_ok [OF ok caps] None by (simp add: applyProjectionInput_def)
  next
    case (FSessionDelta f)
    then show ?thesis using session_delta_keeps_ok [OF ok] None by (simp add: applyProjectionInput_def)
  next
    case (FSnapshot f)
    then show ?thesis using snapshot_frame_keeps_ok [OF ok caps] frame None by (simp add: applyProjectionInput_def frame_ok_def)
  next
    case (FEntry f)
    then show ?thesis using t(1) frame None by (simp add: applyProjectionInput_def frame_ok_def)
  next
    case (FEvent f)
    then show ?thesis using t(2) None by (simp add: applyProjectionInput_def)
  next
    case (FGap f)
    then show ?thesis using t(3) None by (simp add: applyProjectionInput_def)
  next
    case (FAgent f)
    then show ?thesis using t(4) None by (simp add: applyProjectionInput_def)
  next
    case (FAgentTranscript f)
    then show ?thesis using t(5) frame None by (simp add: applyProjectionInput_def frame_ok_def)
  next
    case (FWelcome f)
    then show ?thesis using welcome_keeps_ok [OF ok] None by (simp add: applyProjectionInput_def)
  qed (use None ok in \<open>auto simp: applyProjectionInput_def reduceResourceProjection_def\<close>)
qed

subsection \<open>What each frame does to the sessions\<close>

lemma after_update_get:
  assumes "warm_ok config s" "caps_ok config"
  shows "jm_get (sn_sessions (after_update s k update config ordinal)) j =
    (if j = k then Some (or_same (session_or_new s k) (update (session_or_new s k)))
     else if j \<in> set (warmed_lru s k config) then jm_get (sn_sessions s) j else None)"
  using warmed_sessions_get [OF assms, of k j] by (simp add: after_update_def)

text \<open>The cursor of a session does not go back within an epoch.\<close>

definition cursor_forward :: "cursor option \<Rightarrow> cursor option \<Rightarrow> bool" where
  "cursor_forward old new \<longleftrightarrow>
     (case (old, new) of
        (Some a, Some b) \<Rightarrow> epoch a = epoch b \<longrightarrow> seq a \<le> seq b
      | _ \<Rightarrow> True)"

lemma cursor_forward_refl [simp]: "cursor_forward c c"
  by (simp add: cursor_forward_def split: option.splits)

definition cursors_forward :: "snapshot \<Rightarrow> snapshot \<Rightarrow> bool" where
  "cursors_forward s s' \<longleftrightarrow>
     list_all (\<lambda>(k, p). case jm_get (sn_sessions s') k of
        None \<Rightarrow> True | Some p' \<Rightarrow> cursor_forward (sp_cursor p) (sp_cursor p')) (sn_sessions s)"

lemma cursors_forward_iff:
  assumes "jm_wf (sn_sessions s)"
  shows "cursors_forward s s' \<longleftrightarrow>
    (\<forall>k p p'. jm_get (sn_sessions s) k = Some p \<longrightarrow> jm_get (sn_sessions s') k = Some p' \<longrightarrow>
       cursor_forward (sp_cursor p) (sp_cursor p'))"
  unfolding cursors_forward_def list_all_iff jm_get_iff_in_set [OF assms] by (auto split: option.splits)

lemma cursors_forward_refl: "jm_wf (sn_sessions s) \<Longrightarrow> sn_sessions s' = sn_sessions s \<Longrightarrow> cursors_forward s s'"
  by (simp add: cursors_forward_iff)

lemma withSession_forward:
  assumes ok: "warm_ok config s" and caps: "caps_ok config"
    and upd: "\<And>p. jm_get (sn_sessions s) k = Some p \<Longrightarrow> cursor_forward (sp_cursor p) (sp_cursor (or_same p (update p)))"
    and r: "withSession s k update config ordinal = Inr r"
  shows "cursors_forward s (or_same s r)"
proof -
  have wf: "jm_wf (sn_sessions s)" using ok by (simp add: warm_ok_def)
  have eq: "or_same s r = after_update s k update config ordinal"
    using withSession_eq [OF ok caps, of k update ordinal] r by (metis sum.inject(2))
  show ?thesis unfolding cursors_forward_iff [OF wf] eq after_update_get [OF ok caps]
    using upd by (auto simp: session_or_new_def split: if_splits)
qed

lemma same_cursor_forward: "sp_cursor (or_same p (update p)) = sp_cursor p \<Longrightarrow> cursor_forward (sp_cursor p) (sp_cursor (or_same p (update p)))"
  by simp

lemma accept_cursor: "cursorState p c = Accept \<Longrightarrow> cursor_forward (sp_cursor p) (Some c)"
  by (auto simp: cursorState_def cursor_forward_def split: option.splits if_splits)

lemma mark_stale_cursor: "sp_cursor (or_same p (mark_stale k config p)) = sp_cursor p"
  by (simp add: mark_stale_def split: option.splits)

lemma resource_frames_forward:
  assumes ok: "warm_ok config s" and caps: "caps_ok config"
    and r: "reduceResourceProjection pu s frame config = Some (Inr x)"
  shows "cursors_forward s (or_same s x)"
proof -
  have wf: "jm_wf (sn_sessions s)" using ok by (simp add: warm_ok_def)
  note fwd = withSession_forward [OF ok caps same_cursor_forward]
  note same = cursors_forward_refl [OF wf refl]
  show ?thesis
  proof (cases frame)
    case (FPreview f)
    with r show ?thesis
      by (auto simp: reduceResourceProjection_def reducePreview_def Let_def same mark_stale_cursor elim!: fwd [rotated] split: if_splits)
  next
    case (FTerminal f)
    with r show ?thesis
      by (auto simp: reduceResourceProjection_def reduceTerminal_def Let_def elim!: fwd [rotated])
  next
    case (FFiles f)
    with r show ?thesis by (auto simp: reduceResourceProjection_def reduceFiles_def elim!: fwd [rotated])
  next
    case (FReview f)
    with r show ?thesis by (auto simp: reduceResourceProjection_def reduceReview_def elim!: fwd [rotated])
  next
    case (FAudit f)
    with r show ?thesis
      by (auto simp: reduceResourceProjection_def reduceAudit_def same elim!: fwd [rotated] split: option.splits)
  next
    case (FConfirmation f)
    with r show ?thesis
      by (auto simp: reduceResourceProjection_def reduceConfirmation_def same elim!: fwd [rotated] split: option.splits)
  next
    case (FResponse f)
    with r show ?thesis
      by (auto simp: reduceResourceProjection_def reduceResponse_def Let_def same elim!: fwd [rotated] split: option.splits)
  qed (use r in \<open>auto simp: reduceResourceProjection_def\<close>)
qed

end
