(* ===== verification/ClientFollow.thy ===== *)
theory ClientFollow
  imports HostReplay ProjectionPreservation
begin

text \<open>
  The client projection follows the host. The reducer, seen through the cursor and the
  catching-up mark of one session, is a follower of that session; so feeding it what the host
  replays brings it to the host's cursor.
\<close>

definition session_view :: "session_projection option \<Rightarrow> view" where
  "session_view po = (case po of None \<Rightarrow> (None, False) | Some p \<Rightarrow> (sp_cursor p, sp_freshness p = CatchingUp))"

definition client_view :: "jsstr \<Rightarrow> snapshot \<Rightarrow> view" where
  "client_view k s = session_view (jm_get (sn_sessions s) k)"

text \<open>The store applies one frame; an error leaves it as it was.\<close>

definition client_feed :: "platform \<Rightarrow> caps \<Rightarrow> projection_frame \<Rightarrow> snapshot \<Rightarrow> snapshot" where
  "client_feed pl config f s = (case applyProjectionInput pl s f config of Inl e \<Rightarrow> s | Inr x \<Rightarrow> or_same s x)"

definition client_ok :: "caps \<Rightarrow> snapshot \<Rightarrow> bool" where
  "client_ok config s \<longleftrightarrow> warm_ok config s \<and> caps_ok config"

lemma after_update_warm:
  assumes "warm_ok config s" "caps_ok config"
  shows "warm_ok config (after_update s k update config ordinal)"
proof -
  have w: "warm_ok config (or_same s (touch_session s k config))" "k \<in> set (sn_lru (or_same s (touch_session s k config)))"
    using touch_ok [OF assms] by simp_all
  then show ?thesis
    unfolding touch_warmed [OF assms]
    by (auto simp: warm_ok_def after_update_def keys_set wf_intros)
qed

lemma withSession_view:
  assumes "warm_ok config s" "caps_ok config"
  shows "\<exists>x. withSession s k update config ordinal = Inr x \<and> warm_ok config (or_same s x) \<and>
    client_view k (or_same s x) = session_view (Some (or_same (session_or_new s k) (update (session_or_new s k))))"
proof -
  obtain x where "withSession s k update config ordinal = Inr x" "or_same s x = after_update s k update config ordinal"
    using withSession_eq [OF assms] by blast
  then show ?thesis by (simp add: after_update_warm [OF assms] client_view_def after_update_get [OF assms])
qed

lemma view_or_new: "client_view k s = session_view (Some (session_or_new s k))"
  by (simp add: client_view_def session_view_def session_or_new_def initialSession_def split: option.splits)

lemma live_order_view:
  "live_order s k c = Accept \<Longrightarrow> follow_live c (client_view k s) = (Some c, False)"
  "live_order s k c = Duplicate \<Longrightarrow> follow_live c (client_view k s) = client_view k s"
  "live_order s k c = Gap \<Longrightarrow> follow_live c (client_view k s) = (fst (client_view k s), True)"
proof -
  have known: "cursorState p c = Accept \<Longrightarrow> follow_live c (session_view (Some p)) = (Some c, False)"
    "cursorState p c = Duplicate \<Longrightarrow> follow_live c (session_view (Some p)) = session_view (Some p)"
    "cursorState p c = Gap \<Longrightarrow> follow_live c (session_view (Some p)) = (fst (session_view (Some p)), True)" for p
    by (cases "sp_freshness p = CatchingUp"; cases "sp_cursor p";
        simp add: cursorState_def follow_live_def session_view_def split: if_splits)+
  have new: "follow_live c (session_view None) = (Some c, False)" by (simp add: follow_live_def session_view_def)
  show "live_order s k c = Accept \<Longrightarrow> follow_live c (client_view k s) = (Some c, False)"
    "live_order s k c = Duplicate \<Longrightarrow> follow_live c (client_view k s) = client_view k s"
    "live_order s k c = Gap \<Longrightarrow> follow_live c (client_view k s) = (fst (client_view k s), True)"
    unfolding live_order_def client_view_def by (cases "jm_get (sn_sessions s) k"; simp add: known new)+
qed

lemma accept_view:
  "sp_freshness p \<noteq> CatchingUp \<Longrightarrow> session_view (Some (accept_entry f config p)) = (Some (ef_cursor f), False)"
  "session_view (Some (accept_event g n config p)) = (Some (vf_cursor g), False)"
  by (auto simp: session_view_def accept_entry_def accept_event_def Let_def)

lemma accepting: "live_order s k c = Accept \<Longrightarrow> sp_freshness (session_or_new s k) \<noteq> CatchingUp"
  by (auto simp: live_order_def cursorState_def session_or_new_def initialSession_def split: option.splits if_splits)

text \<open>Every frame of a session is applied without an error, with the follower's effect on the view.\<close>

lemma reduce_live:
  assumes "warm_ok config s" "caps_ok config"
  shows "\<exists>x. reduceEntry s f config = Inr x \<and> warm_ok config (or_same s x) \<and>
      client_view (key (ef_hostId f) (ef_sessionId f)) (or_same s x) =
        follow_live (ef_cursor f) (client_view (key (ef_hostId f) (ef_sessionId f)) s)" (is "?entry")
    and "\<exists>x. reduceEvent s g config = Inr x \<and> warm_ok config (or_same s x) \<and>
      client_view (key (vf_hostId g) (vf_sessionId g)) (or_same s x) =
        follow_live (vf_cursor g) (client_view (key (vf_hostId g) (vf_sessionId g)) s)" (is "?event")
proof -
  have lost: "session_view (Some (p\<lparr>sp_freshness := CatchingUp\<rparr>)) = (fst (session_view (Some p)), True)" for p
    by (simp add: session_view_def)
  show ?entry
  proof (cases "live_order s (key (ef_hostId f) (ef_sessionId f)) (ef_cursor f)")
    case Accept
    then show ?thesis
      using withSession_view [OF assms, of "key (ef_hostId f) (ef_sessionId f)" "\<lambda>p. Some (accept_entry f config p)" None]
      by (simp add: reduceEntry_def Let_def live_order_view(1) accept_view accepting)
  next
    case Duplicate
    then show ?thesis using assms by (simp add: reduceEntry_def Let_def live_order_view(2))
  next
    case Gap
    then show ?thesis
      using withSession_view [OF assms, of "key (ef_hostId f) (ef_sessionId f)" "\<lambda>p. Some (p\<lparr>sp_freshness := CatchingUp\<rparr>)" None]
      by (simp add: reduceEntry_def Let_def live_order_view(3) lost view_or_new [symmetric])
  qed
  show ?event
  proof (cases "live_order s (key (vf_hostId g) (vf_sessionId g)) (vf_cursor g)")
    case Accept
    then show ?thesis
      using withSession_view [OF assms, of "key (vf_hostId g) (vf_sessionId g)" "\<lambda>p. Some (accept_event g (nextArrivalOrdinal s) config p)" "Some (nextArrivalOrdinal s)"]
      by (simp add: reduceEvent_def Let_def live_order_view(1) accept_view)
  next
    case Duplicate
    then show ?thesis using assms by (simp add: reduceEvent_def Let_def live_order_view(2))
  next
    case Gap
    then show ?thesis
      using withSession_view [OF assms, of "key (vf_hostId g) (vf_sessionId g)" "\<lambda>p. Some (p\<lparr>sp_freshness := CatchingUp\<rparr>)" None]
      by (simp add: reduceEvent_def Let_def live_order_view(3) lost view_or_new [symmetric])
  qed
qed

lemma reduce_gap:
  assumes "warm_ok config s" "caps_ok config"
  shows "\<exists>x. reduceGap s g config = Inr x \<and> warm_ok config (or_same s x) \<and>
    client_view (key (gf_hostId g) (gf_sessionId g)) (or_same s x) = (fst (client_view (key (gf_hostId g) (gf_sessionId g)) s), True)"
  using withSession_view [OF assms, of "key (gf_hostId g) (gf_sessionId g)" "\<lambda>p. Some (p\<lparr>sp_freshness := CatchingUp, sp_gap := Some g\<rparr>)" None]
  by (simp add: reduceGap_def view_or_new) (simp add: session_view_def)

lemma reduce_snapshot:
  fixes f :: snapshot_frame
  assumes "warm_ok config s" "caps_ok config"
  defines "k \<equiv> key (sf_hostId f) (sf_sessionId f)"
  shows "\<exists>x. reduceSnapshot s f config = Inr x \<and> warm_ok config (or_same s x) \<and>
    (ahead (sf_cursor f) (fst (client_view k s)) \<longrightarrow> client_view k (or_same s x) = (Some (sf_cursor f), False)) \<and>
    (\<not> ahead (sf_cursor f) (fst (client_view k s)) \<longrightarrow> client_view k (or_same s x) = client_view k s)"
proof -
  let ?u = "\<lambda>session. Some (install_snapshot f (retainDurableEntries (sf_entries f) (transcript_caps config)) session)"
  obtain x where x: "withSession s k ?u config None = Inr x" "warm_ok config (or_same s x)"
      "client_view k (or_same s x) = session_view (?u (session_or_new s k))"
    using withSession_view [OF assms(1,2), of k ?u None] by auto
  have v: "session_view (?u p) = (Some (sf_cursor f), False)" for p by (simp add: session_view_def install_snapshot_def Let_def)
  show ?thesis
  proof (cases "reduceSnapshot s f config = Inr None")
    case True
    then have "\<exists>p c. jm_get (sn_sessions s) k = Some p \<and> sp_cursor p = Some c \<and> epoch c = epoch (sf_cursor f) \<and> seq (sf_cursor f) \<le> seq c"
      using x(1) by (auto simp: reduceSnapshot_def Let_def k_def split: option.splits if_splits)
    then have "\<not> ahead (sf_cursor f) (fst (client_view k s))" by (auto simp: client_view_def session_view_def ahead_def)
    then show ?thesis using True assms(1) by simp
  next
    case False
    let ?s' = "(updateRoot (or_same s x) (Some (sf_cursor f)) (Some (epoch (sf_cursor f))) (Some Fresh))\<lparr>sn_activeSessionKey :=
        (case sn_activeSessionKey (or_same s x) of None \<Rightarrow> Some k | Some a \<Rightarrow> Some a)\<rparr>"
    have r: "reduceSnapshot s f config = Inr (Some ?s')"
      using False x(1) unfolding reduceSnapshot_def Let_def k_def [symmetric] by (simp split: if_splits)
    have "sn_sessions ?s' = sn_sessions (or_same s x)" "sn_lru ?s' = sn_lru (or_same s x)" by (simp_all add: updateRoot_def)
    then have "warm_ok config ?s'" "client_view k ?s' = (Some (sf_cursor f), False)"
      using x(2,3) v by (simp_all add: warm_ok_def client_view_def)
    moreover have "client_view k s = (Some (sf_cursor f), False)" if "\<not> ahead (sf_cursor f) (fst (client_view k s))"
      using that False x(1)
      by (auto simp: reduceSnapshot_def Let_def k_def ahead_def client_view_def session_view_def split: option.splits if_splits)
    ultimately show ?thesis unfolding r by auto
  qed
qed

lemma apply_session_frames:
  "applyProjectionInput pl s (FEntry e) config = reduceEntry s e config"
  "applyProjectionInput pl s (FEvent v) config = reduceEvent s v config"
  "applyProjectionInput pl s (FGap g) config = reduceGap s g config"
  "applyProjectionInput pl s (FSnapshot f) config = reduceSnapshot s f config"
  by (simp_all add: applyProjectionInput_def reduceResourceProjection_def)

lemma frame_of_cases:
  assumes "frame_of host session f"
  obtains e where "f = FEntry e" "ef_hostId e = host" "ef_sessionId e = session"
    | v where "f = FEvent v" "vf_hostId v = host" "vf_sessionId v = session"
    | g where "f = FGap g" "gf_hostId g = host" "gf_sessionId g = session"
    | sf where "f = FSnapshot sf" "sf_hostId sf = host" "sf_sessionId sf = session"
  using assms by (cases f) auto

lemma client_frame_applied:
  assumes "client_ok config s" "frame_of host session f"
  shows "\<exists>x. applyProjectionInput pl s f config = Inr x \<and> client_ok config (or_same s x)"
proof -
  have w: "warm_ok config s" "caps_ok config" using assms(1) by (simp_all add: client_ok_def)
  from assms(2) show ?thesis
  proof (cases rule: frame_of_cases)
    case (1 e)
    then show ?thesis using reduce_live(1) [OF w, of e] w(2) by (auto simp: apply_session_frames client_ok_def)
  next
    case (2 v)
    then show ?thesis using reduce_live(2) [OF w, of v] w(2) by (auto simp: apply_session_frames client_ok_def)
  next
    case (3 g)
    then show ?thesis using reduce_gap [OF w, of g] w(2) by (auto simp: apply_session_frames client_ok_def)
  next
    case (4 sf)
    then show ?thesis using reduce_snapshot [OF w, of sf] w(2) by (auto simp: apply_session_frames client_ok_def)
  qed
qed

interpretation client: follower "client_view (key host session)" "client_feed pl config" "client_ok config" "frame_of host session"
  for host session pl config
proof
  fix s f
  assume ok: "client_ok config s" and f: "frame_of host session f"
  then have w: "warm_ok config s" "caps_ok config" by (simp_all add: client_ok_def)
  show "client_ok config (client_feed pl config f s)"
    using client_frame_applied [OF ok f, of pl] by (auto simp: client_feed_def)
  show "client_view (key host session) (client_feed pl config f s) = follow_live c (client_view (key host session) s)"
    if "live_cursor f = Some c" for c
    using f
  proof (cases rule: frame_of_cases)
    case (1 e)
    then show ?thesis using reduce_live(1) [OF w, of e] that by (auto simp: apply_session_frames client_feed_def live_cursor_def)
  next
    case (2 v)
    then show ?thesis using reduce_live(2) [OF w, of v] that by (auto simp: apply_session_frames client_feed_def live_cursor_def)
  qed (use that in \<open>simp_all add: live_cursor_def\<close>)
next
  fix s g
  assume ok: "client_ok config s" and f: "frame_of host session (FGap g)"
  then have w: "warm_ok config s" "caps_ok config" by (simp_all add: client_ok_def)
  show "client_view (key host session) (client_feed pl config (FGap g) s) = (fst (client_view (key host session) s), True)"
    using reduce_gap [OF w, of g] f by (auto simp: client_feed_def apply_session_frames)
next
  fix s sf
  assume ok: "client_ok config s" and f: "frame_of host session (FSnapshot sf)" and a: "ahead (sf_cursor sf) (fst (client_view (key host session) s))"
  then have w: "warm_ok config s" "caps_ok config" by (simp_all add: client_ok_def)
  show "client_view (key host session) (client_feed pl config (FSnapshot sf) s) = (Some (sf_cursor sf), False)"
    using reduce_snapshot [OF w, of sf] f a by (auto simp: client_feed_def apply_session_frames)
qed

subsection \<open>Properties\<close>

text \<open>
  C14: The reducer implements the follower's rule. For a projection whose warm-session list and
  session map agree, an entry, event, gap or snapshot frame of a session is applied without an
  error, keeps that agreement, and changes the session's cursor and its catching-up mark exactly
  as the rule says.
\<close>

theorem reducer_refines_follow:
  assumes "client_ok config s" "frame_of host session f"
  shows "\<exists>x. applyProjectionInput pl s f config = Inr x \<and> client_ok config (or_same s x) \<and>
    client_view (key host session) (or_same s x) = follow f (client_view (key host session) s)"
proof -
  have w: "warm_ok config s" "caps_ok config" using assms(1) by (simp_all add: client_ok_def)
  from assms(2) show ?thesis
  proof (cases rule: frame_of_cases)
    case (1 e)
    then show ?thesis using reduce_live(1) [OF w, of e] w(2) by (auto simp: apply_session_frames client_ok_def)
  next
    case (2 v)
    then show ?thesis using reduce_live(2) [OF w, of v] w(2) by (auto simp: apply_session_frames client_ok_def)
  next
    case (3 g)
    then show ?thesis using reduce_gap [OF w, of g] w(2) by (auto simp: apply_session_frames client_ok_def)
  next
    case (4 sf)
    then show ?thesis using reduce_snapshot [OF w, of sf] w(2) by (auto simp: apply_session_frames client_ok_def)
  qed
qed

text \<open>The host completes an attach with the agent frames of the session; they leave the session's view alone.\<close>

fun session_agent_frame :: "jsstr \<Rightarrow> jsstr \<Rightarrow> projection_frame \<Rightarrow> bool" where
  "session_agent_frame host session (FAgent f) \<longleftrightarrow> gt_hostId f = host \<and> gt_sessionId f = session"
| "session_agent_frame host session _ \<longleftrightarrow> False"

lemma agent_frames_keep_view:
  assumes "client_ok config s" "list_all (session_agent_frame host session) fs"
  shows "client_ok config (fold (client_feed pl config) fs s) \<and>
    client_view (key host session) (fold (client_feed pl config) fs s) = client_view (key host session) s"
  using assms
proof (induction fs arbitrary: s)
  case (Cons f fs)
  then obtain a where f: "f = FAgent a" "gt_hostId a = host" "gt_sessionId a = session" by (cases f) auto
  have w: "warm_ok config s" "caps_ok config" using Cons.prems(1) by (simp_all add: client_ok_def)
  let ?u = "\<lambda>p. Some (p\<lparr>sp_agents := mapWith (sp_agents p) (gt_agentId a)
      (if gt_detail a = JUndef then a else a\<lparr>gt_detail := safeValue (gt_detail a)\<rparr>) max_map_entries\<rparr>)"
  have u: "session_view (?u p) = session_view (Some p)" for p by (simp add: session_view_def)
  obtain x where "withSession s (key host session) ?u config None = Inr x" "warm_ok config (or_same s x)"
      "client_view (key host session) (or_same s x) = client_view (key host session) s"
    using withSession_view [OF w, of "key host session" ?u None] u by (auto simp: view_or_new [symmetric])
  then have "client_ok config (client_feed pl config f s)" "client_view (key host session) (client_feed pl config f s) = client_view (key host session) s"
    using w(2) by (simp_all add: client_feed_def f applyProjectionInput_def reduceResourceProjection_def reduceAgent_def client_ok_def)
  then show ?case using Cons.IH [of "client_feed pl config f s"] Cons.prems(2) by simp
qed simp

text \<open>
  C2: A client that resumes catches up. Take any host state reached from a new session projection
  by its methods, that is ready to build a snapshot (the digest writes 64 hexadecimal digits, the
  ids pass the wire's guards, the fallback time has at most 65536 code units and fewer than
  10^15 entries were omitted), a client whose warm-session list and session map agree, and a
  session of it that is not catching up and has some cursor, of another epoch than the host's or
  with a sequence number that is not negative. Then replaying from that cursor returns. If the
  cursor is not ahead of the host within the host's epoch, applying the replayed frames brings the
  client's session to the host's cursor with nothing left to catch up: whether the ring still held
  the frames, had lost them, or held too many. If it is ahead, as after the host has built the
  session's projection anew within the epoch, nothing is replayed and the session stays at its own
  cursor, not marked as catching up.
\<close>

theorem replay_catches_up:
  assumes reach: "(host_step digest compare)\<^sup>*\<^sup>* (newSessionProjection digest host rcd ep n) h"
    and ready: "snapshot_ready digest h" and ok: "client_ok config s"
    and v: "client_view (key host (sr_sessionId rcd)) s = (Some c, False)"
    and c: "epoch c = epoch (hp_cursor h) \<Longrightarrow> 0 \<le> seq c"
  shows "\<exists>fs. replay digest c h = Some (Inr fs) \<and>
    client_view (key host (sr_sessionId rcd)) (fold (client_feed pl config) fs s) =
      (Some (if epoch c = epoch (hp_cursor h) \<and> seq (hp_cursor h) < seq c then c else hp_cursor h), False) \<and>
    (epoch c = epoch (hp_cursor h) \<and> seq (hp_cursor h) < seq c \<longrightarrow> fs = [])"
proof -
  have ring: "ring_ok h" and adv: "advanced (newSessionProjection digest host rcd ep n) h"
    using host_steps_ring [OF reach new_projection_ring] by simp_all
  have ids: "hp_hostId h = host" "hp_sessionId h = sr_sessionId rcd"
    using adv by (simp_all add: advanced_def newSessionProjection_def Let_def)
  obtain fs where fs: "replay digest c h = Some (Inr fs)" "leads_to c fs (resumed c (hp_cursor h))"
      "list_all (frame_of host (sr_sessionId rcd)) fs" "resumed c (hp_cursor h) = hp_cursor h \<or> fs = []"
    using replay_resumes [OF ring ready, of c] c unfolding ids by blast
  have "epoch c = epoch (hp_cursor h) \<and> seq (hp_cursor h) < seq c \<Longrightarrow> fs = []" using fs(4) by (auto simp: resumed_def)
  with client.leads [OF ok fs(3) v fs(2), of pl] fs(1) show ?thesis unfolding resumed_def by blast
qed

text \<open>
  C3: Attaching loses nothing while the host moves on. The host prepares the frames for an attach,
  with or without a cursor, then runs any number of its methods before it completes the output with
  what happened since and with the agent frames of the session. The completed output brings the
  client's session to the host's later cursor, with nothing left to catch up. This is for a host
  that is ready to build a snapshot both times and a client whose warm-session list and session map
  agree. With a cursor, the cursor is the one the client's session stands at, the session is not
  catching up, and within the host's epoch the cursor is not negative and not ahead of the host.
  Without a cursor, the client's session has none, one of another epoch, or one behind the host's;
  it may be catching up.
\<close>

theorem attach_loses_nothing:
  assumes reach: "(host_step digest compare)\<^sup>*\<^sup>* (newSessionProjection digest host rcd ep n) h"
    and later: "(host_step digest compare)\<^sup>*\<^sup>* h h'"
    and ready: "snapshot_ready digest h" "snapshot_ready digest h'" and ok: "client_ok config s"
    and agents: "list_all (session_agent_frame host (sr_sessionId rcd)) subagents"
    and co: "case co of
        None \<Rightarrow> ahead (hp_cursor h) (fst (client_view (key host (sr_sessionId rcd)) s))
      | Some c \<Rightarrow> client_view (key host (sr_sessionId rcd)) s = (Some c, False) \<and>
          (epoch c = epoch (hp_cursor h) \<longrightarrow> 0 \<le> seq c \<and> seq c \<le> seq (hp_cursor h))"
  shows "\<exists>prepared fs. prepareAttachOutput digest co h = Some (Inr prepared) \<and>
    completeAttachOutput digest prepared subagents h' = Some (Inr fs) \<and>
    client_view (key host (sr_sessionId rcd)) (fold (client_feed pl config) fs s) = (Some (hp_cursor h'), False)"
proof -
  let ?k = "key host (sr_sessionId rcd)" and ?feed = "client_feed pl config"
  have ring: "ring_ok h" and adv: "advanced (newSessionProjection digest host rcd ep n) h"
    using host_steps_ring [OF reach new_projection_ring] by simp_all
  have ring': "ring_ok h'" and adv': "advanced h h'" using host_steps_ring [OF later ring] by simp_all
  have ids: "hp_hostId h = host" "hp_sessionId h = sr_sessionId rcd" "hp_hostId h' = host" "hp_sessionId h' = sr_sessionId rcd"
    using adv adv' by (simp_all add: advanced_def newSessionProjection_def Let_def)
  obtain first where first: "prepareAttachOutput digest co h = Some (Inr (first, hp_cursor h))" "client_ok config (fold ?feed first s)"
    "client_view ?k (fold ?feed first s) = (Some (hp_cursor h), False)"
  proof (cases co)
    case None
    obtain sf where sf: "host_snapshot digest h = Some (Inr (FSnapshot sf))" "sf_cursor sf = hp_cursor h" "frame_of host (sr_sessionId rcd) (FSnapshot sf)"
      using host_snapshot_ready [OF ready(1)] ids by auto
    have "client_view ?k (fold ?feed [FSnapshot sf] s) = (Some (hp_cursor h), False)"
      "client_ok config (fold ?feed [FSnapshot sf] s)"
      using client.view_snapshot [OF ok sf(3), of pl] client.ok_feed [OF ok sf(3), of pl] co sf(2) None by simp_all
    then show ?thesis using that [of "[FSnapshot sf]"] sf None by (simp add: prepareAttachOutput_def bind_run_def)
  next
    case (Some c)
    obtain fs where fs: "replay digest c h = Some (Inr fs)" "leads_to c fs (hp_cursor h)" "list_all (frame_of host (sr_sessionId rcd)) fs"
      using replay_leads_to [OF ring ready(1), of c] co Some unfolding ids by auto
    have "client_view ?k (fold ?feed fs s) = (Some (hp_cursor h), False)" "client_ok config (fold ?feed fs s)"
      using client.leads [OF ok fs(3) _ fs(2), of pl] co Some by simp_all
    then show ?thesis using that [of fs] fs Some by (simp add: prepareAttachOutput_def bind_run_def)
  qed
  have "0 \<le> seq (hp_cursor h)" "seq (hp_cursor h) \<le> seq (hp_cursor h')"
    using ring_seq [OF ring] adv' by (simp_all add: advanced_def)
  then obtain fs where fs: "replay digest (hp_cursor h) h' = Some (Inr fs)" "leads_to (hp_cursor h) fs (hp_cursor h')"
      "list_all (frame_of host (sr_sessionId rcd)) fs"
    using replay_leads_to [OF ring' ready(2), of "hp_cursor h"] unfolding ids by blast
  from client.leads [OF first(2) fs(3) first(3) fs(2), of pl]
  have "client_view ?k (fold ?feed (first @ fs) s) = (Some (hp_cursor h'), False)" "client_ok config (fold ?feed (first @ fs) s)" by simp_all
  with agent_frames_keep_view [OF _ agents, of config "fold ?feed (first @ fs) s" pl]
  have "client_view ?k (fold ?feed (first @ fs @ subagents) s) = (Some (hp_cursor h'), False)" by simp
  moreover have "completeAttachOutput digest (first, hp_cursor h) subagents h' = Some (Inr (first @ fs @ subagents))"
    using fs(1) by (simp add: completeAttachOutput_def bind_run_def)
  ultimately show ?thesis using first(1) by blast
qed

subsection \<open>Examples\<close>

definition follow_platform :: platform where
  "follow_platform = \<lparr>parse_url = \<lambda>_. None, localeCompare = \<lambda>a b. 0\<rparr>"

definition follow_record :: session_record where
  "follow_record = \<lparr>sr_sessionId = js ''s'', sr_projectId = js ''p'', sr_projectName = None, sr_title = js ''t'',
     sr_updatedAt = js ''now'', sr_status = js ''idle'', sr_archivedAt = None, sr_model = None, sr_thinking = None,
     sr_mode = None, sr_runtime = JUndef, sr_entries = []\<rparr>"

definition follow_host :: host_projection where
  "follow_host = newSessionProjection zero_digest (js ''h'') follow_record (js ''e'') 4"

definition follow_host_later :: host_projection where
  "follow_host_later = fst (appendEvent (JObj []) follow_host)"

definition follow_start :: snapshot_frame where
  "follow_start = \<lparr>sf_cursor = \<lparr>epoch = js ''e'', seq = 0\<rparr>, sf_revision = js ''r'', sf_hostId = js ''h'', sf_sessionId = js ''s'', sf_entries = []\<rparr>"

definition follow_client :: snapshot where
  "follow_client = client_feed follow_platform default_options (FSnapshot follow_start) createProjectionSnapshot"

definition follow_agent :: agent_frame where
  "follow_agent = \<lparr>gt_hostId = js ''h'', gt_sessionId = js ''s'', gt_agentId = js ''a'', gt_state = js ''running'',
     gt_progress = JUndef, gt_detail = JUndef\<rparr>"

lemma empty_client_ok: "client_ok default_options createProjectionSnapshot"
  using createProjectionSnapshot_ok [of default_options] by (simp add: client_ok_def caps_ok_default snapshot_ok_def)

lemma follow_client_view:
  "client_view (key (js ''h'') (js ''s'')) follow_client = (Some \<lparr>epoch = js ''e'', seq = 0\<rparr>, False)"
  "client_ok default_options follow_client"
  using client.view_snapshot [OF empty_client_ok, of "js ''h''" "js ''s''" follow_start follow_platform]
    client.ok_feed [OF empty_client_ok, of "js ''h''" "js ''s''" "FSnapshot follow_start" follow_platform]
  by (simp_all add: follow_client_def follow_start_def ahead_def client_view_def session_view_def createProjectionSnapshot_def)

lemma follow_host_facts:
  "(host_step zero_digest (\<lambda>a b. 0))\<^sup>*\<^sup>* follow_host follow_host_later"
  "snapshot_ready zero_digest follow_host" "snapshot_ready zero_digest follow_host_later"
  "hp_cursor follow_host = \<lparr>epoch = js ''e'', seq = 0\<rparr>" "hp_cursor follow_host_later = \<lparr>epoch = js ''e'', seq = 1\<rparr>"
proof -
  show "(host_step zero_digest (\<lambda>a b. 0))\<^sup>*\<^sup>* follow_host follow_host_later"
    unfolding follow_host_later_def by (intro r_into_rtranclp host_step.intros)
  show "snapshot_ready zero_digest follow_host" "snapshot_ready zero_digest follow_host_later"
    by (simp_all add: snapshot_ready_def snapshot_input_ok_def hex_zero_digest sample_wire_ids follow_host_later_def follow_host_def
        appendEvent_def appendFrame_def nextCursor_def newSessionProjection_def follow_record_def Let_def get_prop_JObj jm_get_Cons
        jm_of_entries_def jm_values_def prior_omitted_def text_of_def)
      (simp_all add: js_def)
  show "hp_cursor follow_host = \<lparr>epoch = js ''e'', seq = 0\<rparr>" "hp_cursor follow_host_later = \<lparr>epoch = js ''e'', seq = 1\<rparr>"
    by (simp_all add: follow_host_later_def follow_host_def appendEvent_def appendFrame_def nextCursor_def newSessionProjection_def Let_def)
qed

theorem reducer_refines_follow_witness:
  "\<exists>x. applyProjectionInput follow_platform createProjectionSnapshot (FSnapshot follow_start) default_options = Inr x \<and>
    client_view (key (js ''h'') (js ''s'')) (or_same createProjectionSnapshot x) =
      follow (FSnapshot follow_start) (client_view (key (js ''h'') (js ''s'')) createProjectionSnapshot)"
  using reducer_refines_follow [OF empty_client_ok, of "js ''h''" "js ''s''" "FSnapshot follow_start" follow_platform]
  by (auto simp: follow_start_def)

theorem replay_catches_up_witness:
  "client_view (key (js ''h'') (js ''s'')) follow_client = (Some \<lparr>epoch = js ''e'', seq = 0\<rparr>, False) \<and>
   (\<exists>fs. replay zero_digest \<lparr>epoch = js ''e'', seq = 0\<rparr> follow_host_later = Some (Inr fs) \<and>
     client_view (key (js ''h'') (js ''s'')) (fold (client_feed follow_platform default_options) fs follow_client) =
       (Some \<lparr>epoch = js ''e'', seq = 1\<rparr>, False))"
  using replay_catches_up [where digest = zero_digest and host = "js ''h''" and rcd = follow_record and ep = "js ''e''" and n = 4 and s = follow_client
      and c = "\<lparr>epoch = js ''e'', seq = 0\<rparr>" and pl = follow_platform, folded follow_host_def, OF follow_host_facts(1,3) follow_client_view(2)]
    follow_client_view(1) follow_host_facts(5)
  by (simp add: follow_record_def)

theorem attach_loses_nothing_witness:
  "\<exists>prepared fs. prepareAttachOutput zero_digest None follow_host = Some (Inr prepared) \<and>
    completeAttachOutput zero_digest prepared [FAgent follow_agent] follow_host_later = Some (Inr fs) \<and>
    client_view (key (js ''h'') (js ''s'')) (fold (client_feed follow_platform default_options) fs createProjectionSnapshot) =
      (Some \<lparr>epoch = js ''e'', seq = 1\<rparr>, False)"
proof -
  have "ahead c (fst (client_view k createProjectionSnapshot))" for c k
    by (simp add: ahead_def client_view_def session_view_def createProjectionSnapshot_def)
  then show ?thesis
    using attach_loses_nothing [where digest = zero_digest and host = "js ''h''" and rcd = follow_record and ep = "js ''e''" and n = 4
        and s = createProjectionSnapshot and co = None and subagents = "[FAgent follow_agent]" and pl = follow_platform, folded follow_host_def,
        OF rtranclp.rtrancl_refl follow_host_facts(1-3) empty_client_ok]
    by (simp add: follow_host_facts follow_record_def follow_agent_def)
qed

end
