(* ===== verification/CursorJournal.thy ===== *)
theory CursorJournal
  imports WireGuards
begin

text \<open>
  The client's durable cursor journal, from omp-client-cursor.ts: a bounded map from sessions to
  the last cursor seen, and one serialized queue of saves per session. A drain runs synchronously
  until it awaits a save; \<open>settle_save\<close> is its continuation when that save has finished. The queue
  of a session is in the map exactly while its drain runs. The promises of the drains are numbers,
  handed out in order. \<open>sq_flight\<close> and \<open>sq_drain\<close> are the record the drain awaits and its promise,
  \<open>j_writes\<close> lists the records handed to the store and \<open>j_stored\<close> those whose save succeeded, in
  order, and \<open>j_errors\<close> counts the storage errors emitted. A save
  that fails rejects its promise, and emitting an error is taken not to throw.
\<close>

definition max_saved :: nat where "max_saved = 128"

definition sessionKey :: "jsstr \<Rightarrow> jsstr \<Rightarrow> jsstr" where
  "sessionKey host session = host @ nul @ session"

record cursor_record =
  jr_hostId :: jsstr
  jr_sessionId :: jsstr
  jr_cursor :: cursor

record save_queue =
  sq_barrier :: "cursor_record option"
  sq_latest :: "cursor_record option"
  sq_flight :: "cursor_record option"
  sq_drain :: nat

record journal =
  j_records :: "(jsstr, cursor_record) jsmap"
  j_bySession :: "(jsstr, cursor) jsmap"
  j_queues :: "(jsstr, save_queue) jsmap"
  j_saved :: "(jsstr, cursor) jsmap"
  j_drains :: "nat list"
  j_loading :: bool
  j_store :: bool
  j_nextDrain :: nat
  j_writes :: "cursor_record list"
  j_stored :: "cursor_record list"
  j_errors :: nat

definition newCursorJournal :: "bool \<Rightarrow> journal" where
  "newCursorJournal store =
     \<lparr>j_records = [], j_bySession = [], j_queues = [], j_saved = [], j_drains = [], j_loading = False, j_store = store,
      j_nextDrain = 0, j_writes = [], j_stored = [], j_errors = 0\<rparr>"

definition pendingSaves :: "journal \<Rightarrow> nat" where
  "pendingSaves j = length (j_drains j)"

definition resetForEpoch :: "jsstr \<Rightarrow> journal \<Rightarrow> journal" where
  "resetForEpoch ep j =
     fold (\<lambda>(k, rcd) j.
         if epoch (jr_cursor rcd) = ep then j
         else j\<lparr>j_records := jm_delete k (j_records j), j_bySession := jm_delete k (j_bySession j),
                j_saved := jm_delete k (j_saved j)\<rparr>)
       (j_records j) j"

subsection \<open>Saves\<close>

text \<open>A cursor that is already saved, or an older one of the same epoch, is not written again.\<close>

definition already_saved :: "journal \<Rightarrow> jsstr \<Rightarrow> cursor \<Rightarrow> bool" where
  "already_saved j k c \<longleftrightarrow>
     (case jm_get (j_saved j) k of None \<Rightarrow> False | Some s \<Rightarrow> epoch s = epoch c \<and> seq s \<ge> seq c)"

definition start_save :: "jsstr \<Rightarrow> save_queue \<Rightarrow> cursor_record \<Rightarrow> journal \<Rightarrow> journal" where
  "start_save k q rcd j =
     j\<lparr>j_queues := jm_set k (q\<lparr>sq_flight := Some rcd\<rparr>) (j_queues j), j_writes := j_writes j @ [rcd]\<rparr>"

text \<open>
  The loop of a drain, from its head until it awaits a save or has ended: the second component
  says that it has ended, with the queue removed by its \<open>finally\<close> block.
\<close>

definition drain_loop :: "jsstr \<Rightarrow> save_queue \<Rightarrow> journal \<Rightarrow> journal \<times> bool" where
  "drain_loop k q j =
     (case sq_barrier q of
        Some rcd \<Rightarrow>
          (start_save k (q\<lparr>sq_barrier := None\<rparr>) rcd (j\<lparr>j_saved := jm_delete k (j_saved j)\<rparr>), False)
      | None \<Rightarrow>
          (case sq_latest q of
             Some rcd \<Rightarrow>
               if already_saved j k (jr_cursor rcd) then (j\<lparr>j_queues := jm_delete k (j_queues j)\<rparr>, True)
               else (start_save k (q\<lparr>sq_latest := None\<rparr>) rcd j, False)
           | None \<Rightarrow> (j\<lparr>j_queues := jm_delete k (j_queues j)\<rparr>, True)))"

text \<open>
  The promise of a drain is added to the set once the call has returned. A loop that ended before
  that has removed nothing from the set, since its promise was not assigned yet.
\<close>

definition drain :: "jsstr \<Rightarrow> save_queue \<Rightarrow> journal \<Rightarrow> journal" where
  "drain k q j =
     (let n = j_nextDrain j;
          (j, ended) = drain_loop k (q\<lparr>sq_drain := n\<rparr>) (j\<lparr>j_nextDrain := n + 1\<rparr>)
      in j\<lparr>j_drains := j_drains j @ [n]\<rparr>)"

definition settle_save :: "jsstr \<Rightarrow> bool \<Rightarrow> journal \<Rightarrow> journal" where
  "settle_save k saved_ok j =
     (case jm_get (j_queues j) k of
        None \<Rightarrow> j
      | Some q \<Rightarrow>
          (case sq_flight q of
             None \<Rightarrow> j
           | Some rcd \<Rightarrow>
               let j = (if saved_ok then j\<lparr>j_saved := jm_set k (jr_cursor rcd) (j_saved j), j_stored := j_stored j @ [rcd]\<rparr>
                        else j\<lparr>j_errors := j_errors j + 1\<rparr>);
                   (j, ended) = drain_loop k (q\<lparr>sq_flight := None\<rparr>) j
               in if ended then j\<lparr>j_drains := filter (\<lambda>n. n \<noteq> sq_drain q) (j_drains j)\<rparr> else j))"

text \<open>
  Waiting for the saves waits for the promises in the set at the time of the call; the wait is over
  when none of them belongs to a drain that still runs.
\<close>

definition waitForSaves :: "journal \<Rightarrow> nat list" where
  "waitForSaves j = j_drains j"

definition saves_awaited :: "nat list \<Rightarrow> journal \<Rightarrow> bool" where
  "saves_awaited promises j \<longleftrightarrow> list_all (\<lambda>(k, q). sq_drain q \<notin> set promises) (j_queues j)"

subsection \<open>Remembering a cursor\<close>

definition evict_oldest_record :: "journal \<Rightarrow> journal" where
  "evict_oldest_record j =
     (if length (j_records j) > max_saved then
        (case j_records j of
           [] \<Rightarrow> j
         | (oldest, _) # _ \<Rightarrow>
             j\<lparr>j_records := jm_delete oldest (j_records j), j_bySession := jm_delete oldest (j_bySession j),
               j_saved := jm_delete oldest (j_saved j)\<rparr>)
      else j)"

definition enqueue_save :: "jsstr \<Rightarrow> cursor_record \<Rightarrow> bool \<Rightarrow> journal \<Rightarrow> journal" where
  "enqueue_save k rcd authoritative j =
     (let q = (case jm_get (j_queues j) k of
                 Some q \<Rightarrow> q | None \<Rightarrow> \<lparr>sq_barrier = None, sq_latest = None, sq_flight = None, sq_drain = 0\<rparr>);
          running = jm_has (j_queues j) k;
          q = (if authoritative then q\<lparr>sq_barrier := Some rcd, sq_latest := None\<rparr> else q\<lparr>sq_latest := Some rcd\<rparr>);
          j = j\<lparr>j_queues := jm_set k q (j_queues j)\<rparr>
      in if running then j else drain k q j)"

definition remember :: "cursor_record \<Rightarrow> bool \<Rightarrow> journal \<Rightarrow> journal decoded" where
  "remember rcd authoritative j =
     (case decodeCursor (cursor_val (jr_cursor rcd)) of
        Inl e \<Rightarrow> Inr j
      | Inr c \<Rightarrow>
          bind_ok (id_guard (JStr (jr_hostId rcd))) (\<lambda>host.
          bind_ok (id_guard (JStr (jr_sessionId rcd))) (\<lambda>session.
          let k = sessionKey host session;
              normalized = \<lparr>jr_hostId = host, jr_sessionId = session, jr_cursor = c\<rparr>;
              j = evict_oldest_record (j\<lparr>j_records := jm_set k normalized (jm_delete k (j_records j)),
                    j_bySession := jm_set k c (j_bySession j)\<rparr>)
          in if \<not> j_store j then Inr j else Inr (enqueue_save k normalized authoritative j))))"

subsection \<open>Loading\<close>

definition load_record :: "jsval \<Rightarrow> journal \<Rightarrow> journal" where
  "load_record v j =
     (case bind_ok (id_guard (get_prop v ''hostId'')) (\<lambda>host.
           bind_ok (id_guard (get_prop v ''sessionId'')) (\<lambda>session.
           bind_ok (decodeCursor (get_prop v ''cursor'')) (\<lambda>c. Inr (host, session, c)))) of
        Inl e \<Rightarrow> j
      | Inr (host, session, c) \<Rightarrow>
          let k = sessionKey host session
          in j\<lparr>j_records := jm_set k \<lparr>jr_hostId = host, jr_sessionId = session, jr_cursor = c\<rparr> (j_records j),
               j_bySession := jm_set k c (j_bySession j)\<rparr>)"

text \<open>
  One load at a time asks the store; its result, or \<open>None\<close> when the store failed, arrives later.
\<close>

definition load :: "journal \<Rightarrow> journal" where
  "load j = (if \<not> j_store j \<or> j_loading j then j else j\<lparr>j_loading := True\<rparr>)"

definition load_records :: "jsval option \<Rightarrow> journal \<Rightarrow> journal" where
  "load_records v j =
     (case v of
        Some (JArr rs) \<Rightarrow> fold load_record (take max_saved rs) j
      | _ \<Rightarrow> j\<lparr>j_errors := j_errors j + 1\<rparr>)\<lparr>j_loading := False\<rparr>"

subsection \<open>What is saved\<close>

definition record_key :: "cursor_record \<Rightarrow> jsstr" where
  "record_key rcd = sessionKey (jr_hostId rcd) (jr_sessionId rcd)"

text \<open>A record as the client makes them: its parts pass the wire guards.\<close>

definition valid_record :: "cursor_record \<Rightarrow> bool" where
  "valid_record rcd \<longleftrightarrow>
     decodeCursor (cursor_val (jr_cursor rcd)) = Inr (jr_cursor rcd) \<and>
     id_guard (JStr (jr_hostId rcd)) = Inr (jr_hostId rcd) \<and> id_guard (JStr (jr_sessionId rcd)) = Inr (jr_sessionId rcd)"

definition writes_of :: "jsstr \<Rightarrow> journal \<Rightarrow> cursor_record list" where
  "writes_of k j = filter (\<lambda>rcd. record_key rcd = k) (j_writes j)"

definition last_cursor :: "cursor_record list \<Rightarrow> cursor option" where
  "last_cursor rs = (if rs = [] then None else Some (jr_cursor (last rs)))"

definition stored_of :: "jsstr \<Rightarrow> journal \<Rightarrow> cursor_record list" where
  "stored_of k j = filter (\<lambda>rcd. record_key rcd = k) (j_stored j)"

text \<open>The newest record of a queue: what its session's cursor is.\<close>

definition newest :: "save_queue \<Rightarrow> cursor_record option" where
  "newest q = (case sq_latest q of Some r \<Rightarrow> Some r | None \<Rightarrow> (case sq_barrier q of Some r \<Rightarrow> Some r | None \<Rightarrow> sq_flight q))"

text \<open>What the journal holds on the saves of one session: queue, saved cursor, last record handed over, last one stored.\<close>

type_synonym lane = "save_queue option \<times> cursor option \<times> cursor option \<times> cursor option"

definition lane :: "jsstr \<Rightarrow> journal \<Rightarrow> lane" where
  "lane k j = (jm_get (j_queues j) k, jm_get (j_saved j) k, last_cursor (writes_of k j), last_cursor (stored_of k j))"

definition queue_of :: "jsstr \<Rightarrow> save_queue \<Rightarrow> bool" where
  "queue_of k q \<longleftrightarrow>
     (\<forall>r. sq_barrier q = Some r \<or> sq_latest q = Some r \<or> sq_flight q = Some r \<longrightarrow> record_key r = k)"

text \<open>
  The history of a session: its cursors since the last snapshot, the newest first, and whether one
  of its saves has failed. The newest cursor is not behind another one of its epoch.
\<close>

type_synonym history = "cursor list \<times> bool"

definition on_top :: "cursor list \<Rightarrow> bool" where
  "on_top past \<longleftrightarrow> (case past of [] \<Rightarrow> True | c # _ \<Rightarrow> \<forall>p \<in> set past. epoch p = epoch c \<longrightarrow> seq p \<le> seq c)"

fun tracks :: "jsstr \<Rightarrow> history \<Rightarrow> lane \<Rightarrow> bool" where
  "tracks k (past, failed) (qo, saved, written, stored) \<longleftrightarrow>
     (\<forall>s. saved = Some s \<longrightarrow> stored = Some s) \<and>
     (case qo of
        None \<Rightarrow>
          (\<forall>s. saved = Some s \<longrightarrow> s \<in> set past) \<and>
          (case past of [] \<Rightarrow> True | c # _ \<Rightarrow> stored = Some c \<or> failed \<and> written = Some c)
      | Some q \<Rightarrow>
          past \<noteq> [] \<and> queue_of k q \<and> map_option jr_cursor (newest q) = Some (hd past) \<and>
          (\<exists>f. sq_flight q = Some f \<and> written = Some (jr_cursor f) \<and>
            (sq_barrier q = None \<longrightarrow> jr_cursor f \<in> set past \<and> (\<forall>s. saved = Some s \<longrightarrow> s \<in> set past))) \<and>
          (\<forall>b. sq_barrier q = Some b \<longrightarrow> jr_cursor b \<in> set past))"

lemma last_cursor_snoc [simp]: "last_cursor (rs @ [x]) = Some (jr_cursor x)"
  by (simp add: last_cursor_def)

lemma lane_updates [simp]:
  "lane k (j\<lparr>j_drains := a\<rparr>) = lane k j" "lane k (j\<lparr>j_nextDrain := n\<rparr>) = lane k j" "lane k (j\<lparr>j_errors := m\<rparr>) = lane k j"
  "lane k (j\<lparr>j_records := d\<rparr>) = lane k j" "lane k (j\<lparr>j_bySession := e\<rparr>) = lane k j" "lane k (j\<lparr>j_loading := b\<rparr>) = lane k j"
  by (simp_all add: lane_def writes_of_def stored_of_def)

lemma start_save_lane:
  "record_key rcd = k \<Longrightarrow> lane k (start_save k q rcd j) =
     (Some (q\<lparr>sq_flight := Some rcd\<rparr>), jm_get (j_saved j) k, Some (jr_cursor rcd), last_cursor (stored_of k j))"
  "record_key rcd = i \<Longrightarrow> k \<noteq> i \<Longrightarrow> lane k (start_save i q rcd j) = lane k j"
  by (simp_all add: lane_def start_save_def writes_of_def stored_of_def)

lemma drop_saved_lane: "lane k (j\<lparr>j_saved := jm_delete i (j_saved j)\<rparr>) =
    (jm_get (j_queues j) k, if k = i then None else jm_get (j_saved j) k, last_cursor (writes_of k j), last_cursor (stored_of k j))"
  by (simp add: lane_def writes_of_def stored_of_def)

lemma drop_queue_lane: "lane k (j\<lparr>j_queues := jm_delete i (j_queues j)\<rparr>) =
    (if k = i then None else jm_get (j_queues j) k, jm_get (j_saved j) k, last_cursor (writes_of k j), last_cursor (stored_of k j))"
  by (simp add: lane_def writes_of_def stored_of_def)

lemma loop_other_lane: "queue_of i q \<Longrightarrow> k \<noteq> i \<Longrightarrow> lane k (fst (drain_loop i q j)) = lane k j"
  by (simp add: drain_loop_def queue_of_def start_save_lane drop_saved_lane drop_queue_lane split: option.splits) (simp add: lane_def)

text \<open>The loop of a queue whose save has just settled, or that was just started.\<close>

lemma loop_tracks:
  assumes q: "queue_of k q" "sq_flight q = None" "past \<noteq> []" and top: "on_top past"
    and saved: "\<And>s. jm_get (j_saved j) k = Some s \<Longrightarrow> last_cursor (stored_of k j) = Some s \<and> (s \<in> set past \<or> sq_barrier q \<noteq> None)"
    and new: "case newest q of Some r \<Rightarrow> jr_cursor r = hd past
       | None \<Rightarrow> last_cursor (stored_of k j) = Some (hd past) \<or> failed \<and> last_cursor (writes_of k j) = Some (hd past)"
    and bar: "\<And>b. sq_barrier q = Some b \<Longrightarrow> jr_cursor b \<in> set past"
  shows "tracks k (past, failed) (lane k (fst (drain_loop k q j)))"
proof -
  obtain c cs where past: "past = c # cs" using q(3) by (cases past) auto
  show ?thesis
  proof (cases "sq_barrier q")
    case (Some b)
    then have b: "record_key b = k" "jr_cursor b \<in> set past" using q(1) bar by (simp_all add: queue_of_def)
    have "map_option jr_cursor (newest (q\<lparr>sq_barrier := None, sq_flight := Some b\<rparr>)) = Some c"
      using new Some past by (auto simp: newest_def split: option.splits)
    then show ?thesis using q b Some past
      by (auto simp: drain_loop_def start_save_lane queue_of_def)
  next
    case None
    show ?thesis
    proof (cases "sq_latest q")
      case (Some l)
      then have l: "record_key l = k" "jr_cursor l = c" using q(1) new None past by (simp_all add: queue_of_def newest_def)
      show ?thesis
      proof (cases "already_saved j k (jr_cursor l)")
        case True
        then obtain s where s: "jm_get (j_saved j) k = Some s" "epoch s = epoch c" "seq s \<ge> seq c"
          using l(2) by (auto simp: already_saved_def split: option.splits)
        then have "s \<in> set past" using saved None by blast
        then have "seq s \<le> seq c" using top s(2) by (auto simp: on_top_def past)
        then have "s = c" using s by simp
        then show ?thesis using True None Some s(1) saved past \<open>s \<in> set past\<close> by (simp add: drain_loop_def drop_queue_lane)
      next
        case False
        then show ?thesis using q None Some l saved past
          by (auto simp: drain_loop_def start_save_lane queue_of_def newest_def)
      qed
    next
      case no: None
      then have "last_cursor (stored_of k j) = Some c \<or> failed \<and> last_cursor (writes_of k j) = Some c"
        using new None q(2) past by (simp add: newest_def)
      then show ?thesis using None no saved past by (auto simp: drain_loop_def drop_queue_lane)
    qed
  qed
qed

lemma drain_lane:
  "lane i (drain k q j) = lane i (fst (drain_loop k (q\<lparr>sq_drain := j_nextDrain j\<rparr>) (j\<lparr>j_nextDrain := j_nextDrain j + 1\<rparr>)))"
  by (simp add: drain_def Let_def split: prod.split)

lemma settle_lane:
  "jm_get (j_queues j) k = Some q \<Longrightarrow> sq_flight q = Some f \<Longrightarrow> lane i (settle_save k ok j) =
     lane i (fst (drain_loop k (q\<lparr>sq_flight := None\<rparr>)
       (if ok then j\<lparr>j_saved := jm_set k (jr_cursor f) (j_saved j), j_stored := j_stored j @ [f]\<rparr> else j\<lparr>j_errors := j_errors j + 1\<rparr>)))"
  by (simp add: settle_save_def Let_def split: prod.split)

lemma settle_tracks:
  assumes t: "tracks k (past, failed) (lane k j)" and top: "on_top past"
  shows "tracks k (past, failed \<or> \<not> ok) (lane k (settle_save k ok j))"
proof (cases "jm_get (j_queues j) k")
  case None
  then show ?thesis using t by (auto simp: settle_save_def lane_def split: list.splits)
next
  case (Some q)
  then obtain f where f: "past \<noteq> []" "queue_of k q" "map_option jr_cursor (newest q) = Some (hd past)" "sq_flight q = Some f"
    "last_cursor (writes_of k j) = Some (jr_cursor f)" "sq_barrier q = None \<Longrightarrow> jr_cursor f \<in> set past"
    "\<And>s. sq_barrier q = None \<Longrightarrow> jm_get (j_saved j) k = Some s \<Longrightarrow> s \<in> set past"
    "\<And>b. sq_barrier q = Some b \<Longrightarrow> jr_cursor b \<in> set past"
    "\<And>s. jm_get (j_saved j) k = Some s \<Longrightarrow> last_cursor (stored_of k j) = Some s"
    using t by (auto simp: lane_def)
  have key: "record_key f = k" using f(2,4) by (simp add: queue_of_def)
  let ?j = "if ok then j\<lparr>j_saved := jm_set k (jr_cursor f) (j_saved j), j_stored := j_stored j @ [f]\<rparr> else j\<lparr>j_errors := j_errors j + 1\<rparr>"
  have new: "newest (q\<lparr>sq_flight := None\<rparr>) = None \<Longrightarrow> jr_cursor f = hd past" "newest (q\<lparr>sq_flight := None\<rparr>) = Some r \<Longrightarrow> jr_cursor r = hd past" for r
    using f(3,4) by (auto simp: newest_def split: option.splits)
  have j: "last_cursor (stored_of k ?j) = (if ok then Some (jr_cursor f) else last_cursor (stored_of k j))"
    "last_cursor (writes_of k ?j) = Some (jr_cursor f)" "jm_get (j_saved ?j) k = (if ok then Some (jr_cursor f) else jm_get (j_saved j) k)"
    using f(5) key by (simp_all add: stored_of_def writes_of_def)
  have "tracks k (past, failed \<or> \<not> ok) (lane k (fst (drain_loop k (q\<lparr>sq_flight := None\<rparr>) ?j)))"
  proof (rule loop_tracks [OF _ _ f(1) top])
    show "last_cursor (stored_of k ?j) = Some s \<and> (s \<in> set past \<or> sq_barrier (q\<lparr>sq_flight := None\<rparr>) \<noteq> None)" if "jm_get (j_saved ?j) k = Some s" for s
      using that f(6,7,9) unfolding j by (auto split: if_splits)
    show "case newest (q\<lparr>sq_flight := None\<rparr>) of Some r \<Rightarrow> jr_cursor r = hd past
       | None \<Rightarrow> last_cursor (stored_of k ?j) = Some (hd past) \<or> (failed \<or> \<not> ok) \<and> last_cursor (writes_of k ?j) = Some (hd past)"
      using new unfolding j by (auto split: option.split)
  qed (use f(2,8) in \<open>simp_all add: queue_of_def\<close>)
  then show ?thesis by (simp only: settle_lane [OF Some f(4)])
qed

lemma settle_other_lane:
  assumes "\<And>q. jm_get (j_queues j) i = Some q \<Longrightarrow> queue_of i q" "k \<noteq> i"
  shows "lane k (settle_save i ok j) = lane k j"
proof (cases "\<exists>q f. jm_get (j_queues j) i = Some q \<and> sq_flight q = Some f")
  case True
  then obtain q f where q: "jm_get (j_queues j) i = Some q" "sq_flight q = Some f" by blast
  then have "queue_of i (q\<lparr>sq_flight := None\<rparr>)" "record_key f = i" using assms(1) by (simp_all add: queue_of_def)
  then show ?thesis using assms(2)
    by (simp add: settle_lane [OF q] loop_other_lane) (simp add: lane_def writes_of_def stored_of_def)
qed (auto simp: settle_save_def split: option.split)

subsection \<open>Remembering a cursor is queueing its save\<close>

definition remembered :: "cursor_record \<Rightarrow> journal \<Rightarrow> journal" where
  "remembered rcd j =
     j\<lparr>j_records := jm_set (record_key rcd) rcd (jm_delete (record_key rcd) (j_records j)),
       j_bySession := jm_set (record_key rcd) (jr_cursor rcd) (j_bySession j)\<rparr>"

lemma record_eta: "\<lparr>jr_hostId = jr_hostId rcd, jr_sessionId = jr_sessionId rcd, jr_cursor = jr_cursor rcd\<rparr> = rcd"
  by simp

lemma remember_valid:
  "valid_record rcd \<Longrightarrow> remember rcd b j =
     Inr (let j = evict_oldest_record (remembered rcd j) in if j_store j then enqueue_save (record_key rcd) rcd b j else j)"
  by (simp add: remember_def valid_record_def bind_ok_def Let_def remembered_def record_key_def record_eta)

definition queued :: "cursor_record \<Rightarrow> bool \<Rightarrow> save_queue \<Rightarrow> save_queue" where
  "queued rcd b q = (if b then q\<lparr>sq_barrier := Some rcd, sq_latest := None\<rparr> else q\<lparr>sq_latest := Some rcd\<rparr>)"

lemma enqueue_lane:
  "jm_get (j_queues j) k = None \<Longrightarrow> enqueue_save k rcd b j =
     drain k (queued rcd b \<lparr>sq_barrier = None, sq_latest = None, sq_flight = None, sq_drain = 0\<rparr>)
       (j\<lparr>j_queues := jm_set k (queued rcd b \<lparr>sq_barrier = None, sq_latest = None, sq_flight = None, sq_drain = 0\<rparr>) (j_queues j)\<rparr>)"
  "jm_get (j_queues j) k = Some q \<Longrightarrow> enqueue_save k rcd b j = j\<lparr>j_queues := jm_set k (queued rcd b q) (j_queues j)\<rparr>"
  by (simp_all add: enqueue_save_def jm_has_get Let_def queued_def)

text \<open>The history after a record; a snapshot starts it anew.\<close>

definition recorded :: "cursor_record \<Rightarrow> bool \<Rightarrow> cursor list \<Rightarrow> cursor list" where
  "recorded rcd b past = (if b then [jr_cursor rcd] else jr_cursor rcd # past)"

lemma recorded_simps [simp]: "recorded rcd b past \<noteq> []" "hd (recorded rcd b past) = jr_cursor rcd" "jr_cursor rcd \<in> set (recorded rcd b past)"
  "recorded rcd False past = jr_cursor rcd # past"
  by (simp_all add: recorded_def)

lemma enqueue_tracks:
  assumes t: "tracks k (past, failed) (lane k j)" and top: "on_top (recorded rcd b past)" and k: "record_key rcd = k"
  shows "tracks k (recorded rcd b past, failed) (lane k (enqueue_save k rcd b j))"
proof (cases "jm_get (j_queues j) k")
  case None
  let ?q = "queued rcd b \<lparr>sq_barrier = None, sq_latest = None, sq_flight = None, sq_drain = 0\<rparr>"
  have saved: "last_cursor (stored_of k j) = Some s \<and> s \<in> set past" if "jm_get (j_saved j) k = Some s" for s
    using t None that by (auto simp: lane_def)
  have "tracks k (recorded rcd b past, failed)
      (lane k (fst (drain_loop k (?q\<lparr>sq_drain := n\<rparr>) (j\<lparr>j_queues := jm_set k ?q (j_queues j), j_nextDrain := m\<rparr>))))" for n m
    by (rule loop_tracks [OF _ _ _ top])
      (use saved k in \<open>auto simp: queued_def queue_of_def newest_def stored_of_def writes_of_def split: if_splits\<close>)
  then show ?thesis by (simp add: enqueue_lane(1) [OF None] drain_lane)
next
  case (Some q)
  then show ?thesis using t k
    by (cases b) (auto simp: enqueue_lane(2) [OF Some] lane_def writes_of_def stored_of_def queued_def queue_of_def newest_def recorded_def)
qed

lemma enqueue_other_lane:
  assumes "record_key rcd = i" "k \<noteq> i"
  shows "lane k (enqueue_save i rcd b j) = lane k j"
proof (cases "jm_get (j_queues j) i")
  case None
  have "queue_of i ((queued rcd b \<lparr>sq_barrier = None, sq_latest = None, sq_flight = None, sq_drain = 0\<rparr>)\<lparr>sq_drain := n\<rparr>)" for n
    using assms(1) by (simp add: queue_of_def queued_def)
  then show ?thesis using assms(2)
    by (simp add: enqueue_lane(1) [OF None] drain_lane loop_other_lane) (simp add: lane_def writes_of_def stored_of_def)
next
  case (Some q)
  then show ?thesis using assms by (simp add: enqueue_lane(2) [OF Some] lane_def writes_of_def stored_of_def)
qed

text \<open>Forgetting a session, by eviction or with its epoch, at most makes its saves be repeated.\<close>

lemma forget_tracks:
  assumes "tracks k h (lane k j)"
  shows "tracks k h (lane k (j\<lparr>j_records := a, j_bySession := b, j_saved := jm_delete i (j_saved j)\<rparr>))"
proof -
  have "lane k (j\<lparr>j_records := a, j_bySession := b, j_saved := jm_delete i (j_saved j)\<rparr>) =
      (jm_get (j_queues j) k, if k = i then None else jm_get (j_saved j) k, last_cursor (writes_of k j), last_cursor (stored_of k j))"
    by (simp add: lane_def writes_of_def stored_of_def)
  then show ?thesis using assms by (cases h) (auto simp: lane_def split: option.splits list.splits)
qed

lemma evict_tracks: "tracks k h (lane k j) \<Longrightarrow> tracks k h (lane k (evict_oldest_record j))"
  by (auto simp: evict_oldest_record_def forget_tracks split: list.split)

lemma reset_tracks: "tracks k h (lane k j) \<Longrightarrow> tracks k h (lane k (resetForEpoch ep j))"
proof -
  have "tracks k h (lane k j) \<Longrightarrow> tracks k h (lane k (fold (\<lambda>(k, rcd) j.
         if epoch (jr_cursor rcd) = ep then j
         else j\<lparr>j_records := jm_delete k (j_records j), j_bySession := jm_delete k (j_bySession j),
                j_saved := jm_delete k (j_saved j)\<rparr>) rs j))" for rs
    by (induction rs arbitrary: j) (auto simp: forget_tracks)
  then show "tracks k h (lane k j) \<Longrightarrow> ?thesis" by (simp add: resetForEpoch_def)
qed

lemma load_lane: "lane k (load_records v j) = lane k j"
proof -
  have one: "lane k (load_record v j) = lane k j" for v j
    by (simp add: load_record_def Let_def split: sum.split)
  have "lane k (fold load_record vs j) = lane k j" for vs by (induction vs arbitrary: j) (simp_all add: one)
  then show ?thesis by (simp add: load_records_def split: option.split jsval.split)
qed

subsection \<open>Runs of the journal\<close>

datatype journal_event =
    Remembered cursor_record bool
  | Settled jsstr bool
  | EpochReset jsstr
  | LoadStarted
  | Loaded "jsval option"

text \<open>A record with an id that does not pass the guards throws and changes nothing.\<close>

fun journal_step :: "journal_event \<Rightarrow> journal \<Rightarrow> journal" where
  "journal_step (Remembered rcd b) j = (case remember rcd b j of Inl e \<Rightarrow> j | Inr j' \<Rightarrow> j')"
| "journal_step (Settled k ok) j = settle_save k ok j"
| "journal_step (EpochReset ep) j = resetForEpoch ep j"
| "journal_step LoadStarted j = load j"
| "journal_step (Loaded v) j = load_records v j"

text \<open>The records of one session in a run, each with whether it comes from a snapshot.\<close>

fun records_of :: "jsstr \<Rightarrow> journal_event list \<Rightarrow> (cursor_record \<times> bool) list" where
  "records_of k [] = []"
| "records_of k (Remembered rcd b # es) = (if valid_record rcd \<and> record_key rcd = k then (rcd, b) # records_of k es else records_of k es)"
| "records_of k (_ # es) = records_of k es"

text \<open>
  A record that does not come from a snapshot is not behind an earlier record of its epoch, as far
  back as the last snapshot.
\<close>

fun goes_forward :: "cursor list \<Rightarrow> (cursor_record \<times> bool) list \<Rightarrow> bool" where
  "goes_forward past [] \<longleftrightarrow> True"
| "goes_forward past ((rcd, b) # rs) \<longleftrightarrow> on_top (recorded rcd b past) \<and> goes_forward (recorded rcd b past) rs"

definition history_of :: "jsstr \<Rightarrow> journal_event list \<Rightarrow> history" where
  "history_of k es = (fold (\<lambda>(rcd, b). recorded rcd b) (records_of k es) [], Settled k False \<in> set es)"

lemma records_of_append [simp]: "records_of k (es @ fs) = records_of k es @ records_of k fs"
  by (induction es rule: records_of.induct) simp_all

lemma goes_forward_append:
  "goes_forward past (rs @ rs') \<longleftrightarrow> goes_forward past rs \<and> goes_forward (fold (\<lambda>(rcd, b). recorded rcd b) rs past) rs'"
  by (induction past rs rule: goes_forward.induct) simp_all

lemma goes_forward_top: "goes_forward past rs \<Longrightarrow> on_top past \<Longrightarrow> on_top (fold (\<lambda>(rcd, b). recorded rcd b) rs past)"
  by (induction past rs rule: goes_forward.induct) simp_all

lemma invalid_record: "\<not> valid_record rcd \<Longrightarrow> journal_step (Remembered rcd b) j = j"
proof -
  have c: "decodeCursor (cursor_val c) = Inr c' \<Longrightarrow> c' = c" for c c'
    by (auto simp: decodeCursor_def bind_ok_def inputObject_def object_guard_def cursor_val_def get_prop_JObj jm_get_Cons js_simps
        controlFree_Inr safeSeq_def split: sum.splits if_splits)
  have i: "id_guard (JStr x) = Inr y \<Longrightarrow> y = x" for x y by (auto simp: id_guard_def controlFree_Inr)
  assume "\<not> valid_record rcd"
  then show ?thesis using c [of "jr_cursor rcd"] i [of "jr_hostId rcd"] i [of "jr_sessionId rcd"]
    by (auto simp: remember_def valid_record_def bind_ok_def split: sum.splits)
qed

lemma loop_rest [simp]:
  "j_records (fst (drain_loop k q j)) = j_records j" "j_bySession (fst (drain_loop k q j)) = j_bySession j"
  "j_store (fst (drain_loop k q j)) = j_store j"
  "j_drains (fst (drain_loop k q j)) = j_drains j" "j_nextDrain (fst (drain_loop k q j)) = j_nextDrain j"
  by (simp_all add: drain_loop_def start_save_def split: option.splits)

lemma drain_rest: "j_records (drain k q j) = j_records j" "j_bySession (drain k q j) = j_bySession j" "j_store (drain k q j) = j_store j"
  by (simp_all add: drain_def Let_def case_prod_beta)

lemma enqueue_rest:
  "j_records (enqueue_save k rcd b j) = j_records j" "j_bySession (enqueue_save k rcd b j) = j_bySession j"
  "j_store (enqueue_save k rcd b j) = j_store j"
  by (simp_all add: enqueue_save_def drain_rest Let_def)

lemma settle_rest: "j_bySession (settle_save k ok j) = j_bySession j" "j_store (settle_save k ok j) = j_store j"
  using loop_rest(2,3) by (simp_all add: settle_save_def Let_def case_prod_beta split: option.splits)

text \<open>What eviction, an epoch reset and a load leave alone.\<close>

definition save_state :: "journal \<Rightarrow> bool \<times> (jsstr, save_queue) jsmap \<times> nat list \<times> nat" where
  "save_state j = (j_store j, j_queues j, j_drains j, j_nextDrain j)"

lemma forget_save_state: "save_state (evict_oldest_record j) = save_state j" "save_state (remembered rcd j) = save_state j"
  by (simp_all add: evict_oldest_record_def remembered_def save_state_def split: list.split)

lemma reset_rest: "save_state (resetForEpoch ep j) = save_state j"
  "jm_get (j_bySession (resetForEpoch ep j)) k = None \<or> jm_get (j_bySession (resetForEpoch ep j)) k = jm_get (j_bySession j) k"
proof -
  let ?drop = "\<lambda>(k, rcd) j. if epoch (jr_cursor rcd) = ep then j
         else j\<lparr>j_records := jm_delete k (j_records j), j_bySession := jm_delete k (j_bySession j), j_saved := jm_delete k (j_saved j)\<rparr>"
  have "save_state (fold ?drop rs j) = save_state j \<and>
      (jm_get (j_bySession (fold ?drop rs j)) k = None \<or> jm_get (j_bySession (fold ?drop rs j)) k = jm_get (j_bySession j) k)" for rs
  proof (induction rs arbitrary: j)
    case (Cons x rs)
    have "save_state (?drop x j) = save_state j" by (cases x) (simp add: save_state_def)
    then show ?case using Cons.IH [of "?drop x j"] by (cases x) (auto split: if_splits)
  qed simp
  from this [of "j_records j"] show "save_state (resetForEpoch ep j) = save_state j"
    "jm_get (j_bySession (resetForEpoch ep j)) k = None \<or> jm_get (j_bySession (resetForEpoch ep j)) k = jm_get (j_bySession j) k"
    by (simp_all add: resetForEpoch_def)
qed

lemma load_save_state: "save_state (load_records v j) = save_state j"
proof -
  have one: "save_state (load_record v j) = save_state j" for v j
    by (simp add: load_record_def Let_def save_state_def split: sum.split)
  have "save_state (fold load_record vs j) = save_state j" for vs by (induction vs arbitrary: j) (simp_all add: one)
  then show ?thesis by (simp add: load_records_def save_state_def split: option.split jsval.split)
qed

lemma remember_step:
  "valid_record rcd \<Longrightarrow> j_store j \<Longrightarrow>
     journal_step (Remembered rcd b) j = enqueue_save (record_key rcd) rcd b (evict_oldest_record (remembered rcd j))"
  using forget_save_state(1) [of "remembered rcd j"] forget_save_state(2) [of rcd j] by (simp add: remember_valid save_state_def Let_def)

lemma loop_queues:
  "jm_get (j_queues (fst (drain_loop k q j))) i = Some q' \<Longrightarrow>
     i \<noteq> k \<and> jm_get (j_queues j) i = Some q' \<or> i = k \<and> sq_drain q' = sq_drain q \<and> (queue_of k q \<longrightarrow> queue_of k q')"
  by (auto simp: drain_loop_def start_save_def queue_of_def split: option.splits if_splits)

text \<open>
  One step of the journal keeps a queue with its drain or adds one with the next promise, and takes
  a promise out of the set only where the drain of a queue has it.
\<close>

definition saves_step :: "journal \<Rightarrow> journal \<Rightarrow> bool" where
  "saves_step j j' \<longleftrightarrow> (j_store j \<longrightarrow> j_store j') \<and> j_nextDrain j \<le> j_nextDrain j' \<and>
     (\<forall>i q'. jm_get (j_queues j') i = Some q' \<longrightarrow>
        (\<exists>q. jm_get (j_queues j) i = Some q \<and> sq_drain q' = sq_drain q \<and> (queue_of i q \<longrightarrow> queue_of i q')) \<or>
        sq_drain q' = j_nextDrain j \<and> j_nextDrain j < j_nextDrain j' \<and> queue_of i q') \<and>
     (\<forall>n \<in> set (j_drains j). n \<in> set (j_drains j') \<or> (\<exists>i q. jm_get (j_queues j) i = Some q \<and> sq_drain q = n))"

lemma same_saves_step: "save_state j = save_state j' \<Longrightarrow> saves_step j j'"
  by (auto simp: save_state_def saves_step_def)

lemma settle_saves_step: "saves_step j (settle_save k ok j)"
proof (cases "\<exists>q f. jm_get (j_queues j) k = Some q \<and> sq_flight q = Some f")
  case True
  then obtain q f where q: "jm_get (j_queues j) k = Some q" "sq_flight q = Some f" by blast
  let ?q = "q\<lparr>sq_flight := None\<rparr>" and ?j = "if ok then j\<lparr>j_saved := jm_set k (jr_cursor f) (j_saved j), j_stored := j_stored j @ [f]\<rparr> else j\<lparr>j_errors := j_errors j + 1\<rparr>"
  have s: "settle_save k ok j = (if snd (drain_loop k ?q ?j)
      then (fst (drain_loop k ?q ?j))\<lparr>j_drains := filter (\<lambda>n. n \<noteq> sq_drain q) (j_drains j)\<rparr> else fst (drain_loop k ?q ?j))"
    by (auto simp: settle_save_def q Let_def case_prod_beta)
  have "j_queues ?j = j_queues j" by simp
  moreover have "queue_of k q \<Longrightarrow> queue_of k ?q" by (simp add: queue_of_def)
  ultimately have "jm_get (j_queues (settle_save k ok j)) i = Some q' \<Longrightarrow>
      \<exists>q. jm_get (j_queues j) i = Some q \<and> sq_drain q' = sq_drain q \<and> (queue_of i q \<longrightarrow> queue_of i q')" for i q'
    using loop_queues [of k ?q ?j i q'] q(1) by (auto simp: s split: if_splits)
  moreover have "set (j_drains j) - {sq_drain q} \<subseteq> set (j_drains (settle_save k ok j))" by (auto simp: s)
  ultimately show ?thesis using q(1) by (auto simp: saves_step_def) (auto simp: s)
qed (auto simp: settle_save_def saves_step_def split: option.split)

lemma enqueue_saves_step:
  assumes "record_key rcd = k"
  shows "saves_step j (enqueue_save k rcd b j)"
proof (cases "jm_get (j_queues j) k")
  case None
  let ?q = "queued rcd b \<lparr>sq_barrier = None, sq_latest = None, sq_flight = None, sq_drain = 0\<rparr>"
  let ?j = "j\<lparr>j_queues := jm_set k ?q (j_queues j), j_nextDrain := j_nextDrain j + 1\<rparr>"
  have q: "queue_of k (?q\<lparr>sq_drain := n\<rparr>)" for n using assms by (simp add: queue_of_def queued_def)
  have s: "enqueue_save k rcd b j = (fst (drain_loop k (?q\<lparr>sq_drain := j_nextDrain j\<rparr>) ?j))\<lparr>j_drains := j_drains j @ [j_nextDrain j]\<rparr>"
    by (simp add: enqueue_lane(1) [OF None] drain_def Let_def case_prod_beta)
  have "jm_get (j_queues (enqueue_save k rcd b j)) i = Some q' \<Longrightarrow>
      i \<noteq> k \<and> jm_get (j_queues j) i = Some q' \<or> i = k \<and> sq_drain q' = j_nextDrain j \<and> queue_of k q'" for i q'
    using loop_queues [of k "?q\<lparr>sq_drain := j_nextDrain j\<rparr>" ?j i q'] q by (auto simp: s)
  then show ?thesis by (fastforce simp: saves_step_def s)
next
  case (Some q)
  have "queue_of k q \<Longrightarrow> queue_of k (queued rcd b q)" "sq_drain (queued rcd b q) = sq_drain q"
    using assms by (auto simp: queue_of_def queued_def)
  then show ?thesis using Some by (auto simp: enqueue_lane(2) [OF Some] saves_step_def)
qed

lemma journal_saves_step: "j_store j \<Longrightarrow> saves_step j (journal_step e j)"
proof (cases e)
  case (Remembered rcd b)
  assume store: "j_store j"
  show ?thesis
  proof (cases "valid_record rcd")
    case True
    let ?j = "evict_oldest_record (remembered rcd j)"
    have "save_state ?j = save_state j" by (simp add: forget_save_state)
    then have "saves_step ?j j' \<longleftrightarrow> saves_step j j'" for j' by (simp add: saves_step_def save_state_def)
    then show ?thesis using enqueue_saves_step [where rcd = rcd and j = ?j and b = b, OF refl] remember_step [OF True store] by (simp add: Remembered)
  qed (simp add: Remembered invalid_record same_saves_step del: journal_step.simps)
next
  case LoadStarted
  then show ?thesis by (auto simp: load_def save_state_def intro!: same_saves_step)
qed (simp_all add: settle_saves_step reset_rest load_save_state same_saves_step)

definition queues_ok :: "journal \<Rightarrow> bool" where
  "queues_ok j \<longleftrightarrow> j_store j \<and> (\<forall>i q. jm_get (j_queues j) i = Some q \<longrightarrow> queue_of i q \<and> sq_drain q < j_nextDrain j)"

lemma queues_ok_step: "queues_ok j \<Longrightarrow> queues_ok (journal_step e j)"
proof -
  assume ok: "queues_ok j"
  then have "saves_step j (journal_step e j)" by (simp add: queues_ok_def journal_saves_step)
  then show ?thesis using ok unfolding queues_ok_def saves_step_def by (fastforce intro: order_less_le_trans)
qed

lemma queues_ok_run: "queues_ok (fold journal_step es (newCursorJournal True))"
proof -
  have "queues_ok j \<Longrightarrow> queues_ok (fold journal_step es j)" for j
    by (induction es arbitrary: j) (simp_all add: queues_ok_step)
  moreover have "queues_ok (newCursorJournal True)" by (simp add: queues_ok_def newCursorJournal_def)
  ultimately show ?thesis .
qed

lemma step_tracks:
  assumes t: "tracks k (history_of k es) (lane k j)" and fwd: "goes_forward [] (records_of k (es @ [e]))" and ok: "queues_ok j"
  shows "tracks k (history_of k (es @ [e])) (lane k (journal_step e j))"
proof (cases e)
  case (Remembered rcd b)
  show ?thesis
  proof (cases "valid_record rcd")
    case True
    let ?j = "evict_oldest_record (remembered rcd j)"
    have s: "journal_step e j = enqueue_save (record_key rcd) rcd b ?j" using remember_step [OF True] ok by (simp add: Remembered queues_ok_def)
    have "tracks k (history_of k es) (lane k (remembered rcd j))" using t by (simp add: remembered_def)
    then have t': "tracks k (history_of k es) (lane k ?j)" by (rule evict_tracks)
    show ?thesis
    proof (cases "record_key rcd = k")
      case key: True
      then have "on_top (recorded rcd b (fst (history_of k es)))"
        using fwd True by (simp add: Remembered goes_forward_append history_of_def)
      then show ?thesis using enqueue_tracks [of k "fst (history_of k es)" "snd (history_of k es)" ?j rcd b] t' key True
        unfolding s by (simp add: Remembered history_of_def)
    next
      case False
      then show ?thesis using t' True unfolding s by (simp add: Remembered enqueue_other_lane history_of_def)
    qed
  next
    case False
    then show ?thesis using t by (simp add: Remembered invalid_record history_of_def del: journal_step.simps)
  qed
next
  case (Settled i ok)
  have top: "on_top (fst (history_of k es))"
    using goes_forward_top [of "[]" "records_of k es"] fwd by (simp add: goes_forward_append history_of_def on_top_def)
  show ?thesis
  proof (cases "i = k")
    case True
    then show ?thesis using settle_tracks [of k "fst (history_of k es)" "snd (history_of k es)" j ok] t top
      by (cases ok) (simp_all add: Settled history_of_def)
  next
    case False
    then show ?thesis using t settle_other_lane [of j i k ok] ok by (simp add: Settled history_of_def queues_ok_def)
  qed
qed (use t in \<open>simp_all add: history_of_def reset_tracks load_lane load_def\<close>)

lemma run_tracks:
  "goes_forward [] (records_of k es) \<Longrightarrow> tracks k (history_of k es) (lane k (fold journal_step es (newCursorJournal True)))"
proof (induction es rule: rev_induct)
  case Nil
  show ?case by (simp add: history_of_def lane_def newCursorJournal_def writes_of_def stored_of_def)
next
  case (snoc e es)
  then show ?case using step_tracks [OF _ snoc.prems queues_ok_run] by (simp add: goes_forward_append)
qed

text \<open>The store is read before the first record of a session.\<close>

fun loads_first :: "jsstr \<Rightarrow> journal_event list \<Rightarrow> bool" where
  "loads_first k [] \<longleftrightarrow> True"
| "loads_first k (Remembered rcd b # es) \<longleftrightarrow>
     (if valid_record rcd \<and> record_key rcd = k then list_all (\<lambda>e. case e of Loaded v \<Rightarrow> False | _ \<Rightarrow> True) es else loads_first k es)"
| "loads_first k (_ # es) \<longleftrightarrow> loads_first k es"

lemma loads_first_snoc:
  "loads_first k (es @ [e]) \<longleftrightarrow> loads_first k es \<and> (records_of k es = [] \<or> (case e of Loaded v \<Rightarrow> False | _ \<Rightarrow> True))"
  by (induction k es rule: loads_first.induct) (cases e; auto)+

lemma current_cursor:
  "loads_first k es \<Longrightarrow> records_of k es \<noteq> [] \<Longrightarrow>
     jm_get (j_bySession (fold journal_step es (newCursorJournal True))) k \<in> {None, Some (jr_cursor (fst (last (records_of k es))))}"
proof (induction es rule: rev_induct)
  case (snoc e es)
  let ?j = "fold journal_step es (newCursorJournal True)"
  have store: "j_store ?j" using queues_ok_run by (simp add: queues_ok_def)
  show ?case
  proof (cases e)
    case (Remembered rcd b)
    have evicted: "jm_get (j_bySession (evict_oldest_record j)) k \<in> {None, jm_get (j_bySession j) k}" for j
      by (auto simp: evict_oldest_record_def split: list.split)
    show ?thesis
    proof (cases "valid_record rcd")
      case True
      have "jm_get (j_bySession (journal_step e ?j)) k \<in> {None, jm_get (j_bySession (remembered rcd ?j)) k}"
        using evicted [of "remembered rcd ?j"] remember_step [OF True store] by (simp add: Remembered enqueue_rest)
      then show ?thesis using snoc True by (auto simp: Remembered remembered_def loads_first_snoc split: if_splits)
    next
      case False
      then have "journal_step e ?j = ?j" by (simp add: Remembered invalid_record del: journal_step.simps)
      then show ?thesis using snoc False by (simp add: Remembered loads_first_snoc del: journal_step.simps)
    qed
  next
    case (EpochReset ep)
    then show ?thesis using snoc reset_rest(2) [of ep ?j k] by (auto simp: loads_first_snoc)
  qed (use snoc in \<open>auto simp: loads_first_snoc settle_rest load_def\<close>)
qed simp

lemma newest_of_history: "rs \<noteq> [] \<Longrightarrow> \<exists>cs. fold (\<lambda>(rcd, b). recorded rcd b) rs past = jr_cursor (fst (last rs)) # cs"
  by (induction rs rule: rev_induct) (auto simp: recorded_def)

text \<open>
  C15: Saves do not lose the newest cursor. Take any run of a new journal with a store: records of
  any sessions, saves that succeed or fail in any order, evictions, epoch resets and loads. Take a
  session of which a record was remembered, such that a record that does not come from a snapshot
  is never behind an earlier one of its epoch since the last snapshot. Whenever no save of the
  session is pending, the cursor of its newest record is the last one stored for it; or, only if
  one of its saves failed, the last one handed to the store. If the journal was not loaded after
  the session's first record, that cursor is also the session's current one, unless the session
  was evicted or reset.
\<close>

theorem quiet_journal_saved_current_cursor:
  assumes "j = fold journal_step es (newCursorJournal True)"
    and "goes_forward [] (records_of k es)" "records_of k es \<noteq> []" "c = jr_cursor (fst (last (records_of k es)))"
    and "\<not> jm_has (j_queues j) k"
  shows "(last_cursor (stored_of k j) = Some c \<or> Settled k False \<in> set es \<and> last_cursor (writes_of k j) = Some c) \<and>
    (loads_first k es \<longrightarrow> jm_get (j_bySession j) k \<in> {None, Some c})"
  using run_tracks [OF assms(2)] newest_of_history [OF assms(3), of "[]"] assms(5) current_cursor [OF _ assms(3)]
  by (auto simp: assms(1,4) lane_def history_of_def jm_has_get)

text \<open>
  A save that turns out to be superfluous is counted as pending for ever. When the cursor of a
  record is already saved and no save of its session runs, remembering it writes nothing and leaves
  no queue, but the drain has ended before its promise is put into the set, so nothing takes it out
  again: the number of pending saves never returns to zero, whatever happens later.
\<close>

theorem superfluous_save_counted_forever:
  assumes "j = fold journal_step es (newCursorJournal True)" "valid_record rcd" "length (j_records j) < max_saved"
    and "\<not> jm_has (j_queues j) (record_key rcd)" "already_saved j (record_key rcd) (jr_cursor rcd)"
  shows "j_writes (journal_step (Remembered rcd False) j) = j_writes j \<and>
    \<not> jm_has (j_queues (journal_step (Remembered rcd False) j)) (record_key rcd) \<and>
    0 < pendingSaves (fold journal_step later (journal_step (Remembered rcd False) j))"
proof -
  let ?n = "j_nextDrain j" and ?j = "journal_step (Remembered rcd False) j"
  have ok: "queues_ok j" using queues_ok_run assms(1) by simp
  have "\<not> max_saved < length (j_records (remembered rcd j))"
    using le_less_trans [OF length_filter_le assms(3), of "\<lambda>p. fst p \<noteq> record_key rcd"] by (simp add: remembered_def jm_touch)
  then have "evict_oldest_record (remembered rcd j) = remembered rcd j" by (simp add: evict_oldest_record_def)
  then have s: "?j = enqueue_save (record_key rcd) rcd False (remembered rcd j)"
    using remember_step [OF assms(2)] ok by (simp add: queues_ok_def)
  have none: "jm_get (j_queues (remembered rcd j)) (record_key rcd) = None" using assms(4) by (simp add: remembered_def jm_has_get)
  define q where "q = \<lparr>sq_barrier = None, sq_latest = Some rcd, sq_flight = None, sq_drain = ?n\<rparr>"
  define i where "i = (remembered rcd j)\<lparr>j_queues := jm_set (record_key rcd) (q\<lparr>sq_drain := 0\<rparr>) (j_queues j), j_nextDrain := ?n + 1\<rparr>"
  have rest: "j_nextDrain (remembered rcd j) = ?n" "j_queues (remembered rcd j) = j_queues j" "j_drains (remembered rcd j) = j_drains j"
    "j_writes (remembered rcd j) = j_writes j" by (simp_all add: remembered_def)
  have "already_saved i (record_key rcd) (jr_cursor rcd)"
    using assms(5) by (simp add: already_saved_def i_def remembered_def)
  then have loop: "drain_loop (record_key rcd) q i = (i\<lparr>j_queues := jm_delete (record_key rcd) (j_queues i)\<rparr>, True)"
    by (simp add: drain_loop_def q_def)
  have j: "?j = i\<lparr>j_queues := jm_delete (record_key rcd) (j_queues i), j_drains := j_drains j @ [?n]\<rparr>"
    using loop unfolding s by (simp add: enqueue_lane(1) [OF none] drain_def queued_def rest Let_def q_def i_def)
  have stuck: "?n \<in> set (j_drains (fold journal_step fs i))" 
    if "queues_ok i" "?n \<in> set (j_drains i)" "\<And>l q. jm_get (j_queues i) l = Some q \<Longrightarrow> sq_drain q \<noteq> ?n" "?n < j_nextDrain i" for fs i
    using that
  proof (induction fs arbitrary: i)
    case (Cons e fs)
    have st: "saves_step i (journal_step e i)" using Cons.prems(1) by (simp add: queues_ok_def journal_saves_step)
    have "?n < j_nextDrain (journal_step e i)" using st Cons.prems(4) by (simp add: saves_step_def)
    moreover have "?n \<in> set (j_drains (journal_step e i))" using st Cons.prems(2,3) unfolding saves_step_def by blast
    moreover have "sq_drain q \<noteq> ?n" if "jm_get (j_queues (journal_step e i)) l = Some q" for l q
      using st that Cons.prems(3,4) unfolding saves_step_def by (metis less_irrefl)
    ultimately show ?case using Cons.IH [OF queues_ok_step [OF Cons.prems(1)]] by simp
  qed simp
  have "queues_ok ?j" using ok by (rule queues_ok_step)
  moreover have "?n \<in> set (j_drains ?j)" "?n < j_nextDrain ?j" "j_writes ?j = j_writes j" "jm_get (j_queues ?j) (record_key rcd) = None"
    unfolding j by (simp_all add: i_def rest)
  moreover have "sq_drain p \<noteq> ?n" if "jm_get (j_queues ?j) l = Some p" for l p
    using that ok unfolding j by (fastforce simp: i_def queues_ok_def split: if_splits)
  ultimately show ?thesis using stuck [of ?j later] by (simp add: jm_has_get pendingSaves_def del: journal_step.simps) (auto simp del: journal_step.simps)
qed

subsection \<open>Example\<close>

definition old_cursor_record :: cursor_record where
  "old_cursor_record = \<lparr>jr_hostId = js ''h'', jr_sessionId = js ''s'', jr_cursor = \<lparr>epoch = js ''e'', seq = 5\<rparr>\<rparr>"

definition reset_cursor_record :: cursor_record where
  "reset_cursor_record = \<lparr>jr_hostId = js ''h'', jr_sessionId = js ''s'', jr_cursor = \<lparr>epoch = js ''e'', seq = 2\<rparr>\<rparr>"

definition overtaking_saves :: "journal_event list" where
  "overtaking_saves = [LoadStarted, Loaded (Some (JArr [])), Remembered old_cursor_record False, Remembered reset_cursor_record True,
     Settled (record_key old_cursor_record) True, EpochReset (js ''e''), Settled (record_key old_cursor_record) True]"

definition one_save :: "journal_event list" where
  "one_save = [Remembered old_cursor_record False, Settled (record_key old_cursor_record) True]"

lemma cursor_members: "own_entries [(js ''epoch'', a), (js ''seq'', b)] = [(js ''epoch'', a), (js ''seq'', b)]"
proof -
  have "array_index (js ''epoch'') = None" "array_index (js ''seq'') = None"
    by (simp_all add: js_def array_index_def digit_of_def)
  then show ?thesis by (simp add: own_entries_def)
qed

lemma cursor_roundtrip:
  assumes "controlFree (JStr (epoch c)) max_epoch_bytes = Inr (epoch c)" "0 \<le> seq c" "is_safe_integer (seq c)"
  shows "decodeCursor (cursor_val c) = Inr c"
proof -
  obtain n where n: "utf8ByteLength (epoch c) = Inr n" "n \<le> max_epoch_bytes" using assms(1) by (auto simp: controlFree_Inr)
  have keys: "utf8ByteLength (js ''epoch'') = Inr 5" "utf8ByteLength (js ''seq'') = Inr 3"
    by (simp_all add: js_def utf8ByteLength.simps bind_ok_def)
  have "validateJson (cursor_val c) = Inr ()"
    using n by (simp add: validateJson_def cursor_val_def max_json_nodes_def max_json_depth_def max_map_keys_def cursor_members
        bind_ok_def keys addApprox_def max_input_bytes_def max_epoch_bytes_def is_finite_def)
  then have "inputObject (cursor_val c) = Inr (cursor_val c)"
    by (simp add: inputObject_def bind_ok_def object_guard_def cursor_val_def)
  then show ?thesis using assms
    by (simp add: decodeCursor_def bind_ok_def) (simp add: cursor_val_def get_prop_JObj jm_get_Cons bind_ok_def safeSeq_def)
qed

lemma sample_records_valid: "valid_record old_cursor_record" "valid_record reset_cursor_record"
proof -
  have "id_guard (JStr (js ''h'')) = Inr (js ''h'')" "id_guard (JStr (js ''s'')) = Inr (js ''s'')"
    "controlFree (JStr (js ''e'')) max_epoch_bytes = Inr (js ''e'')"
    by (simp_all add: id_guard_def controlFree_Inr max_id_bytes_def max_epoch_bytes_def js_def utf8ByteLength.simps bind_ok_def is_control_def)
  then show "valid_record old_cursor_record" "valid_record reset_cursor_record"
    by (simp_all add: valid_record_def old_cursor_record_def reset_cursor_record_def cursor_roundtrip is_safe_integer_def max_safe_integer_def)
qed

lemma sample_runs:
  "fold journal_step overtaking_saves (newCursorJournal True) =
     \<lparr>j_records = [(record_key old_cursor_record, reset_cursor_record)],
      j_bySession = [(record_key old_cursor_record, jr_cursor reset_cursor_record)], j_queues = [],
      j_saved = [(record_key old_cursor_record, jr_cursor reset_cursor_record)], j_drains = [], j_loading = False, j_store = True,
      j_nextDrain = 1, j_writes = [old_cursor_record, reset_cursor_record], j_stored = [old_cursor_record, reset_cursor_record], j_errors = 0\<rparr>"
  "fold journal_step one_save (newCursorJournal True) =
     \<lparr>j_records = [(record_key old_cursor_record, old_cursor_record)],
      j_bySession = [(record_key old_cursor_record, jr_cursor old_cursor_record)], j_queues = [],
      j_saved = [(record_key old_cursor_record, jr_cursor old_cursor_record)], j_drains = [], j_loading = False, j_store = True,
      j_nextDrain = 1, j_writes = [old_cursor_record], j_stored = [old_cursor_record], j_errors = 0\<rparr>"
  "records_of (record_key old_cursor_record) overtaking_saves = [(old_cursor_record, False), (reset_cursor_record, True)]"
proof -
  have same: "record_key reset_cursor_record = record_key old_cursor_record"
    by (simp add: record_key_def reset_cursor_record_def old_cursor_record_def)
  have ep: "epoch (jr_cursor reset_cursor_record) = js ''e''" by (simp add: reset_cursor_record_def)
  note defs = overtaking_saves_def one_save_def remember_valid [OF sample_records_valid(1)] remember_valid [OF sample_records_valid(2)]
    newCursorJournal_def remembered_def same evict_oldest_record_def max_saved_def enqueue_save_def drain_def drain_loop_def start_save_def
    already_saved_def settle_save_def Let_def jm_has_get jm_get_Cons js_simps load_def load_records_def resetForEpoch_def ep
  show "fold journal_step overtaking_saves (newCursorJournal True) =
     \<lparr>j_records = [(record_key old_cursor_record, reset_cursor_record)],
      j_bySession = [(record_key old_cursor_record, jr_cursor reset_cursor_record)], j_queues = [],
      j_saved = [(record_key old_cursor_record, jr_cursor reset_cursor_record)], j_drains = [], j_loading = False, j_store = True,
      j_nextDrain = 1, j_writes = [old_cursor_record, reset_cursor_record], j_stored = [old_cursor_record, reset_cursor_record], j_errors = 0\<rparr>"
    "fold journal_step one_save (newCursorJournal True) =
     \<lparr>j_records = [(record_key old_cursor_record, old_cursor_record)],
      j_bySession = [(record_key old_cursor_record, jr_cursor old_cursor_record)], j_queues = [],
      j_saved = [(record_key old_cursor_record, jr_cursor old_cursor_record)], j_drains = [], j_loading = False, j_store = True,
      j_nextDrain = 1, j_writes = [old_cursor_record], j_stored = [old_cursor_record], j_errors = 0\<rparr>"
    by (simp_all add: defs)
  show "records_of (record_key old_cursor_record) overtaking_saves = [(old_cursor_record, False), (reset_cursor_record, True)]"
    by (simp add: overtaking_saves_def same sample_records_valid)
qed

theorem quiet_journal_saved_current_cursor_witness:
  "goes_forward [] [(old_cursor_record, False), (reset_cursor_record, True)] \<and>
   last_cursor (stored_of (record_key old_cursor_record) (fold journal_step overtaking_saves (newCursorJournal True))) =
     Some \<lparr>epoch = js ''e'', seq = 2\<rparr>"
proof -
  have fwd: "goes_forward [] [(old_cursor_record, False), (reset_cursor_record, True)]" by (simp add: on_top_def recorded_def)
  have "Settled (record_key old_cursor_record) False \<notin> set overtaking_saves" by (simp add: overtaking_saves_def)
  then show ?thesis
    using quiet_journal_saved_current_cursor [OF refl, of "record_key old_cursor_record" overtaking_saves, OF _ _ refl] fwd
    by (auto simp: sample_runs jm_has_get reset_cursor_record_def)
qed

theorem superfluous_save_counted_forever_witness:
  "already_saved (fold journal_step one_save (newCursorJournal True)) (record_key old_cursor_record) (jr_cursor old_cursor_record) \<and>
   0 < pendingSaves (fold journal_step [LoadStarted, EpochReset (js ''f'')]
     (journal_step (Remembered old_cursor_record False) (fold journal_step one_save (newCursorJournal True))))"
proof -
  have saved: "already_saved (fold journal_step one_save (newCursorJournal True)) (record_key old_cursor_record) (jr_cursor old_cursor_record)"
    by (simp add: sample_runs already_saved_def jm_get_Cons)
  show ?thesis
    using superfluous_save_counted_forever [OF refl sample_records_valid(1) _ _ saved, of "[LoadStarted, EpochReset (js ''f'')]"] saved
    by (simp add: sample_runs jm_has_get max_saved_def del: journal_step.simps)
qed

end
