(* ===== verification/ClientRuntime.thy ===== *)
theory ClientRuntime
  imports ClientFollow CursorJournal
begin

text \<open>
  The part of the client runtime that orders inbound session frames, from omp-client-runtime.ts and
  omp-client-reconnect-health.ts: the filter of durable frames by the journal's cursor, the
  desynchronised sessions, snapshots as resets, the epoch change of a welcome, the cursor a
  reattach sends, and the health gate that resets the reconnect budget. What the filter lets
  through is published to the client projection; both together are the pipeline. A thrown wire
  error is \<open>Inl\<close>.
\<close>

subsection \<open>Reconnect health\<close>

record replay_probe =
  pb_generation :: nat
  pb_responseReceived :: bool
  pb_sawSnapshot :: bool
  pb_targetCursor :: "cursor option"

text \<open>\<open>rh_resets\<close> counts the calls of \<open>resetAttempts\<close>.\<close>

record reconnect_health =
  rh_heartbeatGeneration :: "nat option"
  rh_replay :: "(jsstr, replay_probe) jsmap"
  rh_resets :: nat

definition newReconnectHealth :: reconnect_health where
  "newReconnectHealth = \<lparr>rh_heartbeatGeneration = None, rh_replay = [], rh_resets = 0\<rparr>"

definition clearHealth :: "reconnect_health \<Rightarrow> reconnect_health" where
  "clearHealth h = h\<lparr>rh_heartbeatGeneration := None, rh_replay := []\<rparr>"

definition beginWelcome :: "nat \<Rightarrow> jsstr list \<Rightarrow> reconnect_health \<Rightarrow> reconnect_health" where
  "beginWelcome generation keys h =
     fold (\<lambda>k h. h\<lparr>rh_replay := jm_set k \<lparr>pb_generation = generation, pb_responseReceived = False, pb_sawSnapshot = False,
             pb_targetCursor = None\<rparr> (rh_replay h)\<rparr>) keys (clearHealth h)"

definition maybeReset :: "nat \<Rightarrow> reconnect_health \<Rightarrow> reconnect_health" where
  "maybeReset generation h =
     (if rh_heartbeatGeneration h = Some generation \<and> rh_replay h = [] then h\<lparr>rh_resets := rh_resets h + 1\<rparr> else h)"

definition acceptPong :: "nat \<Rightarrow> reconnect_health \<Rightarrow> reconnect_health" where
  "acceptPong generation h = maybeReset generation (h\<lparr>rh_heartbeatGeneration := Some generation\<rparr>)"

definition currentProbe :: "nat \<Rightarrow> jsstr \<Rightarrow> reconnect_health \<Rightarrow> replay_probe option" where
  "currentProbe generation k h =
     (case jm_get (rh_replay h) k of
        None \<Rightarrow> None
      | Some probe \<Rightarrow> if pb_generation probe = generation then Some probe else None)"

definition isComplete :: "replay_probe \<Rightarrow> cursor option \<Rightarrow> bool" where
  "isComplete probe current \<longleftrightarrow>
     pb_responseReceived probe \<and>
     (case pb_targetCursor probe of
        None \<Rightarrow> pb_sawSnapshot probe
      | Some target \<Rightarrow>
          (case current of None \<Rightarrow> False | Some c \<Rightarrow> epoch c = epoch target \<and> seq c \<ge> seq target))"

definition settle_probe :: "nat \<Rightarrow> jsstr \<Rightarrow> replay_probe \<Rightarrow> cursor option \<Rightarrow> reconnect_health \<Rightarrow> reconnect_health" where
  "settle_probe generation k probe current h =
     (let h = h\<lparr>rh_replay := jm_set k probe (rh_replay h)\<rparr> in
      if isComplete probe current then maybeReset generation (h\<lparr>rh_replay := jm_delete k (rh_replay h)\<rparr>) else h)"

definition acceptAttachResponse :: "nat \<Rightarrow> jsstr \<Rightarrow> jsval \<Rightarrow> cursor option \<Rightarrow> reconnect_health \<Rightarrow> reconnect_health" where
  "acceptAttachResponse generation k result current h =
     (case currentProbe generation k h of
        None \<Rightarrow> h
      | Some probe \<Rightarrow>
          let probe = probe\<lparr>pb_responseReceived := True\<rparr>;
              probe = (case decodeCursor (get_prop result ''cursor'') of
                         Inl e \<Rightarrow> probe | Inr c \<Rightarrow> probe\<lparr>pb_targetCursor := Some c\<rparr>)
          in settle_probe generation k probe current h)"

definition acceptReplayProgress :: "nat \<Rightarrow> jsstr \<Rightarrow> cursor \<Rightarrow> bool \<Rightarrow> reconnect_health \<Rightarrow> reconnect_health" where
  "acceptReplayProgress generation k c snapshot_seen h =
     (case currentProbe generation k h of
        None \<Rightarrow> h
      | Some probe \<Rightarrow>
          settle_probe generation k (if snapshot_seen then probe\<lparr>pb_sawSnapshot := True\<rparr> else probe) (Some c) h)"

subsection \<open>The runtime's state\<close>

text \<open>
  A pending attachment recovery is its generation and whether it waits for a snapshot; \<open>rt_errors\<close>
  lists the messages of the desync errors emitted.
\<close>

record omp_runtime =
  rt_generation :: nat
  rt_journal :: journal
  rt_desynced :: "jsstr list"
  rt_cursor :: "cursor option"
  rt_epoch :: "jsstr option"
  rt_health :: reconnect_health
  rt_recoveries :: "(jsstr, nat \<times> bool) jsmap"
  rt_errors :: "jsstr list"

definition markDesynced :: "jsstr \<Rightarrow> string \<Rightarrow> omp_runtime \<Rightarrow> omp_runtime" where
  "markDesynced k message rt =
     (if k \<in> set (rt_desynced rt) then rt
      else rt\<lparr>rt_errors := rt_errors rt @ [js message], rt_desynced := rt_desynced rt @ [k]\<rparr>)"

definition remember_cursor :: "jsstr \<Rightarrow> jsstr \<Rightarrow> cursor \<Rightarrow> bool \<Rightarrow> omp_runtime \<Rightarrow> omp_runtime decoded" where
  "remember_cursor host session c is_snapshot rt =
     (let rt = rt\<lparr>rt_cursor := Some c, rt_epoch := Some (epoch c)\<rparr> in
      bind_ok (remember \<lparr>jr_hostId = host, jr_sessionId = session, jr_cursor = c\<rparr> is_snapshot (rt_journal rt)) (\<lambda>j.
      Inr (rt\<lparr>rt_journal := j,
              rt_health := acceptReplayProgress (rt_generation rt) (sessionKey host session) c is_snapshot (rt_health rt)\<rparr>)))"

definition acceptSnapshot :: "snapshot_frame \<Rightarrow> omp_runtime \<Rightarrow> omp_runtime decoded" where
  "acceptSnapshot frame rt =
     (let currentKey = sessionKey (sf_hostId frame) (sf_sessionId frame);
          rt = (if jm_get (rt_recoveries rt) currentKey = Some (rt_generation rt, True)
                then rt\<lparr>rt_recoveries := jm_delete currentKey (rt_recoveries rt)\<rparr> else rt);
          rt = rt\<lparr>rt_desynced := filter (\<lambda>k. k \<noteq> currentKey) (rt_desynced rt)\<rparr>
      in remember_cursor (sf_hostId frame) (sf_sessionId frame) (sf_cursor frame) True rt)"

text \<open>The filter of entry and event frames: the new state, and whether the frame is published.\<close>

definition acceptDurable :: "jsstr \<Rightarrow> jsstr \<Rightarrow> cursor \<Rightarrow> omp_runtime \<Rightarrow> (omp_runtime \<times> bool) decoded" where
  "acceptDurable host session c rt =
     (let currentKey = host @ nul @ session;
          take_it = bind_ok (remember_cursor host session c False rt) (\<lambda>rt. Inr (rt, True))
      in case jm_get (j_bySession (rt_journal rt)) currentKey of
           None \<Rightarrow> if currentKey \<in> set (rt_desynced rt) then Inr (rt, False) else take_it
         | Some previous \<Rightarrow>
             if epoch c \<noteq> epoch previous
             then Inr (markDesynced currentKey ''cursor epoch changed without a snapshot'' rt, False)
             else if seq c \<le> seq previous then Inr (rt, False)
             else if seq c \<noteq> seq previous + 1 \<or> currentKey \<in> set (rt_desynced rt)
             then Inr (markDesynced currentKey ''durable cursor is not contiguous'' rt, False)
             else take_it)"

definition acceptGap :: "gap_frame \<Rightarrow> omp_runtime \<Rightarrow> omp_runtime" where
  "acceptGap frame rt = markDesynced (sessionKey (gf_hostId frame) (gf_sessionId frame)) ''cursor gap requires a snapshot'' rt"

text \<open>A welcome with another epoch drops the cursors of other epochs and forgets who lost the thread.\<close>

definition adopt_epoch :: "jsstr \<Rightarrow> omp_runtime \<Rightarrow> omp_runtime" where
  "adopt_epoch ep rt =
     (let rt = (case rt_epoch rt of
                  None \<Rightarrow> rt
                | Some old \<Rightarrow>
                    if old \<noteq> ep
                    then rt\<lparr>rt_journal := resetForEpoch ep (rt_journal rt), rt_cursor := None, rt_desynced := []\<rparr> else rt)
      in rt\<lparr>rt_epoch := Some ep\<rparr>)"

definition reattach_cursor :: "jsstr \<Rightarrow> jsstr \<Rightarrow> omp_runtime \<Rightarrow> cursor option" where
  "reattach_cursor host session rt = map_option jr_cursor (jm_get (j_records (rt_journal rt)) (sessionKey host session))"

subsection \<open>The pipeline\<close>

text \<open>
  One inbound frame: the handler of its kind, then the publication to the projection. Frames of
  other kinds, the index deltas among them, are published as they come.
\<close>

definition dispatch :: "projection_frame \<Rightarrow> omp_runtime \<Rightarrow> (omp_runtime \<times> bool) decoded" where
  "dispatch f rt =
     (case f of
        FGap g \<Rightarrow> Inr (acceptGap g rt, True)
      | FSnapshot sf \<Rightarrow> bind_ok (acceptSnapshot sf rt) (\<lambda>rt. Inr (rt, True))
      | FEntry e \<Rightarrow> acceptDurable (ef_hostId e) (ef_sessionId e) (ef_cursor e) rt
      | FEvent v \<Rightarrow> acceptDurable (vf_hostId v) (vf_sessionId v) (vf_cursor v) rt
      | _ \<Rightarrow> Inr (rt, True))"

type_synonym pipeline = "omp_runtime \<times> snapshot"

definition receive :: "platform \<Rightarrow> caps \<Rightarrow> projection_frame \<Rightarrow> pipeline \<Rightarrow> pipeline" where
  "receive pl config f p =
     (case dispatch f (fst p) of
        Inl e \<Rightarrow> p
      | Inr (rt, published) \<Rightarrow> (rt, if published then client_feed pl config f (snd p) else snd p))"

subsection \<open>The journal's cursor is the runtime's position\<close>

definition journal_sound :: "journal \<Rightarrow> bool" where
  "journal_sound j \<longleftrightarrow>
     jm_wf (j_records j) \<and> (\<forall>k. jm_get (j_bySession j) k = map_option jr_cursor (jm_get (j_records j) k))"

definition runtime_view :: "jsstr \<Rightarrow> omp_runtime \<Rightarrow> view" where
  "runtime_view k rt = (jm_get (j_bySession (rt_journal rt)) k, k \<in> set (rt_desynced rt))"

definition runtime_ok :: "omp_runtime \<Rightarrow> bool" where
  "runtime_ok rt \<longleftrightarrow> journal_sound (rt_journal rt)"

definition runtime_feed :: "projection_frame \<Rightarrow> omp_runtime \<Rightarrow> omp_runtime" where
  "runtime_feed f rt = (case dispatch f rt of Inl e \<Rightarrow> rt | Inr (rt', published) \<Rightarrow> rt')"

text \<open>A frame of the session as it comes off the wire: its ids and its cursor passed the guards.\<close>

definition wire_cursor :: "cursor \<Rightarrow> bool" where
  "wire_cursor c \<longleftrightarrow> decodeCursor (cursor_val c) = Inr c"

definition wire_frame :: "jsstr \<Rightarrow> jsstr \<Rightarrow> projection_frame \<Rightarrow> bool" where
  "wire_frame host session f \<longleftrightarrow>
     frame_of host session f \<and> id_guard (JStr host) = Inr host \<and> id_guard (JStr session) = Inr session \<and>
     (case f of FEntry e \<Rightarrow> wire_cursor (ef_cursor e) | FEvent v \<Rightarrow> wire_cursor (vf_cursor v)
      | FSnapshot sf \<Rightarrow> wire_cursor (sf_cursor sf) | _ \<Rightarrow> True)"

lemma key_sessionKey: "key host session = sessionKey host session"
  by (simp add: key_def sessionKey_def)

lemma evict_remembered:
  assumes "journal_sound j"
  shows "journal_sound (evict_oldest_record (remembered rcd j)) \<and>
    jm_get (j_bySession (evict_oldest_record (remembered rcd j))) (record_key rcd) = Some (jr_cursor rcd)"
proof -
  let ?j = "remembered rcd j" and ?k = "record_key rcd"
  have sound: "journal_sound ?j" using assms by (auto simp: journal_sound_def remembered_def wf_intros)
  have now: "jm_get (j_bySession ?j) ?k = Some (jr_cursor rcd)" by (simp add: remembered_def)
  show ?thesis
  proof (cases "length (j_records ?j) > max_saved")
    case True
    have recs: "j_records ?j = filter (\<lambda>p. fst p \<noteq> ?k) (j_records j) @ [(?k, rcd)]" by (simp add: remembered_def jm_touch)
    then obtain old v rest where o: "filter (\<lambda>p. fst p \<noteq> ?k) (j_records j) = (old, v) # rest"
      using True by (cases "filter (\<lambda>p. fst p \<noteq> ?k) (j_records j)") (auto simp: max_saved_def)
    then have "old \<noteq> ?k" by (metis (mono_tags, lifting) fst_conv list.set_intros(1) mem_Collect_eq set_filter)
    then show ?thesis using True recs o sound now
      by (auto simp: evict_oldest_record_def journal_sound_def wf_intros)
  qed (use sound now in \<open>simp add: evict_oldest_record_def\<close>)
qed

lemma remember_sound:
  assumes "valid_record rcd" "journal_sound j"
  shows "\<exists>j'. remember rcd b j = Inr j' \<and> journal_sound j' \<and> jm_get (j_bySession j') (record_key rcd) = Some (jr_cursor rcd)"
  using evict_remembered [OF assms(2), of rcd]
  by (auto simp: remember_valid [OF assms(1)] Let_def journal_sound_def enqueue_rest)

lemma remember_cursor_view:
  assumes "runtime_ok rt" "id_guard (JStr host) = Inr host" "id_guard (JStr session) = Inr session" "wire_cursor c"
  shows "\<exists>rt'. remember_cursor host session c b rt = Inr rt' \<and> runtime_ok rt' \<and>
    runtime_view (sessionKey host session) rt' = (Some c, sessionKey host session \<in> set (rt_desynced rt))"
proof -
  have "valid_record \<lparr>jr_hostId = host, jr_sessionId = session, jr_cursor = c\<rparr>"
    using assms(2-4) by (simp add: valid_record_def wire_cursor_def)
  from remember_sound [OF this, of "rt_journal rt" b] assms(1) show ?thesis
    by (auto simp: remember_cursor_def runtime_ok_def runtime_view_def record_key_def bind_ok_def Let_def)
qed

lemma markDesynced_view:
  "runtime_ok (markDesynced k m rt) = runtime_ok rt" "runtime_view k (markDesynced k m rt) = (fst (runtime_view k rt), True)"
  by (simp_all add: markDesynced_def runtime_ok_def runtime_view_def)

definition continues :: "cursor \<Rightarrow> view \<Rightarrow> bool" where
  "continues c v \<longleftrightarrow>
     \<not> snd v \<and> (case fst v of None \<Rightarrow> True | Some q \<Rightarrow> epoch q = epoch c \<and> seq c = seq q + 1)"

text \<open>The filter publishes a frame exactly when it continues the session, and follows the rule for live frames.\<close>

lemma acceptDurable_view:
  fixes host session
  defines "k \<equiv> sessionKey host session"
  assumes "runtime_ok rt" "id_guard (JStr host) = Inr host" "id_guard (JStr session) = Inr session" "wire_cursor c"
  shows "\<exists>rt' p. acceptDurable host session c rt = Inr (rt', p) \<and> runtime_ok rt' \<and>
    runtime_view k rt' = follow_live c (runtime_view k rt) \<and>
    (p \<longleftrightarrow> continues c (runtime_view k rt))"
proof -
  obtain rt' where rt': "remember_cursor host session c False rt = Inr rt'" "runtime_ok rt'"
      "runtime_view k rt' = (Some c, k \<in> set (rt_desynced rt))"
    using remember_cursor_view [OF assms(2-5)] unfolding k_def by blast
  show ?thesis
  proof (cases "jm_get (j_bySession (rt_journal rt)) k")
    case None
    then have a: "acceptDurable host session c rt = (if k \<in> set (rt_desynced rt) then Inr (rt, False) else Inr (rt', True))"
      by (simp add: acceptDurable_def k_def sessionKey_def [symmetric] rt'(1) bind_ok_def Let_def)
    show ?thesis using None rt' assms(2) unfolding a by (auto simp: runtime_view_def follow_live_def continues_def)
  next
    case (Some q)
    let ?lost = "k \<in> set (rt_desynced rt)"
    have v: "runtime_view k rt = (Some q, ?lost)" using Some by (simp add: runtime_view_def)
    have a: "acceptDurable host session c rt =
        (if epoch c \<noteq> epoch q then Inr (markDesynced k ''cursor epoch changed without a snapshot'' rt, False)
         else if seq c \<le> seq q then Inr (rt, False)
         else if seq c \<noteq> seq q + 1 \<or> ?lost then Inr (markDesynced k ''durable cursor is not contiguous'' rt, False)
         else Inr (rt', True))"
      using Some by (simp add: acceptDurable_def k_def sessionKey_def [symmetric] rt'(1) bind_ok_def Let_def)
    show ?thesis using rt' assms(2) unfolding a v
      by (cases ?lost) (auto simp: v markDesynced_view follow_live_def continues_def)
  qed
qed

lemma acceptSnapshot_view:
  fixes sf :: snapshot_frame
  defines "k \<equiv> sessionKey (sf_hostId sf) (sf_sessionId sf)"
  assumes "runtime_ok rt" "id_guard (JStr (sf_hostId sf)) = Inr (sf_hostId sf)"
    "id_guard (JStr (sf_sessionId sf)) = Inr (sf_sessionId sf)" "wire_cursor (sf_cursor sf)"
  shows "\<exists>rt'. acceptSnapshot sf rt = Inr rt' \<and> runtime_ok rt' \<and> runtime_view k rt' = (Some (sf_cursor sf), False)"
proof -
  let ?rt = "if jm_get (rt_recoveries rt) k = Some (rt_generation rt, True)
             then rt\<lparr>rt_recoveries := jm_delete k (rt_recoveries rt)\<rparr> else rt"
  let ?rt = "?rt\<lparr>rt_desynced := filter (\<lambda>i. i \<noteq> k) (rt_desynced ?rt)\<rparr>"
  have "runtime_ok ?rt" using assms(2) by (simp add: runtime_ok_def)
  from remember_cursor_view [OF this assms(3-5), of True] show ?thesis
    unfolding acceptSnapshot_def Let_def k_def [symmetric] by auto
qed

lemma wire_frame_cases:
  assumes "wire_frame host session f"
  obtains e where "f = FEntry e" "ef_hostId e = host" "ef_sessionId e = session" "wire_cursor (ef_cursor e)"
    | v where "f = FEvent v" "vf_hostId v = host" "vf_sessionId v = session" "wire_cursor (vf_cursor v)"
    | g where "f = FGap g" "gf_hostId g = host" "gf_sessionId g = session"
    | sf where "f = FSnapshot sf" "sf_hostId sf = host" "sf_sessionId sf = session" "wire_cursor (sf_cursor sf)"
  using assms by (cases f) (auto simp: wire_frame_def)

text \<open>
  One frame through the dispatcher: no error, and the runtime's view moves by the follower's rule,
  except that every snapshot is installed. A live frame is published exactly when it continues.
\<close>

lemma dispatch_view:
  fixes host session
  defines "k \<equiv> sessionKey host session"
  assumes "runtime_ok rt" "wire_frame host session f"
  shows "\<exists>rt' p. dispatch f rt = Inr (rt', p) \<and> runtime_ok rt' \<and>
    runtime_view k rt' = (case f of FSnapshot sf \<Rightarrow> (Some (sf_cursor sf), False) | _ \<Rightarrow> follow f (runtime_view k rt)) \<and>
    (p \<longleftrightarrow> (case live_cursor f of None \<Rightarrow> True | Some c \<Rightarrow> continues c (runtime_view k rt)))"
proof -
  have ids: "id_guard (JStr host) = Inr host" "id_guard (JStr session) = Inr session"
    using assms(3) by (simp_all add: wire_frame_def)
  note durable = acceptDurable_view [OF assms(2) ids, folded k_def]
  from assms(3) show ?thesis
  proof (cases rule: wire_frame_cases)
    case (1 e)
    then show ?thesis using durable [of "ef_cursor e"] by (auto simp: dispatch_def live_cursor_def)
  next
    case (2 v)
    then show ?thesis using durable [of "vf_cursor v"] by (auto simp: dispatch_def live_cursor_def)
  next
    case (3 g)
    then show ?thesis using assms(2)
      by (intro exI [of _ "acceptGap g rt"] exI [of _ True])
        (simp add: dispatch_def acceptGap_def k_def markDesynced_view live_cursor_def)
  next
    case (4 sf)
    then show ?thesis using acceptSnapshot_view [OF assms(2), of sf] ids
      by (auto simp: dispatch_def bind_ok_def k_def live_cursor_def)
  qed
qed

interpretation runtime: follower "runtime_view (sessionKey host session)" runtime_feed runtime_ok "wire_frame host session"
  for host session
proof
  fix rt f
  assume ok: "runtime_ok rt" and f: "wire_frame host session f"
  note view = dispatch_view [OF ok f]
  show "runtime_ok (runtime_feed f rt)" using view by (auto simp: runtime_feed_def)
  show "runtime_view (sessionKey host session) (runtime_feed f rt) = follow_live c (runtime_view (sessionKey host session) rt)"
    if "live_cursor f = Some c" for c
    using view that by (cases f) (auto simp: runtime_feed_def live_cursor_def)
next
  fix rt g
  assume "runtime_ok rt" "wire_frame host session (FGap g)"
  from dispatch_view [OF this] show "runtime_view (sessionKey host session) (runtime_feed (FGap g) rt) =
      (fst (runtime_view (sessionKey host session) rt), True)" by (auto simp: runtime_feed_def)
next
  fix rt sf
  assume "runtime_ok rt" "wire_frame host session (FSnapshot sf)"
  from dispatch_view [OF this] show "runtime_view (sessionKey host session) (runtime_feed (FSnapshot sf) rt) =
      (Some (sf_cursor sf), False)" by (auto simp: runtime_feed_def)
qed

subsection \<open>The projection keeps step\<close>

text \<open>
  The projection shows the cursor the runtime has accepted. It may not know that the thread is
  lost, since the runtime holds back the frame that showed it.
\<close>

definition in_step :: "jsstr \<Rightarrow> pipeline \<Rightarrow> bool" where
  "in_step k p \<longleftrightarrow>
     fst (client_view k (snd p)) = fst (runtime_view k (fst p)) \<and> (snd (client_view k (snd p)) \<longrightarrow> snd (runtime_view k (fst p)))"

definition pipeline_ok :: "caps \<Rightarrow> jsstr \<Rightarrow> pipeline \<Rightarrow> bool" where
  "pipeline_ok config k p \<longleftrightarrow> runtime_ok (fst p) \<and> client_ok config (snd p) \<and> in_step k p"

lemma live_in_step:
  assumes "fst cv = fst rv" "snd cv \<longrightarrow> snd rv"
  shows "fst (if continues c rv then follow_live c cv else cv) = fst (follow_live c rv)"
    "snd (if continues c rv then follow_live c cv else cv) \<longrightarrow> snd (follow_live c rv)"
proof -
  obtain co a b where "rv = (co, b)" "cv = (co, a)" "a \<longrightarrow> b" using assms by (cases rv; cases cv) simp
  then show "fst (if continues c rv then follow_live c cv else cv) = fst (follow_live c rv)"
    "snd (if continues c rv then follow_live c cv else cv) \<longrightarrow> snd (follow_live c rv)"
    by (cases co; cases a; cases b; simp add: continues_def follow_live_def)+
qed

lemma receive_view:
  fixes host session
  defines "k \<equiv> sessionKey host session"
  assumes ok: "pipeline_ok config k p" and f: "wire_frame host session f" and a: "admissible f (runtime_view k (fst p))"
  shows "fst (receive pl config f p) = runtime_feed f (fst p) \<and> pipeline_ok config k (receive pl config f p)"
proof -
  obtain rt s where p: "p = (rt, s)" by fastforce
  have rt: "runtime_ok rt" and s: "client_ok config s" and step: "in_step k (rt, s)" using ok p by (simp_all add: pipeline_ok_def)
  have f': "frame_of host session f" using f by (simp add: wire_frame_def)
  obtain rt' pub where d: "dispatch f rt = Inr (rt', pub)" "runtime_ok rt'"
    "runtime_view k rt' = (case f of FSnapshot sf \<Rightarrow> (Some (sf_cursor sf), False) | _ \<Rightarrow> follow f (runtime_view k rt))"
    "pub \<longleftrightarrow> (case live_cursor f of None \<Rightarrow> True | Some c \<Rightarrow> continues c (runtime_view k rt))"
    using dispatch_view [OF rt f] unfolding k_def by blast
  obtain x where x: "applyProjectionInput pl s f config = Inr x" using client_frame_applied [OF s f'] by blast
  have s': "client_ok config (client_feed pl config f s)" using client_frame_applied [OF s f', of pl] by (auto simp: client_feed_def)
  note cv = client.view_live [OF s f', of _ pl, unfolded key_sessionKey, folded k_def]
  have "in_step k (rt', if pub then client_feed pl config f s else s)"
    using f
  proof (cases rule: wire_frame_cases)
    case (1 e)
    then show ?thesis
      using cv [of "ef_cursor e"] d(3,4) live_in_step [of "client_view k s" "runtime_view k rt" "ef_cursor e"] step
      by (simp add: live_cursor_def in_step_def split: if_splits)
  next
    case (2 v)
    then show ?thesis
      using cv [of "vf_cursor v"] d(3,4) live_in_step [of "client_view k s" "runtime_view k rt" "vf_cursor v"] step
      by (simp add: live_cursor_def in_step_def split: if_splits)
  next
    case (3 g)
    then show ?thesis using client.view_gap [OF s, of host session g pl, unfolded key_sessionKey, folded k_def] d(3,4) step f'
      by (simp add: in_step_def live_cursor_def)
  next
    case (4 sf)
    then show ?thesis using client.view_snapshot [OF s, of host session sf pl, unfolded key_sessionKey, folded k_def] d(3,4) step f' a p
      by (simp add: in_step_def live_cursor_def)
  qed
  then show ?thesis using d(1,2) s s' p by (simp add: receive_def runtime_feed_def pipeline_ok_def split: if_split_asm)
qed

definition pipeline_view :: "jsstr \<Rightarrow> pipeline \<Rightarrow> view" where
  "pipeline_view k p = runtime_view k (fst p)"

lemma receive_follows:
  assumes ok: "pipeline_ok config (sessionKey host session) p" and f: "wire_frame host session f"
    and a: "admissible f (pipeline_view (sessionKey host session) p)"
  shows "pipeline_view (sessionKey host session) (receive pl config f p) = runtime_view (sessionKey host session) (runtime_feed f (fst p))"
    and "pipeline_ok config (sessionKey host session) (receive pl config f p)"
  using receive_view [OF ok f] a by (simp_all add: pipeline_view_def)

interpretation pipeline: follower "pipeline_view (sessionKey host session)" "receive pl config"
  "pipeline_ok config (sessionKey host session)" "wire_frame host session" for host session pl config
proof (unfold_locales, goal_cases)
  case (1 p f)
  then show ?case by (rule receive_follows(2))
next
  case (2 p f c)
  then have "runtime_ok (fst p)" by (simp add: pipeline_ok_def)
  from runtime.view_live [OF this 2(2,3)] show ?case
    using receive_follows(1) [OF 2(1,2) live_admissible [OF 2(3)]] by (simp add: pipeline_view_def)
next
  case (3 p g)
  then have "runtime_ok (fst p)" by (simp add: pipeline_ok_def)
  from runtime.view_gap [OF this 3(2)] show ?case
    using receive_follows(1) [OF 3] by (simp add: pipeline_view_def)
next
  case (4 p sf)
  then have "runtime_ok (fst p)" by (simp add: pipeline_ok_def)
  from runtime.view_snapshot [OF this 4(2)] show ?case
    using receive_follows(1) [OF 4(1,2)] 4(3) by (simp add: pipeline_view_def)
qed

lemma pipeline_settled:
  assumes "pipeline_ok config k p" "pipeline_view k p = (Some c, False)"
  shows "runtime_view k (fst p) = (Some c, False)" "client_view k (snd p) = (Some c, False)"
  using assms by (auto simp: pipeline_ok_def in_step_def pipeline_view_def prod_eq_iff)

lemma reattach_view: "runtime_ok rt \<Longrightarrow> reattach_cursor host session rt = fst (runtime_view (sessionKey host session) rt)"
  by (simp add: runtime_ok_def journal_sound_def reattach_cursor_def runtime_view_def)

text \<open>The frames of a replay pass the wire's guards when the host's ids, epoch and sequence do.\<close>

definition wire_session :: "jsstr \<Rightarrow> jsstr \<Rightarrow> cursor \<Rightarrow> bool" where
  "wire_session host session c \<longleftrightarrow>
     id_guard (JStr host) = Inr host \<and> id_guard (JStr session) = Inr session \<and>
     controlFree (JStr (epoch c)) max_epoch_bytes = Inr (epoch c) \<and> 0 \<le> seq c \<and> is_safe_integer (seq c)"

lemma wire_cursor_upto:
  "wire_session host session c \<Longrightarrow> epoch d = epoch c \<Longrightarrow> 0 \<le> seq d \<Longrightarrow> seq d \<le> seq c \<Longrightarrow> wire_cursor d"
  by (auto simp: wire_session_def wire_cursor_def is_safe_integer_def intro: cursor_roundtrip)

lemma frame_of_wire:
  assumes "wire_session host session c" "frame_of host session f" "frameCursor f = Some d" "wire_cursor d"
  shows "wire_frame host session f"
  using assms by (cases f) (simp_all add: wire_frame_def wire_session_def)

lemma chain_wire:
  assumes "wire_session host session \<lparr>epoch = e, seq = b\<rparr>" "chain e a fs b" "0 \<le> a" "list_all (frame_of host session) fs"
  shows "list_all (wire_frame host session) fs"
  unfolding list_all_iff
proof
  fix f assume f: "f \<in> set fs"
  obtain d where d: "frameCursor f = Some d" "epoch d = e" "a < seq d" "seq d \<le> b" using chain_frames [OF assms(2) f] by blast
  have "wire_cursor d" by (rule wire_cursor_upto [OF assms(1)]) (use d assms(3) in simp_all)
  then show "wire_frame host session f" using frame_of_wire [OF assms(1)] assms(4) f d(1) by (simp add: list_all_iff)
qed

lemma leads_wire:
  assumes "wire_session host session c'" "leads_to c fs c'" "list_all (frame_of host session) fs"
  shows "list_all (wire_frame host session) fs"
  using assms(2) unfolding leads_to_def
proof (elim disjE exE conjE)
  assume "chain (epoch c) (seq c) fs (seq c')" "0 \<le> seq c" "epoch c = epoch c'"
  then show ?thesis using chain_wire [of host session "epoch c'" "seq c'" "seq c" fs] assms(1,3) by (cases c') auto
next
  fix g sf assume fs: "fs = [FGap g, FSnapshot sf]" "gf_to g = c'" "sf_cursor sf = c'"
  have "wire_cursor c'" using wire_cursor_upto [OF assms(1), of c'] assms(1) by (simp add: wire_session_def)
  then show ?thesis using fs assms(1,3) by (auto simp: wire_frame_def wire_session_def)
qed

text \<open>Frames at or behind the projection's cursor do not change it.\<close>

definition behind_frame :: "jsstr \<Rightarrow> jsstr \<Rightarrow> cursor \<Rightarrow> projection_frame \<Rightarrow> bool" where
  "behind_frame host session c f \<longleftrightarrow>
     frame_of host session f \<and>
     (case f of FSnapshot sf \<Rightarrow> epoch (sf_cursor sf) = epoch c \<and> seq (sf_cursor sf) < seq c
      | _ \<Rightarrow> (case live_cursor f of None \<Rightarrow> False | Some d \<Rightarrow> epoch d = epoch c \<and> seq d \<le> seq c))"

lemma behind_feed:
  assumes "client_view (key host session) s = (Some c, False)" "behind_frame host session c f"
  shows "client_feed pl config f s = s"
proof -
  obtain p where p: "jm_get (sn_sessions s) (key host session) = Some p" "sp_cursor p = Some c" "sp_freshness p \<noteq> CatchingUp"
    using assms(1) by (auto simp: client_view_def session_view_def split: option.splits)
  have "frame_of host session f" using assms(2) by (simp add: behind_frame_def)
  then show ?thesis
    by (cases rule: frame_of_cases)
      (use p assms(2) in \<open>simp_all add: behind_frame_def live_cursor_def client_feed_def apply_session_frames reduceEntry_def
        reduceEvent_def reduceSnapshot_def live_order_def cursorState_def Let_def\<close>)
qed

lemma chain_behind:
  assumes "chain (epoch c) a fs b" "b \<le> seq c" "list_all (frame_of host session) fs" "list_all (\<lambda>f. live_cursor f \<noteq> None) fs"
  shows "list_all (behind_frame host session c) fs"
  unfolding list_all_iff
proof
  fix f assume f: "f \<in> set fs"
  obtain d where "frameCursor f = Some d" "epoch d = epoch c" "seq d \<le> b" using chain_frames [OF assms(1) f] by blast
  then show "behind_frame host session c f" using assms(2-4) f
    by (cases f) (auto simp: behind_frame_def live_cursor_def list_all_iff)
qed

lemma fst_receives: "fst (fold (receive pl config) fs p) = fold runtime_feed fs (fst p)"
  by (induction fs arbitrary: p) (auto simp: receive_def runtime_feed_def split: sum.splits)

lemma behind_receives:
  "client_view (key host session) (snd p) = (Some c, False) \<Longrightarrow> list_all (behind_frame host session c) fs \<Longrightarrow>
   snd (fold (receive pl config) fs p) = snd p"
proof (induction fs arbitrary: p)
  case (Cons f fs)
  then have "snd (receive pl config f p) = snd p" using behind_feed [of host session "snd p" c f]
    by (simp add: receive_def split: sum.splits prod.splits)
  then show ?case using Cons by simp
qed simp

subsection \<open>Properties\<close>

text \<open>
  C1: The whole client resumes. Take a runtime and its projection in step on a session that is not
  desynchronised, and any host state reached from a new session projection by its methods, that is
  ready to build a snapshot and whose ids and cursor pass the wire's guards. Replaying from the
  cursor the runtime sends when it reattaches returns. If that cursor is of another epoch than the
  host's, or of its epoch, not negative and not ahead of the host, then after the replayed frames
  went through the runtime's filter the runtime and the projection both stand at the host's cursor
  with nothing lost, still in step, and the next reattach resumes from there. If it is ahead of the
  host within the epoch, as after the host has built the session's projection anew, nothing is
  replayed: the runtime and the projection stay at their cursor, both taking the session for
  synchronised, and the next reattach sends the same cursor.
\<close>

theorem pipeline_catches_up:
  assumes reach: "(host_step digest compare)\<^sup>*\<^sup>* (newSessionProjection digest host rcd ep n) h"
    and ready: "snapshot_ready digest h" and wire: "wire_session host (sr_sessionId rcd) (hp_cursor h)"
    and ok: "pipeline_ok config (sessionKey host (sr_sessionId rcd)) p"
    and sent: "reattach_cursor host (sr_sessionId rcd) (fst p) = Some c"
    and synced: "sessionKey host (sr_sessionId rcd) \<notin> set (rt_desynced (fst p))"
    and c: "epoch c = epoch (hp_cursor h) \<Longrightarrow> 0 \<le> seq c"
    and target: "target = (if epoch c = epoch (hp_cursor h) \<and> seq (hp_cursor h) < seq c then c else hp_cursor h)"
  shows "\<exists>fs p'. replay digest c h = Some (Inr fs) \<and> p' = fold (receive pl config) fs p \<and>
    pipeline_ok config (sessionKey host (sr_sessionId rcd)) p' \<and>
    runtime_view (sessionKey host (sr_sessionId rcd)) (fst p') = (Some target, False) \<and>
    client_view (key host (sr_sessionId rcd)) (snd p') = (Some target, False) \<and>
    reattach_cursor host (sr_sessionId rcd) (fst p') = Some target \<and>
    (target \<noteq> hp_cursor h \<longrightarrow> fs = [])"
proof -
  let ?k = "sessionKey host (sr_sessionId rcd)"
  have ring: "ring_ok h" and adv: "advanced (newSessionProjection digest host rcd ep n) h"
    using host_steps_ring [OF reach new_projection_ring] by simp_all
  have ids: "hp_hostId h = host" "hp_sessionId h = sr_sessionId rcd"
    using adv by (simp_all add: advanced_def newSessionProjection_def Let_def)
  obtain fs where fs: "replay digest c h = Some (Inr fs)" "leads_to c fs target"
      "list_all (frame_of host (sr_sessionId rcd)) fs" "target = hp_cursor h \<or> fs = []"
    using replay_resumes [OF ring ready, of c] c unfolding ids target resumed_def by blast
  have rt: "runtime_ok (fst p)" using ok by (simp add: pipeline_ok_def)
  have wired: "list_all (wire_frame host (sr_sessionId rcd)) fs"
    using fs(4) leads_wire [OF wire _ fs(3)] fs(2) by (elim disjE) simp_all
  have "pipeline_view ?k p = (Some c, False)"
    using sent synced reattach_view [OF rt] by (simp add: pipeline_view_def runtime_view_def)
  from pipeline.leads [OF ok wired this fs(2), of pl]
  have p': "pipeline_ok config ?k (fold (receive pl config) fs p)" "pipeline_view ?k (fold (receive pl config) fs p) = (Some target, False)"
    by simp_all
  then have "runtime_ok (fst (fold (receive pl config) fs p))" by (simp add: pipeline_ok_def)
  then show ?thesis using fs(1,4) p' pipeline_settled [OF p'] reattach_view by (auto simp: key_sessionKey)
qed

text \<open>
  C32: A desynchronised session does not recover from the frames it misses. While the runtime marks a
  session as lost, a sequence of live frames that continues exactly from its cursor, which is what
  the host replays from its ring when the runtime reattaches with that cursor, leaves the runtime
  lost at the same cursor, and nothing reaches the projection.
\<close>

theorem desynced_session_refuses_replay:
  assumes "pipeline_ok config (sessionKey host session) p" "runtime_view (sessionKey host session) (fst p) = (Some c, True)"
    and "reattach_cursor host session (fst p) = Some c"
    and "chain (epoch c) (seq c) fs b" "0 \<le> seq c" "wire_session host session \<lparr>epoch = epoch c, seq = b\<rparr>"
    and "list_all (frame_of host session) fs" "list_all (\<lambda>f. live_cursor f \<noteq> None) fs"
  shows "runtime_view (sessionKey host session) (fst (fold (receive pl config) fs p)) = (Some c, True) \<and>
    snd (fold (receive pl config) fs p) = snd p"
proof -
  let ?k = "sessionKey host session"
  have "pipeline_ok config ?k p \<Longrightarrow> runtime_view ?k (fst p) = (Some c, True) \<Longrightarrow> list_all (wire_frame host session) gs \<Longrightarrow>
      list_all (\<lambda>f. live_cursor f \<noteq> None) gs \<Longrightarrow>
      runtime_view ?k (fst (fold (receive pl config) gs p)) = (Some c, True) \<and> snd (fold (receive pl config) gs p) = snd p" for gs p
  proof (induction gs arbitrary: p)
    case (Cons f gs)
    then obtain d where d: "live_cursor f = Some d" and f: "wire_frame host session f" by auto
    have rt: "runtime_ok (fst p)" using Cons.prems(1) by (simp add: pipeline_ok_def)
    obtain rt' q where "dispatch f (fst p) = Inr (rt', q)" "q \<longleftrightarrow> continues d (runtime_view ?k (fst p))"
      using dispatch_view [OF rt f] d by auto
    then have "snd (receive pl config f p) = snd p" using Cons.prems(2) by (simp add: receive_def continues_def)
    moreover have "runtime_view ?k (fst (receive pl config f p)) = (Some c, True)" "pipeline_ok config ?k (receive pl config f p)"
      using pipeline.view_live [OF Cons.prems(1) f d, of pl] pipeline.ok_feed [OF Cons.prems(1) f live_admissible [OF d], of pl] Cons.prems(2)
      by (simp_all add: pipeline_view_def)
    ultimately show ?case using Cons.IH [of "receive pl config f p"] Cons.prems(3,4) by simp
  qed simp
  then show ?thesis using assms(1,2,8) chain_wire [OF assms(6,4,5,7)] by simp
qed

text \<open>
  C33: A snapshot below the projection's cursor splits the pipeline. The runtime takes every snapshot
  as a reset, also one of the same epoch below its cursor, and then publishes the live frames that
  continue from it; the projection ignores that snapshot and all these frames up to its own cursor,
  so it shows the old transcript while the runtime counts the session as synchronised.
\<close>

theorem lower_snapshot_ignored_by_projection:
  assumes "pipeline_ok config (sessionKey host session) p" "runtime_view (sessionKey host session) (fst p) = (Some c, False)"
    and "wire_frame host session (FSnapshot sf)" "epoch (sf_cursor sf) = epoch c" "seq (sf_cursor sf) < seq c" "0 \<le> seq (sf_cursor sf)"
    and "chain (epoch c) (seq (sf_cursor sf)) fs b" "b \<le> seq c" "wire_session host session \<lparr>epoch = epoch c, seq = b\<rparr>"
    and "list_all (frame_of host session) fs" "list_all (\<lambda>f. live_cursor f \<noteq> None) fs"
  shows "runtime_view (sessionKey host session) (fst (fold (receive pl config) (FSnapshot sf # fs) p)) =
      (Some \<lparr>epoch = epoch c, seq = b\<rparr>, False) \<and>
    snd (fold (receive pl config) (FSnapshot sf # fs) p) = snd p"
proof -
  let ?k = "sessionKey host session" and ?rt = "runtime_feed (FSnapshot sf) (fst p)"
  have rt: "runtime_ok (fst p)" using assms(1) by (simp add: pipeline_ok_def)
  have "runtime_ok ?rt" "runtime_view ?k ?rt = (Some \<lparr>epoch = epoch c, seq = seq (sf_cursor sf)\<rparr>, False)"
    using dispatch_view [OF rt assms(3)] assms(4) by (auto simp: runtime_feed_def)
  from runtime.follows_chain [OF assms(7) this(1) chain_wire [OF assms(9,7,6,10)] this(2)]
  have "runtime_view ?k (fold runtime_feed (FSnapshot sf # fs) (fst p)) = (Some \<lparr>epoch = epoch c, seq = b\<rparr>, False)" by simp
  moreover have "client_view (key host session) (snd p) = (Some c, False)"
    using pipeline_settled(2) [OF assms(1)] assms(2) by (simp add: pipeline_view_def key_sessionKey)
  moreover have "list_all (behind_frame host session c) (FSnapshot sf # fs)"
    using assms(3-5) chain_behind [OF assms(7,8,10,11)] by (simp add: behind_frame_def wire_frame_def)
  ultimately show ?thesis by (simp only: fst_receives behind_receives)
qed

subsection \<open>The reconnect budget\<close>

datatype health_event = Pong | Responded jsstr jsval "cursor option" | Progressed jsstr cursor bool

fun health_step :: "nat \<Rightarrow> health_event \<Rightarrow> reconnect_health \<Rightarrow> reconnect_health" where
  "health_step g Pong h = acceptPong g h"
| "health_step g (Responded k result current) h = acceptAttachResponse g k result current h"
| "health_step g (Progressed k c snapshot_seen) h = acceptReplayProgress g k c snapshot_seen h"

text \<open>What the events say of a session: its attach was answered, and its replay reached the answer's cursor.\<close>

definition answered :: "jsstr \<Rightarrow> health_event list \<Rightarrow> bool" where
  "answered k es \<longleftrightarrow> (\<exists>result current. Responded k result current \<in> set es)"

definition target_named :: "jsstr \<Rightarrow> cursor \<Rightarrow> health_event list \<Rightarrow> bool" where
  "target_named k t es \<longleftrightarrow> (\<exists>result current. Responded k result current \<in> set es \<and> decodeCursor (get_prop result ''cursor'') = Inr t)"

definition stood_at :: "jsstr \<Rightarrow> cursor \<Rightarrow> health_event list \<Rightarrow> bool" where
  "stood_at k c es \<longleftrightarrow> (\<exists>result. Responded k result (Some c) \<in> set es) \<or> (\<exists>b. Progressed k c b \<in> set es)"

definition snapshot_came :: "jsstr \<Rightarrow> health_event list \<Rightarrow> bool" where
  "snapshot_came k es \<longleftrightarrow> (\<exists>c. Progressed k c True \<in> set es)"

definition replay_done :: "jsstr \<Rightarrow> health_event list \<Rightarrow> bool" where
  "replay_done k es \<longleftrightarrow>
     answered k es \<and>
     (snapshot_came k es \<or> (\<exists>t c. target_named k t es \<and> stood_at k c es \<and> epoch c = epoch t \<and> seq t \<le> seq c))"

lemma event_mono:
  "answered k es \<Longrightarrow> answered k (es @ [e])" "target_named k t es \<Longrightarrow> target_named k t (es @ [e])"
  "stood_at k c es \<Longrightarrow> stood_at k c (es @ [e])" "snapshot_came k es \<Longrightarrow> snapshot_came k (es @ [e])"
  by (auto simp: answered_def target_named_def stood_at_def snapshot_came_def)

lemma replay_done_mono: "replay_done k es \<Longrightarrow> replay_done k (es @ [e])"
  unfolding replay_done_def by (blast intro: event_mono)

text \<open>A probe records no more than what happened.\<close>

definition probe_true :: "jsstr \<Rightarrow> health_event list \<Rightarrow> replay_probe \<Rightarrow> bool" where
  "probe_true k es pb \<longleftrightarrow>
     (pb_responseReceived pb \<longrightarrow> answered k es) \<and> (pb_sawSnapshot pb \<longrightarrow> snapshot_came k es) \<and>
     (\<forall>t. pb_targetCursor pb = Some t \<longrightarrow> target_named k t es)"

definition health_true :: "nat \<Rightarrow> nat \<Rightarrow> jsstr list \<Rightarrow> health_event list \<Rightarrow> reconnect_health \<Rightarrow> bool" where
  "health_true g n ks es h \<longleftrightarrow>
     (rh_heartbeatGeneration h = Some g \<longrightarrow> Pong \<in> set es) \<and>
     (\<forall>k. case jm_get (rh_replay h) k of None \<Rightarrow> k \<in> set ks \<longrightarrow> replay_done k es | Some pb \<Rightarrow> probe_true k es pb) \<and>
     (rh_resets h = n \<or> Pong \<in> set es \<and> (\<forall>k \<in> set ks. replay_done k es))"

lemma probe_true_mono: "probe_true k es pb \<Longrightarrow> probe_true k (es @ [e]) pb"
  by (auto simp: probe_true_def event_mono)

lemma health_true_mono: "health_true g n ks es h \<Longrightarrow> health_true g n ks (es @ [e]) h"
  by (fastforce simp: health_true_def replay_done_mono probe_true_mono split: option.splits)

lemma maybeReset_true: "health_true g n ks es h \<Longrightarrow> health_true g n ks es (maybeReset g h)"
  by (auto simp: health_true_def maybeReset_def)

lemma complete_done:
  assumes "probe_true k es pb" "isComplete pb co" "\<And>c. co = Some c \<Longrightarrow> stood_at k c es"
  shows "replay_done k es"
  using assms by (auto simp: probe_true_def isComplete_def replay_done_def split: option.splits)

lemma settle_probe_true:
  assumes "health_true g n ks es h" "probe_true k es pb" "\<And>c. co = Some c \<Longrightarrow> stood_at k c es"
  shows "health_true g n ks es (settle_probe g k pb co h)"
proof -
  have a: "health_true g n ks es (h\<lparr>rh_replay := jm_set k pb (rh_replay h)\<rparr>)"
    using assms(1,2) by (auto simp: health_true_def)
  have "health_true g n ks es (h\<lparr>rh_replay := jm_delete k (jm_set k pb (rh_replay h))\<rparr>)" if "isComplete pb co"
    using assms(1) complete_done [OF assms(2) that assms(3)] by (auto simp: health_true_def)
  then show ?thesis using a by (simp add: settle_probe_def Let_def maybeReset_true)
qed

lemma current_probe_true:
  assumes "health_true g n ks es h" "currentProbe g k h = Some pb"
  shows "probe_true k es pb"
proof -
  have "jm_get (rh_replay h) k = Some pb" using assms(2) by (auto simp: currentProbe_def split: option.splits if_splits)
  moreover have "case jm_get (rh_replay h) k of None \<Rightarrow> k \<in> set ks \<longrightarrow> replay_done k es | Some pb \<Rightarrow> probe_true k es pb"
    using assms(1) by (simp add: health_true_def)
  ultimately show ?thesis by simp
qed

lemma health_step_true:
  assumes "health_true g n ks es h"
  shows "health_true g n ks (es @ [e]) (health_step g e h)"
proof (cases e)
  case Pong
  then have "health_true g n ks (es @ [e]) (h\<lparr>rh_heartbeatGeneration := Some g\<rparr>)"
    using health_true_mono [OF assms, of e] by (simp add: health_true_def)
  then show ?thesis using maybeReset_true by (simp add: Pong acceptPong_def)
next
  case (Responded k result current)
  let ?pb = "\<lambda>pb. case decodeCursor (get_prop result ''cursor'') of
      Inl e \<Rightarrow> pb\<lparr>pb_responseReceived := True\<rparr> | Inr c \<Rightarrow> pb\<lparr>pb_responseReceived := True, pb_targetCursor := Some c\<rparr>"
  have "probe_true k (es @ [e]) (?pb pb)" if "probe_true k es pb" for pb
    using probe_true_mono [OF that, of e] Responded
    by (auto simp: probe_true_def answered_def target_named_def split: sum.splits)
  then have "health_true g n ks (es @ [e]) (settle_probe g k (?pb pb) current h)" if "currentProbe g k h = Some pb" for pb
    by (intro settle_probe_true health_true_mono assms) (use current_probe_true [OF assms that] Responded in \<open>auto simp: stood_at_def\<close>)
  then show ?thesis using health_true_mono [OF assms, of e]
    by (auto simp: Responded acceptAttachResponse_def Let_def split: option.splits sum.splits)
next
  case (Progressed k c b)
  have "probe_true k (es @ [e]) (if b then pb\<lparr>pb_sawSnapshot := True\<rparr> else pb)" if "probe_true k es pb" for pb
    using probe_true_mono [OF that, of e] Progressed by (auto simp: probe_true_def snapshot_came_def)
  then have "health_true g n ks (es @ [e]) (settle_probe g k (if b then pb\<lparr>pb_sawSnapshot := True\<rparr> else pb) (Some c) h)"
    if "currentProbe g k h = Some pb" for pb
    by (intro settle_probe_true health_true_mono assms) (use current_probe_true [OF assms that] Progressed in \<open>auto simp: stood_at_def\<close>)
  then show ?thesis using health_true_mono [OF assms, of e]
    by (auto simp: Progressed acceptReplayProgress_def Let_def split: option.splits)
qed

lemma welcome_replay:
  "jm_get (rh_replay (fold (\<lambda>k h. h\<lparr>rh_replay := jm_set k pb (rh_replay h)\<rparr>) ks h)) i =
     (if i \<in> set ks then Some pb else jm_get (rh_replay h) i)"
  "rh_resets (fold (\<lambda>k h. h\<lparr>rh_replay := jm_set k pb (rh_replay h)\<rparr>) ks h) = rh_resets h"
  "rh_heartbeatGeneration (fold (\<lambda>k h. h\<lparr>rh_replay := jm_set k pb (rh_replay h)\<rparr>) ks h) = rh_heartbeatGeneration h"
  by (induction ks arbitrary: h) auto

lemma beginWelcome_true: "health_true g (rh_resets h) ks [] (beginWelcome g ks h)"
  by (simp add: health_true_def beginWelcome_def welcome_replay clearHealth_def probe_true_def)

text \<open>
  C16: The reconnect budget is restored only by a healthy connection. After a welcome that found the
  sessions \<open>ks\<close> attached, if the attempts counter was reset, then a pong of this connection came,
  and for each of these sessions the attach was answered and either a snapshot came or the client
  stood at or past the cursor an answer named, in the same epoch.
\<close>

theorem reset_needs_every_session:
  assumes "rh_resets (fold (health_step g) es (beginWelcome g ks h)) \<noteq> rh_resets h"
  shows "Pong \<in> set es \<and> (\<forall>k \<in> set ks. replay_done k es)"
proof -
  have "health_true g (rh_resets h) ks es (fold (health_step g) es (beginWelcome g ks h))"
    by (induction es rule: rev_induct) (simp_all add: beginWelcome_true health_step_true)
  then show ?thesis using assms by (simp add: health_true_def)
qed

text \<open>The budget is restored: a welcome with one session, its answer, its snapshot and a pong.\<close>

definition healthy_events :: "health_event list" where
  "healthy_events = [Responded (js ''k'') (JObj []) None, Progressed (js ''k'') \<lparr>epoch = js ''e'', seq = 0\<rparr> True, Pong]"

theorem reset_needs_every_session_witness:
  "rh_resets (fold (health_step 1) healthy_events (beginWelcome 1 [js ''k''] newReconnectHealth)) = 1 \<and>
   replay_done (js ''k'') healthy_events"
proof -
  obtain err where err: "decodeCursor (get_prop (JObj []) ''cursor'') = Inl err"
    by (cases "validateJson JUndef") (auto simp: get_prop_JObj decodeCursor_def inputObject_def object_guard_def bind_ok_def)
  have "rh_resets (fold (health_step 1) healthy_events (beginWelcome 1 [js ''k''] newReconnectHealth)) = 1"
    by (simp add: healthy_events_def beginWelcome_def clearHealth_def newReconnectHealth_def acceptAttachResponse_def
        acceptReplayProgress_def currentProbe_def settle_probe_def isComplete_def acceptPong_def maybeReset_def Let_def js_simps jm_get_Cons err)
  then show ?thesis using reset_needs_every_session [of 1 healthy_events "[js ''k'']" newReconnectHealth]
    by (simp add: newReconnectHealth_def)
qed

subsection \<open>Examples\<close>

definition new_runtime :: omp_runtime where
  "new_runtime = \<lparr>rt_generation = 1, rt_journal = newCursorJournal True, rt_desynced = [], rt_cursor = None, rt_epoch = None,
     rt_health = newReconnectHealth, rt_recoveries = [], rt_errors = []\<rparr>"

definition started :: pipeline where
  "started = receive follow_platform default_options (FSnapshot follow_start) (new_runtime, createProjectionSnapshot)"

lemma sample_wire_session: "0 \<le> n \<Longrightarrow> n \<le> 9 \<Longrightarrow> wire_session (js ''h'') (js ''s'') \<lparr>epoch = js ''e'', seq = n\<rparr>"
  using sample_records_valid
  by (auto simp: wire_session_def valid_record_def old_cursor_record_def is_safe_integer_def max_safe_integer_def controlFree_Inr js_def
      utf8ByteLength.simps bind_ok_def max_epoch_bytes_def is_control_def)

lemma follow_start_wire: "wire_frame (js ''h'') (js ''s'') (FSnapshot follow_start)"
  using frame_of_wire [OF sample_wire_session [of 0], of "FSnapshot follow_start"] wire_cursor_upto [OF sample_wire_session [of 0], of "sf_cursor follow_start"]
  by (simp add: follow_start_def)

lemma started_facts:
  "pipeline_ok default_options (sessionKey (js ''h'') (js ''s'')) started"
  "runtime_view (sessionKey (js ''h'') (js ''s'')) (fst started) = (Some \<lparr>epoch = js ''e'', seq = 0\<rparr>, False)"
  "sessionKey (js ''h'') (js ''s'') \<notin> set (rt_desynced (fst started))"
  "reattach_cursor (js ''h'') (js ''s'') (fst started) = Some \<lparr>epoch = js ''e'', seq = 0\<rparr>"
proof -
  let ?k = "sessionKey (js ''h'') (js ''s'')" and ?p = "(new_runtime, createProjectionSnapshot)"
  have ok: "pipeline_ok default_options ?k ?p"
    using empty_client_ok
    by (simp add: pipeline_ok_def in_step_def runtime_ok_def journal_sound_def new_runtime_def newCursorJournal_def client_view_def
        session_view_def runtime_view_def createProjectionSnapshot_def)
  note f = follow_start_wire
  have a: "ahead (sf_cursor follow_start) (fst (pipeline_view ?k ?p))"
    by (simp add: ahead_def pipeline_view_def runtime_view_def new_runtime_def newCursorJournal_def)
  show p: "pipeline_ok default_options ?k started"
    using pipeline.ok_feed [OF ok f, of follow_platform] a by (simp add: started_def)
  show v: "runtime_view ?k (fst started) = (Some \<lparr>epoch = js ''e'', seq = 0\<rparr>, False)"
    using pipeline.view_snapshot [OF ok f a, of follow_platform] by (simp add: started_def pipeline_view_def follow_start_def)
  then show "?k \<notin> set (rt_desynced (fst started))" by (simp add: runtime_view_def)
  show "reattach_cursor (js ''h'') (js ''s'') (fst started) = Some \<lparr>epoch = js ''e'', seq = 0\<rparr>"
    using p v reattach_view [of "fst started"] by (simp add: pipeline_ok_def)
qed

theorem pipeline_catches_up_witness:
  "\<exists>fs p'. replay zero_digest \<lparr>epoch = js ''e'', seq = 0\<rparr> follow_host_later = Some (Inr fs) \<and>
    p' = fold (receive follow_platform default_options) fs started \<and>
    runtime_view (sessionKey (js ''h'') (js ''s'')) (fst p') = (Some \<lparr>epoch = js ''e'', seq = 1\<rparr>, False) \<and>
    client_view (key (js ''h'') (js ''s'')) (snd p') = (Some \<lparr>epoch = js ''e'', seq = 1\<rparr>, False)"
  using pipeline_catches_up [where digest = zero_digest and host = "js ''h''" and rcd = follow_record and ep = "js ''e''" and n = 4 and p = started
      and c = "\<lparr>epoch = js ''e'', seq = 0\<rparr>" and pl = follow_platform and config = default_options, folded follow_host_def, OF follow_host_facts(1,3)]
    started_facts sample_wire_session [of 1] follow_host_facts(5)
  by (auto simp: follow_record_def)

definition live_event :: "int \<Rightarrow> projection_frame" where
  "live_event n = FEvent \<lparr>vf_cursor = \<lparr>epoch = js ''e'', seq = n\<rparr>, vf_hostId = js ''h'', vf_sessionId = js ''s'', vf_event = JObj [], vf_rest = []\<rparr>"

lemma live_event_simps [simp]:
  "live_cursor (live_event n) = Some \<lparr>epoch = js ''e'', seq = n\<rparr>" "frame_of (js ''h'') (js ''s'') (live_event n)"
  by (simp_all add: live_event_def live_cursor_def)

lemma live_event_wire: "0 \<le> n \<Longrightarrow> n \<le> 9 \<Longrightarrow> wire_frame (js ''h'') (js ''s'') (live_event n)"
  using frame_of_wire [OF sample_wire_session, of n "live_event n"] wire_cursor_upto [OF sample_wire_session, of n "\<lparr>epoch = js ''e'', seq = n\<rparr>"]
  by (simp add: live_event_def)

lemma one_event_chain: "chain (js ''e'') 0 [live_event 1] 1"
  using chain_event [of "\<lparr>vf_cursor = \<lparr>epoch = js ''e'', seq = 1\<rparr>, vf_hostId = js ''h'', vf_sessionId = js ''s'', vf_event = JObj [], vf_rest = []\<rparr>"
      "js ''e''" 0 "[]" 1] chain_end [of "js ''e''" 1]
  by (simp add: live_event_def)

lemma event_received:
  fixes n
  defines "p \<equiv> receive follow_platform default_options (live_event n) started"
  assumes "0 \<le> n" "n \<le> 9"
  shows "pipeline_ok default_options (sessionKey (js ''h'') (js ''s'')) p"
    and "runtime_view (sessionKey (js ''h'') (js ''s'')) (fst p) = follow_live \<lparr>epoch = js ''e'', seq = n\<rparr> (Some \<lparr>epoch = js ''e'', seq = 0\<rparr>, False)"
  using pipeline.ok_feed [OF started_facts(1) live_event_wire [OF assms(2,3)] live_admissible, of _ follow_platform]
    pipeline.view_live [OF started_facts(1) live_event_wire [OF assms(2,3)], of _ follow_platform] started_facts(2)
  by (simp_all add: p_def pipeline_view_def)

text \<open>Event 2 arrives before event 1: the session is lost, and event 1 does not bring it back.\<close>

definition lost :: pipeline where
  "lost = receive follow_platform default_options (live_event 2) started"

theorem desynced_session_refuses_replay_witness:
  "runtime_view (sessionKey (js ''h'') (js ''s'')) (fst lost) = (Some \<lparr>epoch = js ''e'', seq = 0\<rparr>, True) \<and>
   chain (js ''e'') 0 [live_event 1] 1 \<and>
   runtime_view (sessionKey (js ''h'') (js ''s'')) (fst (fold (receive follow_platform default_options) [live_event 1] lost)) =
     (Some \<lparr>epoch = js ''e'', seq = 0\<rparr>, True)"
proof -
  have l: "pipeline_ok default_options (sessionKey (js ''h'') (js ''s'')) lost"
    "runtime_view (sessionKey (js ''h'') (js ''s'')) (fst lost) = (Some \<lparr>epoch = js ''e'', seq = 0\<rparr>, True)"
    using event_received [of 2] by (simp_all add: lost_def follow_live_def)
  then have "reattach_cursor (js ''h'') (js ''s'') (fst lost) = Some \<lparr>epoch = js ''e'', seq = 0\<rparr>"
    using reattach_view [of "fst lost"] by (simp add: pipeline_ok_def)
  from desynced_session_refuses_replay [OF l this, of "[live_event 1]" 1 follow_platform]
  show ?thesis using l(2) one_event_chain sample_wire_session [of 1] by simp
qed

text \<open>The session is at event 1 when a rebuilt host sends a snapshot at 0 and another event 1.\<close>

definition stepped :: pipeline where
  "stepped = receive follow_platform default_options (live_event 1) started"

theorem lower_snapshot_ignored_by_projection_witness:
  "runtime_view (sessionKey (js ''h'') (js ''s''))
     (fst (fold (receive follow_platform default_options) [FSnapshot follow_start, live_event 1] stepped)) =
       (Some \<lparr>epoch = js ''e'', seq = 1\<rparr>, False) \<and>
   snd (fold (receive follow_platform default_options) [FSnapshot follow_start, live_event 1] stepped) = snd stepped"
proof -
  have l: "pipeline_ok default_options (sessionKey (js ''h'') (js ''s'')) stepped"
    "runtime_view (sessionKey (js ''h'') (js ''s'')) (fst stepped) = (Some \<lparr>epoch = js ''e'', seq = 1\<rparr>, False)"
    using event_received [of 1] by (simp_all add: stepped_def follow_live_def)
  show ?thesis
    using lower_snapshot_ignored_by_projection [OF l follow_start_wire, of "[live_event 1]" 1 follow_platform]
      one_event_chain sample_wire_session [of 1] by (simp add: follow_start_def)
qed

end
