(* ===== verification/ProjectionCache.thy ===== *)
theory ProjectionCache
  imports ProjectionReducer
begin

text \<open>
  The cache of the client projection (client/src/projection-cache.ts): how a snapshot becomes the
  envelope that is stored, within the byte limit, and how an envelope becomes a snapshot again.
  Members of an object are listed in the order the interfaces declare them; the order changes
  neither the size of the text nor what is read back. The text of an envelope is
  \<open>JSON.stringify\<close> of its value.
\<close>

definition projection_cache_version :: int where "projection_cache_version = 2"
definition max_projection_cache_bytes :: nat where "max_projection_cache_bytes = 2 * 1024 * 1024"
definition max_projection_cache_sessions :: nat where "max_projection_cache_sessions = 8"
definition max_projection_cache_transcript_bytes :: int where "max_projection_cache_transcript_bytes = 1572864"

subsection \<open>Safe copies\<close>

text \<open>\<open>safeJson(value, depth)\<close> by recursion on the levels left, \<open>6 - depth\<close>.\<close>

primrec safe_json :: "nat \<Rightarrow> jsval \<Rightarrow> jsval" where
  "safe_json 0 = (\<lambda>v. JUndef)"
| "safe_json (Suc left) = (\<lambda>v. case v of
      JUndef \<Rightarrow> JUndef
    | JNull \<Rightarrow> JNull
    | JBool b \<Rightarrow> JBool b
    | JStr s \<Rightarrow> JStr s
    | JNum n \<Rightarrow> if is_finite n then JNum n else JUndef
    | JArr xs \<Rightarrow> JArr (filter (\<lambda>x. x \<noteq> JUndef) (map (safe_json left) (take 1024 xs)))
    | JFun \<Rightarrow> JUndef
    | JObj kvs \<Rightarrow> JObj (safe_members (safe_json left) (take 1024 (own_entries kvs)) []))"

definition safeJson :: "jsval \<Rightarrow> jsval" where
  "safeJson v = safe_json 6 v"

definition arrayFromMap :: "('v \<Rightarrow> jsval) \<Rightarrow> (jsstr, 'v) jsmap \<Rightarrow> (jsstr \<times> jsval) list" where
  "arrayFromMap val m = map (\<lambda>(k, v). (k, safeJson (val v))) m"

text \<open>\<open>array.slice(-n)\<close>\<close>

definition last_n :: "nat \<Rightarrow> 'a list \<Rightarrow> 'a list" where
  "last_n n xs = drop (length xs - n) xs"

subsection \<open>The objects of a session\<close>

definition error_val :: "result_error \<Rightarrow> jsval" where
  "error_val e = JObj [(js ''code'', JStr (er_code e)), (js ''message'', JStr (er_message e))]"

definition agent_val :: "agent_frame \<Rightarrow> jsval" where
  "agent_val f = JObj (protocol_members ''agent'' @
     [(js ''hostId'', JStr (gt_hostId f)), (js ''sessionId'', JStr (gt_sessionId f)), (js ''agentId'', JStr (gt_agentId f)),
      (js ''state'', JStr (gt_state f))] @ given_member ''progress'' (gt_progress f) @ given_member ''detail'' (gt_detail f))"

definition terminal_val :: "terminal_projection \<Rightarrow> jsval" where
  "terminal_val t = JObj ([(js ''terminalId'', JStr (tp_terminalId t)), (js ''stdout'', JStr (tp_stdout t)),
     (js ''stderr'', JStr (tp_stderr t))] @ opt_member ''exitCode'' int_val (tp_exitCode t) @ [(js ''closed'', JBool (tp_closed t))])"

definition file_val :: "file_frame \<Rightarrow> jsval" where
  "file_val f = JObj (protocol_members ''files'' @
     [(js ''hostId'', JStr (ff_hostId f)), (js ''sessionId'', JStr (ff_sessionId f)), (js ''path'', JStr (ff_path f))] @
     opt_member ''content'' JStr (ff_content f) @ opt_member ''truncated'' JBool (ff_truncated f))"

definition review_val :: "review_frame \<Rightarrow> jsval" where
  "review_val f = JObj (protocol_members ''review'' @
     [(js ''hostId'', JStr (rf_hostId f)), (js ''sessionId'', JStr (rf_sessionId f)), (js ''reviewId'', JStr (rf_reviewId f)),
      (js ''status'', JStr (rf_status f))] @ opt_member ''path'' JStr (rf_path f) @ [(js ''findings'', JArr (rf_findings f))])"

definition audit_val :: "audit_frame \<Rightarrow> jsval" where
  "audit_val f = JObj (protocol_members ''audit'' @
     [(js ''hostId'', JStr (uf_hostId f))] @ opt_member ''sessionId'' JStr (uf_sessionId f) @
     [(js ''action'', JStr (uf_action f)), (js ''actor'', JStr (uf_actor f)), (js ''timestamp'', JStr (uf_timestamp f))] @
     given_member ''detail'' (uf_detail f))"

definition result_val :: "result_projection \<Rightarrow> jsval" where
  "result_val r = JObj ([(js ''requestId'', JStr (rp_requestId r))] @ opt_member ''commandId'' JStr (rp_commandId r) @
     [(js ''ok'', JBool (rp_ok r))] @ given_member ''result'' (rp_result r) @ opt_member ''error'' error_val (rp_error r))"

definition gap_val :: "gap_frame \<Rightarrow> jsval" where
  "gap_val f = JObj (protocol_members ''gap'' @
     [(js ''hostId'', JStr (gf_hostId f)), (js ''sessionId'', JStr (gf_sessionId f)), (js ''from'', cursor_val (gf_from f)),
      (js ''to'', cursor_val (gf_to f)), (js ''reason'', JStr (gf_reason f))])"

definition preview_kind_name :: "preview_kind \<Rightarrow> jsstr" where
  "preview_kind_name k = (case k of PLaunch \<Rightarrow> js ''launch'' | PState \<Rightarrow> js ''state'' | PNavigation \<Rightarrow> js ''navigation''
     | PCapture \<Rightarrow> js ''capture'' | PError \<Rightarrow> js ''error'')"

definition preview_event_val :: "preview_event \<Rightarrow> jsval" where
  "preview_event_val e = JObj ([(js ''type'', JStr (preview_kind_name (pe_type e))), (js ''previewId'', JStr (pe_previewId e)),
     (js ''cursor'', cursor_val (pe_cursor e))] @
     opt_member ''url'' (\<lambda>u. JObj [(js ''origin'', JStr (pu_origin u)), (js ''pathname'', JStr (pu_pathname u)),
       (js ''hasQuery'', JBool (pu_hasQuery u))]) (pe_url e) @
     opt_member ''timestamp'' int_val (pe_timestamp e) @ opt_member ''captureId'' JStr (pe_captureId e) @
     opt_member ''errorCode'' JStr (pe_errorCode e))"

definition capture_val :: "preview_capture \<Rightarrow> jsval" where
  "capture_val c = JObj ([(js ''captureId'', JStr (pc_captureId c)), (js ''capturedAt'', int_val (pc_capturedAt c))] @ pc_rest c)"

definition authority_val :: "preview_authority \<Rightarrow> jsval" where
  "authority_val a = JObj [(js ''id'', JStr (pa_id a)), (js ''label'', JStr (pa_label a)), (js ''kind'', JStr (pa_kind a)),
     (js ''requiresExplicitOptIn'', JBool (pa_requiresExplicitOptIn a))]"

subsection \<open>Encoding\<close>

definition cachedPreviewUrl :: "url_parser \<Rightarrow> jsstr option \<Rightarrow> jsstr option" where
  "cachedPreviewUrl parse url =
     Option.bind url (\<lambda>u. case parse u of None \<Rightarrow> None | Some (origin, pathname, search) \<Rightarrow> Some (origin @ pathname))"

definition cached_preview :: "url_parser \<Rightarrow> preview_projection \<Rightarrow> jsstr \<times> jsval" where
  "cached_preview parse p =
     (previewKey (pp_hostId p) (pp_sessionId p) (pp_previewId p),
      JObj ([(js ''hostId'', JStr (pp_hostId p)), (js ''sessionId'', JStr (pp_sessionId p)), (js ''previewId'', JStr (pp_previewId p))] @
        opt_member ''state'' JStr (pp_state p) @ opt_member ''url'' JStr (cachedPreviewUrl parse (pp_url p)) @
        [(js ''revision'', JStr (pp_revision p)), (js ''cursor'', cursor_val (pp_cursor p))] @
        opt_member ''title'' JStr (pp_title p) @ opt_member ''canGoBack'' JBool (pp_canGoBack p) @
        opt_member ''canGoForward'' JBool (pp_canGoForward p) @ opt_member ''viewport'' id (pp_viewport p) @
        opt_member ''capture'' capture_val (pp_capture p) @ opt_member ''authority'' authority_val (pp_authority p) @
        opt_member ''availableActions'' (\<lambda>as. JArr (map JStr as)) (pp_availableActions p) @
        opt_member ''error'' error_val (pp_error p)))"

definition cachedPreviews :: "url_parser \<Rightarrow> (jsstr, preview_projection) jsmap \<Rightarrow> (jsstr \<times> jsval) list" where
  "cachedPreviews parse previews = map (cached_preview parse) (last_n 32 (jm_values previews))"

definition freshness_name :: "freshness \<Rightarrow> jsstr" where
  "freshness_name f = (case f of Fresh \<Rightarrow> js ''fresh'' | CatchingUp \<Rightarrow> js ''catching-up'' | Cached \<Rightarrow> js ''cached'')"

definition cachedAgentTranscripts :: "(jsstr, agent_transcript) jsmap \<Rightarrow> (jsstr \<times> jsval) list" where
  "cachedAgentTranscripts m =
     map (\<lambda>(agentId, t).
       (agentId, JObj ([(js ''entries'', JArr (map (\<lambda>e. safeJson (entry_val e)) (last_n 64 (at_entries t)))),
          (js ''cursor'', cursor_val (at_cursor t)), (js ''revision'', JStr (at_revision t)),
          (js ''freshness'', JStr (freshness_name (at_freshness t)))] @
          (if at_historyTruncated t \<or> length (at_entries t) > 64 then [(js ''historyTruncated'', JBool True)] else []))))
       (last_n 16 m)"

text \<open>Entries from the newest back, while they fit.\<close>

fun take_fitting :: "int \<Rightarrow> int \<Rightarrow> bool \<Rightarrow> durable_entry list \<Rightarrow> durable_entry list" where
  "take_fitting maxBytes bytes first [] = []"
| "take_fitting maxBytes bytes first (entry # rest) =
     (let entryBytes = retainedJsonBytes (entry_val entry); separator = (if first then 0 else 1) in
      if bytes + separator + entryBytes > maxBytes then []
      else entry # take_fitting maxBytes (bytes + separator + entryBytes) False rest)"

definition cachedEntries :: "durable_entry list \<Rightarrow> int \<Rightarrow> durable_entry list \<times> bool" where
  "cachedEntries entries maxBytes =
     (let retained = rev (take_fitting maxBytes 2 True (rev entries))
      in (retained, length retained < length entries))"

record cached_session =
  cs_hostId :: jsstr
  cs_sessionId :: "jsstr option"
  cs_ref :: "jsval option"
  cs_entries :: "jsval list"
  cs_historyTruncated :: bool
  cs_events :: "jsval list"
  cs_agents :: "(jsstr \<times> jsval) list"
  cs_agentTranscripts :: "(jsstr \<times> jsval) list"
  cs_terminals :: "(jsstr \<times> jsval) list"
  cs_files :: "(jsstr \<times> jsval) list"
  cs_reviews :: "(jsstr \<times> jsval) list"
  cs_audit :: "jsval list"
  cs_results :: "(jsstr \<times> jsval) list"
  cs_previews :: "(jsstr \<times> jsval) list"
  cs_previewEvents :: "jsval list"
  cs_revision :: "jsstr option"
  cs_cursor :: "cursor option"
  cs_epoch :: "jsstr option"
  cs_freshness :: freshness
  cs_gap :: "jsval option"

definition cache_session :: "url_parser \<Rightarrow> session_projection \<Rightarrow> durable_entry list \<Rightarrow> bool \<Rightarrow> cached_session" where
  "cache_session parse s retained truncated =
     \<lparr>cs_hostId = sp_hostId s, cs_sessionId = sp_sessionId s, cs_ref = map_option safeJson (sp_ref s),
      cs_entries = map (\<lambda>e. safeJson (entry_val e)) retained,
      cs_historyTruncated = (sp_historyTruncated s \<or> truncated),
      cs_events = map (\<lambda>e. safeJson (event_val e)) (last_n 512 (sp_events s)),
      cs_agents = arrayFromMap agent_val (sp_agents s),
      cs_agentTranscripts = cachedAgentTranscripts (sp_agentTranscripts s),
      cs_terminals = arrayFromMap terminal_val (sp_terminals s), cs_files = arrayFromMap file_val (sp_files s),
      cs_reviews = arrayFromMap review_val (sp_reviews s),
      cs_audit = map (\<lambda>a. safeJson (audit_val a)) (last_n 256 (sp_audit s)),
      cs_results = arrayFromMap result_val (sp_results s), cs_previews = cachedPreviews parse (sp_previews s),
      cs_previewEvents = map (\<lambda>e. safeJson (preview_event_val e)) (last_n 128 (sp_previewEvents s)),
      cs_revision = sp_revision s, cs_cursor = sp_cursor s, cs_epoch = sp_epoch s, cs_freshness = sp_freshness s,
      cs_gap = map_option (\<lambda>g. safeJson (gap_val g)) (sp_gap s)\<rparr>"

text \<open>The transcript allowance is spent on the sessions in their order.\<close>

fun cache_sessions :: "url_parser \<Rightarrow> int \<Rightarrow> (jsstr \<times> session_projection) list \<Rightarrow> (jsstr \<times> cached_session) list" where
  "cache_sessions parse remaining [] = []"
| "cache_sessions parse remaining ((k, s) # rest) =
     (let (retained, truncated) = cachedEntries (sp_entries s) (max 2 remaining)
      in (k, cache_session parse s retained truncated) #
           cache_sessions parse (max 0 (remaining - retainedJsonBytes (JArr (map entry_val retained)))) rest)"

definition cache_order :: "snapshot \<Rightarrow> jsstr list" where
  "cache_order s = rev (sn_lru s) @ filter (\<lambda>k. k \<notin> set (sn_lru s)) (jm_keys (sn_sessions s))"

definition cachedSessions :: "snapshot \<Rightarrow> (jsstr \<times> session_projection) list" where
  "cachedSessions s =
     List.map_filter (\<lambda>k. map_option (\<lambda>p. (k, p)) (jm_get (sn_sessions s) k)) (take max_projection_cache_sessions (cache_order s))"

record cache_data =
  cd_sessions :: "(jsstr \<times> cached_session) list"
  cd_sessionIndex :: "(jsstr \<times> jsval) list"
  cd_sessionIndexMetadata :: "(jsstr \<times> jsval) list"
  cd_sessionDeltaCursors :: "(jsstr \<times> jsval) list"
  cd_sessionInventoryCursors :: "(jsstr \<times> jsval) list"
  cd_workspaces :: "(jsstr \<times> jsval) list"
  cd_workspaceCursors :: "(jsstr \<times> jsval) list"
  cd_activeSessionKey :: "jsstr option"
  cd_lru :: "jsstr list"
  cd_cursor :: "cursor option"
  cd_epoch :: "jsstr option"

definition metadata_val :: "index_metadata \<Rightarrow> jsval" where
  "metadata_val m = JObj [(js ''totalCount'', int_val (im_totalCount m)), (js ''truncated'', JBool (im_truncated m))]"

definition cache_data_of :: "url_parser \<Rightarrow> snapshot \<Rightarrow> cache_data" where
  "cache_data_of parse s =
     \<lparr>cd_sessions = cache_sessions parse max_projection_cache_transcript_bytes (cachedSessions s),
      cd_sessionIndex = arrayFromMap id (take max_indexed_session_refs (sn_sessionIndex s)),
      cd_sessionIndexMetadata = arrayFromMap metadata_val (take max_indexed_session_refs (sn_sessionIndexMetadata s)),
      cd_sessionDeltaCursors = arrayFromMap cursor_val (take max_indexed_session_refs (sn_sessionDeltaCursors s)),
      cd_sessionInventoryCursors = arrayFromMap cursor_val (take max_indexed_session_refs (sn_sessionInventoryCursors s)),
      cd_workspaces = arrayFromMap workspace_val (take max_indexed_session_refs (sn_workspaces s)),
      cd_workspaceCursors = arrayFromMap cursor_val (take max_indexed_session_refs (sn_workspaceCursors s)),
      cd_activeSessionKey = sn_activeSessionKey s, cd_lru = take max_projection_cache_sessions (sn_lru s),
      cd_cursor = sn_cursor s, cd_epoch = sn_epoch s\<rparr>"

text \<open>What is dropped when the envelope is too large.\<close>

definition compact_session :: "cached_session \<Rightarrow> cached_session" where
  "compact_session c = c\<lparr>cs_entries := last_n 512 (cs_entries c), cs_events := last_n 128 (cs_events c), cs_agentTranscripts := [],
     cs_audit := last_n 64 (cs_audit c), cs_historyTruncated := True\<rparr>"

definition compact_data :: "cache_data \<Rightarrow> cache_data" where
  "compact_data d = d\<lparr>cd_sessions := map (\<lambda>(k, c). (k, compact_session c)) (cd_sessions d)\<rparr>"

subsection \<open>The envelope as a value\<close>

definition pairs_val :: "(jsstr \<times> jsval) list \<Rightarrow> jsval" where
  "pairs_val kvs = JArr (map (\<lambda>(k, v). JArr [JStr k, v]) kvs)"

definition cached_session_val :: "cached_session \<Rightarrow> jsval" where
  "cached_session_val c = JObj (
     [(js ''hostId'', JStr (cs_hostId c))] @ opt_member ''sessionId'' JStr (cs_sessionId c) @ opt_member ''ref'' id (cs_ref c) @
     [(js ''entries'', JArr (cs_entries c)), (js ''historyTruncated'', JBool (cs_historyTruncated c)),
      (js ''events'', JArr (cs_events c)), (js ''agents'', pairs_val (cs_agents c)),
      (js ''agentTranscripts'', pairs_val (cs_agentTranscripts c)), (js ''terminals'', pairs_val (cs_terminals c)),
      (js ''files'', pairs_val (cs_files c)), (js ''reviews'', pairs_val (cs_reviews c)), (js ''audit'', JArr (cs_audit c)),
      (js ''confirmations'', JArr []), (js ''results'', pairs_val (cs_results c)), (js ''previews'', pairs_val (cs_previews c)),
      (js ''previewEvents'', JArr (cs_previewEvents c))] @
     opt_member ''revision'' JStr (cs_revision c) @ opt_member ''cursor'' cursor_val (cs_cursor c) @
     opt_member ''epoch'' JStr (cs_epoch c) @ [(js ''freshness'', JStr (freshness_name (cs_freshness c)))] @
     opt_member ''gap'' id (cs_gap c))"

definition cache_data_val :: "cache_data \<Rightarrow> jsval" where
  "cache_data_val d = JObj (
     [(js ''sessions'', JArr (map (\<lambda>(k, c). JObj [(js ''key'', JStr k), (js ''value'', cached_session_val c)]) (cd_sessions d))),
      (js ''sessionIndex'', pairs_val (cd_sessionIndex d)), (js ''sessionIndexMetadata'', pairs_val (cd_sessionIndexMetadata d)),
      (js ''sessionDeltaCursors'', pairs_val (cd_sessionDeltaCursors d)),
      (js ''sessionInventoryCursors'', pairs_val (cd_sessionInventoryCursors d)),
      (js ''workspaces'', pairs_val (cd_workspaces d)), (js ''workspaceCursors'', pairs_val (cd_workspaceCursors d))] @
     opt_member ''activeSessionKey'' JStr (cd_activeSessionKey d) @ [(js ''lru'', JArr (map JStr (cd_lru d)))] @
     opt_member ''cursor'' cursor_val (cd_cursor d) @ opt_member ''epoch'' JStr (cd_epoch d) @
     [(js ''freshness'', JStr (js ''cached''))])"

definition envelope_val :: "int \<Rightarrow> cache_data \<Rightarrow> jsval" where
  "envelope_val savedAt d = JObj [(js ''kind'', JStr (js ''t4-code-projection'')), (js ''version'', int_val projection_cache_version),
     (js ''savedAt'', int_val savedAt), (js ''data'', cache_data_val d)]"

datatype cache_error = CacheTooLarge

definition encodeProjectionCache :: "url_parser \<Rightarrow> snapshot \<Rightarrow> int \<Rightarrow> cache_error + jsval" where
  "encodeProjectionCache parse s savedAt =
     (let d = cache_data_of parse s;
          envelope = envelope_val savedAt d;
          envelope = (if json_bytes envelope > max_projection_cache_bytes then envelope_val savedAt (compact_data d) else envelope)
      in if json_bytes envelope > max_projection_cache_bytes then Inl CacheTooLarge else Inr envelope)"

subsection \<open>Reading values back\<close>

text \<open>
  Below, \<open>None\<close> is a thrown error, which rejects the whole cache. Where the code casts an object to
  an interface without checking a member, the member is read as its declared type; a member of
  another type reads as absent or empty.
\<close>

definition opt_text_of :: "jsval \<Rightarrow> jsstr option" where
  "opt_text_of v = (case v of JStr s \<Rightarrow> Some s | _ \<Rightarrow> None)"

definition opt_bool_of :: "jsval \<Rightarrow> bool option" where
  "opt_bool_of v = (case v of JBool b \<Rightarrow> Some b | _ \<Rightarrow> None)"

definition opt_int_of :: "jsval \<Rightarrow> int option" where
  "opt_int_of v = (case v of JNum (JInt n) \<Rightarrow> Some n | JNum JNegZero \<Rightarrow> Some 0 | _ \<Rightarrow> None)"

definition int_of :: "jsval \<Rightarrow> int" where
  "int_of v = (case opt_int_of v of Some n \<Rightarrow> n | None \<Rightarrow> 0)"

definition is_string :: "jsval \<Rightarrow> bool" where
  "is_string v \<longleftrightarrow> (case v of JStr s \<Rightarrow> True | _ \<Rightarrow> False)"

definition is_number :: "jsval \<Rightarrow> bool" where
  "is_number v \<longleftrightarrow> (case v of JNum n \<Rightarrow> True | _ \<Rightarrow> False)"

definition is_boolean :: "jsval \<Rightarrow> bool" where
  "is_boolean v \<longleftrightarrow> (case v of JBool b \<Rightarrow> True | _ \<Rightarrow> False)"

text \<open>A safe integer within bounds.\<close>

definition safe_int_in :: "(int \<Rightarrow> bool) \<Rightarrow> jsval \<Rightarrow> bool" where
  "safe_int_in P v \<longleftrightarrow> (case opt_int_of v of Some n \<Rightarrow> is_safe_integer n \<and> P n | None \<Rightarrow> False)"

definition items_of :: "jsval \<Rightarrow> jsval list" where
  "items_of v = (case v of JArr xs \<Rightarrow> xs | _ \<Rightarrow> [])"

definition members_of :: "jsval \<Rightarrow> (jsstr \<times> jsval) list" where
  "members_of v = (case v of JObj kvs \<Rightarrow> kvs | _ \<Rightarrow> [])"

definition other_members :: "string list \<Rightarrow> jsval \<Rightarrow> (jsstr \<times> jsval) list" where
  "other_members names v = filter (\<lambda>(k, w). k \<notin> set (map js names)) (members_of v)"

definition cursor_of :: "jsval \<Rightarrow> cursor" where
  "cursor_of v = \<lparr>epoch = text_of (get_prop v ''epoch''), seq = int_of (get_prop v ''seq'')\<rparr>"

definition entry_of :: "jsval \<Rightarrow> durable_entry" where
  "entry_of v = \<lparr>e_id = text_of (get_prop v ''id''), e_parentId = opt_text_of (get_prop v ''parentId''),
     e_hostId = text_of (get_prop v ''hostId''), e_sessionId = text_of (get_prop v ''sessionId''),
     e_turnId = opt_text_of (get_prop v ''turnId''), e_kind = text_of (get_prop v ''kind''),
     e_timestamp = text_of (get_prop v ''timestamp''), e_data = get_prop v ''data''\<rparr>"

definition event_of :: "jsval \<Rightarrow> event_frame" where
  "event_of v = \<lparr>vf_cursor = cursor_of (get_prop v ''cursor''), vf_hostId = text_of (get_prop v ''hostId''),
     vf_sessionId = text_of (get_prop v ''sessionId''), vf_event = get_prop v ''event'',
     vf_rest = other_members [''cursor'', ''hostId'', ''sessionId'', ''event''] v\<rparr>"

definition agent_of :: "jsval \<Rightarrow> agent_frame" where
  "agent_of v = \<lparr>gt_hostId = text_of (get_prop v ''hostId''), gt_sessionId = text_of (get_prop v ''sessionId''),
     gt_agentId = text_of (get_prop v ''agentId''), gt_state = text_of (get_prop v ''state''),
     gt_progress = get_prop v ''progress'', gt_detail = get_prop v ''detail''\<rparr>"

definition terminal_of :: "jsval \<Rightarrow> terminal_projection" where
  "terminal_of v = \<lparr>tp_terminalId = text_of (get_prop v ''terminalId''), tp_stdout = text_of (get_prop v ''stdout''),
     tp_stderr = text_of (get_prop v ''stderr''), tp_exitCode = opt_int_of (get_prop v ''exitCode''),
     tp_closed = (get_prop v ''closed'' = JBool True)\<rparr>"

definition file_of :: "jsval \<Rightarrow> file_frame" where
  "file_of v = \<lparr>ff_hostId = text_of (get_prop v ''hostId''), ff_sessionId = text_of (get_prop v ''sessionId''),
     ff_path = text_of (get_prop v ''path''), ff_content = opt_text_of (get_prop v ''content''),
     ff_truncated = opt_bool_of (get_prop v ''truncated'')\<rparr>"

definition review_of :: "jsval \<Rightarrow> review_frame" where
  "review_of v = \<lparr>rf_hostId = text_of (get_prop v ''hostId''), rf_sessionId = text_of (get_prop v ''sessionId''),
     rf_reviewId = text_of (get_prop v ''reviewId''), rf_status = text_of (get_prop v ''status''),
     rf_path = opt_text_of (get_prop v ''path''), rf_findings = items_of (get_prop v ''findings'')\<rparr>"

definition audit_of :: "jsval \<Rightarrow> audit_frame" where
  "audit_of v = \<lparr>uf_hostId = text_of (get_prop v ''hostId''), uf_sessionId = opt_text_of (get_prop v ''sessionId''),
     uf_action = text_of (get_prop v ''action''), uf_actor = text_of (get_prop v ''actor''),
     uf_timestamp = text_of (get_prop v ''timestamp''), uf_detail = get_prop v ''detail''\<rparr>"

definition error_of :: "jsval \<Rightarrow> result_error" where
  "error_of v = \<lparr>er_code = text_of (get_prop v ''code''), er_message = text_of (get_prop v ''message'')\<rparr>"

definition given_value :: "jsval \<Rightarrow> jsval option" where
  "given_value v = (if v = JUndef then None else Some v)"

definition result_of :: "jsval \<Rightarrow> result_projection" where
  "result_of v = \<lparr>rp_requestId = text_of (get_prop v ''requestId''), rp_commandId = opt_text_of (get_prop v ''commandId''),
     rp_ok = (get_prop v ''ok'' = JBool True), rp_result = get_prop v ''result'',
     rp_error = map_option error_of (given_value (get_prop v ''error''))\<rparr>"

definition gap_of :: "jsval \<Rightarrow> gap_frame" where
  "gap_of v = \<lparr>gf_hostId = text_of (get_prop v ''hostId''), gf_sessionId = text_of (get_prop v ''sessionId''),
     gf_from = cursor_of (get_prop v ''from''), gf_to = cursor_of (get_prop v ''to''), gf_reason = text_of (get_prop v ''reason'')\<rparr>"

definition capture_of :: "jsval \<Rightarrow> preview_capture" where
  "capture_of v = \<lparr>pc_captureId = text_of (get_prop v ''captureId''), pc_capturedAt = int_of (get_prop v ''capturedAt''),
     pc_rest = other_members [''captureId'', ''capturedAt''] v\<rparr>"

subsection \<open>Decoding\<close>

text \<open>The items in order, up to the first error.\<close>

fun traverse :: "('a \<Rightarrow> 'b option) \<Rightarrow> 'a list \<Rightarrow> 'b list option" where
  "traverse f [] = Some []"
| "traverse f (x # xs) = Option.bind (f x) (\<lambda>y. Option.bind (traverse f xs) (\<lambda>ys. Some (y # ys)))"

definition cache_pair :: "jsval \<Rightarrow> (jsstr \<times> jsval) option" where
  "cache_pair v = (case v of JArr [JStr k, w] \<Rightarrow> if isRecord w then Some (k, w) else None | _ \<Rightarrow> None)"

definition asMap :: "(jsval \<Rightarrow> 'v option) \<Rightarrow> jsval \<Rightarrow> (jsstr, 'v) jsmap option" where
  "asMap validate v =
     (case v of
        JArr xs \<Rightarrow>
          map_option jm_of_entries
            (traverse (\<lambda>x. Option.bind (cache_pair x) (\<lambda>(k, w). map_option (\<lambda>y. (k, y)) (validate w))) (take 1024 xs))
      | _ \<Rightarrow> None)"

definition cache_cursor :: "jsval \<Rightarrow> cursor option" where
  "cache_cursor v =
     (if isRecord v \<and> is_string (get_prop v ''epoch'') \<and> safe_int_in (\<lambda>n. n \<ge> 0) (get_prop v ''seq'')
      then Some (cursor_of v) else None)"

definition checked :: "bool \<Rightarrow> 'a \<Rightarrow> 'a option" where
  "checked b x = (if b then Some x else None)"

definition terminalValue :: "jsval \<Rightarrow> terminal_projection option" where
  "terminalValue v = checked (is_string (get_prop v ''terminalId'') \<and> is_string (get_prop v ''stdout'') \<and>
     is_string (get_prop v ''stderr'') \<and> is_boolean (get_prop v ''closed'')) (terminal_of (safeJson v))"

definition resultValue :: "jsval \<Rightarrow> result_projection option" where
  "resultValue v = checked (is_string (get_prop v ''requestId'') \<and> is_boolean (get_prop v ''ok'')) (result_of (safeJson v))"

definition fileValue :: "jsval \<Rightarrow> file_frame option" where
  "fileValue v = checked (is_string (get_prop v ''path'')) (file_of (safeJson v))"

definition reviewValue :: "jsval \<Rightarrow> review_frame option" where
  "reviewValue v = checked (is_string (get_prop v ''reviewId'') \<and> is_string (get_prop v ''status'') \<and>
     (case get_prop v ''findings'' of JArr xs \<Rightarrow> True | _ \<Rightarrow> False)) (review_of (safeJson v))"

definition agentValue :: "jsval \<Rightarrow> agent_frame option" where
  "agentValue v = checked (is_string (get_prop v ''agentId'') \<and> is_string (get_prop v ''state'')) (agent_of (safeJson v))"

text \<open>\<open>{...entry, data: safeJson(entry.data)}\<close>\<close>

definition entry_with_data :: "jsval \<Rightarrow> durable_entry" where
  "entry_with_data v = (entry_of v)\<lparr>e_data := safeJson (get_prop v ''data'')\<rparr>"

definition transcriptValue :: "jsval \<Rightarrow> agent_transcript option" where
  "transcriptValue v =
     (case get_prop v ''entries'' of
        JArr xs \<Rightarrow>
          Option.bind (cache_cursor (get_prop v ''cursor'')) (\<lambda>c.
          Option.bind (opt_text_of (get_prop v ''revision'')) (\<lambda>revision.
          Option.bind (traverse (\<lambda>e. checked (isRecord e \<and> is_string (get_prop e ''id'') \<and> isRecord (get_prop e ''data''))
              (entry_with_data e)) (last_n 64 xs)) (\<lambda>entries.
          Some \<lparr>at_entries = entries, at_entryIds = map e_id entries, at_cursor = c, at_revision = revision,
            at_freshness = Cached, at_historyTruncated = (get_prop v ''historyTruncated'' = JBool True)\<rparr>)))
      | _ \<Rightarrow> None)"

definition restoredSessionRef :: "jsval \<Rightarrow> jsval option" where
  "restoredSessionRef v =
     (let safe = safeJson v in
      checked (isRecord safe \<and>
        list_all (\<lambda>name. is_string (get_prop safe name)) [''hostId'', ''sessionId'', ''revision'', ''title'', ''status'', ''updatedAt''] \<and>
        isRecord (get_prop safe ''project'') \<and> is_string (get_prop (get_prop safe ''project'') ''projectId'')) safe)"

subsubsection \<open>Previews\<close>

definition restoredPreviewAuthority :: "jsval \<Rightarrow> preview_authority option option" where
  "restoredPreviewAuthority v = (if v = JUndef then Some None else map_option Some (previewAuthority v))"

definition restoredPreviewActions :: "jsval \<Rightarrow> jsstr list option option" where
  "restoredPreviewActions v = (if v = JUndef then Some None else map_option Some (previewActions v))"

definition preview_kind_of :: "jsstr \<Rightarrow> preview_kind option" where
  "preview_kind_of s =
     (if s = js ''launch'' then Some PLaunch else if s = js ''navigation'' then Some PNavigation
      else if s = js ''capture'' then Some PCapture else if s = js ''error'' then Some PError else None)"

definition absent_or :: "(jsval \<Rightarrow> bool) \<Rightarrow> jsval \<Rightarrow> bool" where
  "absent_or P v \<longleftrightarrow> v = JUndef \<or> P v"

definition short_string :: "nat \<Rightarrow> jsval \<Rightarrow> bool" where
  "short_string n v \<longleftrightarrow> (case v of JStr s \<Rightarrow> length s \<le> n | _ \<Rightarrow> False)"

definition saved_url_ok :: "jsval \<Rightarrow> bool" where
  "saved_url_ok v \<longleftrightarrow> isRecord v \<and> short_string 512 (get_prop v ''origin'') \<and> short_string 1024 (get_prop v ''pathname'') \<and>
     is_boolean (get_prop v ''hasQuery'')"

definition saved_url :: "jsval \<Rightarrow> preview_url" where
  "saved_url v = \<lparr>pu_origin = text_of (get_prop v ''origin''), pu_pathname = text_of (get_prop v ''pathname''),
     pu_hasQuery = (get_prop v ''hasQuery'' = JBool True)\<rparr>"

definition restored_preview_event :: "jsval \<Rightarrow> preview_event option" where
  "restored_preview_event raw =
     (if \<not> isRecord raw \<or> \<not> is_string (get_prop raw ''previewId'') \<or> get_prop raw ''previewId'' = JStr [] then None
      else
        Option.bind (preview_kind_of (js_string (get_prop raw ''type''))) (\<lambda>kind.
        Option.bind (cache_cursor (get_prop raw ''cursor'')) (\<lambda>c.
        checked (absent_or saved_url_ok (get_prop raw ''url'') \<and>
            absent_or (safe_int_in (\<lambda>n. n \<ge> 0)) (get_prop raw ''timestamp'') \<and>
            absent_or (short_string 256) (get_prop raw ''captureId'') \<and> absent_or (short_string 256) (get_prop raw ''errorCode''))
          \<lparr>pe_type = kind, pe_previewId = text_of (get_prop raw ''previewId''), pe_cursor = c,
           pe_url = map_option saved_url (given_value (get_prop raw ''url'')), pe_timestamp = opt_int_of (get_prop raw ''timestamp''),
           pe_captureId = opt_text_of (get_prop raw ''captureId''), pe_errorCode = opt_text_of (get_prop raw ''errorCode'')\<rparr>)))"

definition restoredPreviewEvents :: "jsval \<Rightarrow> preview_event list option" where
  "restoredPreviewEvents v =
     (if v = JUndef then Some [] else case v of JArr xs \<Rightarrow> traverse restored_preview_event (last_n 128 xs) | _ \<Rightarrow> None)"

text \<open>
  A device scale factor is positive and at most 8. A decimal is known by its rendering: one digit
  up to 7 and a fraction, or a negative exponent.
\<close>

definition small_decimal :: "dchar \<Rightarrow> dchar list \<Rightarrow> bool" where
  "small_decimal d ds \<longleftrightarrow>
     (case d of
        DDigit k \<Rightarrow>
          DMinus \<in> set ds \<or> DExp \<notin> set ds \<and> k mod 10 \<le> 7 \<and> (case ds of DPoint # rest \<Rightarrow> True | _ \<Rightarrow> False)
      | _ \<Rightarrow> False)"

definition scale_ok :: "jsval \<Rightarrow> bool" where
  "scale_ok v \<longleftrightarrow>
     (case v of
        JNum (JInt n) \<Rightarrow> 0 < n \<and> n \<le> 8
      | JNum (JDec d ds) \<Rightarrow> small_decimal d ds
      | _ \<Rightarrow> False)"

definition area_ok :: "jsval \<Rightarrow> bool" where
  "area_ok v \<longleftrightarrow>
     safe_int_in (\<lambda>n. n > 0) (get_prop v ''width'') \<and> safe_int_in (\<lambda>n. n > 0) (get_prop v ''height'') \<and>
     int_of (get_prop v ''width'') * int_of (get_prop v ''height'') \<le> 16 * 1024 * 1024"

definition viewport_ok :: "jsval \<Rightarrow> bool" where
  "viewport_ok v \<longleftrightarrow>
     isRecord v \<and> area_ok v \<and> absent_or scale_ok (get_prop v ''deviceScaleFactor'')"

definition is_sha256 :: "jsstr \<Rightarrow> bool" where
  "is_sha256 s \<longleftrightarrow> length s = 64 \<and> list_all (\<lambda>c. 48 \<le> c \<and> c \<le> 57 \<or> 97 \<le> c \<and> c \<le> 102) s"

definition capture_ok :: "jsval \<Rightarrow> bool" where
  "capture_ok v \<longleftrightarrow>
     isRecord v \<and> is_string (get_prop v ''captureId'') \<and>
     js_string (get_prop v ''mimeType'') \<in> set (map js [''image/png'', ''image/jpeg'', ''image/webp'']) \<and>
     safe_int_in (\<lambda>n. n > 0 \<and> n \<le> 8 * 1024 * 1024) (get_prop v ''size'') \<and> area_ok v \<and>
     safe_int_in (\<lambda>n. n \<ge> 0) (get_prop v ''capturedAt'') \<and> is_sha256 (js_string (get_prop v ''sha256''))"

definition preview_states :: "jsstr list" where
  "preview_states = map js [''launching'', ''ready'', ''running'', ''stopped'', ''failed'']"

definition restored_preview ::
  "url_parser \<Rightarrow> jsval \<Rightarrow> jsval \<Rightarrow> jsstr \<times> jsval \<Rightarrow> (jsstr \<times> preview_projection) option" where
  "restored_preview parse host session pair =
     (let raw = snd pair in
      if get_prop raw ''hostId'' \<noteq> host \<or> get_prop raw ''sessionId'' \<noteq> session \<or> \<not> is_string (get_prop raw ''previewId'') \<or>
         \<not> is_string (get_prop raw ''revision'') then None
      else
        Option.bind (cache_cursor (get_prop raw ''cursor'')) (\<lambda>c.
        if \<not> absent_or (\<lambda>v. js_string v \<in> set preview_states) (get_prop raw ''state'') \<or> \<not> absent_or is_string (get_prop raw ''url'') \<or>
           \<not> absent_or is_string (get_prop raw ''title'') \<or> \<not> absent_or is_boolean (get_prop raw ''canGoBack'') \<or>
           \<not> absent_or is_boolean (get_prop raw ''canGoForward'') \<or>
           \<not> absent_or viewport_ok (get_prop raw ''viewport'') \<or> \<not> absent_or capture_ok (get_prop raw ''capture'') \<or>
           \<not> absent_or (\<lambda>v. isRecord v \<and> is_string (get_prop v ''code'') \<and> is_string (get_prop v ''message'')) (get_prop raw ''error'')
        then None
        else
          Option.bind (restoredPreviewAuthority (get_prop raw ''authority'')) (\<lambda>authority.
          Option.bind (restoredPreviewActions (get_prop raw ''availableActions'')) (\<lambda>actions.
          let previewId = text_of (get_prop raw ''previewId'') in
          checked (fst pair = previewKey (text_of host) (text_of session) previewId)
            (fst pair,
             \<lparr>pp_hostId = text_of host, pp_sessionId = text_of session, pp_previewId = previewId,
              pp_state = opt_text_of (get_prop raw ''state''),
              pp_url = cachedPreviewUrl parse (opt_text_of (get_prop raw ''url'')),
              pp_revision = text_of (get_prop raw ''revision''), pp_cursor = c, pp_title = opt_text_of (get_prop raw ''title''),
              pp_canGoBack = opt_bool_of (get_prop raw ''canGoBack''), pp_canGoForward = opt_bool_of (get_prop raw ''canGoForward''),
              pp_viewport = given_value (get_prop raw ''viewport''), pp_capture = map_option capture_of (given_value (get_prop raw ''capture'')),
              pp_authority = authority, pp_availableActions = actions,
              pp_error = map_option error_of (given_value (get_prop raw ''error'')), pp_freshness = PvCached\<rparr>)))))"

definition restoredPreviews ::
  "url_parser \<Rightarrow> jsval \<Rightarrow> jsval \<Rightarrow> jsval \<Rightarrow> (jsstr, preview_projection) jsmap option" where
  "restoredPreviews parse v host session =
     (if v = JUndef then Some []
      else case v of
          JArr xs \<Rightarrow>
            map_option jm_of_entries
              (traverse (\<lambda>x. Option.bind (cache_pair x) (restored_preview parse host session)) (last_n 32 xs))
        | _ \<Rightarrow> None)"

subsubsection \<open>Sessions and the envelope\<close>

definition restored_entries :: "jsval \<Rightarrow> durable_entry list option" where
  "restored_entries v = traverse (\<lambda>e. checked (e \<noteq> JNull \<and> e \<noteq> JUndef) (entry_with_data e)) (last_n 10000 (items_of v))"

definition restoreSession :: "url_parser \<Rightarrow> jsval \<Rightarrow> session_projection option option" where
  "restoreSession parse v =
     (let p = get_prop v in
      if \<not> isRecord v \<or> \<not> is_string (p ''hostId'') \<or> \<not> is_string (p ''sessionId'') \<or> \<not> is_string (p ''freshness'') then Some None
      else
        Option.bind (restored_entries (p ''entries'')) (\<lambda>entries.
        Option.bind (asMap agentValue (p ''agents'')) (\<lambda>agents.
        Option.bind (if p ''agentTranscripts'' = JUndef then Some [] else asMap transcriptValue (p ''agentTranscripts'')) (\<lambda>transcripts.
        Option.bind (asMap terminalValue (p ''terminals'')) (\<lambda>terminals.
        Option.bind (asMap fileValue (p ''files'')) (\<lambda>files.
        Option.bind (asMap reviewValue (p ''reviews'')) (\<lambda>reviews.
        Option.bind (asMap resultValue (p ''results'')) (\<lambda>results.
        Option.bind (restoredPreviews parse (p ''previews'') (p ''hostId'') (p ''sessionId'')) (\<lambda>previews.
        Option.bind (restoredPreviewEvents (p ''previewEvents'')) (\<lambda>previewEvents.
        Some (Some
          \<lparr>sp_hostId = text_of (p ''hostId''), sp_sessionId = Some (text_of (p ''sessionId'')),
           sp_ref = (if isRecord (p ''ref'') then restoredSessionRef (p ''ref'') else None), sp_entries = entries,
           sp_events = map (\<lambda>e. event_of (safeJson e)) (last_n 512 (items_of (p ''events''))), sp_agents = agents,
           sp_agentTranscripts = transcripts, sp_terminals = terminals, sp_files = files, sp_reviews = reviews,
           sp_audit = map (\<lambda>a. audit_of (safeJson a)) (last_n 256 (items_of (p ''audit''))), sp_confirmations = [],
           sp_results = results, sp_previews = previews, sp_previewEvents = previewEvents,
           sp_revision = (if p ''revision'' \<noteq> JStr [] \<and> short_string 256 (p ''revision'') then opt_text_of (p ''revision'') else None),
           sp_cursor = (if isRecord (p ''cursor'') \<and> is_string (get_prop (p ''cursor'') ''epoch'') \<and>
               is_number (get_prop (p ''cursor'') ''seq'') then Some (cursor_of (p ''cursor'')) else None),
           sp_epoch = opt_text_of (p ''epoch''),
           sp_freshness = (if p ''freshness'' = JStr (js ''catching-up'') then CatchingUp else Cached),
           sp_transcriptEventArrivalOrdinal = 0, sp_contextMaintenanceEventArrivalOrdinal = 0,
           sp_gap = (if isRecord (p ''gap'') then Some (gap_of (p ''gap'')) else None),
           sp_historyTruncated = (p ''historyTruncated'' = JBool True), sp_entryIds = map e_id entries\<rparr>)))))))))))"

text \<open>Rows \<open>[key, value]\<close>; a row that is not one, or whose value is not accepted, is skipped.\<close>

definition restored_rows :: "(jsval \<Rightarrow> 'v option) \<Rightarrow> jsval \<Rightarrow> (jsstr, 'v) jsmap" where
  "restored_rows accept v =
     jm_of_entries (List.map_filter (\<lambda>x. case x of
         JArr (JStr k # rest) \<Rightarrow> map_option (\<lambda>y. (k, y)) (accept (case rest of [] \<Rightarrow> JUndef | w # ws \<Rightarrow> w))
       | _ \<Rightarrow> None) (take max_indexed_session_refs (items_of v)))"

definition cache_metadata :: "jsval \<Rightarrow> index_metadata option" where
  "cache_metadata v = checked (isRecord v \<and> safe_int_in (\<lambda>n. n \<ge> 0) (get_prop v ''totalCount'') \<and> is_boolean (get_prop v ''truncated''))
     \<lparr>im_totalCount = int_of (get_prop v ''totalCount''), im_truncated = (get_prop v ''truncated'' = JBool True)\<rparr>"

definition cache_workspace :: "jsval \<Rightarrow> workspace option" where
  "cache_workspace v = (case decodeWorkspaceInfrastructureProjection v of Inl e \<Rightarrow> None | Inr w \<Rightarrow> Some w)"

definition restored_sessions :: "url_parser \<Rightarrow> jsval \<Rightarrow> (jsstr, session_projection) jsmap option" where
  "restored_sessions parse v =
     map_option (\<lambda>rows. jm_of_entries (concat rows))
       (traverse (\<lambda>item.
          if \<not> isRecord item \<or> \<not> is_string (get_prop item ''key'') then Some []
          else map_option (\<lambda>r. case r of None \<Rightarrow> [] | Some s \<Rightarrow> [(text_of (get_prop item ''key''), s)])
                 (restoreSession parse (get_prop item ''value'')))
        (take max_projection_cache_sessions (items_of v)))"

definition decodeProjectionCache :: "url_parser \<Rightarrow> jsval \<Rightarrow> snapshot option" where
  "decodeProjectionCache parse parsed =
     (let data = get_prop parsed ''data''; p = get_prop data in
      if json_bytes parsed > max_projection_cache_bytes then None
      else if \<not> isRecord parsed \<or> get_prop parsed ''kind'' \<noteq> JStr (js ''t4-code-projection'') \<or>
         opt_int_of (get_prop parsed ''version'') \<notin> {Some 1, Some projection_cache_version} \<or> \<not> isRecord data then None
      else
        Option.bind (restored_sessions parse (p ''sessions'')) (\<lambda>sessions.
        let lru = take max_projection_cache_sessions
              (List.map_filter (\<lambda>x. case x of JStr k \<Rightarrow> if jm_has sessions k then Some k else None | _ \<Rightarrow> None) (items_of (p ''lru'')));
            active = (case p ''activeSessionKey'' of JStr k \<Rightarrow> if jm_has sessions k \<and> k \<in> set lru then Some k else None | _ \<Rightarrow> None)
        in Some \<lparr>sn_sessions = sessions, sn_activeSessionKey = active,
          sn_sessionIndex = restored_rows restoredSessionRef (p ''sessionIndex''),
          sn_sessionIndexMetadata = restored_rows cache_metadata (p ''sessionIndexMetadata''), sn_sessionRefArrivalOrdinals = [],
          sn_sessionDeltaCursors = restored_rows cache_cursor (p ''sessionDeltaCursors''),
          sn_sessionInventoryCursors = restored_rows cache_cursor (p ''sessionInventoryCursors''),
          sn_workspaces = restored_rows cache_workspace (p ''workspaces''),
          sn_workspaceCursors = restored_rows cache_cursor (p ''workspaceCursors''), sn_lru = lru,
          sn_cursor = (if isRecord (p ''cursor'') \<and> is_string (get_prop (p ''cursor'') ''epoch'') \<and>
              is_number (get_prop (p ''cursor'') ''seq'') then Some (cursor_of (p ''cursor'')) else None),
          sn_epoch = opt_text_of (p ''epoch''), sn_freshness = Cached, sn_arrivalOrdinal = 0\<rparr>))"

text \<open>The value of a load: a nullish value, and one that is refused, give no snapshot.\<close>

definition decodeProjectionCacheValue :: "url_parser \<Rightarrow> jsval \<Rightarrow> snapshot option" where
  "decodeProjectionCacheValue parse v = (if v \<in> {JNull, JUndef} then None else decodeProjectionCache parse v)"

end
