(* ===== verification/SafeCopies.thy ===== *)
theory SafeCopies
  imports ProjectionCache
begin

text \<open>
  The safe copies the cache makes of opaque values: they are idempotent, and on an object whose
  member names are plain, as those of all the records of a session are, they work member by member.
\<close>

subsection \<open>Safe copies\<close>

definition own_le :: "jsstr \<Rightarrow> jsstr \<Rightarrow> bool" where
  "own_le j k \<longleftrightarrow>
     (case array_index j of
        None \<Rightarrow> array_index k = None
      | Some m \<Rightarrow> (case array_index k of None \<Rightarrow> True | Some n \<Rightarrow> m \<le> n))"

lemma own_entries_sorted: "sorted_wrt own_le (map fst kvs) \<Longrightarrow> own_entries kvs = kvs"
proof (induction kvs)
  case (Cons p kvs)
  let ?f = "\<lambda>p. case array_index (fst p) of Some n \<Rightarrow> n | None \<Rightarrow> 0"
  show ?case
  proof (cases "array_index (fst p)")
    case None
    then have none: "\<forall>q \<in> set kvs. array_index (fst q) = None" using Cons.prems by (auto simp: own_le_def)
    then have "filter (\<lambda>p. array_index (fst p) \<noteq> None) kvs = []" "filter (\<lambda>p. array_index (fst p) = None) kvs = kvs"
      by (simp_all add: filter_empty_conv)
    then show ?thesis using None by (simp add: own_entries_def)
  next
    case (Some m)
    have le: "\<forall>q \<in> set (filter (\<lambda>p. array_index (fst p) \<noteq> None) kvs). ?f p \<le> ?f q"
      using Cons.prems Some by (auto simp: own_le_def)
    have "own_entries (p # kvs) = insort_key ?f p (sort_key ?f (filter (\<lambda>p. array_index (fst p) \<noteq> None) kvs)) @
        filter (\<lambda>p. array_index (fst p) = None) kvs"
      using Some by (simp add: own_entries_def)
    also have "insort_key ?f p (sort_key ?f (filter (\<lambda>p. array_index (fst p) \<noteq> None) kvs)) =
        p # sort_key ?f (filter (\<lambda>p. array_index (fst p) \<noteq> None) kvs)"
      by (rule insort_is_Cons) (use le in simp)
    finally show ?thesis using Cons by (simp add: own_entries_def)
  qed
qed (simp add: own_entries_def)

lemma own_le_total: "array_index j \<noteq> None \<Longrightarrow> array_index k = None \<Longrightarrow> own_le j k"
  by (auto simp: own_le_def)

lemma sorted_own_entries: "sorted_wrt own_le (map fst (own_entries kvs))"
proof -
  let ?f = "\<lambda>p. case array_index (fst p) of Some n \<Rightarrow> n | None \<Rightarrow> 0"
  let ?a = "sort_key ?f (filter (\<lambda>p. array_index (fst p) \<noteq> None) kvs)" and ?b = "filter (\<lambda>p. array_index (fst p) = None) kvs"
  have idx: "\<forall>q \<in> set ?a. array_index (fst q) \<noteq> None" "\<forall>q \<in> set ?b. array_index (fst q) = None" by simp_all
  have "sorted_wrt (\<lambda>p q. ?f p \<le> ?f q) ?a" using sorted_sort_key [of ?f] by (simp add: sorted_wrt_map)
  then have "sorted_wrt (\<lambda>p q. own_le (fst p) (fst q)) ?a"
  proof (rule sorted_wrt_mono_rel [rotated])
    fix p q assume pq: "p \<in> set ?a" "q \<in> set ?a" "?f p \<le> ?f q"
    then obtain m n where "array_index (fst p) = Some m" "array_index (fst q) = Some n" using idx(1) by blast
    then show "own_le (fst p) (fst q)" using pq(3) by (simp add: own_le_def)
  qed
  moreover have "sorted_wrt (\<lambda>p q. own_le (fst p) (fst q)) ?b"
    by (induction kvs) (auto simp: own_le_def)
  moreover have "\<forall>p \<in> set ?a. \<forall>q \<in> set ?b. own_le (fst p) (fst q)" using idx own_le_total by blast
  ultimately show ?thesis unfolding own_entries_def sorted_wrt_map by (simp only: sorted_wrt_append)
qed

lemma own_entries_take: "own_entries (take n (own_entries kvs)) = take n (own_entries kvs)"
  using own_entries_sorted sorted_wrt_take [OF sorted_own_entries, of n kvs] by (simp add: take_map)

text \<open>The copied members keep the order of the object.\<close>

lemma safe_members_sorted:
  "sorted_wrt own_le (map fst out @ map fst es) \<Longrightarrow> distinct (map fst out) \<Longrightarrow> sorted_wrt own_le (map fst (safe_members child es out))"
proof (induction child es out rule: safe_members.induct)
  case (2 child name item es out)
  have rest: "sorted_wrt own_le (map fst out @ map fst es)" using 2(3) by (auto simp: sorted_wrt_append)
  show ?case
  proof (cases "unsafe_name name")
    case True
    then show ?thesis using 2(1) rest 2(4) by simp
  next
    case False
    let ?out = "if child item \<noteq> JUndef then assign_member name (child item) out else out"
    have keys: "map fst ?out = map fst out \<or> map fst ?out = map fst out @ [name]"
      by (auto simp: assign_member_def jm_keys_set [unfolded jm_keys_def])
    have "sorted_wrt own_le (map fst ?out @ map fst es)" using keys rest 2(3) by auto
    moreover have "distinct (map fst ?out)"
      using 2(4) jm_wf_set [of out name "child item"] by (auto simp: assign_member_def jm_wf_def)
    ultimately show ?thesis using 2(2) [OF False refl] False by (simp add: Let_def)
  qed
qed simp

lemma safe_members_safe:
  assumes "sorted_wrt own_le (map fst es)"
  shows "own_entries (safe_members child es []) = safe_members child es []"
  by (rule own_entries_sorted, rule safe_members_sorted) (use assms in simp_all)

text \<open>On members that need no change the copy is the list itself.\<close>

lemma safe_members_same:
  assumes "distinct (map fst (out @ es))"
    and "\<forall>(k, v) \<in> set es. \<not> unsafe_name k \<and> k \<noteq> js ''__proto__''"
  shows "safe_members child es out = out @ filter (\<lambda>p. snd p \<noteq> JUndef) (map (\<lambda>(k, v). (k, child v)) es)"
  using assms
proof (induction child es out rule: safe_members.induct)
  case (2 child name item es out)
  then have "name \<notin> set (jm_keys out)" "\<not> unsafe_name name" "name \<noteq> js ''__proto__''" by (auto simp: jm_keys_def)
  then show ?case using 2(2) [OF _ refl] 2(3,4) by (auto simp: Let_def assign_member_def jm_set_notin)
qed simp

lemma safe_json_idem: "n \<le> m \<Longrightarrow> safe_json m (safe_json n v) = safe_json n v"
proof (induction n arbitrary: m v)
  case 0
  then show ?case by (cases m) simp_all
next
  case (Suc n)
  then obtain m' where m: "m = Suc m'" "n \<le> m'" by (cases m) auto
  show ?case
  proof (cases v)
    case (JArr xs)
    let ?ys = "filter (\<lambda>x. x \<noteq> JUndef) (map (safe_json n) (take 1024 xs))"
    have len: "length ?ys \<le> 1024" by (rule order.trans [OF length_filter_le]) simp
    have "map (safe_json m') ?ys = ?ys" by (rule map_idI) (use Suc.IH [OF m(2)] in auto)
    then have "filter (\<lambda>x. x \<noteq> JUndef) (map (safe_json m') (take 1024 ?ys)) = ?ys" using len by simp
    then show ?thesis using JArr m(1) by simp
  next
    case (JObj kvs)
    let ?es = "take 1024 (own_entries kvs)"
    let ?out = "safe_members (safe_json n) ?es []"
    have sorted: "sorted_wrt own_le (map fst ?es)" using sorted_wrt_take [OF sorted_own_entries, of 1024 kvs] by (simp add: take_map)
    have ok: "distinct (map fst ?out)" "list_all (\<lambda>(k, v). \<not> unsafe_name k \<and> k \<noteq> js ''__proto__'' \<and> v \<noteq> JUndef \<and> safe_json m' v = v) ?out"
        "length ?out \<le> 1024"
      using safe_members_ok [where child = "safe_json n" and Q = "\<lambda>v. v \<noteq> JUndef \<and> safe_json m' v = v" and out = "[]" and es = ?es] Suc.IH [OF m(2)]
      by simp_all
    have "map (\<lambda>(k, v). (k, safe_json m' v)) ?out = ?out" by (rule map_idI) (use ok(2) in \<open>auto simp: list_all_iff\<close>)
    moreover have "filter (\<lambda>p. snd p \<noteq> JUndef) ?out = ?out" by (rule filter_True) (use ok(2) in \<open>auto simp: list_all_iff\<close>)
    ultimately have "safe_members (safe_json m') (take 1024 (own_entries ?out)) [] = ?out"
      using safe_members_safe [OF sorted, of "safe_json n"] safe_members_same [of "[]" ?out "safe_json m'"] ok
      by (auto simp: list_all_iff)
    then show ?thesis using JObj m(1) by simp
  qed (use m(1) in simp_all)
qed

lemma safe_json_undef [simp]: "safe_json n JUndef = JUndef"
  by (cases n) simp_all

lemma safe_json_scalar [simp]:
  "safe_json (Suc n) (JStr s) = JStr s" "safe_json (Suc n) (JBool b) = JBool b" "safe_json (Suc n) JNull = JNull"
  "safe_json (Suc n) (JNum (JInt i)) = JNum (JInt i)"
  by (simp_all add: is_finite_def)

lemma safeJson_idem [simp]: "safeJson (safeJson v) = safeJson v"
  by (simp add: safeJson_def safe_json_idem)

lemma safe_levels: "safe_json 6 = safe_json (Suc 5)" "safe_json 5 = safe_json (Suc 4)" "safe_json 4 = safe_json (Suc 3)"
  by (simp_all add: eval_nat_numeral)

lemma safe_five [simp]:
  "safe_json 5 (JStr s) = JStr s" "safe_json 5 (JBool b) = JBool b" "safe_json 5 JNull = JNull" "safe_json 5 (JNum (JInt i)) = JNum (JInt i)"
  "safe_json 4 (JStr s) = JStr s" "safe_json 4 (JBool b) = JBool b" "safe_json 4 JNull = JNull" "safe_json 4 (JNum (JInt i)) = JNum (JInt i)"
  unfolding safe_levels by (rule safe_json_scalar)+

subsection \<open>Objects with plain member names\<close>

definition plain_name :: "jsstr \<Rightarrow> bool" where
  "plain_name k \<longleftrightarrow> array_index k = None \<and> \<not> unsafe_name k \<and> k \<noteq> js ''__proto__''"

definition plain_members :: "(jsstr \<times> jsval) list \<Rightarrow> bool" where
  "plain_members kvs \<longleftrightarrow> list_all (\<lambda>p. plain_name (fst p)) kvs \<and> distinct (map fst kvs) \<and> length kvs \<le> 1024"

lemma safe_json_plain:
  assumes "plain_members kvs"
  shows "safe_json (Suc n) (JObj kvs) = JObj (filter (\<lambda>p. snd p \<noteq> JUndef) (map (\<lambda>(k, v). (k, safe_json n v)) kvs))"
proof -
  have "own_entries kvs = kvs"
    using assms by (auto simp: plain_members_def list_all_iff plain_name_def own_entries_def filter_empty_conv intro: filter_True)
  then show ?thesis
    using safe_members_same [of "[]" kvs "safe_json n"] assms
    by (simp add: plain_members_def plain_name_def list_all_iff case_prod_beta)
qed

lemma get_filtered: "jm_get (filter (\<lambda>p. snd p \<noteq> JUndef) (map (\<lambda>(k, v). (k, f v)) kvs)) k =
   (if distinct (map fst kvs) then (case jm_get kvs k of Some v \<Rightarrow> if f v = JUndef then None else Some (f v) | None \<Rightarrow> None)
    else jm_get (filter (\<lambda>p. snd p \<noteq> JUndef) (map (\<lambda>(k, v). (k, f v)) kvs)) k)"
proof -
  have none: "k \<notin> fst ` set kvs \<Longrightarrow> jm_get (filter (\<lambda>p. snd p \<noteq> JUndef) (map (\<lambda>(k, v). (k, f v)) kvs)) k = None" for kvs
    by (auto simp: jm_get_keys jm_keys_def image_iff)
  have "jm_get (filter (\<lambda>p. snd p \<noteq> JUndef) (map (\<lambda>(k, v). (k, f v)) kvs)) k =
      (case jm_get kvs k of Some v \<Rightarrow> if f v = JUndef then None else Some (f v) | None \<Rightarrow> None)" if "distinct (map fst kvs)"
    using that by (induction kvs) (auto simp: jm_get_Cons none)
  then show ?thesis by simp
qed

lemma get_safe_json:
  assumes "plain_members kvs"
  shows "get_prop (safe_json (Suc n) (JObj kvs)) name = safe_json n (get_prop (JObj kvs) name)"
proof -
  have "distinct (map fst kvs)" using assms by (simp add: plain_members_def)
  then show ?thesis
    unfolding safe_json_plain [OF assms] get_prop_JObj
    by (subst get_filtered) (auto split: option.splits)
qed

lemma get_safe:
  "plain_members kvs \<Longrightarrow> get_prop (safeJson (JObj kvs)) name = safe_json 5 (get_prop (JObj kvs) name)"
  "plain_members kvs \<Longrightarrow> get_prop (safe_json 5 (JObj kvs)) name = safe_json 4 (get_prop (JObj kvs) name)"
  using get_safe_json [of kvs 5 name, folded safe_levels(1)] get_safe_json [of kvs 4 name, folded safe_levels(2)]
  by (simp_all add: safeJson_def)

lemma safe_record: "isRecord (safeJson (JObj kvs))" "isRecord (safe_json 5 (JObj kvs))"
proof -
  have "isRecord (safe_json (Suc n) (JObj kvs))" for n by (simp add: isRecord_def)
  from this [of 5] this [of 4] show "isRecord (safeJson (JObj kvs))" "isRecord (safe_json 5 (JObj kvs))"
    by (simp_all only: safeJson_def safe_levels)
qed

lemma starts_with_Cons:
  "starts_with (a # w) (b # s) \<longleftrightarrow> a = b \<and> starts_with w s"
  "starts_with (a # w) [] \<longleftrightarrow> False" "starts_with [] s \<longleftrightarrow> True"
  by (auto simp: starts_with_def)

lemma plain_names [simp]:
  "plain_name (js ''v'')" "plain_name (js ''type'')" "plain_name (js ''hostId'')" "plain_name (js ''sessionId'')"
  "plain_name (js ''agentId'')" "plain_name (js ''state'')" "plain_name (js ''progress'')" "plain_name (js ''detail'')"
  "plain_name (js ''terminalId'')" "plain_name (js ''stdout'')" "plain_name (js ''stderr'')" "plain_name (js ''exitCode'')"
  "plain_name (js ''closed'')" "plain_name (js ''path'')" "plain_name (js ''content'')" "plain_name (js ''truncated'')"
  "plain_name (js ''reviewId'')" "plain_name (js ''status'')" "plain_name (js ''findings'')" "plain_name (js ''action'')"
  "plain_name (js ''actor'')" "plain_name (js ''timestamp'')" "plain_name (js ''requestId'')" "plain_name (js ''commandId'')"
  "plain_name (js ''ok'')" "plain_name (js ''result'')" "plain_name (js ''error'')" "plain_name (js ''code'')"
  "plain_name (js ''message'')" "plain_name (js ''id'')" "plain_name (js ''parentId'')" "plain_name (js ''turnId'')"
  "plain_name (js ''kind'')" "plain_name (js ''data'')" "plain_name (js ''cursor'')" "plain_name (js ''event'')"
  "plain_name (js ''epoch'')" "plain_name (js ''seq'')" "plain_name (js ''from'')" "plain_name (js ''to'')"
  "plain_name (js ''reason'')" "plain_name (js ''previewId'')" "plain_name (js ''url'')" "plain_name (js ''origin'')"
  "plain_name (js ''pathname'')" "plain_name (js ''hasQuery'')" "plain_name (js ''captureId'')" "plain_name (js ''errorCode'')"
  "plain_name (js ''totalCount'')" "plain_name (js ''displayName'')" "plain_name (js ''phase'')"
  "plain_name (js ''retentionPolicy'')" "plain_name (js ''storageClass'')" "plain_name (js ''capacity'')"
  "plain_name (js ''accessMode'')" "plain_name (js ''revision'')" "plain_name (js ''condition'')"
  "plain_name (js ''observedGeneration'')"
  by (simp_all add: plain_name_def unsafe_name_def array_index_def js_def digit_of_def ascii_lower_def Let_def starts_with_Cons)

lemma opt_member_simps [simp]:
  "jm_get (opt_member name val x @ m) k = (if k = js name \<and> x \<noteq> None then Some (val (the x)) else jm_get m k)"
  "jm_get (opt_member name val x) k = (if k = js name \<and> x \<noteq> None then Some (val (the x)) else None)"
  "jm_get (given_member name v @ m) k = (if k = js name \<and> v \<noteq> JUndef then Some v else jm_get m k)"
  "jm_get (given_member name v) k = (if k = js name \<and> v \<noteq> JUndef then Some v else None)"
  "k \<in> fst ` set (opt_member name val x) \<longleftrightarrow> x \<noteq> None \<and> k = js name"
  "k \<in> fst ` set (given_member name v) \<longleftrightarrow> v \<noteq> JUndef \<and> k = js name"
  "distinct (map fst (opt_member name val x))" "distinct (map fst (given_member name v))"
  "list_all (\<lambda>p. P (fst p)) (opt_member name val x) \<longleftrightarrow> (x \<noteq> None \<longrightarrow> P (js name))"
  "list_all (\<lambda>p. P (fst p)) (given_member name v) \<longleftrightarrow> (v \<noteq> JUndef \<longrightarrow> P (js name))"
  by (auto simp: opt_member_def given_member_def jm_get_Cons split: option.splits)

end
