(* ===== verification/CacheRoundtrip.thy ===== *)
theory CacheRoundtrip
  imports SafeCopies
begin

text \<open>
  What comes back from the cache. Every kind of object of a session is read back as it was written,
  its opaque values as safe copies; from the parts follows the round trip of a snapshot.
\<close>

subsection \<open>Objects of a session\<close>

definition agent_image :: "agent_frame \<Rightarrow> agent_frame" where
  "agent_image f = f\<lparr>gt_progress := safe_json 5 (gt_progress f), gt_detail := safe_json 5 (gt_detail f)\<rparr>"

definition review_image :: "review_frame \<Rightarrow> review_frame" where
  "review_image f = f\<lparr>rf_findings := filter (\<lambda>x. x \<noteq> JUndef) (map (safe_json 4) (take 1024 (rf_findings f)))\<rparr>"

definition audit_image :: "audit_frame \<Rightarrow> audit_frame" where
  "audit_image f = f\<lparr>uf_detail := safe_json 5 (uf_detail f)\<rparr>"

definition result_image :: "result_projection \<Rightarrow> result_projection" where
  "result_image r = r\<lparr>rp_result := safe_json 5 (rp_result r)\<rparr>"

definition entry_image :: "durable_entry \<Rightarrow> durable_entry" where
  "entry_image e = e\<lparr>e_data := safe_json 5 (e_data e)\<rparr>"

definition event_image :: "event_frame \<Rightarrow> event_frame" where
  "event_image e = e\<lparr>vf_event := safe_json 5 (vf_event e),
     vf_rest := filter (\<lambda>p. snd p \<noteq> JUndef) (map (\<lambda>(k, v). (k, safe_json 5 v)) (vf_rest e))\<rparr>"

lemmas read_simps = text_of_def opt_text_of_def opt_bool_of_def opt_int_of_def int_of_def int_val_def is_string_def is_boolean_def
  is_number_def checked_def given_value_def

lemma get_Cons: "get_prop (JObj ((js k, v) # m)) name = (if name = k then v else get_prop (JObj m) name)"
  by (simp add: get_prop_JObj jm_get_Cons)

lemma plain_Cons: "plain_members ((k, v) # m) \<longleftrightarrow> plain_name k \<and> k \<notin> fst ` set m \<and> plain_members m \<and> length m < 1024"
  by (auto simp: plain_members_def)

lemma plain_vals [simp]:
  "plain_members (protocol_members t)" 
  by (simp add: protocol_members_def plain_members_def)

lemma agent_plain: "plain_members (members_of (agent_val f))"
  by (simp add: agent_val_def protocol_members_def plain_members_def members_of_def opt_member_def given_member_def)

lemma terminal_plain: "plain_members (members_of (terminal_val f))"
  by (simp add: terminal_val_def protocol_members_def plain_members_def members_of_def opt_member_def given_member_def split: option.splits)

lemma file_plain: "plain_members (members_of (file_val f))"
  by (simp add: file_val_def protocol_members_def plain_members_def members_of_def opt_member_def given_member_def split: option.splits)

lemma review_plain: "plain_members (members_of (review_val f))"
  by (simp add: review_val_def protocol_members_def plain_members_def members_of_def opt_member_def given_member_def split: option.splits)

lemma audit_plain: "plain_members (members_of (audit_val f))"
  by (simp add: audit_val_def protocol_members_def plain_members_def members_of_def opt_member_def given_member_def split: option.splits)

lemma result_plain: "plain_members (members_of (result_val f))" "plain_members (members_of (error_val e))"
  by (simp_all add: result_val_def error_val_def protocol_members_def plain_members_def members_of_def opt_member_def given_member_def split: option.splits)

lemma entry_plain: "plain_members (members_of (entry_val f))"
  by (simp add: entry_val_def plain_members_def members_of_def split: option.splits)

lemma cursor_plain: "plain_members (members_of (cursor_val c))"
  by (simp add: cursor_val_def plain_members_def members_of_def)

lemma gap_plain: "plain_members (members_of (gap_val f))"
  by (simp add: gap_val_def protocol_members_def plain_members_def members_of_def)

lemma preview_event_plain: "plain_members (members_of (preview_event_val e))"
  by (simp add: preview_event_val_def plain_members_def members_of_def opt_member_def split: option.splits)

lemma get_safe_val: "plain_members (members_of v) \<Longrightarrow> isRecord v \<Longrightarrow> get_prop (safeJson v) name = safe_json 5 (get_prop v name)"
  by (cases v) (simp_all add: get_safe members_of_def isRecord_def)

lemma get_safe_val4: "plain_members (members_of v) \<Longrightarrow> isRecord v \<Longrightarrow> get_prop (safe_json 5 v) name = safe_json 4 (get_prop v name)"
  by (cases v) (simp_all add: get_safe members_of_def isRecord_def)

lemma safe_val_record: "isRecord v \<Longrightarrow> isRecord (safeJson v)" "isRecord v \<Longrightarrow> isRecord (safe_json 5 v)"
  by (cases v; simp add: safe_record; simp add: isRecord_def)+

lemma val_records [simp]:
  "isRecord (agent_val a)" "isRecord (terminal_val t)" "isRecord (file_val f)" "isRecord (review_val r)" "isRecord (audit_val u)"
  "isRecord (result_val x)" "isRecord (error_val e)" "isRecord (entry_val d)" "isRecord (cursor_val c)" "isRecord (gap_val g)"
  "isRecord (preview_event_val p)" "isRecord (event_val v)" "isRecord (metadata_val m)" "isRecord (workspace_val w)"
  by (simp_all add: isRecord_def agent_val_def terminal_val_def file_val_def review_val_def audit_val_def result_val_def error_val_def
      entry_val_def cursor_val_def gap_val_def preview_event_val_def event_val_def metadata_val_def workspace_val_def)

lemma get_members:
  "get_prop (JObj (opt_member k val x @ m)) name = (if name = k \<and> x \<noteq> None then val (the x) else get_prop (JObj m) name)"
  "get_prop (JObj (opt_member k val x)) name = (if name = k \<and> x \<noteq> None then val (the x) else JUndef)"
  "get_prop (JObj (given_member k v @ m)) name = (if name = k \<and> v \<noteq> JUndef then v else get_prop (JObj m) name)"
  "get_prop (JObj (given_member k v)) name = (if name = k \<and> v \<noteq> JUndef then v else JUndef)"
  "get_prop (JObj []) name = JUndef"
  by (cases x; simp add: get_prop_JObj)+

lemmas val_simps = protocol_members_def get_Cons get_members agent_val_def terminal_val_def file_val_def review_val_def audit_val_def
  result_val_def error_val_def entry_val_def cursor_val_def gap_val_def preview_event_val_def metadata_val_def

lemma agent_roundtrip: "agentValue (safeJson (agent_val f)) = Some (agent_image f)"
proof -
  note get = get_safe_val [OF agent_plain val_records(1)]
  have "agent_of (safeJson (agent_val f)) = agent_image f"
    unfolding agent_of_def get by (auto simp: val_simps read_simps agent_image_def)
  moreover have "is_string (get_prop (safeJson (agent_val f)) ''agentId'')" "is_string (get_prop (safeJson (agent_val f)) ''state'')"
    unfolding get by (simp_all add: val_simps read_simps)
  ultimately show ?thesis by (simp add: agentValue_def checked_def)
qed

lemma terminal_roundtrip: "terminalValue (safeJson (terminal_val t)) = Some t"
proof -
  note get = get_safe_val [OF terminal_plain val_records(2)]
  have "terminal_of (safeJson (terminal_val t)) = t"
    unfolding terminal_of_def get by (cases t) (auto simp: val_simps read_simps)
  moreover have "is_string (get_prop (safeJson (terminal_val t)) ''terminalId'')" "is_string (get_prop (safeJson (terminal_val t)) ''stdout'')"
    "is_string (get_prop (safeJson (terminal_val t)) ''stderr'')" "is_boolean (get_prop (safeJson (terminal_val t)) ''closed'')"
    unfolding get by (simp_all add: val_simps read_simps)
  ultimately show ?thesis by (simp add: terminalValue_def checked_def)
qed

lemma file_roundtrip: "fileValue (safeJson (file_val f)) = Some f"
proof -
  note get = get_safe_val [OF file_plain val_records(3)]
  have "file_of (safeJson (file_val f)) = f"
    unfolding file_of_def get by (cases f) (auto simp: val_simps read_simps)
  moreover have "is_string (get_prop (safeJson (file_val f)) ''path'')"
    unfolding get by (simp add: val_simps read_simps)
  ultimately show ?thesis by (simp add: fileValue_def checked_def)
qed

lemma safe_five_array: "safe_json 5 (JArr xs) = JArr (filter (\<lambda>x. x \<noteq> JUndef) (map (safe_json 4) (take 1024 xs)))"
  unfolding safe_levels(2) safe_json.simps by (simp only: jsval.case)

lemma review_roundtrip: "reviewValue (safeJson (review_val f)) = Some (review_image f)"
proof -
  note get = get_safe_val [OF review_plain val_records(4)]
  have "review_of (safeJson (review_val f)) = review_image f"
    unfolding review_of_def get by (auto simp: val_simps read_simps review_image_def items_of_def safe_five_array)
  moreover have "is_string (get_prop (safeJson (review_val f)) ''reviewId'')" "is_string (get_prop (safeJson (review_val f)) ''status'')"
    "get_prop (safeJson (review_val f)) ''findings'' = safe_json 5 (JArr (rf_findings f))"
    unfolding get by (simp_all add: val_simps read_simps)
  ultimately show ?thesis by (simp add: reviewValue_def checked_def safe_five_array)
qed

lemma audit_roundtrip: "audit_of (safeJson (audit_val f)) = audit_image f"
  unfolding audit_of_def get_safe_val [OF audit_plain val_records(5)] by (auto simp: val_simps read_simps audit_image_def)

lemma error_roundtrip: "error_of (safe_json 5 (error_val e)) = e"
  unfolding error_of_def get_safe_val4 [OF result_plain(2) val_records(7)] by (cases e) (simp add: val_simps read_simps)

lemma result_roundtrip: "resultValue (safeJson (result_val r)) = Some (result_image r)"
proof -
  note get = get_safe_val [OF result_plain(1) val_records(6)]
  have "safe_json 5 (error_val e) \<noteq> JUndef" for e
    using safe_val_record(2) [OF val_records(7), of e] by (cases "safe_json 5 (error_val e)") (simp_all add: isRecord_def)
  then have "result_of (safeJson (result_val r)) = result_image r"
    unfolding result_of_def get by (auto simp: result_val_def get_Cons get_members read_simps result_image_def error_roundtrip)
  moreover have "is_string (get_prop (safeJson (result_val r)) ''requestId'')" "is_boolean (get_prop (safeJson (result_val r)) ''ok'')"
    unfolding get by (simp_all add: result_val_def get_Cons get_members read_simps)
  ultimately show ?thesis by (simp add: resultValue_def checked_def)
qed

lemma entry_roundtrip: "entry_with_data (safeJson (entry_val e)) = entry_image e"
proof -
  note get = get_safe_val [OF entry_plain val_records(8)]
  have "entry_of (safeJson (entry_val e)) = entry_image e"
    unfolding entry_of_def get by (cases e) (auto simp: val_simps read_simps entry_image_def split: option.splits)
  moreover have "safeJson (get_prop (safeJson (entry_val e)) ''data'') = safe_json 5 (e_data e)"
    unfolding get by (simp add: val_simps safeJson_def safe_json_idem split: option.splits)
  ultimately show ?thesis by (simp add: entry_with_data_def entry_image_def)
qed

lemma cursor_safe [simp]: "safeJson (cursor_val c) = cursor_val c" "safe_json 5 (cursor_val c) = cursor_val c"
proof -
  have "safe_json (Suc (Suc n)) (cursor_val c) = cursor_val c" for n
    unfolding cursor_val_def
    by (subst safe_json_plain [OF cursor_plain [unfolded cursor_val_def members_of_def jsval.case]]) (simp add: is_finite_def)
  moreover have "(6::nat) = Suc (Suc 4)" "(5::nat) = Suc (Suc 3)" by simp_all
  ultimately show "safeJson (cursor_val c) = cursor_val c" "safe_json 5 (cursor_val c) = cursor_val c"
    unfolding safeJson_def by metis+
qed

lemma cursor_of_val [simp]: "cursor_of (cursor_val c) = c"
  by (simp add: cursor_of_def val_simps read_simps)

lemma cache_cursor_val: "0 \<le> seq c \<Longrightarrow> is_safe_integer (seq c) \<Longrightarrow> cache_cursor (cursor_val c) = Some c"
  by (simp add: cache_cursor_def safe_int_in_def) (simp add: val_simps read_simps)

lemma gap_roundtrip: "gap_of (safeJson (gap_val g)) = g"
  unfolding gap_of_def get_safe_val [OF gap_plain val_records(10)]
  by (cases g) (simp add: gap_val_def protocol_members_def get_Cons get_members read_simps)

lemma event_roundtrip:
  assumes "plain_members (members_of (event_val e))"
  shows "event_of (safeJson (event_val e)) = event_image e"
proof -
  let ?four = "[(js ''cursor'', cursor_val (vf_cursor e)), (js ''hostId'', JStr (vf_hostId e)), (js ''sessionId'', JStr (vf_sessionId e)),
    (js ''event'', vf_event e)]" and ?f = "\<lambda>(k, v). (k, safe_json 5 v)"
  have val: "event_val e = JObj (?four @ vf_rest e)" by (simp add: event_val_def)
  have p: "plain_members (?four @ vf_rest e)" using assms by (simp add: val members_of_def)
  note get = get_safe_val [OF assms val_records(12)]
  have mem: "members_of (safeJson (event_val e)) = filter (\<lambda>p. snd p \<noteq> JUndef) (map ?f (?four @ vf_rest e))"
    unfolding val safeJson_def safe_levels(1) safe_json_plain [OF p] by (simp only: members_of_def jsval.case)
  have "k \<notin> {js ''cursor'', js ''hostId'', js ''sessionId'', js ''event''}" if "(k, v) \<in> set (vf_rest e)" for k v
    using p that by (force simp: plain_members_def)
  then have keep: "filter (\<lambda>(k, w). k \<notin> set (map js [''cursor'', ''hostId'', ''sessionId'', ''event'']))
      (filter (\<lambda>p. snd p \<noteq> JUndef) (map ?f (vf_rest e))) = filter (\<lambda>p. snd p \<noteq> JUndef) (map ?f (vf_rest e))"
    by (intro filter_True) auto
  have "filter (\<lambda>(k, w). k \<notin> set (map js [''cursor'', ''hostId'', ''sessionId'', ''event'']))
      (filter (\<lambda>p. snd p \<noteq> JUndef) (map ?f ?four)) = []"
    by (simp add: filter_empty_conv)
  then have rest: "other_members [''cursor'', ''hostId'', ''sessionId'', ''event''] (safeJson (event_val e)) =
      filter (\<lambda>p. snd p \<noteq> JUndef) (map ?f (vf_rest e))"
    unfolding other_members_def mem map_append filter_append keep by simp
  show ?thesis unfolding event_of_def get rest
    by (simp add: val get_Cons read_simps event_image_def)
qed

definition cursor_ok :: "cursor \<Rightarrow> bool" where
  "cursor_ok c \<longleftrightarrow> 0 \<le> seq c \<and> is_safe_integer (seq c)"

lemma cache_cursor_ok: "cursor_ok c \<Longrightarrow> cache_cursor (cursor_val c) = Some c"
  by (simp add: cursor_ok_def cache_cursor_val)

definition url_val :: "preview_url \<Rightarrow> jsval" where
  "url_val u = JObj [(js ''origin'', JStr (pu_origin u)), (js ''pathname'', JStr (pu_pathname u)), (js ''hasQuery'', JBool (pu_hasQuery u))]"

definition preview_event_ok :: "preview_event \<Rightarrow> bool" where
  "preview_event_ok e \<longleftrightarrow>
     pe_type e \<noteq> PState \<and> pe_previewId e \<noteq> [] \<and> cursor_ok (pe_cursor e) \<and>
     (case pe_url e of None \<Rightarrow> True | Some u \<Rightarrow> length (pu_origin u) \<le> 512 \<and> length (pu_pathname u) \<le> 1024) \<and>
     (case pe_timestamp e of None \<Rightarrow> True | Some n \<Rightarrow> 0 \<le> n \<and> is_safe_integer n) \<and>
     (case pe_captureId e of None \<Rightarrow> True | Some s \<Rightarrow> length s \<le> 256) \<and>
     (case pe_errorCode e of None \<Rightarrow> True | Some s \<Rightarrow> length s \<le> 256)"

lemma url_safe: "safe_json 5 (url_val u) = url_val u"
proof -
  have p: "plain_members [(js ''origin'', JStr (pu_origin u)), (js ''pathname'', JStr (pu_pathname u)), (js ''hasQuery'', JBool (pu_hasQuery u))]"
    by (simp add: plain_members_def)
  show ?thesis unfolding url_val_def safe_levels(2) safe_json_plain [OF p] by simp
qed

lemma url_roundtrip: "saved_url (url_val u) = u"
  "length (pu_origin u) \<le> 512 \<Longrightarrow> length (pu_pathname u) \<le> 1024 \<Longrightarrow> saved_url_ok (url_val u)" "url_val u \<noteq> JUndef"
  by (simp_all add: saved_url_def saved_url_ok_def url_val_def get_Cons get_members read_simps isRecord_def short_string_def)

lemma kind_roundtrip: "k \<noteq> PState \<Longrightarrow> preview_kind_of (preview_kind_name k) = Some k"
  by (cases k) (simp_all add: preview_kind_of_def preview_kind_name_def)

lemma preview_event_roundtrip:
  assumes "preview_event_ok e"
  shows "restored_preview_event (safeJson (preview_event_val e)) = Some e"
proof -
  let ?v = "safeJson (preview_event_val e)"
  note get = get_safe_val [OF preview_event_plain val_records(11)]
  have g: "get_prop ?v ''type'' = JStr (preview_kind_name (pe_type e))" "get_prop ?v ''previewId'' = JStr (pe_previewId e)"
    "get_prop ?v ''cursor'' = cursor_val (pe_cursor e)" "get_prop ?v ''url'' = (case pe_url e of None \<Rightarrow> JUndef | Some u \<Rightarrow> url_val u)"
    "get_prop ?v ''timestamp'' = (case pe_timestamp e of None \<Rightarrow> JUndef | Some n \<Rightarrow> int_val n)"
    "get_prop ?v ''captureId'' = (case pe_captureId e of None \<Rightarrow> JUndef | Some s \<Rightarrow> JStr s)"
    "get_prop ?v ''errorCode'' = (case pe_errorCode e of None \<Rightarrow> JUndef | Some s \<Rightarrow> JStr s)"
    unfolding get by (simp_all add: preview_event_val_def get_Cons get_members int_val_def url_safe flip: url_val_def split: option.splits)
  have "restored_preview_event ?v = Some \<lparr>pe_type = pe_type e, pe_previewId = pe_previewId e, pe_cursor = pe_cursor e, pe_url = pe_url e,
      pe_timestamp = pe_timestamp e, pe_captureId = pe_captureId e, pe_errorCode = pe_errorCode e\<rparr>"
    using assms unfolding restored_preview_event_def g
    by (auto simp: preview_event_ok_def safe_val_record read_simps kind_roundtrip cache_cursor_ok absent_or_def url_roundtrip safe_int_in_def
        short_string_def split: option.splits)
  then show ?thesis by simp
qed

lemma metadata_roundtrip:
  assumes "0 \<le> im_totalCount m" "is_safe_integer (im_totalCount m)"
  shows "cache_metadata (safeJson (metadata_val m)) = Some m"
proof -
  have "plain_members (members_of (metadata_val m))" by (simp add: metadata_val_def members_of_def plain_members_def)
  note get = get_safe_val [OF this val_records(13)]
  show ?thesis using assms unfolding cache_metadata_def get
    by (cases m) (simp add: safe_record val_simps read_simps safe_int_in_def)
qed

lemma workspace_safe: "safeJson (workspace_val w) = workspace_val w"
proof -
  have c: "safe_json 5 (condition_val c) = condition_val c" for c
  proof -
    have p: "plain_members (members_of (condition_val c))" by (simp add: condition_val_def members_of_def plain_members_def)
    show ?thesis
      using safe_json_plain [OF p, of 4] by (simp only: safe_levels(2) condition_val_def members_of_def jsval.case) (simp add: is_finite_def)
  qed
  have p: "plain_members (members_of (workspace_val w))"
    by (simp add: workspace_val_def member_def members_of_def plain_members_def split: option.splits)
  have nu: "condition_val c \<noteq> JUndef" for c by (simp add: condition_val_def)
  show ?thesis
    using safe_json_plain [OF p, of 5]
    by (simp only: safeJson_def safe_levels(1) workspace_val_def members_of_def jsval.case) (simp add: member_def c nu split: option.splits)
qed

lemma workspace_cached:
  "decodeWorkspaceInfrastructureProjection v = Inr w \<Longrightarrow> cache_workspace (safeJson (workspace_val w)) = Some w"
  by (simp add: cache_workspace_def workspace_safe workspace_roundtrip)

subsection \<open>Lists and maps\<close>

lemma traverse_map: "(\<And>x. x \<in> set xs \<Longrightarrow> f (g x) = Some (h x)) \<Longrightarrow> traverse f (map g xs) = Some (map h xs)"
  by (induction xs) simp_all

lemma take_all_le: "length xs \<le> n \<Longrightarrow> take n xs = xs"
  by simp

lemma last_n_all: "length xs \<le> n \<Longrightarrow> last_n n xs = xs"
  by (simp add: last_n_def)

lemma length_last_n: "length (last_n n xs) \<le> n"
  by (simp add: last_n_def)

lemma last_n_map: "last_n n (map f xs) = map f (last_n n xs)"
  by (simp add: last_n_def drop_map)

lemma last_n_mono: "last_n n (last_n n xs) = last_n n xs"
  by (simp add: last_n_all length_last_n)

lemma last_n_set: "x \<in> set (last_n n xs) \<Longrightarrow> x \<in> set xs"
  by (auto simp: last_n_def dest: in_set_dropD)

lemma jm_wf_last_n: "jm_wf m \<Longrightarrow> jm_wf (last_n n m)"
  by (simp add: last_n_def wf_intros)

lemma jm_wf_map: "jm_wf m \<Longrightarrow> jm_wf (map (\<lambda>(k, v). (k, f v)) m)"
  by (simp add: jm_wf_def case_prod_beta comp_def)

lemma asMap_pairs:
  assumes "jm_wf m" "length m \<le> 1024"
    and "\<And>k v. (k, v) \<in> set m \<Longrightarrow> isRecord (val v) \<and> validate (val v) = Some (im v)"
  shows "asMap validate (pairs_val (map (\<lambda>(k, v). (k, val v)) m)) = Some (map (\<lambda>(k, v). (k, im v)) m)"
proof -
  have "traverse (\<lambda>x. Option.bind (cache_pair x) (\<lambda>(k, w). map_option (\<lambda>y. (k, y)) (validate w)))
      (map (\<lambda>(k, v). JArr [JStr k, val v]) m) = Some (map (\<lambda>(k, v). (k, im v)) m)"
    by (rule traverse_map) (use assms(3) in \<open>auto simp: cache_pair_def\<close>)
  moreover have "map (\<lambda>(k, v). JArr [JStr k, v]) (map (\<lambda>(k, v). (k, val v)) m) = map (\<lambda>(k, v). JArr [JStr k, val v]) m"
    by (simp add: case_prod_beta)
  ultimately show ?thesis
    using assms(1,2) by (simp only: asMap_def pairs_val_def jsval.case) (simp add: jm_of_entries_id jm_wf_map)
qed

lemma asMap_roundtrip:
  assumes "jm_wf m" "length m \<le> 1024" "\<And>v. isRecord (val v)" "\<And>v. validate (safeJson (val v)) = Some (im v)"
  shows "asMap validate (pairs_val (arrayFromMap val m)) = Some (map (\<lambda>(k, v). (k, im v)) m)"
  unfolding arrayFromMap_def using assms by (intro asMap_pairs) (simp_all add: safe_val_record)

lemma map_filter_map: "(\<And>x. x \<in> set xs \<Longrightarrow> f (g x) = Some (h x)) \<Longrightarrow> List.map_filter f (map g xs) = map h xs"
  by (induction xs) (auto simp: List.map_filter_def)

lemma rows_roundtrip:
  assumes "jm_wf m" "length m \<le> max_indexed_session_refs" "\<And>k v. (k, v) \<in> set m \<Longrightarrow> accept (safeJson (val v)) = Some (im v)"
  shows "restored_rows accept (pairs_val (arrayFromMap val m)) = map (\<lambda>(k, v). (k, im v)) m"
proof -
  let ?f = "\<lambda>x. case x of
         JArr (JStr k # rest) \<Rightarrow> map_option (\<lambda>y. (k, y)) (accept (case rest of [] \<Rightarrow> JUndef | w # ws \<Rightarrow> w))
       | _ \<Rightarrow> None"
  have "List.map_filter ?f (map (\<lambda>(k, v). JArr [JStr k, safeJson (val v)]) m) = map (\<lambda>(k, v). (k, im v)) m"
    by (rule map_filter_map) (use assms(3) in auto)
  moreover have "map (\<lambda>(k, v). JArr [JStr k, v]) (arrayFromMap val m) = map (\<lambda>(k, v). JArr [JStr k, safeJson (val v)]) m"
    by (simp add: arrayFromMap_def case_prod_beta)
  ultimately show ?thesis
    using assms(1,2) by (simp only: restored_rows_def pairs_val_def items_of_def jsval.case) (simp add: jm_of_entries_id jm_wf_map)
qed

subsection \<open>Transcripts of agents\<close>

definition transcript_ok :: "agent_transcript \<Rightarrow> bool" where
  "transcript_ok t \<longleftrightarrow> cursor_ok (at_cursor t) \<and> list_all (\<lambda>e. isRecord (e_data e)) (at_entries t)"

definition transcript_image :: "agent_transcript \<Rightarrow> agent_transcript" where
  "transcript_image t =
     (let entries = map entry_image (last_n 64 (at_entries t)) in
      t\<lparr>at_entries := entries, at_entryIds := map e_id entries, at_freshness := Cached,
        at_historyTruncated := at_historyTruncated t \<or> length (at_entries t) > 64\<rparr>)"

definition transcript_val :: "agent_transcript \<Rightarrow> jsval" where
  "transcript_val t = JObj ([(js ''entries'', JArr (map (\<lambda>e. safeJson (entry_val e)) (last_n 64 (at_entries t)))),
     (js ''cursor'', cursor_val (at_cursor t)), (js ''revision'', JStr (at_revision t)),
     (js ''freshness'', JStr (freshness_name (at_freshness t)))] @
     (if at_historyTruncated t \<or> length (at_entries t) > 64 then [(js ''historyTruncated'', JBool True)] else []))"

lemma cachedAgentTranscripts_val: "cachedAgentTranscripts m = map (\<lambda>(k, t). (k, transcript_val t)) (last_n 16 m)"
  by (simp add: cachedAgentTranscripts_def transcript_val_def)

lemma transcript_record: "isRecord (transcript_val t)"
  by (simp add: transcript_val_def isRecord_def)

lemma transcript_roundtrip:
  assumes "transcript_ok t"
  shows "transcriptValue (transcript_val t) = Some (transcript_image t)"
proof -
  let ?es = "last_n 64 (at_entries t)"
  have entry: "checked (isRecord v \<and> is_string (get_prop v ''id'') \<and> isRecord (get_prop v ''data'')) (entry_with_data v) = Some (entry_image e)"
    if "v = safeJson (entry_val e)" "isRecord (e_data e)" for v e
  proof -
    note get = get_safe_val [OF entry_plain val_records(8)]
    have "isRecord (safe_json 5 (e_data e))" using safe_val_record(2) [OF that(2)] .
    moreover have "get_prop v ''data'' = safe_json 5 (e_data e)" "is_string (get_prop v ''id'')"
      unfolding that(1) get by (simp_all add: val_simps read_simps split: option.splits)
    ultimately show ?thesis unfolding that(1) by (simp add: checked_def safe_val_record entry_roundtrip)
  qed
  have "traverse (\<lambda>v. checked (isRecord v \<and> is_string (get_prop v ''id'') \<and> isRecord (get_prop v ''data'')) (entry_with_data v))
      (map (\<lambda>e. safeJson (entry_val e)) ?es) = Some (map entry_image ?es)"
  proof (rule traverse_map, rule entry [OF refl])
    fix e assume "e \<in> set ?es"
    from last_n_set [OF this] show "isRecord (e_data e)" using assms by (simp add: transcript_ok_def list_all_iff)
  qed
  moreover have "last_n 64 (map (\<lambda>e. safeJson (entry_val e)) ?es) = map (\<lambda>e. safeJson (entry_val e)) ?es"
    by (simp add: last_n_map last_n_mono)
  moreover have "get_prop (transcript_val t) ''entries'' = JArr (map (\<lambda>e. safeJson (entry_val e)) ?es)"
    "get_prop (transcript_val t) ''cursor'' = cursor_val (at_cursor t)" "get_prop (transcript_val t) ''revision'' = JStr (at_revision t)"
    "get_prop (transcript_val t) ''historyTruncated'' = JBool True \<longleftrightarrow> at_historyTruncated t \<or> length (at_entries t) > 64"
    by (simp_all add: transcript_val_def get_Cons get_members)
  ultimately show ?thesis using assms
    by (simp add: transcriptValue_def transcript_image_def Let_def opt_text_of_def cache_cursor_ok transcript_ok_def)
qed

subsection \<open>Previews\<close>

definition preview_ok :: "jsstr \<Rightarrow> jsstr \<Rightarrow> preview_projection \<Rightarrow> bool" where
  "preview_ok host session p \<longleftrightarrow>
     pp_hostId p = host \<and> pp_sessionId p = session \<and> cursor_ok (pp_cursor p) \<and>
     (case pp_state p of None \<Rightarrow> True | Some s \<Rightarrow> s \<in> set preview_states) \<and>
     (case pp_viewport p of None \<Rightarrow> True | Some v \<Rightarrow> viewport_ok v) \<and>
     (case pp_capture p of None \<Rightarrow> True | Some c \<Rightarrow> capture_ok (capture_val c) \<and> capture_of (capture_val c) = c) \<and>
     (case pp_authority p of None \<Rightarrow> True | Some a \<Rightarrow> previewAuthority (authority_val a) = Some a) \<and>
     (case pp_availableActions p of None \<Rightarrow> True | Some as \<Rightarrow> previewActions (JArr (map JStr as)) = Some as)"

definition preview_image :: "url_parser \<Rightarrow> preview_projection \<Rightarrow> preview_projection" where
  "preview_image parse p = p\<lparr>pp_url := cachedPreviewUrl parse (cachedPreviewUrl parse (pp_url p)), pp_freshness := PvCached\<rparr>"

lemma is_string_JStr: "is_string (JStr s)"
  by (simp add: is_string_def)

lemma read_option:
  "opt_text_of (case x of None \<Rightarrow> JUndef | Some s \<Rightarrow> JStr s) = x" "opt_bool_of (case y of None \<Rightarrow> JUndef | Some b \<Rightarrow> JBool b) = y"
  "absent_or is_string (case x of None \<Rightarrow> JUndef | Some s \<Rightarrow> JStr s)" "absent_or is_boolean (case y of None \<Rightarrow> JUndef | Some b \<Rightarrow> JBool b)"
  by (auto simp: read_simps absent_or_def split: option.splits)

lemma read_object:
  "(\<And>v. f v \<noteq> JUndef \<and> g (f v) = v) \<Longrightarrow> map_option g (given_value (case x of None \<Rightarrow> JUndef | Some v \<Rightarrow> f v)) = x"
  by (cases x) (simp_all add: given_value_def)

lemma absent_or_case: "absent_or P (case x of None \<Rightarrow> JUndef | Some v \<Rightarrow> f v) \<longleftrightarrow> (case x of None \<Rightarrow> True | Some v \<Rightarrow> f v = JUndef \<or> P (f v))"
  by (simp add: absent_or_def split: option.splits)

lemma preview_roundtrip:
  assumes "preview_ok host session p"
  shows "restored_preview parse (JStr host) (JStr session) (cached_preview parse p) =
    Some (previewKey host session (pp_previewId p), preview_image parse p)"
proof -
  let ?v = "snd (cached_preview parse p)"
  have g: "get_prop ?v ''hostId'' = JStr (pp_hostId p)" "get_prop ?v ''sessionId'' = JStr (pp_sessionId p)"
    "get_prop ?v ''previewId'' = JStr (pp_previewId p)" "get_prop ?v ''revision'' = JStr (pp_revision p)"
    "get_prop ?v ''cursor'' = cursor_val (pp_cursor p)"
    "get_prop ?v ''state'' = (case pp_state p of None \<Rightarrow> JUndef | Some s \<Rightarrow> JStr s)"
    "get_prop ?v ''url'' = (case cachedPreviewUrl parse (pp_url p) of None \<Rightarrow> JUndef | Some s \<Rightarrow> JStr s)"
    "get_prop ?v ''title'' = (case pp_title p of None \<Rightarrow> JUndef | Some s \<Rightarrow> JStr s)"
    "get_prop ?v ''canGoBack'' = (case pp_canGoBack p of None \<Rightarrow> JUndef | Some b \<Rightarrow> JBool b)"
    "get_prop ?v ''canGoForward'' = (case pp_canGoForward p of None \<Rightarrow> JUndef | Some b \<Rightarrow> JBool b)"
    "get_prop ?v ''viewport'' = (case pp_viewport p of None \<Rightarrow> JUndef | Some w \<Rightarrow> w)"
    "get_prop ?v ''capture'' = (case pp_capture p of None \<Rightarrow> JUndef | Some c \<Rightarrow> capture_val c)"
    "get_prop ?v ''authority'' = (case pp_authority p of None \<Rightarrow> JUndef | Some a \<Rightarrow> authority_val a)"
    "get_prop ?v ''availableActions'' = (case pp_availableActions p of None \<Rightarrow> JUndef | Some as \<Rightarrow> JArr (map JStr as))"
    "get_prop ?v ''error'' = (case pp_error p of None \<Rightarrow> JUndef | Some e \<Rightarrow> error_val e)"
    by (simp_all add: cached_preview_def get_Cons get_members split: option.splits)
  have error: "error_val e \<noteq> JUndef \<and> error_of (error_val e) = e" for e
    by (simp add: error_of_def error_val_def get_Cons get_members read_simps)
  have ok: "absent_or (\<lambda>v. js_string v \<in> set preview_states) (case pp_state p of None \<Rightarrow> JUndef | Some s \<Rightarrow> JStr s)"
    "absent_or viewport_ok (case pp_viewport p of None \<Rightarrow> JUndef | Some w \<Rightarrow> w)"
    "absent_or capture_ok (case pp_capture p of None \<Rightarrow> JUndef | Some c \<Rightarrow> capture_val c)"
    using assms unfolding absent_or_case by (simp_all add: preview_ok_def split: option.splits)
  have eok: "absent_or (\<lambda>v. isRecord v \<and> is_string (get_prop v ''code'') \<and> is_string (get_prop v ''message''))
      (case pp_error p of None \<Rightarrow> JUndef | Some e \<Rightarrow> error_val e)"
    unfolding absent_or_case by (simp add: error_val_def get_Cons read_simps isRecord_def split: option.splits)
  have vp: "given_value (case pp_viewport p of None \<Rightarrow> JUndef | Some w \<Rightarrow> w) = pp_viewport p"
    using assms by (auto simp: preview_ok_def given_value_def viewport_ok_def isRecord_def split: option.splits)
  have cp: "map_option capture_of (given_value (case pp_capture p of None \<Rightarrow> JUndef | Some c \<Rightarrow> capture_val c)) = pp_capture p"
    using assms by (auto simp: preview_ok_def given_value_def capture_val_def split: option.splits)
  have aa: "restoredPreviewAuthority (case pp_authority p of None \<Rightarrow> JUndef | Some a \<Rightarrow> authority_val a) = Some (pp_authority p)"
    "restoredPreviewActions (case pp_availableActions p of None \<Rightarrow> JUndef | Some as \<Rightarrow> JArr (map JStr as)) = Some (pp_availableActions p)"
    using assms by (auto simp: restoredPreviewAuthority_def restoredPreviewActions_def preview_ok_def authority_val_def split: option.splits)
  have k: "fst (cached_preview parse p) = previewKey host session (pp_previewId p)" "pp_hostId p = host" "pp_sessionId p = session"
    "cursor_ok (pp_cursor p)"
    using assms by (simp_all add: cached_preview_def preview_ok_def)
  have "restored_preview parse (JStr host) (JStr session) (cached_preview parse p) =
      Some (previewKey host session (pp_previewId p),
        \<lparr>pp_hostId = host, pp_sessionId = session, pp_previewId = pp_previewId p, pp_state = pp_state p,
         pp_url = cachedPreviewUrl parse (cachedPreviewUrl parse (pp_url p)), pp_revision = pp_revision p, pp_cursor = pp_cursor p,
         pp_title = pp_title p, pp_canGoBack = pp_canGoBack p, pp_canGoForward = pp_canGoForward p, pp_viewport = pp_viewport p,
         pp_capture = pp_capture p, pp_authority = pp_authority p, pp_availableActions = pp_availableActions p, pp_error = pp_error p,
         pp_freshness = PvCached\<rparr>)"
    unfolding restored_preview_def Let_def g k(2,3) aa vp cp read_option
    by (simp add: ok eok read_option read_object [OF error] cache_cursor_ok [OF k(4)] k(1) is_string_JStr text_of_def checked_def)
  then show ?thesis using assms by (simp add: preview_image_def preview_ok_def)
qed

lemma previews_roundtrip:
  assumes "jm_wf m" "\<And>k p. (k, p) \<in> set m \<Longrightarrow> preview_ok host session p \<and> k = previewKey host session (pp_previewId p)"
  shows "restoredPreviews parse (pairs_val (cachedPreviews parse m)) (JStr host) (JStr session) =
    Some (map (\<lambda>(k, p). (k, preview_image parse p)) (last_n 32 m))"
proof -
  let ?m = "last_n 32 m"
  have pairs: "pairs_val (cachedPreviews parse m) =
      JArr (map (\<lambda>(k, p). JArr [JStr (fst (cached_preview parse p)), snd (cached_preview parse p)]) ?m)"
    by (simp add: pairs_val_def cachedPreviews_def jm_values_def last_n_map case_prod_beta)
  have "traverse (\<lambda>x. Option.bind (cache_pair x) (restored_preview parse (JStr host) (JStr session)))
      (map (\<lambda>(k, p). JArr [JStr (fst (cached_preview parse p)), snd (cached_preview parse p)]) ?m) =
      Some (map (\<lambda>(k, p). (k, preview_image parse p)) ?m)"
  proof (rule traverse_map)
    fix x assume m: "x \<in> set ?m"
    obtain k p where x: "x = (k, p)" "(k, p) \<in> set m" using last_n_set [OF m] by (metis surj_pair)
    have "isRecord (snd (cached_preview parse p))" by (simp add: cached_preview_def isRecord_def)
    then show "Option.bind (cache_pair (case x of (k, p) \<Rightarrow> JArr [JStr (fst (cached_preview parse p)), snd (cached_preview parse p)]))
        (restored_preview parse (JStr host) (JStr session)) = Some (case x of (k, p) \<Rightarrow> (k, preview_image parse p))"
      using preview_roundtrip [of host session p parse] assms(2) [OF x(2)] by (simp add: x(1) cache_pair_def)
  qed
  moreover have "length (map (\<lambda>(k, p). JArr [JStr (fst (cached_preview parse p)), snd (cached_preview parse p)]) ?m) \<le> 32"
    by (simp add: length_last_n)
  ultimately show ?thesis using assms(1)
    by (simp only: restoredPreviews_def pairs jsval.case last_n_all) (simp add: jm_of_entries_id jm_wf_map jm_wf_last_n)
qed

subsection \<open>Sessions\<close>

definition session_cacheable :: "session_projection \<Rightarrow> bool" where
  "session_cacheable s \<longleftrightarrow>
     (case sp_sessionId s of
        None \<Rightarrow> False
      | Some session \<Rightarrow>
          jm_wf (sp_agents s) \<and> length (sp_agents s) \<le> 1024 \<and> jm_wf (sp_terminals s) \<and> length (sp_terminals s) \<le> 1024 \<and>
          jm_wf (sp_files s) \<and> length (sp_files s) \<le> 1024 \<and> jm_wf (sp_reviews s) \<and> length (sp_reviews s) \<le> 1024 \<and>
          jm_wf (sp_results s) \<and> length (sp_results s) \<le> 1024 \<and> jm_wf (sp_agentTranscripts s) \<and>
          list_all (\<lambda>(k, t). transcript_ok t) (sp_agentTranscripts s) \<and>
          length (sp_entries s) \<le> 10000 \<and> list_all (\<lambda>e. plain_members (members_of (event_val e))) (sp_events s) \<and>
          jm_wf (sp_previews s) \<and>
          list_all (\<lambda>(k, p). preview_ok (sp_hostId s) session p \<and> k = previewKey (sp_hostId s) session (pp_previewId p)) (sp_previews s) \<and>
          list_all preview_event_ok (sp_previewEvents s) \<and>
          (case sp_revision s of None \<Rightarrow> True | Some r \<Rightarrow> r \<noteq> [] \<and> length r \<le> 256) \<and>
          (case sp_ref s of None \<Rightarrow> True | Some r \<Rightarrow> restoredSessionRef r \<noteq> None))"

text \<open>
  What a session comes back as: \<open>es\<close>, \<open>evs\<close>, \<open>ts\<close> and \<open>us\<close> are the entries, events, agent
  transcripts and audit frames that were kept.
\<close>

definition session_image ::
  "url_parser \<Rightarrow> session_projection \<Rightarrow> durable_entry list \<Rightarrow> event_frame list \<Rightarrow> (jsstr \<times> agent_transcript) list \<Rightarrow> audit_frame list \<Rightarrow>
   bool \<Rightarrow> session_projection" where
  "session_image parse s es evs ts us truncated =
     s\<lparr>sp_ref := map_option safeJson (sp_ref s), sp_entries := map entry_image es, sp_entryIds := map e_id es,
       sp_events := map event_image evs, sp_agents := map (\<lambda>(k, a). (k, agent_image a)) (sp_agents s),
       sp_agentTranscripts := map (\<lambda>(k, t). (k, transcript_image t)) ts,
       sp_reviews := map (\<lambda>(k, r). (k, review_image r)) (sp_reviews s), sp_audit := map audit_image us, sp_confirmations := [],
       sp_results := map (\<lambda>(k, r). (k, result_image r)) (sp_results s),
       sp_previews := map (\<lambda>(k, p). (k, preview_image parse p)) (last_n 32 (sp_previews s)),
       sp_previewEvents := last_n 128 (sp_previewEvents s),
       sp_freshness := (if sp_freshness s = CatchingUp then CatchingUp else Cached),
       sp_transcriptEventArrivalOrdinal := 0, sp_contextMaintenanceEventArrivalOrdinal := 0, sp_historyTruncated := truncated\<rparr>"

definition kept_session ::
  "url_parser \<Rightarrow> session_projection \<Rightarrow> durable_entry list \<Rightarrow> event_frame list \<Rightarrow> (jsstr \<times> agent_transcript) list \<Rightarrow> audit_frame list \<Rightarrow>
   bool \<Rightarrow> cached_session" where
  "kept_session parse s es evs ts us truncated =
     (cache_session parse s [] False)\<lparr>cs_entries := map (\<lambda>e. safeJson (entry_val e)) es,
       cs_events := map (\<lambda>e. safeJson (event_val e)) evs, cs_agentTranscripts := map (\<lambda>(k, t). (k, transcript_val t)) ts,
       cs_audit := map (\<lambda>a. safeJson (audit_val a)) us, cs_historyTruncated := truncated\<rparr>"

lemma cached_session_get:
  "get_prop (cached_session_val c) ''hostId'' = JStr (cs_hostId c)"
  "get_prop (cached_session_val c) ''sessionId'' = (case cs_sessionId c of None \<Rightarrow> JUndef | Some s \<Rightarrow> JStr s)"
  "get_prop (cached_session_val c) ''ref'' = (case cs_ref c of None \<Rightarrow> JUndef | Some r \<Rightarrow> r)"
  "get_prop (cached_session_val c) ''entries'' = JArr (cs_entries c)"
  "get_prop (cached_session_val c) ''historyTruncated'' = JBool (cs_historyTruncated c)"
  "get_prop (cached_session_val c) ''events'' = JArr (cs_events c)"
  "get_prop (cached_session_val c) ''agents'' = pairs_val (cs_agents c)"
  "get_prop (cached_session_val c) ''agentTranscripts'' = pairs_val (cs_agentTranscripts c)"
  "get_prop (cached_session_val c) ''terminals'' = pairs_val (cs_terminals c)"
  "get_prop (cached_session_val c) ''files'' = pairs_val (cs_files c)"
  "get_prop (cached_session_val c) ''reviews'' = pairs_val (cs_reviews c)"
  "get_prop (cached_session_val c) ''audit'' = JArr (cs_audit c)"
  "get_prop (cached_session_val c) ''results'' = pairs_val (cs_results c)"
  "get_prop (cached_session_val c) ''previews'' = pairs_val (cs_previews c)"
  "get_prop (cached_session_val c) ''previewEvents'' = JArr (cs_previewEvents c)"
  "get_prop (cached_session_val c) ''revision'' = (case cs_revision c of None \<Rightarrow> JUndef | Some s \<Rightarrow> JStr s)"
  "get_prop (cached_session_val c) ''cursor'' = (case cs_cursor c of None \<Rightarrow> JUndef | Some d \<Rightarrow> cursor_val d)"
  "get_prop (cached_session_val c) ''epoch'' = (case cs_epoch c of None \<Rightarrow> JUndef | Some s \<Rightarrow> JStr s)"
  "get_prop (cached_session_val c) ''freshness'' = JStr (freshness_name (cs_freshness c))"
  "get_prop (cached_session_val c) ''gap'' = (case cs_gap c of None \<Rightarrow> JUndef | Some g \<Rightarrow> g)"
  by (simp_all add: cached_session_val_def get_Cons get_members split: option.splits)

lemma restored_entries_roundtrip:
  "length es \<le> 10000 \<Longrightarrow> restored_entries (JArr (map (\<lambda>e. safeJson (entry_val e)) es)) = Some (map entry_image es)"
proof -
  assume len: "length es \<le> 10000"
  have "isRecord (safeJson (entry_val e))" for e by (simp add: safe_val_record)
  then have ok: "safeJson (entry_val e) \<noteq> JNull \<and> safeJson (entry_val e) \<noteq> JUndef" for e
    by (cases "safeJson (entry_val e)") (auto simp: isRecord_def dest: arg_cong [of _ _ isRecord])
  show ?thesis unfolding restored_entries_def items_of_def jsval.case
    by (subst last_n_all) (use len ok in \<open>auto intro!: traverse_map simp: checked_def entry_roundtrip\<close>)
qed

lemma kept_fields [simp]:
  "cs_hostId (kept_session parse s es evs ts us b) = sp_hostId s" "cs_sessionId (kept_session parse s es evs ts us b) = sp_sessionId s"
  "cs_ref (kept_session parse s es evs ts us b) = map_option safeJson (sp_ref s)"
  "cs_entries (kept_session parse s es evs ts us b) = map (\<lambda>e. safeJson (entry_val e)) es"
  "cs_historyTruncated (kept_session parse s es evs ts us b) = b"
  "cs_events (kept_session parse s es evs ts us b) = map (\<lambda>e. safeJson (event_val e)) evs"
  "cs_agents (kept_session parse s es evs ts us b) = arrayFromMap agent_val (sp_agents s)"
  "cs_agentTranscripts (kept_session parse s es evs ts us b) = map (\<lambda>(k, t). (k, transcript_val t)) ts"
  "cs_terminals (kept_session parse s es evs ts us b) = arrayFromMap terminal_val (sp_terminals s)"
  "cs_files (kept_session parse s es evs ts us b) = arrayFromMap file_val (sp_files s)"
  "cs_reviews (kept_session parse s es evs ts us b) = arrayFromMap review_val (sp_reviews s)"
  "cs_audit (kept_session parse s es evs ts us b) = map (\<lambda>a. safeJson (audit_val a)) us"
  "cs_results (kept_session parse s es evs ts us b) = arrayFromMap result_val (sp_results s)"
  "cs_previews (kept_session parse s es evs ts us b) = cachedPreviews parse (sp_previews s)"
  "cs_previewEvents (kept_session parse s es evs ts us b) = map (\<lambda>e. safeJson (preview_event_val e)) (last_n 128 (sp_previewEvents s))"
  "cs_revision (kept_session parse s es evs ts us b) = sp_revision s" "cs_cursor (kept_session parse s es evs ts us b) = sp_cursor s"
  "cs_epoch (kept_session parse s es evs ts us b) = sp_epoch s" "cs_freshness (kept_session parse s es evs ts us b) = sp_freshness s"
  "cs_gap (kept_session parse s es evs ts us b) = map_option (\<lambda>g. safeJson (gap_val g)) (sp_gap s)"
  by (simp_all add: kept_session_def cache_session_def)

lemma session_ref_roundtrip: "restoredSessionRef r \<noteq> None \<Longrightarrow> isRecord (safeJson r) \<and> restoredSessionRef (safeJson r) = Some (safeJson r)"
  by (auto simp: restoredSessionRef_def checked_def Let_def split: if_splits)

lemma ref_roundtrip:
  assumes "case sp_ref s of None \<Rightarrow> True | Some r \<Rightarrow> restoredSessionRef r \<noteq> None"
  shows "(if isRecord (case map_option safeJson (sp_ref s) of None \<Rightarrow> JUndef | Some r \<Rightarrow> r)
      then restoredSessionRef (case map_option safeJson (sp_ref s) of None \<Rightarrow> JUndef | Some r \<Rightarrow> r) else None) = map_option safeJson (sp_ref s)"
  using assms session_ref_roundtrip by (cases "sp_ref s") (auto simp: isRecord_def)

lemma scalar_roundtrips:
  "opt_text_of (JStr t) = Some t" "text_of (JStr t) = t"
  "(if JStr t \<noteq> JStr [] \<and> short_string 256 (JStr t) then opt_text_of (JStr t) else None) = (if t \<noteq> [] \<and> length t \<le> 256 then Some t else None)"
  "isRecord (cursor_val c) \<and> is_string (get_prop (cursor_val c) ''epoch'') \<and> is_number (get_prop (cursor_val c) ''seq'')"
  "freshness_name f = js ''catching-up'' \<longleftrightarrow> f = CatchingUp" "is_string (JStr t)"
  by (simp_all add: read_simps short_string_def cursor_val_def get_Cons isRecord_def freshness_name_def split: freshness.splits)

lemma session_roundtrip:
  assumes ok: "session_cacheable s" and len: "length es \<le> 10000" "length evs \<le> 512" "length ts \<le> 1024" "length us \<le> 256"
    and sub: "set evs \<subseteq> set (sp_events s)" "set ts \<subseteq> set (sp_agentTranscripts s)" "jm_wf ts"
  shows "restoreSession parse (cached_session_val (kept_session parse s es evs ts us b)) = Some (Some (session_image parse s es evs ts us b))"
proof -
  obtain session where session: "sp_sessionId s = Some session" using ok by (auto simp: session_cacheable_def split: option.splits)
  note ok' = ok [unfolded session_cacheable_def session option.case]
  have transcripts: "asMap transcriptValue (pairs_val (map (\<lambda>(k, t). (k, transcript_val t)) ts)) = Some (map (\<lambda>(k, t). (k, transcript_image t)) ts)"
  proof (rule asMap_pairs [OF sub(3) len(3)])
    fix k t assume "(k, t) \<in> set ts"
    then have "transcript_ok t" using sub(2) ok' by (auto simp: list_all_iff)
    then show "isRecord (transcript_val t) \<and> transcriptValue (transcript_val t) = Some (transcript_image t)"
      using transcript_roundtrip by (simp add: transcript_record)
  qed
  have maps: "asMap agentValue (pairs_val (arrayFromMap agent_val (sp_agents s))) = Some (map (\<lambda>(k, v). (k, agent_image v)) (sp_agents s))"
    "asMap terminalValue (pairs_val (arrayFromMap terminal_val (sp_terminals s))) = Some (map (\<lambda>(k, v). (k, v)) (sp_terminals s))"
    "asMap fileValue (pairs_val (arrayFromMap file_val (sp_files s))) = Some (map (\<lambda>(k, v). (k, v)) (sp_files s))"
    "asMap reviewValue (pairs_val (arrayFromMap review_val (sp_reviews s))) = Some (map (\<lambda>(k, v). (k, review_image v)) (sp_reviews s))"
    "asMap resultValue (pairs_val (arrayFromMap result_val (sp_results s))) = Some (map (\<lambda>(k, v). (k, result_image v)) (sp_results s))"
    using ok' by (simp_all add: asMap_roundtrip agent_roundtrip terminal_roundtrip file_roundtrip review_roundtrip result_roundtrip)
  have events: "map (\<lambda>e. event_of (safeJson e)) (last_n 512 (items_of (JArr (map (\<lambda>e. safeJson (event_val e)) evs)))) = map event_image evs"
    using len(2) sub(1) ok' by (auto simp: items_of_def last_n_all list_all_iff event_roundtrip)
  have audits: "map (\<lambda>a. audit_of (safeJson a)) (last_n 256 (items_of (JArr (map (\<lambda>a. safeJson (audit_val a)) us)))) = map audit_image us"
    using len(4) by (simp add: items_of_def last_n_all audit_roundtrip)
  have previews: "restoredPreviews parse (pairs_val (cachedPreviews parse (sp_previews s))) (JStr (sp_hostId s)) (JStr session) =
      Some (map (\<lambda>(k, p). (k, preview_image parse p)) (last_n 32 (sp_previews s)))"
    by (rule previews_roundtrip) (use ok' in \<open>auto simp: list_all_iff\<close>)
  have "traverse restored_preview_event (map (\<lambda>e. safeJson (preview_event_val e)) (last_n 128 (sp_previewEvents s))) =
      Some (map (\<lambda>e. e) (last_n 128 (sp_previewEvents s)))"
    by (rule traverse_map, rule preview_event_roundtrip) (use ok' last_n_set in \<open>fastforce simp: list_all_iff\<close>)
  then have pevents: "restoredPreviewEvents (JArr (map (\<lambda>e. safeJson (preview_event_val e)) (last_n 128 (sp_previewEvents s)))) =
      Some (last_n 128 (sp_previewEvents s))"
    by (simp add: restoredPreviewEvents_def last_n_map last_n_mono)
  have gap: "(if isRecord (case map_option (\<lambda>g. safeJson (gap_val g)) (sp_gap s) of None \<Rightarrow> JUndef | Some g \<Rightarrow> g)
      then Some (gap_of (case map_option (\<lambda>g. safeJson (gap_val g)) (sp_gap s) of None \<Rightarrow> JUndef | Some g \<Rightarrow> g)) else None) = sp_gap s"
    by (cases "sp_gap s") (simp_all add: gap_roundtrip safe_val_record, simp add: isRecord_def)
  have cur: "(if isRecord (case sp_cursor s of None \<Rightarrow> JUndef | Some d \<Rightarrow> cursor_val d) \<and>
        is_string (get_prop (case sp_cursor s of None \<Rightarrow> JUndef | Some d \<Rightarrow> cursor_val d) ''epoch'') \<and>
        is_number (get_prop (case sp_cursor s of None \<Rightarrow> JUndef | Some d \<Rightarrow> cursor_val d) ''seq'')
      then Some (cursor_of (case sp_cursor s of None \<Rightarrow> JUndef | Some d \<Rightarrow> cursor_val d)) else None) = sp_cursor s"
    by (cases "sp_cursor s") (simp_all add: scalar_roundtrips, simp add: isRecord_def)
  have rev: "(if (case sp_revision s of None \<Rightarrow> JUndef | Some r \<Rightarrow> JStr r) \<noteq> JStr [] \<and>
        short_string 256 (case sp_revision s of None \<Rightarrow> JUndef | Some r \<Rightarrow> JStr r)
      then sp_revision s else None) = sp_revision s"
    using ok' by (cases "sp_revision s") (simp_all add: read_simps short_string_def)
  have ids: "e_id (entry_image e) = e_id e" for e by (simp add: entry_image_def)
  have und: "pairs_val kvs \<noteq> JUndef" for kvs by (simp add: pairs_val_def)
  have rec: "isRecord (cached_session_val (kept_session parse s es evs ts us b))" by (simp add: cached_session_val_def isRecord_def)
  have ref: "case sp_ref s of None \<Rightarrow> True | Some r \<Rightarrow> restoredSessionRef r \<noteq> None" using ok' by simp
  have "restoreSession parse (cached_session_val (kept_session parse s es evs ts us b)) = Some (Some
      \<lparr>sp_hostId = sp_hostId s, sp_sessionId = Some session, sp_ref = map_option safeJson (sp_ref s), sp_entries = map entry_image es,
       sp_events = map event_image evs, sp_agents = map (\<lambda>(k, v). (k, agent_image v)) (sp_agents s),
       sp_agentTranscripts = map (\<lambda>(k, t). (k, transcript_image t)) ts, sp_terminals = sp_terminals s, sp_files = sp_files s,
       sp_reviews = map (\<lambda>(k, v). (k, review_image v)) (sp_reviews s), sp_audit = map audit_image us, sp_confirmations = [],
       sp_results = map (\<lambda>(k, v). (k, result_image v)) (sp_results s),
       sp_previews = map (\<lambda>(k, p). (k, preview_image parse p)) (last_n 32 (sp_previews s)),
       sp_previewEvents = last_n 128 (sp_previewEvents s), sp_revision = sp_revision s, sp_cursor = sp_cursor s, sp_epoch = sp_epoch s,
       sp_freshness = (if sp_freshness s = CatchingUp then CatchingUp else Cached), sp_transcriptEventArrivalOrdinal = 0,
       sp_contextMaintenanceEventArrivalOrdinal = 0, sp_gap = sp_gap s, sp_historyTruncated = b, sp_entryIds = map e_id es\<rparr>)"
    unfolding restoreSession_def Let_def cached_session_get kept_fields session option.case restored_entries_roundtrip [OF len(1)] maps
      transcripts previews pevents events audits gap cur ref_roundtrip [OF ref] read_option rev
    by (simp add: rec und scalar_roundtrips ids comp_def)
  then show ?thesis using session by (simp add: session_image_def)
qed

subsection \<open>Snapshots\<close>

text \<open>The entries each cached session keeps.\<close>

fun kept_entries :: "int \<Rightarrow> (jsstr \<times> session_projection) list \<Rightarrow> (jsstr \<times> session_projection \<times> durable_entry list \<times> bool) list" where
  "kept_entries remaining [] = []"
| "kept_entries remaining ((k, s) # rest) =
     (let (retained, truncated) = cachedEntries (sp_entries s) (max 2 remaining)
      in (k, s, retained, truncated) # kept_entries (max 0 (remaining - retainedJsonBytes (JArr (map entry_val retained)))) rest)"

definition kept_image :: "url_parser \<Rightarrow> bool \<Rightarrow> session_projection \<times> durable_entry list \<times> bool \<Rightarrow> session_projection" where
  "kept_image parse compact x =
     (case x of (s, retained, truncated) \<Rightarrow>
        if compact then session_image parse s (last_n 512 retained) (last_n 128 (sp_events s)) [] (last_n 64 (sp_audit s)) True
        else session_image parse s retained (last_n 512 (sp_events s)) (last_n 16 (sp_agentTranscripts s)) (last_n 256 (sp_audit s))
          (sp_historyTruncated s \<or> truncated))"

definition snapshot_image :: "url_parser \<Rightarrow> bool \<Rightarrow> snapshot \<Rightarrow> snapshot" where
  "snapshot_image parse compact s =
     (let cached = map fst (cachedSessions s);
          lru = filter (\<lambda>k. k \<in> set cached) (take max_projection_cache_sessions (sn_lru s))
      in s\<lparr>sn_sessions := map (\<lambda>(k, x). (k, kept_image parse compact x)) (kept_entries max_projection_cache_transcript_bytes (cachedSessions s)),
           sn_activeSessionKey :=
             (case sn_activeSessionKey s of None \<Rightarrow> None | Some k \<Rightarrow> if k \<in> set cached \<and> k \<in> set lru then Some k else None),
           sn_sessionIndex := map (\<lambda>(k, r). (k, safeJson r)) (sn_sessionIndex s), sn_sessionRefArrivalOrdinals := [],
           sn_lru := lru, sn_freshness := Cached, sn_arrivalOrdinal := 0\<rparr>)"

definition rows_ok :: "('v \<Rightarrow> bool) \<Rightarrow> (jsstr, 'v) jsmap \<Rightarrow> bool" where
  "rows_ok P m \<longleftrightarrow> jm_wf m \<and> length m \<le> max_indexed_session_refs \<and> list_all (\<lambda>(k, v). P v) m"

definition cacheable :: "snapshot \<Rightarrow> bool" where
  "cacheable s \<longleftrightarrow>
     distinct (sn_lru s) \<and> jm_wf (sn_sessions s) \<and> list_all (\<lambda>(k, p). session_cacheable p) (sn_sessions s) \<and>
     rows_ok (\<lambda>r. restoredSessionRef r \<noteq> None) (sn_sessionIndex s) \<and>
     rows_ok (\<lambda>m. 0 \<le> im_totalCount m \<and> is_safe_integer (im_totalCount m)) (sn_sessionIndexMetadata s) \<and>
     rows_ok cursor_ok (sn_sessionDeltaCursors s) \<and> rows_ok cursor_ok (sn_sessionInventoryCursors s) \<and>
     rows_ok (\<lambda>w. decodeWorkspaceInfrastructureProjection (workspace_val w) = Inr w) (sn_workspaces s) \<and>
     rows_ok cursor_ok (sn_workspaceCursors s)"

definition kept_data :: "url_parser \<Rightarrow> bool \<Rightarrow> session_projection \<times> durable_entry list \<times> bool \<Rightarrow> cached_session" where
  "kept_data parse compact x =
     (case x of (s, retained, truncated) \<Rightarrow>
        if compact then kept_session parse s (last_n 512 retained) (last_n 128 (sp_events s)) [] (last_n 64 (sp_audit s)) True
        else kept_session parse s retained (last_n 512 (sp_events s)) (last_n 16 (sp_agentTranscripts s)) (last_n 256 (sp_audit s))
          (sp_historyTruncated s \<or> truncated))"

lemma last_n_last_n: "m \<le> n \<Longrightarrow> last_n m (last_n n xs) = last_n m xs"
  by (cases "n \<le> length xs") (simp_all add: last_n_def)

lemma cache_session_kept: "cache_session parse s retained truncated = kept_data parse False (s, retained, truncated)"
  by (simp add: kept_data_def kept_session_def cache_session_def cachedAgentTranscripts_val)

lemma compact_session_kept: "compact_session (kept_data parse False x) = kept_data parse True x"
  by (cases x) (simp add: kept_data_def compact_session_def kept_session_def cache_session_def last_n_map last_n_last_n)

lemma cache_sessions_kept: "cache_sessions parse n ss = map (\<lambda>(k, x). (k, kept_data parse False x)) (kept_entries n ss)"
  by (induction parse n ss rule: cache_sessions.induct) (auto simp: cache_session_kept Let_def split: prod.splits)

lemma compact_data_kept:
  "cd_sessions (compact_data (cache_data_of parse s)) =
     map (\<lambda>(k, x). (k, kept_data parse True x)) (kept_entries max_projection_cache_transcript_bytes (cachedSessions s))"
  by (simp add: compact_data_def cache_data_of_def cache_sessions_kept case_prod_beta compact_session_kept)

lemma take_fitting_length: "length (take_fitting n b f es) \<le> length es"
  by (induction n b f es rule: take_fitting.induct) (simp_all add: Let_def)

lemma kept_entries_props:
  "map fst (kept_entries n ss) = map fst ss"
  "(k, s, retained, truncated) \<in> set (kept_entries n ss) \<Longrightarrow> (k, s) \<in> set ss \<and> length retained \<le> length (sp_entries s)"
proof -
  have len: "length (fst (cachedEntries es m)) \<le> length es" for es m
    using take_fitting_length [of m 2 True "rev es"] by (simp add: cachedEntries_def Let_def)
  show "map fst (kept_entries n ss) = map fst ss"
    by (induction n ss rule: kept_entries.induct) (auto simp: Let_def split: prod.splits)
  show "(k, s, retained, truncated) \<in> set (kept_entries n ss) \<Longrightarrow> (k, s) \<in> set ss \<and> length retained \<le> length (sp_entries s)"
  proof (induction n ss rule: kept_entries.induct)
    case (2 n i p rest)
    obtain r t where r: "cachedEntries (sp_entries p) (max 2 n) = (r, t)" by fastforce
    then have "length r \<le> length (sp_entries p)" using len [of "sp_entries p" "max 2 n"] by simp
    then show ?case using 2 r by auto
  qed simp
qed

lemma cachedSessions_props:
  assumes "distinct (sn_lru s)" "jm_wf (sn_sessions s)"
  shows "distinct (map fst (cachedSessions s))" "length (cachedSessions s) \<le> max_projection_cache_sessions"
    "(k, p) \<in> set (cachedSessions s) \<Longrightarrow> jm_get (sn_sessions s) k = Some p"
proof -
  have mf: "map fst (List.map_filter (\<lambda>k. map_option (\<lambda>p. (k, p)) (f k)) ks) = filter (\<lambda>k. f k \<noteq> None) ks" for f :: "jsstr \<Rightarrow> session_projection option" and ks
    by (induction ks) (auto simp: List.map_filter_def)
  have "distinct (cache_order s)" using assms by (auto simp: cache_order_def jm_wf_keys)
  then show "distinct (map fst (cachedSessions s))" unfolding cachedSessions_def mf by (simp add: distinct_take)
  have "length (map fst (cachedSessions s)) \<le> max_projection_cache_sessions"
    unfolding cachedSessions_def mf by (rule order.trans [OF length_filter_le]) simp
  then show "length (cachedSessions s) \<le> max_projection_cache_sessions" by simp
  show "(k, p) \<in> set (cachedSessions s) \<Longrightarrow> jm_get (sn_sessions s) k = Some p"
    by (auto simp: cachedSessions_def List.map_filter_def)
qed

lemma length_last_n_le: "n \<le> m \<Longrightarrow> length (last_n n xs) \<le> m"
  using length_last_n by (rule le_trans)

lemma last_n_subset: "set (last_n n xs) \<subseteq> set xs"
  by (simp add: subset_iff last_n_set)

lemma kept_roundtrip:
  assumes "session_cacheable s" "length retained \<le> length (sp_entries s)"
  shows "restoreSession parse (cached_session_val (kept_data parse compact (s, retained, truncated))) =
    Some (Some (kept_image parse compact (s, retained, truncated)))"
proof -
  have "length retained \<le> 10000" "jm_wf (sp_agentTranscripts s)"
    using assms by (auto simp: session_cacheable_def split: option.splits)
  then show ?thesis
    by (cases compact)
       (simp_all add: kept_data_def kept_image_def session_roundtrip [OF assms(1)] jm_wf_last_n length_last_n_le last_n_subset)
qed

lemma sessions_roundtrip:
  assumes "length ks \<le> max_projection_cache_sessions" "distinct (map fst ks)"
    and "\<And>k s r t. (k, s, r, t) \<in> set ks \<Longrightarrow> session_cacheable s \<and> length r \<le> length (sp_entries s)"
  shows "restored_sessions parse (JArr (map (\<lambda>(k, c). JObj [(js ''key'', JStr k), (js ''value'', cached_session_val c)])
      (map (\<lambda>(k, x). (k, kept_data parse compact x)) ks))) = Some (map (\<lambda>(k, x). (k, kept_image parse compact x)) ks)"
proof -
  let ?g = "\<lambda>(k, x). JObj [(js ''key'', JStr k), (js ''value'', cached_session_val (kept_data parse compact x))]"
  have g: "map (\<lambda>(k, c). JObj [(js ''key'', JStr k), (js ''value'', cached_session_val c)]) (map (\<lambda>(k, x). (k, kept_data parse compact x)) ks) =
      map ?g ks" by (simp add: case_prod_beta)
  have "traverse (\<lambda>item.
          if \<not> isRecord item \<or> \<not> is_string (get_prop item ''key'') then Some []
          else map_option (\<lambda>r. case r of None \<Rightarrow> [] | Some s \<Rightarrow> [(text_of (get_prop item ''key''), s)])
                 (restoreSession parse (get_prop item ''value''))) (map ?g ks) =
      Some (map (\<lambda>(k, x). [(k, kept_image parse compact x)]) ks)"
  proof (rule traverse_map)
    fix y assume "y \<in> set ks"
    then obtain k s r t where y: "y = (k, s, r, t)" "(k, s, r, t) \<in> set ks" by (metis prod_cases4)
    note r = kept_roundtrip [of s r parse compact t]
    show "(if \<not> isRecord (?g y) \<or> \<not> is_string (get_prop (?g y) ''key'') then Some []
        else map_option (\<lambda>r. case r of None \<Rightarrow> [] | Some s \<Rightarrow> [(text_of (get_prop (?g y) ''key''), s)])
               (restoreSession parse (get_prop (?g y) ''value''))) = Some (case y of (k, x) \<Rightarrow> [(k, kept_image parse compact x)])"
      using assms(3) [OF y(2)] by (simp add: y(1) get_Cons isRecord_def is_string_JStr text_of_def r)
  qed
  moreover have "concat (map (\<lambda>(k, x). [(k, kept_image parse compact x)]) ks) = map (\<lambda>(k, x). (k, kept_image parse compact x)) ks"
    by (induction ks) auto
  moreover have "jm_wf (map (\<lambda>(k, x). (k, kept_image parse compact x)) ks)" using assms(2) by (simp add: jm_wf_def comp_def case_prod_beta)
  ultimately show ?thesis using assms(1)
    by (simp only: restored_sessions_def items_of_def jsval.case g) (simp add: jm_of_entries_id)
qed

lemma cache_data_get:
  "get_prop (cache_data_val d) ''sessions'' =
     JArr (map (\<lambda>(k, c). JObj [(js ''key'', JStr k), (js ''value'', cached_session_val c)]) (cd_sessions d))"
  "get_prop (cache_data_val d) ''sessionIndex'' = pairs_val (cd_sessionIndex d)"
  "get_prop (cache_data_val d) ''sessionIndexMetadata'' = pairs_val (cd_sessionIndexMetadata d)"
  "get_prop (cache_data_val d) ''sessionDeltaCursors'' = pairs_val (cd_sessionDeltaCursors d)"
  "get_prop (cache_data_val d) ''sessionInventoryCursors'' = pairs_val (cd_sessionInventoryCursors d)"
  "get_prop (cache_data_val d) ''workspaces'' = pairs_val (cd_workspaces d)"
  "get_prop (cache_data_val d) ''workspaceCursors'' = pairs_val (cd_workspaceCursors d)"
  "get_prop (cache_data_val d) ''activeSessionKey'' = (case cd_activeSessionKey d of None \<Rightarrow> JUndef | Some k \<Rightarrow> JStr k)"
  "get_prop (cache_data_val d) ''lru'' = JArr (map JStr (cd_lru d))"
  "get_prop (cache_data_val d) ''cursor'' = (case cd_cursor d of None \<Rightarrow> JUndef | Some c \<Rightarrow> cursor_val c)"
  "get_prop (cache_data_val d) ''epoch'' = (case cd_epoch d of None \<Rightarrow> JUndef | Some s \<Rightarrow> JStr s)"
  by (simp_all add: cache_data_val_def get_Cons get_members split: option.splits)

lemma rows_image:
  assumes "rows_ok P m" "\<And>v. P v \<Longrightarrow> accept (safeJson (val v)) = Some (im v)"
  shows "restored_rows accept (pairs_val (arrayFromMap val (take max_indexed_session_refs m))) = map (\<lambda>(k, v). (k, im v)) m"
  using assms by (subst take_all_le) (auto simp: rows_ok_def list_all_iff intro!: rows_roundtrip)

lemma rows_same:
  "rows_ok P m \<Longrightarrow> (\<And>v. P v \<Longrightarrow> accept (safeJson (val v)) = Some v) \<Longrightarrow>
   restored_rows accept (pairs_val (arrayFromMap val (take max_indexed_session_refs m))) = m"
  using rows_image [of P m accept val "\<lambda>v. v"] by simp

definition stored_data :: "url_parser \<Rightarrow> bool \<Rightarrow> snapshot \<Rightarrow> cache_data" where
  "stored_data parse compact s = (if compact then compact_data (cache_data_of parse s) else cache_data_of parse s)"

lemma stored_sessions:
  "cd_sessions (stored_data parse compact s) =
     map (\<lambda>(k, x). (k, kept_data parse compact x)) (kept_entries max_projection_cache_transcript_bytes (cachedSessions s))"
  by (simp add: stored_data_def compact_data_kept) (simp add: cache_data_of_def cache_sessions_kept)

lemma stored_rest:
  "cd_sessionIndex (stored_data parse compact s) = arrayFromMap id (take max_indexed_session_refs (sn_sessionIndex s))"
  "cd_sessionIndexMetadata (stored_data parse compact s) = arrayFromMap metadata_val (take max_indexed_session_refs (sn_sessionIndexMetadata s))"
  "cd_sessionDeltaCursors (stored_data parse compact s) = arrayFromMap cursor_val (take max_indexed_session_refs (sn_sessionDeltaCursors s))"
  "cd_sessionInventoryCursors (stored_data parse compact s) = arrayFromMap cursor_val (take max_indexed_session_refs (sn_sessionInventoryCursors s))"
  "cd_workspaces (stored_data parse compact s) = arrayFromMap workspace_val (take max_indexed_session_refs (sn_workspaces s))"
  "cd_workspaceCursors (stored_data parse compact s) = arrayFromMap cursor_val (take max_indexed_session_refs (sn_workspaceCursors s))"
  "cd_activeSessionKey (stored_data parse compact s) = sn_activeSessionKey s"
  "cd_lru (stored_data parse compact s) = take max_projection_cache_sessions (sn_lru s)"
  "cd_cursor (stored_data parse compact s) = sn_cursor s" "cd_epoch (stored_data parse compact s) = sn_epoch s"
  by (simp_all add: stored_data_def compact_data_def cache_data_of_def)

lemma encode_stored:
  assumes "encodeProjectionCache parse s now = Inr env"
  shows "\<exists>compact. env = envelope_val now (stored_data parse compact s) \<and> json_bytes env \<le> max_projection_cache_bytes"
  using assms by (auto simp: encodeProjectionCache_def Let_def stored_data_def split: if_splits intro: exI [of _ True] exI [of _ False])

lemma restored_lru:
  assumes "length ks \<le> n"
  shows "take n (List.map_filter (\<lambda>x. case x of JStr k \<Rightarrow> if P k then Some k else None | _ \<Rightarrow> None) (map JStr ks)) = filter P ks"
proof -
  have "List.map_filter (\<lambda>x. case x of JStr k \<Rightarrow> if P k then Some k else None | _ \<Rightarrow> None) (map JStr ks) = filter P ks"
    by (induction ks) (auto simp: List.map_filter_def)
  moreover have "length (filter P ks) \<le> n" using length_filter_le [of P ks] assms by (rule le_trans)
  ultimately show ?thesis by simp
qed

lemma restored_active:
  "(case (case a of None \<Rightarrow> JUndef | Some k \<Rightarrow> JStr k) of JStr k \<Rightarrow> if P k then Some k else None | _ \<Rightarrow> None) =
   (case a of None \<Rightarrow> None | Some k \<Rightarrow> if P k then Some k else None)"
  by (cases a) auto

lemma cursor_cached:
  "isRecord (cursor_val c) \<and> is_string (get_prop (cursor_val c) ''epoch'') \<and> is_number (get_prop (cursor_val c) ''seq'')"
  "cursor_of (cursor_val c) = c"
  by (simp_all add: cursor_val_def cursor_of_def get_Cons isRecord_def is_string_JStr text_of_def is_number_def int_of_def opt_int_of_def)

lemma envelope_get:
  "isRecord (envelope_val now d)" "get_prop (envelope_val now d) ''kind'' = JStr (js ''t4-code-projection'')"
  "opt_int_of (get_prop (envelope_val now d) ''version'') = Some projection_cache_version"
  "get_prop (envelope_val now d) ''data'' = cache_data_val d" "isRecord (cache_data_val d)"
  by (simp_all add: envelope_val_def get_Cons isRecord_def int_val_def opt_int_of_def cache_data_val_def)

lemma stored_rows:
  assumes "cacheable s" and d: "d = stored_data parse compact s"
  shows "restored_rows restoredSessionRef (pairs_val (cd_sessionIndex d)) = map (\<lambda>(k, r). (k, safeJson r)) (sn_sessionIndex s)"
    "restored_rows cache_metadata (pairs_val (cd_sessionIndexMetadata d)) = sn_sessionIndexMetadata s"
    "restored_rows cache_cursor (pairs_val (cd_sessionDeltaCursors d)) = sn_sessionDeltaCursors s"
    "restored_rows cache_cursor (pairs_val (cd_sessionInventoryCursors d)) = sn_sessionInventoryCursors s"
    "restored_rows cache_workspace (pairs_val (cd_workspaces d)) = sn_workspaces s"
    "restored_rows cache_cursor (pairs_val (cd_workspaceCursors d)) = sn_workspaceCursors s"
proof -
  note ok = assms(1) [unfolded cacheable_def]
  note rest = d stored_rest
  show "restored_rows restoredSessionRef (pairs_val (cd_sessionIndex d)) = map (\<lambda>(k, r). (k, safeJson r)) (sn_sessionIndex s)"
    unfolding rest by (rule rows_image [where P = "\<lambda>r. restoredSessionRef r \<noteq> None"]) (use ok session_ref_roundtrip in auto)
  show "restored_rows cache_metadata (pairs_val (cd_sessionIndexMetadata d)) = sn_sessionIndexMetadata s"
    unfolding rest by (rule rows_same [where P = "\<lambda>m. 0 \<le> im_totalCount m \<and> is_safe_integer (im_totalCount m)"]) (use ok metadata_roundtrip in auto)
  show "restored_rows cache_cursor (pairs_val (cd_sessionDeltaCursors d)) = sn_sessionDeltaCursors s"
    unfolding rest by (rule rows_same [where P = cursor_ok]) (use ok cache_cursor_ok in auto)
  show "restored_rows cache_cursor (pairs_val (cd_sessionInventoryCursors d)) = sn_sessionInventoryCursors s"
    unfolding rest by (rule rows_same [where P = cursor_ok]) (use ok cache_cursor_ok in auto)
  show "restored_rows cache_workspace (pairs_val (cd_workspaces d)) = sn_workspaces s"
    unfolding rest by (rule rows_same [where P = "\<lambda>w. decodeWorkspaceInfrastructureProjection (workspace_val w) = Inr w"]) (use ok workspace_cached in auto)
  show "restored_rows cache_cursor (pairs_val (cd_workspaceCursors d)) = sn_workspaceCursors s"
    unfolding rest by (rule rows_same [where P = cursor_ok]) (use ok cache_cursor_ok in auto)
qed

lemma length_take_le: "length (take n xs) \<le> n"
  by simp

lemma decode_stored:
  assumes ok: "cacheable s" and fits: "json_bytes (envelope_val now (stored_data parse compact s)) \<le> max_projection_cache_bytes"
  shows "decodeProjectionCache parse (envelope_val now (stored_data parse compact s)) = Some (snapshot_image parse compact s)"
proof -
  let ?d = "stored_data parse compact s" and ?ks = "kept_entries max_projection_cache_transcript_bytes (cachedSessions s)"
  let ?sessions = "map (\<lambda>(k, x). (k, kept_image parse compact x)) ?ks"
  note lru = ok [unfolded cacheable_def, THEN conjunct1] and wf = ok [unfolded cacheable_def, THEN conjunct2, THEN conjunct1]
  note props = cachedSessions_props [OF lru wf]
  have each: "session_cacheable p \<and> length r \<le> length (sp_entries p)" if "(k, p, r, t) \<in> set ?ks" for k p r t
  proof -
    have "(k, p) \<in> set (cachedSessions s)" "length r \<le> length (sp_entries p)" using kept_entries_props(2) [OF that] by auto
    moreover from this(1) have "(k, p) \<in> set (sn_sessions s)" using props(3) wf by (auto intro: jm_get_in_set)
    ultimately show ?thesis using ok by (auto simp: cacheable_def list_all_iff)
  qed
  have len: "length ?ks \<le> max_projection_cache_sessions" using props(2) kept_entries_props(1) by (metis length_map)
  have sessions: "restored_sessions parse (get_prop (cache_data_val ?d) ''sessions'') = Some ?sessions"
    unfolding cache_data_get stored_sessions
    by (rule sessions_roundtrip [OF len _ each]) (simp_all add: kept_entries_props(1) props(1))
  have has: "jm_has ?sessions k \<longleftrightarrow> k \<in> set (map fst (cachedSessions s))" for k
  proof -
    have "jm_keys ?sessions = map fst ?ks" by (simp add: jm_keys_def comp_def case_prod_beta)
    then show ?thesis unfolding jm_has_keys kept_entries_props(1) by simp
  qed
  have cursor: "(if isRecord (case c of None \<Rightarrow> JUndef | Some c \<Rightarrow> cursor_val c) \<and>
        is_string (get_prop (case c of None \<Rightarrow> JUndef | Some c \<Rightarrow> cursor_val c) ''epoch'') \<and>
        is_number (get_prop (case c of None \<Rightarrow> JUndef | Some c \<Rightarrow> cursor_val c) ''seq'')
      then Some (cursor_of (case c of None \<Rightarrow> JUndef | Some c \<Rightarrow> cursor_val c)) else None) = c" for c
    by (cases c) (simp add: isRecord_def, simp add: cursor_cached)
  have epoch: "opt_text_of (case e of None \<Rightarrow> JUndef | Some s \<Rightarrow> JStr s) = e" for e
    by (cases e) (simp_all add: opt_text_of_def)
  show ?thesis
    using fits unfolding decodeProjectionCache_def Let_def envelope_get sessions bind.bind_lunit
    unfolding cache_data_get stored_rows [OF ok refl] items_of_def jsval.case restored_active
    unfolding stored_rest cursor epoch restored_lru [OF length_take_le] has
    by (simp add: snapshot_image_def Let_def envelope_get)
qed

text \<open>C7: a snapshot written to the projection cache is read back as its cached image. Whenever
  \<open>encodeProjectionCache\<close> succeeds on a cacheable snapshot (one whose maps are within the index limits and
  whose resources pass the validation a restore makes), \<open>decodeProjectionCache\<close> accepts the result, and
  restores the retained sessions, the session index with its metadata, the workspaces, and every cursor;
  the freshness is \<open>cached\<close>, the eviction order is cut to the sessions kept, and the active session
  survives when its session does. \<open>compact\<close> tells whether the encoder had to fall back to the smaller
  form that drops the agent transcripts and keeps shorter histories.\<close>
theorem cache_roundtrip:
  assumes "cacheable s" "encodeProjectionCache parse s savedAt = Inr env"
  shows "\<exists>compact. decodeProjectionCache parse env = Some (snapshot_image parse compact s)"
  using encode_stored [OF assms(2)] decode_stored [OF assms(1)] by blast

end
