(* ===== verification/ProjectionStore.thy ===== *)
theory ProjectionStore
  imports ProjectionCache
begin

text \<open>
  The store around the client projection (client/src/projection-store.ts): it applies frames and
  inventory changes, tells its subscribers and saves the snapshot to a cache, one save at a time.
  The functions of the cache store are outside the program: a save may throw, which
  \<open>save_throws\<close> says, or it returns a promise, and \<open>save_settled\<close> is what happens when that
  promise has settled, either way. An async function runs until its first await before its promise
  is returned. A value of the cache stands for the text whose \<open>JSON.parse\<close> it is. The constructor
  asks for the cached value; \<open>st_loading\<close> says that it has not arrived. A subscriber does not call
  the store back, and \<open>unsubscribe\<close> is the first call of the function that \<open>subscribe\<close> returns, whose
  later calls do nothing.
\<close>

datatype save_promise = Saving | Settled

record store =
  st_current :: snapshot
  st_mutationGeneration :: nat
  st_disposed :: bool
  st_options :: caps
  st_listeners :: "nat list"
  st_cacheStore :: bool
  st_cacheSave :: "save_promise option"
  st_pendingSnapshot :: "snapshot option"
  st_loading :: bool
  st_saves :: "jsval list"
  st_calls :: "(nat \<times> snapshot) list"

definition newProjectionStore :: "projection_options \<Rightarrow> bool \<Rightarrow> store" where
  "newProjectionStore options cacheStore =
     \<lparr>st_current = createProjectionSnapshot, st_mutationGeneration = 0, st_disposed = False,
      st_options = resolveProjectionOptions options, st_listeners = [], st_cacheStore = cacheStore, st_cacheSave = None,
      st_pendingSnapshot = None, st_loading = cacheStore, st_saves = [], st_calls = []\<rparr>"

subsection \<open>Saves\<close>

text \<open>
  One run of the loop up to its next await; the flag says whether it waits. A snapshot that does
  not encode, or a save that throws, is skipped, and nothing can become pending before the loop
  looks again. The end of the loop clears \<open>cacheSave\<close>.
\<close>

definition drainCacheSaves :: "url_parser \<Rightarrow> (jsval \<Rightarrow> bool) \<Rightarrow> int \<Rightarrow> store \<Rightarrow> store \<times> bool" where
  "drainCacheSaves parse save_throws now st =
     (case st_pendingSnapshot st of
        None \<Rightarrow> (st\<lparr>st_cacheSave := None\<rparr>, False)
      | Some snapshot \<Rightarrow>
          let st = st\<lparr>st_pendingSnapshot := None\<rparr> in
          case encodeProjectionCache parse snapshot now of
            Inl e \<Rightarrow> (st\<lparr>st_cacheSave := None\<rparr>, False)
          | Inr serialized \<Rightarrow>
              let st = st\<lparr>st_saves := st_saves st @ [serialized]\<rparr> in
              if save_throws serialized then (st\<lparr>st_cacheSave := None\<rparr>, False) else (st, True))"

text \<open>\<open>this.cacheSave = this.drainCacheSaves()\<close>: the promise is assigned after the function has run.\<close>

definition queueCacheSave :: "url_parser \<Rightarrow> (jsval \<Rightarrow> bool) \<Rightarrow> int \<Rightarrow> store \<Rightarrow> store" where
  "queueCacheSave parse save_throws now st =
     (if \<not> st_cacheStore st \<or> st_disposed st then st
      else
        let st = st\<lparr>st_pendingSnapshot := Some (st_current st)\<rparr> in
        if st_cacheSave st \<noteq> None then st
        else
          let (st, waits) = drainCacheSaves parse save_throws now st
          in st\<lparr>st_cacheSave := Some (if waits then Saving else Settled)\<rparr>)"

definition save_settled :: "url_parser \<Rightarrow> (jsval \<Rightarrow> bool) \<Rightarrow> int \<Rightarrow> store \<Rightarrow> store" where
  "save_settled parse save_throws now st =
     (if st_cacheSave st = Some Saving then fst (drainCacheSaves parse save_throws now st) else st)"

subsection \<open>Changes\<close>

definition notify :: "store \<Rightarrow> store" where
  "notify st = st\<lparr>st_calls := st_calls st @ map (\<lambda>l. (l, st_current st)) (st_listeners st)\<rparr>"

text \<open>
  The cached value has arrived: \<open>None\<close> is a load that failed. No change may have been made since
  the constructor ran; a restored snapshot is shown without being saved again.
\<close>

definition restoreCache :: "platform \<Rightarrow> jsval option \<Rightarrow> store \<Rightarrow> store" where
  "restoreCache pl loaded st =
     (if \<not> st_loading st then st
      else
        let st = st\<lparr>st_loading := False\<rparr> in
        case Option.bind loaded (decodeProjectionCacheValue (parse_url pl)) of
          None \<Rightarrow> st
        | Some restored \<Rightarrow>
            if st_mutationGeneration st = 0
            then notify (st\<lparr>st_current := restored\<lparr>sn_sessions :=
              map (\<lambda>(k, session). (k, retainRestoredSessionResources session (st_options st))) (sn_sessions restored)\<rparr>\<rparr>)
            else st)"

definition mutate :: "url_parser \<Rightarrow> (jsval \<Rightarrow> bool) \<Rightarrow> int \<Rightarrow> snapshot \<Rightarrow> store \<Rightarrow> store" where
  "mutate parse save_throws now next st =
     queueCacheSave parse save_throws now (st\<lparr>st_mutationGeneration := st_mutationGeneration st + 1, st_current := next\<rparr>)"

definition store_applyPublicFrame :: "platform \<Rightarrow> (jsval \<Rightarrow> bool) \<Rightarrow> int \<Rightarrow> projection_frame \<Rightarrow> store \<Rightarrow> store" where
  "store_applyPublicFrame pl save_throws now frame st =
     (if st_disposed st then st
      else case applyProjectionInput pl (st_current st) frame (st_options st) of
          Inl e \<Rightarrow> st
        | Inr None \<Rightarrow> st
        | Inr (Some next) \<Rightarrow> notify (mutate (parse_url pl) save_throws now next st))"

definition replaceWorkspaceInventory ::
  "platform \<Rightarrow> (jsval \<Rightarrow> bool) \<Rightarrow> int \<Rightarrow> jsstr \<Rightarrow> jsval list \<Rightarrow> cursor option \<Rightarrow> store \<Rightarrow> store" where
  "replaceWorkspaceInventory pl save_throws now hostId workspaces c st =
     (if st_disposed st then st
      else case boundedIdentity (JStr hostId) of
          None \<Rightarrow> st
        | Some host \<Rightarrow>
            (case applyWorkspaceInventory (st_current st) host workspaces c (maxWorkspaces (st_options st)) of
               Inl e \<Rightarrow> st
             | Inr None \<Rightarrow> st
             | Inr (Some next) \<Rightarrow> notify (mutate (parse_url pl) save_throws now next st)))"

definition invalidateWorkspaceInventory :: "platform \<Rightarrow> (jsval \<Rightarrow> bool) \<Rightarrow> int \<Rightarrow> jsstr \<Rightarrow> store \<Rightarrow> store" where
  "invalidateWorkspaceInventory pl save_throws now hostId st =
     (if st_disposed st \<or> \<not> jm_has (sn_workspaceCursors (st_current st)) hostId then st
      else mutate (parse_url pl) save_throws now
        ((st_current st)\<lparr>sn_workspaceCursors := mapWithout (sn_workspaceCursors (st_current st)) hostId\<rparr>) st)"

definition clearWorkspaceInventory :: "platform \<Rightarrow> (jsval \<Rightarrow> bool) \<Rightarrow> int \<Rightarrow> jsstr option \<Rightarrow> store \<Rightarrow> store" where
  "clearWorkspaceInventory pl save_throws now hostId st =
     (let current = st_current st; workspaces = sn_workspaces current; cursors = sn_workspaceCursors current;
          host = Option.bind hostId (\<lambda>h. boundedIdentity (JStr h))
      in if st_disposed st \<or> hostId \<noteq> None \<and> host = None then st
         else case host of
             None \<Rightarrow>
               if workspaces = [] \<and> cursors = [] then st
               else notify (mutate (parse_url pl) save_throws now (current\<lparr>sn_workspaces := [], sn_workspaceCursors := []\<rparr>) st)
           | Some h \<Rightarrow>
               let stale = filter (of_host h) (jm_keys workspaces) in
               if stale = [] \<and> \<not> jm_has cursors h then st
               else notify (mutate (parse_url pl) save_throws now
                 (current\<lparr>sn_workspaces := fold jm_delete stale workspaces, sn_workspaceCursors := mapWithout cursors h\<rparr>) st))"

definition activateSession :: "platform \<Rightarrow> (jsval \<Rightarrow> bool) \<Rightarrow> int \<Rightarrow> jsstr \<Rightarrow> jsstr \<Rightarrow> store \<Rightarrow> store" where
  "activateSession pl save_throws now hostId sessionId st =
     (if st_disposed st then st
      else
        let k = key hostId sessionId
        in mutate (parse_url pl) save_throws now
             ((or_same (st_current st) (touch_session (st_current st) k (st_options st)))\<lparr>sn_activeSessionKey := Some k\<rparr>) st)"

definition invalidateSessionInventory :: "platform \<Rightarrow> (jsval \<Rightarrow> bool) \<Rightarrow> int \<Rightarrow> jsstr option \<Rightarrow> store \<Rightarrow> store" where
  "invalidateSessionInventory pl save_throws now hostId st =
     (if st_disposed st then st
      else
        let current = st_current st;
            (metadata, cursors, ordinals) =
              (case hostId of
                 None \<Rightarrow> ([], [], [])
               | Some h \<Rightarrow> (mapWithout (sn_sessionIndexMetadata current) h, mapWithout (sn_sessionInventoryCursors current) h,
                   withoutHostRefOrdinals (sn_sessionRefArrivalOrdinals current) h))
        in if hostId \<noteq> None \<and> metadata = sn_sessionIndexMetadata current \<and> cursors = sn_sessionInventoryCursors current \<and>
              ordinals = sn_sessionRefArrivalOrdinals current
           then st
           else notify (mutate (parse_url pl) save_throws now
             (current\<lparr>sn_sessionIndexMetadata := metadata, sn_sessionInventoryCursors := cursors,
               sn_sessionRefArrivalOrdinals := ordinals\<rparr>) st))"

definition subscribe :: "nat \<Rightarrow> store \<Rightarrow> store" where
  "subscribe l st = (if st_disposed st \<or> l \<in> set (st_listeners st) then st else st\<lparr>st_listeners := st_listeners st @ [l]\<rparr>)"

definition unsubscribe :: "nat \<Rightarrow> store \<Rightarrow> store" where
  "unsubscribe l st = st\<lparr>st_listeners := filter (\<lambda>i. i \<noteq> l) (st_listeners st)\<rparr>"

definition dispose_store :: "store \<Rightarrow> store" where
  "dispose_store st = (if st_disposed st then st else st\<lparr>st_disposed := True, st_listeners := []\<rparr>)"

subsection \<open>Runs\<close>

datatype store_event =
    Framed projection_frame
  | ReplacedWorkspaces jsstr "jsval list" "cursor option"
  | InvalidatedWorkspaces jsstr
  | ClearedWorkspaces "jsstr option"
  | Activated jsstr jsstr
  | InvalidatedSessions "jsstr option"
  | Subscribed nat
  | Unsubscribed nat
  | SaveSettled
  | CacheLoaded "jsval option"
  | Disposed

fun store_step :: "platform \<Rightarrow> (jsval \<Rightarrow> bool) \<Rightarrow> int \<times> store_event \<Rightarrow> store \<Rightarrow> store" where
  "store_step pl throws (now, Framed frame) st = store_applyPublicFrame pl throws now frame st"
| "store_step pl throws (now, ReplacedWorkspaces host rows c) st = replaceWorkspaceInventory pl throws now host rows c st"
| "store_step pl throws (now, InvalidatedWorkspaces host) st = invalidateWorkspaceInventory pl throws now host st"
| "store_step pl throws (now, ClearedWorkspaces host) st = clearWorkspaceInventory pl throws now host st"
| "store_step pl throws (now, Activated host session) st = activateSession pl throws now host session st"
| "store_step pl throws (now, InvalidatedSessions host) st = invalidateSessionInventory pl throws now host st"
| "store_step pl throws (now, Subscribed l) st = subscribe l st"
| "store_step pl throws (now, Unsubscribed l) st = unsubscribe l st"
| "store_step pl throws (now, SaveSettled) st = save_settled (parse_url pl) throws now st"
| "store_step pl throws (now, CacheLoaded v) st = restoreCache pl v st"
| "store_step pl throws (now, Disposed) st = dispose_store st"

text \<open>
  Whether a call of \<open>flush\<close> can return: it does when no save is running; otherwise it awaits the
  promise, while anything else may happen to the store, and looks again.
\<close>

inductive flush_returns :: "platform \<Rightarrow> (jsval \<Rightarrow> bool) \<Rightarrow> store \<Rightarrow> bool" for pl throws where
  flushed: "st_cacheSave st = None \<Longrightarrow> flush_returns pl throws st"
| flush_again: "st_cacheSave st \<noteq> None \<Longrightarrow> flush_returns pl throws (fold (store_step pl throws) es st) \<Longrightarrow> flush_returns pl throws st"

text \<open>Every operation is a change of the snapshot, followed by a save, or leaves the saves alone.\<close>

definition same_saves :: "store \<Rightarrow> store \<Rightarrow> bool" where
  "same_saves st st' \<longleftrightarrow>
     st_current st' = st_current st \<and> st_cacheSave st' = st_cacheSave st \<and> st_pendingSnapshot st' = st_pendingSnapshot st \<and>
     st_saves st' = st_saves st \<and> st_cacheStore st' = st_cacheStore st \<and> st_mutationGeneration st' = st_mutationGeneration st"

lemma same_saves_refl [simp]: "same_saves st st"
  by (simp add: same_saves_def)

lemma notify_saves: "same_saves st st' \<Longrightarrow> same_saves st (notify st')"
  by (simp add: same_saves_def notify_def)

text \<open>A restored snapshot.\<close>

definition restored :: "store \<Rightarrow> store \<Rightarrow> bool" where
  "restored st st' \<longleftrightarrow> st_mutationGeneration st = 0 \<and> (\<exists>next. same_saves (st\<lparr>st_current := next\<rparr>) st')"

text \<open>The operations, as the save machinery sees them.\<close>

definition mutated :: "platform \<Rightarrow> (jsval \<Rightarrow> bool) \<Rightarrow> int \<Rightarrow> store \<Rightarrow> store \<Rightarrow> bool" where
  "mutated pl throws now st st' \<longleftrightarrow>
     \<not> st_disposed st \<and> (\<exists>next. same_saves (mutate (parse_url pl) throws now next st) st')"

lemma mutated_intros:
  "\<not> st_disposed st \<Longrightarrow> mutated pl throws now st (mutate (parse_url pl) throws now next st)"
  "\<not> st_disposed st \<Longrightarrow> mutated pl throws now st (notify (mutate (parse_url pl) throws now next st))"
  unfolding mutated_def by (blast intro: notify_saves same_saves_refl)+

lemma store_step_cases:
  "same_saves st (store_step pl throws (now, e) st) \<or> mutated pl throws now st (store_step pl throws (now, e) st) \<or>
   restored st (store_step pl throws (now, e) st) \<or> e = SaveSettled"
proof (cases e)
  case (Framed frame)
  then show ?thesis
    by (auto simp: store_applyPublicFrame_def mutated_intros split: sum.splits option.splits)
next
  case (ReplacedWorkspaces host rows c)
  then show ?thesis
    by (auto simp: replaceWorkspaceInventory_def mutated_intros split: sum.splits option.splits)
next
  case (ClearedWorkspaces host)
  then show ?thesis
    by (auto simp: clearWorkspaceInventory_def mutated_intros Let_def split: option.splits)
next
  case (InvalidatedSessions host)
  then show ?thesis
    by (auto simp: invalidateSessionInventory_def mutated_intros Let_def split: option.splits)
next
  case (CacheLoaded v)
  have "same_saves (st\<lparr>st_current := x\<rparr>) (notify (st\<lparr>st_loading := False, st_current := x\<rparr>))" for x
    by (simp add: same_saves_def notify_def)
  then show ?thesis unfolding CacheLoaded
    by (auto simp: restoreCache_def restored_def same_saves_def notify_def Let_def split: option.splits)
qed (auto simp: invalidateWorkspaceInventory_def activateSession_def subscribe_def unsubscribe_def dispose_store_def
    mutated_intros same_saves_def Let_def)

subsection \<open>A save that ends before its promise is assigned\<close>

lemma stuck_step:
  assumes "st_cacheSave st = Some Settled"
  shows "st_cacheSave (store_step pl throws ne st) = Some Settled \<and> st_saves (store_step pl throws ne st) = st_saves st"
proof -
  obtain now e where ne: "ne = (now, e)" by fastforce
  have "st_cacheSave (mutate parse throws now next st) = Some Settled \<and> st_saves (mutate parse throws now next st) = st_saves st" for parse "next"
    using assms by (simp add: mutate_def queueCacheSave_def Let_def)
  then show ?thesis
    using store_step_cases [of st pl throws now e] assms
    by (auto simp: ne same_saves_def mutated_def restored_def save_settled_def)
qed

lemma stuck_steps:
  "st_cacheSave st = Some Settled \<Longrightarrow>
   st_cacheSave (fold (store_step pl throws) es st) = Some Settled \<and> st_saves (fold (store_step pl throws) es st) = st_saves st"
  by (induction es arbitrary: st) (auto simp: stuck_step)

lemma stuck_flush: "flush_returns pl throws st \<Longrightarrow> st_cacheSave st \<noteq> Some Settled"
  by (induction rule: flush_returns.induct) (auto simp: stuck_steps)

text \<open>
  C36: A snapshot too large for the cache ends all saving. When an idle store with a cache applies a
  frame whose snapshot does not encode, then whatever happens to the store afterwards, it hands
  nothing to the cache any more, and a call of flush, hence of dispose, does not return.
\<close>

theorem oversized_snapshot_stops_saving:
  assumes "\<not> st_disposed st" "st_cacheStore st" "st_cacheSave st = None"
    and "applyProjectionInput pl (st_current st) frame (st_options st) = Inr (Some next)"
    and "encodeProjectionCache (parse_url pl) next now = Inl CacheTooLarge"
  shows "st_saves (fold (store_step pl throws) ((now, Framed frame) # es) st) = st_saves st \<and>
    \<not> flush_returns pl throws (fold (store_step pl throws) ((now, Framed frame) # es) st)"
proof -
  let ?st = "store_step pl throws (now, Framed frame) st"
  have "st_cacheSave ?st = Some Settled" "st_saves ?st = st_saves st"
    using assms by (simp_all add: store_applyPublicFrame_def mutate_def queueCacheSave_def drainCacheSaves_def notify_def Let_def)
  then show ?thesis using stuck_steps [of ?st pl throws es] stuck_flush by auto
qed

subsection \<open>The last save\<close>

definition encodes_at :: "url_parser \<Rightarrow> (jsval \<Rightarrow> bool) \<Rightarrow> int \<Rightarrow> snapshot \<Rightarrow> bool" where
  "encodes_at parse throws now s \<longleftrightarrow> (case encodeProjectionCache parse s now of Inl e \<Rightarrow> False | Inr v \<Rightarrow> \<not> throws v)"

text \<open>A run in which every snapshot the store has encodes when it may be saved.\<close>

fun run_encodes :: "platform \<Rightarrow> (jsval \<Rightarrow> bool) \<Rightarrow> (int \<times> store_event) list \<Rightarrow> store \<Rightarrow> bool" where
  "run_encodes pl throws [] st \<longleftrightarrow> True"
| "run_encodes pl throws (ne # es) st \<longleftrightarrow>
     (let st' = store_step pl throws ne st in
      encodes_at (parse_url pl) throws (fst ne) (st_current st) \<and> encodes_at (parse_url pl) throws (fst ne) (st_current st') \<and>
      run_encodes pl throws es st')"

definition saved_now :: "url_parser \<Rightarrow> store \<Rightarrow> bool" where
  "saved_now parse st \<longleftrightarrow> st_saves st \<noteq> [] \<and> (\<exists>now. encodeProjectionCache parse (st_current st) now = Inr (last (st_saves st)))"

definition saves_ok :: "platform \<Rightarrow> store \<Rightarrow> bool" where
  "saves_ok pl st \<longleftrightarrow>
     st_cacheStore st \<and>
     (case st_cacheSave st of
        None \<Rightarrow> st_pendingSnapshot st = None \<and> (st_mutationGeneration st = 0 \<and> st_saves st = [] \<or> 0 < st_mutationGeneration st \<and> saved_now (parse_url pl) st)
      | Some Saving \<Rightarrow> 0 < st_mutationGeneration st \<and> (st_pendingSnapshot st = Some (st_current st) \<or> st_pendingSnapshot st = None \<and> saved_now (parse_url pl) st)
      | Some Settled \<Rightarrow> False)"

lemma saves_ok_cong: "same_saves st st' \<Longrightarrow> saves_ok pl st' = saves_ok pl st"
  by (auto simp: same_saves_def saves_ok_def saved_now_def split: option.splits save_promise.splits)

lemma mutate_ok:
  assumes "saves_ok pl st" "\<not> st_disposed st" "encodes_at (parse_url pl) throws now next"
  shows "saves_ok pl (mutate (parse_url pl) throws now next st)"
  using assms
  by (cases "st_cacheSave st")
    (auto simp: saves_ok_def mutate_def queueCacheSave_def drainCacheSaves_def encodes_at_def saved_now_def Let_def
      split: sum.splits save_promise.splits)

lemma settled_ok:
  assumes "saves_ok pl st" "encodes_at (parse_url pl) throws now (st_current st)"
  shows "saves_ok pl (save_settled (parse_url pl) throws now st)"
  using assms
  by (auto simp: saves_ok_def save_settled_def drainCacheSaves_def encodes_at_def saved_now_def Let_def
      split: sum.splits option.splits save_promise.splits)

lemma restored_ok: "saves_ok pl st \<Longrightarrow> restored st st' \<Longrightarrow> saves_ok pl st'"
  by (auto simp: saves_ok_def restored_def same_saves_def saved_now_def split: option.splits save_promise.splits)

lemma current_of_mutated: "same_saves (mutate parse throws now next st) st' \<Longrightarrow> st_current st' = next"
  by (auto simp: same_saves_def mutate_def queueCacheSave_def drainCacheSaves_def Let_def split: option.splits sum.splits if_splits)

lemma run_saves_ok:
  "saves_ok pl st \<Longrightarrow> run_encodes pl throws es st \<Longrightarrow> saves_ok pl (fold (store_step pl throws) es st)"
proof (induction es arbitrary: st)
  case (Cons ne es)
  obtain now e where ne: "ne = (now, e)" by fastforce
  let ?st = "store_step pl throws ne st"
  have enc: "encodes_at (parse_url pl) throws now (st_current st)" "encodes_at (parse_url pl) throws now (st_current ?st)"
    using Cons.prems(2) by (simp_all add: ne Let_def)
  have "saves_ok pl ?st"
    using store_step_cases [of st pl throws now e, folded ne]
  proof (elim disjE)
    assume "mutated pl throws now st ?st"
    then obtain "next" where n: "\<not> st_disposed st" "same_saves (mutate (parse_url pl) throws now next st) ?st" by (auto simp: mutated_def)
    then show ?thesis using mutate_ok [OF Cons.prems(1) n(1), of throws now "next"] enc(2) current_of_mutated [OF n(2)] saves_ok_cong [OF n(2)] by simp
  qed (use saves_ok_cong [of st ?st] Cons.prems(1) restored_ok [OF Cons.prems(1)] settled_ok [OF Cons.prems(1) enc(1)] ne in auto)
  then show ?case using Cons.IH Cons.prems(2) by (simp add: Let_def)
qed simp

lemma idle_saved:
  assumes "run_encodes pl throws es (newProjectionStore options True)"
    and "st_cacheSave (fold (store_step pl throws) es (newProjectionStore options True)) = None"
  shows "st_mutationGeneration (fold (store_step pl throws) es (newProjectionStore options True)) = 0 \<and>
      st_saves (fold (store_step pl throws) es (newProjectionStore options True)) = [] \<or>
    saved_now (parse_url pl) (fold (store_step pl throws) es (newProjectionStore options True))"
proof -
  have "saves_ok pl (newProjectionStore options True)" by (simp add: saves_ok_def newProjectionStore_def)
  from run_saves_ok [OF this assms(1)] show ?thesis using assms(2) by (auto simp: saves_ok_def)
qed

text \<open>
  C13: An idle store has saved what it shows. In a run of a new store with a cache, in which every
  snapshot encodes and no save throws, whenever no save is running, either the store has not been
  changed by an operation and has saved nothing, or the last value handed to the cache encodes the
  snapshot it shows.
\<close>

theorem idle_store_saved_current:
  assumes "run_encodes pl throws es (newProjectionStore options True)"
    and "st_cacheSave (fold (store_step pl throws) es (newProjectionStore options True)) = None"
  shows "st_mutationGeneration (fold (store_step pl throws) es (newProjectionStore options True)) = 0 \<and>
      st_saves (fold (store_step pl throws) es (newProjectionStore options True)) = [] \<or>
    saved_now (parse_url pl) (fold (store_step pl throws) es (newProjectionStore options True))"
  by (rule idle_saved [OF assms])

end
