(* ===== verification/ProjectionProperties.thy ===== *)
theory ProjectionProperties
  imports ProjectionPreservation
begin

text \<open>
  The properties of the client projection: cursor order, the session inventory, the warm
  sessions and the isolation of hosts.
\<close>

subsection \<open>Cursors go forward\<close>

lemma update_warm_refs_cursor:
  assumes "jm_wf (sn_sessions s)" "jm_get (sn_sessions (update_warm_refs refs s)) k = Some p'"
  shows "\<exists>p. jm_get (sn_sessions s) k = Some p \<and> sp_cursor p' = sp_cursor p"
  using assms
proof (induction refs arbitrary: s)
  case (Cons ref refs)
  show ?case
  proof (cases "jm_get (sn_sessions s) (ref_key ref)")
    case None
    then show ?thesis using Cons by (simp add: update_warm_refs_def)
  next
    case (Some q)
    let ?u = "q\<lparr>sp_ref := Some ref, sp_revision := Some (ref_str ref ''revision'')\<rparr>"
    let ?m = "mapWith (sn_sessions s) (ref_key ref) ?u max_map_entries"
    have wf: "jm_wf ?m" using Cons.prems(1) by (simp add: capped_wf [OF capped_mapWith])
    have "jm_get (sn_sessions (update_warm_refs refs (s\<lparr>sn_sessions := ?m\<rparr>))) k = Some p'"
      using Cons.prems(2) Some by (simp add: update_warm_refs_def)
    then obtain p where p: "jm_get ?m k = Some p" "sp_cursor p' = sp_cursor p"
      using Cons.IH [of "s\<lparr>sn_sessions := ?m\<rparr>"] wf by auto
    then have "(k, p) = (ref_key ref, ?u) \<or> (k, p) \<in> set (sn_sessions s)"
      using mapWith_set_sub [OF Cons.prems(1)] jm_get_in_set by metis
    then show ?thesis using p(2) Some Cons.prems(1) by (auto simp: jm_get_iff_in_set)
  qed
qed (simp add: update_warm_refs_def)

lemma get_filter_notin: "jm_get (filter (\<lambda>p. fst p \<notin> A) m) k = Some p \<Longrightarrow> jm_get m k = Some p"
  using jm_get_filter_key [of "- A" m k] by (simp split: if_splits)

lemma prune_gone_get:
  "jm_get (sn_sessions (prune_gone s hosts ks)) k = Some p \<Longrightarrow> jm_get (sn_sessions s) k = Some p"
proof -
  have "\<exists>A B. sn_sessions (prune_gone s hosts ks) = fold jm_delete A (fold jm_delete B (sn_sessions s))"
    unfolding prune_gone_def Let_def by (intro exI) simp
  then obtain A B where eq: "sn_sessions (prune_gone s hosts ks) = fold jm_delete A (fold jm_delete B (sn_sessions s))"
    by (elim exE)
  assume "jm_get (sn_sessions (prune_gone s hosts ks)) k = Some p"
  then have "jm_get (fold jm_delete B (sn_sessions s)) k = Some p"
    unfolding eq fold_jm_delete [of A] by (rule get_filter_notin)
  then show ?thesis unfolding fold_jm_delete by (rule get_filter_notin)
qed

lemma installed_get:
  "jm_get (sn_sessions (inventory_installed pl s f refs hosts config)) k = Some p \<Longrightarrow> jm_get (sn_sessions s) k = Some p"
  by (auto simp: inventory_installed_def Let_def inventory_pruned_def dest: prune_gone_get split: if_splits)

lemma make_active_get:
  assumes "warm_ok config s" "caps_ok config" "jm_get (sn_sessions (make_active s config)) k = Some p"
  shows "jm_get (sn_sessions s) k = Some p \<or> sp_cursor p = None"
  using assms(3) unfolding make_active_def touch_warmed [OF assms(1,2)]
  by (auto simp: warmed_sessions_get [OF assms(1,2)] session_or_new_def initialSession_def split: option.splits if_splits)

lemma sessions_frame_forward:
  assumes ok: "snapshot_ok config s" and caps: "caps_ok config"
    and r: "reduceSessions pl s f config = Inr (Some s')"
  shows "cursors_forward s s'"
proof -
  let ?refs = "inventory_refs f config"
  let ?s1 = "inventory_installed pl s f ?refs (authoritativeSessionHosts f ?refs) config"
  have wf: "jm_wf (sn_sessions s)" using ok by (simp add: snapshot_ok_def warm_ok_def)
  note inst = inventory_installed_ok [OF ok length_inventory_refs, of pl f]
  have wf1: "jm_wf (sn_sessions (make_active ?s1 config))"
    using make_active_ok [OF inst caps] by (simp add: snapshot_ok_def warm_ok_def)
  have s': "sn_sessions s' = sn_sessions (update_warm_refs ?refs (make_active ?s1 config))"
    using r by (auto simp: reduceSessions_def Let_def updateRoot_def split: if_splits)
  show ?thesis unfolding cursors_forward_iff [OF wf] s'
  proof (intro allI impI)
    fix k p p'
    assume p: "jm_get (sn_sessions s) k = Some p"
      and "jm_get (sn_sessions (update_warm_refs ?refs (make_active ?s1 config))) k = Some p'"
    then obtain q where q: "jm_get (sn_sessions (make_active ?s1 config)) k = Some q" "sp_cursor p' = sp_cursor q"
      using update_warm_refs_cursor [OF wf1] by blast
    from make_active_get [OF inst(1) caps q(1)] show "cursor_forward (sp_cursor p) (sp_cursor p')"
    proof
      assume "jm_get (sn_sessions ?s1) k = Some q"
      from installed_get [OF this] p have "q = p" by simp
      then show ?thesis by (simp add: q(2))
    qed (simp add: q(2) cursor_forward_def split: option.splits)
  qed
qed

lemma delta_frame_forward:
  assumes ok: "snapshot_ok config s" and r: "reduceSessionDelta s f config = Inr (Some s')"
  shows "cursors_forward s s'"
proof -
  have wf: "jm_wf (sn_sessions s)" and warm: "warm_ok config s" using ok by (simp_all add: snapshot_ok_def warm_ok_def)
  have up: "cursors_forward s (delta_upsert s h k u n config)" for h k u n
  proof (cases "jm_get (sn_sessions s) k")
    case None
    then show ?thesis by (intro cursors_forward_refl [OF wf]) (simp add: delta_upsert_def Let_def)
  next
    case (Some q)
    have "sn_sessions (delta_upsert s h k u n config) =
        jm_set k (q\<lparr>sp_ref := Some u, sp_revision := Some (ref_str u ''revision'')\<rparr>) (sn_sessions s)"
      using Some by (intro warm_update_ok(2) [OF warm Some]) (simp_all add: delta_upsert_def Let_def)
    then show ?thesis using Some by (auto simp: cursors_forward_iff [OF wf])
  qed
  have down: "cursors_forward s (delta_remove s h k config)" for h k
    by (auto simp: cursors_forward_iff [OF wf] delta_remove_def Let_def mapWithout_def split: if_splits)
  have upd: "cursors_forward s (x\<lparr>sn_sessionDeltaCursors := d, sn_arrivalOrdinal := n\<rparr>) = cursors_forward s x" for x d n
    by (simp add: cursors_forward_def)
  show ?thesis using r up down unfolding reduceSessionDelta_def Let_def
    by (auto simp: upd split: option.splits if_splits)
qed

lemma snapshot_frame_forward:
  assumes ok: "snapshot_ok config s" and caps: "caps_ok config" and r: "reduceSnapshot s f config = Inr (Some s')"
  shows "cursors_forward s s'"
proof -
  have warm: "warm_ok config s" using ok by (simp add: snapshot_ok_def)
  let ?k = "key (sf_hostId f) (sf_sessionId f)"
  let ?u = "\<lambda>session. Some (install_snapshot f (retainDurableEntries (sf_entries f) (transcript_caps config)) session)"
  obtain x where x: "withSession s ?k ?u config None = Inr x" using withSession_eq [OF warm caps] by metis
  have "cursors_forward s (or_same s x)"
  proof (rule withSession_forward [OF warm caps _ x])
    fix p assume p: "jm_get (sn_sessions s) ?k = Some p"
    show "cursor_forward (sp_cursor p) (sp_cursor (or_same p (?u p)))"
      using r p by (auto simp: reduceSnapshot_def Let_def cursor_forward_def install_snapshot_def split: option.splits if_splits)
  qed
  moreover have "sn_sessions s' = sn_sessions (or_same s x)"
    using r x by (auto simp: reduceSnapshot_def Let_def updateRoot_def split: if_splits)
  ultimately show ?thesis by (simp add: cursors_forward_def)
qed

lemma live_frames_forward:
  assumes warm: "warm_ok config s" and caps: "caps_ok config"
  shows "reduceEntry s ef config = Inr x \<Longrightarrow> cursors_forward s (or_same s x)"
    and "reduceEvent s vf config = Inr x \<Longrightarrow> cursors_forward s (or_same s x)"
    and "reduceGap s gf config = Inr x \<Longrightarrow> cursors_forward s (or_same s x)"
    and "reduceAgent s ag config = Inr x \<Longrightarrow> cursors_forward s (or_same s x)"
    and "reduceAgentTranscript s af config = Inr x \<Longrightarrow> cursors_forward s (or_same s x)"
proof -
  have wf: "jm_wf (sn_sessions s)" using warm by (simp add: warm_ok_def)
  note same = cursors_forward_refl [OF wf refl]
  note fwd = withSession_forward [OF warm caps]
  have acc: "jm_get (sn_sessions s) k = Some p \<Longrightarrow> live_order s k c = Accept \<Longrightarrow> cursor_forward (sp_cursor p) (Some c)" for k p c
    by (simp add: live_order_def accept_cursor)
  show "reduceEntry s ef config = Inr x \<Longrightarrow> cursors_forward s (or_same s x)"
    by (auto simp: reduceEntry_def Let_def same accept_entry_def acc elim!: fwd [rotated] split: cursor_order.splits)
  show "reduceEvent s vf config = Inr x \<Longrightarrow> cursors_forward s (or_same s x)"
    by (auto simp: reduceEvent_def Let_def same accept_event_def acc elim!: fwd [rotated] split: cursor_order.splits)
  show "reduceGap s gf config = Inr x \<Longrightarrow> cursors_forward s (or_same s x)"
    by (auto simp: reduceGap_def elim!: fwd [rotated])
  show "reduceAgent s ag config = Inr x \<Longrightarrow> cursors_forward s (or_same s x)"
    by (auto simp: reduceAgent_def elim!: fwd [rotated])
  show "reduceAgentTranscript s af config = Inr x \<Longrightarrow> cursors_forward s (or_same s x)"
    by (auto simp: reduceAgentTranscript_def or_same_def [of "_ :: session_projection"] elim!: fwd [rotated] split: option.split)
qed

lemma jm_get_map_snd: "jm_get (map (\<lambda>(k, p). (k, g p)) m) k = map_option g (jm_get m k)"
  by (induction m) (auto simp: jm_get_Cons)

lemma workspace_frames_forward:
  assumes "jm_wf (sn_sessions s)"
  shows "reduceWorkspaceState s f config = Inr x \<Longrightarrow> cursors_forward s (or_same s x)"
    "cursors_forward s (reduceWelcome s w)"
proof -
  show "reduceWorkspaceState s f config = Inr x \<Longrightarrow> cursors_forward s (or_same s x)"
    by (rule cursors_forward_refl [OF assms])
      (auto simp: reduceWorkspaceState_def Let_def split: option.splits sum.splits if_splits)
  have "sp_cursor (welcome_session b p) = sp_cursor p" for b p by (simp add: welcome_session_def Let_def)
  moreover have "sn_sessions (reduceWelcome s w) = map (\<lambda>(k, p).
      (k, (\<lambda>p. if sp_hostId p \<noteq> wf_hostId w then p
              else welcome_session (case sn_epoch s of None \<Rightarrow> False | Some e \<Rightarrow> e \<noteq> wf_epoch w) p) p)) (sn_sessions s)"
    by (simp add: reduceWelcome_def Let_def updateRoot_def)
  ultimately show "cursors_forward s (reduceWelcome s w)"
    by (auto simp: cursors_forward_iff [OF assms] jm_get_map_snd)
qed

text \<open>
  C12: Within an epoch the cursor of a warm session never goes back: for every frame and every
  session that is warm before and after it, if the two cursors belong to one epoch, the later one
  is at least the earlier one.
\<close>

theorem cursors_never_go_back:
  assumes ok: "snapshot_ok config s" and caps: "caps_ok config"
    and r: "applyProjectionInput pl s frame config = Inr x"
    and k: "jm_get (sn_sessions s) k = Some p" "jm_get (sn_sessions (or_same s x)) k = Some p'"
    and c: "sp_cursor p = Some c" "sp_cursor p' = Some c'" "epoch c = epoch c'"
  shows "seq c \<le> seq c'"
proof -
  have warm: "warm_ok config s" and wf: "jm_wf (sn_sessions s)" using ok by (simp_all add: snapshot_ok_def warm_ok_def)
  have same: "cursors_forward s s" by (rule cursors_forward_refl [OF wf refl])
  have "cursors_forward s (or_same s x)"
  proof (cases "reduceResourceProjection (parse_url pl) s frame config")
    case (Some q)
    then show ?thesis using r resource_frames_forward [OF warm caps, of "parse_url pl" frame x] by (simp add: applyProjectionInput_def)
  next
    case None
    show ?thesis
    proof (cases x)
      case None
      then show ?thesis by (simp add: same)
    next
      case (Some s')
      note r' = r [unfolded applyProjectionInput_def \<open>reduceResourceProjection (parse_url pl) s frame config = None\<close> option.case Some]
      note live = live_frames_forward [OF warm caps, of _ x] and ws = workspace_frames_forward(1) [OF wf, where x = x] workspace_frames_forward(2) [OF wf]
      show ?thesis using r' Some live ws sessions_frame_forward [OF ok caps] delta_frame_forward [OF ok] snapshot_frame_forward [OF ok caps]
        by (cases frame) auto
    qed
  qed
  then have "cursor_forward (sp_cursor p) (sp_cursor p')" using k by (simp add: cursors_forward_iff [OF wf])
  then show ?thesis using c by (simp add: cursor_forward_def)
qed

subsection \<open>The invariant\<close>

text \<open>
  C11: Every frame keeps the projection's invariant, or is refused because it carries a workspace
  that does not decode. The invariant says that the warm-session list and the session map name
  the same sessions, at most the configured number of them; that the active session is warm; that
  the session index, its metadata, arrival ordinals and cursors, the workspaces and every
  collection of every session stay within their caps; that an arrival ordinal belongs to an
  indexed session and is not ahead of the counter.
\<close>

theorem projection_invariant_kept:
  assumes "snapshot_ok config s" "caps_ok config" "frame_ok frame"
  shows "case applyProjectionInput pl s frame config of
      Inl e \<Rightarrow> e \<noteq> SessionMissing
    | Inr x \<Rightarrow> snapshot_ok config (or_same s x)"
  using frames_keep_ok [OF assms, of pl] by (auto simp: keeps_ok_def)

subsection \<open>The inventory page\<close>

lemma map_of_rev_refs:
  "ref \<in> set refs \<Longrightarrow> \<exists>ref'. map_of (rev (rows @ map (\<lambda>ref. (ref_key ref, ref)) refs)) (ref_key ref) = Some ref' \<and>
     ref' \<in> set refs \<and> ref_key ref' = ref_key ref"
proof -
  assume ref: "ref \<in> set refs"
  let ?m = "rev (map (\<lambda>ref. (ref_key ref, ref)) refs)"
  have "map_of ?m (ref_key ref) \<noteq> None" using ref unfolding map_of_eq_None_iff by force
  then obtain ref' where r: "map_of ?m (ref_key ref) = Some ref'" by auto
  then have "(ref_key ref, ref') \<in> set ?m" by (rule map_of_SomeD)
  then show ?thesis using r by (auto simp: map_add_def)
qed

lemma make_active_index [simp]:
  "sn_sessionIndex (make_active s config) = sn_sessionIndex s"
  "sn_sessionRefArrivalOrdinals (make_active s config) = sn_sessionRefArrivalOrdinals s"
  by (auto simp: make_active_def touch_session_def Let_def or_same_def split: option.splits prod.splits)

lemma update_warm_refs_index [simp]:
  "sn_sessionIndex (update_warm_refs refs s) = sn_sessionIndex s"
  "sn_sessionRefArrivalOrdinals (update_warm_refs refs s) = sn_sessionRefArrivalOrdinals s"
proof (induction refs arbitrary: s)
  case (Cons ref refs)
  { case 1 show ?case using Cons.IH by (simp add: update_warm_refs_def split: option.splits) }
  { case 2 show ?case using Cons.IH by (simp add: update_warm_refs_def split: option.splits) }
qed (simp_all add: update_warm_refs_def)

text \<open>
  C17: A page of the session inventory that is not stale is authoritative for every row it
  returned: whatever was cached before, each returned session is in the index with a row of this
  page, and carries the arrival ordinal of this page. The index stays within its cap, and a
  session of another host that is not on the page keeps its ordinal if it keeps its row.
\<close>

theorem inventory_page_survives:
  assumes ok: "snapshot_ok config s" and caps: "caps_ok config"
    and fresh: "\<not> inventory_stale s frame (authoritativeSessionHosts frame (inventory_refs frame config))"
    and ref: "ref \<in> set (inventory_refs frame config)"
  shows "\<exists>s' ref'. reduceSessions pl s frame config = Inr (Some s') \<and>
    jm_get (sn_sessionIndex s') (ref_key ref) = Some ref' \<and> ref' \<in> set (inventory_refs frame config) \<and>
    ref_key ref' = ref_key ref \<and>
    jm_get (sn_sessionRefArrivalOrdinals s') (ref_key ref) = Some (nextArrivalOrdinal s) \<and>
    length (sn_sessionIndex s') \<le> maxIndexedSessions config"
proof -
  let ?refs = "inventory_refs frame config"
  let ?s1 = "inventory_installed pl s frame ?refs (authoritativeSessionHosts frame ?refs) config"
  define s' where "s' = updateRoot (update_warm_refs ?refs (make_active ?s1 config)) (Some (ss_cursor frame)) None (Some Fresh)"
  have r: "reduceSessions pl s frame config = Inr (Some s')" using fresh by (simp add: reduceSessions_def Let_def s'_def)
  have idx: "sn_sessionIndex s' = sn_sessionIndex ?s1" "sn_sessionRefArrivalOrdinals s' = sn_sessionRefArrivalOrdinals ?s1"
    by (simp_all add: s'_def updateRoot_def)
  obtain ref' where ref': "jm_get (sn_sessionIndex s') (ref_key ref) = Some ref'" "ref' \<in> set ?refs" "ref_key ref' = ref_key ref"
  proof -
    have "\<exists>rows. sn_sessionIndex s' = jm_of_entries (rows @ map (\<lambda>ref. (ref_key ref, ref)) ?refs)"
      unfolding idx inventory_installed_def Let_def by (intro exI) simp
    then obtain rows where "sn_sessionIndex s' = jm_of_entries (rows @ map (\<lambda>ref. (ref_key ref, ref)) ?refs)" by (elim exE)
    then have get: "jm_get (sn_sessionIndex s') k = map_of (rev (rows @ map (\<lambda>ref. (ref_key ref, ref)) ?refs)) k" for k
      by (simp only: jm_get_of_entries)
    show thesis using map_of_rev_refs [OF ref, of rows] unfolding get [symmetric] by (elim exE conjE) (rule that)
  qed
  have "map_of (rev (map (\<lambda>ref. (ref_key ref, n)) ?refs)) (ref_key ref) = Some n" for n :: int
  proof -
    have "map_of (rev (map (\<lambda>ref. (ref_key ref, n)) ?refs)) (ref_key ref) \<noteq> None"
      using ref unfolding map_of_eq_None_iff by force
    then obtain m where "map_of (rev (map (\<lambda>ref. (ref_key ref, n)) ?refs)) (ref_key ref) = Some m" by auto
    moreover from map_of_SomeD [OF this] have "m = n" by auto
    ultimately show ?thesis by simp
  qed
  then have "jm_get (sn_sessionRefArrivalOrdinals s') (ref_key ref) = Some (nextArrivalOrdinal s)"
    unfolding idx inventory_installed_def Let_def by (simp add: jm_get_of_entries map_add_def)
  moreover have "length (sn_sessionIndex s') \<le> maxIndexedSessions config"
    using inventory_installed_ok(2) [OF ok length_inventory_refs] unfolding idx by (simp add: index_ok_def capped_def)
  ultimately show ?thesis using r ref' by blast
qed

subsection \<open>Live frames and recovery\<close>

text \<open>
  The order of live frames. Of a warm session that is not catching up and has a cursor, an
  entry frame of the same epoch at or before the cursor changes nothing; the next one is
  accepted and moves the cursor to it; any other one, of a later position or of another epoch,
  marks the session as catching up and leaves its entries, events and cursor as they were. While a
  session is catching up no entry is accepted.
\<close>

theorem entry_frames_in_order:
  assumes ok: "snapshot_ok config s" and caps: "caps_ok config"
    and p: "jm_get (sn_sessions s) (key (ef_hostId f) (ef_sessionId f)) = Some p" "sp_cursor p = Some c"
  shows "\<exists>x p'. reduceEntry s f config = Inr x \<and>
    jm_get (sn_sessions (or_same s x)) (key (ef_hostId f) (ef_sessionId f)) = Some p' \<and>
    (if sp_freshness p = CatchingUp \<or> epoch (ef_cursor f) \<noteq> epoch c \<or> seq c + 1 < seq (ef_cursor f)
     then p' = p\<lparr>sp_freshness := CatchingUp\<rparr>
     else if seq (ef_cursor f) = seq c + 1 then p' = accept_entry f config p \<and> sp_cursor p' = Some (ef_cursor f)
     else x = None \<and> p' = p)"
proof -
  let ?k = "key (ef_hostId f) (ef_sessionId f)"
  have warm: "warm_ok config s" using ok by (simp add: snapshot_ok_def)
  have upd: "\<exists>x. withSession s ?k (\<lambda>p. Some (g p)) config None = Inr x \<and> jm_get (sn_sessions (or_same s x)) ?k = Some (g p)" for g
  proof -
    obtain x where "withSession s ?k (\<lambda>p. Some (g p)) config None = Inr x"
      "or_same s x = after_update s ?k (\<lambda>p. Some (g p)) config None"
      using withSession_eq [OF warm caps, of ?k "\<lambda>p. Some (g p)" None] by metis
    then show ?thesis using p(1) by (simp add: after_update_get [OF warm caps] session_or_new_def)
  qed
  have order: "reduceEntry s f config =
      (case cursorState p (ef_cursor f) of
         Duplicate \<Rightarrow> Inr None
       | Gap \<Rightarrow> withSession s ?k (\<lambda>session. Some (session\<lparr>sp_freshness := CatchingUp\<rparr>)) config None
       | Accept \<Rightarrow> withSession s ?k (\<lambda>session. Some (accept_entry f config session)) config None)"
    using p(1) by (simp add: reduceEntry_def live_order_def Let_def)
  show ?thesis
  proof (cases "sp_freshness p = CatchingUp \<or> epoch (ef_cursor f) \<noteq> epoch c \<or> seq c + 1 < seq (ef_cursor f)")
    case True
    then have "cursorState p (ef_cursor f) = Gap" by (auto simp: cursorState_def p(2))
    with True show ?thesis using upd [of "\<lambda>p. p\<lparr>sp_freshness := CatchingUp\<rparr>"] unfolding order by simp
  next
    case False
    show ?thesis
    proof (cases "seq (ef_cursor f) = seq c + 1")
      case True
      with False have "cursorState p (ef_cursor f) = Accept" by (simp add: cursorState_def p(2))
      moreover have "sp_cursor (accept_entry f config p) = Some (ef_cursor f)" by (simp add: accept_entry_def Let_def)
      ultimately show ?thesis using True False upd [of "accept_entry f config"] unfolding order by simp
    next
      case neq: False
      with False have "cursorState p (ef_cursor f) = Duplicate" by (simp add: cursorState_def p(2))
      then show ?thesis using neq False p(1) unfolding order by simp
    qed
  qed
qed

text \<open>
  A snapshot ends a gap: for a warm session that is catching up, a snapshot frame of the
  session's epoch beyond its cursor, or of another epoch, makes the session fresh at the
  snapshot's cursor, with the newest entries of the snapshot that fit the caps and without the
  gap, and the next entry frame after it is accepted.
\<close>

theorem snapshot_recovers_from_gap:
  fixes s f
  assumes ok: "snapshot_ok config s" and caps: "caps_ok config"
    and p: "jm_get (sn_sessions s) (key (sf_hostId f) (sf_sessionId f)) = Some p" "sp_freshness p = CatchingUp" "sp_cursor p = Some c"
    and newer: "epoch (sf_cursor f) \<noteq> epoch c \<or> seq c < seq (sf_cursor f)"
  shows "\<exists>s' p'. reduceSnapshot s f config = Inr (Some s') \<and>
    jm_get (sn_sessions s') (key (sf_hostId f) (sf_sessionId f)) = Some p' \<and>
    sp_freshness p' = Fresh \<and> sp_gap p' = None \<and> sp_cursor p' = Some (sf_cursor f) \<and>
    sp_entries p' = re_entries (retainDurableEntries (sf_entries f) (transcript_caps config)) \<and>
    cursorState p' \<lparr>epoch = epoch (sf_cursor f), seq = seq (sf_cursor f) + 1\<rparr> = Accept"
proof -
  let ?k = "key (sf_hostId f) (sf_sessionId f)"
  let ?g = "install_snapshot f (retainDurableEntries (sf_entries f) (transcript_caps config))"
  have warm: "warm_ok config s" using ok by (simp add: snapshot_ok_def)
  obtain x where x: "withSession s ?k (\<lambda>p. Some (?g p)) config None = Inr x"
    "or_same s x = after_update s ?k (\<lambda>p. Some (?g p)) config None"
    using withSession_eq [OF warm caps, of ?k "\<lambda>p. Some (?g p)" None] by metis
  then have get: "jm_get (sn_sessions (or_same s x)) ?k = Some (?g p)"
    using p(1) by (simp add: after_update_get [OF warm caps] session_or_new_def)
  have "\<exists>s'. reduceSnapshot s f config = Inr (Some s') \<and> sn_sessions s' = sn_sessions (or_same s x)"
    using p newer x by (auto simp: reduceSnapshot_def Let_def updateRoot_def)
  then obtain s' where s': "reduceSnapshot s f config = Inr (Some s')" "sn_sessions s' = sn_sessions (or_same s x)" by blast
  have g: "sp_freshness (?g p) = Fresh" "sp_gap (?g p) = None" "sp_cursor (?g p) = Some (sf_cursor f)"
    "sp_entries (?g p) = re_entries (retainDurableEntries (sf_entries f) (transcript_caps config))"
    by (simp_all add: install_snapshot_def Let_def)
  then have "cursorState (?g p) \<lparr>epoch = epoch (sf_cursor f), seq = seq (sf_cursor f) + 1\<rparr> = Accept"
    by (simp add: cursorState_def)
  then show ?thesis using g s' get by (intro exI [of _ s'] exI [of _ "?g p"]) simp
qed

subsection \<open>Warm sessions\<close>

text \<open>
  C24: A frame for a session makes it the most recently used one. The sessions that stay warm are
  the most recently used ones, at most the configured number, each with the projection it had; a
  session that is new starts with an empty projection.
\<close>

theorem warm_sessions_are_most_recent:
  assumes "snapshot_ok config s" "caps_ok config"
  shows "let s' = or_same s (touch_session s k config) in
    sn_lru s' = slice_last (maxWarmSessions config) (filter (\<lambda>j. j \<noteq> k) (sn_lru s) @ [k]) \<and>
    set (jm_keys (sn_sessions s')) = set (sn_lru s') \<and>
    jm_get (sn_sessions s') k = Some (case jm_get (sn_sessions s) k of
      Some p \<Rightarrow> p | None \<Rightarrow> initialSession (key_host k) (key_session k) Fresh) \<and>
    (\<forall>j. j \<noteq> k \<longrightarrow> jm_get (sn_sessions s') j = (if j \<in> set (sn_lru s') then jm_get (sn_sessions s) j else None))"
proof -
  have warm: "warm_ok config s" using assms(1) by (simp add: snapshot_ok_def)
  have keys: "set (jm_keys (sn_sessions (or_same s (touch_session s k config)))) = set (sn_lru (or_same s (touch_session s k config)))"
    using touch_ok(1) [OF warm assms(2), of k] by (simp add: warm_ok_def)
  show ?thesis
    using keys unfolding touch_warmed [OF warm assms(2)] Let_def
    by (simp add: warmed_sessions_get [OF warm assms(2)] warmed_lru_def session_or_new_def)
qed

text \<open>
  Session keys do not collide: for host identifiers without the code unit 0, two keys are
  equal only for the same host and session, and the key gives both back.
\<close>

theorem session_keys_injective:
  assumes "0 \<notin> set h" "0 \<notin> set h'" "0 \<notin> set i"
  shows "(key h i = key h' i' \<longleftrightarrow> h = h' \<and> i = i') \<and> key_host (key h i) = h \<and> key_session (key h i) = Some i"
proof -
  have split: "takeWhile (\<lambda>c. c \<noteq> 0) (g @ [0] @ j) = g \<and> dropWhile (\<lambda>c. c \<noteq> 0) (g @ [0] @ j) = 0 # j"
    if "0 \<notin> set g" for g j :: jsstr
  proof -
    have "\<And>x. x \<in> set g \<Longrightarrow> x \<noteq> 0" using that by auto
    then show ?thesis by (simp add: takeWhile_append2 dropWhile_append2)
  qed
  have "takeWhile (\<lambda>c. c \<noteq> 0) i = i" using assms(3) unfolding takeWhile_eq_all_conv by auto
  moreover have "h = h' \<and> i = i'" if "key h i = key h' i'"
  proof -
    have eq: "h @ [0] @ i = h' @ [0] @ i'" using that by (simp add: key_def nul_def)
    show ?thesis using split [OF assms(1), of i] split [OF assms(2), of i'] unfolding eq by simp
  qed
  ultimately show ?thesis
    using split [OF assms(1), of i] by (auto simp: key_host_def key_session_def key_def nul_def)
qed

end
