(* ===== verification/ProjectionWitness.thy ===== *)
theory ProjectionWitness
  imports ProjectionProperties
begin

text \<open>
  The properties of the client projection at concrete inputs: one warm session of one host, a
  frame for it, and a page of the session inventory.
\<close>

definition sample_platform :: platform where
  "sample_platform =
     \<lparr>parse_url = (\<lambda>_. None), localeCompare = (\<lambda>a b. if a = b then 0 else if a < b then - 1 else 1)\<rparr>"

definition sample_key :: jsstr where
  "sample_key = key (js ''h'') (js ''s'')"

definition sample_session :: "freshness \<Rightarrow> session_projection" where
  "sample_session f =
     (initialSession (js ''h'') (Some (js ''s'')) f)\<lparr>
       sp_cursor := Some \<lparr>epoch = js ''e'', seq = 5\<rparr>, sp_epoch := Some (js ''e'')\<rparr>"

definition sample_snapshot :: "freshness \<Rightarrow> snapshot" where
  "sample_snapshot f = createProjectionSnapshot\<lparr>
     sn_sessions := [(sample_key, sample_session f)], sn_lru := [sample_key], sn_activeSessionKey := Some sample_key\<rparr>"

definition projection_entry :: durable_entry where
  "projection_entry = \<lparr>e_id = js ''e1'', e_parentId = None, e_hostId = js ''h'', e_sessionId = js ''s'', e_turnId = None,
     e_kind = js ''message'', e_timestamp = js ''t'', e_data = JObj []\<rparr>"

definition sample_entry_frame :: entry_frame where
  "sample_entry_frame = \<lparr>ef_cursor = \<lparr>epoch = js ''e'', seq = 6\<rparr>, ef_revision = js ''r'', ef_hostId = js ''h'',
     ef_sessionId = js ''s'', ef_entry = projection_entry\<rparr>"

definition sample_snapshot_frame :: snapshot_frame where
  "sample_snapshot_frame = \<lparr>sf_cursor = \<lparr>epoch = js ''e'', seq = 9\<rparr>, sf_revision = js ''r'', sf_hostId = js ''h'',
     sf_sessionId = js ''s'', sf_entries = [projection_entry]\<rparr>"

definition sample_ref :: jsval where
  "sample_ref = JObj [(js ''hostId'', JStr (js ''h'')), (js ''sessionId'', JStr (js ''s'')),
     (js ''project'', JObj [(js ''projectId'', JStr (js ''p''))]), (js ''revision'', JStr (js ''r'')),
     (js ''title'', JStr (js ''t'')), (js ''status'', JStr (js ''idle'')), (js ''updatedAt'', JStr (js ''u''))]"

definition sample_page :: sessions_frame where
  "sample_page = \<lparr>ss_hostId = JStr (js ''h''), ss_cursor = \<lparr>epoch = js ''e'', seq = 1\<rparr>, ss_sessions = [sample_ref],
     ss_totalCount = JNum (JInt 1), ss_truncated = JBool False\<rparr>"

lemma sample_names:
  "\<not> unsafe_name (js ''hostId'')" "\<not> unsafe_name (js ''sessionId'')" "\<not> unsafe_name (js ''project'')"
  "\<not> unsafe_name (js ''projectId'')" "\<not> unsafe_name (js ''revision'')" "\<not> unsafe_name (js ''title'')"
  "\<not> unsafe_name (js ''status'')" "\<not> unsafe_name (js ''updatedAt'')"
  by (simp_all add: unsafe_name_def js_def ascii_lower_def starts_with_def Let_def)

lemma sample_indices:
  "array_index (js ''hostId'') = None" "array_index (js ''sessionId'') = None" "array_index (js ''project'') = None"
  "array_index (js ''projectId'') = None" "array_index (js ''revision'') = None" "array_index (js ''title'') = None"
  "array_index (js ''status'') = None" "array_index (js ''updatedAt'') = None"
  by (simp_all add: array_index_def js_def digit_of_def)

lemma jm_get_js: "jm_get ((js k, v) # m) (js j) = (if j = k then Some v else jm_get m (js j))"
  by (simp add: jm_get_Cons)

lemma jm_set_js: "jm_set (js k) v ((js j, w) # m) = (if k = j then (js j, v) # m else (js j, w) # jm_set (js k) v m)"
  by (simp add: jm_set_code)

lemmas sample_object = jm_get_js jm_set_js jm_set_code(1) assign_member_def own_entries_def sample_names sample_indices

lemma sample_text: "js ''h'' = [104]" "js ''s'' = [115]" "js ''p'' = [112]" "js ''r'' = [114]" "js ''t'' = [116]"
  "js ''idle'' = [105, 100, 108, 101]" "js ''u'' = [117]"
  by (simp_all add: js_def)

lemma sample_safe: "safeValue sample_ref = sample_ref"
proof -
  have five: "safe_node 5 = safe_node (Suc (Suc (Suc (Suc (Suc 0)))))" by (simp add: numeral_eq_Suc)
  show ?thesis
    unfolding safeValue_def sample_ref_def five by (simp add: sample_object sample_text Let_def)
qed

lemma sample_refs: "sanitizeSessionRef sample_ref = Some sample_ref"
  unfolding sanitizeSessionRef_def sample_safe
  by (simp add: sample_ref_def isRecord_def get_prop_def sample_object boundedIdentity_def string_prop_def with_member_def
      sample_text is_control_def)

lemma sample_snapshot_ok: "snapshot_ok default_options (sample_snapshot f)"
proof -
  have "session_ok default_options 0 (sample_session f)"
    using initialSession_ok [of 0 default_options "js ''h''" "Some (js ''s'')" f]
    by (simp add: sample_session_def session_ok_def collections_ok_def)
  then show ?thesis
    using createProjectionSnapshot_ok [of default_options]
    by (simp add: snapshot_ok_def sample_snapshot_def warm_ok_def active_ok_def index_ok_def ordinals_ok_def sessions_ok_def
        createProjectionSnapshot_def jm_wf_def jm_keys_def default_options_def)
qed

lemma sample_get: "jm_get (sn_sessions (sample_snapshot f)) (key (js ''h'') (js ''s'')) = Some (sample_session f)"
  by (simp add: sample_snapshot_def sample_key_def jm_get_Cons)

lemma sample_accept:
  "\<exists>x p'. applyProjectionInput pl (sample_snapshot Fresh) (FEntry sample_entry_frame) default_options = Inr x \<and>
     jm_get (sn_sessions (or_same (sample_snapshot Fresh) x)) (key (js ''h'') (js ''s'')) = Some p' \<and>
     sp_cursor p' = Some \<lparr>epoch = js ''e'', seq = 6\<rparr>"
proof -
  let ?s = "sample_snapshot Fresh" and ?k = "key (js ''h'') (js ''s'')"
  let ?u = "\<lambda>p. Some (accept_entry sample_entry_frame default_options p)"
  have warm: "warm_ok default_options ?s" using sample_snapshot_ok by (simp add: snapshot_ok_def)
  obtain x where x: "withSession ?s ?k ?u default_options None = Inr x"
    "or_same ?s x = after_update ?s ?k ?u default_options None"
    using withSession_eq [OF warm caps_ok_default, of ?k ?u None] by metis
  have "live_order ?s ?k \<lparr>epoch = js ''e'', seq = 6\<rparr> = Accept"
    by (simp add: live_order_def sample_get sample_session_def cursorState_def initialSession_def)
  then have "applyProjectionInput pl ?s (FEntry sample_entry_frame) default_options = Inr x"
    using x(1) by (simp add: applyProjectionInput_def reduceResourceProjection_def reduceEntry_def sample_entry_frame_def Let_def)
  moreover have "sp_cursor (accept_entry sample_entry_frame default_options p) = Some \<lparr>epoch = js ''e'', seq = 6\<rparr>" for p
    by (simp add: accept_entry_def Let_def sample_entry_frame_def)
  ultimately show ?thesis using x(2) by (auto simp: after_update_get [OF warm caps_ok_default])
qed

theorem cursors_never_go_back_witness:
  "\<exists>x p'. applyProjectionInput sample_platform (sample_snapshot Fresh) (FEntry sample_entry_frame) default_options = Inr x \<and>
     jm_get (sn_sessions (or_same (sample_snapshot Fresh) x)) (key (js ''h'') (js ''s'')) = Some p' \<and>
     5 \<le> seq (the (sp_cursor p'))"
proof -
  obtain x p' where x: "applyProjectionInput sample_platform (sample_snapshot Fresh) (FEntry sample_entry_frame) default_options = Inr x"
    "jm_get (sn_sessions (or_same (sample_snapshot Fresh) x)) (key (js ''h'') (js ''s'')) = Some p'"
    "sp_cursor p' = Some \<lparr>epoch = js ''e'', seq = 6\<rparr>" using sample_accept by blast
  have "seq \<lparr>epoch = js ''e'', seq = 5\<rparr> \<le> seq \<lparr>epoch = js ''e'', seq = 6\<rparr>"
    by (rule cursors_never_go_back [OF sample_snapshot_ok caps_ok_default x(1) sample_get x(2) _ x(3)])
      (simp_all add: sample_session_def)
  with x show ?thesis by (intro exI [of _ x] exI [of _ p']) simp
qed

theorem projection_invariant_kept_witness:
  "case applyProjectionInput sample_platform (sample_snapshot Fresh) (FEntry sample_entry_frame) default_options of
     Inl e \<Rightarrow> e \<noteq> SessionMissing
   | Inr x \<Rightarrow> snapshot_ok default_options (or_same (sample_snapshot Fresh) x)"
  by (rule projection_invariant_kept [OF sample_snapshot_ok caps_ok_default])
    (simp add: frame_ok_def sample_entry_frame_def projection_entry_def entry_wf_def)

theorem inventory_page_survives_witness:
  "\<exists>s' ref'. reduceSessions sample_platform createProjectionSnapshot sample_page default_options = Inr (Some s') \<and>
     jm_get (sn_sessionIndex s') (ref_key sample_ref) = Some ref' \<and>
     jm_get (sn_sessionRefArrivalOrdinals s') (ref_key sample_ref) = Some 1"
proof -
  have n: "maxIndexedSessions default_options = Suc 999" by (simp add: default_options_def max_indexed_session_refs_def)
  have refs: "inventory_refs sample_page default_options = [sample_ref]"
    by (simp add: inventory_refs_def n sample_page_def sample_refs List.map_filter_simps)
  have fresh: "\<not> inventory_stale createProjectionSnapshot sample_page hosts" for hosts
    by (simp add: inventory_stale_def createProjectionSnapshot_def list_ex_iff)
  have "nextArrivalOrdinal createProjectionSnapshot = 1"
    by (simp add: nextArrivalOrdinal_def createProjectionSnapshot_def max_safe_integer_def)
  then show ?thesis
    using inventory_page_survives [OF createProjectionSnapshot_ok caps_ok_default fresh, of sample_ref sample_platform]
    by (auto simp: refs)
qed

theorem entry_frames_in_order_witness:
  "\<exists>x p'. reduceEntry (sample_snapshot Fresh) sample_entry_frame default_options = Inr x \<and>
     jm_get (sn_sessions (or_same (sample_snapshot Fresh) x)) (key (js ''h'') (js ''s'')) = Some p' \<and>
     sp_cursor p' = Some \<lparr>epoch = js ''e'', seq = 6\<rparr>"
proof -
  let ?c = "\<lparr>epoch = js ''e'', seq = 5\<rparr>"
  have ids: "ef_hostId sample_entry_frame = js ''h''" "ef_sessionId sample_entry_frame = js ''s''"
    "ef_cursor sample_entry_frame = \<lparr>epoch = js ''e'', seq = 6\<rparr>"
    by (simp_all add: sample_entry_frame_def)
  have p: "sp_cursor (sample_session Fresh) = Some ?c" "sp_freshness (sample_session Fresh) = Fresh"
    by (simp_all add: sample_session_def initialSession_def)
  show ?thesis
    using entry_frames_in_order [OF sample_snapshot_ok caps_ok_default, of Fresh sample_entry_frame "sample_session Fresh" ?c]
    by (auto simp: ids sample_get p)
qed

theorem snapshot_recovers_from_gap_witness:
  "\<exists>s' p'. reduceSnapshot (sample_snapshot CatchingUp) sample_snapshot_frame default_options = Inr (Some s') \<and>
     jm_get (sn_sessions s') (key (js ''h'') (js ''s'')) = Some p' \<and>
     sp_freshness p' = Fresh \<and> sp_cursor p' = Some \<lparr>epoch = js ''e'', seq = 9\<rparr>"
proof -
  let ?c = "\<lparr>epoch = js ''e'', seq = 5\<rparr>"
  have ids: "sf_hostId sample_snapshot_frame = js ''h''" "sf_sessionId sample_snapshot_frame = js ''s''"
    "sf_cursor sample_snapshot_frame = \<lparr>epoch = js ''e'', seq = 9\<rparr>"
    by (simp_all add: sample_snapshot_frame_def)
  have p: "sp_cursor (sample_session CatchingUp) = Some ?c" "sp_freshness (sample_session CatchingUp) = CatchingUp"
    by (simp_all add: sample_session_def initialSession_def)
  show ?thesis
    using snapshot_recovers_from_gap [OF sample_snapshot_ok caps_ok_default, of CatchingUp sample_snapshot_frame "sample_session CatchingUp" ?c]
    by (auto simp: ids sample_get p)
qed

theorem warm_sessions_are_most_recent_witness:
  "sn_lru (or_same (sample_snapshot Fresh) (touch_session (sample_snapshot Fresh) (js ''k'') default_options)) = [sample_key, js ''k'']"
proof -
  have neq: "sample_key \<noteq> js ''k''" by (simp add: sample_key_def key_def nul_def js_def)
  show ?thesis
    using warm_sessions_are_most_recent [OF sample_snapshot_ok caps_ok_default, of Fresh "js ''k''"] neq
    by (simp add: Let_def sample_snapshot_def slice_last_def default_options_def)
qed

theorem session_keys_injective_witness:
  "key_host (key (js ''h'') (js ''s'')) = js ''h'' \<and> key_session (key (js ''h'') (js ''s'')) = Some (js ''s'')"
  using session_keys_injective [of "js ''h''" "js ''g''" "js ''s''" "js ''t''"] by (simp add: js_def)

end
