(* ===== verification/JsonBound.thy ===== *)
theory JsonBound
  imports SnapshotLimits
begin

text \<open>
  A bound on the bytes of a JSON text that needs no escaping and no encoding: each character takes at
  most six bytes.
\<close>

lemma json_bytes_text: "json_text v = None \<Longrightarrow> json_bytes v = 0"
  by (simp add: json_bytes_def)

fun json_bound :: "jsval \<Rightarrow> nat" where
  "json_bound (JStr s) = 6 * length s + 4"
| "json_bound (JNum n) = (case n of JInt i \<Rightarrow> length (int_str i) + 4 | _ \<Rightarrow> json_bytes (JNum n) + 4)"
| "json_bound (JArr xs) = 4 + sum_list (map (\<lambda>x. json_bound x + 1) xs)"
| "json_bound (JObj kvs) = 4 + sum_list (map (\<lambda>(k, v). 6 * length k + 4 + json_bound v) kvs)"
| "json_bound v = 5"

lemma json_bytes_bool: "json_bytes (JBool b) \<le> 5"
proof -
  have "utf8_len (js ''true'') = 4" "utf8_len (js ''false'') = 5" by (simp_all add: utf8_len_ascii js_def)
  then show ?thesis by (cases b) (simp_all add: json_bytes_def)
qed

lemma json_bound_ge: "json_bytes v \<le> json_bound v \<and> 4 \<le> json_bound v"
proof (induction v rule: json_bound.induct)
  case (1 s)
  then show ?case using json_bytes_JStr [of s] by simp
next
  case (3 xs)
  have "item_bytes x \<le> json_bound x" if "x \<in> set xs" for x
    using 3 [OF that] by (simp add: item_bytes_def)
  then have "sum_list (map item_bytes xs) \<le> sum_list (map json_bound xs)" by (intro sum_list_mono) simp
  moreover have "sum_list (map (\<lambda>x. json_bound x + 1) xs) = sum_list (map json_bound xs) + length xs"
    by (induction xs) auto
  ultimately show ?case by (simp add: json_bytes_JArr commas_def)
next
  case (4 kvs)
  let ?own = "json_own kvs"
  have "member_bytes p + 1 \<le> (case p of (k, v) \<Rightarrow> 6 * length k + 4 + json_bound v)" if "p \<in> set kvs" for p
    using 4 [OF that] member_bytes_le [of "fst p" "snd p"] by (cases p) auto
  then have "sum_list (map (\<lambda>p. member_bytes p + 1) ?own) \<le> sum_list (map (\<lambda>(k, v). 6 * length k + 4 + json_bound v) ?own)"
    by (intro sum_list_mono) (simp add: json_own_def)
  also have "\<dots> \<le> sum_list (map (\<lambda>(k, v). 6 * length k + 4 + json_bound v) kvs)"
    unfolding json_own_def by (rule sum_list_filter_le_nat)
  finally have "sum_list (map (\<lambda>p. member_bytes p + 1) ?own) \<le> sum_list (map (\<lambda>(k, v). 6 * length k + 4 + json_bound v) kvs)" .
  moreover have "sum_list (map (\<lambda>p. member_bytes p + 1) ps) = sum_list (map member_bytes ps) + length ps" for ps
    by (induction ps) auto
  ultimately show ?case by (simp add: json_bytes_JObj commas_def)
qed (auto simp: json_bytes_const json_bytes_bool json_bytes_text split: jsnum.splits)

end
