(* ===== verification/CacheRestart.thy ===== *)
theory CacheRestart
  imports CacheRoundtrip ProjectionStore ProjectionWitness JsonBound
begin

text \<open>
  The projection store and its cache together: what a store that is started again restores of the
  one before it, and the properties of the cache and of the store at concrete inputs.
\<close>

subsection \<open>Bounds on the bytes of a value\<close>

lemma item_bytes_ge: "json_bytes v \<le> item_bytes v"
  by (simp add: item_bytes_def json_bytes_text)

lemma json_bytes_item:
  assumes "v \<in> set xs"
  shows "json_bytes v \<le> json_bytes (JArr xs)"
proof -
  have "item_bytes v \<le> sum_list (map item_bytes xs)" using assms by (intro member_le_sum_list) auto
  then show ?thesis using item_bytes_ge [of v] by (simp add: json_bytes_JArr)
qed

lemma json_bytes_member:
  assumes "(k, v) \<in> set kvs"
  shows "json_bytes v \<le> json_bytes (JObj kvs)"
proof (cases "json_text v")
  case (Some t)
  then have "member_bytes (k, v) \<le> sum_list (map member_bytes (json_own kvs))"
    using assms by (intro member_le_sum_list) (auto simp: json_own_def)
  then show ?thesis by (simp add: json_bytes_JObj member_bytes_def)
qed (simp add: json_bytes_text)

lemma json_bytes_get: "json_bytes (get_prop (JObj kvs) name) \<le> json_bytes (JObj kvs)"
proof (cases "jm_get kvs (js name)")
  case None
  then show ?thesis by (simp add: get_prop_JObj json_bytes_text)
next
  case (Some v)
  then show ?thesis using json_bytes_member [OF jm_get_in_set [OF Some]] by (simp add: get_prop_JObj)
qed

subsection \<open>A snapshot too large for the cache\<close>

lemma kept_entries_sessions: "map (\<lambda>(k, p, x). (k, p)) (kept_entries n ss) = ss"
  by (induction ss arbitrary: n) (auto simp: case_prod_beta Let_def)

text \<open>No compaction drops a review.\<close>

lemma large_review_too_large:
  assumes "(k, p) \<in> set (cachedSessions s)" "(i, r) \<in> set (sp_reviews p)"
    and large: "json_bytes (safeJson (review_val r)) > max_projection_cache_bytes"
  shows "encodeProjectionCache parse s now = Inl CacheTooLarge"
proof -
  have "json_bytes (envelope_val now (stored_data parse compact s)) > max_projection_cache_bytes" for compact
  proof -
    let ?d = "stored_data parse compact s"
    obtain e t where e: "(k, p, e, t) \<in> set (kept_entries max_projection_cache_transcript_bytes (cachedSessions s))"
    proof -
      have "(k, p) \<in> set (map (\<lambda>(k, p, x). (k, p)) (kept_entries max_projection_cache_transcript_bytes (cachedSessions s)))"
        using assms(1) by (simp only: kept_entries_sessions)
      then show thesis using that by auto
    qed
    let ?c = "kept_data parse compact (p, e, t)"
    have "json_bytes (safeJson (review_val r)) \<le> json_bytes (JArr [JStr i, safeJson (review_val r)])"
      by (rule json_bytes_item) simp
    also have "\<dots> \<le> json_bytes (pairs_val (arrayFromMap review_val (sp_reviews p)))"
      unfolding pairs_val_def by (rule json_bytes_item) (use assms(2) in \<open>force simp: arrayFromMap_def\<close>)
    also have "\<dots> = json_bytes (pairs_val (cs_reviews ?c))" by (simp add: kept_data_def)
    also have "\<dots> \<le> json_bytes (cached_session_val ?c)"
      unfolding cached_session_val_def by (rule json_bytes_member [of "js ''reviews''"]) simp
    also have "\<dots> \<le> json_bytes (JObj [(js ''key'', JStr k), (js ''value'', cached_session_val ?c)])"
      by (rule json_bytes_member [of "js ''value''"]) simp
    also have "\<dots> \<le> json_bytes (JArr (map (\<lambda>(k, c). JObj [(js ''key'', JStr k), (js ''value'', cached_session_val c)]) (cd_sessions ?d)))"
      by (rule json_bytes_item) (use e in \<open>force simp: stored_sessions\<close>)
    also have "\<dots> \<le> json_bytes (cache_data_val ?d)"
      unfolding cache_data_val_def by (rule json_bytes_member [of "js ''sessions''"]) simp
    also have "\<dots> \<le> json_bytes (envelope_val now ?d)"
      unfolding envelope_val_def by (rule json_bytes_member [of "js ''data''"]) simp
    finally show ?thesis using large by simp
  qed
  from this [of False] this [of True] show ?thesis by (simp add: encodeProjectionCache_def stored_data_def Let_def)
qed

definition no_options :: projection_options where
  "no_options = \<lparr>po_maxWarmSessions = None, po_maxIndexedSessions = None, po_maxWorkspaces = None, po_maxEntries = None,
     po_maxTranscriptBytes = None, po_maxEntryBytes = None, po_maxEvents = None, po_maxEventsBytes = None, po_maxEventBytes = None,
     po_maxAudit = None, po_maxAgentTranscripts = None, po_maxAgentTranscriptEntries = None, po_maxAgentTranscriptBytes = None,
     po_maxTerminals = None, po_maxTerminalBytes = None, po_maxTerminalBytesPerTerminal = None, po_maxFiles = None,
     po_maxFilesBytes = None, po_maxFileBytes = None, po_maxPreviews = None, po_maxPreviewEvents = None\<rparr>"

lemma no_options_default: "resolveProjectionOptions no_options = default_options"
  by (simp add: resolveProjectionOptions_def no_options_def given_def positiveOption_def)

definition large_review :: review_frame where
  "large_review = \<lparr>rf_hostId = js ''h'', rf_sessionId = js ''s'', rf_reviewId = js ''v'', rf_status = js ''open'', rf_path = None,
     rf_findings = replicate 300 (JStr (replicate 8192 120))\<rparr>"

lemma large_review_safe: "large_review\<lparr>rf_findings := map safeValue (rf_findings large_review)\<rparr> = large_review"
proof -
  have "safeValue (JStr s) = JStr (take 8192 s)" for s
  proof -
    have "safe_node 5 = safe_node (Suc 4)" by (simp add: eval_nat_numeral)
    then show ?thesis by (simp only: safeValue_def safe_node.simps jsval.case)
  qed
  then show ?thesis by (simp add: large_review_def)
qed

lemma safe_strings: "m \<le> 1024 \<Longrightarrow> safe_json (Suc (Suc n)) (JArr (replicate m (JStr s))) = JArr (replicate m (JStr s))"
  by simp

lemma large_review_bytes: "json_bytes (safeJson (review_val large_review)) > max_projection_cache_bytes"
proof -
  let ?x = "JStr (replicate 8192 120)"
  have x: "json_bytes ?x = 8194" using quote_x [of 8192] by (simp add: json_bytes_def quote_bytes_def)
  have findings: "get_prop (safeJson (review_val large_review)) ''findings'' = JArr (replicate 300 ?x)"
  proof -
    have "get_prop (review_val large_review) ''findings'' = JArr (replicate 300 ?x)"
      by (simp add: review_val_def large_review_def get_Cons get_members protocol_members_def)
    moreover have "safe_json 5 (JArr (replicate 300 ?x)) = JArr (replicate 300 ?x)"
      using safe_strings [of 300 3 "replicate 8192 120"] by simp
    ultimately show ?thesis unfolding get_safe_val [OF review_plain val_records(4)] by simp
  qed
  obtain kvs where kvs: "safeJson (review_val large_review) = JObj kvs"
    using safe_val_record(1) [OF val_records(4) [of large_review]] by (auto simp: isRecord_def split: jsval.splits)
  have "json_bytes (JArr (replicate 300 ?x)) \<le> json_bytes (JObj kvs)"
    using json_bytes_get [of kvs "''findings''"] findings by (simp add: kvs)
  moreover have "300 * 8194 \<le> json_bytes (JArr (replicate 300 ?x))"
    using item_bytes_ge [of ?x] by (simp add: json_bytes_JArr sum_list_replicate x)
  ultimately show ?thesis by (simp add: kvs max_projection_cache_bytes_def)
qed

lemma large_review_applied:
  "\<exists>s p. applyProjectionInput pl createProjectionSnapshot (FReview large_review) default_options = Inr (Some s) \<and>
     (sample_key, p) \<in> set (cachedSessions s) \<and> (js ''v'', large_review) \<in> set (sp_reviews p)"
proof -
  let ?s = createProjectionSnapshot
  let ?u = "\<lambda>session. Some (session\<lparr>sp_reviews := mapWith (sp_reviews session) (js ''v'') large_review max_map_entries\<rparr>)"
  have warm: "warm_ok default_options ?s" using createProjectionSnapshot_ok [of default_options] by (simp add: snapshot_ok_def)
  obtain x where x: "withSession ?s sample_key ?u default_options None = Inr x" "or_same ?s x = after_update ?s sample_key ?u default_options None"
    by (rule withSession_eq [OF warm caps_ok_default, of sample_key ?u None])
  let ?p = "or_same (session_or_new ?s sample_key) (?u (session_or_new ?s sample_key))"
  have after: "sn_sessions (or_same ?s x) = [(sample_key, ?p)]" "sn_lru (or_same ?s x) = [sample_key]"
    unfolding x(2) by (simp_all add: after_update_def warmed_sessions_def warmed_lru_def slice_last_def createProjectionSnapshot_def
      default_options_def jm_set_code)
  then obtain s where s: "x = Some s" by (cases x) (auto simp: createProjectionSnapshot_def)
  have ids: "key (rf_hostId large_review) (rf_sessionId large_review) = sample_key" "rf_reviewId large_review = js ''v''"
    by (simp_all add: large_review_def sample_key_def)
  have "applyProjectionInput pl ?s (FReview large_review) default_options = Inr (Some s)"
    using x(1) by (simp add: applyProjectionInput_def reduceResourceProjection_def reduceReview_def ids large_review_safe s)
  moreover have "(sample_key, ?p) \<in> set (cachedSessions s)"
    using after by (simp add: s cachedSessions_def cache_order_def List.map_filter_def max_projection_cache_sessions_def jm_get_Cons)
  moreover have "(js ''v'', large_review) \<in> set (sp_reviews ?p)"
    by (simp add: session_or_new_def createProjectionSnapshot_def initialSession_def mapWith_def jm_set_code jm_evict.simps max_map_entries_def)
  ultimately show ?thesis by blast
qed

theorem oversized_snapshot_stops_saving_witness:
  "\<exists>s. applyProjectionInput sample_platform createProjectionSnapshot (FReview large_review) default_options = Inr (Some s) \<and>
     encodeProjectionCache (parse_url sample_platform) s 7 = Inl CacheTooLarge \<and>
     st_saves (fold (store_step sample_platform (\<lambda>_. False)) [(7, Framed (FReview large_review)), (8, SaveSettled), (9, Disposed)]
       (newProjectionStore no_options True)) = [] \<and>
     \<not> flush_returns sample_platform (\<lambda>_. False)
         (fold (store_step sample_platform (\<lambda>_. False)) [(7, Framed (FReview large_review)), (8, SaveSettled), (9, Disposed)]
           (newProjectionStore no_options True))"
proof -
  obtain s p where s: "applyProjectionInput sample_platform createProjectionSnapshot (FReview large_review) default_options = Inr (Some s)"
    and p: "(sample_key, p) \<in> set (cachedSessions s)" "(js ''v'', large_review) \<in> set (sp_reviews p)"
    using large_review_applied by blast
  have large: "encodeProjectionCache (parse_url sample_platform) s 7 = Inl CacheTooLarge"
    by (rule large_review_too_large [OF p large_review_bytes])
  have new: "\<not> st_disposed (newProjectionStore no_options True)" "st_cacheStore (newProjectionStore no_options True)"
    "st_cacheSave (newProjectionStore no_options True) = None" "st_current (newProjectionStore no_options True) = createProjectionSnapshot"
    "st_options (newProjectionStore no_options True) = default_options" "st_saves (newProjectionStore no_options True) = []"
    by (simp_all add: newProjectionStore_def no_options_default)
  show ?thesis
    using oversized_snapshot_stops_saving [OF new(1-3), of sample_platform "FReview large_review" s 7 "\<lambda>_. False" "[(8, SaveSettled), (9, Disposed)]"]
      s large by (simp only: new) blast
qed

subsection \<open>A session with an audit record\<close>

definition sample_audit :: audit_frame where
  "sample_audit = \<lparr>uf_hostId = js ''h'', uf_sessionId = Some (js ''s''), uf_action = js ''a'', uf_actor = js ''u'', uf_timestamp = js ''t'',
     uf_detail = JUndef\<rparr>"

definition audited :: "durable_entry list \<Rightarrow> snapshot" where
  "audited es = createProjectionSnapshot\<lparr>
     sn_sessions := [(sample_key, (initialSession (js ''h'') (Some (js ''s'')) Fresh)\<lparr>sp_audit := [sample_audit], sp_entries := es\<rparr>)],
     sn_lru := [sample_key], sn_activeSessionKey := Some sample_key\<rparr>"

lemma safe_plain_object:
  assumes "plain_members kvs" "list_all (\<lambda>(k, v). v \<noteq> JUndef \<and> safe_json 5 v = v) kvs"
  shows "safeJson (JObj kvs) = JObj kvs"
proof -
  have "map (\<lambda>(k, v). (k, safe_json 5 v)) kvs = kvs" using assms(2) by (induction kvs) auto
  moreover have "filter (\<lambda>p. snd p \<noteq> JUndef) kvs = kvs" using assms(2) by (auto simp: filter_id_conv list_all_iff)
  ultimately show ?thesis unfolding safeJson_def safe_levels(1) safe_json_plain [OF assms(1)] by simp
qed

lemma sample_safe_copies:
  "safeJson (audit_val sample_audit) = audit_val sample_audit" "safeJson (entry_val projection_entry) = entry_val projection_entry"
proof -
  have empty: "safe_json 5 (JObj []) = JObj []" unfolding safe_levels(2) by (simp only: safe_json.simps) (simp add: own_entries_def)
  show "safeJson (audit_val sample_audit) = audit_val sample_audit"
    using audit_plain [of sample_audit] unfolding audit_val_def
    by (intro safe_plain_object) (simp_all add: members_of_def sample_audit_def protocol_members_def opt_member_def given_member_def)
  show "safeJson (entry_val projection_entry) = entry_val projection_entry"
    using entry_plain [of projection_entry] unfolding entry_val_def
    by (intro safe_plain_object) (simp_all add: members_of_def projection_entry_def empty)
qed

lemma audited_cacheable: "cacheable (audited es)" if "length es \<le> 10000"
  using that by (simp add: cacheable_def audited_def createProjectionSnapshot_def rows_ok_def session_cacheable_def initialSession_def jm_wf_def
    jm_keys_def)

lemma kept_single: "\<exists>e t. cachedEntries es n = (e, t) \<and> e \<in> {[], [projection_entry]}" if "es \<in> {[], [projection_entry]}"
  using that by (auto simp: cachedEntries_def Let_def split: if_splits)

lemma audited_bytes:
  assumes "es \<in> {[], [projection_entry]}" "now \<in> {7, 8}"
  shows "json_bytes (envelope_val now (stored_data parse False (audited es))) \<le> max_projection_cache_bytes"
proof -
  let ?p = "(initialSession (js ''h'') (Some (js ''s'')) Fresh)\<lparr>sp_audit := [sample_audit], sp_entries := es\<rparr>"
  have cached: "cachedSessions (audited es) = [(sample_key, ?p)]"
    by (simp add: cachedSessions_def cache_order_def audited_def List.map_filter_def max_projection_cache_sessions_def jm_get_Cons
        createProjectionSnapshot_def jm_keys_def)
  obtain e t where e: "kept_entries max_projection_cache_transcript_bytes [(sample_key, ?p)] = [(sample_key, ?p, e, t)]" "e \<in> {[], [projection_entry]}"
    using kept_single [OF assms(1), of "max 2 max_projection_cache_transcript_bytes"] by auto
  have n: "length (int_str now) = 1" "length (int_str 1) = 1" "length (int_str projection_cache_version) = 1"
    using assms(2) by (auto simp: int_str_def nat_str.simps projection_cache_version_def)
  have k: "length sample_key = 3" by (simp add: sample_key_def key_def nul_def js_def)
  have small: "json_bound (audit_val sample_audit) \<le> 1000" "json_bound (entry_val projection_entry) \<le> 1000"
    by (simp_all add: audit_val_def sample_audit_def protocol_members_def opt_member_def given_member_def entry_val_def projection_entry_def js_def)
  have "json_bound (envelope_val now (stored_data parse False (audited es))) \<le> 10000"
    using e(2) small unfolding envelope_val_def cache_data_val_def stored_sessions cached e(1) stored_rest
    by (auto simp: kept_data_def cached_session_val_def initialSession_def sample_safe_copies audited_def createProjectionSnapshot_def
        int_val_def n k pairs_val_def arrayFromMap_def last_n_def opt_member_def freshness_name_def cachedPreviews_def
        max_projection_cache_sessions_def jm_values_def js_def)
  then show ?thesis
    using json_bound_ge [of "envelope_val now (stored_data parse False (audited es))"] by (simp add: max_projection_cache_bytes_def)
qed

lemma audited_encodes:
  assumes "es \<in> {[], [projection_entry]}" "now \<in> {7, 8}"
  shows "encodeProjectionCache parse (audited es) now = Inr (envelope_val now (stored_data parse False (audited es)))"
  using audited_bytes [OF assms, of parse] by (simp add: encodeProjectionCache_def stored_data_def Let_def)

theorem cache_roundtrip_witness:
  "\<exists>env compact. encodeProjectionCache (parse_url sample_platform) (audited [projection_entry]) 7 = Inr env \<and>
     decodeProjectionCache (parse_url sample_platform) env =
       Some (snapshot_image (parse_url sample_platform) compact (audited [projection_entry]))"
  using cache_roundtrip [OF audited_cacheable audited_encodes, of "[projection_entry]" 7 "parse_url sample_platform"]
    audited_encodes [of "[projection_entry]" 7 "parse_url sample_platform"] by auto

subsection \<open>A store that is started again\<close>

text \<open>
  C6: a restarted client shows what the one before it showed. Let a new store with a cache run
  through any events in which every snapshot encodes and no save throws, and let it then have been
  changed at least once, have no save running, and show a snapshot that is \<open>cacheable\<close>: its maps
  have no key twice, they hold no more rows than the cache admits, and each of their rows is one
  that the decoder accepts. A store started afterwards, whose load returns the last value handed to
  the cache, shows the cached image of the snapshot that the first one ended with, every session cut
  to the second store's caps; it does so whatever its options are.
\<close>

theorem restart_restores:
  assumes "run_encodes pl throws es (newProjectionStore options True)"
    and "st = fold (store_step pl throws) es (newProjectionStore options True)"
    and "st_cacheSave st = None" "0 < st_mutationGeneration st" "cacheable (st_current st)"
  shows "\<exists>compact. st_current (store_step pl throws (now, CacheLoaded (Some (last (st_saves st)))) (newProjectionStore options' True)) =
    (let restored = snapshot_image (parse_url pl) compact (st_current st)
     in restored\<lparr>sn_sessions :=
       map (\<lambda>(k, session). (k, retainRestoredSessionResources session (resolveProjectionOptions options'))) (sn_sessions restored)\<rparr>)"
proof -
  have "saved_now (parse_url pl) st"
    using idle_saved [OF assms(1)] assms(2-4) by simp
  then obtain at where "encodeProjectionCache (parse_url pl) (st_current st) at = Inr (last (st_saves st))" by (auto simp: saved_now_def)
  from encode_stored [OF this] decode_stored [OF assms(5)]
  obtain compact where env: "last (st_saves st) = envelope_val at (stored_data (parse_url pl) compact (st_current st))"
    "decodeProjectionCache (parse_url pl) (last (st_saves st)) = Some (snapshot_image (parse_url pl) compact (st_current st))"
    by metis
  have "decodeProjectionCacheValue (parse_url pl) (last (st_saves st)) = Some (snapshot_image (parse_url pl) compact (st_current st))"
    using env(2) by (simp add: decodeProjectionCacheValue_def) (simp add: env(1) envelope_val_def)
  then show ?thesis
    by (intro exI [of _ compact]) (simp add: restoreCache_def newProjectionStore_def notify_def Let_def)
qed

lemma audited_applied: "applyProjectionInput pl createProjectionSnapshot (FAudit sample_audit) default_options = Inr (Some (audited []))"
proof -
  let ?s = createProjectionSnapshot
  let ?u = "\<lambda>session. Some (session\<lparr>sp_audit := appendBounded (sp_audit session) sample_audit (maxAudit default_options)\<rparr>)"
  have warm: "warm_ok default_options ?s" using createProjectionSnapshot_ok [of default_options] by (simp add: snapshot_ok_def)
  obtain x where x: "withSession ?s sample_key ?u default_options None = Inr x" "or_same ?s x = after_update ?s sample_key ?u default_options None"
    by (rule withSession_eq [OF warm caps_ok_default, of sample_key ?u None])
  have "key_host sample_key = js ''h''" "key_session sample_key = Some (js ''s'')"
    by (simp_all add: sample_key_def key_def key_host_def key_session_def nul_def js_def)
  then have after: "or_same ?s x = audited []"
    unfolding x(2) by (simp add: after_update_def warmed_sessions_def warmed_lru_def slice_last_def createProjectionSnapshot_def
      default_options_def jm_set_code audited_def session_or_new_def active_or_last_def last_key_def appendBounded_def initialSession_def)
  then obtain s where s: "x = Some s" by (cases x) (auto simp: createProjectionSnapshot_def audited_def)
  have "uf_sessionId sample_audit = Some (js ''s'')" "key (uf_hostId sample_audit) (js ''s'') = sample_key" "uf_detail sample_audit = JUndef"
    by (simp_all add: sample_audit_def sample_key_def)
  then show ?thesis
    using x(1) after by (simp add: applyProjectionInput_def reduceResourceProjection_def reduceAudit_def s)
qed

abbreviation sample_run :: "(int \<times> store_event) list" where
  "sample_run \<equiv> [(7, Framed (FAudit sample_audit)), (8, SaveSettled)]"

lemma empty_encodes:
  "encodeProjectionCache parse createProjectionSnapshot 7 = Inr (envelope_val 7 (stored_data parse False createProjectionSnapshot))"
proof -
  have n: "length (int_str 7) = 1" "length (int_str projection_cache_version) = 1"
    by (auto simp: int_str_def nat_str.simps projection_cache_version_def)
  have "cachedSessions createProjectionSnapshot = []"
    by (simp add: cachedSessions_def cache_order_def createProjectionSnapshot_def List.map_filter_def jm_keys_def)
  then have "json_bound (envelope_val 7 (stored_data parse False createProjectionSnapshot)) \<le> 10000"
    unfolding envelope_val_def cache_data_val_def stored_sessions stored_rest
    by (simp add: createProjectionSnapshot_def int_val_def n pairs_val_def arrayFromMap_def opt_member_def) (simp add: js_def)
  then show ?thesis
    using json_bound_ge [of "envelope_val 7 (stored_data parse False createProjectionSnapshot)"]
    by (simp add: encodeProjectionCache_def stored_data_def Let_def max_projection_cache_bytes_def)
qed

lemma sample_run_state:
  defines "st \<equiv> fold (store_step sample_platform (\<lambda>_. False)) sample_run (newProjectionStore no_options True)"
  shows "run_encodes sample_platform (\<lambda>_. False) sample_run (newProjectionStore no_options True)"
    "st_cacheSave st = None" "st_mutationGeneration st = 1" "st_current st = audited []"
    "st_saves st = [envelope_val 7 (stored_data (parse_url sample_platform) False (audited []))]"
proof -
  let ?new = "newProjectionStore no_options True"
  let ?env = "envelope_val 7 (stored_data (parse_url sample_platform) False (audited []))"
  define st1 where "st1 = store_step sample_platform (\<lambda>_. False) (7, Framed (FAudit sample_audit)) ?new"
  have enc: "encodeProjectionCache (parse_url sample_platform) (audited []) 7 = Inr ?env" by (rule audited_encodes) simp_all
  have st1: "st_cacheSave st1 = Some Saving" "st_pendingSnapshot st1 = None" "st_mutationGeneration st1 = 1" "st_current st1 = audited []"
    "st_saves st1 = [?env]"
    by (simp_all add: st1_def store_applyPublicFrame_def newProjectionStore_def no_options_default audited_applied mutate_def queueCacheSave_def
        drainCacheSaves_def notify_def Let_def enc)
  have st: "st = save_settled (parse_url sample_platform) (\<lambda>_. False) 8 st1" by (simp add: st_def st1_def)
  show "st_cacheSave st = None" "st_mutationGeneration st = 1" and cur: "st_current st = audited []" and "st_saves st = [?env]"
    by (simp_all add: st save_settled_def drainCacheSaves_def st1)
  have "st_current ?new = createProjectionSnapshot" by (simp add: newProjectionStore_def)
  then show "run_encodes sample_platform (\<lambda>_. False) sample_run ?new"
    using cur by (simp add: Let_def st1_def [symmetric] st [symmetric] st1 encodes_at_def enc empty_encodes del: store_step.simps)
      (simp add: st audited_encodes)
qed

theorem restart_restores_witness:
  "\<exists>compact. st_current (store_step sample_platform (\<lambda>_. False)
      (9, CacheLoaded (Some (envelope_val 7 (stored_data (parse_url sample_platform) False (audited []))))) (newProjectionStore no_options True)) =
    (let restored = snapshot_image (parse_url sample_platform) compact (audited [])
     in restored\<lparr>sn_sessions :=
       map (\<lambda>(k, session). (k, retainRestoredSessionResources session (resolveProjectionOptions no_options))) (sn_sessions restored)\<rparr>)"
  using restart_restores [OF sample_run_state(1) refl sample_run_state(2), of 9 no_options] audited_cacheable [of "[]"]
  by (simp only: sample_run_state) simp

theorem idle_store_saved_current_witness:
  "saved_now (parse_url sample_platform) (fold (store_step sample_platform (\<lambda>_. False)) sample_run (newProjectionStore no_options True))"
  using idle_store_saved_current [OF sample_run_state(1,2)] sample_run_state(3) by auto

end
