(* ===== verification/LedgerState.thy ===== *)
theory LedgerState
  imports JsValue
begin

text \<open>
  The state of the shared control ledger (portable-control-store/src/shared-control-store.ts): the
  stored records, the bounds a store is made with, the patterns of identifiers, and the validation
  that every read and every change of the ledger passes. SHA-256, \<open>Date.parse\<close>, which also reads
  formats of its own, and \<open>toISOString\<close> are parameters. The records are the typed ones; the
  members that older ledgers lack are not modelled, and \<open>resourceKind\<close>, \<open>transition\<close> and the
  states of records, unions of string literals in the code, are datatypes.
\<close>

record ledger_env =
  sha256 :: "jsstr \<Rightarrow> jsstr"
  date_parse :: "jsstr \<Rightarrow> int option"
  date_iso :: "int \<Rightarrow> jsstr"

datatype ledger_error = TypeErr | CapacityErr | UnavailableErr | RangeErr

definition day_ms :: int where "day_ms = 86400000"
definition max_ticket_ttl_seconds :: int where "max_ticket_ttl_seconds = 60"
definition provider_connection_lease_ms :: int where "provider_connection_lease_ms = 30000"
definition max_list_limit :: int where "max_list_limit = 200"

subsection \<open>Patterns\<close>

definition is_letter :: "jschar \<Rightarrow> bool" where
  "is_letter c \<longleftrightarrow> 65 \<le> c \<and> c \<le> 90 \<or> 97 \<le> c \<and> c \<le> 122"

definition is_alnum :: "jschar \<Rightarrow> bool" where
  "is_alnum c \<longleftrightarrow> is_letter c \<or> 48 \<le> c \<and> c \<le> 57"

text \<open>\<open>[A-Za-z0-9]\<close> together with the characters of a string.\<close>

definition name_char :: "string \<Rightarrow> jschar \<Rightarrow> bool" where
  "name_char extra c \<longleftrightarrow> is_alnum c \<or> c \<in> set (js extra)"

text \<open>\<open>/^P Q{lo,hi}$/\<close> for classes of characters \<open>P\<close> and \<open>Q\<close>.\<close>

definition head_rest :: "(jschar \<Rightarrow> bool) \<Rightarrow> (jschar \<Rightarrow> bool) \<Rightarrow> nat \<Rightarrow> nat \<Rightarrow> jsstr \<Rightarrow> bool" where
  "head_rest p q lo hi s =
     (case s of [] \<Rightarrow> False | c # cs \<Rightarrow> p c \<and> list_all q cs \<and> lo \<le> length cs \<and> length cs \<le> hi)"

definition is_OPAQUE :: "jsstr \<Rightarrow> bool" where
  "is_OPAQUE = head_rest is_alnum (name_char ''._~-'') 0 511"

definition is_GENERATION :: "jsstr \<Rightarrow> bool" where
  "is_GENERATION = head_rest is_alnum (name_char ''._~-'') 0 127"

definition is_DIGEST :: "jsstr \<Rightarrow> bool" where
  "is_DIGEST s \<longleftrightarrow> length s = 64 \<and> list_all (\<lambda>c. 48 \<le> c \<and> c \<le> 57 \<or> 97 \<le> c \<and> c \<le> 102) s"

definition is_TICKET :: "jsstr \<Rightarrow> bool" where
  "is_TICKET s \<longleftrightarrow> list_all (name_char ''_-'') s \<and> 32 \<le> length s \<and> length s \<le> 128"

definition is_EVENT_ID :: "jsstr \<Rightarrow> bool" where
  "is_EVENT_ID = head_rest is_alnum (name_char ''._~-'') 0 127"

definition is_kid :: "jsstr \<Rightarrow> bool" where
  "is_kid = head_rest is_alnum (name_char ''._~-'') 0 63"

definition is_audience :: "jsstr \<Rightarrow> bool" where
  "is_audience = head_rest is_letter (name_char ''._:-'') 0 127"

definition is_purpose :: "jsstr \<Rightarrow> bool" where
  "is_purpose = head_rest is_letter (name_char ''._-'') 0 127"

text \<open>
  \<open>text(value, pattern, label)\<close> also refuses control characters (\<open>\p{Cc}\<close>), which no pattern
  above contains.
\<close>

definition is_cc :: "jschar \<Rightarrow> bool" where
  "is_cc c \<longleftrightarrow> c \<le> 0x1F \<or> 0x7F \<le> c \<and> c \<le> 0x9F"

definition ok_text :: "(jsstr \<Rightarrow> bool) \<Rightarrow> jsstr \<Rightarrow> bool" where
  "ok_text pattern s \<longleftrightarrow> pattern s \<and> \<not> list_ex is_cc s"

text \<open>\<open>boundedInteger(value, minimum, maximum, label)\<close>\<close>

definition bounded :: "int \<Rightarrow> int \<Rightarrow> int \<Rightarrow> bool" where
  "bounded lo hi n \<longleftrightarrow> is_safe_integer n \<and> lo \<le> n \<and> n \<le> hi"

definition sameDigest :: "jsstr \<Rightarrow> jsstr \<Rightarrow> bool" where
  "sameDigest left right \<longleftrightarrow> is_DIGEST left \<and> is_DIGEST right \<and> left = right"

definition saturatedAdd :: "int \<Rightarrow> int \<Rightarrow> int" where
  "saturatedAdd left right = (if left > max_safe_integer - right then max_safe_integer else left + right)"

text \<open>\<open>toISOString\<close> throws a \<open>RangeError\<close> beyond the last date.\<close>

definition iso :: "ledger_env \<Rightarrow> int \<Rightarrow> ledger_error + jsstr" where
  "iso env n = (if \<bar>n\<bar> \<le> 8640000000000000 then Inr (date_iso env n) else Inl RangeErr)"

definition timestamp :: "ledger_env \<Rightarrow> jsstr \<Rightarrow> jsstr option" where
  "timestamp env s =
     (case date_parse env s of None \<Rightarrow> None | Some ms \<Rightarrow> if length s > 64 then None else Some (date_iso env ms))"

subsection \<open>Records\<close>

datatype resource_kind = KScope | KWorkspace | KRuntime

record ticket_binding =
  tb_principalId :: jsstr
  tb_scopeId :: jsstr
  tb_audience :: jsstr
  tb_runtimeId :: jsstr
  tb_runtimeGeneration :: jsstr
  tb_providerControlGeneration :: jsstr
  tb_purpose :: jsstr

record stored_ticket =
  tk_digest :: jsstr
  tk_binding :: ticket_binding
  tk_mintedAt :: int
  tk_expiresAt :: int
  tk_consumedAt :: "int option"
  tk_revokedAt :: "int option"

record idempotency_key =
  ik_principalId :: jsstr
  ik_scopeId :: jsstr
  ik_method :: jsstr
  ik_canonicalPath :: jsstr
  ik_idempotencyKey :: jsstr
  ik_canonicalBodyDigest :: jsstr

record stored_idempotency =
  si_keyDigest :: jsstr
  si_bindingDigest :: jsstr
  si_reservationDigest :: jsstr
  si_complete :: bool
  si_createdAt :: int
  si_completedAt :: "int option"
  si_expiresAt :: int
  si_result :: "jsval option"

record stored_tombstone =
  tm_scopeId :: jsstr
  tm_resourceKind :: resource_kind
  tm_resourceId :: jsstr
  tm_deletedAt :: jsstr
  tm_createdAt :: int
  tm_expiresAt :: jsstr
  tm_expiresAtMs :: int

record infrastructure_event =
  ev_eventId :: jsstr
  ev_resourceKind :: resource_kind
  ev_resourceId :: jsstr
  ev_scopeId :: jsstr
  ev_revision :: jsstr
  ev_phase :: jsstr
  ev_timestamp :: jsstr

record stored_event =
  se_sequence :: int
  se_event :: infrastructure_event
  se_storedAt :: int

record event_head =
  eh_scopeId :: jsstr
  eh_sequence :: int

record deletion_intent =
  di_expectedRevision :: jsstr
  di_backendRevision :: jsstr
  di_requestedAt :: jsstr

record creation_claim =
  cc_ownerToken :: jsstr
  cc_leaseExpiresAt :: int

record issued_identifier =
  ii_scopeId :: jsstr
  ii_resourceKind :: resource_kind
  ii_resourceId :: jsstr
  ii_bindingDigest :: jsstr
  ii_incarnationUid :: "jsstr option"
  ii_deletedAt :: "jsstr option"
  ii_deletion :: "deletion_intent option"
  ii_creation :: "creation_claim option"

datatype admission_transition = TCreate | TActivate | TEnableBrowser

text \<open>The six amounts an admission counts, in the order of the limits.\<close>

record amounts =
  am_activeRuntimes :: int
  am_retainedRuntimes :: int
  am_workspaceCapacityBytes :: int
  am_cpuMillis :: int
  am_memoryBytes :: int
  am_gpuUnits :: int

record admission_reservation =
  ar_tokenDigest :: jsstr
  ar_resourceDigest :: jsstr
  ar_scopeId :: jsstr
  ar_transition :: admission_transition
  ar_resourceKind :: resource_kind
  ar_delta :: amounts
  ar_createdAt :: int
  ar_expiresAt :: int
  ar_committed :: bool

record rate_event =
  re_scopeId :: jsstr
  re_createdAt :: int

record admission_retirement =
  rm_scopeId :: jsstr
  rm_resourceKind :: resource_kind
  rm_resourceKey :: jsstr
  rm_complete :: bool
  rm_createdAt :: int
  rm_completedAt :: "int option"

record ingress_lease =
  il_leaseIdDigest :: jsstr
  il_gatewayReplicaEpoch :: jsstr
  il_expiresAt :: int

record runtime_ingress =
  ri_runtimeId :: jsstr
  ri_generation :: jsstr
  ri_open :: bool
  ri_leases :: "ingress_lease list"

record control_generation =
  cg_principalId :: jsstr
  cg_generation :: jsstr
  cg_ownerId :: jsstr
  cg_updatedAt :: int

record assertion_keyring =
  kr_revision :: int
  kr_activeKid :: jsstr
  kr_previousKid :: "jsstr option"
  kr_previousNotAfter :: "int option"

record assertion_nonce =
  an_digest :: jsstr
  an_expiresAt :: int

datatype connection_state = CTicket | CActive | CClosed

record provider_connection =
  pc_binding :: ticket_binding
  pc_connectionId :: jsstr
  pc_ticketDigest :: jsstr
  pc_state :: connection_state
  pc_updatedAt :: int

record ledger =
  lg_eventHeads :: "event_head list"
  lg_tickets :: "stored_ticket list"
  lg_idempotency :: "stored_idempotency list"
  lg_tombstones :: "stored_tombstone list"
  lg_issuedIdentifiers :: "issued_identifier list"
  lg_events :: "stored_event list"
  lg_admissionReservations :: "admission_reservation list"
  lg_admissionRateEvents :: "rate_event list"
  lg_runtimeIngress :: "runtime_ingress list"
  lg_admissionRetirements :: "admission_retirement list"
  lg_providerControlGenerations :: "control_generation list"
  lg_providerAssertionKeyring :: "assertion_keyring option"
  lg_providerConnections :: "provider_connection list"
  lg_providerAssertionNonces :: "assertion_nonce list"

definition initialState :: ledger where
  "initialState =
     \<lparr>lg_eventHeads = [], lg_tickets = [], lg_idempotency = [], lg_tombstones = [], lg_issuedIdentifiers = [], lg_events = [],
      lg_admissionReservations = [], lg_admissionRateEvents = [], lg_runtimeIngress = [], lg_admissionRetirements = [],
      lg_providerControlGenerations = [], lg_providerAssertionKeyring = None, lg_providerConnections = [],
      lg_providerAssertionNonces = []\<rparr>"

subsection \<open>The bounds of a store\<close>

record ledger_bounds =
  maximumStateBytes :: int
  maximumTickets :: int
  maximumIdempotencyRecords :: int
  maximumIssuedIdentifiers :: int
  maximumAdmissionReservations :: int
  tombstoneRetentionMs :: int
  maximumTombstonesPerScope :: int
  eventRetentionMs :: int
  maximumEvents :: int
  maximumContentionRetries :: int
  maximumProviderConnections :: int
  maximumProviderAssertionNonces :: int

record store_options =
  so_maximumStateBytes :: "int option"
  so_maximumTickets :: "int option"
  so_maximumIdempotencyRecords :: "int option"
  so_maximumIssuedIdentifiers :: "int option"
  so_maximumAdmissionReservations :: "int option"
  so_tombstoneRetentionSeconds :: "int option"
  so_maximumTombstonesPerScope :: "int option"
  so_eventRetentionSeconds :: "int option"
  so_maximumEvents :: "int option"
  so_maximumContentionRetries :: "int option"
  so_maximumProviderConnections :: "int option"
  so_maximumProviderAssertionNonces :: "int option"

definition or_default :: "int option \<Rightarrow> int \<Rightarrow> int" where
  "or_default v fallback = (case v of None \<Rightarrow> fallback | Some n \<Rightarrow> n)"

definition newSharedControlStore :: "store_options \<Rightarrow> ledger_error + ledger_bounds" where
  "newSharedControlStore options =
     (let stateBytes = or_default (so_maximumStateBytes options) (512 * 1024);
          tickets = or_default (so_maximumTickets options) 2048;
          idempotency = or_default (so_maximumIdempotencyRecords options) 2048;
          issued = or_default (so_maximumIssuedIdentifiers options) 10000;
          reservations = or_default (so_maximumAdmissionReservations options) 4096;
          tombstoneSeconds = or_default (so_tombstoneRetentionSeconds options) 86400;
          tombstones = or_default (so_maximumTombstonesPerScope options) 4096;
          eventSeconds = or_default (so_eventRetentionSeconds options) 60;
          events = or_default (so_maximumEvents options) 10000;
          retries = or_default (so_maximumContentionRetries options) 8;
          connections = or_default (so_maximumProviderConnections options) 4096;
          nonces = or_default (so_maximumProviderAssertionNonces options) 4096
      in if bounded 1024 (768 * 1024) stateBytes \<and> bounded 1 100000 tickets \<and> bounded 1 100000 idempotency \<and>
            bounded 1 100000 issued \<and> bounded 1 100000 reservations \<and> bounded 86400 604800 tombstoneSeconds \<and>
            bounded 1 100000 tombstones \<and> bounded 1 604800 eventSeconds \<and> bounded 1 100000 events \<and> bounded 1 32 retries \<and>
            bounded 1 100000 connections \<and> bounded 1 100000 nonces
         then Inr \<lparr>maximumStateBytes = stateBytes, maximumTickets = tickets, maximumIdempotencyRecords = idempotency,
           maximumIssuedIdentifiers = issued, maximumAdmissionReservations = reservations,
           tombstoneRetentionMs = tombstoneSeconds * 1000, maximumTombstonesPerScope = tombstones,
           eventRetentionMs = eventSeconds * 1000, maximumEvents = events, maximumContentionRetries = retries,
           maximumProviderConnections = connections, maximumProviderAssertionNonces = nonces\<rparr>
         else Inl TypeErr)"

subsection \<open>The stored text\<close>

text \<open>The ledger as the object whose \<open>JSON.stringify\<close> is stored; its length in bytes is bounded.\<close>

definition kind_name :: "resource_kind \<Rightarrow> jsstr" where
  "kind_name k = (case k of KScope \<Rightarrow> js ''scope'' | KWorkspace \<Rightarrow> js ''workspace'' | KRuntime \<Rightarrow> js ''runtime'')"

definition transition_name :: "admission_transition \<Rightarrow> jsstr" where
  "transition_name t = (case t of TCreate \<Rightarrow> js ''create'' | TActivate \<Rightarrow> js ''activate'' | TEnableBrowser \<Rightarrow> js ''enableBrowser'')"

definition binding_members :: "ticket_binding \<Rightarrow> (jsstr \<times> jsval) list" where
  "binding_members b =
     [(js ''principalId'', JStr (tb_principalId b)), (js ''scopeId'', JStr (tb_scopeId b)), (js ''audience'', JStr (tb_audience b)),
      (js ''runtimeId'', JStr (tb_runtimeId b)), (js ''runtimeGeneration'', JStr (tb_runtimeGeneration b)),
      (js ''providerControlGeneration'', JStr (tb_providerControlGeneration b)), (js ''purpose'', JStr (tb_purpose b))]"

definition ticket_val :: "stored_ticket \<Rightarrow> jsval" where
  "ticket_val t = JObj (
     [(js ''digest'', JStr (tk_digest t)), (js ''binding'', JObj (binding_members (tk_binding t))),
      (js ''mintedAt'', int_val (tk_mintedAt t)), (js ''expiresAt'', int_val (tk_expiresAt t))] @
     opt_member ''consumedAt'' int_val (tk_consumedAt t) @ opt_member ''revokedAt'' int_val (tk_revokedAt t))"

definition idempotency_val :: "stored_idempotency \<Rightarrow> jsval" where
  "idempotency_val i = JObj (
     [(js ''keyDigest'', JStr (si_keyDigest i)), (js ''bindingDigest'', JStr (si_bindingDigest i)),
      (js ''reservationDigest'', JStr (si_reservationDigest i)),
      (js ''state'', JStr (if si_complete i then js ''complete'' else js ''pending'')), (js ''createdAt'', int_val (si_createdAt i))] @
     opt_member ''completedAt'' int_val (si_completedAt i) @ [(js ''expiresAt'', int_val (si_expiresAt i))] @
     opt_member ''result'' id (si_result i))"

definition tombstone_val :: "stored_tombstone \<Rightarrow> jsval" where
  "tombstone_val t = JObj
     [(js ''scopeId'', JStr (tm_scopeId t)), (js ''resourceKind'', JStr (kind_name (tm_resourceKind t))),
      (js ''resourceId'', JStr (tm_resourceId t)), (js ''deletedAt'', JStr (tm_deletedAt t)), (js ''createdAt'', int_val (tm_createdAt t)),
      (js ''expiresAt'', JStr (tm_expiresAt t)), (js ''expiresAtMs'', int_val (tm_expiresAtMs t))]"

definition stored_event_val :: "stored_event \<Rightarrow> jsval" where
  "stored_event_val s =
     (let e = se_event s in JObj
       [(js ''sequence'', int_val (se_sequence s)),
        (js ''event'', JObj [(js ''eventId'', JStr (ev_eventId e)), (js ''resourceKind'', JStr (kind_name (ev_resourceKind e))),
           (js ''resourceId'', JStr (ev_resourceId e)), (js ''scopeId'', JStr (ev_scopeId e)), (js ''revision'', JStr (ev_revision e)),
           (js ''phase'', JStr (ev_phase e)), (js ''timestamp'', JStr (ev_timestamp e))]),
        (js ''storedAt'', int_val (se_storedAt s))])"

definition issued_val :: "issued_identifier \<Rightarrow> jsval" where
  "issued_val i = JObj (
     [(js ''scopeId'', JStr (ii_scopeId i)), (js ''resourceKind'', JStr (kind_name (ii_resourceKind i))),
      (js ''resourceId'', JStr (ii_resourceId i)), (js ''bindingDigest'', JStr (ii_bindingDigest i))] @
     opt_member ''incarnationUid'' JStr (ii_incarnationUid i) @ opt_member ''deletedAt'' JStr (ii_deletedAt i) @
     opt_member ''deletion'' (\<lambda>d. JObj [(js ''expectedRevision'', JStr (di_expectedRevision d)),
       (js ''backendRevision'', JStr (di_backendRevision d)), (js ''requestedAt'', JStr (di_requestedAt d))]) (ii_deletion i) @
     opt_member ''creation'' (\<lambda>c. JObj [(js ''ownerToken'', JStr (cc_ownerToken c)), (js ''leaseExpiresAt'', int_val (cc_leaseExpiresAt c))])
       (ii_creation i))"

definition reservation_val :: "admission_reservation \<Rightarrow> jsval" where
  "reservation_val r =
     (let d = ar_delta r in JObj
       [(js ''tokenDigest'', JStr (ar_tokenDigest r)), (js ''resourceDigest'', JStr (ar_resourceDigest r)), (js ''scopeId'', JStr (ar_scopeId r)),
        (js ''resourceKind'', JStr (kind_name (ar_resourceKind r))), (js ''transition'', JStr (transition_name (ar_transition r))),
        (js ''activeRuntimes'', int_val (am_activeRuntimes d)), (js ''retainedRuntimes'', int_val (am_retainedRuntimes d)),
        (js ''workspaceCapacityBytes'', int_val (am_workspaceCapacityBytes d)), (js ''cpuMillis'', int_val (am_cpuMillis d)),
        (js ''memoryBytes'', int_val (am_memoryBytes d)), (js ''gpuUnits'', int_val (am_gpuUnits d)),
        (js ''createdAt'', int_val (ar_createdAt r)), (js ''expiresAt'', int_val (ar_expiresAt r)), (js ''committed'', JBool (ar_committed r))])"

definition retirement_val :: "admission_retirement \<Rightarrow> jsval" where
  "retirement_val r = JObj (
     [(js ''scopeId'', JStr (rm_scopeId r)), (js ''resourceKind'', JStr (kind_name (rm_resourceKind r))),
      (js ''resourceKey'', JStr (rm_resourceKey r)), (js ''state'', JStr (if rm_complete r then js ''complete'' else js ''pending'')),
      (js ''createdAt'', int_val (rm_createdAt r))] @ opt_member ''completedAt'' int_val (rm_completedAt r))"

definition ingress_val :: "runtime_ingress \<Rightarrow> jsval" where
  "ingress_val i = JObj
     [(js ''runtimeId'', JStr (ri_runtimeId i)), (js ''generation'', JStr (ri_generation i)), (js ''open'', JBool (ri_open i)),
      (js ''leases'', JArr (map (\<lambda>l. JObj [(js ''leaseIdDigest'', JStr (il_leaseIdDigest l)),
        (js ''gatewayReplicaEpoch'', JStr (il_gatewayReplicaEpoch l)), (js ''expiresAt'', int_val (il_expiresAt l))]) (ri_leases i)))]"

definition connection_val :: "provider_connection \<Rightarrow> jsval" where
  "connection_val c = JObj (binding_members (pc_binding c) @
     [(js ''connectionId'', JStr (pc_connectionId c)), (js ''ticketDigest'', JStr (pc_ticketDigest c)),
      (js ''state'', JStr (case pc_state c of CTicket \<Rightarrow> js ''ticket'' | CActive \<Rightarrow> js ''active'' | CClosed \<Rightarrow> js ''closed'')),
      (js ''updatedAt'', int_val (pc_updatedAt c))])"

definition ledger_val :: "ledger \<Rightarrow> jsval" where
  "ledger_val l = JObj (
     [(js ''version'', int_val 1),
      (js ''eventHeads'', JArr (map (\<lambda>h. JObj [(js ''scopeId'', JStr (eh_scopeId h)), (js ''sequence'', int_val (eh_sequence h))]) (lg_eventHeads l))),
      (js ''tickets'', JArr (map ticket_val (lg_tickets l))), (js ''idempotency'', JArr (map idempotency_val (lg_idempotency l))),
      (js ''tombstones'', JArr (map tombstone_val (lg_tombstones l))), (js ''issuedIdentifiers'', JArr (map issued_val (lg_issuedIdentifiers l))),
      (js ''events'', JArr (map stored_event_val (lg_events l))),
      (js ''admissionReservations'', JArr (map reservation_val (lg_admissionReservations l))),
      (js ''admissionRateEvents'', JArr (map (\<lambda>r. JObj [(js ''scopeId'', JStr (re_scopeId r)), (js ''createdAt'', int_val (re_createdAt r))])
         (lg_admissionRateEvents l))),
      (js ''runtimeIngress'', JArr (map ingress_val (lg_runtimeIngress l))),
      (js ''admissionRetirements'', JArr (map retirement_val (lg_admissionRetirements l))),
      (js ''providerControlGenerations'', JArr (map (\<lambda>g. JObj [(js ''principalId'', JStr (cg_principalId g)),
         (js ''generation'', JStr (cg_generation g)), (js ''ownerId'', JStr (cg_ownerId g)), (js ''updatedAt'', int_val (cg_updatedAt g))])
         (lg_providerControlGenerations l))),
      (js ''providerConnections'', JArr (map connection_val (lg_providerConnections l))),
      (js ''providerAssertionNonces'', JArr (map (\<lambda>n. JObj [(js ''digest'', JStr (an_digest n)), (js ''expiresAt'', int_val (an_expiresAt n))])
         (lg_providerAssertionNonces l)))] @
     opt_member ''providerAssertionKeyring'' (\<lambda>k. JObj ([(js ''revision'', int_val (kr_revision k)), (js ''activeKid'', JStr (kr_activeKid k))] @
       opt_member ''previousKid'' JStr (kr_previousKid k) @ opt_member ''previousNotAfter'' int_val (kr_previousNotAfter k)))
       (lg_providerAssertionKeyring l))"

subsection \<open>Validation\<close>

text \<open>\<open>#jsonValue\<close>: a result must stringify, to at most 64 KiB.\<close>

definition json_result_ok :: "jsval \<Rightarrow> bool" where
  "json_result_ok v \<longleftrightarrow> json_text v \<noteq> None \<and> json_bytes v \<le> 65536"

definition validateBinding :: "ticket_binding \<Rightarrow> bool" where
  "validateBinding b \<longleftrightarrow>
     ok_text is_OPAQUE (tb_principalId b) \<and> ok_text is_OPAQUE (tb_scopeId b) \<and> ok_text is_audience (tb_audience b) \<and>
     ok_text is_OPAQUE (tb_runtimeId b) \<and> ok_text is_GENERATION (tb_runtimeGeneration b) \<and>
     ok_text is_GENERATION (tb_providerControlGeneration b) \<and> ok_text is_purpose (tb_purpose b)"

definition phases :: "jsstr list" where
  "phases = map js [''Pending'', ''Provisioning'', ''Starting'', ''Ready'', ''Sleeping'', ''Stopped'', ''Deleting'', ''Unavailable'', ''Degraded'', ''Failed'']"

text \<open>The event with its normalised timestamp, or nothing when it is refused.\<close>

definition validateEvent :: "ledger_env \<Rightarrow> infrastructure_event \<Rightarrow> infrastructure_event option" where
  "validateEvent env e =
     (if ev_phase e \<in> set phases \<and> ok_text is_EVENT_ID (ev_eventId e) \<and> ok_text is_OPAQUE (ev_resourceId e) \<and>
         ok_text is_OPAQUE (ev_scopeId e) \<and> ok_text is_GENERATION (ev_revision e)
      then map_option (\<lambda>t. e\<lparr>ev_timestamp := t\<rparr>) (timestamp env (ev_timestamp e)) else None)"

definition issued_kind_ok :: "resource_kind \<Rightarrow> bool" where
  "issued_kind_ok k \<longleftrightarrow> k \<noteq> KScope"

definition issued_record_ok :: "issued_identifier \<Rightarrow> bool" where
  "issued_record_ok i \<longleftrightarrow>
     ok_text is_OPAQUE (ii_scopeId i) \<and> issued_kind_ok (ii_resourceKind i) \<and> ok_text is_OPAQUE (ii_resourceId i) \<and>
     ok_text is_DIGEST (ii_bindingDigest i)"

definition ticket_ok :: "stored_ticket \<Rightarrow> bool" where
  "ticket_ok t \<longleftrightarrow>
     is_DIGEST (tk_digest t) \<and> is_safe_integer (tk_mintedAt t) \<and> is_safe_integer (tk_expiresAt t) \<and> tk_mintedAt t < tk_expiresAt t \<and>
     tk_expiresAt t \<le> tk_mintedAt t + max_ticket_ttl_seconds * 1000 \<and>
     (case tk_consumedAt t of None \<Rightarrow> True | Some c \<Rightarrow> is_safe_integer c \<and> tk_mintedAt t \<le> c \<and> c < tk_expiresAt t) \<and>
     (case tk_revokedAt t of None \<Rightarrow> True | Some c \<Rightarrow> is_safe_integer c \<and> tk_mintedAt t \<le> c \<and> c < tk_expiresAt t) \<and>
     (tk_consumedAt t = None \<or> tk_revokedAt t = None) \<and> validateBinding (tk_binding t)"

definition idempotency_ok :: "stored_idempotency \<Rightarrow> bool" where
  "idempotency_ok i \<longleftrightarrow>
     is_DIGEST (si_keyDigest i) \<and> is_DIGEST (si_bindingDigest i) \<and> is_DIGEST (si_reservationDigest i) \<and> is_safe_integer (si_createdAt i) \<and>
     (case if si_complete i then si_completedAt i else Some (si_createdAt i) of
        None \<Rightarrow> False | Some anchor \<Rightarrow> is_safe_integer anchor \<and> si_expiresAt i = anchor + day_ms) \<and>
     si_complete i = (si_result i \<noteq> None) \<and> si_complete i = (si_completedAt i \<noteq> None) \<and>
     (case si_result i of None \<Rightarrow> True | Some v \<Rightarrow> json_result_ok v)"

definition reservation_ok :: "admission_reservation \<Rightarrow> bool" where
  "reservation_ok r \<longleftrightarrow>
     ok_text is_OPAQUE (ar_scopeId r) \<and> issued_kind_ok (ar_resourceKind r) \<and> is_DIGEST (ar_tokenDigest r) \<and> is_DIGEST (ar_resourceDigest r) \<and>
     is_safe_integer (ar_createdAt r) \<and> is_safe_integer (ar_expiresAt r) \<and> ar_createdAt r < ar_expiresAt r \<and>
     (let d = ar_delta r; ok = bounded 0 max_safe_integer
      in ok (am_activeRuntimes d) \<and> ok (am_retainedRuntimes d) \<and> ok (am_workspaceCapacityBytes d) \<and> ok (am_cpuMillis d) \<and>
         ok (am_memoryBytes d) \<and> ok (am_gpuUnits d))"

definition retirement_ok :: "admission_retirement \<Rightarrow> bool" where
  "retirement_ok r \<longleftrightarrow>
     ok_text is_OPAQUE (rm_scopeId r) \<and> ok_text is_OPAQUE (rm_resourceKey r) \<and> issued_kind_ok (rm_resourceKind r) \<and>
     is_safe_integer (rm_createdAt r) \<and>
     rm_complete r = (case rm_completedAt r of None \<Rightarrow> False | Some c \<Rightarrow> is_safe_integer c) \<and>
     (case rm_completedAt r of None \<Rightarrow> True | Some c \<Rightarrow> rm_createdAt r \<le> c)"

definition ingress_ok :: "runtime_ingress \<Rightarrow> bool" where
  "ingress_ok i \<longleftrightarrow>
     ok_text is_OPAQUE (ri_runtimeId i) \<and> ok_text is_GENERATION (ri_generation i) \<and> length (ri_leases i) \<le> 100000 \<and>
     distinct (map il_leaseIdDigest (ri_leases i)) \<and>
     list_all (\<lambda>l. ok_text is_GENERATION (il_gatewayReplicaEpoch l) \<and> is_DIGEST (il_leaseIdDigest l) \<and>
       is_safe_integer (il_expiresAt l) \<and> 1 \<le> il_expiresAt l) (ri_leases i)"

definition keyring_ok :: "assertion_keyring \<Rightarrow> bool" where
  "keyring_ok k \<longleftrightarrow>
     bounded 1 max_safe_integer (kr_revision k) \<and> ok_text is_kid (kr_activeKid k) \<and>
     (kr_previousKid k \<noteq> None \<and> kr_previousKid k \<noteq> Some []) = (kr_previousNotAfter k \<noteq> None) \<and>
     (case kr_previousKid k of None \<Rightarrow> True | Some s \<Rightarrow> ok_text is_kid s) \<and>
     (case kr_previousNotAfter k of None \<Rightarrow> True | Some n \<Rightarrow> bounded 1 max_safe_integer n)"

definition generation_ok :: "control_generation \<Rightarrow> bool" where
  "generation_ok g \<longleftrightarrow>
     ok_text is_OPAQUE (cg_principalId g) \<and> ok_text is_GENERATION (cg_generation g) \<and> ok_text is_OPAQUE (cg_ownerId g) \<and>
     bounded 0 max_safe_integer (cg_updatedAt g)"

definition connection_ok :: "provider_connection \<Rightarrow> bool" where
  "connection_ok c \<longleftrightarrow>
     validateBinding (pc_binding c) \<and> ok_text is_OPAQUE (pc_connectionId c) \<and> is_DIGEST (pc_ticketDigest c) \<and>
     bounded 0 max_safe_integer (pc_updatedAt c)"

definition tombstone_ok :: "ledger_env \<Rightarrow> ledger_bounds \<Rightarrow> stored_tombstone \<Rightarrow> bool" where
  "tombstone_ok env o' t \<longleftrightarrow>
     ok_text is_OPAQUE (tm_scopeId t) \<and> ok_text is_OPAQUE (tm_resourceId t) \<and>
     (case Option.bind (timestamp env (tm_deletedAt t)) (date_parse env) of None \<Rightarrow> False | Some d \<Rightarrow> d \<le> tm_createdAt t) \<and>
     is_safe_integer (tm_createdAt t) \<and> tm_expiresAtMs t = tm_createdAt t + tombstoneRetentionMs o' \<and>
     iso env (tm_expiresAtMs t) = Inr (tm_expiresAt t)"

definition issued_ok :: "ledger_env \<Rightarrow> issued_identifier \<Rightarrow> bool" where
  "issued_ok env i \<longleftrightarrow>
     issued_record_ok i \<and> (case ii_incarnationUid i of None \<Rightarrow> True | Some u \<Rightarrow> ok_text is_OPAQUE u) \<and>
     (case ii_deletedAt i of None \<Rightarrow> True | Some d \<Rightarrow> timestamp env d \<noteq> None \<and> ii_incarnationUid i \<noteq> None) \<and>
     (case ii_deletion i of None \<Rightarrow> True
      | Some d \<Rightarrow> ok_text is_OPAQUE (di_expectedRevision d) \<and> ok_text is_OPAQUE (di_backendRevision d) \<and>
          timestamp env (di_requestedAt d) \<noteq> None \<and> ii_incarnationUid i \<noteq> None \<and> ii_deletedAt i = None) \<and>
     (case ii_creation i of None \<Rightarrow> True
      | Some c \<Rightarrow> ok_text is_OPAQUE (cc_ownerToken c) \<and> bounded 1 max_safe_integer (cc_leaseExpiresAt c) \<and>
          ii_incarnationUid i = None \<and> ii_deletedAt i = None)"

text \<open>The sequence of the head of a scope, and the loop over the events with the last sequence of each scope.\<close>

definition head_of :: "event_head list \<Rightarrow> jsstr \<Rightarrow> int option" where
  "head_of heads scopeId = map_option eh_sequence (List.find (\<lambda>h. eh_scopeId h = scopeId) heads)"

fun events_in_order :: "ledger_env \<Rightarrow> event_head list \<Rightarrow> (jsstr \<Rightarrow> int) \<Rightarrow> stored_event list \<Rightarrow> bool" where
  "events_in_order env heads prior [] \<longleftrightarrow> True"
| "events_in_order env heads prior (s # rest) \<longleftrightarrow>
     (let scopeId = ev_scopeId (se_event s) in
      is_safe_integer (se_sequence s) \<and> prior scopeId < se_sequence s \<and>
      (case head_of heads scopeId of None \<Rightarrow> False | Some h \<Rightarrow> se_sequence s \<le> h) \<and> is_safe_integer (se_storedAt s) \<and>
      validateEvent env (se_event s) \<noteq> None \<and> events_in_order env heads (prior(scopeId := se_sequence s)) rest)"

definition state_bytes_ok :: "ledger_bounds \<Rightarrow> ledger \<Rightarrow> bool" where
  "state_bytes_ok o' l \<longleftrightarrow> int (json_bytes (ledger_val l)) \<le> maximumStateBytes o'"

definition validateState :: "ledger_env \<Rightarrow> ledger_bounds \<Rightarrow> ledger \<Rightarrow> bool" where
  "validateState env o' l \<longleftrightarrow>
     int (length (lg_eventHeads l)) \<le> maximumEvents o' \<and> int (length (lg_tickets l)) \<le> maximumTickets o' \<and>
     int (length (lg_idempotency l)) \<le> maximumIdempotencyRecords o' \<and> int (length (lg_issuedIdentifiers l)) \<le> maximumIssuedIdentifiers o' \<and>
     int (length (lg_events l)) \<le> maximumEvents o' \<and> int (length (lg_admissionReservations l)) \<le> maximumAdmissionReservations o' \<and>
     int (length (lg_admissionRateEvents l)) \<le> maximumAdmissionReservations o' \<and>
     int (length (lg_admissionRetirements l)) \<le> maximumAdmissionReservations o' \<and>
     int (length (lg_runtimeIngress l)) \<le> maximumIssuedIdentifiers o' \<and>
     int (length (lg_providerControlGenerations l)) \<le> maximumIssuedIdentifiers o' \<and>
     int (length (lg_providerConnections l)) \<le> maximumProviderConnections o' \<and>
     int (length (lg_providerAssertionNonces l)) \<le> maximumProviderAssertionNonces o' \<and>
     state_bytes_ok o' l \<and>
     list_all ticket_ok (lg_tickets l) \<and> distinct (map tk_digest (lg_tickets l)) \<and>
     list_all idempotency_ok (lg_idempotency l) \<and> distinct (map si_keyDigest (lg_idempotency l)) \<and>
     list_all reservation_ok (lg_admissionReservations l) \<and> distinct (map ar_tokenDigest (lg_admissionReservations l)) \<and>
     distinct (map ar_resourceDigest (lg_admissionReservations l)) \<and>
     list_all retirement_ok (lg_admissionRetirements l) \<and>
     distinct (map (\<lambda>r. (rm_scopeId r, rm_resourceKind r, rm_resourceKey r)) (lg_admissionRetirements l)) \<and>
     list_all (\<lambda>r. ok_text is_OPAQUE (re_scopeId r) \<and> bounded 0 max_safe_integer (re_createdAt r)) (lg_admissionRateEvents l) \<and>
     list_all ingress_ok (lg_runtimeIngress l) \<and> distinct (map (\<lambda>i. (ri_runtimeId i, ri_generation i)) (lg_runtimeIngress l)) \<and>
     (case lg_providerAssertionKeyring l of None \<Rightarrow> True | Some k \<Rightarrow> keyring_ok k) \<and>
     list_all generation_ok (lg_providerControlGenerations l) \<and> distinct (map cg_principalId (lg_providerControlGenerations l)) \<and>
     list_all connection_ok (lg_providerConnections l) \<and> distinct (map pc_connectionId (lg_providerConnections l)) \<and>
     list_all (\<lambda>n. is_DIGEST (an_digest n) \<and> bounded 1 max_safe_integer (an_expiresAt n)) (lg_providerAssertionNonces l) \<and>
     distinct (map an_digest (lg_providerAssertionNonces l)) \<and>
     list_all (tombstone_ok env o') (lg_tombstones l) \<and>
     distinct (map (\<lambda>t. (tm_scopeId t, tm_resourceKind t, tm_resourceId t)) (lg_tombstones l)) \<and>
     list_all (\<lambda>t. int (length (filter (\<lambda>u. tm_scopeId u = tm_scopeId t) (lg_tombstones l))) \<le> maximumTombstonesPerScope o') (lg_tombstones l) \<and>
     list_all (issued_ok env) (lg_issuedIdentifiers l) \<and> distinct (map (\<lambda>i. (ii_resourceKind i, ii_resourceId i)) (lg_issuedIdentifiers l)) \<and>
     list_all (\<lambda>h. ok_text is_OPAQUE (eh_scopeId h) \<and> is_safe_integer (eh_sequence h) \<and> 1 \<le> eh_sequence h) (lg_eventHeads l) \<and>
     distinct (map eh_scopeId (lg_eventHeads l)) \<and>
     events_in_order env (lg_eventHeads l) (\<lambda>_. 0) (lg_events l) \<and> distinct (map (ev_eventId \<circ> se_event) (lg_events l))"

end
