(* ===== verification/LedgerOperations.thy ===== *)
theory LedgerOperations
  imports LedgerState
begin

text \<open>
  The operations of \<open>SharedControlStore\<close>. Each one checks its arguments, which may throw a
  \<open>TypeError\<close>, and then hands a function of the ledger to \<open>#mutate\<close> or \<open>#read\<close>; an operation below
  is that function, which returns the changed ledger with the outcome or throws. \<open>now\<close> is the value
  of the clock, and the tokens and identifiers that an operation draws at random are arguments. The
  results of all operations are one type, with a constructor for each outcome.
\<close>

type_synonym 'r operation = "ledger \<Rightarrow> ledger_error + (ledger \<times> 'r)"

datatype denial_reason =
    ActiveRuntimeLimit | RetainedRuntimeLimit | WorkspaceCapacityLimit | CpuLimit | MemoryLimit | GpuLimit
  | BrowserDisabled | CreationRateLimit | AdmissionUnavailable

datatype issued_outcome =
    IReserved | IExisting | IConflict | IBound | IClaimed | ITakenOver | IOwned | IInProgress | IBegun | ICancelled | IAlreadyClear
  | IDeleted

datatype outcome =
    OTruth bool
  | OCount int
  | ONotFound
  | OConflict
  | OReleased
  | ORejected
  | OInstalled "(jsstr \<times> ticket_binding list) option"
  | OAlreadyActive
  | ORegistered
  | OStaleGeneration
  | OActive jsstr
  | ORenewed
  | ORevoked
  | OClosed
  | OReleasedBindings "ticket_binding list"
  | ONotCurrent
  | OAccepted
  | ORollback
  | OClaimed
  | OReplayed
  | OAcquired jsstr jsstr
  | OFenced
  | ORenewedUntil jsstr
  | OFencedWith int
  | OBusy int
  | OReopened
  | OIngressState bool int
  | OAdmitted jsstr
  | ODenied denial_reason "int option"
  | OCommitted
  | ORetirement admission_retirement
  | OCompleted
  | OAlreadyCompleted
  | ONew jsstr
  | OPending
  | OReplay jsval
  | OAlreadyCompletedWith jsval
  | OReservationMismatch
  | OMinted jsstr jsstr
  | OConsumed ticket_binding
  | OTombstone bool stored_tombstone
  | OTombstoneFound stored_tombstone
  | OCapacityExceeded
  | OIssued issued_outcome issued_identifier
  | OIssuedFound "issued_identifier option"
  | OCursor jsstr
  | OAppended infrastructure_event jsstr
  | OEvents "infrastructure_event list" jsstr
  | OCursorExpired jsstr

definition clock_ok :: "int \<Rightarrow> bool" where
  "clock_ok now \<longleftrightarrow> bounded 0 max_safe_integer now"

text \<open>\<open>findIndex\<close>\<close>

fun find_index :: "('a \<Rightarrow> bool) \<Rightarrow> 'a list \<Rightarrow> nat option" where
  "find_index p [] = None"
| "find_index p (x # xs) = (if p x then Some 0 else map_option Suc (find_index p xs))"

definition remove_index :: "nat \<Rightarrow> 'a list \<Rightarrow> 'a list" where
  "remove_index i xs = take i xs @ drop (Suc i) xs"

definition opaque :: "string \<Rightarrow> jsstr \<Rightarrow> jsstr" where
  "opaque prefix encoded = (if prefix = [] then encoded else js prefix @ js ''_'' @ encoded)"

subsection \<open>Provider connections\<close>

definition retainProviderConnections :: "provider_connection list \<Rightarrow> int \<Rightarrow> provider_connection list" where
  "retainProviderConnections records now =
     filter (\<lambda>c. pc_updatedAt c > now -
       (if pc_state c = CActive then provider_connection_lease_ms else max_ticket_ttl_seconds * 1000)) records"

definition of_generation :: "jsstr \<Rightarrow> jsstr \<Rightarrow> provider_connection \<Rightarrow> bool" where
  "of_generation principalId generation c \<longleftrightarrow>
     tb_principalId (pc_binding c) = principalId \<and> tb_providerControlGeneration (pc_binding c) = generation \<and> pc_state c \<noteq> CClosed"

definition providerGenerationBindings :: "provider_connection list \<Rightarrow> jsstr \<Rightarrow> jsstr \<Rightarrow> ticket_binding list" where
  "providerGenerationBindings records principalId generation = map pc_binding (filter (of_generation principalId generation) records)"

definition close_generation :: "jsstr \<Rightarrow> jsstr \<Rightarrow> int \<Rightarrow> provider_connection list \<Rightarrow> provider_connection list" where
  "close_generation principalId generation now records =
     map (\<lambda>c. if of_generation principalId generation c then c\<lparr>pc_state := CClosed, pc_updatedAt := now\<rparr> else c) records"

definition current_generation :: "ledger \<Rightarrow> jsstr \<Rightarrow> jsstr \<Rightarrow> bool" where
  "current_generation l principalId generation \<longleftrightarrow>
     list_ex (\<lambda>g. cg_principalId g = principalId \<and> cg_generation g = generation) (lg_providerControlGenerations l)"

definition owner_ok :: "jsstr \<Rightarrow> jsstr \<Rightarrow> jsstr \<Rightarrow> bool" where
  "owner_ok principalId generation ownerId \<longleftrightarrow>
     ok_text is_OPAQUE principalId \<and> ok_text is_GENERATION generation \<and> ok_text is_OPAQUE ownerId"

definition owner_or_legacy :: "jsstr option \<Rightarrow> jsstr" where
  "owner_or_legacy ownerId = (case ownerId of None \<Rightarrow> js ''legacy-owner'' | Some s \<Rightarrow> s)"

definition revoke_replaced :: "jsstr \<Rightarrow> jsstr \<Rightarrow> int \<Rightarrow> stored_ticket \<Rightarrow> stored_ticket" where
  "revoke_replaced principalId generation now t =
     (if tb_principalId (tk_binding t) = principalId \<and> tb_providerControlGeneration (tk_binding t) = generation \<and>
         tk_consumedAt t = None \<and> tk_revokedAt t = None \<and> tk_expiresAt t > now
      then t\<lparr>tk_revokedAt := Some now\<rparr> else t)"

definition installProviderControlGeneration ::
  "int \<Rightarrow> jsstr \<Rightarrow> jsstr \<Rightarrow> jsstr option \<Rightarrow> ledger_error + outcome operation" where
  "installProviderControlGeneration now principalId generation owner =
     (let ownerId = owner_or_legacy owner in
      if \<not> owner_ok principalId generation ownerId \<or> \<not> clock_ok now then Inl TypeErr
      else Inr (\<lambda>l.
        let installed = \<lparr>cg_principalId = principalId, cg_generation = generation, cg_ownerId = ownerId, cg_updatedAt = now\<rparr>;
            generations = filter (\<lambda>g. cg_principalId g \<noteq> principalId) (lg_providerControlGenerations l) @ [installed]
        in case List.find (\<lambda>g. cg_principalId g = principalId) (lg_providerControlGenerations l) of
             None \<Rightarrow> Inr (l\<lparr>lg_providerControlGenerations := generations,
                 lg_providerConnections := retainProviderConnections (lg_providerConnections l) now\<rparr>, OInstalled None)
           | Some current \<Rightarrow>
               if cg_generation current = generation
               then Inr (l, if cg_ownerId current = ownerId then OInstalled None else OAlreadyActive)
               else Inr (l\<lparr>lg_tickets := map (revoke_replaced principalId (cg_generation current) now) (lg_tickets l),
                   lg_providerControlGenerations := generations,
                   lg_providerConnections := retainProviderConnections
                     (close_generation principalId (cg_generation current) now (lg_providerConnections l)) now\<rparr>,
                 OInstalled (Some (cg_generation current,
                   providerGenerationBindings (lg_providerConnections l) principalId (cg_generation current))))))"

definition isCurrentProviderControlGeneration :: "jsstr \<Rightarrow> jsstr \<Rightarrow> jsstr option \<Rightarrow> ledger_error + outcome operation" where
  "isCurrentProviderControlGeneration principalId generation owner =
     (let ownerId = owner_or_legacy owner in
      if \<not> owner_ok principalId generation ownerId then Inl TypeErr
      else Inr (\<lambda>l. Inr (l, OTruth (list_ex (\<lambda>g. cg_principalId g = principalId \<and> cg_generation g = generation \<and> cg_ownerId g = ownerId)
        (lg_providerControlGenerations l)))))"

definition registerProviderConnection ::
  "ledger_env \<Rightarrow> ledger_bounds \<Rightarrow> int \<Rightarrow> ticket_binding \<Rightarrow> jsstr \<Rightarrow> jsstr \<Rightarrow> ledger_error + outcome operation" where
  "registerProviderConnection env o' now binding connectionId ticket =
     (if \<not> validateBinding binding \<or> \<not> ok_text is_OPAQUE connectionId \<or> \<not> ok_text is_TICKET ticket \<or> \<not> clock_ok now then Inl TypeErr
      else Inr (\<lambda>l.
        if \<not> current_generation l (tb_principalId binding) (tb_providerControlGeneration binding) then Inr (l, OStaleGeneration)
        else
          let retained = retainProviderConnections (lg_providerConnections l) now in
          if list_ex (\<lambda>c. pc_connectionId c = connectionId) retained \<or> int (length retained) \<ge> maximumProviderConnections o'
          then Inr (l\<lparr>lg_providerConnections := retained\<rparr>, OConflict)
          else Inr (l\<lparr>lg_providerConnections := retained @
            [\<lparr>pc_binding = binding, pc_connectionId = connectionId, pc_ticketDigest = sha256 env ticket, pc_state = CTicket,
              pc_updatedAt = now\<rparr>]\<rparr>, ORegistered)))"

definition activateProviderConnection :: "ledger_env \<Rightarrow> int \<Rightarrow> ticket_binding \<Rightarrow> jsstr \<Rightarrow> ledger_error + outcome operation" where
  "activateProviderConnection env now binding ticket =
     (if \<not> validateBinding binding \<or> \<not> ok_text is_TICKET ticket \<or> \<not> clock_ok now then Inl TypeErr
      else Inr (\<lambda>l.
        let retained = retainProviderConnections (lg_providerConnections l) now in
        case find_index (\<lambda>c. pc_state c = CTicket \<and> sameDigest (pc_ticketDigest c) (sha256 env ticket) \<and> pc_binding c = binding) retained of
          Some i \<Rightarrow>
            if current_generation l (tb_principalId binding) (tb_providerControlGeneration binding)
            then Inr (l\<lparr>lg_providerConnections := retained[i := (retained ! i)\<lparr>pc_state := CActive, pc_updatedAt := now\<rparr>]\<rparr>,
              OActive (pc_connectionId (retained ! i)))
            else Inr (l\<lparr>lg_providerConnections := retained\<rparr>, ORejected)
        | None \<Rightarrow> Inr (l\<lparr>lg_providerConnections := retained\<rparr>, ORejected)))"

definition isProviderConnectionActive :: "int \<Rightarrow> jsstr \<Rightarrow> ledger_error + outcome operation" where
  "isProviderConnectionActive now connectionId =
     (if \<not> ok_text is_OPAQUE connectionId \<or> \<not> clock_ok now then Inl TypeErr
      else Inr (\<lambda>l. Inr (l, OTruth
        (case List.find (\<lambda>c. pc_connectionId c = connectionId) (lg_providerConnections l) of
           None \<Rightarrow> False
         | Some c \<Rightarrow> pc_state c = CActive \<and> pc_updatedAt c > now - provider_connection_lease_ms \<and>
             current_generation l (tb_principalId (pc_binding c)) (tb_providerControlGeneration (pc_binding c))))))"

definition renewProviderConnection :: "int \<Rightarrow> jsstr \<Rightarrow> ledger_error + outcome operation" where
  "renewProviderConnection now connectionId =
     (if \<not> ok_text is_OPAQUE connectionId \<or> \<not> clock_ok now then Inl TypeErr
      else Inr (\<lambda>l.
        let connections = retainProviderConnections (lg_providerConnections l) now in
        case find_index (\<lambda>c. pc_connectionId c = connectionId \<and> pc_state c = CActive) connections of
          None \<Rightarrow> Inr (l\<lparr>lg_providerConnections := connections\<rparr>, ORevoked)
        | Some i \<Rightarrow>
            let current = connections ! i in
            if \<not> current_generation l (tb_principalId (pc_binding current)) (tb_providerControlGeneration (pc_binding current))
            then Inr (l\<lparr>lg_providerConnections := connections\<rparr>, ORevoked)
            else Inr (l\<lparr>lg_providerConnections := connections[i := current\<lparr>pc_updatedAt := now\<rparr>]\<rparr>, ORenewed)))"

definition closeProviderConnection :: "int \<Rightarrow> jsstr \<Rightarrow> ledger_error + outcome operation" where
  "closeProviderConnection now connectionId =
     (if \<not> ok_text is_OPAQUE connectionId \<or> \<not> clock_ok now then Inl TypeErr
      else Inr (\<lambda>l.
        case find_index (\<lambda>c. pc_connectionId c = connectionId) (lg_providerConnections l) of
          None \<Rightarrow> Inr (l, ONotFound)
        | Some i \<Rightarrow>
            let connections = (lg_providerConnections l)[i := (lg_providerConnections l ! i)\<lparr>pc_state := CClosed, pc_updatedAt := now\<rparr>]
            in Inr (l\<lparr>lg_providerConnections := retainProviderConnections connections now\<rparr>, OClosed)))"

definition closeProviderControlGeneration :: "int \<Rightarrow> jsstr \<Rightarrow> jsstr \<Rightarrow> ledger_error + outcome operation" where
  "closeProviderControlGeneration now principalId generation =
     (if \<not> ok_text is_OPAQUE principalId \<or> \<not> ok_text is_GENERATION generation \<or> \<not> clock_ok now then Inl TypeErr
      else Inr (\<lambda>l. Inr (l\<lparr>lg_providerConnections :=
          retainProviderConnections (close_generation principalId generation now (lg_providerConnections l)) now\<rparr>,
        OCount (int (length (filter (of_generation principalId generation) (lg_providerConnections l)))))))"

definition releaseProviderControlGeneration :: "int \<Rightarrow> jsstr \<Rightarrow> jsstr \<Rightarrow> jsstr option \<Rightarrow> ledger_error + outcome operation" where
  "releaseProviderControlGeneration now principalId generation owner =
     (let ownerId = owner_or_legacy owner in
      if \<not> owner_ok principalId generation ownerId \<or> \<not> clock_ok now then Inl TypeErr
      else Inr (\<lambda>l.
        if \<not> list_ex (\<lambda>g. cg_principalId g = principalId \<and> cg_generation g = generation \<and> cg_ownerId g = ownerId)
             (lg_providerControlGenerations l) then Inr (l, ONotCurrent)
        else Inr (l\<lparr>lg_providerControlGenerations := filter (\<lambda>g. cg_principalId g \<noteq> principalId) (lg_providerControlGenerations l),
            lg_providerConnections := retainProviderConnections (close_generation principalId generation now (lg_providerConnections l)) now\<rparr>,
          OReleasedBindings (providerGenerationBindings (lg_providerConnections l) principalId generation))))"

subsection \<open>Provider assertions\<close>

text \<open>\<open>now\<close> in seconds below; \<open>previous\<close> is the pair of optional arguments, given together or not at all.\<close>

definition kidAccepted :: "jsstr \<Rightarrow> int \<Rightarrow> assertion_keyring \<Rightarrow> bool" where
  "kidAccepted assertionKid now floor \<longleftrightarrow>
     assertionKid = kr_activeKid floor \<or>
     Some assertionKid = kr_previousKid floor \<and> (case kr_previousNotAfter floor of None \<Rightarrow> False | Some n \<Rightarrow> n \<ge> now)"

definition keyring_step ::
  "int \<Rightarrow> int \<Rightarrow> jsstr \<Rightarrow> jsstr \<Rightarrow> jsstr option \<Rightarrow> int option \<Rightarrow> assertion_keyring option \<Rightarrow> assertion_keyring option \<times> bool" where
  "keyring_step now revision activeKid assertionKid previousKid previousNotAfter current =
     (let next = \<lparr>kr_revision = revision, kr_activeKid = activeKid, kr_previousKid = previousKid, kr_previousNotAfter = previousNotAfter\<rparr>;
          install = (if kidAccepted assertionKid now next then (Some next, True) else (current, False))
      in case current of
           None \<Rightarrow> install
         | Some floor \<Rightarrow>
             if revision < kr_revision floor
             then (current, kr_previousKid floor = Some activeKid \<and>
               (case kr_previousNotAfter floor of None \<Rightarrow> False | Some n \<Rightarrow> n \<ge> now) \<and> assertionKid = activeKid)
             else if kr_revision floor = revision
             then (current, kr_activeKid floor = activeKid \<and> kr_previousKid floor = previousKid \<and>
               kr_previousNotAfter floor = previousNotAfter \<and> kidAccepted assertionKid now floor)
             else if previousKid \<noteq> Some (kr_activeKid floor) \<or>
                 (case previousNotAfter of None \<Rightarrow> True | Some n \<Rightarrow> n < now) then (current, False)
             else install)"

definition acceptProviderAssertionKeyring ::
  "int \<Rightarrow> int \<Rightarrow> jsstr \<Rightarrow> jsstr \<Rightarrow> jsstr option \<Rightarrow> int option \<Rightarrow> ledger_error + outcome operation" where
  "acceptProviderAssertionKeyring nowMs revision activeKid assertionKid previousKid previousNotAfter =
     (if \<not> bounded 1 max_safe_integer revision \<or> \<not> ok_text is_kid activeKid \<or> \<not> ok_text is_kid assertionKid \<or>
         (previousKid = None) \<noteq> (previousNotAfter = None) \<or> (case previousKid of None \<Rightarrow> False | Some s \<Rightarrow> \<not> ok_text is_kid s) \<or>
         (case previousNotAfter of None \<Rightarrow> False | Some n \<Rightarrow> \<not> bounded 1 max_safe_integer n) \<or> \<not> clock_ok nowMs then Inl TypeErr
      else Inr (\<lambda>l.
        let (keyring, accepted) =
          keyring_step (nowMs div 1000) revision activeKid assertionKid previousKid previousNotAfter (lg_providerAssertionKeyring l)
        in Inr (l\<lparr>lg_providerAssertionKeyring := keyring\<rparr>, if accepted then OAccepted else ORollback)))"

definition claimProviderAssertionNonce :: "ledger_env \<Rightarrow> ledger_bounds \<Rightarrow> int \<Rightarrow> jsstr \<Rightarrow> int \<Rightarrow> ledger_error + outcome operation" where
  "claimProviderAssertionNonce env o' nowMs nonce expiresAt =
     (let now = nowMs div 1000; digest = sha256 env nonce in
      if length nonce \<noteq> 24 \<or> \<not> list_all (name_char ''_-'') nonce \<or> \<not> bounded 1 max_safe_integer expiresAt \<or> \<not> clock_ok nowMs \<or>
         expiresAt < now \<or> expiresAt > now + 30 then Inl TypeErr
      else Inr (\<lambda>l.
        let retained = filter (\<lambda>n. an_expiresAt n \<ge> now) (lg_providerAssertionNonces l) in
        if list_ex (\<lambda>n. sameDigest (an_digest n) digest) retained then Inr (l\<lparr>lg_providerAssertionNonces := retained\<rparr>, OReplayed)
        else if int (length retained) \<ge> maximumProviderAssertionNonces o' then Inl CapacityErr
        else Inr (l\<lparr>lg_providerAssertionNonces := retained @ [\<lparr>an_digest = digest, an_expiresAt = expiresAt\<rparr>]\<rparr>, OClaimed)))"

subsection \<open>Runtime ingress\<close>

definition ingress_identity_ok :: "jsstr \<Rightarrow> jsstr \<Rightarrow> bool" where
  "ingress_identity_ok runtimeId generation \<longleftrightarrow> ok_text is_OPAQUE runtimeId \<and> ok_text is_GENERATION generation"

definition is_ingress :: "jsstr \<Rightarrow> jsstr \<Rightarrow> runtime_ingress \<Rightarrow> bool" where
  "is_ingress runtimeId generation i \<longleftrightarrow> ri_runtimeId i = runtimeId \<and> ri_generation i = generation"

definition live_leases :: "int \<Rightarrow> runtime_ingress \<Rightarrow> ingress_lease list" where
  "live_leases now i = filter (\<lambda>lease. il_expiresAt lease > now) (ri_leases i)"

definition is_lease :: "jsstr \<Rightarrow> jsstr \<Rightarrow> ingress_lease \<Rightarrow> bool" where
  "is_lease gatewayReplicaEpoch leaseIdDigest lease \<longleftrightarrow>
     il_gatewayReplicaEpoch lease = gatewayReplicaEpoch \<and> sameDigest (il_leaseIdDigest lease) leaseIdDigest"

definition acquireRuntimeIngress ::
  "ledger_env \<Rightarrow> int \<Rightarrow> jsstr \<Rightarrow> jsstr \<Rightarrow> jsstr \<Rightarrow> jsstr \<Rightarrow> int \<Rightarrow> ledger_error + outcome operation" where
  "acquireRuntimeIngress env now drawn runtimeId generation gatewayReplicaEpoch ttlSeconds =
     (let leaseId = opaque ''ing'' drawn; expiresAt = now + ttlSeconds * 1000;
          lease = \<lparr>il_leaseIdDigest = sha256 env leaseId, il_gatewayReplicaEpoch = gatewayReplicaEpoch, il_expiresAt = expiresAt\<rparr> in
      if \<not> ingress_identity_ok runtimeId generation \<or> \<not> ok_text is_GENERATION gatewayReplicaEpoch \<or> \<not> bounded 1 60 ttlSeconds \<or>
         \<not> clock_ok now then Inl TypeErr
      else Inr (\<lambda>l.
        let retained = filter (\<lambda>i. ri_runtimeId i \<noteq> runtimeId \<or> ri_generation i = generation \<or> ri_open i \<or> live_leases now i \<noteq> [])
              (lg_runtimeIngress l)
        in case find_index (is_ingress runtimeId generation) retained of
             None \<Rightarrow>
               map_sum id (\<lambda>t. (l\<lparr>lg_runtimeIngress := retained @
                 [\<lparr>ri_runtimeId = runtimeId, ri_generation = generation, ri_open = True, ri_leases = [lease]\<rparr>]\<rparr>, OAcquired leaseId t))
                 (iso env expiresAt)
           | Some k \<Rightarrow>
               if \<not> ri_open (retained ! k) then Inr (l\<lparr>lg_runtimeIngress := retained\<rparr>, OFenced)
               else map_sum id (\<lambda>t. (l\<lparr>lg_runtimeIngress :=
                 retained[k := \<lparr>ri_runtimeId = runtimeId, ri_generation = generation, ri_open = True,
                   ri_leases = live_leases now (retained ! k) @ [lease]\<rparr>]\<rparr>, OAcquired leaseId t)) (iso env expiresAt)))"

definition renewRuntimeIngress ::
  "ledger_env \<Rightarrow> int \<Rightarrow> jsstr \<Rightarrow> jsstr \<Rightarrow> jsstr \<Rightarrow> jsstr \<Rightarrow> int \<Rightarrow> ledger_error + outcome operation" where
  "renewRuntimeIngress env now runtimeId generation gatewayReplicaEpoch leaseId ttlSeconds =
     (let expiresAt = now + ttlSeconds * 1000 in
      if \<not> ingress_identity_ok runtimeId generation \<or> \<not> ok_text is_GENERATION gatewayReplicaEpoch \<or> \<not> ok_text is_TICKET leaseId \<or>
         \<not> bounded 1 60 ttlSeconds \<or> \<not> clock_ok now then Inl TypeErr
      else Inr (\<lambda>l.
        case find_index (is_ingress runtimeId generation) (lg_runtimeIngress l) of
          None \<Rightarrow> Inr (l, ONotFound)
        | Some k \<Rightarrow>
            let current = lg_runtimeIngress l ! k; leases = live_leases now current;
                keep = (\<lambda>leases. l\<lparr>lg_runtimeIngress := (lg_runtimeIngress l)[k := current\<lparr>ri_leases := leases\<rparr>]\<rparr>)
            in if \<not> ri_open current then Inr (keep leases, OFenced)
               else case find_index (is_lease gatewayReplicaEpoch (sha256 env leaseId)) leases of
                   None \<Rightarrow> Inr (keep leases, ONotFound)
                 | Some j \<Rightarrow> map_sum id (\<lambda>t. (keep (leases[j := (leases ! j)\<lparr>il_expiresAt := expiresAt\<rparr>]), ORenewedUntil t)) (iso env expiresAt)))"

definition releaseRuntimeIngress :: "ledger_env \<Rightarrow> jsstr \<Rightarrow> jsstr \<Rightarrow> jsstr \<Rightarrow> jsstr \<Rightarrow> ledger_error + outcome operation" where
  "releaseRuntimeIngress env runtimeId generation gatewayReplicaEpoch leaseId =
     (if \<not> ingress_identity_ok runtimeId generation \<or> \<not> ok_text is_GENERATION gatewayReplicaEpoch \<or> \<not> ok_text is_TICKET leaseId then Inl TypeErr
      else Inr (\<lambda>l.
        case find_index (is_ingress runtimeId generation) (lg_runtimeIngress l) of
          None \<Rightarrow> Inr (l, ONotFound)
        | Some k \<Rightarrow>
            let current = lg_runtimeIngress l ! k in
            case find_index (is_lease gatewayReplicaEpoch (sha256 env leaseId)) (ri_leases current) of
              None \<Rightarrow> Inr (l, ONotFound)
            | Some j \<Rightarrow> Inr (l\<lparr>lg_runtimeIngress := (lg_runtimeIngress l)[k := current\<lparr>ri_leases := remove_index j (ri_leases current)\<rparr>]\<rparr>, OReleased)))"

text \<open>\<open>idle\<close> is the mode \<open>"idle"\<close>, the other one is \<open>"explicit"\<close>.\<close>

definition beginRuntimeIngressDrain :: "int \<Rightarrow> jsstr \<Rightarrow> jsstr \<Rightarrow> bool \<Rightarrow> ledger_error + outcome operation" where
  "beginRuntimeIngressDrain now runtimeId generation idle =
     (if \<not> ingress_identity_ok runtimeId generation \<or> \<not> clock_ok now then Inl TypeErr
      else Inr (\<lambda>l.
        case find_index (is_ingress runtimeId generation) (lg_runtimeIngress l) of
          None \<Rightarrow>
            Inr (l\<lparr>lg_runtimeIngress := lg_runtimeIngress l @
              [\<lparr>ri_runtimeId = runtimeId, ri_generation = generation, ri_open = False, ri_leases = []\<rparr>]\<rparr>, OFencedWith 0)
        | Some k \<Rightarrow>
            let current = lg_runtimeIngress l ! k; leases = live_leases now current; active = int (length leases) in
            if idle \<and> active > 0
            then Inr (l\<lparr>lg_runtimeIngress := (lg_runtimeIngress l)[k := current\<lparr>ri_leases := leases\<rparr>]\<rparr>, OBusy active)
            else Inr (l\<lparr>lg_runtimeIngress := (lg_runtimeIngress l)[k := current\<lparr>ri_open := False, ri_leases := leases\<rparr>]\<rparr>, OFencedWith active)))"

definition reopenRuntimeIngress :: "jsstr \<Rightarrow> jsstr \<Rightarrow> ledger_error + outcome operation" where
  "reopenRuntimeIngress runtimeId generation =
     (if \<not> ingress_identity_ok runtimeId generation then Inl TypeErr
      else Inr (\<lambda>l.
        case find_index (is_ingress runtimeId generation) (lg_runtimeIngress l) of
          None \<Rightarrow> Inr (l, ONotFound)
        | Some k \<Rightarrow> Inr (l\<lparr>lg_runtimeIngress := (lg_runtimeIngress l)[k := (lg_runtimeIngress l ! k)\<lparr>ri_open := True\<rparr>]\<rparr>, OReopened)))"

definition runtimeIngressState :: "int \<Rightarrow> jsstr \<Rightarrow> jsstr \<Rightarrow> ledger_error + outcome operation" where
  "runtimeIngressState now runtimeId generation =
     (if \<not> ingress_identity_ok runtimeId generation \<or> \<not> clock_ok now then Inl TypeErr
      else Inr (\<lambda>l.
        case find_index (is_ingress runtimeId generation) (lg_runtimeIngress l) of
          None \<Rightarrow> Inr (l, OIngressState True 0)
        | Some k \<Rightarrow>
            let current = lg_runtimeIngress l ! k; leases = live_leases now current
            in Inr (l\<lparr>lg_runtimeIngress := (lg_runtimeIngress l)[k := current\<lparr>ri_leases := leases\<rparr>]\<rparr>,
              OIngressState (ri_open current) (int (length leases)))))"

subsection \<open>Admission\<close>

record admission_policy =
  ap_limits :: amounts
  ap_browserEnabled :: bool
  ap_cpuMillis :: int
  ap_memoryBytes :: int
  ap_gpuUnits :: int
  ap_windowSeconds :: int
  ap_burst :: int
  ap_maximumRetryAfterSeconds :: int

text \<open>\<open>decodeScopeAdmissionPolicy\<close> on a policy object with exactly these members.\<close>

definition decodeScopeAdmissionPolicy :: "admission_policy \<Rightarrow> bool" where
  "decodeScopeAdmissionPolicy p \<longleftrightarrow>
     (let m = ap_limits p in
      bounded 0 100000 (am_activeRuntimes m) \<and> bounded 0 100000 (am_retainedRuntimes m) \<and>
      bounded 0 max_safe_integer (am_workspaceCapacityBytes m) \<and> bounded 0 1000000000 (am_cpuMillis m) \<and>
      bounded 0 max_safe_integer (am_memoryBytes m) \<and> bounded 0 1000000 (am_gpuUnits m)) \<and>
     bounded 0 1000000000 (ap_cpuMillis p) \<and> bounded 0 max_safe_integer (ap_memoryBytes p) \<and> bounded 0 1000000 (ap_gpuUnits p) \<and>
     bounded 1 86400 (ap_windowSeconds p) \<and> bounded 1 100000 (ap_burst p) \<and> bounded 1 300 (ap_maximumRetryAfterSeconds p)"

record admission_request =
  aq_scopeId :: jsstr
  aq_resourceKey :: jsstr
  aq_resourceKind :: resource_kind
  aq_transition :: "admission_transition option"
  aq_workspaceCapacityBytes :: "int option"
  aq_active :: bool
  aq_browserRequested :: bool
  aq_policy :: admission_policy
  aq_usage :: amounts
  aq_observedResourceDigests :: "jsstr list"

definition usage_ok :: "amounts \<Rightarrow> bool" where
  "usage_ok u \<longleftrightarrow>
     bounded 0 100000 (am_activeRuntimes u) \<and> bounded 0 100000 (am_retainedRuntimes u) \<and>
     bounded 0 max_safe_integer (am_workspaceCapacityBytes u) \<and> bounded 0 max_safe_integer (am_cpuMillis u) \<and>
     bounded 0 max_safe_integer (am_memoryBytes u) \<and> bounded 0 max_safe_integer (am_gpuUnits u)"

definition transition_of :: "admission_request \<Rightarrow> admission_transition" where
  "transition_of q = (case aq_transition q of None \<Rightarrow> TCreate | Some t \<Rightarrow> t)"

definition admission_delta :: "admission_request \<Rightarrow> amounts" where
  "admission_delta q =
     (let active = aq_resourceKind q = KRuntime \<and> aq_active q; policy = aq_policy q;
          capacity = (case aq_workspaceCapacityBytes q of None \<Rightarrow> 0 | Some n \<Rightarrow> n)
      in \<lparr>am_activeRuntimes = (if active then 1 else 0),
          am_retainedRuntimes = (if transition_of q = TCreate \<and> aq_resourceKind q = KRuntime then 1 else 0),
          am_workspaceCapacityBytes = (if transition_of q = TCreate \<and> aq_resourceKind q = KWorkspace then capacity else 0),
          am_cpuMillis = (if active then ap_cpuMillis policy else 0), am_memoryBytes = (if active then ap_memoryBytes policy else 0),
          am_gpuUnits = (if active then ap_gpuUnits policy else 0)\<rparr>)"

definition resource_digest :: "ledger_env \<Rightarrow> jsstr \<Rightarrow> resource_kind \<Rightarrow> jsstr \<Rightarrow> admission_transition \<Rightarrow> jsstr" where
  "resource_digest env scopeId kind resourceKey t =
     sha256 env (scopeId @ nul @ kind_name kind @ nul @ resourceKey @ nul @ transition_name t)"

text \<open>The fields in the order of the limits, each with the reason of its denial.\<close>

definition admission_fields :: "((amounts \<Rightarrow> int) \<times> denial_reason) list" where
  "admission_fields =
     [(am_activeRuntimes, ActiveRuntimeLimit), (am_retainedRuntimes, RetainedRuntimeLimit),
      (am_workspaceCapacityBytes, WorkspaceCapacityLimit), (am_cpuMillis, CpuLimit), (am_memoryBytes, MemoryLimit), (am_gpuUnits, GpuLimit)]"

definition admission_total :: "(amounts \<Rightarrow> int) \<Rightarrow> amounts \<Rightarrow> amounts \<Rightarrow> admission_reservation list \<Rightarrow> int" where
  "admission_total field delta usage scoped =
     foldl (\<lambda>sum r. saturatedAdd sum (field (ar_delta r))) (saturatedAdd (field usage) (field delta)) scoped"

text \<open>\<open>retryAfterSeconds\<close>, with \<open>Math.ceil\<close> of the quotient by 1000.\<close>

definition retry_after :: "admission_policy \<Rightarrow> int \<Rightarrow> int list \<Rightarrow> int" where
  "retry_after policy now created =
     (let oldest = foldl min now created
      in max 1 (min (ap_maximumRetryAfterSeconds policy) (- ((now - oldest - ap_windowSeconds policy * 1000) div 1000))))"

definition reserveAdmission :: "ledger_env \<Rightarrow> ledger_bounds \<Rightarrow> int \<Rightarrow> jsstr \<Rightarrow> admission_request \<Rightarrow> ledger_error + outcome operation" where
  "reserveAdmission env o' now drawn q =
     (let policy = aq_policy q; transition = transition_of q; delta = admission_delta q; token = opaque ''adm'' drawn;
          digest = resource_digest env (aq_scopeId q) (aq_resourceKind q) (aq_resourceKey q) transition;
          windowMs = ap_windowSeconds policy * 1000 in
      if \<not> ok_text is_OPAQUE (aq_scopeId q) \<or> \<not> ok_text is_OPAQUE (aq_resourceKey q) \<or> \<not> issued_kind_ok (aq_resourceKind q) \<or>
         \<not> decodeScopeAdmissionPolicy policy \<or> \<not> usage_ok (aq_usage q) \<or>
         \<not> list_all (ok_text is_DIGEST) (aq_observedResourceDigests q) \<or>
         \<not> bounded 0 max_safe_integer (case aq_workspaceCapacityBytes q of None \<Rightarrow> 0 | Some n \<Rightarrow> n) \<or> \<not> clock_ok now then Inl TypeErr
      else Inr (\<lambda>l.
        let reservations = filter (\<lambda>r. (ar_committed r \<or> ar_expiresAt r > now) \<and>
              \<not> (ar_committed r \<and> ar_resourceDigest r \<in> set (aq_observedResourceDigests q))) (lg_admissionReservations l);
            kept = l\<lparr>lg_admissionReservations := reservations\<rparr>;
            scoped = filter (\<lambda>r. ar_scopeId r = aq_scopeId q) reservations
        in if list_ex (\<lambda>r. ar_resourceDigest r = digest) reservations then Inr (kept, ODenied AdmissionUnavailable (Some 1))
           else if aq_resourceKind q = KRuntime \<and> aq_browserRequested q \<and> \<not> ap_browserEnabled policy
           then Inr (kept, ODenied BrowserDisabled None)
           else case List.find (\<lambda>(field, reason). admission_total field delta (aq_usage q) scoped > field (ap_limits policy)) admission_fields of
               Some (field, reason) \<Rightarrow> Inr (kept, ODenied reason None)
             | None \<Rightarrow>
                 let rateEvents = filter (\<lambda>e. re_createdAt e > now - windowMs) (lg_admissionRateEvents l);
                     contributors =
                       (if transition = TCreate
                        then map re_createdAt (filter (\<lambda>e. re_scopeId e = aq_scopeId q) rateEvents) @
                          map ar_createdAt (filter (\<lambda>r. \<not> ar_committed r \<and> ar_transition r = TCreate \<and> ar_createdAt r > now - windowMs) scoped)
                        else [])
                 in if int (length contributors) \<ge> ap_burst policy
                    then Inr (kept\<lparr>lg_admissionRateEvents := rateEvents\<rparr>, ODenied CreationRateLimit (Some (retry_after policy now contributors)))
                    else if int (length reservations) \<ge> maximumAdmissionReservations o' then Inl CapacityErr
                    else Inr (kept\<lparr>lg_admissionReservations := reservations @
                        [\<lparr>ar_tokenDigest = sha256 env token, ar_resourceDigest = digest, ar_scopeId = aq_scopeId q, ar_transition = transition,
                          ar_resourceKind = aq_resourceKind q, ar_delta = delta, ar_createdAt = now,
                          ar_expiresAt = now + max windowMs 300000, ar_committed = False\<rparr>],
                        lg_admissionRateEvents := rateEvents\<rparr>, OAdmitted token)))"

definition unexpired_reservations :: "int \<Rightarrow> ledger \<Rightarrow> admission_reservation list" where
  "unexpired_reservations now l = filter (\<lambda>r. ar_committed r \<or> ar_expiresAt r > now) (lg_admissionReservations l)"

definition commitAdmission :: "ledger_env \<Rightarrow> int \<Rightarrow> jsstr \<Rightarrow> ledger_error + outcome operation" where
  "commitAdmission env now reservationToken =
     (if \<not> ok_text is_OPAQUE reservationToken \<or> \<not> clock_ok now then Inl TypeErr
      else Inr (\<lambda>l.
        let reservations = unexpired_reservations now l in
        case find_index (\<lambda>r. sameDigest (ar_tokenDigest r) (sha256 env reservationToken)) reservations of
          None \<Rightarrow> Inr (l\<lparr>lg_admissionReservations := reservations\<rparr>, ONotFound)
        | Some i \<Rightarrow>
            let current = reservations ! i in
            if ar_committed current then Inr (l\<lparr>lg_admissionReservations := reservations\<rparr>, OCommitted)
            else Inr (l\<lparr>lg_admissionReservations := reservations[i := current\<lparr>ar_committed := True\<rparr>],
                lg_admissionRateEvents := lg_admissionRateEvents l @
                  (if ar_transition current = TCreate then [\<lparr>re_scopeId = ar_scopeId current, re_createdAt = ar_createdAt current\<rparr>] else [])\<rparr>,
              OCommitted)))"

definition releaseAdmission :: "ledger_env \<Rightarrow> int \<Rightarrow> jsstr \<Rightarrow> ledger_error + outcome operation" where
  "releaseAdmission env now reservationToken =
     (if \<not> ok_text is_OPAQUE reservationToken \<or> \<not> clock_ok now then Inl TypeErr
      else Inr (\<lambda>l.
        let reservations = unexpired_reservations now l;
            mine = (\<lambda>r. \<not> ar_committed r \<and> sameDigest (ar_tokenDigest r) (sha256 env reservationToken))
        in Inr (l\<lparr>lg_admissionReservations := filter (\<lambda>r. \<not> mine r) reservations\<rparr>, if list_ex mine reservations then OReleased else ONotFound)))"

definition reconcileAdmissionAbsence ::
  "ledger_env \<Rightarrow> int \<Rightarrow> jsstr \<Rightarrow> resource_kind \<Rightarrow> jsstr \<Rightarrow> admission_transition option \<Rightarrow> ledger_error + outcome operation" where
  "reconcileAdmissionAbsence env now scopeId kind resourceKey transition =
     (let digest = resource_digest env scopeId kind resourceKey (case transition of None \<Rightarrow> TCreate | Some t \<Rightarrow> t) in
      if \<not> ok_text is_OPAQUE scopeId \<or> \<not> ok_text is_OPAQUE resourceKey \<or> \<not> issued_kind_ok kind \<or> \<not> clock_ok now then Inl TypeErr
      else Inr (\<lambda>l.
        let reservations = unexpired_reservations now l;
            absent = (\<lambda>r. ar_committed r \<and> sameDigest (ar_resourceDigest r) digest)
        in Inr (l\<lparr>lg_admissionReservations := filter (\<lambda>r. \<not> absent r) reservations\<rparr>, if list_ex absent reservations then OReleased else ONotFound)))"

definition is_retirement :: "jsstr \<Rightarrow> resource_kind \<Rightarrow> jsstr \<Rightarrow> admission_retirement \<Rightarrow> bool" where
  "is_retirement scopeId kind resourceKey r \<longleftrightarrow> rm_scopeId r = scopeId \<and> rm_resourceKind r = kind \<and> rm_resourceKey r = resourceKey"

definition retirement_args_ok :: "jsstr \<Rightarrow> resource_kind \<Rightarrow> jsstr \<Rightarrow> bool" where
  "retirement_args_ok scopeId kind resourceKey \<longleftrightarrow> ok_text is_OPAQUE scopeId \<and> ok_text is_OPAQUE resourceKey \<and> issued_kind_ok kind"

text \<open>
  \<open>#publicAdmissionRetirement\<close> renders the times of an intent as dates, which throws beyond the
  last date; the outcome carries the stored intent.
\<close>

definition publicAdmissionRetirement :: "ledger_env \<Rightarrow> admission_retirement \<Rightarrow> ledger_error + outcome" where
  "publicAdmissionRetirement env r =
     (case iso env (rm_createdAt r) of
        Inl e \<Rightarrow> Inl e
      | Inr t \<Rightarrow> (case rm_completedAt r of None \<Rightarrow> Inr (ORetirement r) | Some c \<Rightarrow> map_sum id (\<lambda>_. ORetirement r) (iso env c)))"

definition beginAdmissionRetirement ::
  "ledger_env \<Rightarrow> ledger_bounds \<Rightarrow> int \<Rightarrow> jsstr \<Rightarrow> resource_kind \<Rightarrow> jsstr \<Rightarrow> ledger_error + outcome operation" where
  "beginAdmissionRetirement env o' now scopeId kind resourceKey =
     (if \<not> retirement_args_ok scopeId kind resourceKey \<or> \<not> clock_ok now then Inl TypeErr
      else Inr (\<lambda>l.
        case List.find (is_retirement scopeId kind resourceKey) (lg_admissionRetirements l) of
          Some existing \<Rightarrow> map_sum id (\<lambda>r. (l, r)) (publicAdmissionRetirement env existing)
        | None \<Rightarrow>
            if int (length (lg_admissionRetirements l)) \<ge> maximumAdmissionReservations o' then Inl CapacityErr
            else
              let created = \<lparr>rm_scopeId = scopeId, rm_resourceKind = kind, rm_resourceKey = resourceKey, rm_complete = False,
                    rm_createdAt = now, rm_completedAt = None\<rparr>
              in map_sum id (\<lambda>r. (l\<lparr>lg_admissionRetirements := lg_admissionRetirements l @ [created]\<rparr>, r)) (publicAdmissionRetirement env created)))"

definition getAdmissionRetirement :: "ledger_env \<Rightarrow> jsstr \<Rightarrow> resource_kind \<Rightarrow> jsstr \<Rightarrow> ledger_error + outcome operation" where
  "getAdmissionRetirement env scopeId kind resourceKey =
     (if \<not> retirement_args_ok scopeId kind resourceKey then Inl TypeErr
      else Inr (\<lambda>l.
        case List.find (is_retirement scopeId kind resourceKey) (lg_admissionRetirements l) of
          None \<Rightarrow> Inr (l, ONotFound)
        | Some existing \<Rightarrow> map_sum id (\<lambda>r. (l, r)) (publicAdmissionRetirement env existing)))"

definition completeAdmissionRetirement :: "int \<Rightarrow> jsstr \<Rightarrow> resource_kind \<Rightarrow> jsstr \<Rightarrow> ledger_error + outcome operation" where
  "completeAdmissionRetirement now scopeId kind resourceKey =
     (if \<not> retirement_args_ok scopeId kind resourceKey \<or> \<not> clock_ok now then Inl TypeErr
      else Inr (\<lambda>l.
        case find_index (is_retirement scopeId kind resourceKey) (lg_admissionRetirements l) of
          None \<Rightarrow> Inr (l, ONotFound)
        | Some i \<Rightarrow>
            let current = lg_admissionRetirements l ! i in
            if rm_complete current then Inr (l, OAlreadyCompleted)
            else Inr (l\<lparr>lg_admissionRetirements :=
              (lg_admissionRetirements l)[i := current\<lparr>rm_complete := True, rm_completedAt := Some now\<rparr>]\<rparr>, OCompleted)))"

subsection \<open>Idempotency\<close>

text \<open>\<open>canonicalPath\<close>: \<open>/^\/(?!\/)[\x21-\x7E]{0,2047}$/\<close>, without \<open>?\<close> and \<open>#\<close>.\<close>

definition is_canonical_path :: "jsstr \<Rightarrow> bool" where
  "is_canonical_path s \<longleftrightarrow>
     head_rest (\<lambda>c. c = 47) (\<lambda>c. 0x21 \<le> c \<and> c \<le> 0x7E) 0 2047 s \<and> (case s of _ # c # _ \<Rightarrow> c \<noteq> 47 | _ \<Rightarrow> True) \<and>
     63 \<notin> set s \<and> 35 \<notin> set s"

definition validateIdempotency :: "idempotency_key \<Rightarrow> bool" where
  "validateIdempotency k \<longleftrightarrow>
     ok_text is_OPAQUE (ik_principalId k) \<and> ok_text is_OPAQUE (ik_scopeId k) \<and>
     ok_text (\<lambda>s. list_all (\<lambda>c. 65 \<le> c \<and> c \<le> 90) s \<and> 3 \<le> length s \<and> length s \<le> 16) (ik_method k) \<and>
     is_canonical_path (ik_canonicalPath k) \<and> ok_text (head_rest is_alnum (name_char ''._~-'') 15 127) (ik_idempotencyKey k) \<and>
     ok_text is_DIGEST (ik_canonicalBodyDigest k)"

definition idempotency_text :: "idempotency_key \<Rightarrow> jsstr" where
  "idempotency_text k =
     ik_principalId k @ nul @ ik_scopeId k @ nul @ ik_method k @ nul @ ik_canonicalPath k @ nul @ ik_idempotencyKey k"

definition key_digest :: "ledger_env \<Rightarrow> idempotency_key \<Rightarrow> jsstr" where
  "key_digest env k = sha256 env (idempotency_text k)"

definition binding_digest :: "ledger_env \<Rightarrow> idempotency_key \<Rightarrow> jsstr" where
  "binding_digest env k = sha256 env (idempotency_text k @ nul @ ik_canonicalBodyDigest k)"

definition unexpired_records :: "int \<Rightarrow> ledger \<Rightarrow> stored_idempotency list" where
  "unexpired_records now l = filter (\<lambda>i. si_expiresAt i > now) (lg_idempotency l)"

text \<open>\<open>retained.result!\<close>: a complete record has a result, which the validation of the ledger ensures.\<close>

definition stored_result :: "stored_idempotency \<Rightarrow> jsval" where
  "stored_result i = (case si_result i of None \<Rightarrow> JUndef | Some v \<Rightarrow> v)"

definition reserveIdempotency :: "ledger_env \<Rightarrow> ledger_bounds \<Rightarrow> int \<Rightarrow> jsstr \<Rightarrow> idempotency_key \<Rightarrow> ledger_error + outcome operation" where
  "reserveIdempotency env o' now drawn k =
     (let token = opaque ''res'' drawn in
      if \<not> validateIdempotency k \<or> \<not> clock_ok now then Inl TypeErr
      else Inr (\<lambda>l.
        let records = unexpired_records now l; kept = l\<lparr>lg_idempotency := records\<rparr> in
        case List.find (\<lambda>i. sameDigest (si_keyDigest i) (key_digest env k)) records of
          Some retained \<Rightarrow>
            Inr (kept, if \<not> sameDigest (si_bindingDigest retained) (binding_digest env k) then OConflict
              else if si_complete retained then OReplay (stored_result retained) else OPending)
        | None \<Rightarrow>
            if int (length records) \<ge> maximumIdempotencyRecords o' then Inl CapacityErr
            else Inr (l\<lparr>lg_idempotency := records @
              [\<lparr>si_keyDigest = key_digest env k, si_bindingDigest = binding_digest env k, si_reservationDigest = sha256 env token,
                si_complete = False, si_createdAt = now, si_completedAt = None, si_expiresAt = now + day_ms, si_result = None\<rparr>]\<rparr>, ONew token)))"

definition reservation_token_ok :: "jsstr \<Rightarrow> bool" where
  "reservation_token_ok = ok_text (head_rest is_alnum (name_char ''._~-'') 0 127)"

text \<open>A completed record: it is kept for another day.\<close>

definition completed :: "int \<Rightarrow> jsval \<Rightarrow> stored_idempotency \<Rightarrow> stored_idempotency" where
  "completed now v i = i\<lparr>si_complete := True, si_result := Some v, si_completedAt := Some now, si_expiresAt := now + day_ms\<rparr>"

definition completeIdempotency ::
  "ledger_env \<Rightarrow> int \<Rightarrow> idempotency_key \<Rightarrow> jsstr \<Rightarrow> jsval \<Rightarrow> ledger_error + outcome operation" where
  "completeIdempotency env now k reservationToken v =
     (if \<not> validateIdempotency k \<or> \<not> reservation_token_ok reservationToken \<or> \<not> json_result_ok v \<or> \<not> clock_ok now then Inl TypeErr
      else Inr (\<lambda>l.
        let missing = Inr (l\<lparr>lg_idempotency := unexpired_records now l\<rparr>, ONotFound) in
        case find_index (\<lambda>i. sameDigest (si_keyDigest i) (key_digest env k)) (lg_idempotency l) of
          None \<Rightarrow> missing
        | Some n \<Rightarrow>
            let current = lg_idempotency l ! n in
            if si_expiresAt current \<le> now then missing
            else if \<not> sameDigest (si_bindingDigest current) (binding_digest env k) \<or>
                \<not> sameDigest (si_reservationDigest current) (sha256 env reservationToken) then Inr (l, OReservationMismatch)
            else if si_complete current then Inr (l, OAlreadyCompletedWith (stored_result current))
            else Inr (l\<lparr>lg_idempotency := (lg_idempotency l)[n := completed now v current]\<rparr>, OCompleted)))"

definition releaseIdempotency :: "ledger_env \<Rightarrow> int \<Rightarrow> idempotency_key \<Rightarrow> jsstr \<Rightarrow> ledger_error + outcome operation" where
  "releaseIdempotency env now k reservationToken =
     (if \<not> validateIdempotency k \<or> \<not> reservation_token_ok reservationToken \<or> \<not> clock_ok now then Inl TypeErr
      else Inr (\<lambda>l.
        let retained = unexpired_records now l; kept = l\<lparr>lg_idempotency := retained\<rparr> in
        case find_index (\<lambda>i. sameDigest (si_keyDigest i) (key_digest env k)) retained of
          None \<Rightarrow> Inr (kept, ONotFound)
        | Some n \<Rightarrow>
            let current = retained ! n in
            if si_complete current \<or> \<not> sameDigest (si_bindingDigest current) (binding_digest env k) \<or>
               \<not> sameDigest (si_reservationDigest current) (sha256 env reservationToken) then Inr (kept, OReservationMismatch)
            else Inr (l\<lparr>lg_idempotency := remove_index n retained\<rparr>, OReleased)))"

definition reconcileIdempotency :: "ledger_env \<Rightarrow> int \<Rightarrow> idempotency_key \<Rightarrow> jsval \<Rightarrow> ledger_error + outcome operation" where
  "reconcileIdempotency env now k v =
     (if \<not> validateIdempotency k \<or> \<not> json_result_ok v \<or> \<not> clock_ok now then Inl TypeErr
      else Inr (\<lambda>l.
        let missing = Inr (l\<lparr>lg_idempotency := unexpired_records now l\<rparr>, ONotFound) in
        case find_index (\<lambda>i. sameDigest (si_keyDigest i) (key_digest env k)) (lg_idempotency l) of
          None \<Rightarrow> missing
        | Some n \<Rightarrow>
            let current = lg_idempotency l ! n in
            if si_expiresAt current \<le> now then missing
            else if \<not> sameDigest (si_bindingDigest current) (binding_digest env k) then Inr (l, OConflict)
            else if si_complete current then Inr (l, OAlreadyCompletedWith (stored_result current))
            else Inr (l\<lparr>lg_idempotency := (lg_idempotency l)[n := completed now v current]\<rparr>, OCompleted)))"

definition cleanupIdempotency :: "int \<Rightarrow> ledger_error + outcome operation" where
  "cleanupIdempotency now =
     (if \<not> clock_ok now then Inl TypeErr
      else Inr (\<lambda>l. Inr (l\<lparr>lg_idempotency := unexpired_records now l\<rparr>,
        OCount (int (length (lg_idempotency l)) - int (length (unexpired_records now l))))))"

subsection \<open>Tickets\<close>

definition mintTicket :: "ledger_env \<Rightarrow> ledger_bounds \<Rightarrow> int \<Rightarrow> jsstr \<Rightarrow> ticket_binding \<Rightarrow> int \<Rightarrow> ledger_error + outcome operation" where
  "mintTicket env o' now drawn binding ttlSeconds =
     (let ticket = opaque [] drawn; digest = sha256 env ticket; expiresAt = now + ttlSeconds * 1000 in
      if \<not> validateBinding binding \<or> \<not> bounded 1 max_ticket_ttl_seconds ttlSeconds \<or> \<not> clock_ok now then Inl TypeErr
      else Inr (\<lambda>l.
        let retained = filter (\<lambda>t. tk_expiresAt t > now) (lg_tickets l) in
        if int (length retained) \<ge> maximumTickets o' \<or> list_ex (\<lambda>t. sameDigest (tk_digest t) digest) retained then Inl CapacityErr
        else map_sum id (\<lambda>t. (l\<lparr>lg_tickets := retained @
            [\<lparr>tk_digest = digest, tk_binding = binding, tk_mintedAt = now, tk_expiresAt = expiresAt, tk_consumedAt = None,
              tk_revokedAt = None\<rparr>]\<rparr>, OMinted ticket t)) (iso env expiresAt)))"

definition claim :: "ledger_env \<Rightarrow> int \<Rightarrow> jsstr \<Rightarrow> (ticket_binding \<Rightarrow> bool) \<Rightarrow> outcome operation" where
  "claim env now ticket matches =
     (\<lambda>l. case find_index (\<lambda>t. sameDigest (tk_digest t) (sha256 env ticket)) (lg_tickets l) of
        None \<Rightarrow> Inr (l, ORejected)
      | Some i \<Rightarrow>
          let current = lg_tickets l ! i in
          if tk_expiresAt current \<le> now \<or> tk_consumedAt current \<noteq> None \<or> tk_revokedAt current \<noteq> None \<or> \<not> matches (tk_binding current)
          then Inr (l, ORejected)
          else Inr (l\<lparr>lg_tickets := (lg_tickets l)[i := current\<lparr>tk_consumedAt := Some now\<rparr>]\<rparr>, OConsumed (tk_binding current)))"

text \<open>\<open>consumeTicket\<close> returns whether the outcome of the claim was \<open>consumed\<close>.\<close>

definition consumeTicket :: "ledger_env \<Rightarrow> int \<Rightarrow> ticket_binding \<Rightarrow> jsstr \<Rightarrow> ledger_error + outcome operation" where
  "consumeTicket env now binding ticket =
     (if \<not> validateBinding binding \<or> \<not> ok_text is_TICKET ticket \<or> \<not> clock_ok now then Inl TypeErr
      else Inr (\<lambda>l. map_sum id (\<lambda>(l, r). (l, OTruth (case r of OConsumed b \<Rightarrow> True | _ \<Rightarrow> False))) (claim env now ticket (\<lambda>b. b = binding) l)))"

definition consumeTicketForTransport ::
  "ledger_env \<Rightarrow> int \<Rightarrow> jsstr \<Rightarrow> jsstr \<Rightarrow> jsstr \<Rightarrow> jsstr \<Rightarrow> jsstr \<Rightarrow> ledger_error + outcome operation" where
  "consumeTicketForTransport env now ticket principalId audience providerControlGeneration purpose =
     (if \<not> ok_text is_OPAQUE principalId \<or> \<not> ok_text is_audience audience \<or> \<not> ok_text is_GENERATION providerControlGeneration \<or>
         \<not> ok_text is_purpose purpose \<or> \<not> ok_text is_TICKET ticket \<or> \<not> clock_ok now then Inl TypeErr
      else Inr (claim env now ticket (\<lambda>b. tb_principalId b = principalId \<and> tb_audience b = audience \<and>
        tb_providerControlGeneration b = providerControlGeneration \<and> tb_purpose b = purpose)))"

definition revokeTicket :: "ledger_env \<Rightarrow> int \<Rightarrow> jsstr \<Rightarrow> ledger_error + outcome operation" where
  "revokeTicket env now ticket =
     (if \<not> ok_text is_TICKET ticket \<or> \<not> clock_ok now then Inl TypeErr
      else Inr (\<lambda>l.
        let retained = filter (\<lambda>t. tk_expiresAt t > now) (lg_tickets l); kept = l\<lparr>lg_tickets := retained\<rparr> in
        case find_index (\<lambda>t. sameDigest (tk_digest t) (sha256 env ticket)) retained of
          None \<Rightarrow> Inr (kept, OTruth False)
        | Some i \<Rightarrow>
            if tk_revokedAt (retained ! i) \<noteq> None \<or> tk_consumedAt (retained ! i) \<noteq> None then Inr (kept, OTruth False)
            else Inr (l\<lparr>lg_tickets := retained[i := (retained ! i)\<lparr>tk_revokedAt := Some now\<rparr>]\<rparr>, OTruth True)))"

text \<open>The causes of a revocation, the first of which covers two causes with the same effect.\<close>

datatype revocation =
    ControlGeneration jsstr
  | RuntimeGeneration jsstr
  | ExplicitCancellation "jsstr option" "jsstr option" "jsstr option"

definition absent_or_same :: "jsstr option \<Rightarrow> jsstr \<Rightarrow> bool" where
  "absent_or_same x s \<longleftrightarrow> (case x of None \<Rightarrow> True | Some t \<Rightarrow> s = t)"

definition revocationMatches :: "jsstr \<Rightarrow> jsstr \<Rightarrow> revocation \<Rightarrow> ticket_binding \<Rightarrow> bool" where
  "revocationMatches scopeId runtimeId cause b \<longleftrightarrow>
     tb_scopeId b = scopeId \<and> tb_runtimeId b = runtimeId \<and>
     (case cause of
        ControlGeneration g \<Rightarrow> tb_providerControlGeneration b = g
      | RuntimeGeneration g \<Rightarrow> tb_runtimeGeneration b = g
      | ExplicitCancellation rg pg purpose \<Rightarrow>
          absent_or_same rg (tb_runtimeGeneration b) \<and> absent_or_same pg (tb_providerControlGeneration b) \<and> absent_or_same purpose (tb_purpose b))"

definition revokeTickets :: "int \<Rightarrow> jsstr \<Rightarrow> jsstr \<Rightarrow> revocation \<Rightarrow> ledger_error + outcome operation" where
  "revokeTickets now scopeId runtimeId cause =
     (if \<not> ok_text is_OPAQUE scopeId \<or> \<not> ok_text is_OPAQUE runtimeId \<or> \<not> clock_ok now then Inl TypeErr
      else Inr (\<lambda>l.
        let retained = filter (\<lambda>t. tk_expiresAt t > now) (lg_tickets l);
            hit = (\<lambda>t. tk_consumedAt t = None \<and> tk_revokedAt t = None \<and> revocationMatches scopeId runtimeId cause (tk_binding t))
        in Inr (l\<lparr>lg_tickets := map (\<lambda>t. if hit t then t\<lparr>tk_revokedAt := Some now\<rparr> else t) retained\<rparr>,
          OCount (int (length (filter hit retained))))))"

subsection \<open>Tombstones\<close>

definition is_tombstone :: "jsstr \<Rightarrow> resource_kind \<Rightarrow> jsstr \<Rightarrow> stored_tombstone \<Rightarrow> bool" where
  "is_tombstone scopeId kind resourceId t \<longleftrightarrow> tm_scopeId t = scopeId \<and> tm_resourceKind t = kind \<and> tm_resourceId t = resourceId"

definition putTombstone ::
  "ledger_env \<Rightarrow> ledger_bounds \<Rightarrow> int \<Rightarrow> jsstr \<Rightarrow> resource_kind \<Rightarrow> jsstr \<Rightarrow> jsstr \<Rightarrow> ledger_error + outcome operation" where
  "putTombstone env o' now scopeId kind resourceId deleted =
     (case timestamp env deleted of
        None \<Rightarrow> Inl TypeErr
      | Some deletedAt \<Rightarrow>
          if \<not> ok_text is_OPAQUE scopeId \<or> \<not> ok_text is_OPAQUE resourceId \<or> \<not> clock_ok now \<or>
             (case date_parse env deletedAt of None \<Rightarrow> False | Some d \<Rightarrow> d > now) then Inl TypeErr
          else Inr (\<lambda>l.
            let retained = filter (\<lambda>t. tm_expiresAtMs t > now) (lg_tombstones l); kept = l\<lparr>lg_tombstones := retained\<rparr> in
            case List.find (is_tombstone scopeId kind resourceId) retained of
              Some existing \<Rightarrow> Inr (kept, OTombstone False existing)
            | None \<Rightarrow>
                if int (length (filter (\<lambda>t. tm_scopeId t = scopeId) retained)) \<ge> maximumTombstonesPerScope o' then Inr (kept, OCapacityExceeded)
                else
                  let expiresAtMs = now + tombstoneRetentionMs o'
                  in map_sum id (\<lambda>expiresAt.
                       let item = \<lparr>tm_scopeId = scopeId, tm_resourceKind = kind, tm_resourceId = resourceId, tm_deletedAt = deletedAt,
                             tm_createdAt = now, tm_expiresAt = expiresAt, tm_expiresAtMs = expiresAtMs\<rparr>
                       in (l\<lparr>lg_tombstones := retained @ [item]\<rparr>, OTombstone True item)) (iso env expiresAtMs)))"

definition getTombstone :: "int \<Rightarrow> jsstr \<Rightarrow> resource_kind \<Rightarrow> jsstr \<Rightarrow> ledger_error + outcome operation" where
  "getTombstone now scopeId kind resourceId =
     (if \<not> ok_text is_OPAQUE scopeId \<or> \<not> ok_text is_OPAQUE resourceId \<or> \<not> clock_ok now then Inl TypeErr
      else Inr (\<lambda>l.
        let retained = filter (\<lambda>t. tm_expiresAtMs t > now) (lg_tombstones l)
        in Inr (l\<lparr>lg_tombstones := retained\<rparr>,
          case List.find (is_tombstone scopeId kind resourceId) retained of None \<Rightarrow> ONotFound | Some t \<Rightarrow> OTombstoneFound t)))"

definition cleanupTombstones :: "int \<Rightarrow> jsstr \<Rightarrow> ledger_error + outcome operation" where
  "cleanupTombstones now scopeId =
     (if \<not> ok_text is_OPAQUE scopeId \<or> \<not> clock_ok now then Inl TypeErr
      else Inr (\<lambda>l.
        let kept = filter (\<lambda>t. tm_scopeId t \<noteq> scopeId \<or> tm_expiresAtMs t > now) (lg_tombstones l)
        in Inr (l\<lparr>lg_tombstones := kept\<rparr>, OCount (int (length (lg_tombstones l)) - int (length kept)))))"

end
