(* ===== verification/LedgerJournal.thy ===== *)
theory LedgerJournal
  imports LedgerOperations
begin

text \<open>
  The operations of \<open>SharedControlStore\<close> on the issued identifiers, the records that say once and for
  all which backend object an identifier stands for, and on the journal of infrastructure events with
  its cursors.
\<close>

subsection \<open>Issued identifiers\<close>

definition is_issued :: "resource_kind \<Rightarrow> jsstr \<Rightarrow> issued_identifier \<Rightarrow> bool" where
  "is_issued kind resourceId i \<longleftrightarrow> ii_resourceKind i = kind \<and> ii_resourceId i = resourceId"

definition issuedRecord :: "jsstr \<Rightarrow> resource_kind \<Rightarrow> jsstr \<Rightarrow> jsstr \<Rightarrow> issued_identifier" where
  "issuedRecord scopeId kind resourceId bindingDigest =
     \<lparr>ii_scopeId = scopeId, ii_resourceKind = kind, ii_resourceId = resourceId, ii_bindingDigest = bindingDigest,
      ii_incarnationUid = None, ii_deletedAt = None, ii_deletion = None, ii_creation = None\<rparr>"

definition set_issued :: "nat \<Rightarrow> issued_identifier \<Rightarrow> ledger \<Rightarrow> ledger" where
  "set_issued n i l = l\<lparr>lg_issuedIdentifiers := (lg_issuedIdentifiers l)[n := i]\<rparr>"

definition reserveIssuedIdentifier ::
  "ledger_bounds \<Rightarrow> jsstr \<Rightarrow> resource_kind \<Rightarrow> jsstr \<Rightarrow> jsstr \<Rightarrow> ledger_error + outcome operation" where
  "reserveIssuedIdentifier o' scopeId kind resourceId bindingDigest =
     (let record = issuedRecord scopeId kind resourceId bindingDigest in
      if \<not> issued_record_ok record then Inl TypeErr
      else Inr (\<lambda>l.
        case List.find (is_issued kind resourceId) (lg_issuedIdentifiers l) of
          Some existing \<Rightarrow>
            Inr (l, OIssued (if ii_scopeId existing = scopeId \<and> sameDigest (ii_bindingDigest existing) bindingDigest
              then IExisting else IConflict) existing)
        | None \<Rightarrow>
            if int (length (lg_issuedIdentifiers l)) \<ge> maximumIssuedIdentifiers o' then Inl CapacityErr
            else Inr (l\<lparr>lg_issuedIdentifiers := lg_issuedIdentifiers l @ [record]\<rparr>, OIssued IReserved record)))"

definition bindIssuedIdentifier ::
  "jsstr \<Rightarrow> resource_kind \<Rightarrow> jsstr \<Rightarrow> jsstr \<Rightarrow> jsstr \<Rightarrow> jsstr option \<Rightarrow> ledger_error + outcome operation" where
  "bindIssuedIdentifier scopeId kind resourceId bindingDigest incarnationUid creationOwnerToken =
     (let requested = (issuedRecord scopeId kind resourceId bindingDigest)\<lparr>ii_incarnationUid := Some incarnationUid\<rparr> in
      if \<not> issued_record_ok requested \<or> \<not> ok_text is_OPAQUE incarnationUid then Inl TypeErr
      else Inr (\<lambda>l.
        case find_index (is_issued kind resourceId) (lg_issuedIdentifiers l) of
          None \<Rightarrow> Inr (l, OIssued IConflict requested)
        | Some n \<Rightarrow>
            let current = lg_issuedIdentifiers l ! n in
            if (case ii_creation current of None \<Rightarrow> False | Some c \<Rightarrow> Some (cc_ownerToken c) \<noteq> creationOwnerToken)
            then Inr (l, OIssued IConflict current)
            else if ii_scopeId current \<noteq> scopeId \<or> \<not> sameDigest (ii_bindingDigest current) bindingDigest \<or> ii_deletedAt current \<noteq> None \<or>
                ii_incarnationUid current \<noteq> None \<and> ii_incarnationUid current \<noteq> Some incarnationUid
            then Inr (l, OIssued IConflict current)
            else if ii_incarnationUid current = Some incarnationUid then Inr (l, OIssued IExisting current)
            else Inr (set_issued n requested l, OIssued IBound requested)))"

definition claimIssuedIdentifierCreation ::
  "resource_kind \<Rightarrow> jsstr \<Rightarrow> jsstr \<Rightarrow> jsstr \<Rightarrow> int \<Rightarrow> int \<Rightarrow> ledger_error + outcome operation" where
  "claimIssuedIdentifierCreation kind resourceId bindingDigest ownerToken now leaseExpiresAt =
     (if \<not> issued_kind_ok kind \<or> \<not> ok_text is_OPAQUE resourceId \<or> \<not> ok_text is_DIGEST bindingDigest \<or> \<not> ok_text is_OPAQUE ownerToken \<or>
         \<not> bounded 0 max_safe_integer now \<or> \<not> bounded (now + 1) max_safe_integer leaseExpiresAt then Inl TypeErr
      else Inr (\<lambda>l.
        case find_index (is_issued kind resourceId) (lg_issuedIdentifiers l) of
          None \<Rightarrow> Inr (l, ONotFound)
        | Some n \<Rightarrow>
            let current = lg_issuedIdentifiers l ! n;
                claimed = (\<lambda>until. current\<lparr>ii_creation := Some \<lparr>cc_ownerToken = ownerToken, cc_leaseExpiresAt = until\<rparr>\<rparr>)
            in
            if \<not> sameDigest (ii_bindingDigest current) bindingDigest \<or> ii_deletedAt current \<noteq> None \<or> ii_incarnationUid current \<noteq> None
            then Inr (l, OIssued IConflict current)
            else (case ii_creation current of
                None \<Rightarrow> Inr (set_issued n (claimed leaseExpiresAt) l, OIssued IClaimed (claimed leaseExpiresAt))
              | Some c \<Rightarrow>
                  if cc_ownerToken c = ownerToken then
                    let updated = claimed (max (cc_leaseExpiresAt c) leaseExpiresAt) in Inr (set_issued n updated l, OIssued IOwned updated)
                  else if cc_leaseExpiresAt c > now then Inr (l, OIssued IInProgress current)
                  else Inr (set_issued n (claimed leaseExpiresAt) l, OIssued ITakenOver (claimed leaseExpiresAt)))))"

text \<open>An \<open>incarnationUid\<close> that is not given is the empty string, which is no opaque text.\<close>

definition beginIssuedIdentifierDeletion ::
  "ledger_env \<Rightarrow> resource_kind \<Rightarrow> jsstr \<Rightarrow> jsstr \<Rightarrow> jsstr \<Rightarrow> jsstr \<Rightarrow> jsstr \<Rightarrow> ledger_error + outcome operation" where
  "beginIssuedIdentifierDeletion env kind resourceId incarnationUid expectedRevision backendRevision requestedAt =
     (case timestamp env requestedAt of
        None \<Rightarrow> Inl TypeErr
      | Some requestedAt \<Rightarrow>
          if \<not> issued_kind_ok kind \<or> \<not> ok_text is_OPAQUE resourceId \<or> \<not> ok_text is_OPAQUE incarnationUid \<or>
             \<not> ok_text is_OPAQUE expectedRevision \<or> \<not> ok_text is_OPAQUE backendRevision then Inl TypeErr
          else Inr (\<lambda>l.
            case find_index (is_issued kind resourceId) (lg_issuedIdentifiers l) of
              None \<Rightarrow> Inr (l, ONotFound)
            | Some n \<Rightarrow>
                let current = lg_issuedIdentifiers l ! n in
                if ii_incarnationUid current \<noteq> Some incarnationUid \<or> ii_deletedAt current \<noteq> None then Inr (l, OIssued IConflict current)
                else (case ii_deletion current of
                    Some d \<Rightarrow>
                      Inr (l, OIssued (if di_expectedRevision d = expectedRevision \<and> di_backendRevision d = backendRevision
                        then IExisting else IConflict) current)
                  | None \<Rightarrow>
                      let updated = current\<lparr>ii_deletion := Some \<lparr>di_expectedRevision = expectedRevision,
                            di_backendRevision = backendRevision, di_requestedAt = requestedAt\<rparr>\<rparr>
                      in Inr (set_issued n updated l, OIssued IBegun updated))))"

definition cancelIssuedIdentifierDeletion ::
  "resource_kind \<Rightarrow> jsstr \<Rightarrow> jsstr \<Rightarrow> jsstr \<Rightarrow> jsstr \<Rightarrow> ledger_error + outcome operation" where
  "cancelIssuedIdentifierDeletion kind resourceId incarnationUid expectedRevision backendRevision =
     (if \<not> issued_kind_ok kind \<or> \<not> ok_text is_OPAQUE resourceId \<or> \<not> ok_text is_OPAQUE incarnationUid \<or>
         \<not> ok_text is_OPAQUE expectedRevision \<or> \<not> ok_text is_OPAQUE backendRevision then Inl TypeErr
      else Inr (\<lambda>l.
        case find_index (is_issued kind resourceId) (lg_issuedIdentifiers l) of
          None \<Rightarrow> Inr (l, ONotFound)
        | Some n \<Rightarrow>
            let current = lg_issuedIdentifiers l ! n in
            if ii_incarnationUid current \<noteq> Some incarnationUid \<or> ii_deletedAt current \<noteq> None then Inr (l, OIssued IConflict current)
            else (case ii_deletion current of
                None \<Rightarrow> Inr (l, OIssued IAlreadyClear current)
              | Some d \<Rightarrow>
                  if di_expectedRevision d \<noteq> expectedRevision \<or> di_backendRevision d \<noteq> backendRevision
                  then Inr (l, OIssued IConflict current)
                  else let cleared = current\<lparr>ii_deletion := None\<rparr> in Inr (set_issued n cleared l, OIssued ICancelled cleared))))"

definition markIssuedIdentifierDeleted ::
  "ledger_env \<Rightarrow> resource_kind \<Rightarrow> jsstr \<Rightarrow> jsstr \<Rightarrow> jsstr \<Rightarrow> ledger_error + outcome operation" where
  "markIssuedIdentifierDeleted env kind resourceId incarnationUid deleted =
     (case timestamp env deleted of
        None \<Rightarrow> Inl TypeErr
      | Some deletedAt \<Rightarrow>
          if \<not> issued_kind_ok kind \<or> \<not> ok_text is_OPAQUE resourceId \<or> \<not> ok_text is_OPAQUE incarnationUid then Inl TypeErr
          else Inr (\<lambda>l.
            case find_index (is_issued kind resourceId) (lg_issuedIdentifiers l) of
              None \<Rightarrow> Inr (l, ONotFound)
            | Some n \<Rightarrow>
                let current = lg_issuedIdentifiers l ! n in
                if ii_incarnationUid current \<noteq> Some incarnationUid then Inr (l, OIssued IConflict current)
                else if ii_deletedAt current \<noteq> None then Inr (l, OIssued IExisting current)
                else
                  let updated = (issuedRecord (ii_scopeId current) (ii_resourceKind current) (ii_resourceId current)
                        (ii_bindingDigest current))\<lparr>ii_incarnationUid := Some incarnationUid, ii_deletedAt := Some deletedAt\<rparr>
                  in Inr (set_issued n updated l, OIssued IDeleted updated)))"

definition getIssuedIdentifier :: "resource_kind \<Rightarrow> jsstr \<Rightarrow> ledger_error + outcome operation" where
  "getIssuedIdentifier kind resourceId =
     (if \<not> issued_kind_ok kind \<or> \<not> ok_text is_OPAQUE resourceId then Inl TypeErr
      else Inr (\<lambda>l. Inr (l, OIssuedFound (List.find (is_issued kind resourceId) (lg_issuedIdentifiers l)))))"

subsection \<open>Cursors\<close>

text \<open>\<open>toString(36)\<close> of a sequence, and \<open>parseInt(s, 36)\<close> of digits.\<close>

definition digit36 :: "nat \<Rightarrow> 16 word" where
  "digit36 d = (if d < 10 then of_nat (48 + d) else of_nat (87 + d))"

definition digit36_value :: "16 word \<Rightarrow> nat option" where
  "digit36_value c = (if 48 \<le> c \<and> c \<le> 57 then Some (unat c - 48) else if 97 \<le> c \<and> c \<le> 122 then Some (unat c - 87) else None)"

fun to_base36 :: "nat \<Rightarrow> jsstr" where
  "to_base36 n = (if n < 36 then [digit36 n] else to_base36 (n div 36) @ [digit36 (n mod 36)])"

declare to_base36.simps [simp del]

fun parse_base36 :: "nat \<Rightarrow> jsstr \<Rightarrow> nat option" where
  "parse_base36 n [] = Some n"
| "parse_base36 n (c # s) = (case digit36_value c of None \<Rightarrow> None | Some d \<Rightarrow> parse_base36 (36 * n + d) s)"

definition cursor_prefix :: "ledger_env \<Rightarrow> jsstr \<Rightarrow> jsstr" where
  "cursor_prefix env scopeId = js ''k1.'' @ take 16 (sha256 env scopeId) @ js ''.''"

definition eventCursor :: "ledger_env \<Rightarrow> jsstr \<Rightarrow> int \<Rightarrow> jsstr" where
  "eventCursor env scopeId sequence = cursor_prefix env scopeId @ to_base36 (nat sequence)"

text \<open>
  The expression \<open>/^k1\.([a-f0-9]{16})\.([0-9a-z]+)$/\<close>, whose first group is the start of the digest of
  the scope; the value of the second group must be a safe integer.
\<close>

definition decodeEventCursor :: "ledger_env \<Rightarrow> jsstr \<Rightarrow> jsstr \<Rightarrow> int option" where
  "decodeEventCursor env scopeId s =
     (let n = length (js ''k1.'') in
      if take n s = js ''k1.'' \<and> list_all (\<lambda>c. 48 \<le> c \<and> c \<le> 57 \<or> 97 \<le> c \<and> c \<le> 102) (take 16 (drop n s)) \<and>
         length (take 16 (drop n s)) = 16 \<and> take 1 (drop (n + 16) s) = js ''.'' \<and> drop (n + 17) s \<noteq> [] \<and>
         take 16 (drop n s) = take 16 (sha256 env scopeId)
      then (case parse_base36 0 (drop (n + 17) s) of
              None \<Rightarrow> None
            | Some k \<Rightarrow> if bounded 0 max_safe_integer (int k) then Some (int k) else None)
      else None)"

subsection \<open>Events\<close>

definition head_sequence :: "ledger \<Rightarrow> jsstr \<Rightarrow> int" where
  "head_sequence l scopeId = (case head_of (lg_eventHeads l) scopeId of None \<Rightarrow> 0 | Some n \<Rightarrow> n)"

definition eventHeadCursor :: "ledger_env \<Rightarrow> jsstr \<Rightarrow> ledger_error + outcome operation" where
  "eventHeadCursor env scopeId =
     (if \<not> ok_text is_OPAQUE scopeId then Inl TypeErr else Inr (\<lambda>l. Inr (l, OCursor (eventCursor env scopeId (head_sequence l scopeId)))))"

definition same_event :: "infrastructure_event \<Rightarrow> infrastructure_event \<Rightarrow> bool" where
  "same_event d e \<longleftrightarrow> ev_resourceKind d = ev_resourceKind e \<and> ev_resourceId d = ev_resourceId e \<and> ev_scopeId d = ev_scopeId e \<and>
     ev_revision d = ev_revision e \<and> ev_phase d = ev_phase e"

definition retained_events :: "ledger_bounds \<Rightarrow> int \<Rightarrow> ledger \<Rightarrow> stored_event list" where
  "retained_events o' now l = filter (\<lambda>s. se_storedAt s > now - eventRetentionMs o') (lg_events l)"

definition appendInfrastructureEvent :: "ledger_env \<Rightarrow> ledger_bounds \<Rightarrow> int \<Rightarrow> infrastructure_event \<Rightarrow> ledger_error + outcome operation" where
  "appendInfrastructureEvent env o' now given_event =
     (case validateEvent env given_event of
        None \<Rightarrow> Inl TypeErr
      | Some event \<Rightarrow>
          if \<not> clock_ok now then Inl TypeErr
          else Inr (\<lambda>l.
            let retained = retained_events o' now l; scopeId = ev_scopeId event in
            case List.find (\<lambda>s. ev_eventId (se_event s) = ev_eventId event) retained of
              Some duplicate \<Rightarrow>
                if \<not> same_event (se_event duplicate) event then Inl UnavailableErr
                else Inr (l\<lparr>lg_events := retained\<rparr>, OAppended (se_event duplicate) (eventCursor env scopeId (se_sequence duplicate)))
            | None \<Rightarrow>
                if int (length retained) \<ge> maximumEvents o' then Inl CapacityErr
                else
                  let headIndex = find_index (\<lambda>h. eh_scopeId h = scopeId) (lg_eventHeads l);
                      sequence = head_sequence l scopeId + 1;
                      nextHead = \<lparr>eh_scopeId = scopeId, eh_sequence = sequence\<rparr>
                  in
                  if headIndex = None \<and> int (length (lg_eventHeads l)) \<ge> maximumEvents o' then Inl CapacityErr
                  else if \<not> is_safe_integer sequence then Inl CapacityErr
                  else Inr (l\<lparr>lg_eventHeads := (case headIndex of None \<Rightarrow> lg_eventHeads l @ [nextHead] | Some n \<Rightarrow> (lg_eventHeads l)[n := nextHead]),
                        lg_events := retained @ [\<lparr>se_sequence = sequence, se_event = event, se_storedAt = now\<rparr>]\<rparr>,
                      OAppended event (eventCursor env scopeId sequence))))"

definition scoped_events :: "ledger_bounds \<Rightarrow> int \<Rightarrow> jsstr \<Rightarrow> ledger \<Rightarrow> stored_event list" where
  "scoped_events o' now scopeId l =
     filter (\<lambda>s. ev_scopeId (se_event s) = scopeId \<and> se_storedAt s > now - eventRetentionMs o') (lg_events l)"

text \<open>\<open>readAfter\<close>; the reset event of an expired cursor is given by its identifier.\<close>

definition readAfter ::
  "ledger_env \<Rightarrow> ledger_bounds \<Rightarrow> int \<Rightarrow> jsstr \<Rightarrow> jsstr \<Rightarrow> jsstr \<Rightarrow> int option \<Rightarrow> ledger_error + outcome operation" where
  "readAfter env o' now drawn scopeId after given_limit =
     (let limit = (case given_limit of None \<Rightarrow> max_list_limit | Some n \<Rightarrow> n) in
      case decodeEventCursor env scopeId after of
        None \<Rightarrow> Inl TypeErr
      | Some sequence \<Rightarrow>
          if \<not> ok_text is_OPAQUE scopeId \<or> \<not> bounded 1 max_list_limit limit \<or> \<not> clock_ok now then Inl TypeErr
          else Inr (\<lambda>l.
            let scoped = scoped_events o' now scopeId l; head = head_sequence l scopeId;
                expired = (case scoped of s # _ \<Rightarrow> sequence < se_sequence s - 1 | [] \<Rightarrow> sequence < head)
            in
            if sequence > head then Inl TypeErr
            else if expired then map_sum id (\<lambda>_. (l, OCursorExpired (opaque ''reset'' drawn))) (iso env now)
            else
              let selected = take (nat limit) (filter (\<lambda>s. se_sequence s > sequence) scoped);
                  tail = (if selected = [] then sequence else se_sequence (last selected))
              in Inr (l, OEvents (map se_event selected) (eventCursor env scopeId tail))))"

end
