(* ===== verification/LedgerCalls.thy ===== *)
theory LedgerCalls
  imports LedgerJournal
begin

text \<open>
  The operations of the shared control store as one type of calls, and \<open>perform\<close>, the effect of a
  call that meets no other: the arguments are checked, the ledger is validated before and after the
  operation, and an error leaves the ledger as it was. The lemmas say which part of the ledger each
  call leaves alone.
\<close>

subsection \<open>Calls\<close>

text \<open>The constructors have the arguments of the methods, with the random text a method draws first.\<close>

datatype call =
    InstallProviderControlGeneration jsstr jsstr "jsstr option"
  | IsCurrentProviderControlGeneration jsstr jsstr "jsstr option"
  | RegisterProviderConnection ticket_binding jsstr jsstr
  | ActivateProviderConnection ticket_binding jsstr
  | IsProviderConnectionActive jsstr
  | RenewProviderConnection jsstr
  | CloseProviderConnection jsstr
  | CloseProviderControlGeneration jsstr jsstr
  | ReleaseProviderControlGeneration jsstr jsstr "jsstr option"
  | AcceptProviderAssertionKeyring int jsstr jsstr "jsstr option" "int option"
  | ClaimProviderAssertionNonce jsstr int
  | AcquireRuntimeIngress jsstr jsstr jsstr jsstr int
  | RenewRuntimeIngress jsstr jsstr jsstr jsstr int
  | ReleaseRuntimeIngress jsstr jsstr jsstr jsstr
  | BeginRuntimeIngressDrain jsstr jsstr bool
  | ReopenRuntimeIngress jsstr jsstr
  | RuntimeIngressState jsstr jsstr
  | ReserveAdmission jsstr admission_request
  | CommitAdmission jsstr
  | ReleaseAdmission jsstr
  | ReconcileAdmissionAbsence jsstr resource_kind jsstr "admission_transition option"
  | BeginAdmissionRetirement jsstr resource_kind jsstr
  | GetAdmissionRetirement jsstr resource_kind jsstr
  | CompleteAdmissionRetirement jsstr resource_kind jsstr
  | ReserveIdempotency jsstr idempotency_key
  | CompleteIdempotency idempotency_key jsstr jsval
  | ReleaseIdempotency idempotency_key jsstr
  | ReconcileIdempotency idempotency_key jsval
  | CleanupIdempotency
  | MintTicket jsstr ticket_binding int
  | ConsumeTicket ticket_binding jsstr
  | ConsumeTicketForTransport jsstr jsstr jsstr jsstr jsstr
  | RevokeTicket jsstr
  | RevokeTickets jsstr jsstr revocation
  | PutTombstone jsstr resource_kind jsstr jsstr
  | GetTombstone jsstr resource_kind jsstr
  | CleanupTombstones jsstr
  | ReserveIssuedIdentifier jsstr resource_kind jsstr jsstr
  | BindIssuedIdentifier jsstr resource_kind jsstr jsstr jsstr "jsstr option"
  | ClaimIssuedIdentifierCreation resource_kind jsstr jsstr jsstr int int
  | BeginIssuedIdentifierDeletion resource_kind jsstr jsstr jsstr jsstr jsstr
  | CancelIssuedIdentifierDeletion resource_kind jsstr jsstr jsstr jsstr
  | MarkIssuedIdentifierDeleted resource_kind jsstr jsstr jsstr
  | GetIssuedIdentifier resource_kind jsstr
  | EventHeadCursor jsstr
  | AppendEvent infrastructure_event
  | ReadAfter jsstr jsstr jsstr "int option"

fun call_op :: "ledger_env \<Rightarrow> ledger_bounds \<Rightarrow> int \<Rightarrow> call \<Rightarrow> ledger_error + outcome operation" where
  "call_op env o' now (InstallProviderControlGeneration p g w) = installProviderControlGeneration now p g w"
| "call_op env o' now (IsCurrentProviderControlGeneration p g w) = isCurrentProviderControlGeneration p g w"
| "call_op env o' now (RegisterProviderConnection b c t) = registerProviderConnection env o' now b c t"
| "call_op env o' now (ActivateProviderConnection b t) = activateProviderConnection env now b t"
| "call_op env o' now (IsProviderConnectionActive c) = isProviderConnectionActive now c"
| "call_op env o' now (RenewProviderConnection c) = renewProviderConnection now c"
| "call_op env o' now (CloseProviderConnection c) = closeProviderConnection now c"
| "call_op env o' now (CloseProviderControlGeneration p g) = closeProviderControlGeneration now p g"
| "call_op env o' now (ReleaseProviderControlGeneration p g w) = releaseProviderControlGeneration now p g w"
| "call_op env o' now (AcceptProviderAssertionKeyring r a k p n) = acceptProviderAssertionKeyring now r a k p n"
| "call_op env o' now (ClaimProviderAssertionNonce n e) = claimProviderAssertionNonce env o' now n e"
| "call_op env o' now (AcquireRuntimeIngress d r g e t) = acquireRuntimeIngress env now d r g e t"
| "call_op env o' now (RenewRuntimeIngress r g e i t) = renewRuntimeIngress env now r g e i t"
| "call_op env o' now (ReleaseRuntimeIngress r g e i) = releaseRuntimeIngress env r g e i"
| "call_op env o' now (BeginRuntimeIngressDrain r g i) = beginRuntimeIngressDrain now r g i"
| "call_op env o' now (ReopenRuntimeIngress r g) = reopenRuntimeIngress r g"
| "call_op env o' now (RuntimeIngressState r g) = runtimeIngressState now r g"
| "call_op env o' now (ReserveAdmission d q) = reserveAdmission env o' now d q"
| "call_op env o' now (CommitAdmission t) = commitAdmission env now t"
| "call_op env o' now (ReleaseAdmission t) = releaseAdmission env now t"
| "call_op env o' now (ReconcileAdmissionAbsence s k r t) = reconcileAdmissionAbsence env now s k r t"
| "call_op env o' now (BeginAdmissionRetirement s k r) = beginAdmissionRetirement env o' now s k r"
| "call_op env o' now (GetAdmissionRetirement s k r) = getAdmissionRetirement env s k r"
| "call_op env o' now (CompleteAdmissionRetirement s k r) = completeAdmissionRetirement now s k r"
| "call_op env o' now (ReserveIdempotency d k) = reserveIdempotency env o' now d k"
| "call_op env o' now (CompleteIdempotency k t v) = completeIdempotency env now k t v"
| "call_op env o' now (ReleaseIdempotency k t) = releaseIdempotency env now k t"
| "call_op env o' now (ReconcileIdempotency k v) = reconcileIdempotency env now k v"
| "call_op env o' now CleanupIdempotency = cleanupIdempotency now"
| "call_op env o' now (MintTicket d b t) = mintTicket env o' now d b t"
| "call_op env o' now (ConsumeTicket b t) = consumeTicket env now b t"
| "call_op env o' now (ConsumeTicketForTransport t p a g u) = consumeTicketForTransport env now t p a g u"
| "call_op env o' now (RevokeTicket t) = revokeTicket env now t"
| "call_op env o' now (RevokeTickets s r c) = revokeTickets now s r c"
| "call_op env o' now (PutTombstone s k r d) = putTombstone env o' now s k r d"
| "call_op env o' now (GetTombstone s k r) = getTombstone now s k r"
| "call_op env o' now (CleanupTombstones s) = cleanupTombstones now s"
| "call_op env o' now (ReserveIssuedIdentifier s k r b) = reserveIssuedIdentifier o' s k r b"
| "call_op env o' now (BindIssuedIdentifier s k r b i c) = bindIssuedIdentifier s k r b i c"
| "call_op env o' now (ClaimIssuedIdentifierCreation k r b w n e) = claimIssuedIdentifierCreation k r b w n e"
| "call_op env o' now (BeginIssuedIdentifierDeletion k r i x b t) = beginIssuedIdentifierDeletion env k r i x b t"
| "call_op env o' now (CancelIssuedIdentifierDeletion k r i x b) = cancelIssuedIdentifierDeletion k r i x b"
| "call_op env o' now (MarkIssuedIdentifierDeleted k r i d) = markIssuedIdentifierDeleted env k r i d"
| "call_op env o' now (GetIssuedIdentifier k r) = getIssuedIdentifier k r"
| "call_op env o' now (EventHeadCursor s) = eventHeadCursor env s"
| "call_op env o' now (AppendEvent e) = appendInfrastructureEvent env o' now e"
| "call_op env o' now (ReadAfter d s c n) = readAfter env o' now d s c n"

text \<open>The calls that go through \<open>#read\<close>; the others go through \<open>#mutate\<close>.\<close>

fun is_read :: "call \<Rightarrow> bool" where
  "is_read (IsCurrentProviderControlGeneration p g w) = True"
| "is_read (IsProviderConnectionActive c) = True"
| "is_read (GetAdmissionRetirement s k r) = True"
| "is_read (GetIssuedIdentifier k r) = True"
| "is_read (EventHeadCursor s) = True"
| "is_read (ReadAfter d s c n) = True"
| "is_read c = False"

text \<open>
  One attempt on a ledger that was read: \<open>#mutate\<close> turns an error other than a \<open>TypeError\<close> or a
  capacity error into an unavailable one, \<open>#read\<close> only those of reading and validating.
\<close>

definition mutate_error :: "ledger_error \<Rightarrow> ledger_error" where
  "mutate_error e = (if e = RangeErr then UnavailableErr else e)"

definition attempt :: "ledger_env \<Rightarrow> ledger_bounds \<Rightarrow> bool \<Rightarrow> outcome operation \<Rightarrow> ledger \<Rightarrow> ledger_error + (ledger \<times> outcome)" where
  "attempt env o' reads f l =
     (if \<not> validateState env o' l then Inl UnavailableErr
      else case f l of
          Inl e \<Rightarrow> Inl (if reads then e else mutate_error e)
        | Inr (l', r) \<Rightarrow> if reads then Inr (l, r) else if validateState env o' l' then Inr (l', r) else Inl UnavailableErr)"

definition perform :: "ledger_env \<Rightarrow> ledger_bounds \<Rightarrow> int \<Rightarrow> call \<Rightarrow> ledger \<Rightarrow> (ledger_error + outcome) \<times> ledger" where
  "perform env o' now c l =
     (case call_op env o' now c of
        Inl e \<Rightarrow> (Inl e, l)
      | Inr f \<Rightarrow> (case attempt env o' (is_read c) f l of Inl e \<Rightarrow> (Inl e, l) | Inr (l', r) \<Rightarrow> (Inr r, l')))"

subsection \<open>What a call leaves alone\<close>

lemmas connection_ops =
  installProviderControlGeneration_def isCurrentProviderControlGeneration_def registerProviderConnection_def
  activateProviderConnection_def isProviderConnectionActive_def renewProviderConnection_def closeProviderConnection_def
  closeProviderControlGeneration_def releaseProviderControlGeneration_def acceptProviderAssertionKeyring_def
  claimProviderAssertionNonce_def

lemmas ingress_ops =
  acquireRuntimeIngress_def renewRuntimeIngress_def releaseRuntimeIngress_def beginRuntimeIngressDrain_def reopenRuntimeIngress_def
  runtimeIngressState_def

lemmas admission_ops =
  reserveAdmission_def commitAdmission_def releaseAdmission_def reconcileAdmissionAbsence_def beginAdmissionRetirement_def
  getAdmissionRetirement_def completeAdmissionRetirement_def

lemmas idempotency_ops =
  reserveIdempotency_def completeIdempotency_def releaseIdempotency_def reconcileIdempotency_def cleanupIdempotency_def

lemmas ticket_ops =
  mintTicket_def consumeTicketForTransport_def revokeTicket_def revokeTickets_def

lemmas tombstone_ops = putTombstone_def getTombstone_def cleanupTombstones_def

lemmas issued_ops =
  reserveIssuedIdentifier_def bindIssuedIdentifier_def claimIssuedIdentifierCreation_def beginIssuedIdentifierDeletion_def
  cancelIssuedIdentifierDeletion_def markIssuedIdentifierDeleted_def getIssuedIdentifier_def set_issued_def

lemmas event_ops = eventHeadCursor_def appendInfrastructureEvent_def readAfter_def

text \<open>
  \<open>op_sat Q x\<close>: whenever the operation \<open>x\<close> returns, \<open>Q\<close> relates the ledger before, the ledger after and the
  outcome. The rules follow the conditionals of an operation down to its returns.
\<close>

definition res_sat :: "(ledger \<Rightarrow> 'r \<Rightarrow> bool) \<Rightarrow> ledger_error + (ledger \<times> 'r) \<Rightarrow> bool" where
  "res_sat Q x \<longleftrightarrow> (case x of Inl e \<Rightarrow> True | Inr (l', r) \<Rightarrow> Q l' r)"

definition op_sat :: "(ledger \<Rightarrow> ledger \<Rightarrow> 'r \<Rightarrow> bool) \<Rightarrow> ledger_error + 'r operation \<Rightarrow> bool" where
  "op_sat Q x \<longleftrightarrow> (case x of Inl e \<Rightarrow> True | Inr f \<Rightarrow> (\<forall>l. res_sat (Q l) (f l)))"

lemma res_sat_rules:
  "res_sat Q (Inl e)"
  "Q l' r \<Longrightarrow> res_sat Q (Inr (l', r))"
  "(b \<Longrightarrow> res_sat Q x) \<Longrightarrow> (\<not> b \<Longrightarrow> res_sat Q y) \<Longrightarrow> res_sat Q (if b then x else y)"
  "(opt = None \<Longrightarrow> res_sat Q x) \<Longrightarrow> (\<And>a. opt = Some a \<Longrightarrow> res_sat Q (h a)) \<Longrightarrow> res_sat Q (case opt of None \<Rightarrow> x | Some a \<Rightarrow> h a)"
  "(\<And>a b. p = (a, b) \<Longrightarrow> res_sat Q (h' a b)) \<Longrightarrow> res_sat Q (case p of (a, b) \<Rightarrow> h' a b)"
  "(\<And>z. y' = Inr z \<Longrightarrow> res_sat Q (Inr (k z))) \<Longrightarrow> res_sat Q (map_sum id k y')"
       apply (auto simp: res_sat_def split: option.splits prod.splits)[5]
  by (cases y') (auto simp: res_sat_def split: prod.splits)

lemma op_sat_rules:
  "op_sat Q (Inl e)"
  "(\<And>l. res_sat (Q l) (f l)) \<Longrightarrow> op_sat Q (Inr f)"
  "(b \<Longrightarrow> op_sat Q x) \<Longrightarrow> (\<not> b \<Longrightarrow> op_sat Q y) \<Longrightarrow> op_sat Q (if b then x else y)"
  "(opt = None \<Longrightarrow> op_sat Q x) \<Longrightarrow> (\<And>a. opt = Some a \<Longrightarrow> op_sat Q (h a)) \<Longrightarrow> op_sat Q (case opt of None \<Rightarrow> x | Some a \<Rightarrow> h a)"
  by (auto simp: op_sat_def split: option.splits)

lemma op_satD: "op_sat Q x \<Longrightarrow> x = Inr f \<Longrightarrow> f l = Inr (l', r) \<Longrightarrow> Q l l' r"
  by (auto simp: op_sat_def res_sat_def dest!: spec [of _ l])

lemma consumeTicket_sat:
  assumes "\<And>l. res_sat (\<lambda>l' r. Q l l' (OTruth (case r of OConsumed b \<Rightarrow> True | _ \<Rightarrow> False))) (claim env now ticket (\<lambda>b. b = binding) l)"
  shows "op_sat Q (consumeTicket env now binding ticket)"
  unfolding consumeTicket_def
proof (intro op_sat_rules)
  fix l
  show "res_sat (Q l) (map_sum id (\<lambda>(l, r). (l, OTruth (case r of OConsumed b \<Rightarrow> True | _ \<Rightarrow> False))) (claim env now ticket (\<lambda>b. b = binding) l))"
    using assms [of l] by (auto simp: res_sat_def split: sum.splits prod.splits)
qed

lemma claim_sat:
  assumes "Q l ORejected"
    and "\<And>i. find_index (\<lambda>t. sameDigest (tk_digest t) (sha256 env ticket)) (lg_tickets l) = Some i \<Longrightarrow> tk_consumedAt (lg_tickets l ! i) = None \<Longrightarrow>
      Q (l\<lparr>lg_tickets := (lg_tickets l)[i := (lg_tickets l ! i)\<lparr>tk_consumedAt := Some now\<rparr>]\<rparr>) (OConsumed (tk_binding (lg_tickets l ! i)))"
  shows "res_sat Q (claim env now ticket matches l)"
  using assms unfolding claim_def Let_def by (intro res_sat_rules) auto

lemmas sat_rules = consumeTicket_sat claim_sat op_sat_rules res_sat_rules

fun ticket_call :: "call \<Rightarrow> bool" where
  "ticket_call (InstallProviderControlGeneration p g w) = True"
| "ticket_call (MintTicket d b t) = True"
| "ticket_call (ConsumeTicket b t) = True"
| "ticket_call (ConsumeTicketForTransport t p a g u) = True"
| "ticket_call (RevokeTicket t) = True"
| "ticket_call (RevokeTickets s r c) = True"
| "ticket_call c = False"

lemma tickets_frame:
  assumes "\<not> ticket_call c"
  shows "op_sat (\<lambda>l l' r. lg_tickets l' = lg_tickets l) (call_op env o' now c)"
  using assms
  apply (cases c)
  apply (simp_all only: ticket_call.simps not_True_eq_False call_op.simps connection_ops ingress_ops admission_ops idempotency_ops tombstone_ops issued_ops event_ops Let_def)
  apply (intro sat_rules; simp; fail)+
  done

fun admission_call :: "call \<Rightarrow> bool" where
  "admission_call (ReserveAdmission d q) = True"
| "admission_call (CommitAdmission t) = True"
| "admission_call (ReleaseAdmission t) = True"
| "admission_call (ReconcileAdmissionAbsence s k r t) = True"
| "admission_call c = False"

lemma reservations_frame:
  assumes "\<not> admission_call c"
  shows "op_sat (\<lambda>l l' r. lg_admissionReservations l' = lg_admissionReservations l) (call_op env o' now c)"
  using assms
  apply (cases c)
  apply (simp_all only: admission_call.simps not_True_eq_False call_op.simps connection_ops ingress_ops admission_ops idempotency_ops
    ticket_ops tombstone_ops issued_ops event_ops Let_def)
  apply (intro sat_rules; simp; fail)+
  done

fun idempotency_call :: "call \<Rightarrow> bool" where
  "idempotency_call (ReserveIdempotency d k) = True"
| "idempotency_call (CompleteIdempotency k t v) = True"
| "idempotency_call (ReleaseIdempotency k t) = True"
| "idempotency_call (ReconcileIdempotency k v) = True"
| "idempotency_call CleanupIdempotency = True"
| "idempotency_call c = False"

lemma idempotency_frame:
  assumes "\<not> idempotency_call c"
  shows "op_sat (\<lambda>l l' r. lg_idempotency l' = lg_idempotency l) (call_op env o' now c)"
  using assms
  apply (cases c)
  apply (simp_all only: idempotency_call.simps not_True_eq_False call_op.simps connection_ops ingress_ops admission_ops idempotency_ops
    ticket_ops tombstone_ops issued_ops event_ops Let_def)
  apply (intro sat_rules; simp; fail)+
  done

fun event_call :: "call \<Rightarrow> bool" where
  "event_call (AppendEvent e) = True"
| "event_call c = False"

lemma events_frame:
  assumes "\<not> event_call c"
  shows "op_sat (\<lambda>l l' r. lg_events l' = lg_events l \<and> lg_eventHeads l' = lg_eventHeads l) (call_op env o' now c)"
  using assms
  apply (cases c)
  apply (simp_all only: event_call.simps not_True_eq_False call_op.simps connection_ops ingress_ops admission_ops idempotency_ops
    ticket_ops tombstone_ops issued_ops event_ops Let_def)
  apply (intro sat_rules; simp; fail)+
  done

subsection \<open>Logs of calls\<close>

text \<open>
  A log lists the calls that returned, with their clock and result, in the order in which they did.
  \<open>replay\<close> performs them one after the other and compares the results; a call that found the storage
  unavailable may also have had no effect at all.
\<close>

type_synonym result = "ledger_error + outcome"
type_synonym log = "(int \<times> call \<times> result) list"

fun replay_log :: "ledger_env \<Rightarrow> ledger_bounds \<Rightarrow> ledger \<Rightarrow> log \<Rightarrow> ledger option" where
  "replay_log env o' l [] = Some l"
| "replay_log env o' l ((now, c, r) # log) =
     (case perform env o' now c l of (r', l') \<Rightarrow>
        if r' = r then replay_log env o' l' log else if r = Inl UnavailableErr then replay_log env o' l log else None)"

lemma perform_Inl: "perform env o' now c l = (Inl e, l') \<Longrightarrow> l' = l"
  by (auto simp: perform_def split: sum.splits prod.splits)

lemma perform_InrE:
  assumes "perform env o' now c l = (Inr x, l')" and "op_sat Q (call_op env o' now c)"
  obtains l1 where "Q l l1 x" and "l' = (if is_read c then l else l1)" and "validateState env o' l" and "validateState env o' l'"
proof -
  obtain f where f: "call_op env o' now c = Inr f"
    using assms(1) by (cases "call_op env o' now c") (simp_all add: perform_def)
  then have p: "(case attempt env o' (is_read c) f l of Inl e \<Rightarrow> (Inl e, l) | Inr (l', r) \<Rightarrow> (Inr r, l')) = (Inr x, l')"
    using assms(1) by (simp add: perform_def)
  then have a: "attempt env o' (is_read c) f l = Inr (l', x)"
    by (cases "attempt env o' (is_read c) f l") auto
  then have v: "validateState env o' l" by (simp add: attempt_def split: if_splits)
  then obtain l1 where l1: "f l = Inr (l1, x)" and l': "l' = (if is_read c then l else l1)"
    and v': "is_read c \<or> validateState env o' l1"
    using a by (cases "f l") (auto simp: attempt_def split: if_splits)
  show thesis
    by (rule that [of l1]) (use op_satD [OF assms(2) f l1] l' v v' in auto)
qed

lemma replay_append: "replay_log env o' l (log @ log') = Option.bind (replay_log env o' l log) (\<lambda>m. replay_log env o' m log')"
  by (induction log arbitrary: l) (auto split: prod.splits)

lemma replay_invariant:
  assumes "replay_log env o' l log = Some l'" and "P l"
    and step: "\<And>now c x l l'. P l \<Longrightarrow> (now, c, Inr x) \<in> set log \<Longrightarrow> perform env o' now c l = (Inr x, l') \<Longrightarrow> P l'"
  shows "P l'"
  using assms(1,2) step
proof (induction log arbitrary: l)
  case Nil
  then show ?case by simp
next
  case (Cons entry log)
  obtain now c r where e: "entry = (now, c, r)" by (cases entry)
  obtain r' m where p: "perform env o' now c l = (r', m)" by fastforce
  show ?case
  proof (cases "r' = r")
    case True
    have Pm: "P m"
    proof (cases r)
      case (Inl err)
      then show ?thesis using perform_Inl p True Cons.prems(2) by metis
    next
      case (Inr x)
      then show ?thesis using Cons.prems(3) [OF Cons.prems(2), of now c x m] p True e by simp
    qed
    have "replay_log env o' m log = Some l'" using Cons.prems(1) p True e by simp
    then show ?thesis by (rule Cons.IH [OF _ Pm]) (rule Cons.prems(3); simp)
  next
    case False
    then have "replay_log env o' l log = Some l'" using Cons.prems(1) p e by (simp split: if_splits)
    then show ?thesis by (rule Cons.IH [OF _ Cons.prems(2)]) (rule Cons.prems(3); simp)
  qed
qed

end
