(* ===== verification/LedgerStorage.thy ===== *)
theory LedgerStorage
  imports LedgerCalls
begin

text \<open>
  The storage of the shared ledger and the replicas that share it. The storage keeps one row, the
  ledger with a version; a write names the version that was read and is refused when another write
  came between. \<open>#mutate\<close> reads, computes and writes, and starts again after a conflict. The replicas
  run on their own: a step of one of them is a read or a write, and steps of others may come between.
  Whatever the interleaving, the calls return what they would return one after the other, in the
  order in which they return.
\<close>

subsection \<open>Storage\<close>

datatype storage_error = ConflictErr | StorageUnavailable

record ('s, 'v) ledger_storage =
  st_read :: "'s \<Rightarrow> storage_error + ('v \<times> ledger) option"
  st_create :: "ledger \<Rightarrow> 's \<Rightarrow> storage_error + 's"
  st_replace :: "'v \<Rightarrow> ledger \<Rightarrow> 's \<Rightarrow> storage_error + 's"

text \<open>
  \<open>SqliteSharedControlLedgerStorage\<close>: the row of the table, if there is one. The text of the state is
  represented by the ledger that it is the text of.
\<close>

type_synonym sqlite_row = "(int \<times> ledger) option"

definition max_state_bytes :: nat where
  "max_state_bytes = 768 * 1024"

definition serialized_ok :: "ledger \<Rightarrow> bool" where
  "serialized_ok l \<longleftrightarrow> json_bytes (ledger_val l) \<le> max_state_bytes"

definition sqlite_snapshot :: "int \<times> ledger \<Rightarrow> storage_error + (int \<times> ledger)" where
  "sqlite_snapshot row =
     (case row of (version, l) \<Rightarrow>
        if \<not> is_safe_integer version \<or> version < 1 \<or> \<not> serialized_ok l then Inl StorageUnavailable else Inr (version, l))"

definition sqlite_read :: "sqlite_row \<Rightarrow> storage_error + (int \<times> ledger) option" where
  "sqlite_read row = (case row of None \<Rightarrow> Inr None | Some r \<Rightarrow> map_sum id Some (sqlite_snapshot r))"

definition sqlite_create :: "ledger \<Rightarrow> sqlite_row \<Rightarrow> storage_error + sqlite_row" where
  "sqlite_create l row =
     (if \<not> serialized_ok l then Inl StorageUnavailable
      else case row of Some _ \<Rightarrow> Inl ConflictErr | None \<Rightarrow> Inr (Some (1, l)))"

text \<open>The version is text of the form \<open>/^[1-9][0-9]{0,15}$/\<close>.\<close>

definition sqlite_replace :: "int \<Rightarrow> ledger \<Rightarrow> sqlite_row \<Rightarrow> storage_error + sqlite_row" where
  "sqlite_replace version l row =
     (if version < 1 \<or> version \<ge> 10 ^ 16 then Inl StorageUnavailable
      else if \<not> is_safe_integer version \<or> version = max_safe_integer then Inl StorageUnavailable
      else if \<not> serialized_ok l then Inl StorageUnavailable
      else case row of
          None \<Rightarrow> Inl ConflictErr
        | Some (current, _) \<Rightarrow> if current = version then Inr (Some (version + 1, l)) else Inl ConflictErr)"

definition sqlite_storage :: "(sqlite_row, int) ledger_storage" where
  "sqlite_storage = \<lparr>st_read = sqlite_read, st_create = sqlite_create, st_replace = sqlite_replace\<rparr>"

subsection \<open>Replicas\<close>

text \<open>
  A replica waits, or has a call with the attempts that are left, or holds the ledger that it
  computed, with the version that it read and the outcome.
\<close>

datatype 'v replica =
    Waiting
  | Trying int call nat
  | Holding int call nat "'v option" ledger outcome

definition state_or_initial :: "('v \<times> ledger) option \<Rightarrow> ledger" where
  "state_or_initial snapshot = (case snapshot of None \<Rightarrow> initialState | Some (v, l) \<Rightarrow> l)"

text \<open>
  An attempt up to its write: reading, validating, the operation, validating again. When the ledger
  is unchanged there is no write. The code compares canonical JSON texts of the two ledgers; they are
  compared as records here.
\<close>

definition load_step ::
  "ledger_env \<Rightarrow> ledger_bounds \<Rightarrow> ('s, 'v) ledger_storage \<Rightarrow> int \<Rightarrow> call \<Rightarrow> nat \<Rightarrow> 's \<Rightarrow> 'v replica \<times> result option" where
  "load_step env o' st now c n s =
     (case n of
        0 \<Rightarrow> (Waiting, Some (Inl UnavailableErr))
      | Suc k \<Rightarrow>
          (case st_read st s of
             Inl e \<Rightarrow> if e = ConflictErr \<and> \<not> is_read c then (Trying now c k, None) else (Waiting, Some (Inl UnavailableErr))
           | Inr snapshot \<Rightarrow>
               (case call_op env o' now c of
                  Inl e \<Rightarrow> (Waiting, Some (Inl e))
                | Inr f \<Rightarrow>
                    (case attempt env o' (is_read c) f (state_or_initial snapshot) of
                       Inl e \<Rightarrow> (Waiting, Some (Inl e))
                     | Inr (l', r) \<Rightarrow>
                         if l' = state_or_initial snapshot then (Waiting, Some (Inr r))
                         else (Holding now c k (map_option fst snapshot) l' r, None)))))"

text \<open>The write of an attempt.\<close>

definition write_step ::
  "('s, 'v) ledger_storage \<Rightarrow> int \<Rightarrow> call \<Rightarrow> nat \<Rightarrow> 'v option \<Rightarrow> ledger \<Rightarrow> outcome \<Rightarrow> 's \<Rightarrow> 's \<times> 'v replica \<times> result option" where
  "write_step st now c k version l' r s =
     (case (case version of None \<Rightarrow> st_create st l' s | Some v \<Rightarrow> st_replace st v l' s) of
        Inl ConflictErr \<Rightarrow> (s, Trying now c k, None)
      | Inl StorageUnavailable \<Rightarrow> (s, Waiting, Some (Inl UnavailableErr))
      | Inr s' \<Rightarrow> (s', Waiting, Some (Inr r)))"

definition entries_of :: "int \<Rightarrow> call \<Rightarrow> result option \<Rightarrow> log" where
  "entries_of now c out = (case out of None \<Rightarrow> [] | Some r \<Rightarrow> [(now, c, r)])"

text \<open>
  The reachable states of the storage with any number of replicas, and the log of the calls that
  returned. A call starts with the clock of its replica and the check of its arguments. A replica
  may stop at any point between its steps; a write and its entry in the log are one step, so a replica
  that stops after its write, before its caller has the result, leaves an entry as well. A query may
  fail in the database, which is busy or cannot read or write its file: the storage turns such a
  failure into \<open>SharedControlLedgerUnavailableError\<close>, nothing is written, and the call reports it.
\<close>

inductive replicas ::
  "ledger_env \<Rightarrow> ledger_bounds \<Rightarrow> ('s, 'v) ledger_storage \<Rightarrow> 's \<Rightarrow> log \<Rightarrow> 's \<Rightarrow> (nat \<Rightarrow> 'v replica) \<Rightarrow> bool"
  for env o' st s0
where
  start: "replicas env o' st s0 [] s0 (\<lambda>_. Waiting)"
| refuse: "replicas env o' st s0 log s rs \<Longrightarrow> rs i = Waiting \<Longrightarrow> call_op env o' now c = Inl e \<Longrightarrow>
    replicas env o' st s0 (log @ [(now, c, Inl e)]) s rs"
| invoke: "replicas env o' st s0 log s rs \<Longrightarrow> rs i = Waiting \<Longrightarrow> call_op env o' now c = Inr f \<Longrightarrow>
    replicas env o' st s0 log s (rs(i := Trying now c (nat (maximumContentionRetries o'))))"
| load: "replicas env o' st s0 log s rs \<Longrightarrow> rs i = Trying now c n \<Longrightarrow> load_step env o' st now c n s = (x, out) \<Longrightarrow>
    replicas env o' st s0 (log @ entries_of now c out) s (rs(i := x))"
| store: "replicas env o' st s0 log s rs \<Longrightarrow> rs i = Holding now c k version l' r \<Longrightarrow>
    write_step st now c k version l' r s = (s', x, out) \<Longrightarrow>
    replicas env o' st s0 (log @ entries_of now c out) s' (rs(i := x))"
| fail_load: "replicas env o' st s0 log s rs \<Longrightarrow> rs i = Trying now c n \<Longrightarrow>
    replicas env o' st s0 (log @ [(now, c, Inl UnavailableErr)]) s (rs(i := Waiting))"
| fail_store: "replicas env o' st s0 log s rs \<Longrightarrow> rs i = Holding now c k version l' r \<Longrightarrow>
    replicas env o' st s0 (log @ [(now, c, Inl UnavailableErr)]) s (rs(i := Waiting))"
| stop: "replicas env o' st s0 log s rs \<Longrightarrow> replicas env o' st s0 log s (rs(i := Waiting))"

subsection \<open>Compare and swap\<close>

text \<open>
  What the ledger relies on: a read returns the content, a creation succeeds only on an empty
  storage, a replacement only on the version it names, and then the version is newer than before.
\<close>

locale versioned_storage =
  fixes st :: "('s, 'v) ledger_storage"
    and content :: "'s \<Rightarrow> ('v \<times> ledger) option"
    and newer :: "'v \<Rightarrow> 'v \<Rightarrow> bool"
  assumes read_content: "st_read st s = Inr x \<Longrightarrow> x = content s"
    and create_empty: "st_create st l s = Inr s' \<Longrightarrow> content s = None \<and> (\<exists>v. content s' = Some (v, l))"
    and replace_same: "st_replace st v l s = Inr s' \<Longrightarrow> (\<exists>l0. content s = Some (v, l0)) \<and> (\<exists>v'. content s' = Some (v', l) \<and> newer v' v)"
    and newer_irrefl: "\<not> newer v v"
    and newer_trans: "newer u v \<Longrightarrow> newer v w \<Longrightarrow> newer u w"
begin

text \<open>\<open>since x y\<close>: when the content was \<open>x\<close>, it may later be \<open>y\<close>.\<close>

definition since :: "('v \<times> ledger) option \<Rightarrow> ('v \<times> ledger) option \<Rightarrow> bool" where
  "since x y \<longleftrightarrow> x = y \<or> (case (x, y) of (None, Some _) \<Rightarrow> True | (Some (v, _), Some (v', _)) \<Rightarrow> newer v' v | _ \<Rightarrow> False)"

lemma since_refl: "since x x"
  by (simp add: since_def)

lemma since_trans: "since x y \<Longrightarrow> since y z \<Longrightarrow> since x z"
  by (auto simp: since_def split: option.splits dest: newer_trans)

lemma since_create: "st_create st l s = Inr s' \<Longrightarrow> since (content s) (content s')"
  by (auto simp: since_def dest!: create_empty)

lemma since_replace: "st_replace st v l s = Inr s' \<Longrightarrow> since (content s) (content s')"
  by (auto simp: since_def dest!: replace_same)

text \<open>What a replica holds was computed from a content the storage once had.\<close>

fun computed :: "ledger_env \<Rightarrow> ledger_bounds \<Rightarrow> 's \<Rightarrow> 'v replica \<Rightarrow> bool" where
  "computed env o' s (Holding now c k version l' r) \<longleftrightarrow>
     (\<exists>x. since x (content s) \<and> version = map_option fst x \<and> perform env o' now c (state_or_initial x) = (Inr r, l'))"
| "computed env o' s x \<longleftrightarrow> True"

lemma computed_later: "computed env o' s x \<Longrightarrow> since (content s) (content s') \<Longrightarrow> computed env o' s' x"
  by (cases x) (auto intro: since_trans)

lemma load_computed: "load_step env o' st now c n s = (x, out) \<Longrightarrow> computed env o' s x"
  by (auto simp: load_step_def perform_def since_refl intro!: exI [of _ "content s"] dest!: read_content
      split: nat.splits sum.splits prod.splits if_splits)

lemma load_result:
  assumes "load_step env o' st now c n s = (x, Some r)"
  shows "r = Inl UnavailableErr \<or> perform env o' now c (state_or_initial (content s)) = (r, state_or_initial (content s))"
  using assms by (auto simp: load_step_def perform_def dest!: read_content split: nat.splits sum.splits prod.splits if_splits)

lemma store_since:
  "write_step st now c k version l' r s = (s', x, out) \<Longrightarrow> since (content s) (content s')"
  by (auto simp: write_step_def since_refl split: sum.splits option.splits storage_error.splits dest: since_create since_replace)

lemma store_computed: "write_step st now c k version l' r s = (s', x, out) \<Longrightarrow> computed env o' s' x"
  by (auto simp: write_step_def split: sum.splits option.splits storage_error.splits)

lemma written:
  assumes "(case version of None \<Rightarrow> st_create st l' s | Some v \<Rightarrow> st_replace st v l' s) = Inr s'"
    and "since x (content s)" and "version = map_option fst x"
  shows "content s = x \<and> state_or_initial (content s') = l'"
proof (cases x)
  case None
  then show ?thesis using assms create_empty by (fastforce simp: state_or_initial_def)
next
  case (Some p)
  then have "st_replace st (fst p) l' s = Inr s'" using assms by simp
  then obtain l0 v' where "content s = Some (fst p, l0)" and "content s' = Some (v', l')"
    using replace_same by blast
  then show ?thesis
    using assms(2) Some newer_irrefl by (auto simp: since_def state_or_initial_def split: prod.splits)
qed

lemma store_result:
  assumes "write_step st now c k version l' r s = (s', x, Some r')" and "computed env o' s (Holding now c k version l' r)"
  shows "r' = Inl UnavailableErr \<and> s' = s \<or>
    perform env o' now c (state_or_initial (content s)) = (r', state_or_initial (content s'))"
proof (cases "case version of None \<Rightarrow> st_create st l' s | Some v \<Rightarrow> st_replace st v l' s")
  case (Inl e)
  then show ?thesis using assms(1) by (cases e) (simp_all add: write_step_def)
next
  case (Inr s1)
  obtain y where y: "since y (content s)" "version = map_option fst y" "perform env o' now c (state_or_initial y) = (Inr r, l')"
    using assms(2) by auto
  have "s' = s1" "r' = Inr r" using assms(1) Inr by (simp_all add: write_step_def)
  then show ?thesis using written [OF Inr y(1,2)] y(3) by simp
qed

text \<open>Every state keeps what its replicas hold, and the log replays to the content of the storage.\<close>

lemma replay_snoc:
  assumes "replay_log env o' l0 log = Some l" and "r = Inl UnavailableErr \<and> l' = l \<or> perform env o' now c l = (r, l')"
  shows "replay_log env o' l0 (log @ [(now, c, r)]) = Some l'"
proof (cases "perform env o' now c l = (r, l')")
  case True
  then show ?thesis using assms(1) by (simp add: replay_append)
next
  case False
  then have "r = Inl UnavailableErr" "l' = l" using assms(2) by auto
  then show ?thesis using assms(1) perform_Inl [of env o' now c l UnavailableErr]
    by (cases "perform env o' now c l") (auto simp: replay_append)
qed

lemma replicas_replay:
  assumes "replicas env o' st s0 log s rs"
  shows "replay_log env o' (state_or_initial (content s0)) log = Some (state_or_initial (content s)) \<and> (\<forall>i. computed env o' s (rs i))"
  using assms
proof (induction rule: replicas.induct)
  case start
  then show ?case by simp
next
  case (refuse log s rs i now c e)
  then show ?case using replay_snoc [of env o' _ log _ "Inl e" _ now c] by (simp add: perform_def)
next
  case (invoke log s rs i now c f)
  then show ?case by simp
next
  case (load log s rs i now c n x out)
  have "replay_log env o' (state_or_initial (content s0)) (log @ entries_of now c out) = Some (state_or_initial (content s))"
  proof (cases out)
    case None
    then show ?thesis using load.IH by (simp add: entries_of_def)
  next
    case (Some r)
    then show ?thesis
      using load_result load.hyps(3) replay_snoc [OF conjunct1 [OF load.IH]] unfolding entries_of_def by (metis option.simps(5))
  qed
  then show ?case using load.IH load_computed [OF load.hyps(3)] by simp
next
  case (store log s rs i now c k version l' r s' x out)
  have "replay_log env o' (state_or_initial (content s0)) (log @ entries_of now c out) = Some (state_or_initial (content s'))"
  proof (cases out)
    case None
    then have "s' = s"
      using store.hyps(3) by (auto simp: write_step_def split: sum.splits storage_error.splits)
    then show ?thesis using store.IH None by (simp add: entries_of_def)
  next
    case (Some r')
    have "computed env o' s (Holding now c k version l' r)" using store.IH store.hyps(2) by metis
    then show ?thesis
      using store_result [OF store.hyps(3) [unfolded Some]] replay_snoc [OF conjunct1 [OF store.IH]] Some
      unfolding entries_of_def by (metis option.simps(5))
  qed
  moreover have "computed env o' s' (rs j)" for j
    using store.IH computed_later [OF _ store_since [OF store.hyps(3)]] by blast
  ultimately show ?case using store_computed [OF store.hyps(3)] by simp
next
  case (fail_load log s rs i now c n)
  then show ?case using replay_snoc [OF conjunct1 [OF fail_load.IH]] by simp
next
  case (fail_store log s rs i now c k version l' r)
  then show ?case using replay_snoc [OF conjunct1 [OF fail_store.IH]] by simp
next
  case (stop log s rs i)
  then show ?case by simp
qed

end

text \<open>The SQLite storage keeps these laws, with the row as its content and the order of the version numbers.\<close>

interpretation sqlite: versioned_storage sqlite_storage "\<lambda>row. row" "\<lambda>v w. w < (v::int)"
  by unfold_locales
     (auto simp: sqlite_storage_def sqlite_read_def sqlite_snapshot_def sqlite_create_def sqlite_replace_def split: option.splits prod.splits if_splits)

lemmas sqlite_replay = conjunct1 [OF sqlite.replicas_replay]

end
