(* ===== verification/LedgerSafety.thy ===== *)
theory LedgerSafety
  imports LedgerStorage
begin

text \<open>
  What the shared ledger promises to the replicas: a ticket is consumed once, a command runs under at
  most one reservation, and the admissions of a scope stay within its policy. Each promise is an
  invariant of the ledger that every call keeps, shown with the rules of \<open>op_sat\<close>, and then holds of
  the log of any run of the replicas.
\<close>

lemma op_sat_mono: "op_sat Q x \<Longrightarrow> (\<And>l l' r. Q l l' r \<Longrightarrow> Q' l l' r) \<Longrightarrow> op_sat Q' x"
  unfolding op_sat_def res_sat_def by (cases x) (auto split: sum.split_asm prod.split_asm sum.split prod.split)

subsection \<open>Lists\<close>

lemma find_index_Some:
  "find_index p xs = Some i \<Longrightarrow> i < length xs \<and> p (xs ! i)"
  by (induction xs arbitrary: i) (auto split: if_splits)

lemma find_index_None: "find_index p xs = None \<longleftrightarrow> (\<forall>x\<in>set xs. \<not> p x)"
  by (induction xs) auto

lemma remove_index_subset: "set (remove_index i xs) \<subseteq> set xs"
  using set_take_subset [of i xs] set_drop_subset [of "Suc i" xs] by (auto simp: remove_index_def)

lemma find_Some_iff: "List.find p xs = Some x \<Longrightarrow> x \<in> set xs \<and> p x"
  by (induction xs) (auto split: if_splits)

subsection \<open>Tickets\<close>

definition spent :: "jsstr \<Rightarrow> ledger \<Rightarrow> bool" where
  "spent d l \<longleftrightarrow> (\<forall>t\<in>set (lg_tickets l). tk_digest t = d \<longrightarrow> tk_consumedAt t \<noteq> None)"

text \<open>The ticket that a call consumed, or minted, by its result.\<close>

fun claimed_ticket :: "call \<Rightarrow> jsstr option" where
  "claimed_ticket (ConsumeTicket b t) = Some t"
| "claimed_ticket (ConsumeTicketForTransport t p a g u) = Some t"
| "claimed_ticket c = None"

definition consumed_ticket :: "call \<Rightarrow> result \<Rightarrow> jsstr option" where
  "consumed_ticket c r =
     (case r of Inr (OTruth True) \<Rightarrow> claimed_ticket c | Inr (OConsumed b) \<Rightarrow> claimed_ticket c | _ \<Rightarrow> None)"

definition minted_ticket :: "result \<Rightarrow> jsstr option" where
  "minted_ticket r = (case r of Inr (OMinted t e) \<Rightarrow> Some t | _ \<Rightarrow> None)"

lemma consumed_claimed: "consumed_ticket c r = Some t \<Longrightarrow> claimed_ticket c = Some t"
  by (auto simp: consumed_ticket_def split: sum.splits outcome.splits bool.splits)

lemma consumed_simps [simp]:
  "consumed_ticket c (Inr (OTruth False)) = None" "consumed_ticket c (Inr ORejected) = None"
  "consumed_ticket (ConsumeTicket b t) (Inr (OTruth True)) = Some t"
  "consumed_ticket (ConsumeTicketForTransport t p a g u) (Inr (OConsumed b)) = Some t"
  "minted_ticket (Inr (OMinted t e)) = Some t"
  by (simp_all add: consumed_ticket_def minted_ticket_def)

lemma consumed_other [simp]:
  "claimed_ticket c = None \<Longrightarrow> consumed_ticket c r = None"
  using consumed_claimed by (cases "consumed_ticket c r") fastforce+

lemma spent_consume: "spent d l \<Longrightarrow> spent d (l\<lparr>lg_tickets := (lg_tickets l)[i := x\<lparr>tk_consumedAt := Some now\<rparr>]\<rparr>)"
  using set_update_subset_insert [of "lg_tickets l" i] by (fastforce simp: spent_def)

lemma spent_filter: "spent d l \<Longrightarrow> spent d (l\<lparr>lg_tickets := filter P (lg_tickets l)\<rparr>)"
  by (simp add: spent_def)

lemma spent_revoke:
  assumes "spent d l" and "find_index Q (filter P (lg_tickets l)) = Some i"
  shows "spent d (l\<lparr>lg_tickets := (filter P (lg_tickets l))[i := (filter P (lg_tickets l) ! i)\<lparr>tk_revokedAt := r\<rparr>]\<rparr>)"
proof -
  have "filter P (lg_tickets l) ! i \<in> set (filter P (lg_tickets l))"
    using find_index_Some [OF assms(2)] nth_mem by blast
  then have "tk_digest x = d \<Longrightarrow> tk_consumedAt x \<noteq> None"
    if "x \<in> set ((filter P (lg_tickets l))[i := (filter P (lg_tickets l) ! i)\<lparr>tk_revokedAt := r\<rparr>])" for x
    using that assms(1) set_update_subset_insert [of "filter P (lg_tickets l)" i "(filter P (lg_tickets l) ! i)\<lparr>tk_revokedAt := r\<rparr>"]
    by (auto simp: spent_def)
  then show ?thesis by (simp add: spent_def)
qed

lemma revoke_replaced_same:
  "tk_digest (revoke_replaced p g now t) = tk_digest t" "tk_consumedAt (revoke_replaced p g now t) = tk_consumedAt t"
  by (simp_all add: revoke_replaced_def)

lemma spent_map:
  assumes "spent d l" and "\<And>t. tk_digest (h t) = tk_digest t" and "\<And>t. tk_consumedAt (h t) = tk_consumedAt t"
  shows "spent d (l\<lparr>lg_tickets := map h (filter P (lg_tickets l))\<rparr>)"
  using assms by (simp add: spent_def)

definition keeps_spent :: "ledger_env \<Rightarrow> jsstr \<Rightarrow> call \<Rightarrow> ledger \<Rightarrow> ledger \<Rightarrow> outcome \<Rightarrow> bool" where
  "keeps_spent env d c l l' r \<longleftrightarrow>
     (spent d l \<longrightarrow> (\<forall>t. minted_ticket (Inr r) = Some t \<longrightarrow> sha256 env t \<noteq> d) \<longrightarrow>
        spent d l' \<and> (\<forall>t. consumed_ticket c (Inr r) = Some t \<longrightarrow> sha256 env t \<noteq> d))"

lemma keeps_spent_consumed:
  assumes "find_index (\<lambda>t. sameDigest (tk_digest t) (sha256 env ticket)) (lg_tickets l) = Some i" and "tk_consumedAt (lg_tickets l ! i) = None"
    and "spent d l"
  shows "sha256 env ticket \<noteq> d"
  using find_index_Some [OF assms(1)] assms(2,3) by (auto simp: spent_def sameDigest_def)

lemma spent_calls: "op_sat (keeps_spent env d c) (call_op env o' now c)"
proof (cases "ticket_call c")
  case False
  then have "claimed_ticket c = None" by (cases c) simp_all
  then show ?thesis
    by (intro op_sat_mono [OF tickets_frame [OF False, of env o' now]]) (simp add: keeps_spent_def spent_def)
next
  case True
  then show ?thesis
  proof (cases c)
    case (InstallProviderControlGeneration p g w)
    show ?thesis unfolding InstallProviderControlGeneration call_op.simps connection_ops Let_def
      by (intro sat_rules) (simp_all add: keeps_spent_def spent_def revoke_replaced_same)
  next
    case (MintTicket dr b n)
    show ?thesis unfolding MintTicket call_op.simps ticket_ops Let_def
      by (intro sat_rules) (auto simp: keeps_spent_def spent_def)
  next
    case (ConsumeTicket b t)
    show ?thesis unfolding ConsumeTicket call_op.simps
      by (intro sat_rules) (auto simp: keeps_spent_def intro!: spent_consume dest: keeps_spent_consumed)
  next
    case (ConsumeTicketForTransport t p a g u)
    show ?thesis unfolding ConsumeTicketForTransport call_op.simps ticket_ops
      by (intro sat_rules) (auto simp: keeps_spent_def intro!: spent_consume dest: keeps_spent_consumed)
  next
    case (RevokeTicket t)
    show ?thesis unfolding RevokeTicket call_op.simps ticket_ops Let_def
      by (intro sat_rules) (auto simp: keeps_spent_def intro!: spent_filter spent_revoke)
  next
    case (RevokeTickets s r x)
    show ?thesis unfolding RevokeTickets call_op.simps ticket_ops Let_def
      by (intro sat_rules) (auto simp: keeps_spent_def intro!: spent_map)
  qed simp_all
qed

text \<open>A call that consumes a ticket leaves it spent: there is one ticket with its digest.\<close>

lemma spent_after_claim:
  assumes "find_index (\<lambda>t. sameDigest (tk_digest t) (sha256 env ticket)) (lg_tickets l) = Some i"
    and "distinct (map tk_digest (lg_tickets l))"
  shows "spent (sha256 env ticket) (l\<lparr>lg_tickets := (lg_tickets l)[i := (lg_tickets l ! i)\<lparr>tk_consumedAt := Some now\<rparr>]\<rparr>)"
proof -
  have i: "i < length (lg_tickets l)" "tk_digest (lg_tickets l ! i) = sha256 env ticket"
    using find_index_Some [OF assms(1)] by (auto simp: sameDigest_def)
  have "tk_consumedAt ((lg_tickets l)[i := (lg_tickets l ! i)\<lparr>tk_consumedAt := Some now\<rparr>] ! j) \<noteq> None"
    if "j < length (lg_tickets l)"
      "tk_digest ((lg_tickets l)[i := (lg_tickets l ! i)\<lparr>tk_consumedAt := Some now\<rparr>] ! j) = sha256 env ticket" for j
  proof (cases "j = i")
    case False
    then have "tk_digest (lg_tickets l ! j) = tk_digest (lg_tickets l ! i)" using that i by simp
    then show ?thesis using assms(2) i that False nth_eq_iff_index_eq [of "map tk_digest (lg_tickets l)" j i] by simp
  qed (use i in simp)
  then show ?thesis unfolding spent_def all_set_conv_all_nth by simp
qed

lemma consumed_calls:
  "op_sat (\<lambda>l l' r. distinct (map tk_digest (lg_tickets l)) \<longrightarrow> (\<forall>t. consumed_ticket c (Inr r) = Some t \<longrightarrow> spent (sha256 env t) l'))
     (call_op env o' now c)"
proof (cases c)
  case (ConsumeTicket b t)
  show ?thesis unfolding ConsumeTicket call_op.simps
    by (intro sat_rules) (auto intro: spent_after_claim)
next
  case (ConsumeTicketForTransport t p a g u)
  show ?thesis unfolding ConsumeTicketForTransport call_op.simps ticket_ops
    by (intro sat_rules) (auto intro: spent_after_claim)
qed (auto simp: op_sat_def res_sat_def split: sum.splits prod.splits)

lemma validate_distinct_tickets: "validateState env o' l \<Longrightarrow> distinct (map tk_digest (lg_tickets l))"
  by (simp add: validateState_def)

lemma consumed_not_read: "consumed_ticket c r = Some t \<Longrightarrow> \<not> is_read c"
  using consumed_claimed [of c r t] by (cases c) simp_all

lemma spent_replay:
  assumes "replay_log env o' l log = Some l'" and "spent d l"
    and "\<And>now c x t. (now, c, Inr x) \<in> set log \<Longrightarrow> minted_ticket (Inr x) = Some t \<Longrightarrow> sha256 env t \<noteq> d"
  shows "spent d l'"
  using assms(1,2)
proof (rule replay_invariant [where P = "spent d"])
  fix now c x and l l' :: ledger
  assume s: "spent d l" and e: "(now, c, Inr x) \<in> set log" and p: "perform env o' now c l = (Inr x, l')"
  obtain l1 where "keeps_spent env d c l l1 x" and "l' = (if is_read c then l else l1)"
    by (rule perform_InrE [OF p spent_calls [of env d]])
  then show "spent d l'" using s assms(3) [OF e] by (auto simp: keeps_spent_def)
qed

lemma replay_middle:
  assumes "replay_log env o' l (a @ (now, c, Inr x) # b) = Some l'"
  obtains m m' where "replay_log env o' l a = Some m" and "perform env o' now c m = (Inr x, m')" and "replay_log env o' m' b = Some l'"
  using assms by (auto simp: replay_append split: bind_splits prod.splits if_splits)

lemma consumed_Inr: "consumed_ticket c r = Some t \<Longrightarrow> \<exists>x. r = Inr x"
  by (cases r) (simp_all add: consumed_ticket_def)

lemma consumed_twice_minted:
  assumes "replay_log env o' l (a @ (n1, c1, r1) # m @ (n2, c2, r2) # z) = Some l'"
    and "consumed_ticket c1 r1 = Some t" and "consumed_ticket c2 r2 = Some t"
  shows "\<exists>(n, c, r)\<in>set m. \<exists>u. minted_ticket r = Some u \<and> sha256 env u = sha256 env t"
proof (rule ccontr)
  assume no: "\<not> ?thesis"
  obtain x1 x2 where r: "r1 = Inr x1" "r2 = Inr x2" using assms(2,3) consumed_Inr by blast
  obtain l1 l1' where p1: "perform env o' n1 c1 l1 = (Inr x1, l1')" and rest: "replay_log env o' l1' (m @ (n2, c2, Inr x2) # z) = Some l'"
    by (rule replay_middle [OF assms(1) [unfolded r]])
  obtain l2 l2' where m: "replay_log env o' l1' m = Some l2" and p2: "perform env o' n2 c2 l2 = (Inr x2, l2')"
    by (rule replay_middle [OF rest])
  have "spent (sha256 env t) l1'"
    by (rule perform_InrE [OF p1 consumed_calls [of c1 env]])
       (use assms(2) r consumed_not_read validate_distinct_tickets in auto)
  then have s: "spent (sha256 env t) l2" by (rule spent_replay [OF m]) (use no in fastforce)
  have none: "minted_ticket (Inr x2) = None"
    using assms(3) r by (auto simp: consumed_ticket_def minted_ticket_def split: outcome.splits)
  show False
    by (rule perform_InrE [OF p2 spent_calls [of env "sha256 env t"]]) (use s none assms(3) r in \<open>auto simp: keeps_spent_def\<close>)
qed

subsection \<open>Idempotency\<close>

definition held :: "jsstr \<Rightarrow> int \<Rightarrow> ledger \<Rightarrow> bool" where
  "held d until l \<longleftrightarrow> (\<exists>i\<in>set (lg_idempotency l). sameDigest (si_keyDigest i) d \<and> until \<le> si_expiresAt i)"

text \<open>The key that a call reserved, or released, by its result.\<close>

fun reserving :: "call \<Rightarrow> idempotency_key option" where
  "reserving (ReserveIdempotency d k) = Some k"
| "reserving c = None"

fun releasing :: "call \<Rightarrow> idempotency_key option" where
  "releasing (ReleaseIdempotency k t) = Some k"
| "releasing c = None"

definition reserved_key :: "ledger_env \<Rightarrow> call \<Rightarrow> result \<Rightarrow> jsstr option" where
  "reserved_key env c r = (case r of Inr (ONew token) \<Rightarrow> map_option (key_digest env) (reserving c) | _ \<Rightarrow> None)"

definition released_key :: "ledger_env \<Rightarrow> call \<Rightarrow> result \<Rightarrow> jsstr option" where
  "released_key env c r = (case r of Inr OReleased \<Rightarrow> map_option (key_digest env) (releasing c) | _ \<Rightarrow> None)"

definition keeps_held :: "ledger_env \<Rightarrow> jsstr \<Rightarrow> int \<Rightarrow> int \<Rightarrow> call \<Rightarrow> ledger \<Rightarrow> ledger \<Rightarrow> outcome \<Rightarrow> bool" where
  "keeps_held env d until now c l l' r \<longleftrightarrow>
     (held d until l \<longrightarrow> now < until \<longrightarrow> until \<le> now + day_ms \<longrightarrow> released_key env c (Inr r) \<noteq> Some d \<longrightarrow>
        held d until l' \<and> reserved_key env c (Inr r) \<noteq> Some d)"

lemma held_unexpired: "held d until l \<Longrightarrow> now < until \<Longrightarrow> held d until (l\<lparr>lg_idempotency := unexpired_records now l\<rparr>)"
  by (auto simp: held_def unexpired_records_def)

lemma held_append: "held d until l \<Longrightarrow> now < until \<Longrightarrow> held d until (l\<lparr>lg_idempotency := unexpired_records now l @ xs\<rparr>)"
  by (auto simp: held_def unexpired_records_def)

lemma held_found:
  assumes "List.find (\<lambda>i. sameDigest (si_keyDigest i) d) (unexpired_records now l) = None" and "now < until"
  shows "\<not> held d until l"
  using assms by (auto simp: held_def unexpired_records_def find_None_iff)

lemma in_update: "x \<in> set xs \<Longrightarrow> n < length xs \<Longrightarrow> x = xs ! n \<or> x \<in> set (xs[n := y])"
  by (metis in_set_conv_nth length_list_update nth_list_update_neq)

lemma held_complete:
  assumes "held d until l" and "until \<le> now + day_ms" and "n < length (lg_idempotency l)"
  shows "held d until (l\<lparr>lg_idempotency := (lg_idempotency l)[n := completed now v (lg_idempotency l ! n)]\<rparr>)"
proof -
  obtain i where i: "i \<in> set (lg_idempotency l)" "sameDigest (si_keyDigest i) d" "until \<le> si_expiresAt i"
    using assms(1) by (auto simp: held_def)
  show ?thesis
  proof (cases "i = lg_idempotency l ! n")
    case True
    have "completed now v i \<in> set ((lg_idempotency l)[n := completed now v i])" using assms(3) by (rule set_update_memI)
    moreover have "sameDigest (si_keyDigest (completed now v i)) d" "until \<le> si_expiresAt (completed now v i)"
      using i assms(2) by (simp_all add: completed_def)
    ultimately show ?thesis using True by (auto simp: held_def)
  next
    case False
    then have "i \<in> set ((lg_idempotency l)[n := completed now v (lg_idempotency l ! n)])" using in_update [OF i(1) assms(3)] by blast
    then show ?thesis using i by (auto simp: held_def)
  qed
qed

lemma in_remove_index: "x \<in> set xs \<Longrightarrow> n < length xs \<Longrightarrow> x \<noteq> xs ! n \<Longrightarrow> x \<in> set (remove_index n xs)"
  using id_take_nth_drop [of n xs] by (auto simp: remove_index_def) (metis Un_iff insert_iff list.simps(15) set_append)

lemma held_release:
  assumes "held d until l" and "now < until" and "find_index (\<lambda>i. sameDigest (si_keyDigest i) e) (unexpired_records now l) = Some n" and "e \<noteq> d"
  shows "held d until (l\<lparr>lg_idempotency := remove_index n (unexpired_records now l)\<rparr>)"
proof -
  obtain i where i: "i \<in> set (unexpired_records now l)" "sameDigest (si_keyDigest i) d" "until \<le> si_expiresAt i"
    using assms(1,2) by (auto simp: held_def unexpired_records_def)
  have n: "n < length (unexpired_records now l)" "sameDigest (si_keyDigest (unexpired_records now l ! n)) e"
    using find_index_Some [OF assms(3)] by auto
  have "i \<noteq> unexpired_records now l ! n" using n(2) i(2) assms(4) by (auto simp: sameDigest_def)
  then show ?thesis using in_remove_index [OF i(1) n(1)] i by (auto simp: held_def)
qed

lemma key_simps [simp]:
  "reserving c = None \<Longrightarrow> reserved_key env c r = None"
  "reserved_key env (ReserveIdempotency dr k) (Inr (ONew t)) = Some (key_digest env k)"
  "released_key env (ReleaseIdempotency k t) (Inr OReleased) = Some (key_digest env k)"
  by (auto simp: reserved_key_def released_key_def split: sum.splits outcome.splits)

lemma reserved_only_new: "(\<And>t. r \<noteq> ONew t) \<Longrightarrow> reserved_key env c (Inr r) = None"
  by (simp add: reserved_key_def split: outcome.splits)

lemma held_calls: "op_sat (keeps_held env d until now c) (call_op env o' now c)"
proof (cases "idempotency_call c")
  case False
  then have "reserving c = None" by (cases c) simp_all
  then show ?thesis
    by (intro op_sat_mono [OF idempotency_frame [OF False, of env o' now]]) (simp add: keeps_held_def held_def)
next
  case True
  then show ?thesis
  proof (cases c)
    case (ReserveIdempotency dr k)
    show ?thesis unfolding ReserveIdempotency call_op.simps idempotency_ops Let_def
      by (intro sat_rules) (auto simp: keeps_held_def reserved_only_new intro: held_unexpired held_append dest: held_found)
  next
    case (CompleteIdempotency k t v)
    show ?thesis unfolding CompleteIdempotency call_op.simps idempotency_ops Let_def
      by (intro sat_rules) (auto simp: keeps_held_def intro: held_unexpired held_complete dest: find_index_Some)
  next
    case (ReleaseIdempotency k t)
    show ?thesis unfolding ReleaseIdempotency call_op.simps idempotency_ops Let_def
      by (intro sat_rules) (auto simp: keeps_held_def intro: held_unexpired held_release)
  next
    case (ReconcileIdempotency k v)
    show ?thesis unfolding ReconcileIdempotency call_op.simps idempotency_ops Let_def
      by (intro sat_rules) (auto simp: keeps_held_def intro: held_unexpired held_complete dest: find_index_Some)
  next
    case CleanupIdempotency
    show ?thesis unfolding CleanupIdempotency call_op.simps idempotency_ops Let_def
      by (intro sat_rules) (auto simp: keeps_held_def intro: held_unexpired)
  qed simp_all
qed

lemma reserved_Inr: "reserved_key env c r = Some d \<Longrightarrow> \<exists>x. r = Inr x"
  by (cases r) (simp_all add: reserved_key_def)

lemma reserved_not_read: "reserved_key env c r = Some d \<Longrightarrow> \<not> is_read c"
  by (cases c) (auto simp: reserved_key_def split: sum.splits outcome.splits)

lemma reserved_held:
  "op_sat (\<lambda>l l' r. (\<forall>i\<in>set (lg_idempotency l'). is_DIGEST (si_keyDigest i)) \<longrightarrow> reserved_key env c (Inr r) = Some d \<longrightarrow> held d (now + day_ms) l')
     (call_op env o' now c)"
proof (cases c)
  case (ReserveIdempotency dr k)
  show ?thesis unfolding ReserveIdempotency call_op.simps idempotency_ops Let_def
    by (intro sat_rules) (auto simp: reserved_only_new held_def sameDigest_def)
qed (auto simp: op_sat_def res_sat_def split: sum.splits prod.splits)

lemma validate_key_digests: "validateState env o' l \<Longrightarrow> i \<in> set (lg_idempotency l) \<Longrightarrow> is_DIGEST (si_keyDigest i)"
  by (auto simp: validateState_def list_all_iff idempotency_ok_def)

lemma held_replay:
  assumes "replay_log env o' l log = Some l'" and "held d until l"
    and "\<And>now c x. (now, c, Inr x) \<in> set log \<Longrightarrow> now < until \<and> until \<le> now + day_ms \<and> released_key env c (Inr x) \<noteq> Some d"
  shows "held d until l'"
  using assms(1,2)
proof (rule replay_invariant [where P = "held d until"])
  fix now c x and l l' :: ledger
  assume s: "held d until l" and e: "(now, c, Inr x) \<in> set log" and p: "perform env o' now c l = (Inr x, l')"
  obtain l1 where "keeps_held env d until now c l l1 x" and "l' = (if is_read c then l else l1)"
    by (rule perform_InrE [OF p held_calls [of env d until]])
  then show "held d until l'" using s assms(3) [OF e] by (auto simp: keeps_held_def)
qed

lemma reserved_twice_released:
  assumes "replay_log env o' l (a @ (n1, c1, r1) # m @ (n2, c2, r2) # z) = Some l'"
    and "reserved_key env c1 r1 = Some d" and "reserved_key env c2 r2 = Some d"
    and clocks: "\<And>n c r. (n, c, r) \<in> set (m @ [(n2, c2, r2)]) \<Longrightarrow> n1 \<le> n \<and> n < n1 + day_ms"
  shows "\<exists>(n, c, r)\<in>set m. released_key env c r = Some d"
proof (rule ccontr)
  assume no: "\<not> ?thesis"
  obtain x1 x2 where r: "r1 = Inr x1" "r2 = Inr x2" using assms(2,3) reserved_Inr by blast
  obtain l1 l1' where p1: "perform env o' n1 c1 l1 = (Inr x1, l1')" and rest: "replay_log env o' l1' (m @ (n2, c2, Inr x2) # z) = Some l'"
    by (rule replay_middle [OF assms(1) [unfolded r]])
  obtain l2 l2' where m: "replay_log env o' l1' m = Some l2" and p2: "perform env o' n2 c2 l2 = (Inr x2, l2')"
    by (rule replay_middle [OF rest])
  have "held d (n1 + day_ms) l1'"
    by (rule perform_InrE [OF p1 reserved_held [of env c1 d]])
       (use assms(2) r reserved_not_read validate_key_digests in auto)
  then have h: "held d (n1 + day_ms) l2" by (rule held_replay [OF m]) (use no clocks in fastforce)
  have none: "released_key env c2 (Inr x2) \<noteq> Some d"
    using assms(3) r by (auto simp: reserved_key_def released_key_def split: outcome.splits)
  have n: "n2 < n1 + day_ms" "n1 + day_ms \<le> n2 + day_ms" using clocks [of n2 c2 r2] by simp_all
  show False
    by (rule perform_InrE [OF p2 held_calls [of env d "n1 + day_ms"]])
       (use h n none assms(3) r in \<open>auto simp: keeps_held_def\<close>)
qed

subsection \<open>Admission\<close>

definition scope_reservations :: "jsstr \<Rightarrow> ledger \<Rightarrow> admission_reservation list" where
  "scope_reservations scopeId l = filter (\<lambda>r. ar_scopeId r = scopeId) (lg_admissionReservations l)"

text \<open>What the reservations of a scope amount to, in one of the fields.\<close>

definition outstanding :: "(amounts \<Rightarrow> int) \<Rightarrow> jsstr \<Rightarrow> ledger \<Rightarrow> int" where
  "outstanding field scopeId l = sum_list (map (field \<circ> ar_delta) (scope_reservations scopeId l))"

lemma saturated_total:
  assumes "\<forall>x\<in>set xs. 0 \<le> f x" and "foldl (\<lambda>sum x. saturatedAdd sum (f x)) a xs \<le> b" and "b < max_safe_integer" and "a \<le> max_safe_integer"
  shows "a + sum_list (map f xs) \<le> b"
  using assms
proof (induction xs arbitrary: a)
  case (Cons x xs)
  have full: "foldl (\<lambda>sum x. saturatedAdd sum (f x)) max_safe_integer ys = max_safe_integer" if "\<forall>x\<in>set ys. 0 \<le> f x" for ys
    using that by (induction ys) (auto simp: saturatedAdd_def max_safe_integer_def)
  show ?case
  proof (cases "a > max_safe_integer - f x")
    case True
    then show ?thesis using Cons.prems full [of xs] by (simp add: saturatedAdd_def)
  next
    case False
    then show ?thesis using Cons.IH [of "a + f x"] Cons.prems by (simp add: saturatedAdd_def)
  qed
qed simp

lemma admission_fields_cases:
  assumes "(field, reason) \<in> set admission_fields"
  obtains "field = am_activeRuntimes" | "field = am_retainedRuntimes" | "field = am_workspaceCapacityBytes" | "field = am_cpuMillis"
    | "field = am_memoryBytes" | "field = am_gpuUnits"
  using assms by (auto simp: admission_fields_def)

lemma validate_deltas:
  "validateState env o' l \<Longrightarrow> r \<in> set (lg_admissionReservations l) \<Longrightarrow> (field, reason) \<in> set admission_fields \<Longrightarrow> 0 \<le> field (ar_delta r)"
  by (erule admission_fields_cases) (auto simp: validateState_def list_all_iff reservation_ok_def bounded_def Let_def)

lemma usage_bounds: "usage_ok u \<Longrightarrow> (field, reason) \<in> set admission_fields \<Longrightarrow> 0 \<le> field u \<and> field u \<le> max_safe_integer"
  by (erule admission_fields_cases) (auto simp: usage_ok_def bounded_def is_safe_integer_def)

lemma delta_bounds:
  "decodeScopeAdmissionPolicy (aq_policy q) \<Longrightarrow> bounded 0 max_safe_integer (case aq_workspaceCapacityBytes q of None \<Rightarrow> 0 | Some n \<Rightarrow> n) \<Longrightarrow>
   (field, reason) \<in> set admission_fields \<Longrightarrow> 0 \<le> field (admission_delta q)"
  by (erule admission_fields_cases) (auto simp: admission_delta_def decodeScopeAdmissionPolicy_def bounded_def Let_def)

lemma total_within:
  assumes "admission_total field delta usage scoped \<le> limit" and "limit < max_safe_integer"
    and "\<forall>r\<in>set scoped. 0 \<le> field (ar_delta r)" and "0 \<le> field delta" and "field usage \<le> max_safe_integer"
  shows "field usage + field delta + sum_list (map (field \<circ> ar_delta) scoped) \<le> limit"
proof -
  have "foldl (\<lambda>sum x. saturatedAdd sum (f x)) a xs \<ge> a" if "a \<le> max_safe_integer" "\<forall>x\<in>set xs. 0 \<le> f x"
    for f :: "admission_reservation \<Rightarrow> int" and a xs
    using that
  proof (induction xs arbitrary: a)
    case (Cons x xs)
    then have "a \<le> saturatedAdd a (f x)" "saturatedAdd a (f x) \<le> max_safe_integer" by (auto simp: saturatedAdd_def)
    then show ?case using Cons.IH [of "saturatedAdd a (f x)"] Cons.prems by simp
  qed simp
  note grows = this
  let ?a = "saturatedAdd (field usage) (field delta)"
  have a: "?a \<le> max_safe_integer" using assms by (auto simp: saturatedAdd_def)
  have "?a \<le> admission_total field delta usage scoped" unfolding admission_total_def by (rule grows) (use a assms in auto)
  then have "?a < max_safe_integer" using assms(1,2) by simp
  then have "?a = field usage + field delta" by (auto simp: saturatedAdd_def split: if_splits)
  moreover have "?a + sum_list (map (\<lambda>r. field (ar_delta r)) scoped) \<le> limit"
    by (rule saturated_total) (use assms a in \<open>auto simp: admission_total_def\<close>)
  ultimately show ?thesis by (simp add: comp_def)
qed

lemma outstanding_append:
  "ar_scopeId x = scopeId \<Longrightarrow>
   outstanding field scopeId (l\<lparr>lg_admissionReservations := rs @ [x], lg_admissionRateEvents := e\<rparr>) =
     field (ar_delta x) + sum_list (map (field \<circ> ar_delta) (filter (\<lambda>r. ar_scopeId r = scopeId) rs))"
  by (simp add: outstanding_def scope_reservations_def)

lemma admitted_within:
  assumes f: "(field, reason) \<in> set admission_fields" and lim: "field (ap_limits (aq_policy q)) < max_safe_integer"
  shows "op_sat (\<lambda>l l' r. (\<forall>r\<in>set (lg_admissionReservations l). 0 \<le> field (ar_delta r)) \<longrightarrow> (\<exists>t. r = OAdmitted t) \<longrightarrow>
    field (aq_usage q) + outstanding field (aq_scopeId q) l' \<le> field (ap_limits (aq_policy q))) (reserveAdmission env o' now drawn q)"
proof -
  have sum: "field (aq_usage q) + (field (admission_delta q) + sum_list (map (field \<circ> ar_delta) (filter (\<lambda>r. ar_scopeId r = aq_scopeId q) rs)))
      \<le> field (ap_limits (aq_policy q))"
    if "List.find (\<lambda>(field, reason). admission_total field (admission_delta q) (aq_usage q) (filter (\<lambda>r. ar_scopeId r = aq_scopeId q) rs)
          > field (ap_limits (aq_policy q))) admission_fields = None"
      and "\<forall>r\<in>set rs. 0 \<le> field (ar_delta r)" and "usage_ok (aq_usage q)" and "decodeScopeAdmissionPolicy (aq_policy q)"
      and "bounded 0 max_safe_integer (case aq_workspaceCapacityBytes q of None \<Rightarrow> 0 | Some n \<Rightarrow> n)" for rs
  proof -
    have "admission_total field (admission_delta q) (aq_usage q) (filter (\<lambda>r. ar_scopeId r = aq_scopeId q) rs) \<le> field (ap_limits (aq_policy q))"
      using that(1) f by (auto simp: find_None_iff)
    then have "field (aq_usage q) + field (admission_delta q) + sum_list (map (field \<circ> ar_delta) (filter (\<lambda>r. ar_scopeId r = aq_scopeId q) rs))
        \<le> field (ap_limits (aq_policy q))"
      by (rule total_within) (use that lim f usage_bounds delta_bounds in auto)
    then show ?thesis by simp
  qed
  show ?thesis unfolding reserveAdmission_def Let_def
    apply (intro sat_rules impI)
         apply (simp; fail)+
    apply (subst outstanding_append, simp)
    apply (simp only: admission_reservation.select_convs)
    apply (rule sum)
    by simp_all
qed

end
