(* ===== verification/LedgerReader.thy ===== *)
theory LedgerReader
  imports LedgerSafety
begin

text \<open>
  The journal of infrastructure events as its readers see it. The cursors of a scope are a faithful
  encoding of its sequence numbers. As long as the clocks of the calls do not go back, the events
  that the ledger retains are a suffix of all events ever appended, so a reader gets the next events
  without a gap, or is told that its cursor expired.
\<close>

subsection \<open>Cursors\<close>

lemma digit36_inverse: "d < 36 \<Longrightarrow> digit36_value (digit36 d) = Some d"
proof -
  assume d: "d < 36"
  have u: "unat (of_nat n :: 16 word) = n" if "n < 200" for n
    using that by (simp add: unat_of_nat take_bit_nat_eq_self_iff)
  show ?thesis
  proof (cases "d < 10")
    case True
    then show ?thesis using u [of "48 + d"] by (simp add: digit36_def digit36_value_def word_le_nat_alt del: of_nat_add)
  next
    case False
    then show ?thesis using u [of "87 + d"] d by (simp add: digit36_def digit36_value_def word_le_nat_alt del: of_nat_add)
  qed
qed

lemma parse_snoc:
  "parse_base36 a (s @ [c]) = Option.bind (parse_base36 a s) (\<lambda>m. map_option (\<lambda>d. 36 * m + d) (digit36_value c))"
  by (induction a s rule: parse_base36.induct) (auto split: option.splits)

lemma parse_to_base36: "parse_base36 0 (to_base36 n) = Some n"
proof (induction n rule: to_base36.induct)
  case (1 n)
  show ?case
  proof (cases "n < 36")
    case True
    then show ?thesis using digit36_inverse by (simp add: to_base36.simps [of n])
  next
    case False
    then show ?thesis using 1 digit36_inverse [of "n mod 36"]
      by (simp add: to_base36.simps [of n] parse_snoc mult_div_mod_eq)
  qed
qed

lemma to_base36_nonempty: "to_base36 n \<noteq> []"
  by (subst to_base36.simps) simp

definition hex_digests :: "ledger_env \<Rightarrow> bool" where
  "hex_digests env \<longleftrightarrow> (\<forall>s. is_DIGEST (sha256 env s))"

lemma decode_cursor:
  assumes "hex_digests env"
  shows "decodeEventCursor env scopeId (eventCursor env scopeId (int n)) = (if int n \<le> max_safe_integer then Some (int n) else None)"
proof -
  define p where "p = take 16 (sha256 env scopeId)"
  have d: "length (sha256 env scopeId) = 64" "list_all (\<lambda>c. 48 \<le> c \<and> c \<le> 57 \<or> 97 \<le> c \<and> c \<le> 102) (sha256 env scopeId)"
    using assms by (simp_all add: hex_digests_def is_DIGEST_def)
  have p: "length p = 16" "list_all (\<lambda>c. 48 \<le> c \<and> c \<le> 57 \<or> 97 \<le> c \<and> c \<le> 102) p"
    using d by (auto simp: p_def list_all_iff dest: in_set_takeD)
  have k: "length (js ''k1.'') = 3" "length (js ''.'') = 1" by (simp_all add: js_def)
  have c: "eventCursor env scopeId (int n) = js ''k1.'' @ p @ js ''.'' @ to_base36 n"
    by (simp add: eventCursor_def cursor_prefix_def p_def)
  have "take 3 (eventCursor env scopeId (int n)) = js ''k1.''" "take 16 (drop 3 (eventCursor env scopeId (int n))) = p"
    "take 1 (drop (3 + 16) (eventCursor env scopeId (int n))) = js ''.''" "drop (3 + 17) (eventCursor env scopeId (int n)) = to_base36 n"
    unfolding c using k p(1) by simp_all
  moreover have "bounded 0 max_safe_integer (int n) = (int n \<le> max_safe_integer)"
    by (auto simp: bounded_def is_safe_integer_def max_safe_integer_def)
  ultimately show ?thesis
    using p k unfolding decodeEventCursor_def Let_def p_def [symmetric] by (simp only: to_base36_nonempty parse_to_base36) simp
qed

lemma cursor_inject:
  assumes "eventCursor env scopeId (int m) = eventCursor env scopeId (int n)"
  shows "m = n"
proof -
  have "to_base36 m = to_base36 n" using assms by (simp add: eventCursor_def)
  then have "Some m = Some n" using parse_to_base36 by metis
  then show ?thesis by simp
qed

subsection \<open>The history of a scope\<close>

text \<open>
  The events of a scope in the order of the log: an append that returns the next cursor adds its
  event, one that returns an older cursor found the event already there.
\<close>

definition append_entry :: "ledger_env \<Rightarrow> jsstr \<Rightarrow> infrastructure_event list \<Rightarrow> int \<times> call \<times> result \<Rightarrow> infrastructure_event list" where
  "append_entry env scopeId J entry =
     (case entry of (now, c, r) \<Rightarrow>
        (case r of
           Inr (OAppended e cur) \<Rightarrow>
             if event_call c \<and> ev_scopeId e = scopeId \<and> cur = eventCursor env scopeId (int (length J) + 1) then J @ [e] else J
         | _ \<Rightarrow> J))"

definition appended :: "ledger_env \<Rightarrow> jsstr \<Rightarrow> log \<Rightarrow> infrastructure_event list" where
  "appended env scopeId log = foldl (append_entry env scopeId) [] log"

definition numbered :: "infrastructure_event list \<Rightarrow> (int \<times> infrastructure_event) list" where
  "numbered J = map (\<lambda>i. (int i + 1, J ! i)) [0..<length J]"

lemma numbered_snoc: "numbered (J @ [e]) = numbered J @ [(int (length J) + 1, e)]"
  by (simp add: numbered_def nth_append)

lemma drop_numbered: "drop k (numbered J) = map (\<lambda>i. (int i + 1, J ! i)) [k..<length J]"
  by (simp add: numbered_def drop_map)

lemma filter_from: "filter (\<lambda>i. n \<le> i) [k..<m] = [max k n..<m]"
  by (induction m) (auto simp: max_def)

lemma filter_numbered:
  assumes "k \<le> n"
  shows "filter (\<lambda>p. fst p > int n) (drop k (numbered J)) = drop n (numbered J)"
proof -
  have "filter ((\<lambda>p. fst p > int n) \<circ> (\<lambda>i. (int i + 1, J ! i))) [k..<length J] = filter (\<lambda>i. n \<le> i) [k..<length J]"
    by (rule filter_cong) auto
  then show ?thesis using assms by (simp add: drop_numbered filter_map filter_from max_def)
qed

lemma sorted_filter_drop:
  fixes f :: "'a \<Rightarrow> int"
  assumes "sorted (map f xs)"
  obtains m where "filter (\<lambda>x. f x > t) xs = drop m xs"
  using assms
proof (induction xs arbitrary: thesis)
  case Nil
  then show ?case by simp
next
  case (Cons x xs)
  show ?case
  proof (cases "f x > t")
    case True
    then have "filter (\<lambda>x. f x > t) xs = xs" using Cons.prems(2) by (auto intro!: filter_True)
    then show ?thesis using True Cons.prems(1) [of 0] by simp
  next
    case False
    obtain m where "filter (\<lambda>x. f x > t) xs = drop m xs" using Cons.IH Cons.prems(2) by auto
    then show ?thesis using False Cons.prems(1) [of "Suc m"] by simp
  qed
qed

definition scope_events :: "jsstr \<Rightarrow> ledger \<Rightarrow> stored_event list" where
  "scope_events scopeId l = filter (\<lambda>s. ev_scopeId (se_event s) = scopeId) (lg_events l)"

definition event_numbers :: "stored_event list \<Rightarrow> (int \<times> infrastructure_event) list" where
  "event_numbers = map (\<lambda>s. (se_sequence s, se_event s))"

text \<open>The ledger retains a suffix of the history, and no event is younger than the last clock.\<close>

definition history_retained :: "jsstr \<Rightarrow> infrastructure_event list \<Rightarrow> int \<Rightarrow> ledger \<Rightarrow> bool" where
  "history_retained scopeId J T l \<longleftrightarrow>
     head_sequence l scopeId = int (length J) \<and> sorted (map se_storedAt (scope_events scopeId l)) \<and>
     (\<forall>s\<in>set (scope_events scopeId l). se_storedAt s \<le> T) \<and> (\<exists>k\<le>length J. event_numbers (scope_events scopeId l) = drop k (numbered J))"

lemma journal_later: "history_retained scopeId J T l \<Longrightarrow> T \<le> T' \<Longrightarrow> history_retained scopeId J T' l"
  by (force simp: history_retained_def)

lemma retained_suffix:
  assumes "sorted (map se_storedAt xs)" and "event_numbers xs = drop k (numbered J)" and "k \<le> length J"
  shows "\<exists>k'\<le>length J. event_numbers (filter (\<lambda>s. se_storedAt s > t) xs) = drop k' (numbered J)"
proof -
  obtain m where m: "filter (\<lambda>s. se_storedAt s > t) xs = drop m xs" by (rule sorted_filter_drop [OF assms(1)])
  have "event_numbers (drop m xs) = drop (m + k) (numbered J)"
    using assms(2) by (simp add: event_numbers_def drop_map [symmetric])
  then have "event_numbers (drop m xs) = drop (min (m + k) (length J)) (numbered J)"
    by (auto simp: min_def numbered_def)
  then show ?thesis using m by (intro exI [of _ "min (m + k) (length J)"]) simp
qed

lemma scope_retained:
  "scope_events scopeId (l\<lparr>lg_events := retained_events o' now l\<rparr>) = filter (\<lambda>s. se_storedAt s > now - eventRetentionMs o') (scope_events scopeId l)"
  by (simp add: scope_events_def retained_events_def conj_commute)

lemma scoped_scope: "scoped_events o' now scopeId l = filter (\<lambda>s. se_storedAt s > now - eventRetentionMs o') (scope_events scopeId l)"
  by (simp add: scoped_events_def scope_events_def conj_commute)

lemma journal_retained:
  assumes "history_retained scopeId J T l"
  shows "history_retained scopeId J T (l\<lparr>lg_events := retained_events o' now l\<rparr>)"
  using assms retained_suffix [of "scope_events scopeId l" _ J "now - eventRetentionMs o'"]
  unfolding history_retained_def scope_retained by (auto simp: head_sequence_def sorted_filter)

lemma head_set:
  "head_of (case find_index (\<lambda>h. eh_scopeId h = s) heads of None \<Rightarrow> heads @ [\<lparr>eh_scopeId = s, eh_sequence = n\<rparr>]
     | Some i \<Rightarrow> heads[i := \<lparr>eh_scopeId = s, eh_sequence = n\<rparr>]) scopeId = (if scopeId = s then Some n else head_of heads scopeId)"
  by (induction heads) (auto simp: head_of_def split: option.splits)

lemma head_sequence_set:
  "head_sequence (l\<lparr>lg_eventHeads := (case find_index (\<lambda>h. eh_scopeId h = s) (lg_eventHeads l) of
       None \<Rightarrow> lg_eventHeads l @ [\<lparr>eh_scopeId = s, eh_sequence = n\<rparr>] | Some i \<Rightarrow> (lg_eventHeads l)[i := \<lparr>eh_scopeId = s, eh_sequence = n\<rparr>]),
     lg_events := es\<rparr>) scopeId = (if scopeId = s then n else head_sequence l scopeId)"
  by (simp add: head_sequence_def head_set)

lemma number_bounds: "(n, e) \<in> set (numbered J) \<Longrightarrow> 1 \<le> n \<and> n \<le> int (length J)"
  by (auto simp: numbered_def)

lemma journal_duplicate:
  assumes "history_retained scopeId J T l" and "List.find p (retained_events o' now l) = Some s" and "ev_scopeId (se_event s) = scopeId"
  shows "eventCursor env scopeId (se_sequence s) \<noteq> eventCursor env scopeId (int (length J) + 1)"
proof
  assume eq: "eventCursor env scopeId (se_sequence s) = eventCursor env scopeId (int (length J) + 1)"
  have "s \<in> set (scope_events scopeId l)"
    using find_Some_iff [OF assms(2)] assms(3) by (auto simp: retained_events_def scope_events_def)
  then have "(se_sequence s, se_event s) \<in> set (event_numbers (scope_events scopeId l))" by (auto simp: event_numbers_def)
  then have n: "1 \<le> se_sequence s" "se_sequence s \<le> int (length J)"
    using assms(1) number_bounds in_set_dropD unfolding history_retained_def by metis+
  have "nat (se_sequence s) = length J + 1"
    by (rule cursor_inject [of env scopeId]) (use eq n in \<open>simp add: nat_add_distrib add.commute\<close>)
  then show False using n by simp
qed

lemma journal_new:
  assumes "history_retained scopeId J T l" and "T \<le> now" and "lg_events l' = retained_events o' now l @ [\<lparr>se_sequence = int (length J) + 1, se_event = e, se_storedAt = now\<rparr>]"
    and "ev_scopeId e = scopeId" and "head_sequence l' scopeId = int (length J) + 1"
  shows "history_retained scopeId (J @ [e]) now l'"
proof -
  have r: "history_retained scopeId J T (l\<lparr>lg_events := retained_events o' now l\<rparr>)" by (rule journal_retained [OF assms(1)])
  have s: "scope_events scopeId l' = scope_events scopeId (l\<lparr>lg_events := retained_events o' now l\<rparr>) @
      [\<lparr>se_sequence = int (length J) + 1, se_event = e, se_storedAt = now\<rparr>]"
    using assms(3,4) by (simp add: scope_events_def)
  obtain k where k: "k \<le> length J" "event_numbers (scope_events scopeId (l\<lparr>lg_events := retained_events o' now l\<rparr>)) = drop k (numbered J)"
    using r by (auto simp: history_retained_def)
  have "event_numbers (scope_events scopeId l') = drop k (numbered (J @ [e]))"
    unfolding s numbered_snoc using k by (simp add: event_numbers_def numbered_def)
  then show ?thesis
    using r assms(2,5) k(1) unfolding history_retained_def s by (force simp: sorted_append intro: exI [of _ k])
qed

lemma journal_other:
  assumes "history_retained scopeId J T l" and "T \<le> now" and "lg_events l' = retained_events o' now l @ [x]" and "ev_scopeId (se_event x) \<noteq> scopeId"
    and "head_sequence l' scopeId = head_sequence l scopeId"
  shows "history_retained scopeId J now l'"
proof -
  have "scope_events scopeId l' = scope_events scopeId (l\<lparr>lg_events := retained_events o' now l\<rparr>)"
    using assms(3,4) by (simp add: scope_events_def)
  then have "history_retained scopeId J T l'"
    using journal_retained [OF assms(1), of o' now] assms(5) by (simp add: history_retained_def head_sequence_def)
  then show ?thesis using assms(2) by (rule journal_later)
qed

lemma append_entry_simps:
  "append_entry env scopeId J (now, AppendEvent g, Inr (OAppended e cur)) =
     (if ev_scopeId e = scopeId \<and> cur = eventCursor env scopeId (int (length J) + 1) then J @ [e] else J)"
  "\<not> event_call c \<Longrightarrow> append_entry env scopeId J (now, c, r) = J"
  "append_entry env scopeId J (now, c, Inl err) = J"
  by (auto simp: append_entry_def split: sum.splits outcome.splits)

lemma journal_calls:
  "op_sat (\<lambda>l l' r. history_retained scopeId J T l \<longrightarrow> T \<le> now \<longrightarrow> history_retained scopeId (append_entry env scopeId J (now, c, Inr r)) now l')
     (call_op env o' now c)"
proof (cases "event_call c")
  case False
  have "history_retained scopeId J now l'" if "history_retained scopeId J T l" "T \<le> now" "lg_events l' = lg_events l \<and> lg_eventHeads l' = lg_eventHeads l" for l l'
    using journal_later [OF that(1,2)] that(3) by (simp add: history_retained_def head_sequence_def scope_events_def)
  then show ?thesis
    by (intro op_sat_mono [OF events_frame [OF False, of env o' now]]) (simp add: append_entry_simps(2) [OF False])
next
  case True
  then obtain g where c: "c = AppendEvent g" by (cases c) simp_all
  show ?thesis unfolding c call_op.simps appendInfrastructureEvent_def Let_def
  proof (intro sat_rules impI, goal_cases)
    case (1 e l)
    show ?case
    proof (cases "ev_scopeId e = scopeId")
      case True
      have h: "head_sequence l scopeId = int (length J)" using 1(7) by (simp add: history_retained_def)
      show ?thesis unfolding append_entry_simps True
        by (simp only: h, simp, rule journal_new [OF 1(7,8)]) (use True h in \<open>simp_all add: head_sequence_set\<close>)
    next
      case False
      then show ?thesis unfolding append_entry_simps
        by (simp, intro journal_other [OF 1(7,8)]) (auto simp: head_sequence_set)
    qed
  next
    case (2 e l s)
    then have "ev_scopeId (se_event s) = ev_scopeId e" by (simp add: same_event_def)
    then have "append_entry env scopeId J (now, AppendEvent g, Inr (OAppended (se_event s) (eventCursor env (ev_scopeId e) (se_sequence s)))) = J"
      using journal_duplicate [OF 2(5,3)] by (auto simp: append_entry_simps)
    then show ?case using journal_later [OF journal_retained [OF 2(5), of o' now] 2(6)] by simp
  qed
qed

lemma journal_replay:
  assumes "replay_log env o' l log = Some l'" and "history_retained scopeId J T l" and "sorted (T # map fst log)"
  shows "\<exists>T'. history_retained scopeId (foldl (append_entry env scopeId) J log) T' l'"
  using assms
proof (induction log arbitrary: l J T)
  case Nil
  then show ?case by auto
next
  case (Cons entry log)
  obtain now c r where e: "entry = (now, c, r)" by (cases entry)
  obtain r' m where p: "perform env o' now c l = (r', m)" by fastforce
  have T: "T \<le> now" "sorted (now # map fst log)" using Cons.prems(3) e by auto
  show ?case
  proof (cases r)
    case (Inl err)
    then have "replay_log env o' l log = Some l'"
      using Cons.prems(1) e p perform_Inl [of env o' now c l err] by (auto split: if_splits)
    then show ?thesis
      using Cons.IH [OF _ journal_later [OF Cons.prems(2) T(1)] T(2)] by (simp add: e Inl append_entry_simps)
  next
    case (Inr x)
    then have rest: "perform env o' now c l = (Inr x, m)" "replay_log env o' m log = Some l'"
      using Cons.prems(1) e p by (auto split: if_splits)
    obtain l1 where l1: "history_retained scopeId J T l \<longrightarrow> T \<le> now \<longrightarrow> history_retained scopeId (append_entry env scopeId J (now, c, Inr x)) now l1"
      and m: "m = (if is_read c then l else l1)"
      by (rule perform_InrE [OF rest(1) journal_calls [of scopeId J T]])
    have "is_read c \<Longrightarrow> append_entry env scopeId J (now, c, Inr x) = J" by (rule append_entry_simps) (cases c; simp)
    then have "history_retained scopeId (append_entry env scopeId J (now, c, Inr x)) now m"
      using l1 m Cons.prems(2) T(1) journal_later by auto
    then show ?thesis using Cons.IH [OF rest(2) _ T(2)] by (simp add: e Inr)
  qed
qed

lemma selected_numbers:
  assumes "event_numbers xs = drop k (numbered J)" and "k \<le> n"
  shows "event_numbers (take m (filter (\<lambda>s. se_sequence s > int n) xs)) = take m (drop n (numbered J))"
proof -
  have "event_numbers (filter (\<lambda>s. se_sequence s > int n) xs) = filter (\<lambda>p. fst p > int n) (event_numbers xs)"
    by (simp add: event_numbers_def filter_map comp_def)
  then show ?thesis using filter_numbered [OF assms(2), of J] assms(1) by (simp add: event_numbers_def take_map [symmetric])
qed

lemma numbers_events: "map se_event xs = map snd (event_numbers xs)" "map se_sequence xs = map fst (event_numbers xs)"
  by (simp_all add: event_numbers_def)

lemma snd_numbered: "map snd (numbered J) = J" 
  by (simp add: numbered_def comp_def map_nth)

lemma selected_events:
  assumes "event_numbers ys = take m (drop n (numbered J))"
  shows "map se_event ys = take m (drop n J)" and "ys \<noteq> [] \<Longrightarrow> se_sequence (last ys) = int (n + length ys)"
proof -
  show "map se_event ys = take m (drop n J)"
    unfolding numbers_events assms by (simp add: take_map [symmetric] drop_map [symmetric] snd_numbered)
next
  assume ne: "ys \<noteq> []"
  have len: "length ys = min m (length J - n)"
    using arg_cong [OF assms, of length] by (simp add: event_numbers_def numbered_def)
  have "se_sequence (last ys) = fst (last (event_numbers ys))"
    using ne by (simp add: event_numbers_def last_map)
  also have "\<dots> = fst (event_numbers ys ! (length ys - 1))"
    using ne by (simp add: last_conv_nth event_numbers_def)
  also have "\<dots> = int (n + length ys)"
  proof -
    have "0 < length ys" using ne by simp
    then have pos: "length ys - 1 < length ys" "n + (length ys - 1) < length J" using len by linarith+
    then have "(take m (drop n (numbered J))) ! (length ys - 1) = (int (n + (length ys - 1)) + 1, J ! (n + (length ys - 1)))"
      using len by (simp add: drop_numbered take_map)
    then show ?thesis unfolding assms using pos(1) by simp
  qed
  finally show "se_sequence (last ys) = int (n + length ys)" .
qed

lemma read_events:
  assumes J: "history_retained scopeId J T l" and "hex_digests env"
    and "readAfter env o' now drawn scopeId (eventCursor env scopeId (int n)) limit = Inr f" and "f l = Inr (l', OEvents es cur)"
  shows "es = take (length es) (drop n J) \<and> cur = eventCursor env scopeId (int (n + length es)) \<and> (es = [] \<longrightarrow> n = length J)"
proof -
  define m where "m = nat (case limit of None \<Rightarrow> max_list_limit | Some k \<Rightarrow> k)"
  define xs where "xs = scoped_events o' now scopeId l"
  define ys where "ys = take m (filter (\<lambda>s. se_sequence s > int n) xs)"
  have h: "head_sequence l scopeId = int (length J)" using J by (simp add: history_retained_def)
  obtain k where k: "event_numbers xs = drop k (numbered J)" "k \<le> length J"
    using J retained_suffix unfolding history_retained_def xs_def scoped_scope by metis
  have m: "1 \<le> m" and f: "f = (\<lambda>l.
      let scoped = scoped_events o' now scopeId l; head = head_sequence l scopeId;
          expired = (case scoped of s # _ \<Rightarrow> int n < se_sequence s - 1 | [] \<Rightarrow> int n < head)
      in if int n > head then Inl TypeErr
         else if expired then map_sum id (\<lambda>_. (l, OCursorExpired (opaque ''reset'' drawn))) (iso env now)
         else let selected = take m (filter (\<lambda>s. se_sequence s > int n) scoped);
                  tail = (if selected = [] then int n else se_sequence (last selected))
              in Inr (l, OEvents (map se_event selected) (eventCursor env scopeId tail)))"
    using assms(3) unfolding readAfter_def decode_cursor [OF assms(2)] m_def Let_def
    by (auto simp: bounded_def split: if_splits option.splits)
  have le: "n \<le> length J" and fresh: "case xs of s # _ \<Rightarrow> se_sequence s - 1 \<le> int n | [] \<Rightarrow> length J \<le> n"
    and es: "es = map se_event ys" and cur: "cur = eventCursor env scopeId (if ys = [] then int n else se_sequence (last ys))"
    using assms(4) unfolding f xs_def [symmetric] h Let_def ys_def
    by (cases "iso env now"; force split: if_splits list.splits)+
  have kn: "k \<le> n \<or> n = length J"
  proof (cases xs)
    case Nil
    then show ?thesis using fresh le by simp
  next
    case (Cons s rest)
    then have "drop k (numbered J) \<noteq> []" "se_sequence s = fst (hd (drop k (numbered J)))"
      using k(1) [symmetric] by (simp_all add: event_numbers_def)
    then have "se_sequence s = int k + 1" by (auto simp: drop_numbered hd_map)
    then show ?thesis using fresh Cons by simp
  qed
  then have ys: "event_numbers ys = take m (drop n (numbered J))"
    unfolding ys_def using selected_numbers [OF k(1)] k(2) by auto
  have len: "length ys = min m (length J - n)"
    using arg_cong [OF ys, of length] by (simp add: event_numbers_def numbered_def)
  show ?thesis
    using selected_events [OF ys] es cur len le m by (auto simp: min_def split: if_splits)
qed

end
