(* ===== verification/LedgerSamples.thy ===== *)
theory LedgerSamples
  imports LedgerReader JsonBound
begin

text \<open>
  Runs of the replicas to check the properties on: a schedule names the steps of the replicas, and
  \<open>interleave\<close> computes the run, which is one of \<open>replicas\<close>.
\<close>

subsection \<open>Schedules\<close>

datatype action = Invoke nat int call | Load nat | Store nat

type_synonym run_state = "log \<times> sqlite_row \<times> (nat \<Rightarrow> int replica)"

definition act :: "ledger_env \<Rightarrow> ledger_bounds \<Rightarrow> action \<Rightarrow> run_state \<Rightarrow> run_state" where
  "act env o' a = (\<lambda>(log, row, rs).
     case a of
       Invoke i now c \<Rightarrow>
         (case rs i of
            Waiting \<Rightarrow>
              (case call_op env o' now c of
                 Inl e \<Rightarrow> (log @ [(now, c, Inl e)], row, rs)
               | Inr f \<Rightarrow> (log, row, rs(i := Trying now c (nat (maximumContentionRetries o')))))
          | _ \<Rightarrow> (log, row, rs))
     | Load i \<Rightarrow>
         (case rs i of
            Trying now c n \<Rightarrow> (case load_step env o' sqlite_storage now c n row of (x, out) \<Rightarrow> (log @ entries_of now c out, row, rs(i := x)))
          | _ \<Rightarrow> (log, row, rs))
     | Store i \<Rightarrow>
         (case rs i of
            Holding now c k version l r \<Rightarrow>
              (case write_step sqlite_storage now c k version l r row of (row', x, out) \<Rightarrow> (log @ entries_of now c out, row', rs(i := x)))
          | _ \<Rightarrow> (log, row, rs)))"

definition interleave :: "ledger_env \<Rightarrow> ledger_bounds \<Rightarrow> action list \<Rightarrow> run_state" where
  "interleave env o' as = fold (act env o') as ([], None, \<lambda>_. Waiting)"

lemma act_replicas:
  assumes "replicas env o' sqlite_storage None log row rs" and "act env o' a (log, row, rs) = (log', row', rs')"
  shows "replicas env o' sqlite_storage None log' row' rs'"
  using assms
  by (cases a) (auto simp: act_def split: replica.splits sum.splits prod.splits
      intro: replicas.refuse replicas.invoke replicas.load replicas.store)

lemma fold_replicas:
  assumes "replicas env o' sqlite_storage None log row rs" and "fold (act env o') as (log, row, rs) = (log', row', rs')"
  shows "replicas env o' sqlite_storage None log' row' rs'"
  using assms
proof (induction as arbitrary: log row rs)
  case (Cons a as)
  obtain log1 row1 rs1 where "act env o' a (log, row, rs) = (log1, row1, rs1)" by (cases "act env o' a (log, row, rs)")
  then show ?case using Cons.IH [OF act_replicas [OF Cons.prems(1)]] Cons.prems(2) by simp
qed simp

lemma interleave_replicas:
  "interleave env o' as = (log, row, rs) \<Longrightarrow> replicas env o' sqlite_storage None log row rs"
  unfolding interleave_def by (rule fold_replicas [OF replicas.start])

text \<open>The calls of a single replica, one after the other.\<close>

definition alone :: "(int \<times> call) list \<Rightarrow> action list" where
  "alone calls = concat (map (\<lambda>(now, c). [Invoke 0 now c, Load 0, Store 0]) calls)"

subsection \<open>Samples\<close>

text \<open>
  To compute with the samples, the size of a small ledger is bounded by the lengths of its texts,
  without writing its own.
\<close>

definition text_size :: "jsstr list \<Rightarrow> int" where
  "text_size ss = 6 * int (sum_list (map length ss))"

definition digits_size :: "int \<Rightarrow> int" where
  "digits_size n = (if 0 \<le> n \<and> n < 10000000000000000 then 16 else int (length (int_str n)))"

definition ints_size :: "int list \<Rightarrow> int" where
  "ints_size ns = sum_list (map digits_size ns)"

lemma digits_size_ge: "int (length (int_str n)) \<le> digits_size n"
  using int_str_length [of n] by (simp add: digits_size_def)

lemma digits_size_add: "int (length (int_str n)) \<le> numeral k + digits_size n"
  using digits_size_ge [of n] zero_le_numeral [of k, where ?'a = int] by linarith

definition opt_list :: "'a option \<Rightarrow> 'a list" where
  "opt_list x = (case x of None \<Rightarrow> [] | Some a \<Rightarrow> [a])"

definition head_size :: "event_head \<Rightarrow> int" where
  "head_size h = 200 + text_size [eh_scopeId h] + ints_size [eh_sequence h]"

definition ticket_size :: "stored_ticket \<Rightarrow> int" where
  "ticket_size t =
     (let b = tk_binding t in 1200 + text_size [tk_digest t, tb_principalId b, tb_scopeId b, tb_audience b, tb_runtimeId b,
        tb_runtimeGeneration b, tb_providerControlGeneration b, tb_purpose b] +
      ints_size (tk_mintedAt t # tk_expiresAt t # opt_list (tk_consumedAt t) @ opt_list (tk_revokedAt t)))"

definition idempotency_size :: "stored_idempotency \<Rightarrow> int" where
  "idempotency_size i =
     800 + text_size [si_keyDigest i, si_bindingDigest i, si_reservationDigest i] +
     ints_size (si_createdAt i # si_expiresAt i # opt_list (si_completedAt i)) + int (sum_list (map json_bound (opt_list (si_result i))))"

definition tombstone_size :: "stored_tombstone \<Rightarrow> int" where
  "tombstone_size t =
     700 + text_size [tm_scopeId t, tm_resourceId t, tm_deletedAt t, tm_expiresAt t] + ints_size [tm_createdAt t, tm_expiresAtMs t]"

definition deletion_texts :: "deletion_intent \<Rightarrow> jsstr list" where
  "deletion_texts d = [di_expectedRevision d, di_backendRevision d, di_requestedAt d]"

definition issued_size :: "issued_identifier \<Rightarrow> int" where
  "issued_size i =
     1200 + text_size ([ii_scopeId i, ii_resourceId i, ii_bindingDigest i] @ opt_list (ii_incarnationUid i) @ opt_list (ii_deletedAt i) @
       concat (map deletion_texts (opt_list (ii_deletion i))) @ map cc_ownerToken (opt_list (ii_creation i))) +
     ints_size (map cc_leaseExpiresAt (opt_list (ii_creation i)))"

definition event_size :: "stored_event \<Rightarrow> int" where
  "event_size s =
     (let e = se_event s in 900 + text_size [ev_eventId e, ev_resourceId e, ev_scopeId e, ev_revision e, ev_phase e, ev_timestamp e] +
      ints_size [se_sequence s, se_storedAt s])"

definition reservation_size :: "admission_reservation \<Rightarrow> int" where
  "reservation_size r =
     (let d = ar_delta r in 1500 + text_size [ar_tokenDigest r, ar_resourceDigest r, ar_scopeId r] +
      ints_size [am_activeRuntimes d, am_retainedRuntimes d, am_workspaceCapacityBytes d, am_cpuMillis d, am_memoryBytes d,
        am_gpuUnits d, ar_createdAt r, ar_expiresAt r])"

definition rate_size :: "rate_event \<Rightarrow> int" where
  "rate_size r = 200 + text_size [re_scopeId r] + ints_size [re_createdAt r]"

definition ingress_size :: "runtime_ingress \<Rightarrow> int" where
  "ingress_size i = int (json_bound (ingress_val i)) + 1"

definition retirement_size :: "admission_retirement \<Rightarrow> int" where
  "retirement_size r = int (json_bound (retirement_val r)) + 1"

definition generation_size :: "control_generation \<Rightarrow> int" where
  "generation_size g = 500 + text_size [cg_principalId g, cg_generation g, cg_ownerId g] + ints_size [cg_updatedAt g]"

definition connection_size :: "provider_connection \<Rightarrow> int" where
  "connection_size c = int (json_bound (connection_val c)) + 1"

definition nonce_size :: "assertion_nonce \<Rightarrow> int" where
  "nonce_size n = 200 + text_size [an_digest n] + ints_size [an_expiresAt n]"

definition keyring_size :: "assertion_keyring \<Rightarrow> int" where
  "keyring_size k = 600 + text_size (kr_activeKid k # opt_list (kr_previousKid k)) + ints_size (kr_revision k # opt_list (kr_previousNotAfter k))"

definition ledger_size :: "ledger \<Rightarrow> int" where
  "ledger_size l = 2500 +
     sum_list (map head_size (lg_eventHeads l)) + sum_list (map ticket_size (lg_tickets l)) +
     sum_list (map idempotency_size (lg_idempotency l)) + sum_list (map tombstone_size (lg_tombstones l)) +
     sum_list (map issued_size (lg_issuedIdentifiers l)) + sum_list (map event_size (lg_events l)) +
     sum_list (map reservation_size (lg_admissionReservations l)) + sum_list (map rate_size (lg_admissionRateEvents l)) +
     sum_list (map ingress_size (lg_runtimeIngress l)) + sum_list (map retirement_size (lg_admissionRetirements l)) +
     sum_list (map generation_size (lg_providerControlGenerations l)) + sum_list (map connection_size (lg_providerConnections l)) +
     sum_list (map nonce_size (lg_providerAssertionNonces l)) + sum_list (map keyring_size (opt_list (lg_providerAssertionKeyring l)))"

lemma length_js: "length (js s) = length s"
  by (simp add: js_def)

lemma kind_length: "length (kind_name k) \<le> 9"
  by (cases k) (simp_all add: kind_name_def length_js)

lemma transition_length: "length (transition_name k) \<le> 13"
  by (cases k) (simp_all add: transition_name_def length_js)

lemmas size_simps = text_size_def ints_size_def opt_list_def opt_member_def int_val_def length_js binding_members_def Let_def

lemma record_sizes:
  "int (json_bound (ticket_val t)) + 1 \<le> ticket_size t"
  "int (json_bound (tombstone_val u)) + 1 \<le> tombstone_size u"
  "int (json_bound (stored_event_val s)) + 1 \<le> event_size s"
  using kind_length [of "tm_resourceKind u"] kind_length [of "ev_resourceKind (se_event s)"]
    digits_size_ge [of "tk_mintedAt t"] digits_size_ge [of "tk_expiresAt t"] digits_size_ge [of "the (tk_consumedAt t)"]
    digits_size_ge [of "the (tk_revokedAt t)"] digits_size_ge [of "tm_createdAt u"] digits_size_ge [of "tm_expiresAtMs u"]
    digits_size_ge [of "se_sequence s"] digits_size_ge [of "se_storedAt s"]
  by (auto simp: size_simps ticket_val_def tombstone_val_def stored_event_val_def ticket_size_def tombstone_size_def event_size_def
      split: option.splits)

lemma more_record_sizes:
  "int (json_bound (idempotency_val i)) + 1 \<le> idempotency_size i"
  "int (json_bound (issued_val j)) + 1 \<le> issued_size j"
  "int (json_bound (reservation_val r)) + 1 \<le> reservation_size r"
  using digits_size_ge [of "si_createdAt i"] digits_size_ge [of "si_expiresAt i"] digits_size_ge [of "the (si_completedAt i)"]
    digits_size_ge [of "cc_leaseExpiresAt (the (ii_creation j))"] digits_size_ge [of "am_activeRuntimes (ar_delta r)"]
    digits_size_ge [of "am_retainedRuntimes (ar_delta r)"] digits_size_ge [of "am_workspaceCapacityBytes (ar_delta r)"]
    digits_size_ge [of "am_cpuMillis (ar_delta r)"] digits_size_ge [of "am_memoryBytes (ar_delta r)"] digits_size_ge [of "am_gpuUnits (ar_delta r)"]
    digits_size_ge [of "ar_createdAt r"] digits_size_ge [of "ar_expiresAt r"]
    kind_length [of "ii_resourceKind j"] kind_length [of "ar_resourceKind r"] transition_length [of "ar_transition r"]
  by (auto simp: size_simps idempotency_val_def issued_val_def reservation_val_def idempotency_size_def issued_size_def reservation_size_def
      deletion_texts_def split: option.splits)

lemma array_size:
  assumes "\<And>x. int (json_bound (f x)) + 1 \<le> g x"
  shows "int (json_bound (JArr (map f xs))) \<le> 4 + sum_list (map g xs)"
proof -
  have "int (sum_list (map (\<lambda>x. json_bound (f x) + 1) xs)) \<le> sum_list (map g xs)"
  proof (induction xs)
    case (Cons x xs)
    then show ?case using assms [of x] by simp
  qed simp
  then show ?thesis by (simp add: comp_def)
qed

lemma ledger_size_ge: "int (json_bytes (ledger_val l)) \<le> ledger_size l"
proof -
  have one: "length (int_str 1) = 1" by (simp add: int_str_def nat_str.simps)
  have heads: "int (json_bound (JArr (map (\<lambda>h. JObj [(js ''scopeId'', JStr (eh_scopeId h)), (js ''sequence'', int_val (eh_sequence h))])
      (lg_eventHeads l)))) \<le> 4 + sum_list (map head_size (lg_eventHeads l))"
    by (rule array_size) (simp add: size_simps head_size_def digits_size_add)
  have rates: "int (json_bound (JArr (map (\<lambda>r. JObj [(js ''scopeId'', JStr (re_scopeId r)), (js ''createdAt'', int_val (re_createdAt r))])
      (lg_admissionRateEvents l)))) \<le> 4 + sum_list (map rate_size (lg_admissionRateEvents l))"
    by (rule array_size) (simp add: size_simps rate_size_def digits_size_add)
  have generations: "int (json_bound (JArr (map (\<lambda>g. JObj [(js ''principalId'', JStr (cg_principalId g)),
      (js ''generation'', JStr (cg_generation g)), (js ''ownerId'', JStr (cg_ownerId g)), (js ''updatedAt'', int_val (cg_updatedAt g))])
      (lg_providerControlGenerations l)))) \<le> 4 + sum_list (map generation_size (lg_providerControlGenerations l))"
    by (rule array_size) (simp add: size_simps generation_size_def digits_size_add)
  have nonces: "int (json_bound (JArr (map (\<lambda>n. JObj [(js ''digest'', JStr (an_digest n)), (js ''expiresAt'', int_val (an_expiresAt n))])
      (lg_providerAssertionNonces l)))) \<le> 4 + sum_list (map nonce_size (lg_providerAssertionNonces l))"
    by (rule array_size) (simp add: size_simps nonce_size_def digits_size_add)
  have keyring: "int (sum_list (map (\<lambda>(k, v). 6 * length k + 4 + json_bound v)
      (opt_member ''providerAssertionKeyring'' (\<lambda>k. JObj ([(js ''revision'', int_val (kr_revision k)), (js ''activeKid'', JStr (kr_activeKid k))] @
       opt_member ''previousKid'' JStr (kr_previousKid k) @ opt_member ''previousNotAfter'' int_val (kr_previousNotAfter k)))
       (lg_providerAssertionKeyring l)))) \<le> sum_list (map keyring_size (opt_list (lg_providerAssertionKeyring l)))"
    using digits_size_ge [of "kr_revision (the (lg_providerAssertionKeyring l))"]
      digits_size_ge [of "the (kr_previousNotAfter (the (lg_providerAssertionKeyring l)))"]
    by (auto simp: size_simps keyring_size_def split: option.splits)
  have "int (json_bound (ledger_val l)) \<le> ledger_size l"
    unfolding ledger_val_def ledger_size_def json_bound.simps(4) map_append sum_list_append
    using heads rates generations nonces keyring one
      array_size [of ticket_val ticket_size "lg_tickets l", OF record_sizes(1)] array_size [of tombstone_val tombstone_size "lg_tombstones l", OF record_sizes(2)]
      array_size [of stored_event_val event_size "lg_events l", OF record_sizes(3)] array_size [of idempotency_val idempotency_size "lg_idempotency l", OF more_record_sizes(1)]
      array_size [of issued_val issued_size "lg_issuedIdentifiers l", OF more_record_sizes(2)] array_size [of reservation_val reservation_size "lg_admissionReservations l", OF more_record_sizes(3)]
      array_size [of ingress_val ingress_size "lg_runtimeIngress l"] array_size [of retirement_val retirement_size "lg_admissionRetirements l"]
      array_size [of connection_val connection_size "lg_providerConnections l"]
    by (simp add: length_js int_val_def ingress_size_def retirement_size_def connection_size_def del: json_bound.simps(3))
  then show ?thesis using json_bound_ge [of "ledger_val l"] by simp
qed

text \<open>The exact sizes, which the samples do not need.\<close>

definition exact_state_bytes_ok :: "ledger_bounds \<Rightarrow> ledger \<Rightarrow> bool" where
  "exact_state_bytes_ok o' l \<longleftrightarrow> int (json_bytes (ledger_val l)) \<le> maximumStateBytes o'"

definition exact_serialized_ok :: "ledger \<Rightarrow> bool" where
  "exact_serialized_ok l \<longleftrightarrow> json_bytes (ledger_val l) \<le> max_state_bytes"

declare exact_state_bytes_ok_def [code drop: exact_state_bytes_ok] exact_serialized_ok_def [code drop: exact_serialized_ok]

lemma state_bytes_ok_code [code]:
  "state_bytes_ok o' l = (if ledger_size l \<le> maximumStateBytes o' then True else exact_state_bytes_ok o' l)"
  using ledger_size_ge [of l] by (auto simp: state_bytes_ok_def exact_state_bytes_ok_def)

lemma serialized_ok_code [code]:
  "serialized_ok l = (if ledger_size l \<le> 786432 then True else exact_serialized_ok l)"
  using ledger_size_ge [of l] by (auto simp: serialized_ok_def exact_serialized_ok_def max_state_bytes_def)

text \<open>Texts of the code, as lists of characters.\<close>

lemma literal_texts [code_unfold]:
  "js ''k1.'' = [107, 49, 46]" "js ''.'' = [46]" "js ''_'' = [95]"
  "js ''workspace'' = [119, 111, 114, 107, 115, 112, 97, 99, 101]" "js ''runtime'' = [114, 117, 110, 116, 105, 109, 101]"
  "js ''create'' = [99, 114, 101, 97, 116, 101]"
  by (simp_all add: js_def)

lemma name_char_code [code]: "name_char extra c = (if is_alnum c then True else c \<in> set (js extra))"
  by (simp add: name_char_def)

lemma phases_code [code]:
  "phases = [[80, 101, 110, 100, 105, 110, 103], [80, 114, 111, 118, 105, 115, 105, 111, 110, 105, 110, 103],
     [83, 116, 97, 114, 116, 105, 110, 103], [82, 101, 97, 100, 121], [83, 108, 101, 101, 112, 105, 110, 103],
     [83, 116, 111, 112, 112, 101, 100], [68, 101, 108, 101, 116, 105, 110, 103],
     [85, 110, 97, 118, 97, 105, 108, 97, 98, 108, 101], [68, 101, 103, 114, 97, 100, 101, 100], [70, 97, 105, 108, 101, 100]]"
  by (simp add: phases_def js_def)

text \<open>Digests that keep the hexadecimal digits of a text, and one date.\<close>

definition sample_digit :: "jschar \<Rightarrow> jschar" where
  "sample_digit c = (if 97 \<le> c \<and> c \<le> 102 then c else if 48 \<le> c \<and> c \<le> 57 then c else 48)"

definition sample_env :: ledger_env where
  "sample_env =
     \<lparr>sha256 = (\<lambda>s. take 64 (map sample_digit s @ replicate 64 48)), date_parse = (\<lambda>s. Some 0),
      date_iso = (\<lambda>n. [48])\<rparr>"

definition sample_bounds :: ledger_bounds where
  "sample_bounds = projr (newSharedControlStore \<lparr>so_maximumStateBytes = None, so_maximumTickets = None, so_maximumIdempotencyRecords = None,
     so_maximumIssuedIdentifiers = None, so_maximumAdmissionReservations = None, so_tombstoneRetentionSeconds = None,
     so_maximumTombstonesPerScope = None, so_eventRetentionSeconds = None, so_maximumEvents = None, so_maximumContentionRetries = None,
     so_maximumProviderConnections = None, so_maximumProviderAssertionNonces = None\<rparr>)"

end
