(* ===== verification/LedgerProperties.thy ===== *)
theory LedgerProperties
  imports LedgerSamples
begin

text \<open>
  What any run of the replicas on the SQLite storage shows, stated on the log of the calls that
  returned, and two faults of the store.
\<close>

subsection \<open>Sample runs\<close>

text \<open>The log of a single replica that makes the calls one after the other.\<close>

definition log_of :: "(int \<times> call) list \<Rightarrow> log" where
  "log_of calls = fst (interleave sample_env sample_bounds (alone calls))"

lemma log_of_replicas: "\<exists>row rs. replicas sample_env sample_bounds sqlite_storage None (log_of calls) row rs"
proof -
  obtain log row rs where i: "interleave sample_env sample_bounds (alone calls) = (log, row, rs)"
    by (cases "interleave sample_env sample_bounds (alone calls)")
  then show ?thesis using interleave_replicas [OF i] by (auto simp: log_of_def)
qed

definition race :: "action list" where
  "race =
     (let c = ReserveIssuedIdentifier [115, 49] KRuntime [114, 49] (replicate 64 48)
      in [Invoke 0 1000 c, Invoke 1 1001 c, Load 0, Load 1, Store 0, Store 1, Load 1])"

definition sample_binding :: ticket_binding where
  "sample_binding =
     \<lparr>tb_principalId = [112], tb_scopeId = [115], tb_audience = [97], tb_runtimeId = [114], tb_runtimeGeneration = [49],
      tb_providerControlGeneration = [50], tb_purpose = [117]\<rparr>"

definition sample_ticket :: jsstr where
  "sample_ticket = replicate 43 84"

text \<open>The same random ticket is drawn twice.\<close>

definition ticket_calls :: "(int \<times> call) list" where
  "ticket_calls =
     [(1000, MintTicket sample_ticket sample_binding 1), (1500, ConsumeTicket sample_binding sample_ticket),
      (3000, MintTicket sample_ticket sample_binding 1), (3100, ConsumeTicketForTransport sample_ticket [112] [97] [50] [117])]"

definition sample_command :: idempotency_key where
  "sample_command =
     \<lparr>ik_principalId = [112], ik_scopeId = [115], ik_method = [80, 85, 84], ik_canonicalPath = [47, 120],
      ik_idempotencyKey = replicate 16 107, ik_canonicalBodyDigest = replicate 64 48\<rparr>"

definition command_calls :: "(int \<times> call) list" where
  "command_calls =
     [(1000, ReserveIdempotency [49] sample_command), (1100, ReleaseIdempotency sample_command [114, 101, 115, 95, 49]),
      (1200, ReserveIdempotency [50] sample_command)]"

definition sample_amounts :: "int \<Rightarrow> amounts" where
  "sample_amounts n =
     \<lparr>am_activeRuntimes = n, am_retainedRuntimes = n, am_workspaceCapacityBytes = n, am_cpuMillis = n, am_memoryBytes = n, am_gpuUnits = n\<rparr>"

definition sample_request :: admission_request where
  "sample_request =
     \<lparr>aq_scopeId = [115], aq_resourceKey = [114], aq_resourceKind = KRuntime, aq_transition = None, aq_workspaceCapacityBytes = None,
      aq_active = True, aq_browserRequested = False,
      aq_policy = \<lparr>ap_limits = sample_amounts 2, ap_browserEnabled = False, ap_cpuMillis = 1, ap_memoryBytes = 1, ap_gpuUnits = 1,
        ap_windowSeconds = 60, ap_burst = 5, ap_maximumRetryAfterSeconds = 60\<rparr>,
      aq_usage = sample_amounts 1, aq_observedResourceDigests = []\<rparr>"

definition admission_calls :: "(int \<times> call) list" where
  "admission_calls = [(1000, ReserveAdmission [49] sample_request)]"

definition sample_event :: "jschar \<Rightarrow> infrastructure_event" where
  "sample_event c =
     \<lparr>ev_eventId = [c], ev_resourceKind = KRuntime, ev_resourceId = [114], ev_scopeId = [115], ev_revision = [49],
      ev_phase = [82, 101, 97, 100, 121], ev_timestamp = [48]\<rparr>"

definition reader_calls :: "(int \<times> call) list" where
  "reader_calls =
     [(1000, AppendEvent (sample_event 49)), (2000, AppendEvent (sample_event 50)),
      (3000, ReadAfter [49] [115] (eventCursor sample_env [115] 0) (Some 2))]"

text \<open>The clock of the replica that appends the second event is fifty seconds behind.\<close>

definition skewed_calls :: "(int \<times> call) list" where
  "skewed_calls =
     [(100000, AppendEvent (sample_event 49)), (50000, AppendEvent (sample_event 50)), (100001, AppendEvent (sample_event 51)),
      (115000, ReadAfter [49] [115] (eventCursor sample_env [115] 1) (Some 2))]"

lemma sample_digests: "hex_digests sample_env"
  by (auto simp: hex_digests_def is_DIGEST_def sample_env_def sample_digit_def list_all_iff dest!: in_set_takeD)

subsection \<open>Linearizability\<close>

text \<open>
  C4: however the reads and writes of the replicas interleave, and whichever of them stop, the calls
  that returned have the results, and the storage the content, of performing them one after the other
  in the order in which they returned; a call that reports the ledger unavailable may have had no
  effect.
\<close>

theorem mutate_linearizable:
  assumes "replicas env o' sqlite_storage None log row rs"
  shows "replay_log env o' initialState log = Some (state_or_initial row)"
  using sqlite_replay [OF assms] by (simp add: state_or_initial_def)

theorem mutate_linearizable_witness:
  "case interleave sample_env sample_bounds race of (log, row, rs) \<Rightarrow>
     map (\<lambda>(now, c, r). (now, case r of Inr (OIssued x _) \<Rightarrow> Some x | _ \<Rightarrow> None)) log = [(1000, Some IReserved), (1001, Some IExisting)] \<and>
     replay_log sample_env sample_bounds initialState log = Some (state_or_initial row)"
proof -
  obtain log row rs where i: "interleave sample_env sample_bounds race = (log, row, rs)" by (cases "interleave sample_env sample_bounds race")
  have "map (\<lambda>(now, c, r). (now, case r of Inr (OIssued x _) \<Rightarrow> Some x | _ \<Rightarrow> None)) (fst (interleave sample_env sample_bounds race)) =
      [(1000, Some IReserved), (1001, Some IExisting)]"
    by code_simp
  then show ?thesis using mutate_linearizable [OF interleave_replicas [OF i]] i by simp
qed

subsection \<open>Tickets\<close>

text \<open>
  C5: a ticket is consumed at most once, whichever replicas try and whatever their clocks say: when
  two calls in the log of a run consumed the same ticket, a ticket with its digest was minted
  between them.
\<close>

theorem ticket_single_use:
  assumes "replicas env o' sqlite_storage None (a @ (n1, c1, r1) # m @ (n2, c2, r2) # z) row rs"
    and "consumed_ticket c1 r1 = Some t" and "consumed_ticket c2 r2 = Some t"
  shows "\<exists>(n, c, r)\<in>set m. \<exists>u. minted_ticket r = Some u \<and> sha256 env u = sha256 env t"
  by (rule consumed_twice_minted [OF sqlite_replay [OF assms(1)] assms(2,3)])

theorem ticket_single_use_witness:
  "map (\<lambda>(n, c, r). (consumed_ticket c r, minted_ticket r)) (log_of ticket_calls) =
     [(None, Some sample_ticket), (Some sample_ticket, None), (None, Some sample_ticket), (Some sample_ticket, None)] \<and>
   list_ex (\<lambda>(n, c, r). map_option (sha256 sample_env) (minted_ticket r) = Some (sha256 sample_env sample_ticket)) [log_of ticket_calls ! 2]"
proof -
  have m: "map (\<lambda>(n, c, r). (consumed_ticket c r, minted_ticket r)) (log_of ticket_calls) =
      [(None, Some sample_ticket), (Some sample_ticket, None), (None, Some sample_ticket), (Some sample_ticket, None)]"
    by code_simp
  then obtain e0 n1 c1 r1 e2 n2 c2 r2 where l: "log_of ticket_calls = [e0] @ (n1, c1, r1) # [e2] @ (n2, c2, r2) # []"
    and t: "consumed_ticket c1 r1 = Some sample_ticket" "consumed_ticket c2 r2 = Some sample_ticket"
    by (auto simp: map_eq_Cons_conv)
  obtain row rs where r: "replicas sample_env sample_bounds sqlite_storage None (log_of ticket_calls) row rs" using log_of_replicas by blast
  show ?thesis using m l ticket_single_use [OF r [unfolded l] t] by auto
qed

subsection \<open>Idempotency\<close>

text \<open>
  C9: for a day a command runs under one reservation: when two calls in the log of a run reserved the
  same key, and the clocks of the calls since the first are within a day of it, the key was released
  between them. So a command that is not released is not started again, by any replica, while its
  record is kept.
\<close>

theorem command_reserved_once:
  assumes "replicas env o' sqlite_storage None (a @ (n1, c1, r1) # m @ (n2, c2, r2) # z) row rs"
    and "reserved_key env c1 r1 = Some d" and "reserved_key env c2 r2 = Some d"
    and "\<forall>(n, c, r)\<in>set (m @ [(n2, c2, r2)]). n1 \<le> n \<and> n < n1 + day_ms"
  shows "\<exists>(n, c, r)\<in>set m. released_key env c r = Some d"
  by (rule reserved_twice_released [OF sqlite_replay [OF assms(1)] assms(2,3)]) (use assms(4) in auto)

theorem command_reserved_once_witness:
  "map (\<lambda>(n, c, r). (n, reserved_key sample_env c r)) (log_of command_calls) =
     [(1000, Some (key_digest sample_env sample_command)), (1100, None), (1200, Some (key_digest sample_env sample_command))] \<and>
   list_ex (\<lambda>(n, c, r). released_key sample_env c r = Some (key_digest sample_env sample_command)) [log_of command_calls ! 1]"
proof -
  have m: "map (\<lambda>(n, c, r). (n, reserved_key sample_env c r)) (log_of command_calls) =
      [(1000, Some (key_digest sample_env sample_command)), (1100, None), (1200, Some (key_digest sample_env sample_command))]"
    by code_simp
  then obtain c1 r1 c r c2 r2 where l: "log_of command_calls = [] @ (1000, c1, r1) # [(1100, c, r)] @ (1200, c2, r2) # []"
    and t: "reserved_key sample_env c1 r1 = Some (key_digest sample_env sample_command)"
      "reserved_key sample_env c2 r2 = Some (key_digest sample_env sample_command)"
    by (auto simp: map_eq_Cons_conv)
  obtain row rs where p: "replicas sample_env sample_bounds sqlite_storage None (log_of command_calls) row rs" using log_of_replicas by blast
  have "\<forall>(n, c, r)\<in>set ([(1100, c, r)] @ [(1200, c2, r2)]). 1000 \<le> n \<and> n < 1000 + day_ms" by (simp add: day_ms_def)
  then show ?thesis using m l command_reserved_once [OF p [unfolded l] t] by auto
qed

subsection \<open>Admission\<close>

text \<open>
  C10: when a request is admitted, the usage that was observed and all that is reserved for the scope,
  by any replica and with the new request included, are within the limit of its policy, in every
  field. The sums saturate at the largest safe integer, so a limit below it is a limit.
\<close>

theorem admitted_within_limits:
  assumes "replicas env o' sqlite_storage None (log @ [(now, ReserveAdmission drawn q, Inr (OAdmitted token))]) row rs"
    and "(field, reason) \<in> set admission_fields" and "field (ap_limits (aq_policy q)) < max_safe_integer"
  shows "field (aq_usage q) + outstanding field (aq_scopeId q) (state_or_initial row) \<le> field (ap_limits (aq_policy q))"
proof -
  obtain l where p: "perform env o' now (ReserveAdmission drawn q) l = (Inr (OAdmitted token), state_or_initial row)"
    by (rule replay_middle [OF sqlite_replay [OF assms(1)]]) auto
  show ?thesis
    by (rule perform_InrE [OF p [unfolded call_op.simps] admitted_within [OF assms(2,3), of env o' now drawn, folded call_op.simps]])
       (use validate_deltas [OF _ _ assms(2)] in auto)
qed

theorem admitted_within_limits_witness:
  "log_of admission_calls = [(1000, ReserveAdmission [49] sample_request, Inr (OAdmitted [97, 100, 109, 95, 49]))] \<and>
   (case interleave sample_env sample_bounds (alone admission_calls) of (log, row, rs) \<Rightarrow>
      am_cpuMillis (aq_usage sample_request) + outstanding am_cpuMillis [115] (state_or_initial row) \<le> 2)"
proof -
  obtain log row rs where i: "interleave sample_env sample_bounds (alone admission_calls) = (log, row, rs)"
    by (cases "interleave sample_env sample_bounds (alone admission_calls)")
  have m: "log_of admission_calls = [(1000, ReserveAdmission [49] sample_request, Inr (OAdmitted [97, 100, 109, 95, 49]))]"
    by code_simp
  then have l: "log = [] @ [(1000, ReserveAdmission [49] sample_request, Inr (OAdmitted [97, 100, 109, 95, 49]))]"
    using i by (simp add: log_of_def)
  have "am_cpuMillis (aq_usage sample_request) + outstanding am_cpuMillis (aq_scopeId sample_request) (state_or_initial row)
      \<le> am_cpuMillis (ap_limits (aq_policy sample_request))"
    by (rule admitted_within_limits [OF interleave_replicas [OF i, unfolded l], of am_cpuMillis CpuLimit])
       (simp_all add: admission_fields_def sample_request_def sample_amounts_def max_safe_integer_def)
  then show ?thesis using m i by (simp add: sample_request_def sample_amounts_def)
qed

subsection \<open>The journal\<close>

text \<open>
  C8: as long as the clocks of the calls do not go back, a reader misses nothing: reading after a
  cursor returns the events of the scope that follow it, in the order in which they were appended and
  without a gap, with the cursor of the last of them, and it returns none only when the reader has
  them all.
\<close>

theorem journal_reader_complete:
  assumes "replicas env o' sqlite_storage None
      (log @ [(now, ReadAfter drawn scopeId (eventCursor env scopeId (int n)) limit, Inr (OEvents es cur))]) row rs"
    and "hex_digests env" and "sorted (map fst log)"
  shows "es = take (length es) (drop n (appended env scopeId log)) \<and> cur = eventCursor env scopeId (int (n + length es)) \<and>
    (es = [] \<longrightarrow> n = length (appended env scopeId log))"
proof -
  obtain l l' where l: "replay_log env o' initialState log = Some l"
    and p: "perform env o' now (ReadAfter drawn scopeId (eventCursor env scopeId (int n)) limit) l = (Inr (OEvents es cur), l')"
    by (rule replay_middle [OF sqlite_replay [OF assms(1)]]) (auto simp: state_or_initial_def)
  define T where "T = (case log of [] \<Rightarrow> 0 | e # _ \<Rightarrow> fst e)"
  have "sorted (T # map fst log)" using assms(3) by (cases log) (auto simp: T_def)
  then obtain T' where J: "history_retained scopeId (appended env scopeId log) T' l"
    using journal_replay [OF l, of scopeId "[]" T] unfolding appended_def
    by (auto simp: history_retained_def initialState_def head_sequence_def head_of_def scope_events_def event_numbers_def numbered_def)
  obtain f l1 where f: "readAfter env o' now drawn scopeId (eventCursor env scopeId (int n)) limit = Inr f" and "f l = Inr (l1, OEvents es cur)"
    using p by (auto simp: perform_def attempt_def split: sum.splits prod.splits if_splits)
  then show ?thesis by (rule read_events [OF J assms(2)])
qed

theorem journal_reader_complete_witness:
  "drop 2 (log_of reader_calls) =
     [(3000, ReadAfter [49] [115] (eventCursor sample_env [115] 0) (Some 2),
       Inr (OEvents [sample_event 49, sample_event 50] (eventCursor sample_env [115] 2)))] \<and>
   [sample_event 49, sample_event 50] = take 2 (drop 0 (appended sample_env [115] (take 2 (log_of reader_calls))))"
proof -
  have m: "drop 2 (log_of reader_calls) =
      [(3000, ReadAfter [49] [115] (eventCursor sample_env [115] 0) (Some 2),
        Inr (OEvents [sample_event 49, sample_event 50] (eventCursor sample_env [115] 2)))]"
    by code_simp
  have s: "sorted (map fst (take 2 (log_of reader_calls)))" by code_simp
  have "drop 2 (log_of reader_calls) = [(3000, ReadAfter [49] [115] (eventCursor sample_env [115] (int 0)) (Some 2),
      Inr (OEvents [sample_event 49, sample_event 50] (eventCursor sample_env [115] 2)))]"
    using m by simp
  then have l: "log_of reader_calls = take 2 (log_of reader_calls) @ [(3000, ReadAfter [49] [115] (eventCursor sample_env [115] (int 0)) (Some 2),
      Inr (OEvents [sample_event 49, sample_event 50] (eventCursor sample_env [115] 2)))]"
    by (metis append_take_drop_id)
  obtain row rs where "replicas sample_env sample_bounds sqlite_storage None (log_of reader_calls) row rs" using log_of_replicas by blast
  then have p: "replicas sample_env sample_bounds sqlite_storage None (take 2 (log_of reader_calls) @
      [(3000, ReadAfter [49] [115] (eventCursor sample_env [115] (int 0)) (Some 2),
        Inr (OEvents [sample_event 49, sample_event 50] (eventCursor sample_env [115] 2)))]) row rs"
    using l by metis
  have "[sample_event 49, sample_event 50] =
      take (length [sample_event 49, sample_event 50]) (drop 0 (appended sample_env [115] (take 2 (log_of reader_calls))))"
    by (rule conjunct1 [OF journal_reader_complete [OF p sample_digests s]])
  moreover have "length [sample_event 49, sample_event 50] = 2" by simp
  ultimately show ?thesis using m by (simp only: simp_thms)
qed

subsection \<open>Two faults\<close>

lemma events_ordered:
  "events_in_order env heads prior es \<Longrightarrow>
     sorted_wrt (\<lambda>s t. se_sequence s < se_sequence t) (filter (\<lambda>s. ev_scopeId (se_event s) = scopeId) es) \<and>
     (\<forall>s\<in>set es. ev_scopeId (se_event s) = scopeId \<longrightarrow>
        prior scopeId < se_sequence s \<and> (\<exists>h. head_of heads scopeId = Some h \<and> se_sequence s \<le> h))"
proof (induction es arbitrary: prior)
  case (Cons s es)
  then have "events_in_order env heads (prior(ev_scopeId (se_event s) := se_sequence s)) es" by (simp add: Let_def)
  from Cons.IH [OF this] show ?case using Cons.prems by (force simp: Let_def split: option.splits if_splits)
qed simp

lemma scoped_ordered:
  assumes "validateState env o' l"
  shows "sorted_wrt (\<lambda>s t. se_sequence s < se_sequence t) (scoped_events o' now scopeId l)"
    and "s \<in> set (lg_events l) \<Longrightarrow> ev_scopeId (se_event s) = scopeId \<Longrightarrow> se_sequence s \<le> head_sequence l scopeId"
proof -
  have o: "events_in_order env (lg_eventHeads l) (\<lambda>_. 0) (lg_events l)" using assms by (simp add: validateState_def)
  show "sorted_wrt (\<lambda>s t. se_sequence s < se_sequence t) (scoped_events o' now scopeId l)"
    unfolding scoped_scope scope_events_def using events_ordered [OF o, of scopeId] by (blast intro: sorted_wrt_filter)
  show "s \<in> set (lg_events l) \<Longrightarrow> ev_scopeId (se_event s) = scopeId \<Longrightarrow> se_sequence s \<le> head_sequence l scopeId"
    using events_ordered [OF o, of scopeId] by (auto simp: head_sequence_def)
qed

lemma read_selects:
  assumes "hex_digests env" and "perform env o' now (ReadAfter drawn scopeId (eventCursor env scopeId (int n)) limit) l = (Inr (OEvents es cur), l')"
  shows "\<exists>selected. es = map se_event selected \<and> set selected \<subseteq> set (lg_events l) \<and> (\<forall>s\<in>set selected. int n < se_sequence s)"
proof -
  obtain f where f: "readAfter env o' now drawn scopeId (eventCursor env scopeId (int n)) limit = Inr f" "\<exists>l1. f l = Inr (l1, OEvents es cur)"
    using assms(2) by (auto simp: perform_def attempt_def split: sum.splits if_splits prod.splits)
  then show ?thesis
    unfolding readAfter_def decode_cursor [OF assms(1)] Let_def
    by (cases "iso env now") (auto simp: scoped_events_def split: if_splits option.splits list.splits dest!: in_set_takeD)
qed

text \<open>
  C34: a reader can lose an event without being told. Take a valid ledger and a read after number
  \<open>n\<close> of a scope whose arguments are accepted and whose limit is not below the number of retained
  events. Suppose that at the reader's clock some event numbered at most \<open>n + 1\<close> is retained, an
  event with a higher number than \<open>n\<close> is past its retention, and one with a still higher number is
  retained, which happens when the replica that stored the second one had a clock behind the
  others. Then the read returns events and not that the cursor expired; the second event is not
  among them, the third is, and the cursor returned is beyond the second. And every read from a
  number that is not below that cursor, at any clock and on any ledger, returns only events numbered
  above it, so never the second event.
\<close>

theorem clock_skew_skips_event:
  assumes "hex_digests env" and "validateState env o' l"
    and "call_op env o' now (ReadAfter drawn scopeId (eventCursor env scopeId (int n)) limit) = Inr f"
    and "int (length (scoped_events o' now scopeId l)) \<le> (case limit of None \<Rightarrow> max_list_limit | Some k \<Rightarrow> k)"
    and "earlier \<in> set (scoped_events o' now scopeId l)" "se_sequence earlier \<le> int n + 1"
    and "lost \<in> set (lg_events l)" "ev_scopeId (se_event lost) = scopeId" "se_storedAt lost \<le> now - eventRetentionMs o'" "int n < se_sequence lost"
    and "later \<in> set (scoped_events o' now scopeId l)" "se_sequence lost < se_sequence later"
  shows "\<exists>es N. perform env o' now (ReadAfter drawn scopeId (eventCursor env scopeId (int n)) limit) l = (Inr (OEvents es (eventCursor env scopeId (int N))), l) \<and>
    se_event lost \<notin> set es \<and> se_event later \<in> set es \<and> se_sequence lost < int N \<and>
    (\<forall>m o2 now2 drawn2 limit2 l2 es2 cur2 l3. N \<le> m \<longrightarrow>
       perform env o2 now2 (ReadAfter drawn2 scopeId (eventCursor env scopeId (int m)) limit2) l2 = (Inr (OEvents es2 cur2), l3) \<longrightarrow>
       (\<forall>e\<in>set es2. \<exists>s\<in>set (lg_events l2). se_event s = e \<and> int N < se_sequence s))"
proof -
  let ?xs = "scoped_events o' now scopeId l"
  define sel where "sel = filter (\<lambda>s. se_sequence s > int n) ?xs"
  note order = scoped_ordered(1) [OF assms(2), where now = now and scopeId = scopeId]
  have late: "later \<in> set sel" using assms(10-12) by (simp add: sel_def)
  then have ne: "sel \<noteq> []" by auto
  have "sorted_wrt (\<lambda>s t. se_sequence s < se_sequence t) sel" unfolding sel_def by (rule sorted_wrt_filter [OF order])
  then have last: "se_sequence later \<le> se_sequence (last sel)"
    using late by (induction sel) (auto simp: less_imp_le)
  have big: "se_sequence lost < se_sequence (last sel)" using last assms(12) by simp
  have head: "int n \<le> head_sequence l scopeId" using scoped_ordered(2) [OF assms(2,7,8)] assms(10) by simp
  obtain x rest where x: "?xs = x # rest" using assms(5) by (cases ?xs) auto
  have first: "se_sequence x \<le> int n + 1"
    using order assms(5,6) unfolding x by (auto intro: order_trans [OF less_imp_le])
  have all: "take (nat (case limit of None \<Rightarrow> max_list_limit | Some k \<Rightarrow> k)) sel = sel"
  proof (rule take_all)
    have "length sel \<le> length ?xs" by (simp add: sel_def)
    then show "length sel \<le> nat (case limit of None \<Rightarrow> max_list_limit | Some k \<Rightarrow> k)" using assms(4) by simp
  qed
  have fresh: "\<not> (case ?xs of s # _ \<Rightarrow> int n < se_sequence s - 1 | [] \<Rightarrow> int n < head_sequence l scopeId)" using first by (simp add: x)
  have "readAfter env o' now drawn scopeId (eventCursor env scopeId (int n)) limit = Inr f" using assms(3) by simp
  then have f: "f = (\<lambda>l.
      let scoped = scoped_events o' now scopeId l; head = head_sequence l scopeId;
          expired = (case scoped of s # _ \<Rightarrow> int n < se_sequence s - 1 | [] \<Rightarrow> int n < head)
      in if int n > head then Inl TypeErr
         else if expired then map_sum id (\<lambda>_. (l, OCursorExpired (opaque ''reset'' drawn))) (LedgerState.iso env now)
         else let selected = take (nat (case limit of None \<Rightarrow> max_list_limit | Some k \<Rightarrow> k)) (filter (\<lambda>s. se_sequence s > int n) scoped);
                  tail = (if selected = [] then int n else se_sequence (last selected))
              in Inr (l, OEvents (map se_event selected) (eventCursor env scopeId tail)))"
    unfolding readAfter_def decode_cursor [OF assms(1)] Let_def by (simp split: if_splits option.splits)
  have "f l = Inr (l, OEvents (map se_event sel) (eventCursor env scopeId (se_sequence (last sel))))"
    unfolding f Let_def sel_def [symmetric] all using head fresh ne by simp
  then have read: "perform env o' now (ReadAfter drawn scopeId (eventCursor env scopeId (int n)) limit) l =
      (Inr (OEvents (map se_event sel) (eventCursor env scopeId (int (nat (se_sequence (last sel)))))), l)"
    using assms(2,3,10) big by (simp add: perform_def attempt_def)
  have "inj_on (ev_eventId \<circ> se_event) (set (lg_events l))" using assms(2) by (simp add: validateState_def distinct_map)
  then have "inj_on se_event (set (lg_events l))" by (rule inj_on_imageI2)
  moreover have "set sel \<subseteq> set (lg_events l)" "lost \<notin> set sel" using assms(9) by (auto simp: sel_def scoped_events_def)
  ultimately have "se_event lost \<notin> set (map se_event sel)" using assms(7) by (auto dest: inj_onD)
  moreover have "\<forall>e\<in>set es2. \<exists>s\<in>set (lg_events l2). se_event s = e \<and> int (nat (se_sequence (last sel))) < se_sequence s"
    if "nat (se_sequence (last sel)) \<le> m"
      and "perform env o2 now2 (ReadAfter drawn2 scopeId (eventCursor env scopeId (int m)) limit2) l2 = (Inr (OEvents es2 cur2), l3)"
    for m o2 now2 drawn2 limit2 l2 es2 cur2 l3
    using read_selects [OF assms(1) that(2)] that(1) by fastforce
  ultimately show ?thesis using read late big assms(10)
    by (intro exI [of _ "map se_event sel"] exI [of _ "nat (se_sequence (last sel))"]) auto
qed

definition skewed_ledger :: ledger where
  "skewed_ledger = initialState\<lparr>lg_eventHeads := [\<lparr>eh_scopeId = [115], eh_sequence = 3\<rparr>],
     lg_events := [\<lparr>se_sequence = 1, se_event = sample_event 49, se_storedAt = 100000\<rparr>,
       \<lparr>se_sequence = 2, se_event = sample_event 50, se_storedAt = 50000\<rparr>, \<lparr>se_sequence = 3, se_event = sample_event 51, se_storedAt = 100001\<rparr>]\<rparr>"

text \<open>The ledger after the three appends, the second with the clock that is behind.\<close>

theorem clock_skew_skips_event_witness:
  "replay_log sample_env sample_bounds initialState (log_of skewed_calls) = Some skewed_ledger \<and>
   (\<exists>es N. perform sample_env sample_bounds 115000 (ReadAfter [49] [115] (eventCursor sample_env [115] (int 1)) (Some 2)) skewed_ledger =
       (Inr (OEvents es (eventCursor sample_env [115] (int N))), skewed_ledger) \<and>
     sample_event 50 \<notin> set es \<and> sample_event 51 \<in> set es \<and> 2 < int N)"
proof -
  have r: "replay_log sample_env sample_bounds initialState (log_of skewed_calls) = Some skewed_ledger" by code_simp
  have v: "validateState sample_env sample_bounds skewed_ledger" by code_simp
  have opaque_scope: "ok_text is_OPAQUE [115]" by code_simp
  have "\<exists>f. call_op sample_env sample_bounds 115000 (ReadAfter [49] [115] (eventCursor sample_env [115] (int 1)) (Some 2)) = Inr f"
    by (simp add: readAfter_def decode_cursor [OF sample_digests, of _ 1, simplified]) (simp add: clock_ok_def bounded_def is_safe_integer_def max_safe_integer_def max_list_limit_def opaque_scope)
  then obtain f where f: "call_op sample_env sample_bounds 115000 (ReadAfter [49] [115] (eventCursor sample_env [115] (int 1)) (Some 2)) = Inr f" ..
  have ret: "eventRetentionMs sample_bounds = 60000" by code_simp
  have xs: "scoped_events sample_bounds 115000 [115] skewed_ledger =
      [\<lparr>se_sequence = 1, se_event = sample_event 49, se_storedAt = 100000\<rparr>, \<lparr>se_sequence = 3, se_event = sample_event 51, se_storedAt = 100001\<rparr>]"
    by (simp add: scoped_events_def skewed_ledger_def sample_event_def ret)
  show ?thesis
    using r clock_skew_skips_event [OF sample_digests v f, of "\<lparr>se_sequence = 1, se_event = sample_event 49, se_storedAt = 100000\<rparr>"
        "\<lparr>se_sequence = 2, se_event = sample_event 50, se_storedAt = 50000\<rparr>" "\<lparr>se_sequence = 3, se_event = sample_event 51, se_storedAt = 100001\<rparr>"]
    unfolding xs ret by (auto simp: skewed_ledger_def sample_event_def)
qed

text \<open>
  C35: the retention of tombstones cannot be changed while the ledger has one: a replica that starts
  with another retention finds the ledger invalid, and every call with valid arguments, reads
  included, reports the ledger unavailable.
\<close>

theorem retention_change_unavailable:
  assumes "validateState env o1 l" and "lg_tombstones l \<noteq> []" and "tombstoneRetentionMs o2 \<noteq> tombstoneRetentionMs o1"
    and "call_op env o2 now c = Inr f"
  shows "perform env o2 now c l = (Inl UnavailableErr, l)"
proof -
  obtain t where t: "t \<in> set (lg_tombstones l)" using assms(2) by (cases "lg_tombstones l") auto
  then have "tombstone_ok env o1 t" using assms(1) by (simp add: validateState_def list_all_iff)
  then have "\<not> tombstone_ok env o2 t" using assms(3) by (simp add: tombstone_ok_def)
  then have "\<not> validateState env o2 l" using t by (auto simp: validateState_def list_all_iff)
  then show ?thesis using assms(4) by (simp add: perform_def attempt_def)
qed

definition tombstone_ledger :: ledger where
  "tombstone_ledger = initialState\<lparr>lg_tombstones := [\<lparr>tm_scopeId = [115], tm_resourceKind = KRuntime, tm_resourceId = [114],
     tm_deletedAt = [48], tm_createdAt = 1000, tm_expiresAt = [48], tm_expiresAtMs = 86401000\<rparr>]\<rparr>"

theorem retention_change_unavailable_witness:
  "validateState sample_env sample_bounds tombstone_ledger \<and>
   perform sample_env (sample_bounds\<lparr>tombstoneRetentionMs := 172800000\<rparr>) 2000 CleanupIdempotency tombstone_ledger =
     (Inl UnavailableErr, tombstone_ledger)"
proof -
  have v: "validateState sample_env sample_bounds tombstone_ledger" by code_simp
  have b: "tombstoneRetentionMs sample_bounds = 86400000" by code_simp
  have "clock_ok 2000" by (simp add: clock_ok_def bounded_def is_safe_integer_def max_safe_integer_def)
  then obtain f where f: "call_op sample_env (sample_bounds\<lparr>tombstoneRetentionMs := 172800000\<rparr>) 2000 CleanupIdempotency = Inr f"
    by (simp add: cleanupIdempotency_def)
  show ?thesis using v retention_change_unavailable [OF v _ _ f] b by (simp add: tombstone_ledger_def)
qed

end
