(* ===== verification/Spec2Isabelle.thy ===== *)
theory Spec2Isabelle
  imports Idempotency ClientRuntime CacheRestart LedgerProperties
begin

text \<open>
  \<^bold>\<open>Omperator: sessions, projections and the shared control ledger\<close>

  Omperator (T4) shows agent sessions that run on hosts to clients, and lets several replicas of a
  control plane share one ledger. This library models three parts of it and how they interact.

  \<^item> \<^emph>\<open>A host session and the clients that follow it.\<close> The host (packages/host-service) keeps a
    session's transcript and a bounded ring of the frames it sent, answers an attach from the ring or
    with a snapshot cut to size, and runs each command once. The client (packages/client) filters the
    frames of a session by a durable cursor, publishes them to a reducer that keeps a bounded
    projection of all hosts, and saves the projection to a cache. Both speak the frames of
    packages/host-wire.
  \<^item> \<^emph>\<open>The client's bounded memory.\<close> Everything the client keeps is cut to caps: transcripts, events,
    terminals, files, previews, the warm sessions and the index.
  \<^item> \<^emph>\<open>The shared control ledger\<close> (packages/portable-control-store): tickets, idempotency records,
    tombstones, issued identifiers, admissions, runtime ingress, provider connections and an event
    journal in one document, which replicas read, change and write back by compare and swap.

  \<^bold>\<open>Foundations.\<close> \<open>Prelude\<close> has strings as lists of UTF-16 code units, array slices, safe integers and
  lemmas on lists; \<open>JsMap\<close> the insertion-ordered \<open>Map\<close>; \<open>Utf8\<close> the text codecs; \<open>JsValue\<close> JSON
  values with \<open>JSON.stringify\<close> and the bytes of its result; \<open>JsonBound\<close> a bound on those bytes. An error
  that is thrown is a value of a sum or option type. SHA-256, the URL parser, \<open>Date.parse\<close>,
  \<open>toISOString\<close>, clocks, random texts and the functions of a cache store are arguments.

  \<^bold>\<open>Wire.\<close> \<open>Wire\<close> has the frames, \<open>WireGuards\<close> the guards of host-wire (guards.ts, cursor.ts, ids.ts and
  the workspace part of cluster.ts). Lemmas: the byte count of a string is that of its encoding, except
  for a trailing surrogate; decoding a workspace row is idempotent.

  \<^bold>\<open>Retention.\<close> \<open>TranscriptRetention\<close> (transcript-retention.ts), \<open>Sanitize\<close>
  (projection-sanitize.ts), \<open>ResourceRetention\<close> (projection-retention.ts) and \<open>Preview\<close>
  (projection-preview.ts). The \<open>WeakMap\<close> of byte counts is no state: what it holds for a value is an
  argument of the counter, and sanitizing returns the count it remembers. Lemmas: byte counts are exact
  unless a member is named \<open>__proto__\<close>, copies stay within depth, width and bytes and
  hold no secret member, what is kept is the longest suffix that fits, and terminals and files stay
  within both caps.

  \<^bold>\<open>Client projection.\<close> \<open>ProjectionContract\<close> has the data and caps, \<open>ProjectionCore\<close>,
  \<open>ResourceReducers\<close> and \<open>ProjectionReducer\<close> the reducer, one definition per frame
  (projection-reducer.ts, projection-resource-reducers.ts). \<open>ProjectionInvariant\<close> and
  \<open>ProjectionPreservation\<close> show that every frame keeps the invariant of the projection;
  \<open>ProjectionProperties\<close> that cursors never go back, that a page of the inventory survives and that the
  warm sessions are the most recent; \<open>ProjectionWitness\<close> evaluates them.

  \<^bold>\<open>Host.\<close> \<open>SnapshotLimits\<close> (snapshot-limits.ts) shows that the snapshot loop ends within its limits, up to
  one byte for every parent id of one character;
  \<open>HostProjection\<close> models projection.ts and attach-output.ts; \<open>HostReplay\<close> shows that the ring is a chain
  of frames that ends at the cursor; \<open>Idempotency\<close> (idempotency.ts) that a command runs once and its
  result is replayed, and that its hash does not depend on the order of members.

  \<^bold>\<open>Following.\<close> The locale of \<open>CursorFollow\<close> says what it means to follow a session. The reducer
  (\<open>ClientFollow\<close>) and the cursor filter of the runtime (\<open>ClientRuntime\<close>) interpret it. \<open>CursorJournal\<close>
  models the durable cursors of omp-client-cursor.ts, with the queues of saves, the set of pending
  drains and loading, and shows that the newest cursor of a session is saved last. Composed with the
  host: an attach loses nothing, also with the frames of the session's agents behind it, and a client
  that is fed a replay reaches the cursor of the host, through filter and reducer, unless its own
  cursor is ahead within the host's epoch, when it is sent nothing.

  \<^bold>\<open>Cache.\<close> \<open>ProjectionCache\<close> (projection-cache.ts) writes and reads the cached envelope,
  \<open>SafeCopies\<close> and \<open>CacheRoundtrip\<close> show that what is written is read back; \<open>ProjectionStore\<close>
  (projection-store.ts) has the queue of saves, and \<open>CacheRestart\<close> shows what a restarted store restores.

  \<^bold>\<open>Ledger.\<close> \<open>LedgerState\<close> has the records and the validation of shared-control-store.ts,
  \<open>LedgerOperations\<close> and \<open>LedgerJournal\<close> one definition per method of \<open>SharedControlStore\<close>: the check of
  its arguments and the function of the ledger that it hands to \<open>#mutate\<close> or \<open>#read\<close>. \<open>LedgerCalls\<close>
  collects them in one type of calls and shows which fields a call leaves alone, with rules that follow
  the conditionals of an operation. \<open>LedgerStorage\<close> has the SQLite storage and the steps of the replicas,
  any of which may stop, or fail in the database without an effect; the locale \<open>versioned_storage\<close> states compare and swap, and the storage interprets it. From it follows
  that any interleaving is a sequence of calls. \<open>LedgerSafety\<close> and \<open>LedgerReader\<close> show on that sequence
  that a ticket is consumed once, that a command has one reservation, that admissions are within their
  limits, that readers of the journal miss nothing while clocks do not go back, and what they miss
  when the clocks of replicas differ.
  \<open>LedgerSamples\<close> computes runs, and \<open>LedgerProperties\<close> has the statements.

  \<^bold>\<open>Loops and bounds.\<close> Loops are structural or have a termination proof. The loop that cuts a
  snapshot is a partial function, which is shown to return; no fuel is used. The retries of \<open>#mutate\<close> count down from the configured
  number, as in the code. Caps and limits are those of the code, and options are arbitrary where the
  code lets them be.

  \<^bold>\<open>Abstractions.\<close> A promise is the event that settles it. Values that the code compares by identity are
  compared by value. The text that is stored for a projection or a ledger is represented by the value it
  is the text of, with its length in bytes; whether \<open>#mutate\<close> changed the ledger is decided on the
  records and not on their canonical texts. Integers of the code are unbounded integers where safe
  integers are checked by it. Objects have their own members only: where a copy assigns a member named
  \<open>__proto__\<close>, as \<open>safeValue\<close> of projection-sanitize.ts and \<open>safeJson\<close> of projection-cache.ts do, the
  model creates no member, as the code does, and reads nothing through the prototype that the code
  sets. A store of cursors whose \<open>save\<close> fails is taken to reject its promise.

  \<^bold>\<open>Not modelled.\<close> \<open>JSON.parse\<close> and the scanner in front of it, and the decoders of single frames, which
  are built from the modelled guards. Ledgers in older formats. \<open>subscribe\<close>, a generator that polls
  \<open>readAfter\<close>. The Kubernetes storage of the ledger and the SQLite store of a single process, whose
  semantics is that of services outside the repository. Sockets, timers, child processes and files of
  the client, the host and the cluster server, which only carry the frames and calls modelled here. The
  Kubernetes operator, the command line, the user interfaces, deployment and scripts.
\<close>

end
